(* ===== verification/Prelude.thy ===== *)
theory Prelude
  imports Complex_Main "HOL-Library.Word"
begin

text \<open>
  The shared base of the library: outcomes of Python calls (a value or a raised exception),
  the transactions of the unit of work, the table operations the SQL statements are made of,
  text as code points, fixed-width numerals and the text form of a UUID.
\<close>

section \<open>Lemma collections\<close>

named_theorems tx_defs \<open>definitions of the transaction combinators\<close>
named_theorems tx_elims \<open>what a successful transaction step means\<close>
named_theorems text_simps \<open>evaluation of text operations\<close>

section \<open>Outcomes of a call\<close>

text \<open>
  The exceptions of Python, its libraries and the database that the code does not turn into an
  error of its own, and \<open>InsufficientCoinsError\<close> of the unit of work.
\<close>

type_synonym uuid = "128 word"

datatype py_error =
    IntegrityError string
  | InsufficientCoinsError uuid
  | AssertionError
  | ValueError string
  | KeyError
  | LookupError
  | RuntimeError string
  | ZeroDivisionError
  | TypeError
  | OverflowError
  | OSError string

text \<open>What leaves a call by exception: an error of the service, or one of the above.\<close>

datatype 'e raised = Raised 'e | Crash py_error

text \<open>
  A step inside a transaction: from the tables it sees to an exception, or to its value and the
  tables with its writes. An exception carries no tables: they are never committed.
\<close>

type_synonym ('s, 'e, 'a) tx = "'s \<Rightarrow> 'e raised + ('a \<times> 's)"

definition tx_return :: "'a \<Rightarrow> ('s, 'e, 'a) tx" where
  "tx_return a s = Inr (a, s)"

definition tx_raise :: "'e \<Rightarrow> ('s, 'e, 'a) tx" where
  "tx_raise e s = Inl (Raised e)"

definition tx_crash :: "py_error \<Rightarrow> ('s, 'e, 'a) tx" where
  "tx_crash e s = Inl (Crash e)"

definition tx_bind :: "('s, 'e, 'a) tx \<Rightarrow> ('a \<Rightarrow> ('s, 'e, 'b) tx) \<Rightarrow> ('s, 'e, 'b) tx" where
  "tx_bind m f s = (case m s of Inl e \<Rightarrow> Inl e | Inr (a, s') \<Rightarrow> f a s')"

text \<open>A query: a value read from the tables.\<close>

definition tx_read :: "('s \<Rightarrow> 'a) \<Rightarrow> ('s, 'e, 'a) tx" where
  "tx_read q s = Inr (q s, s)"

text \<open>A write without a result.\<close>

definition tx_write :: "('s \<Rightarrow> 's) \<Rightarrow> ('s, 'e, unit) tx" where
  "tx_write w s = Inr ((), w s)"

text \<open>A function that raises or returns, called inside a transaction.\<close>

definition tx_check :: "'e + 'a \<Rightarrow> ('s, 'e, 'a) tx" where
  "tx_check r = (case r of Inl e \<Rightarrow> tx_raise e | Inr a \<Rightarrow> tx_return a)"

declare tx_return_def [tx_defs] tx_raise_def [tx_defs] tx_crash_def [tx_defs]
  tx_read_def [tx_defs] tx_write_def [tx_defs]

lemma tx_bind_simps [simp]:
  "m s = Inl e \<Longrightarrow> tx_bind m f s = Inl e"
  "m s = Inr (a, s') \<Longrightarrow> tx_bind m f s = f a s'"
  by (simp_all add: tx_bind_def)

lemma tx_return_bind [simp]: "tx_bind (tx_return a) f = f a"
  by (simp add: fun_eq_iff tx_bind_def tx_return_def)

lemma tx_bind_return [simp]: "tx_bind m tx_return = m"
  by (simp add: fun_eq_iff tx_bind_def tx_return_def split: sum.splits)

lemma tx_bind_assoc: "tx_bind (tx_bind m f) g = tx_bind m (\<lambda>a. tx_bind (f a) g)"
  by (simp add: fun_eq_iff tx_bind_def split: sum.splits)

lemma tx_read_bind [simp]: "tx_bind (tx_read q) f s = f (q s) s"
  by (simp add: tx_bind_def tx_read_def)

lemma tx_write_bind [simp]: "tx_bind (tx_write w) f s = f () (w s)"
  by (simp add: tx_bind_def tx_write_def)

lemma tx_raise_bind [simp]: "tx_bind (tx_raise e) f s = Inl (Raised e)"
  by (simp add: tx_bind_def tx_raise_def)

lemma tx_crash_bind [simp]: "tx_bind (tx_crash e) f s = Inl (Crash e)"
  by (simp add: tx_bind_def tx_crash_def)

lemma tx_bind_Inr_iff:
  "tx_bind m f s = Inr (b, s'') \<longleftrightarrow> (\<exists>a s'. m s = Inr (a, s') \<and> f a s' = Inr (b, s''))"
  by (auto simp: tx_bind_def split: sum.splits)

lemma tx_bindE [elim?]:
  assumes "tx_bind m f s = Inr (b, s'')"
  obtains a s' where "m s = Inr (a, s')" and "f a s' = Inr (b, s'')"
  using assms by (auto simp: tx_bind_Inr_iff)

lemma tx_return_Inr_iff [simp]: "tx_return a s = Inr (b, s') \<longleftrightarrow> b = a \<and> s' = s"
  by (auto simp: tx_return_def)

lemma tx_read_Inr_iff [simp]: "tx_read q s = Inr (b, s') \<longleftrightarrow> b = q s \<and> s' = s"
  by (auto simp: tx_read_def)

lemma tx_write_Inr_iff [simp]: "tx_write w s = Inr (b, s') \<longleftrightarrow> s' = w s"
  by (auto simp: tx_write_def)

lemma tx_raise_not_Inr [simp]: "tx_raise e s \<noteq> Inr r"
  by (simp add: tx_raise_def)

lemma tx_crash_not_Inr [simp]: "tx_crash e s \<noteq> Inr r"
  by (simp add: tx_crash_def)

lemma tx_check_simps [simp]: "tx_check (Inl e) = tx_raise e" "tx_check (Inr a) = tx_return a"
  by (simp_all add: tx_check_def)

lemma tx_check_Inr_iff: "tx_check r s = Inr (b, s') \<longleftrightarrow> r = Inr b \<and> s' = s"
  by (cases r) auto

text \<open>Running a step for each element of a list, in order: a Python \<open>for\<close> loop.\<close>

fun tx_each :: "('a \<Rightarrow> ('s, 'e, unit) tx) \<Rightarrow> 'a list \<Rightarrow> ('s, 'e, unit) tx" where
  "tx_each f [] = tx_return ()"
| "tx_each f (x # xs) = tx_bind (f x) (\<lambda>_. tx_each f xs)"

text \<open>
  An invariant of single steps is one of everything built from them. \<open>tx_keeps P m\<close>: every
  normal end of \<open>m\<close> from tables with \<open>P\<close> has \<open>P\<close>.
\<close>

definition tx_keeps :: "('s \<Rightarrow> bool) \<Rightarrow> ('s, 'e, 'a) tx \<Rightarrow> bool" where
  "tx_keeps P m \<longleftrightarrow> (\<forall>s a s'. P s \<longrightarrow> m s = Inr (a, s') \<longrightarrow> P s')"

named_theorems keeps_intros \<open>rules that show a step keeps an invariant\<close>

lemma tx_keepsD: "tx_keeps P m \<Longrightarrow> P s \<Longrightarrow> m s = Inr (a, s') \<Longrightarrow> P s'"
  by (auto simp: tx_keeps_def)

lemma tx_keepsI: "(\<And>s a s'. P s \<Longrightarrow> m s = Inr (a, s') \<Longrightarrow> P s') \<Longrightarrow> tx_keeps P m"
  by (auto simp: tx_keeps_def)

lemma keeps_return [keeps_intros]: "tx_keeps P (tx_return a)"
  by (auto simp: tx_keeps_def)

lemma keeps_raise [keeps_intros]: "tx_keeps P (tx_raise e)"
  by (auto simp: tx_keeps_def)

lemma keeps_crash [keeps_intros]: "tx_keeps P (tx_crash e)"
  by (auto simp: tx_keeps_def)

lemma keeps_check [keeps_intros]: "tx_keeps P (tx_check r)"
  by (auto simp: tx_keeps_def tx_check_Inr_iff)

lemma keeps_read [keeps_intros]: "tx_keeps P (tx_read q)"
  by (auto simp: tx_keeps_def)

lemma keeps_write: "(\<And>s. P s \<Longrightarrow> P (w s)) \<Longrightarrow> tx_keeps P (tx_write w)"
  by (auto simp: tx_keeps_def)

lemma keeps_bind [keeps_intros]:
  "tx_keeps P m \<Longrightarrow> (\<And>a. tx_keeps P (f a)) \<Longrightarrow> tx_keeps P (tx_bind m f)"
  unfolding tx_keeps_def tx_bind_Inr_iff by blast

lemma keeps_if [keeps_intros]:
  "(b \<Longrightarrow> tx_keeps P m) \<Longrightarrow> (\<not> b \<Longrightarrow> tx_keeps P n) \<Longrightarrow> tx_keeps P (if b then m else n)"
  by simp

lemma keeps_option [keeps_intros]:
  "(x = None \<Longrightarrow> tx_keeps P m) \<Longrightarrow> (\<And>a. x = Some a \<Longrightarrow> tx_keeps P (f a))
     \<Longrightarrow> tx_keeps P (case x of None \<Rightarrow> m | Some a \<Rightarrow> f a)"
  by (cases x) simp_all

lemma keeps_sum [keeps_intros]:
  "(\<And>e. x = Inl e \<Longrightarrow> tx_keeps P (f e)) \<Longrightarrow> (\<And>a. x = Inr a \<Longrightarrow> tx_keeps P (g a))
     \<Longrightarrow> tx_keeps P (case x of Inl e \<Rightarrow> f e | Inr a \<Rightarrow> g a)"
  by (cases x) simp_all

lemma keeps_prod [keeps_intros]:
  "(\<And>a b. x = (a, b) \<Longrightarrow> tx_keeps P (f a b)) \<Longrightarrow> tx_keeps P (case x of (a, b) \<Rightarrow> f a b)"
  by (cases x) simp

lemma keeps_let [keeps_intros]:
  "(\<And>v. v = x \<Longrightarrow> tx_keeps P (f v)) \<Longrightarrow> tx_keeps P (let v = x in f v)"
  by simp

lemma keeps_each [keeps_intros]:
  "(\<And>x. x \<in> set xs \<Longrightarrow> tx_keeps P (f x)) \<Longrightarrow> tx_keeps P (tx_each f xs)"
  by (induction xs) (auto intro!: keeps_intros)

section \<open>Tables\<close>

text \<open>
  A table is the list of its rows in insertion order. \<open>update_where\<close> is
  \<open>UPDATE ... WHERE\<close>, \<open>count_where\<close> is \<open>SELECT count(*) ... WHERE\<close>, \<open>select_one\<close> is a
  select whose \<open>WHERE\<close> names a unique key, \<open>order_desc\<close> is \<open>ORDER BY ... DESC\<close>.
\<close>

definition update_where :: "('r \<Rightarrow> bool) \<Rightarrow> ('r \<Rightarrow> 'r) \<Rightarrow> 'r list \<Rightarrow> 'r list" where
  "update_where p f rows = map (\<lambda>r. if p r then f r else r) rows"

definition count_where :: "('r \<Rightarrow> bool) \<Rightarrow> 'r list \<Rightarrow> int" where
  "count_where p rows = int (length (filter p rows))"

definition select_one :: "('r \<Rightarrow> bool) \<Rightarrow> 'r list \<Rightarrow> 'r option" where
  "select_one p rows = List.find p rows"

definition exists_where :: "('r \<Rightarrow> bool) \<Rightarrow> 'r list \<Rightarrow> bool" where
  "exists_where p rows \<longleftrightarrow> list_ex p rows"

definition order_asc :: "('r \<Rightarrow> int) \<Rightarrow> 'r list \<Rightarrow> 'r list" where
  "order_asc k rows = sort_key k rows"

definition order_desc :: "('r \<Rightarrow> int) \<Rightarrow> 'r list \<Rightarrow> 'r list" where
  "order_desc k rows = sort_key (\<lambda>r. - k r) rows"

text \<open>\<open>LIMIT 1\<close>.\<close>

definition first_row :: "'r list \<Rightarrow> 'r option" where
  "first_row rows = (case rows of [] \<Rightarrow> None | r # _ \<Rightarrow> Some r)"

lemma length_update_where [simp]: "length (update_where p f rows) = length rows"
  by (simp add: update_where_def)

lemma update_where_Nil [simp]: "update_where p f [] = []"
  by (simp add: update_where_def)

lemma update_where_Cons [simp]:
  "update_where p f (r # rows) = (if p r then f r else r) # update_where p f rows"
  by (simp add: update_where_def)

lemma update_where_append [simp]:
  "update_where p f (xs @ ys) = update_where p f xs @ update_where p f ys"
  by (simp add: update_where_def)

lemma set_update_where:
  "set (update_where p f rows) = f ` {r \<in> set rows. p r} \<union> {r \<in> set rows. \<not> p r}"
  by (auto simp: update_where_def)

lemma map_update_where_same:
  "(\<And>r. r \<in> set rows \<Longrightarrow> p r \<Longrightarrow> g (f r) = g r) \<Longrightarrow> map g (update_where p f rows) = map g rows"
  by (auto simp: update_where_def)

lemma update_where_none: "(\<And>r. r \<in> set rows \<Longrightarrow> \<not> p r) \<Longrightarrow> update_where p f rows = rows"
  by (induction rows) auto

lemma filter_update_where_same:
  "(\<And>r. r \<in> set rows \<Longrightarrow> p r \<Longrightarrow> q (f r) = q r)
     \<Longrightarrow> filter q (update_where p f rows) = update_where p f (filter q rows)"
  by (induction rows) auto

lemma count_where_nonneg [simp]: "0 \<le> count_where p rows"
  by (simp add: count_where_def)

lemma count_where_Nil [simp]: "count_where p [] = 0"
  by (simp add: count_where_def)

lemma count_where_Cons [simp]:
  "count_where p (r # rows) = (if p r then 1 else 0) + count_where p rows"
  by (simp add: count_where_def)

lemma count_where_append [simp]: "count_where p (xs @ ys) = count_where p xs + count_where p ys"
  by (simp add: count_where_def)

lemma count_where_update_same:
  "(\<And>r. r \<in> set rows \<Longrightarrow> p r \<Longrightarrow> q (f r) = q r)
     \<Longrightarrow> count_where q (update_where p f rows) = count_where q rows"
  by (induction rows) auto

lemma count_where_pos_iff: "0 < count_where p rows \<longleftrightarrow> (\<exists>r \<in> set rows. p r)"
  by (induction rows) (auto simp: add_nonneg_pos add_pos_nonneg)

lemma count_where_zero_iff: "count_where p rows = 0 \<longleftrightarrow> (\<forall>r \<in> set rows. \<not> p r)"
  by (simp add: count_where_def filter_empty_conv)

lemma select_one_Some: "select_one p rows = Some r \<Longrightarrow> r \<in> set rows \<and> p r"
  by (auto simp: select_one_def find_Some_iff)

lemma select_one_None_iff: "select_one p rows = None \<longleftrightarrow> (\<forall>r \<in> set rows. \<not> p r)"
  by (auto simp: select_one_def find_None_iff)

lemma select_one_Nil [simp]: "select_one p [] = None"
  by (simp add: select_one_def)

lemma select_one_Cons [simp]: "select_one p (r # rows) = (if p r then Some r else select_one p rows)"
  by (simp add: select_one_def)

lemma select_one_append:
  "select_one p (xs @ ys) = (case select_one p xs of None \<Rightarrow> select_one p ys | Some r \<Rightarrow> Some r)"
  by (induction xs) auto

lemma exists_where_iff [simp]: "exists_where p rows \<longleftrightarrow> (\<exists>r \<in> set rows. p r)"
  by (simp add: exists_where_def list_ex_iff)

text \<open>A select on a unique column finds the row with that value.\<close>

lemma select_one_unique:
  "distinct (map k rows) \<Longrightarrow> r \<in> set rows \<Longrightarrow> select_one (\<lambda>x. k x = k r) rows = Some r"
  by (induction rows) (auto simp: image_iff)

lemma select_one_update_same:
  "(\<And>r. r \<in> set rows \<Longrightarrow> q r \<Longrightarrow> p (f r) = p r)
     \<Longrightarrow> select_one p (update_where q f rows)
       = map_option (\<lambda>r. if q r then f r else r) (select_one p rows)"
  by (induction rows) auto

lemma set_order_desc [simp]: "set (order_desc k rows) = set rows"
  by (simp add: order_desc_def)

lemma set_order_asc [simp]: "set (order_asc k rows) = set rows"
  by (simp add: order_asc_def)

text \<open>Rows inserted in the order of a key come out reversed by \<open>ORDER BY\<close> that key \<open>DESC\<close>.\<close>

lemma insort_key_last: "(\<forall>y \<in> set ys. f y < f x) \<Longrightarrow> insort_key f x ys = ys @ [x]"
  for f :: "'r \<Rightarrow> int"
  by (induction ys) auto

lemma order_desc_rev: "sorted_wrt (\<lambda>a b. k a < k b) rows \<Longrightarrow> order_desc k rows = rev rows"
  by (induction rows) (simp_all add: order_desc_def insort_key_last)

lemma first_row_simps [simp]: "first_row [] = None" "first_row (r # rows) = Some r"
  by (simp_all add: first_row_def)

lemma first_row_rev: "first_row (rev rows) = (if rows = [] then None else Some (last rows))"
  by (cases rows rule: rev_cases) simp_all

lemma first_row_order_desc:
  "sorted_wrt (\<lambda>a b. k a < k b) rows \<Longrightarrow>
     first_row (order_desc k rows) = (if rows = [] then None else Some (last rows))"
  by (simp add: order_desc_rev first_row_rev)

text \<open>Updating the one row of a key changes a sum over the table by the change of that row.\<close>

lemma sum_list_update_key:
  assumes "distinct (map k rows)" and "r \<in> set rows"
  shows "sum_list (map g (update_where (\<lambda>x. k x = k r) f rows))
           = sum_list (map g rows) - g r + (g (f r) :: int)"
  using assms
proof (induction rows)
  case Nil
  then show ?case by simp
next
  case (Cons x rows)
  show ?case
  proof (cases "k x = k r")
    case True
    with Cons.prems have "x = r" by (auto simp: image_iff)
    with Cons.prems have "\<And>y. y \<in> set rows \<Longrightarrow> k y \<noteq> k r" by (auto simp: image_iff)
    then have "update_where (\<lambda>x. k x = k r) f rows = rows" by (intro update_where_none) auto
    with \<open>x = r\<close> show ?thesis by simp
  next
    case False
    with Cons show ?thesis by auto
  qed
qed

lemma count_where_sum: "count_where p rows = sum_list (map (\<lambda>r. if p r then 1 else 0) rows)"
  by (induction rows) auto

lemma count_where_update_key:
  "distinct (map k rows) \<Longrightarrow> r \<in> set rows \<Longrightarrow>
     count_where p (update_where (\<lambda>x. k x = k r) f rows)
       = count_where p rows - (if p r then 1 else 0) + (if p (f r) then 1 else 0)"
  by (simp add: count_where_sum sum_list_update_key)

lemma count_where_mono: "(\<And>r. r \<in> set rows \<Longrightarrow> p r \<Longrightarrow> q r) \<Longrightarrow> count_where p rows \<le> count_where q rows"
  by (induction rows) auto

lemma count_where_le: "count_where p rows \<le> int (length rows)"
  by (simp add: count_where_def)

lemma update_where_cong:
  "(\<And>r. r \<in> set rows \<Longrightarrow> p r = q r) \<Longrightarrow> update_where p f rows = update_where q f rows"
  by (induction rows) auto

lemma distinct_key_eq: "distinct (map k rows) \<Longrightarrow> x \<in> set rows \<Longrightarrow> y \<in> set rows \<Longrightarrow> k x = k y \<Longrightarrow> x = y"
  by (auto simp: distinct_map inj_on_def)

end
