(* ===== verification/Texts.thy ===== *)
theory Texts
  imports Prelude
begin

text \<open>
  Python's \<open>str\<close> as lists of code points, the string methods the program uses, fixed-width
  numerals (\<open>:04d\<close> and the like) and \<open>str(UUID)\<close>. Identifiers and keys the program writes
  itself are ASCII and kept as HOL strings; \<open>cp\<close> reads one as a text.
\<close>

section \<open>Texts\<close>

type_synonym pystr = "nat list"

definition cp :: "string \<Rightarrow> pystr" where
  "cp s = map of_char s"

lemma cp_Nil [simp]: "cp [] = []"
  by (simp add: cp_def)

lemma cp_Cons [simp]: "cp (c # s) = of_char c # cp s"
  by (simp add: cp_def)

lemma cp_append [simp]: "cp (s @ t) = cp s @ cp t"
  by (simp add: cp_def)

lemma length_cp [simp]: "length (cp s) = length s"
  by (simp add: cp_def)

lemma cp_inject [simp]: "cp s = cp t \<longleftrightarrow> s = t"
  by (auto simp: cp_def inj_map_eq_map inj_def)

abbreviation is_ascii :: "pystr \<Rightarrow> bool" where
  "is_ascii t \<equiv> list_all (\<lambda>c. c < 128) t"

section \<open>String methods\<close>

definition starts_with :: "'a list \<Rightarrow> 'a list \<Rightarrow> bool" where
  "starts_with p s \<longleftrightarrow> take (length p) s = p"

definition remove_prefix :: "'a list \<Rightarrow> 'a list \<Rightarrow> 'a list" where
  "remove_prefix p s = (if starts_with p s then drop (length p) s else s)"

lemma starts_with_append [simp]: "starts_with p (p @ s)"
  by (simp add: starts_with_def)

lemma starts_withE:
  assumes "starts_with p s" obtains r where "s = p @ r"
  using assms unfolding starts_with_def by (metis append_take_drop_id)

lemma starts_with_iff: "starts_with p s \<longleftrightarrow> (\<exists>r. s = p @ r)"
  by (metis starts_withE starts_with_append)

lemma remove_prefix_append [simp]: "remove_prefix p (p @ s) = s"
  by (simp add: remove_prefix_def)

definition ends_with :: "'a list \<Rightarrow> 'a list \<Rightarrow> bool" where
  "ends_with p s \<longleftrightarrow> starts_with (rev p) (rev s)"

text \<open>\<open>s in t\<close> for strings.\<close>

fun occurs_in :: "'a list \<Rightarrow> 'a list \<Rightarrow> bool" where
  "occurs_in p [] = (p = [])"
| "occurs_in p (c # s) = (starts_with p (c # s) \<or> occurs_in p s)"

text \<open>\<open>lstrip\<close>, \<open>rstrip\<close> and \<open>strip\<close> of the characters a predicate selects.\<close>

definition lstrip_by :: "('a \<Rightarrow> bool) \<Rightarrow> 'a list \<Rightarrow> 'a list" where
  "lstrip_by w s = dropWhile w s"

definition rstrip_by :: "('a \<Rightarrow> bool) \<Rightarrow> 'a list \<Rightarrow> 'a list" where
  "rstrip_by w s = rev (dropWhile w (rev s))"

definition strip_by :: "('a \<Rightarrow> bool) \<Rightarrow> 'a list \<Rightarrow> 'a list" where
  "strip_by w s = rstrip_by w (lstrip_by w s)"

lemma lstrip_by_id: "(\<And>c. c \<in> set s \<Longrightarrow> \<not> w c) \<Longrightarrow> lstrip_by w s = s"
  by (cases s) (auto simp: lstrip_by_def)

lemma rstrip_by_id: "(\<And>c. c \<in> set s \<Longrightarrow> \<not> w c) \<Longrightarrow> rstrip_by w s = s"
  using lstrip_by_id [of "rev s" w] by (simp add: rstrip_by_def lstrip_by_def)

lemma strip_by_id: "(\<And>c. c \<in> set s \<Longrightarrow> \<not> w c) \<Longrightarrow> strip_by w s = s"
  by (simp add: strip_by_def lstrip_by_id rstrip_by_id)

text \<open>\<open>s.rsplit(c, 1)[1]\<close>: what follows the last \<open>c\<close>, when there is one.\<close>

definition after_last :: "'a \<Rightarrow> 'a list \<Rightarrow> 'a list" where
  "after_last c s = rev (takeWhile (\<lambda>x. x \<noteq> c) (rev s))"

lemma after_last_append: "c \<notin> set t \<Longrightarrow> after_last c (s @ c # t) = t"
  unfolding after_last_def by (induction t rule: rev_induct) auto

text \<open>\<open>s.split(c)\<close> on one character, and \<open>sep.join(parts)\<close>.\<close>

fun split_on :: "'a \<Rightarrow> 'a list \<Rightarrow> 'a list list" where
  "split_on c [] = [[]]"
| "split_on c (x # s) =
     (if x = c then [] # split_on c s
      else case split_on c s of [] \<Rightarrow> [[x]] | p # ps \<Rightarrow> (x # p) # ps)"

fun join_with :: "'a list \<Rightarrow> 'a list list \<Rightarrow> 'a list" where
  "join_with sep [] = []"
| "join_with sep [p] = p"
| "join_with sep (p # q # ps) = p @ sep @ join_with sep (q # ps)"

lemma split_on_ne [simp]: "split_on c s \<noteq> []"
  by (induction s) (auto split: list.splits)

lemma join_split: "join_with [c] (split_on c s) = s"
proof (induction s)
  case Nil
  then show ?case by simp
next
  case (Cons x s)
  obtain p ps where ps: "split_on c s = p # ps" by (cases "split_on c s") auto
  with Cons show ?case by (cases ps) auto
qed

lemma split_on_none: "c \<notin> set s \<Longrightarrow> split_on c s = [s]"
  by (induction s) auto

lemma split_on_append: "c \<notin> set p \<Longrightarrow> split_on c (p @ c # s) = p # split_on c s"
  by (induction p) auto

lemma split_join:
  "ps \<noteq> [] \<Longrightarrow> (\<And>p. p \<in> set ps \<Longrightarrow> c \<notin> set p) \<Longrightarrow> split_on c (join_with [c] ps) = ps"
proof (induction ps)
  case Nil
  then show ?case by simp
next
  case (Cons p ps)
  then show ?case by (cases ps) (auto simp: split_on_none split_on_append)
qed

text \<open>Consecutive pieces of given lengths.\<close>

fun chunks :: "nat list \<Rightarrow> 'a list \<Rightarrow> 'a list list" where
  "chunks [] s = []"
| "chunks (n # ns) s = take n s # chunks ns (drop n s)"

lemma concat_chunks: "concat (chunks ns s) = take (sum_list ns) s"
  by (induction ns arbitrary: s) (auto simp: take_add)

lemma set_chunks: "p \<in> set (chunks ns s) \<Longrightarrow> set p \<subseteq> set s"
proof (induction ns arbitrary: s)
  case Nil
  then show ?case by simp
next
  case (Cons n ns)
  then consider "p = take n s" | "set p \<subseteq> set (drop n s)" by auto
  then show ?case by cases (auto dest: in_set_takeD in_set_dropD)
qed

lemma length_chunks [simp]: "length (chunks ns s) = length ns"
  by (induction ns arbitrary: s) auto

text \<open>\<open>s.split()\<close>: the runs between the characters a predicate selects.\<close>

fun split_runs :: "('a \<Rightarrow> bool) \<Rightarrow> 'a list \<Rightarrow> 'a list \<Rightarrow> 'a list list" where
  "split_runs w acc [] = (if acc = [] then [] else [rev acc])"
| "split_runs w acc (c # s) =
     (if w c then (if acc = [] then split_runs w [] s else rev acc # split_runs w [] s)
      else split_runs w (c # acc) s)"

definition split_ws :: "('a \<Rightarrow> bool) \<Rightarrow> 'a list \<Rightarrow> 'a list list" where
  "split_ws w s = split_runs w [] s"

lemma split_runs_none: "(\<And>c. c \<in> set s \<Longrightarrow> \<not> w c) \<Longrightarrow>
  split_runs w acc s = (if acc = [] \<and> s = [] then [] else [rev acc @ s])"
  by (induction s arbitrary: acc) auto

section \<open>Fixed-width numerals\<close>

text \<open>The \<open>w\<close> lowest digits of \<open>n\<close> in base \<open>b\<close>, highest first.\<close>

fun digs :: "nat \<Rightarrow> nat \<Rightarrow> nat \<Rightarrow> nat list" where
  "digs b 0 n = []"
| "digs b (Suc w) n = digs b w (n div b) @ [n mod b]"

definition undigs :: "nat \<Rightarrow> nat list \<Rightarrow> nat" where
  "undigs b ds = foldl (\<lambda>a d. a * b + d) 0 ds"

lemma length_digs [simp]: "length (digs b w n) = w"
  by (induction w arbitrary: n) auto

lemma digs_lt: "0 < b \<Longrightarrow> d \<in> set (digs b w n) \<Longrightarrow> d < b"
  by (induction w arbitrary: n) auto

lemma undigs_snoc [simp]: "undigs b (ds @ [d]) = undigs b ds * b + d"
  by (simp add: undigs_def)

lemma undigs_digs: "n < b ^ w \<Longrightarrow> undigs b (digs b w n) = n"
proof (induction w arbitrary: n)
  case 0
  then show ?case by (simp add: undigs_def)
next
  case (Suc w)
  then have "n div b < b ^ w" by (simp add: less_mult_imp_div_less mult.commute)
  with Suc.IH show ?case by simp
qed

lemma digs_inject: "n < b ^ w \<Longrightarrow> m < b ^ w \<Longrightarrow> digs b w n = digs b w m \<Longrightarrow> n = m"
  by (metis undigs_digs)

definition digit_char :: "nat \<Rightarrow> char" where
  "digit_char d = ''0123456789abcdef'' ! d"

lemma lt_16_cases:
  "d < (16::nat) \<Longrightarrow> d \<in> set [0, 1, 2, 3, 4, 5, 6, 7, 8, 9, 10, 11, 12, 13, 14, 15]"
proof -
  assume "d < 16"
  then have "d \<in> set [0..<16]" by simp
  moreover have "[0..<16] = [0, 1, 2, 3, 4, 5, 6, 7, 8, 9, 10, 11, 12, 13, 14, 15]" by code_simp
  ultimately show ?thesis by simp
qed

lemma digit_char_inject: "d < 16 \<Longrightarrow> e < 16 \<Longrightarrow> digit_char d = digit_char e \<longleftrightarrow> d = e"
  unfolding digit_char_def
  by (subst nth_eq_iff_index_eq) auto

lemma digit_char_not_sep: "d < 16 \<Longrightarrow> digit_char d \<noteq> CHR ''-'' \<and> digit_char d \<noteq> CHR '':''"
  using lt_16_cases [of d] by (auto simp: digit_char_def)

lemma map_digit_char_inject:
  "(\<And>d. d \<in> set xs \<Longrightarrow> d < 16) \<Longrightarrow> (\<And>d. d \<in> set ys \<Longrightarrow> d < 16)
     \<Longrightarrow> map digit_char xs = map digit_char ys \<longleftrightarrow> xs = ys"
  by (rule inj_on_map_eq_map) (auto simp: inj_on_def digit_char_inject)

text \<open>\<open>f"{n:0wd}"\<close> for an \<open>n\<close> of at most \<open>w\<close> digits.\<close>

definition pad_dec :: "nat \<Rightarrow> nat \<Rightarrow> string" where
  "pad_dec w n = map digit_char (digs 10 w n)"

lemma length_pad_dec [simp]: "length (pad_dec w n) = w"
  by (simp add: pad_dec_def)

lemma pad_dec_inject: "n < 10 ^ w \<Longrightarrow> m < 10 ^ w \<Longrightarrow> pad_dec w n = pad_dec w m \<longleftrightarrow> n = m"
  unfolding pad_dec_def
  by (subst map_digit_char_inject)
     (auto dest: digs_lt [of 10, simplified] simp: digs_inject intro: less_trans)

text \<open>Reading a decimal numeral back: \<open>None\<close> when a character is not an ASCII digit.\<close>

definition digit_value :: "char \<Rightarrow> nat option" where
  "digit_value c = (let k = of_char c in if 48 \<le> k \<and> k \<le> (57::nat) then Some (k - 48) else None)"

fun read_dec :: "nat \<Rightarrow> string \<Rightarrow> nat option" where
  "read_dec acc [] = Some acc"
| "read_dec acc (c # s) =
     (case digit_value c of None \<Rightarrow> None | Some d \<Rightarrow> read_dec (acc * 10 + d) s)"

lemma digit_value_digit_char: "d < 10 \<Longrightarrow> digit_value (digit_char d) = Some d"
proof -
  assume "d < 10"
  then have "d \<in> {0, 1, 2, 3, 4, 5, 6, 7, 8, 9}" by auto
  then show ?thesis by (auto simp: digit_value_def digit_char_def)
qed

lemma read_dec_map:
  "(\<And>d. d \<in> set ds \<Longrightarrow> d < 10)
     \<Longrightarrow> read_dec acc (map digit_char ds) = Some (foldl (\<lambda>a d. a * 10 + d) acc ds)"
  by (induction ds arbitrary: acc) (auto simp: digit_value_digit_char)

lemma read_dec_pad_dec: "n < 10 ^ w \<Longrightarrow> read_dec 0 (pad_dec w n) = Some n"
  using undigs_digs [of n 10 w] digs_lt [of 10 _ w n]
  by (simp add: pad_dec_def read_dec_map undigs_def)

section \<open>The text form of a UUID\<close>

text \<open>\<open>str(uuid)\<close>: 32 hexadecimal digits in groups of 8, 4, 4, 4 and 12.\<close>

definition uuid_hex :: "uuid \<Rightarrow> string" where
  "uuid_hex u = map digit_char (digs 16 32 (unat u))"

definition uuid_str :: "uuid \<Rightarrow> string" where
  "uuid_str u = join_with ''-'' (chunks [8, 4, 4, 4, 12] (uuid_hex u))"

lemma length_uuid_hex [simp]: "length (uuid_hex u) = 32"
  by (simp add: uuid_hex_def)

lemma length_uuid_str [simp]: "length (uuid_str u) = 36"
  by (simp add: uuid_str_def)

lemma uuid_hex_inject [simp]: "uuid_hex u = uuid_hex v \<longleftrightarrow> u = v"
proof
  assume "uuid_hex u = uuid_hex v"
  then have "digs 16 32 (unat u) = digs 16 32 (unat v)"
    unfolding uuid_hex_def by (subst (asm) map_digit_char_inject) (auto dest: digs_lt [rotated])
  moreover have "unat u < 16 ^ 32" "unat v < 16 ^ 32"
    using unsigned_less [of u, where 'a = nat] unsigned_less [of v, where 'a = nat] by simp_all
  ultimately have "unat u = unat v" by (rule digs_inject [rotated 2])
  then show "u = v" by (simp add: word_unat_eq_iff)
qed simp

lemma uuid_hex_no_dash: "CHR ''-'' \<notin> set (uuid_hex u)"
proof
  assume "CHR ''-'' \<in> set (uuid_hex u)"
  then obtain d where "d \<in> set (digs 16 32 (unat u))" and "digit_char d = CHR ''-''"
    by (auto simp: uuid_hex_def simp del: digs.simps)
  with digs_lt [of 16 d 32 "unat u"] digit_char_not_sep [of d] show False by simp
qed

lemma uuid_str_groups: "split_on CHR ''-'' (uuid_str u) = chunks [8, 4, 4, 4, 12] (uuid_hex u)"
  unfolding uuid_str_def
proof (rule split_join)
  fix p assume "p \<in> set (chunks [8, 4, 4, 4, 12] (uuid_hex u))"
  then have "set p \<subseteq> set (uuid_hex u)" by (rule set_chunks)
  then show "CHR ''-'' \<notin> set p" using uuid_hex_no_dash by auto
qed simp

lemma uuid_str_inject [simp]: "uuid_str u = uuid_str v \<longleftrightarrow> u = v"
proof
  assume "uuid_str u = uuid_str v"
  then have "concat (chunks [8, 4, 4, 4, 12] (uuid_hex u)) = concat (chunks [8, 4, 4, 4, 12] (uuid_hex v))"
    by (metis uuid_str_groups)
  then show "u = v" by (simp only: concat_chunks length_uuid_hex) simp
qed simp

text \<open>A key that ends in a UUID determines it and what stands before it.\<close>

lemma append_uuid_inject [simp]:
  "s @ uuid_str u = t @ uuid_str v \<longleftrightarrow> s = t \<and> u = v"
  by (auto simp: append_eq_append_conv)

end
