(* ===== verification/Passports.thy ===== *)
theory Passports
  imports Texts
begin

text \<open>
  The campaign's cities (\<open>app/domain/passports.py\<close>): the campaign names, the two-letter
  prefixes printed on the codes, and the correspondence between them.
\<close>

datatype Campaign = C_PARIS | C_BERLIN | C_PATTAYA | C_MEXICO | C_MADRID | C_TOKYO | C_MOSCOW

datatype CityCode = PARIS | BERLIN | PATTAYA | MEXICO | MADRID | TOKYO | MOSCOW

fun campaign_value :: "Campaign \<Rightarrow> string" where
  "campaign_value C_PARIS = ''paris''"
| "campaign_value C_BERLIN = ''berlin''"
| "campaign_value C_PATTAYA = ''pattaya''"
| "campaign_value C_MEXICO = ''mexico''"
| "campaign_value C_MADRID = ''madrid''"
| "campaign_value C_TOKYO = ''tokyo''"
| "campaign_value C_MOSCOW = ''moscow''"

fun city_value :: "CityCode \<Rightarrow> string" where
  "city_value PARIS = ''PR''"
| "city_value BERLIN = ''BE''"
| "city_value PATTAYA = ''PA''"
| "city_value MEXICO = ''ME''"
| "city_value MADRID = ''MA''"
| "city_value TOKYO = ''TO''"
| "city_value MOSCOW = ''MO''"

fun CAMPAIGN_BY_CITY :: "CityCode \<Rightarrow> Campaign" where
  "CAMPAIGN_BY_CITY PARIS = C_PARIS"
| "CAMPAIGN_BY_CITY BERLIN = C_BERLIN"
| "CAMPAIGN_BY_CITY PATTAYA = C_PATTAYA"
| "CAMPAIGN_BY_CITY MEXICO = C_MEXICO"
| "CAMPAIGN_BY_CITY MADRID = C_MADRID"
| "CAMPAIGN_BY_CITY TOKYO = C_TOKYO"
| "CAMPAIGN_BY_CITY MOSCOW = C_MOSCOW"

text \<open>Iterating the enum \<open>CityCode\<close>: its members in the order they are declared.\<close>

definition all_cities :: "CityCode list" where
  "all_cities = [PARIS, BERLIN, PATTAYA, MEXICO, MADRID, TOKYO, MOSCOW]"

text \<open>One redeemed code is one entry in that city's draw.\<close>

definition ENTRIES_PER_CODE :: int where
  "ENTRIES_PER_CODE = 1"

lemma set_all_cities [simp]: "set all_cities = UNIV"
proof -
  have "c \<in> set all_cities" for c by (cases c) (simp_all add: all_cities_def)
  then show ?thesis by auto
qed

lemma distinct_all_cities [simp]: "distinct all_cities"
  by (simp add: all_cities_def)

lemma city_value_inject [simp]: "city_value c = city_value d \<longleftrightarrow> c = d"
  by (cases c; cases d) simp_all

lemma length_city_value [simp]: "length (city_value c) = 2"
  by (cases c) simp_all

lemma campaign_value_inject [simp]: "campaign_value c = campaign_value d \<longleftrightarrow> c = d"
  by (cases c; cases d) simp_all

lemma CAMPAIGN_BY_CITY_inject [simp]: "CAMPAIGN_BY_CITY c = CAMPAIGN_BY_CITY d \<longleftrightarrow> c = d"
  by (cases c; cases d) simp_all

text \<open>\<open>_CITY_BY_PREFIX\<close> of \<open>app/domain/codes.py\<close>: the city of a prefix.\<close>

definition CITY_BY_PREFIX :: "pystr \<Rightarrow> CityCode option" where
  "CITY_BY_PREFIX p = List.find (\<lambda>c. cp (city_value c) = p) all_cities"

lemma CITY_BY_PREFIX_value [simp]: "CITY_BY_PREFIX (cp (city_value c)) = Some c"
  by (cases c) (simp_all add: CITY_BY_PREFIX_def all_cities_def)

lemma CITY_BY_PREFIX_Some: "CITY_BY_PREFIX p = Some c \<Longrightarrow> p = cp (city_value c)"
  by (auto simp: CITY_BY_PREFIX_def find_Some_iff)

text \<open>The frozen numbers that the check character mixes in (\<open>CITY_CHECK_INDEX\<close>).\<close>

fun CITY_CHECK_INDEX :: "CityCode \<Rightarrow> nat" where
  "CITY_CHECK_INDEX PARIS = 1"
| "CITY_CHECK_INDEX BERLIN = 2"
| "CITY_CHECK_INDEX PATTAYA = 3"
| "CITY_CHECK_INDEX MEXICO = 4"
| "CITY_CHECK_INDEX MADRID = 5"
| "CITY_CHECK_INDEX TOKYO = 6"
| "CITY_CHECK_INDEX MOSCOW = 7"

lemma CITY_CHECK_INDEX_inject [simp]: "CITY_CHECK_INDEX c = CITY_CHECK_INDEX d \<longleftrightarrow> c = d"
  by (cases c; cases d) simp_all

lemma CITY_CHECK_INDEX_bounds: "1 \<le> CITY_CHECK_INDEX c \<and> CITY_CHECK_INDEX c \<le> 7"
  by (cases c) simp_all

text \<open>The cities are ordered by their frozen number.\<close>

instantiation CityCode :: linorder
begin

definition less_eq_CityCode :: "CityCode \<Rightarrow> CityCode \<Rightarrow> bool" where
  "less_eq_CityCode c d \<longleftrightarrow> CITY_CHECK_INDEX c \<le> CITY_CHECK_INDEX d"

definition less_CityCode :: "CityCode \<Rightarrow> CityCode \<Rightarrow> bool" where
  "less_CityCode c d \<longleftrightarrow> CITY_CHECK_INDEX c < CITY_CHECK_INDEX d"

instance
  by standard (auto simp: less_eq_CityCode_def less_CityCode_def)

end

end
