(* ===== verification/Unicode.thy ===== *)
theory Unicode
  imports Texts
begin

text \<open>
  What the program uses of Python's Unicode tables. The categories it asks for are written out
  (Unicode 15.1, the tables of Python 3.13): decimal digits \<open>Nd\<close>, spaces \<open>Zs\<close>, dashes
  \<open>Pd\<close>, invisible format characters \<open>Cf\<close>, and \<open>str.isspace\<close>. The normal forms and case
  mappings, tables of many thousands of entries, are fields of a record \<open>unicode\<close> that the
  definitions take as an argument; \<open>ascii_laws\<close> is what Python documents of them on ASCII text.
\<close>

section \<open>Categories\<close>

definition in_ranges :: "(nat \<times> nat) list \<Rightarrow> nat \<Rightarrow> bool" where
  "in_ranges rs c \<longleftrightarrow> list_ex (\<lambda>(a, b). a \<le> c \<and> c \<le> b) rs"

lemma in_ranges_Nil [simp]: "\<not> in_ranges [] c"
  by (simp add: in_ranges_def)

lemma in_ranges_Cons [simp]: "in_ranges ((a, b) # rs) c \<longleftrightarrow> (a \<le> c \<and> c \<le> b) \<or> in_ranges rs c"
  by (simp add: in_ranges_def)

definition zs_ranges :: "(nat \<times> nat) list" where
  "zs_ranges = [
    (32, 32), (160, 160), (5760, 5760), (8192, 8202), (8239, 8239), (8287, 8287),
    (12288, 12288)]"

definition pd_ranges :: "(nat \<times> nat) list" where
  "pd_ranges = [
    (45, 45), (1418, 1418), (1470, 1470), (5120, 5120), (6150, 6150), (8208, 8213),
    (11799, 11799), (11802, 11802), (11834, 11835), (11840, 11840), (11869, 11869),
    (12316, 12316), (12336, 12336), (12448, 12448), (65073, 65074), (65112, 65112),
    (65123, 65123), (65293, 65293), (69293, 69293)]"

definition cf_ranges :: "(nat \<times> nat) list" where
  "cf_ranges = [
    (173, 173), (1536, 1541), (1564, 1564), (1757, 1757), (1807, 1807), (2192, 2193),
    (2274, 2274), (6158, 6158), (8203, 8207), (8234, 8238), (8288, 8292), (8294, 8303),
    (65279, 65279), (65529, 65531), (69821, 69821), (69837, 69837), (78896, 78911),
    (113824, 113827), (119155, 119162), (917505, 917505), (917536, 917631)]"

text \<open>The zeros of the decimal digit blocks: each block is ten consecutive code points.\<close>

definition nd_zeros :: "nat list" where
  "nd_zeros = [
    48, 1632, 1776, 1984, 2406, 2534, 2662, 2790, 2918, 3046, 3174, 3302, 3430, 3558, 3664,
    3792, 3872, 4160, 4240, 6112, 6160, 6470, 6608, 6784, 6800, 6992, 7088, 7232, 7248, 42528,
    43216, 43264, 43472, 43504, 43600, 44016, 65296, 66720, 68912, 69734, 69872, 69942, 70096,
    70384, 70736, 70864, 71248, 71360, 71472, 71904, 72016, 72784, 73040, 73120, 73552, 92768,
    92864, 93008, 120782, 120792, 120802, 120812, 120822, 123200, 123632, 124144, 125264,
    130032]"

definition space_ranges :: "(nat \<times> nat) list" where
  "space_ranges = [
    (9, 13), (28, 32), (133, 133), (160, 160), (5760, 5760), (8192, 8202), (8232, 8233),
    (8239, 8239), (8287, 8287), (12288, 12288)]"

definition is_zs :: "nat \<Rightarrow> bool" where "is_zs c \<longleftrightarrow> in_ranges zs_ranges c"

definition is_pd :: "nat \<Rightarrow> bool" where "is_pd c \<longleftrightarrow> in_ranges pd_ranges c"

definition is_cf :: "nat \<Rightarrow> bool" where "is_cf c \<longleftrightarrow> in_ranges cf_ranges c"

definition is_space :: "nat \<Rightarrow> bool" where "is_space c \<longleftrightarrow> in_ranges space_ranges c"

text \<open>The value of a decimal digit of any script: what \<open>int()\<close> and \<open>\d\<close> accept.\<close>

definition decimal_value :: "nat \<Rightarrow> nat option" where
  "decimal_value c = map_option (\<lambda>z. c - z) (List.find (\<lambda>z. z \<le> c \<and> c < z + 10) nd_zeros)"

definition is_decimal :: "nat \<Rightarrow> bool" where
  "is_decimal c \<longleftrightarrow> decimal_value c \<noteq> None"

definition strip :: "pystr \<Rightarrow> pystr" where
  "strip s = strip_by is_space s"

lemma is_decimal_ascii: "c < 128 \<Longrightarrow> is_decimal c \<longleftrightarrow> 48 \<le> c \<and> c \<le> 57"
  by (auto simp: is_decimal_def decimal_value_def nd_zeros_def)

lemma decimal_value_ascii: "48 \<le> c \<Longrightarrow> c \<le> 57 \<Longrightarrow> decimal_value c = Some (c - 48)"
  by (auto simp: decimal_value_def nd_zeros_def)

lemma is_space_ascii: "c < 128 \<Longrightarrow> is_space c \<longleftrightarrow> (9 \<le> c \<and> c \<le> 13) \<or> (28 \<le> c \<and> c \<le> 32)"
  by (auto simp: is_space_def space_ranges_def)

section \<open>Normal forms and case mappings\<close>

record unicode =
  nfkc :: "pystr \<Rightarrow> pystr"
  nfc :: "pystr \<Rightarrow> pystr"
  upper :: "pystr \<Rightarrow> pystr"
  lower :: "pystr \<Rightarrow> pystr"
  casefold :: "pystr \<Rightarrow> pystr"
  alnum :: "nat \<Rightarrow> bool"

definition ascii_upper :: "nat \<Rightarrow> nat" where
  "ascii_upper c = (if 97 \<le> c \<and> c \<le> 122 then c - 32 else c)"

definition ascii_lower :: "nat \<Rightarrow> nat" where
  "ascii_lower c = (if 65 \<le> c \<and> c \<le> 90 then c + 32 else c)"

definition ascii_alnum :: "nat \<Rightarrow> bool" where
  "ascii_alnum c \<longleftrightarrow> (48 \<le> c \<and> c \<le> 57) \<or> (65 \<le> c \<and> c \<le> 90) \<or> (97 \<le> c \<and> c \<le> 122)"

text \<open>
  Documented behaviour on ASCII: ASCII text is its own normal form (Unicode Standard Annex 15),
  and the case mappings and \<open>isalnum\<close> act letter by letter.
\<close>

definition ascii_laws :: "unicode \<Rightarrow> bool" where
  "ascii_laws ud \<longleftrightarrow>
     (\<forall>t. is_ascii t \<longrightarrow> nfkc ud t = t \<and> nfc ud t = t
        \<and> upper ud t = map ascii_upper t \<and> lower ud t = map ascii_lower t
        \<and> casefold ud t = map ascii_lower t)
     \<and> (\<forall>c < 128. alnum ud c = ascii_alnum c)"

lemma ascii_lawsD:
  assumes "ascii_laws ud" and "is_ascii t"
  shows "nfkc ud t = t" and "nfc ud t = t" and "upper ud t = map ascii_upper t"
    and "lower ud t = map ascii_lower t" and "casefold ud t = map ascii_lower t"
  using assms by (auto simp: ascii_laws_def)

lemma ascii_laws_alnum: "ascii_laws ud \<Longrightarrow> c < 128 \<Longrightarrow> alnum ud c = ascii_alnum c"
  by (auto simp: ascii_laws_def)

text \<open>
  A concrete instance that satisfies the laws: the ASCII mappings, applied to the ASCII
  characters of any text.
\<close>

definition ascii_unicode :: unicode where
  "ascii_unicode = \<lparr>nfkc = id, nfc = id, upper = map ascii_upper, lower = map ascii_lower,
     casefold = map ascii_lower, alnum = ascii_alnum\<rparr>"

lemma ascii_unicode_laws: "ascii_laws ascii_unicode"
  by (simp add: ascii_laws_def ascii_unicode_def)

lemma ascii_unicode_simps [simp]:
  "nfkc ascii_unicode = id" "nfc ascii_unicode = id" "upper ascii_unicode = map ascii_upper"
  "lower ascii_unicode = map ascii_lower"
  "casefold ascii_unicode = map ascii_lower" "alnum ascii_unicode = ascii_alnum"
  by (simp_all add: ascii_unicode_def)

section \<open>Digit translation\<close>

text \<open>
  The \<open>str.translate\<close> table shared by the code and phone parsers: Persian and Arabic-Indic
  digits become ASCII digits, every other character stays.
\<close>

definition translate_digit :: "nat \<Rightarrow> nat" where
  "translate_digit c =
     (if 1776 \<le> c \<and> c \<le> 1785 then 48 + (c - 1776)
      else if 1632 \<le> c \<and> c \<le> 1641 then 48 + (c - 1632) else c)"

lemma translate_digit_ascii [simp]: "c < 128 \<Longrightarrow> translate_digit c = c"
  by (simp add: translate_digit_def)

lemma map_translate_ascii: "is_ascii t \<Longrightarrow> map translate_digit t = t"
  by (induction t) auto

end
