(* ===== verification/Codes.thy ===== *)
theory Codes
  imports Passports Unicode "HOL-Library.List_Lexorder"
begin

text \<open>
  Printed product codes (\<open>app/domain/codes.py\<close>): code formats and their registry, the Luhn
  mod N check character, generation, the printed form and the parser. Texts are lists of code
  points; the Unicode tables, the hash and the random source are arguments.
\<close>

section \<open>Formats\<close>

definition PREFIX_LENGTH :: nat where
  "PREFIX_LENGTH = 2"

datatype CodeProblem = MALFORMED | MISTYPED

datatype FormatRegistryError =
    BadFormatId | AlphabetNotDistinct | AlphabetNotUpperAscii | BodyLengthNotPositive
  | GroupingNotPositive | GroupingSum | BadAlias pystr pystr | UnknownCheckScheme pystr
  | AlphabetTooSmall | AlreadyRegistered pystr | SameLength pystr pystr
  | DefaultFormatFixed | UnknownFormat pystr | FormatChanged pystr pystr pystr

text \<open>\<open>aliases\<close> is the dict in insertion order, its keys distinct.\<close>

record CodeFormat =
  format_id :: pystr
  body_length :: int
  grouping :: "int list"
  alphabet :: pystr
  aliases :: "(pystr \<times> pystr) list"
  check_scheme :: pystr

definition base :: "CodeFormat \<Rightarrow> nat" where
  "base f = length (alphabet f)"

definition canonical_length :: "CodeFormat \<Rightarrow> int" where
  "canonical_length f = int PREFIX_LENGTH + body_length f + 1"

definition entropy_bits :: "CodeFormat \<Rightarrow> real" where
  "entropy_bits f = of_int (body_length f) * log 2 (real (base f))"

definition luhn_scheme :: pystr where
  "luhn_scheme = cp ''luhn-mod-n''"

text \<open>\<open>__post_init__\<close>: the constructor's checks, in order, the first that fails wins.\<close>

definition post_init :: "CodeFormat \<Rightarrow> FormatRegistryError option" where
  "post_init f =
     (if format_id f = [] \<or> \<not> is_ascii (format_id f) then Some BadFormatId
      else if length (alphabet f) < 2 \<or> \<not> distinct (alphabet f) then Some AlphabetNotDistinct
      else if \<not> is_ascii (alphabet f) \<or> alphabet f \<noteq> map ascii_upper (alphabet f)
        then Some AlphabetNotUpperAscii
      else if body_length f < 1 then Some BodyLengthNotPositive
      else if grouping f = [] \<or> list_ex (\<lambda>g. g < 1) (grouping f) then Some GroupingNotPositive
      else if sum_list (grouping f) \<noteq> body_length f + 1 then Some GroupingSum
      else case List.find (\<lambda>(typed, meant). occurs_in typed (alphabet f) \<or> \<not> occurs_in meant (alphabet f))
             (aliases f) of
        Some (typed, meant) \<Rightarrow> Some (BadAlias typed meant)
      | None \<Rightarrow>
          if check_scheme f \<noteq> luhn_scheme then Some (UnknownCheckScheme (check_scheme f))
          else if foldr max (map CITY_CHECK_INDEX all_cities) 0 \<ge> length (alphabet f)
            then Some AlphabetTooSmall
          else None)"

definition CROCKFORD_BASE32 :: pystr where
  "CROCKFORD_BASE32 = cp ''0123456789ABCDEFGHJKMNPQRSTVWXYZ''"

definition CROCKFORD_ALIASES :: "(pystr \<times> pystr) list" where
  "CROCKFORD_ALIASES = [(cp ''O'', cp ''0''), (cp ''I'', cp ''1''), (cp ''L'', cp ''1'')]"

definition V2_B10 :: CodeFormat where
  "V2_B10 = \<lparr>format_id = cp ''v2-b10'', body_length = 10, grouping = [4, 4, 3],
     alphabet = CROCKFORD_BASE32, aliases = CROCKFORD_ALIASES, check_scheme = luhn_scheme\<rparr>"

definition CITY2_B9 :: CodeFormat where
  "CITY2_B9 = \<lparr>format_id = cp ''city2-b9'', body_length = 8, grouping = [3, 3, 3],
     alphabet = CROCKFORD_BASE32, aliases = CROCKFORD_ALIASES, check_scheme = luhn_scheme\<rparr>"

section \<open>The frozen spec and its fingerprint\<close>

datatype json = JNum int | JStr pystr | JArr "json list" | JObj "(pystr \<times> json) list"

text \<open>\<open>json.dumps(..., sort_keys=True, separators=(",", ":"))\<close>, ASCII only.\<close>

definition hex4 :: "nat \<Rightarrow> pystr" where
  "hex4 n = cp (map digit_char (digs 16 4 n))"

definition json_escape :: "nat \<Rightarrow> pystr" where
  "json_escape c =
     (if c = 34 then [92, 34] else if c = 92 then [92, 92]
      else if c = 10 then [92, 110] else if c = 13 then [92, 114] else if c = 9 then [92, 116]
      else if c = 12 then [92, 102] else if c = 8 then [92, 98]
      else if 32 \<le> c \<and> c \<le> 126 then [c]
      else if c < 65536 then [92, 117] @ hex4 c
      else [92, 117] @ hex4 (55296 + (c - 65536) div 1024)
             @ [92, 117] @ hex4 (56320 + (c - 65536) mod 1024))"

definition json_string :: "pystr \<Rightarrow> pystr" where
  "json_string s = 34 # concat (map json_escape s) @ [34]"

fun show_nat :: "nat \<Rightarrow> pystr" where
  "show_nat n = (if n < 10 then [48 + n] else show_nat (n div 10) @ [48 + n mod 10])"

definition show_int :: "int \<Rightarrow> pystr" where
  "show_int n = (if n < 0 then 45 # show_nat (nat (- n)) else show_nat (nat n))"

primrec dumps :: "json \<Rightarrow> pystr" where
  "dumps (JNum n) = show_int n"
| "dumps (JStr s) = json_string s"
| "dumps (JArr xs) = 91 # join_with [44] (map dumps xs) @ [93]"
| "dumps (JObj kvs) = 123 # join_with [44]
     (map (\<lambda>(k, v). json_string k @ [58] @ v) (sort_key fst (map (map_prod id dumps) kvs))) @ [125]"

definition spec :: "CodeFormat \<Rightarrow> json" where
  "spec f = JObj [
     (cp ''format_id'', JStr (format_id f)),
     (cp ''alphabet'', JStr (alphabet f)),
     (cp ''body_length'', JNum (body_length f)),
     (cp ''grouping'', JArr (map JNum (grouping f))),
     (cp ''aliases'', JObj (map (map_prod id JStr) (sort_key fst (aliases f)))),
     (cp ''check_scheme'', JStr (check_scheme f)),
     (cp ''prefix_length'', JNum (int PREFIX_LENGTH)),
     (cp ''city_check_index'',
        JObj (map (\<lambda>c. (cp (city_value c), JNum (int (CITY_CHECK_INDEX c)))) all_cities))]"

definition fingerprint :: "(pystr \<Rightarrow> pystr) \<Rightarrow> CodeFormat \<Rightarrow> pystr" where
  "fingerprint sha256 f = sha256 (dumps (spec f))"

section \<open>The registry\<close>

text \<open>\<open>FORMATS\<close>: the dict's values in insertion order, each under its own \<open>format_id\<close>.\<close>

type_synonym registry = "CodeFormat list"

definition DEFAULT_FORMAT_ID :: pystr where
  "DEFAULT_FORMAT_ID = format_id CITY2_B9"

definition registered :: "registry \<Rightarrow> pystr \<Rightarrow> CodeFormat option" where
  "registered reg fid = List.find (\<lambda>f. format_id f = fid) reg"

text \<open>Equality of the dataclass: dicts are equal whatever their order.\<close>

definition format_eq :: "CodeFormat \<Rightarrow> CodeFormat \<Rightarrow> bool" where
  "format_eq f g \<longleftrightarrow> format_id f = format_id g \<and> body_length f = body_length g
     \<and> grouping f = grouping g \<and> alphabet f = alphabet g
     \<and> set (aliases f) = set (aliases g) \<and> check_scheme f = check_scheme g"

definition register_format :: "CodeFormat \<Rightarrow> registry \<Rightarrow> FormatRegistryError + (CodeFormat \<times> registry)" where
  "register_format f reg =
     (case registered reg (format_id f) of
        Some existing \<Rightarrow> if format_eq existing f then Inr (existing, reg)
                         else Inl (AlreadyRegistered (format_id f))
      | None \<Rightarrow>
          (case List.find (\<lambda>other. canonical_length other = canonical_length f) reg of
             Some other \<Rightarrow> Inl (SameLength (format_id f) (format_id other))
           | None \<Rightarrow> Inr (f, reg @ [f])))"

definition unregister_format :: "pystr \<Rightarrow> registry \<Rightarrow> FormatRegistryError + registry" where
  "unregister_format fid reg =
     (if fid = DEFAULT_FORMAT_ID then Inl DefaultFormatFixed
      else Inr (filter (\<lambda>f. format_id f \<noteq> fid) reg))"

definition get_format :: "pystr \<Rightarrow> registry \<Rightarrow> FormatRegistryError + CodeFormat" where
  "get_format fid reg =
     (case registered reg (if fid = [] then DEFAULT_FORMAT_ID else fid) of
        Some f \<Rightarrow> Inr f
      | None \<Rightarrow> Inl (UnknownFormat fid))"

text \<open>The registry after the module's two \<open>register_format\<close> calls.\<close>

definition FORMATS :: registry where
  "FORMATS = (case register_format V2_B10 [] of Inl _ \<Rightarrow> [] | Inr (_, r1) \<Rightarrow>
     (case register_format CITY2_B9 r1 of Inl _ \<Rightarrow> r1 | Inr (_, r2) \<Rightarrow> r2))"

fun verify_frozen_formats ::
  "(pystr \<Rightarrow> pystr) \<Rightarrow> registry \<Rightarrow> (pystr \<times> pystr) list \<Rightarrow> FormatRegistryError option" where
  "verify_frozen_formats sha256 reg [] = None"
| "verify_frozen_formats sha256 reg ((fid, expected) # frozen) =
     (case get_format fid reg of
        Inl e \<Rightarrow> Some e
      | Inr f \<Rightarrow>
          if fingerprint sha256 f \<noteq> expected
          then Some (FormatChanged fid expected (fingerprint sha256 f))
          else verify_frozen_formats sha256 reg frozen)"

section \<open>The check character\<close>

text \<open>The loop of \<open>_luhn_mod_n_sum\<close> over the values already reversed.\<close>

fun luhn_loop :: "nat \<Rightarrow> nat \<Rightarrow> nat \<Rightarrow> nat list \<Rightarrow> nat" where
  "luhn_loop factor b acc [] = acc"
| "luhn_loop factor b acc (value # rest) =
     luhn_loop (if factor = 2 then 1 else 2) b
       (acc + (factor * value div b + factor * value mod b)) rest"

definition luhn_mod_n_sum :: "nat list \<Rightarrow> nat \<Rightarrow> nat \<Rightarrow> nat" where
  "luhn_mod_n_sum values start_factor b = luhn_loop start_factor b 0 (rev values)"

text \<open>\<open>alphabet.index(c)\<close>; \<open>None\<close> is Python's \<open>ValueError\<close>.\<close>

fun index_of :: "pystr \<Rightarrow> nat \<Rightarrow> nat option" where
  "index_of [] c = None"
| "index_of (a # as) c = (if a = c then Some 0 else map_option Suc (index_of as c))"

definition char_values :: "CodeFormat \<Rightarrow> pystr \<Rightarrow> nat list option" where
  "char_values f cs = those (map (index_of (alphabet f)) cs)"

definition compute_check_value :: "CityCode \<Rightarrow> pystr \<Rightarrow> CodeFormat \<Rightarrow> nat option" where
  "compute_check_value city body f =
     (case char_values f body of
        None \<Rightarrow> None
      | Some vs \<Rightarrow>
          let s = luhn_mod_n_sum (CITY_CHECK_INDEX city # vs) 2 (base f)
          in Some ((base f - s mod base f) mod base f))"

definition check_is_valid :: "CityCode \<Rightarrow> pystr \<Rightarrow> pystr \<Rightarrow> CodeFormat \<Rightarrow> bool option" where
  "check_is_valid city body check f =
     (case char_values f (body @ check) of
        None \<Rightarrow> None
      | Some vs \<Rightarrow> Some (luhn_mod_n_sum (CITY_CHECK_INDEX city # vs) 1 (base f) mod base f = 0))"

section \<open>Generation and the printed form\<close>

text \<open>
  \<open>secrets.choice\<close> draws an index: \<open>randbelow i n\<close> is the \<open>i\<close>-th draw below \<open>n\<close>. A body
  of alphabet characters always has a check value, so \<open>None\<close> stands for the exception that
  \<open>compute_check_value\<close> would raise.
\<close>

definition random_body :: "(nat \<Rightarrow> nat \<Rightarrow> nat) \<Rightarrow> CodeFormat \<Rightarrow> pystr" where
  "random_body randbelow f =
     map (\<lambda>i. alphabet f ! randbelow i (base f)) [0..<nat (body_length f)]"

definition generate_code :: "(nat \<Rightarrow> nat \<Rightarrow> nat) \<Rightarrow> CityCode \<Rightarrow> CodeFormat \<Rightarrow> pystr option" where
  "generate_code randbelow city f =
     (let body = random_body randbelow f in
      case compute_check_value city body f of
        None \<Rightarrow> None
      | Some v \<Rightarrow> Some (cp (city_value city) @ body @ [alphabet f ! v]))"

definition format_printed :: "pystr \<Rightarrow> CodeFormat \<Rightarrow> pystr" where
  "format_printed canonical f =
     join_with [45] (take PREFIX_LENGTH canonical
       # chunks (map nat (grouping f)) (drop PREFIX_LENGTH canonical))"

text \<open>\<open>qr_url\<close> of \<open>scripts/generate_codes.py\<close>: what the printed QR holds.\<close>

definition qr_url :: "unicode \<Rightarrow> pystr \<Rightarrow> pystr \<Rightarrow> CodeFormat \<Rightarrow> pystr" where
  "qr_url ud base_url code f =
     lower ud (rstrip_by (\<lambda>c. c = 47) base_url) @ cp ''/b/'' @ format_printed code f"

section \<open>Parsing\<close>

definition is_separator :: "nat \<Rightarrow> bool" where
  "is_separator c \<longleftrightarrow> is_zs c \<or> is_pd c \<or> is_cf c \<or> c \<in> {9, 13, 10, 95, 46}"

definition strip_separators :: "pystr \<Rightarrow> pystr" where
  "strip_separators t = filter (\<lambda>c. \<not> is_separator c) t"

definition normalize_input :: "unicode \<Rightarrow> pystr \<Rightarrow> pystr" where
  "normalize_input ud raw = upper ud (strip_separators (map translate_digit (nfkc ud raw)))"

definition strip_qr_wrapper :: "pystr \<Rightarrow> pystr" where
  "strip_qr_wrapper raw =
     (let t = strip raw in
      if 35 \<in> set t then after_last 35 t
      else if occurs_in (cp ''://'') t then after_last 47 t
      else t)"

record ParsedCode =
  pc_city :: CityCode
  pc_canonical :: pystr
  pc_format_id :: pystr

definition alias_get :: "CodeFormat \<Rightarrow> nat \<Rightarrow> pystr" where
  "alias_get f c = (case map_of (aliases f) [c] of None \<Rightarrow> [c] | Some meant \<Rightarrow> meant)"

definition parse_code :: "unicode \<Rightarrow> registry \<Rightarrow> pystr \<Rightarrow> CodeProblem raised + ParsedCode" where
  "parse_code ud reg raw =
     (let t = normalize_input ud (strip_qr_wrapper raw) in
      case List.find (\<lambda>f. canonical_length f = int (length t)) reg of
        None \<Rightarrow> Inl (Raised MALFORMED)
      | Some f \<Rightarrow>
          if \<not> is_ascii t then Inl (Raised MALFORMED)
          else
            let prefix = map (\<lambda>c. if c = 48 then 79 else c) (take PREFIX_LENGTH t) in
            (case CITY_BY_PREFIX prefix of
               None \<Rightarrow> Inl (Raised MALFORMED)
             | Some city \<Rightarrow>
                 let tail = concat (map (alias_get f) (drop PREFIX_LENGTH t)) in
                 if list_ex (\<lambda>c. c \<notin> set (alphabet f)) tail then Inl (Raised MALFORMED)
                 else
                   let body = take (nat (body_length f)) tail;
                       check = drop (nat (body_length f)) tail in
                   (case check_is_valid city body check f of
                      None \<Rightarrow> Inl (Crash (ValueError ''substring not found''))
                    | Some False \<Rightarrow> Inl (Raised MISTYPED)
                    | Some True \<Rightarrow>
                        Inr \<lparr>pc_city = city, pc_canonical = prefix @ body @ check,
                             pc_format_id = format_id f\<rparr>)))"

definition printed :: "registry \<Rightarrow> ParsedCode \<Rightarrow> FormatRegistryError + pystr" where
  "printed reg p =
     (case get_format (pc_format_id p) reg of
        Inl e \<Rightarrow> Inl e | Inr f \<Rightarrow> Inr (format_printed (pc_canonical p) f))"

section \<open>The registered formats\<close>

lemma alphabet_ok:
  "length CROCKFORD_BASE32 = 32" "distinct CROCKFORD_BASE32" "is_ascii CROCKFORD_BASE32"
  "map ascii_upper CROCKFORD_BASE32 = CROCKFORD_BASE32"
  by (simp_all add: CROCKFORD_BASE32_def ascii_upper_def)

lemma aliases_ok:
  "List.find (\<lambda>(typed, meant). occurs_in typed CROCKFORD_BASE32 \<or> \<not> occurs_in meant CROCKFORD_BASE32)
     CROCKFORD_ALIASES = None"
  by (simp add: CROCKFORD_ALIASES_def CROCKFORD_BASE32_def starts_with_def)

lemma city_indexes: "foldr max (map CITY_CHECK_INDEX all_cities) 0 = 7"
  by (simp add: all_cities_def)

lemma post_init_formats [simp]: "post_init V2_B10 = None" "post_init CITY2_B9 = None"
  by (simp_all add: post_init_def V2_B10_def CITY2_B9_def alphabet_ok aliases_ok city_indexes)

lemma FORMATS_eq: "FORMATS = [V2_B10, CITY2_B9]"
  by code_simp

lemma canonical_length_formats [simp]:
  "canonical_length V2_B10 = 13" "canonical_length CITY2_B9 = 11"
  by (simp_all add: canonical_length_def V2_B10_def CITY2_B9_def PREFIX_LENGTH_def)

lemma alphabet_formats [simp]:
  "alphabet V2_B10 = CROCKFORD_BASE32" "alphabet CITY2_B9 = CROCKFORD_BASE32"
  by (simp_all add: V2_B10_def CITY2_B9_def)

lemma base_formats [simp]: "base V2_B10 = 32" "base CITY2_B9 = 32"
  by (simp_all add: base_def CROCKFORD_BASE32_def)

lemma entropy_formats: "entropy_bits V2_B10 = 50" "entropy_bits CITY2_B9 = 40"
proof -
  have "log 2 32 = log 2 (2 ^ 5)" by simp
  then have "log 2 32 = (5::real)" by (simp only: log_pow_cancel)
  moreover have "body_length V2_B10 = 10" "body_length CITY2_B9 = 8" by (simp_all add: V2_B10_def CITY2_B9_def)
  ultimately show "entropy_bits V2_B10 = 50" "entropy_bits CITY2_B9 = 40"
    unfolding entropy_bits_def base_formats by simp_all
qed

end
