(* ===== verification/Print_Runs.thy ===== *)
theory Print_Runs
  imports Codes
begin

text \<open>
  Weighted print runs (\<open>app/domain/print_runs.py\<close>): exact weights, the largest remainder
  allocation, the quota test and the plan of a run. \<open>Fraction\<close> is \<open>rat\<close>; a weight mapping is a
  dict, its items in insertion order with distinct keys. The quantities are Python's unbounded
  integers.
\<close>

section \<open>Flavors, weights, errors\<close>

definition POOL_SIZE :: int where
  "POOL_SIZE = 1000000"

definition QUOTA_PER_SKU :: int where
  "QUOTA_PER_SKU = POOL_SIZE div int (length all_cities)"

definition SKU_ORDER :: "CityCode list" where
  "SKU_ORDER = sort_key CITY_CHECK_INDEX all_cities"

datatype Shortage = Shortage (short_city: CityCode) (wanted: int) (remaining: int)

datatype PrintRunError =
    UnknownFlavor pystr | ExpectedWeight pystr | GivenTwice CityCode | BadWeight pystr CityCode
  | NegativeWeights | WeightsSum rat | KTooSmall | QuotaExceededError "Shortage list"

type_synonym weights = "(CityCode \<times> rat) list"

definition weight_get :: "weights \<Rightarrow> CityCode \<Rightarrow> rat" where
  "weight_get ws c = (case map_of ws c of None \<Rightarrow> 0 | Some w \<Rightarrow> w)"

definition parse_sku :: "unicode \<Rightarrow> pystr \<Rightarrow> PrintRunError + CityCode" where
  "parse_sku ud name =
     (let t = strip name in
      case CITY_BY_PREFIX (upper ud t) of
        Some c \<Rightarrow> Inr c
      | None \<Rightarrow>
          (case List.find (\<lambda>c. cp (campaign_value (CAMPAIGN_BY_CITY c)) = lower ud t) all_cities of
             Some c \<Rightarrow> Inr c
           | None \<Rightarrow> Inl (UnknownFlavor name)))"

definition validate_weights :: "weights \<Rightarrow> PrintRunError option" where
  "validate_weights ws =
     (if list_ex (\<lambda>(c, w). w < 0) ws then Some NegativeWeights
      else let s = sum_list (map snd ws) in if s \<noteq> 1 then Some (WeightsSum s) else None)"

section \<open>\<open>Fraction(text)\<close>\<close>

text \<open>
  The format \<open>Fraction\<close> accepts: an optional sign, then a numerator with an optional
  denominator, or a decimal with an optional exponent; digits of any script, single underscores
  between digits, spaces around it and around the slash.
\<close>

fun digit_run :: "nat list \<Rightarrow> pystr \<Rightarrow> nat list \<times> pystr" where
  "digit_run ds [] = (ds, [])"
| "digit_run ds (c # s) =
     (case decimal_value c of
        Some d \<Rightarrow> digit_run (ds @ [d]) s
      | None \<Rightarrow>
          if c = 95 \<and> ds \<noteq> [] \<and> s \<noteq> [] \<and> is_decimal (hd s) then digit_run ds s
          else (ds, c # s))"

definition read_sign :: "pystr \<Rightarrow> int \<times> pystr" where
  "read_sign s = (if s \<noteq> [] \<and> hd s = 45 then (-1, tl s)
     else if s \<noteq> [] \<and> hd s = 43 then (1, tl s) else (1, s))"

definition read_exponent :: "pystr \<Rightarrow> (int \<times> pystr) option" where
  "read_exponent s =
     (if s \<noteq> [] \<and> hd s \<in> {69, 101}
      then let (sg, r) = read_sign (tl s); (ds, r') = digit_run [] r in
        if ds = [] then None else Some (sg * int (undigs 10 ds), r')
      else Some (0, s))"

definition ten_to :: "int \<Rightarrow> rat" where
  "ten_to e = (if 0 \<le> e then 10 ^ nat e else 1 / 10 ^ nat (- e))"

definition parse_fraction :: "pystr \<Rightarrow> rat option" where
  "parse_fraction t =
     (let (sg, s) = read_sign (lstrip_by is_space t);
          (ns, s1) = digit_run [] s;
          s2 = lstrip_by is_space s1 in
      if ns = [] \<and> \<not> (s \<noteq> [] \<and> hd s = 46 \<and> tl s \<noteq> [] \<and> is_decimal (hd (tl s))) then None
      else if s2 \<noteq> [] \<and> hd s2 = 47 then
        (let (ds, s3) = digit_run [] (lstrip_by is_space (tl s2)) in
         if ds = [] \<or> lstrip_by is_space s3 \<noteq> [] \<or> undigs 10 ds = 0 \<or> ns = [] then None
         else Some (of_int sg * of_nat (undigs 10 ns) / of_nat (undigs 10 ds)))
      else
        (let (fs, s3) = (if s1 \<noteq> [] \<and> hd s1 = 46 then digit_run [] (tl s1) else ([], s1)) in
         case read_exponent s3 of
           None \<Rightarrow> None
         | Some (e, s4) \<Rightarrow>
             if lstrip_by is_space s4 \<noteq> [] then None
             else Some (of_int sg * of_nat (undigs 10 (ns @ fs)) / 10 ^ length fs * ten_to e)))"

text \<open>\<open>parse_weights\<close>: the loop over the comma-separated items.\<close>

fun parse_items :: "unicode \<Rightarrow> weights \<Rightarrow> pystr list \<Rightarrow> PrintRunError + weights" where
  "parse_items ud ws [] = Inr ws"
| "parse_items ud ws (item # items) =
     (if strip item = [] then parse_items ud ws items
      else if 61 \<notin> set item then Inl (ExpectedWeight (strip item))
      else
        let name = takeWhile (\<lambda>c. c \<noteq> 61) item; v = tl (dropWhile (\<lambda>c. c \<noteq> 61) item) in
        (case parse_sku ud name of
           Inl e \<Rightarrow> Inl e
         | Inr city \<Rightarrow>
             if city \<in> set (map fst ws) then Inl (GivenTwice city)
             else (case parse_fraction (strip v) of
                None \<Rightarrow> Inl (BadWeight (strip v) city)
              | Some w \<Rightarrow> parse_items ud (ws @ [(city, w)]) items)))"

definition parse_weights :: "unicode \<Rightarrow> pystr \<Rightarrow> PrintRunError + weights" where
  "parse_weights ud t =
     (case parse_items ud [] (split_on 44 t) of
        Inl e \<Rightarrow> Inl e
      | Inr ws \<Rightarrow> (case validate_weights ws of
           Some e \<Rightarrow> Inl e
         | None \<Rightarrow> Inr (map (\<lambda>c. (c, weight_get ws c)) SKU_ORDER)))"

definition equal_weights :: weights where
  "equal_weights = map (\<lambda>c. (c, 1 / of_nat (length SKU_ORDER))) SKU_ORDER"

section \<open>Allocation and quota\<close>

text \<open>A count for each flavor of \<open>SKU_ORDER\<close>, in that order.\<close>

type_synonym allocation = "CityCode \<Rightarrow> int"

fun bump :: "CityCode list \<Rightarrow> allocation \<Rightarrow> allocation" where
  "bump [] counts = counts"
| "bump (c # cs) counts = bump cs (counts(c := counts c + 1))"

definition allocate :: "int \<Rightarrow> weights \<Rightarrow> PrintRunError + allocation" where
  "allocate k ws =
     (if k < 1 then Inl KTooSmall
      else case validate_weights ws of
        Some e \<Rightarrow> Inl e
      | None \<Rightarrow>
          let exact = (\<lambda>c. weight_get ws c * of_int k);
              counts = (\<lambda>c. \<lfloor>exact c\<rfloor>);
              leftover = k - sum_list (map counts SKU_ORDER);
              by_remainder = sort_key (\<lambda>c. - (exact c - of_int (counts c))) SKU_ORDER
          in Inr (bump (take (nat leftover) by_remainder) counts))"

definition remaining_quota :: "(CityCode \<Rightarrow> int) \<Rightarrow> int \<Rightarrow> CityCode \<Rightarrow> int" where
  "remaining_quota issued quota_per_sku = (\<lambda>c. quota_per_sku - issued c)"

definition check_quota :: "allocation \<Rightarrow> (CityCode \<Rightarrow> int) \<Rightarrow> PrintRunError option" where
  "check_quota alloc left =
     (let shortages = [Shortage c (alloc c) (left c). c \<leftarrow> SKU_ORDER, alloc c > max (left c) 0]
      in if shortages = [] then None else Some (QuotaExceededError shortages))"

definition plan_run :: "int \<Rightarrow> weights \<Rightarrow> (CityCode \<Rightarrow> int) \<Rightarrow> int \<Rightarrow> PrintRunError + allocation" where
  "plan_run k ws issued quota_per_sku =
     (case allocate k ws of
        Inl e \<Rightarrow> Inl e
      | Inr alloc \<Rightarrow>
          (case check_quota alloc (remaining_quota issued quota_per_sku) of
             Some e \<Rightarrow> Inl e
           | None \<Rightarrow> Inr alloc))"

section \<open>The largest remainder method\<close>

lemma SKU_ORDER_eq: "SKU_ORDER = all_cities"
  by code_simp

lemma distinct_SKU_ORDER [simp]: "distinct SKU_ORDER"
  by (simp add: SKU_ORDER_eq)

lemma set_SKU_ORDER [simp]: "set SKU_ORDER = UNIV"
  by (simp add: SKU_ORDER_eq)

lemma finite_cities [simp]: "finite (UNIV :: CityCode set)"
  by (metis List.finite_set set_all_cities)

lemma sum_SKU_ORDER: "sum_list (map g SKU_ORDER) = (\<Sum>c \<in> UNIV. g c)"
  by (metis distinct_SKU_ORDER set_SKU_ORDER sum_list_distinct_conv_sum_set)

lemma bump_eq: "distinct cs \<Longrightarrow> bump cs counts c = counts c + (if c \<in> set cs then 1 else 0)"
  by (induction cs arbitrary: counts) auto

lemma weight_get_sum:
  "distinct (map fst ws) \<Longrightarrow> (\<Sum>c \<in> UNIV. weight_get ws c) = sum_list (map snd ws)"
proof (induction ws)
  case Nil
  then show ?case by (simp add: weight_get_def)
next
  case (Cons cw ws)
  obtain c w where cw: "cw = (c, w)" by (cases cw)
  have zero: "weight_get ws c = 0"
  proof -
    have "map_of ws c = None" using Cons.prems by (simp add: cw map_of_eq_None_iff)
    then show ?thesis by (simp add: weight_get_def)
  qed
  have "weight_get (cw # ws) = (weight_get ws)(c := w)" by (auto simp: weight_get_def cw fun_eq_iff)
  then have "(\<Sum>d \<in> UNIV. weight_get (cw # ws) d) = w + (\<Sum>d \<in> UNIV - {c}. weight_get ws d)"
    by (simp add: sum.remove [of UNIV c])
  also have "\<dots> = w + (\<Sum>d \<in> UNIV. weight_get ws d)"
    using zero by (simp add: sum.remove [of UNIV c "weight_get ws"])
  finally show ?case using Cons by (simp add: cw)
qed

text \<open>The first \<open>m\<close> of a list sorted by falling fraction, when the fractions add up to \<open>m\<close>.\<close>

lemma largest_remainders:
  fixes fr :: "'a \<Rightarrow> rat"
  assumes "distinct xs" "\<And>x. 0 \<le> fr x" "\<And>x. fr x < 1" "(\<Sum>x \<in> set xs. fr x) = of_nat m"
  defines "upper_part \<equiv> take m (sort_key (\<lambda>x. - fr x) xs)"
  shows "length upper_part = m" and "\<And>x. x \<in> set upper_part \<Longrightarrow> 0 < fr x"
    and "\<And>x y. x \<in> set upper_part \<Longrightarrow> y \<in> set xs \<Longrightarrow> y \<notin> set upper_part \<Longrightarrow> fr y \<le> fr x"
proof -
  let ?ys = "sort_key (\<lambda>x. - fr x) xs"
  let ?P = "{x \<in> set xs. 0 < fr x}"
  have "(\<Sum>x \<in> set xs. fr x) = (\<Sum>x \<in> ?P. fr x)"
  proof (rule sum.mono_neutral_right)
    have "fr x = 0" if "\<not> 0 < fr x" for x using assms(2) [of x] that by linarith
    then show "\<forall>x \<in> set xs - ?P. fr x = 0" by blast
  qed auto
  also have "\<dots> \<le> of_nat (card ?P)"
    using sum_bounded_above [of ?P fr 1] assms(3) by (simp add: less_imp_le)
  finally have mP: "m \<le> card ?P" using assms(4) by simp
  have "card ?P \<le> card (set xs)" by (intro card_mono) auto
  then have "m \<le> length ?ys" using mP assms(1) by (simp add: distinct_card)
  then show len: "length upper_part = m" by (simp add: upper_part_def)
  have sorted: "fr (?ys ! j) \<le> fr (?ys ! i)" if "i \<le> j" "j < length ?ys" for i j
    using sorted_nth_mono [of "map (\<lambda>x. - fr x) ?ys" i j] that by simp
  show "0 < fr x" if "x \<in> set upper_part" for x
  proof (rule ccontr)
    assume "\<not> 0 < fr x"
    with assms(2) [of x] have zero: "fr x = 0" by simp
    from that obtain i where i: "i < m" "i < length ?ys" "?ys ! i = x"
      by (auto simp: upper_part_def in_set_conv_nth)
    have "?P \<subseteq> set (take i ?ys)"
    proof
      fix y assume "y \<in> ?P"
      then obtain j where j: "j < length ?ys" "?ys ! j = y" "0 < fr y"
        by (metis (no_types, lifting) in_set_conv_nth mem_Collect_eq set_sort)
      with sorted [of i j] zero i(3) have "j < i" by force
      with j show "y \<in> set (take i ?ys)" by (auto simp: in_set_conv_nth intro!: exI [of _ j])
    qed
    then have "card ?P \<le> i"
      using card_mono [of "set (take i ?ys)" ?P] card_length [of "take i ?ys"] by simp
    with mP i(1) show False by simp
  qed
  show "fr y \<le> fr x" if "x \<in> set upper_part" "y \<in> set xs" "y \<notin> set upper_part" for x y
  proof -
    from that(1) obtain i where i: "i < m" "i < length ?ys" "?ys ! i = x"
      by (auto simp: upper_part_def in_set_conv_nth)
    from that(2) obtain j where j: "j < length ?ys" "?ys ! j = y" by (metis in_set_conv_nth set_sort)
    with that(3) have "\<not> j < m" by (auto simp: upper_part_def in_set_conv_nth)
    with sorted [of i j] i j show ?thesis by simp
  qed
qed

section \<open>Properties\<close>

text \<open>
  C25: a run of \<open>k\<close> codes with valid weights is split into counts that are not negative, add up to
  exactly \<open>k\<close>, differ from \<open>w * k\<close> by less than one, and are 0 for a flavor of weight 0.
\<close>

theorem allocate_exact:
  assumes "1 \<le> k" and "validate_weights ws = None" and "distinct (map fst ws)"
  shows "\<exists>counts. allocate k ws = Inr counts \<and> (\<Sum>c \<leftarrow> SKU_ORDER. counts c) = k
    \<and> (\<forall>c. 0 \<le> counts c \<and> \<bar>of_int (counts c) - weight_get ws c * of_int k\<bar> < 1
          \<and> (weight_get ws c = 0 \<longrightarrow> counts c = 0))"
proof -
  define exact where "exact = (\<lambda>c. weight_get ws c * of_int k)"
  define floors where "floors = (\<lambda>c. \<lfloor>exact c\<rfloor>)"
  define fr where "fr = (\<lambda>c. exact c - of_int (floors c))"
  define m where "m = k - sum_list (map floors SKU_ORDER)"
  have nonneg: "0 \<le> weight_get ws c" for c
    using assms(2) by (auto simp: validate_weights_def weight_get_def list_ex_iff not_less
      split: option.splits if_splits dest!: map_of_SomeD)
  have one: "(\<Sum>c \<in> UNIV. weight_get ws c) = 1"
    using weight_get_sum [OF assms(3)] assms(2)
    by (auto simp: validate_weights_def Let_def split: if_splits)
  have fr: "0 \<le> fr c" "fr c < 1" for c
    by (simp_all add: fr_def floors_def frac_def [symmetric] frac_ge_0 frac_lt_1)
  have "(\<Sum>c \<in> UNIV. exact c) = of_int k"
    using one by (simp add: exact_def sum_distrib_right [symmetric])
  then have sum_fr: "(\<Sum>c \<in> UNIV. fr c) = of_int m"
    by (simp add: fr_def sum_subtractf m_def sum_SKU_ORDER)
  then have "0 \<le> m" using sum_nonneg [of UNIV fr] fr by simp
  then have m: "(\<Sum>c \<in> set SKU_ORDER. fr c) = of_nat (nat m)" using sum_fr by simp
  define upper_part where "upper_part = take (nat m) (sort_key (\<lambda>c. - fr c) SKU_ORDER)"
  note lr = largest_remainders [OF distinct_SKU_ORDER fr m, folded upper_part_def]
  have dist: "distinct upper_part" by (simp add: upper_part_def)
  define counts where "counts = bump upper_part floors"
  have counts: "counts c = floors c + (if c \<in> set upper_part then 1 else 0)" for c
    by (simp add: counts_def bump_eq dist)
  have "allocate k ws = Inr counts"
    using assms(1,2) unfolding allocate_def Let_def counts_def upper_part_def m_def fr_def floors_def exact_def
    by simp
  moreover have "(\<Sum>c \<leftarrow> SKU_ORDER. counts c) = k"
  proof -
    have "(\<Sum>c \<in> UNIV. if c \<in> set upper_part then 1 else 0 :: int) = int (card (set upper_part))"
      by (simp add: sum.If_cases)
    also have "\<dots> = m" using lr(1) dist \<open>0 \<le> m\<close> by (simp add: distinct_card)
    finally show ?thesis by (simp add: sum_SKU_ORDER counts sum.distrib m_def)
  qed
  moreover have "0 \<le> counts c \<and> \<bar>of_int (counts c) - exact c\<bar> < 1 \<and> (weight_get ws c = 0 \<longrightarrow> counts c = 0)" for c
  proof -
    have "0 \<le> exact c" using nonneg [of c] assms(1) by (simp add: exact_def)
    then have "0 \<le> floors c" by (simp add: floors_def)
    moreover have "of_int (counts c) - exact c = (if c \<in> set upper_part then 1 - fr c else - fr c)"
      by (simp add: counts fr_def)
    moreover have "0 < fr c" if "c \<in> set upper_part" using lr(2) that .
    moreover have "floors c = 0 \<and> fr c = 0" if "weight_get ws c = 0"
      using that by (simp add: floors_def fr_def exact_def)
    ultimately show ?thesis using fr [of c] by (auto simp: counts split: if_splits)
  qed
  ultimately show ?thesis by (auto simp: exact_def)
qed

theorem allocate_exact_witness:
  "\<exists>counts. allocate 10 equal_weights = Inr counts \<and> (\<Sum>c \<leftarrow> SKU_ORDER. counts c) = 10
    \<and> (\<forall>c. 0 \<le> counts c \<and> \<bar>of_int (counts c) - weight_get equal_weights c * of_int 10\<bar> < 1
          \<and> (weight_get equal_weights c = 0 \<longrightarrow> counts c = 0))"
  by (rule allocate_exact) (simp_all add: equal_weights_def SKU_ORDER_eq all_cities_def validate_weights_def)

text \<open>
  A run is all or nothing. A planned run never takes more of a flavor than its quota leaves,
  so the codes issued stay within the quota where they were within it; a run is refused for its
  quota exactly when some flavor lacks codes, and then every flavor that lacks them is named with
  what it wants and has.
\<close>

theorem plan_run_all_or_nothing:
  assumes "allocate k ws = Inr alloc"
  shows "case plan_run k ws issued quota of
      Inr planned \<Rightarrow> planned = alloc \<and> (\<forall>c. 0 < alloc c \<longrightarrow> issued c + alloc c \<le> quota)
    | Inl e \<Rightarrow> \<exists>ss. e = QuotaExceededError ss \<and> ss \<noteq> []
        \<and> set ss = {Shortage c (alloc c) (quota - issued c) | c. 0 < alloc c \<and> quota < issued c + alloc c}"
proof -
  let ?ss = "[Shortage c (alloc c) (quota - issued c). c \<leftarrow> SKU_ORDER, alloc c > max (quota - issued c) 0]"
  have set: "set ?ss = {Shortage c (alloc c) (quota - issued c) | c. 0 < alloc c \<and> quota < issued c + alloc c}"
    by auto
  have "issued c + alloc c \<le> quota" if "?ss = []" "0 < alloc c" for c
  proof (rule ccontr)
    assume "\<not> issued c + alloc c \<le> quota"
    with that(2) have "Shortage c (alloc c) (quota - issued c) \<in> set ?ss" unfolding set by auto
    then show False unfolding that(1) by simp
  qed
  then show ?thesis
    using assms set by (simp add: plan_run_def check_quota_def remaining_quota_def Let_def)
qed

theorem plan_run_all_or_nothing_witness:
  "\<exists>alloc. allocate 7 equal_weights = Inr alloc \<and>
    (case plan_run 7 equal_weights (\<lambda>_. 5) 6 of
      Inr planned \<Rightarrow> planned = alloc \<and> (\<forall>c. 0 < alloc c \<longrightarrow> 5 + alloc c \<le> 6)
    | Inl e \<Rightarrow> \<exists>ss. e = QuotaExceededError ss \<and> ss \<noteq> []
        \<and> set ss = {Shortage c (alloc c) (6 - 5) | c. 0 < alloc c \<and> 6 < 5 + alloc c})"
proof -
  have "validate_weights equal_weights = None"
    by (simp add: equal_weights_def SKU_ORDER_eq all_cities_def validate_weights_def)
  then have "\<exists>alloc. allocate 7 equal_weights = Inr alloc" by (simp add: allocate_def Let_def)
  then obtain alloc where a: "allocate 7 equal_weights = Inr alloc" ..
  from a plan_run_all_or_nothing [OF a, where issued = "\<lambda>_. 5" and quota = 6] show ?thesis by (intro exI conjI)
qed

end
