(* ===== verification/Draw.thy ===== *)
theory Draw
  imports Codes "HOL-Library.Product_Lexorder" "HOL-Library.Multiset"
begin

text \<open>
  The reproducible weighted draw (\<open>app/domain/draw.py\<close>). HMAC-SHA256 keyed with the seed is an
  argument \<open>hmac\<close> from the message to the 256-bit word its digest reads as; the rejection loop of
  \<open>uniform_below\<close> may run on, so its result is an option and \<open>None\<close> means that it does not
  return.
\<close>

type_synonym entry = "pystr \<times> int"

type_synonym mac = "pystr \<Rightarrow> 256 word"

datatype draw_error = BoundNotPositive | DuplicateIds | NegativeWeight

definition snapshot_digest :: "(pystr \<Rightarrow> pystr) \<Rightarrow> entry list \<Rightarrow> pystr" where
  "snapshot_digest sha256 entries =
     sha256 (concat (map (\<lambda>(pid, weight). pid @ [44] @ show_int weight @ [10]) (sort entries)))"

section \<open>An unbiased integer\<close>

definition space :: int where
  "space = 2 ^ 256"

definition limit :: "int \<Rightarrow> int" where
  "limit bound = space - space mod bound"

definition hmac_value :: "mac \<Rightarrow> pystr \<Rightarrow> nat \<Rightarrow> int" where
  "hmac_value hmac label counter = uint (hmac (label @ [58] @ show_nat counter))"

partial_function (option) uniform_loop :: "mac \<Rightarrow> int \<Rightarrow> pystr \<Rightarrow> nat \<Rightarrow> int option" where
  "uniform_loop hmac bound label counter =
     (if hmac_value hmac label counter < limit bound then Some (hmac_value hmac label counter mod bound)
      else uniform_loop hmac bound label (counter + 1))"

declare uniform_loop.simps [code]

definition uniform_below :: "int \<Rightarrow> mac \<Rightarrow> pystr \<Rightarrow> (draw_error + int) option" where
  "uniform_below bound hmac label =
     (if bound \<le> 0 then Some (Inl BoundNotPositive)
      else map_option Inr (uniform_loop hmac bound label 0))"

section \<open>The draw\<close>

text \<open>
  The inner loop: the first entry whose cumulative weight passes the ticket, and the pool
  without it. \<open>None\<close> is the loop ending without a \<open>break\<close>.
\<close>

fun pick :: "int \<Rightarrow> int \<Rightarrow> entry list \<Rightarrow> (pystr \<times> entry list) option" where
  "pick ticket cumulative [] = None"
| "pick ticket cumulative ((pid, weight) # pool) =
     (if ticket < cumulative + weight then Some (pid, pool)
      else map_option (map_prod id (Cons (pid, weight))) (pick ticket (cumulative + weight) pool))"

text \<open>The outer loop: \<open>rounds\<close> are the round numbers still to run.\<close>

fun draw_rounds ::
  "mac \<Rightarrow> pystr \<Rightarrow> nat list \<Rightarrow> entry list \<Rightarrow> pystr list \<Rightarrow> (draw_error + pystr list) option" where
  "draw_rounds hmac label [] pool winners = Some (Inr winners)"
| "draw_rounds hmac label (n # rounds) pool winners =
     (case uniform_below (sum_list (map snd pool)) hmac (label @ [58] @ show_nat n) of
        None \<Rightarrow> None
      | Some (Inl e) \<Rightarrow> Some (Inl e)
      | Some (Inr ticket) \<Rightarrow>
          (case pick ticket 0 pool of
             None \<Rightarrow> draw_rounds hmac label rounds pool winners
           | Some (pid, pool') \<Rightarrow> draw_rounds hmac label rounds pool' (winners @ [pid])))"

definition draw_winners ::
  "entry list \<Rightarrow> mac \<Rightarrow> pystr \<Rightarrow> int \<Rightarrow> (draw_error + pystr list) option" where
  "draw_winners entries hmac label cnt =
     (if \<not> distinct (map fst entries) then Some (Inl DuplicateIds)
      else if list_ex (\<lambda>(pid, weight). weight < 0) entries then Some (Inl NegativeWeight)
      else let pool = filter (\<lambda>(pid, weight). 0 < weight) (sort entries)
        in draw_rounds hmac label [0..<nat (min cnt (int (length pool)))] pool [])"

section \<open>Rejection sampling\<close>

lemma limit_pos: "0 < bound \<Longrightarrow> bound \<le> space \<Longrightarrow> 0 < limit bound"
  using pos_mod_bound [of bound space] unfolding limit_def by linarith

lemma limit_dvd: "0 < bound \<Longrightarrow> limit bound = bound * (space div bound)"
  by (simp add: limit_def minus_mod_eq_mult_div)

lemma half_le_limit:
  assumes "0 < bound" and "bound \<le> 2 ^ 255"
  shows "2 ^ 255 \<le> limit bound"
proof -
  have "space mod bound < bound" using assms(1) by simp
  moreover have "space = 2 ^ 255 + 2 ^ 255" by (simp add: space_def)
  ultimately show ?thesis using assms(2) by (simp add: limit_def)
qed

text \<open>The loop returns exactly when some value is accepted: the first one, reduced.\<close>

lemma uniform_loop_first:
  "(\<And>j. j < k \<Longrightarrow> \<not> hmac_value hmac label (c + j) < limit bound)
     \<Longrightarrow> hmac_value hmac label (c + k) < limit bound
     \<Longrightarrow> uniform_loop hmac bound label c = Some (hmac_value hmac label (c + k) mod bound)"
proof (induction k arbitrary: c)
  case 0
  then show ?case by (subst uniform_loop.simps) simp
next
  case (Suc k)
  have "\<not> hmac_value hmac label c < limit bound" using Suc.prems(1) [of 0] by simp
  moreover have "uniform_loop hmac bound label (c + 1)
      = Some (hmac_value hmac label (c + 1 + k) mod bound)"
  proof (rule Suc.IH)
    fix j assume "j < k"
    then show "\<not> hmac_value hmac label (c + 1 + j) < limit bound" using Suc.prems(1) [of "Suc j"] by simp
  qed (use Suc.prems(2) in simp)
  ultimately show ?case by (subst uniform_loop.simps) simp
qed

lemma uniform_loop_Some:
  assumes "uniform_loop hmac bound label c = Some v"
  shows "\<exists>k. (\<forall>j < k. \<not> hmac_value hmac label (c + j) < limit bound)
    \<and> hmac_value hmac label (c + k) < limit bound \<and> v = hmac_value hmac label (c + k) mod bound"
proof (rule uniform_loop.raw_induct [OF _ assms, where P = "\<lambda>hmac bound label c v.
    \<exists>k. (\<forall>j < k. \<not> hmac_value hmac label (c + j) < limit bound)
      \<and> hmac_value hmac label (c + k) < limit bound \<and> v = hmac_value hmac label (c + k) mod bound"])
  fix loop hmac bound label c v
  assume IH: "\<And>hmac bound label c v. loop hmac bound label c = Some v
      \<Longrightarrow> \<exists>k. (\<forall>j < k. \<not> hmac_value hmac label (c + j) < limit bound)
        \<and> hmac_value hmac label (c + k) < limit bound \<and> v = hmac_value hmac label (c + k) mod bound"
    and step: "(if hmac_value hmac label c < limit bound then Some (hmac_value hmac label c mod bound)
      else loop hmac bound label (c + 1)) = Some v"
  show "\<exists>k. (\<forall>j < k. \<not> hmac_value hmac label (c + j) < limit bound)
      \<and> hmac_value hmac label (c + k) < limit bound \<and> v = hmac_value hmac label (c + k) mod bound"
  proof (cases "hmac_value hmac label c < limit bound")
    case True
    then show ?thesis using step by (intro exI [of _ 0]) simp
  next
    case False
    with step have "loop hmac bound label (c + 1) = Some v" by simp
    from IH [OF this] obtain k where k: "\<forall>j < k. \<not> hmac_value hmac label (c + 1 + j) < limit bound"
      "hmac_value hmac label (c + 1 + k) < limit bound" "v = hmac_value hmac label (c + 1 + k) mod bound"
      by blast
    have "\<not> hmac_value hmac label (c + j) < limit bound" if "j < Suc k" for j
      using that False k(1) by (cases j) auto
    with k(2,3) show ?thesis by (intro exI [of _ "Suc k"]) simp
  qed
qed

lemma uniform_loop_bound:
  assumes "uniform_loop hmac bound label c = Some v" and "0 < bound"
  shows "0 \<le> v \<and> v < bound"
proof -
  from uniform_loop_Some [OF assms(1)] obtain k where "v = hmac_value hmac label (c + k) mod bound" by blast
  then show ?thesis using assms(2) by simp
qed

lemma uniform_loop_returns:
  "(\<exists>v. uniform_loop hmac bound label 0 = Some v) \<longleftrightarrow> (\<exists>k. hmac_value hmac label k < limit bound)"
proof
  assume "\<exists>k. hmac_value hmac label k < limit bound"
  then have "hmac_value hmac label (LEAST k. hmac_value hmac label k < limit bound) < limit bound"
    by (rule LeastI_ex)
  then show "\<exists>v. uniform_loop hmac bound label 0 = Some v"
    using uniform_loop_first [of "LEAST k. hmac_value hmac label k < limit bound" hmac label 0 bound]
      not_less_Least by fastforce
qed (use uniform_loop_Some [of hmac bound label 0] in fastforce)

text \<open>Among the accepted values, each result below the bound comes from equally many.\<close>

lemma residue_count:
  assumes "0 < bound" and "0 \<le> r" "r < bound" and "0 \<le> n"
  shows "card {v. 0 \<le> v \<and> v < bound * n \<and> v mod bound = r} = nat n"
proof -
  have "{v. 0 \<le> v \<and> v < bound * n \<and> v mod bound = r} = (\<lambda>q. bound * q + r) ` {0..<n}"
  proof (intro set_eqI iffI)
    fix v assume v: "v \<in> {v. 0 \<le> v \<and> v < bound * n \<and> v mod bound = r}"
    then have "v = bound * (v div bound) + r" using mult_div_mod_eq [of bound v] by simp
    moreover have "v div bound < n"
    proof (rule ccontr)
      assume "\<not> v div bound < n"
      then have "bound * n \<le> bound * (v div bound)" using assms(1) by (intro mult_left_mono) auto
      also have "\<dots> \<le> v" using pos_mod_sign [of bound v] mult_div_mod_eq [of bound v] assms(1) by linarith
      finally show False using v by simp
    qed
    ultimately show "v \<in> (\<lambda>q. bound * q + r) ` {0..<n}"
      using v assms(1) by (intro image_eqI [of _ _ "v div bound"]) (auto simp: pos_imp_zdiv_nonneg_iff)
  next
    fix v assume "v \<in> (\<lambda>q. bound * q + r) ` {0..<n}"
    then obtain q where "v = bound * q + r" "q \<in> {0..<n}" by (rule imageE)
    then have q: "v = bound * q + r" "0 \<le> q" "q < n" by simp_all
    have "bound * q + r < bound * (q + 1)" using assms by (simp add: algebra_simps)
    also have "\<dots> \<le> bound * n" using q assms(1) by (intro mult_left_mono) auto
    finally show "v \<in> {v. 0 \<le> v \<and> v < bound * n \<and> v mod bound = r}"
      using q assms by simp
  qed
  moreover have "inj_on (\<lambda>q. bound * q + r) {0..<n}" using assms(1) by (auto simp: inj_on_def)
  ultimately show ?thesis by (simp add: card_image)
qed

section \<open>Selection by weight\<close>

definition weights_positive :: "entry list \<Rightarrow> bool" where
  "weights_positive pool \<longleftrightarrow> (\<forall>(pid, weight) \<in> set pool. 0 < weight)"

lemma weights_positive_simps [simp]:
  "weights_positive []"
  "weights_positive ((pid, w) # pool) \<longleftrightarrow> 0 < w \<and> weights_positive pool"
  "weights_positive (xs @ ys) \<longleftrightarrow> weights_positive xs \<and> weights_positive ys"
  by (auto simp: weights_positive_def)

lemma sum_weights_nonneg: "weights_positive pool \<Longrightarrow> 0 \<le> sum_list (map snd pool)"
  by (intro sum_list_nonneg) (auto simp: weights_positive_def less_imp_le)

lemma sum_weights_pos: "weights_positive pool \<Longrightarrow> pool \<noteq> [] \<Longrightarrow> 0 < sum_list (map snd pool)"
  by (cases pool) (auto intro!: add_pos_nonneg sum_weights_nonneg)

lemma pick_splits:
  "cumulative \<le> ticket \<Longrightarrow> ticket < cumulative + sum_list (map snd pool)
     \<Longrightarrow> \<exists>xs pid w ys. pool = xs @ (pid, w) # ys \<and> pick ticket cumulative pool = Some (pid, xs @ ys)"
proof (induction pool arbitrary: cumulative)
  case Nil
  then show ?case by simp
next
  case (Cons e pool)
  obtain pid w where e: "e = (pid, w)" by (cases e)
  show ?case
  proof (cases "ticket < cumulative + w")
    case True
    then have "e # pool = [] @ (pid, w) # pool \<and> pick ticket cumulative (e # pool) = Some (pid, [] @ pool)"
      by (simp add: e)
    then show ?thesis by blast
  next
    case False
    with Cons.IH [of "cumulative + w"] Cons.prems obtain xs p v ys
      where "pool = xs @ (p, v) # ys" "pick ticket (cumulative + w) pool = Some (p, xs @ ys)"
      by (auto simp: e add.assoc)
    with False have "e # pool = (e # xs) @ (p, v) # ys
        \<and> pick ticket cumulative (e # pool) = Some (p, (e # xs) @ ys)"
      by (simp add: e)
    then show ?thesis by blast
  qed
qed

text \<open>The tickets that select a participant: as many as they have entries.\<close>

lemma pick_range:
  assumes "distinct (map fst (xs @ (pid, w) # ys))" "weights_positive (xs @ (pid, w) # ys)" "cumulative \<le> ticket"
  shows "(\<exists>pool'. pick ticket cumulative (xs @ (pid, w) # ys) = Some (pid, pool'))
    \<longleftrightarrow> cumulative + sum_list (map snd xs) \<le> ticket \<and> ticket < cumulative + sum_list (map snd xs) + w"
  using assms
proof (induction xs arbitrary: cumulative)
  case Nil
  have "pick ticket cumulative' ys \<noteq> Some (pid, pool')" for cumulative' pool'
    using Nil.prems(1) by (induction ys arbitrary: cumulative' pool') (auto split: if_splits)
  then show ?case using Nil.prems by auto
next
  case (Cons e xs)
  obtain p v where e: "e = (p, v)" by (cases e)
  have "p \<noteq> pid" "0 < v" "weights_positive xs" using Cons.prems by (auto simp: e)
  then have "0 \<le> sum_list (map snd xs)" by (simp add: sum_weights_nonneg)
  with Cons.IH [of "cumulative + v"] Cons.prems \<open>p \<noteq> pid\<close> show ?case
    by (cases "ticket < cumulative + v") (auto simp: e add.assoc)
qed

lemma draw_rounds_ok:
  assumes "\<And>label. \<exists>k. hmac_value hmac label k < 2 ^ 255"
  shows "distinct (map fst pool) \<Longrightarrow> weights_positive pool \<Longrightarrow> sum_list (map snd pool) \<le> 2 ^ 255
    \<Longrightarrow> length rounds \<le> length pool
    \<Longrightarrow> \<exists>ws. draw_rounds hmac label rounds pool winners = Some (Inr (winners @ ws))
          \<and> length ws = length rounds \<and> distinct ws \<and> set ws \<subseteq> fst ` set pool"
proof (induction rounds arbitrary: pool winners)
  case Nil
  then show ?case by simp
next
  case (Cons n rounds)
  let ?bound = "sum_list (map snd pool)"
  let ?label = "label @ [58] @ show_nat n"
  have "pool \<noteq> []" using Cons.prems by auto
  then have pos: "0 < ?bound" using Cons.prems sum_weights_pos by blast
  have "\<exists>k. hmac_value hmac ?label k < limit ?bound"
    using assms [of ?label] half_le_limit [OF pos Cons.prems(3)] by (meson less_le_trans)
  then obtain v where v: "uniform_loop hmac ?bound ?label 0 = Some v" using uniform_loop_returns by blast
  then have "0 \<le> v" "v < ?bound" using pos uniform_loop_bound by blast+
  with pick_splits [of 0 v pool] obtain xs pid w ys
    where pool: "pool = xs @ (pid, w) # ys" and pick: "pick v 0 pool = Some (pid, xs @ ys)" by auto
  have "sum_list (map snd (xs @ ys)) \<le> 2 ^ 255" using Cons.prems pool by simp
  moreover have "distinct (map fst (xs @ ys))" "weights_positive (xs @ ys)" "length rounds \<le> length (xs @ ys)"
    using Cons.prems pool by auto
  ultimately obtain ws
    where "draw_rounds hmac label rounds (xs @ ys) (winners @ [pid]) = Some (Inr (winners @ pid # ws))"
      "length ws = length rounds" "distinct ws" "set ws \<subseteq> fst ` set (xs @ ys)"
    using Cons.IH [of "xs @ ys" "winners @ [pid]"] by (simp only: append.assoc append_Cons append_Nil) blast
  moreover have "pid \<notin> fst ` set (xs @ ys)" using Cons.prems(1) by (auto simp: pool image_iff)
  ultimately show ?case
    using pos v pick by (intro exI [of _ "pid # ws"]) (auto simp: uniform_below_def pool)
qed

section \<open>Properties\<close>

definition constant_mac :: mac where
  "constant_mac message = 7"

lemma constant_mac_value: "hmac_value constant_mac label k = 7"
  by (simp add: hmac_value_def constant_mac_def)

text \<open>
  C26: a draw over a valid snapshot returns, when every label has a digest in the lower half of
  the 256-bit space: the winners are distinct participants with entries, and there are as many as
  asked for or as there are participants with entries, whichever is less.
\<close>

theorem draw_winners_returns:
  assumes "distinct (map fst entries)" and "\<forall>(pid, w) \<in> set entries. 0 \<le> w"
    and "sum_list (map snd entries) \<le> 2 ^ 255"
    and "\<And>label. \<exists>k. hmac_value hmac label k < 2 ^ 255"
  shows "\<exists>ws. draw_winners entries hmac label cnt = Some (Inr ws) \<and> distinct ws
    \<and> (\<forall>pid \<in> set ws. \<exists>w > 0. (pid, w) \<in> set entries)
    \<and> int (length ws) = max 0 (min cnt (int (length (filter (\<lambda>e. 0 < snd e) entries))))"
proof -
  define pool where "pool = filter (\<lambda>(pid, w). 0 < w) (sort entries)"
  define rounds where "rounds = [0..<nat (min cnt (int (length pool)))]"
  have "mset (map fst (sort entries)) = mset (map fst entries)" by simp
  then have "distinct (map fst (sort entries))" using assms(1) by (metis mset_eq_imp_distinct_iff)
  then have dist: "distinct (map fst pool)" unfolding pool_def by (rule distinct_map_filter)
  have pos: "weights_positive pool" by (auto simp: weights_positive_def pool_def)
  have "sum_list (map snd (filter P xs)) \<le> sum_list (map snd xs)"
    if "\<forall>(pid, w) \<in> set xs. 0 \<le> w" for P :: "entry \<Rightarrow> bool" and xs
    using that by (induction xs) auto
  from this [of "sort entries" "\<lambda>(pid, w). 0 < w"] assms(2)
  have "sum_list (map snd pool) \<le> sum_list (map snd (sort entries))" by (simp add: pool_def)
  also have "\<dots> = sum_list (map snd entries)"
    by (metis mset_map mset_sort sum_mset_sum_list)
  finally have le: "sum_list (map snd pool) \<le> 2 ^ 255" using assms(3) by simp
  have "length rounds \<le> length pool" by (simp add: rounds_def)
  from draw_rounds_ok [OF assms(4) dist pos le this, of label "[]"] obtain ws
    where ws: "draw_rounds hmac label rounds pool [] = Some (Inr ws)"
      "length ws = length rounds" "distinct ws" "set ws \<subseteq> fst ` set pool" by auto
  have "\<not> list_ex (\<lambda>(pid, w). w < 0) entries" using assms(2) by (auto simp: list_ex_iff)
  then have "draw_winners entries hmac label cnt = Some (Inr ws)"
    using assms(1) ws(1) unfolding draw_winners_def Let_def pool_def [symmetric] rounds_def [symmetric] by simp
  moreover have "length pool = length (filter (\<lambda>e. 0 < snd e) entries)"
    unfolding pool_def by (metis (mono_tags, lifting) case_prod_unfold filter_cong mset_filter mset_sort size_mset)
  ultimately show ?thesis using ws(2-4) by (auto simp: rounds_def pool_def image_iff subset_iff)
qed

theorem draw_winners_returns_witness:
  "\<exists>ws. draw_winners [(cp ''b'', 2), (cp ''a'', 3), (cp ''c'', 0)] constant_mac (cp ''tokyo'') 5 = Some (Inr ws)
    \<and> distinct ws \<and> (\<forall>pid \<in> set ws. \<exists>w > 0. (pid, w) \<in> set [(cp ''b'', 2::int), (cp ''a'', 3), (cp ''c'', 0)])
    \<and> int (length ws)
        = max 0 (min 5 (int (length (filter (\<lambda>e. 0 < snd e) [(cp ''b'', 2::int), (cp ''a'', 3), (cp ''c'', 0)]))))"
  by (rule draw_winners_returns) (auto simp: constant_mac_value)

text \<open>
  Anyone can rerun the draw: it depends on the entries only as a collection, so a snapshot
  read in another order gives the same digest, the same errors and the same winners in the same
  order.
\<close>

theorem draw_reproducible:
  assumes "mset entries = mset published"
  shows "snapshot_digest sha256 entries = snapshot_digest sha256 published
    \<and> draw_winners entries hmac label cnt = draw_winners published hmac label cnt"
proof -
  have "sort entries = sort published" using assms by (metis mset_sort properties_for_sort sorted_sort)
  moreover have "mset (map fst entries) = mset (map fst published)" using assms by simp
  then have "distinct (map fst entries) \<longleftrightarrow> distinct (map fst published)" by (rule mset_eq_imp_distinct_iff)
  moreover have "set entries = set published" using assms by (rule mset_eq_setD)
  ultimately show ?thesis by (simp add: draw_winners_def snapshot_digest_def list_ex_iff)
qed

theorem draw_reproducible_witness:
  "snapshot_digest id [(cp ''b'', 2), (cp ''a'', 3)] = snapshot_digest id [(cp ''a'', 3), (cp ''b'', 2)]
   \<and> draw_winners [(cp ''b'', 2), (cp ''a'', 3)] constant_mac (cp ''x'') 1
      = draw_winners [(cp ''a'', 3), (cp ''b'', 2)] constant_mac (cp ''x'') 1"
  by (rule draw_reproducible) simp



end
