(* ===== verification/Calendar.thy ===== *)
theory Calendar
  imports Texts
begin

text \<open>
  Days, weeks and months of the campaign zone (\<open>app/domain/periods.py\<close>,
  \<open>app/domain/calendar.py\<close>). An instant is the number of microseconds since 1970-01-01T00:00Z, a
  date the number of days since 1970-01-01 (a Thursday). Years, months and days of a date follow
  Python's \<open>datetime\<close> (proleptic Gregorian calendar). The rules of a time zone come from the
  tz database: a zone is an argument, its offset at an instant and at a local time.
\<close>

section \<open>Dates\<close>

type_synonym instant = int

type_synonym date = int

definition microsecond_day :: int where
  "microsecond_day = 86400 * 1000000"

definition hours :: "int \<Rightarrow> int" where
  "hours n = n * 3600 * 1000000"

definition minutes :: "int \<Rightarrow> int" where
  "minutes n = n * 60 * 1000000"

definition seconds :: "int \<Rightarrow> int" where
  "seconds n = n * 1000000"

definition days :: "int \<Rightarrow> int" where
  "days n = n * microsecond_day"

text \<open>\<open>date.weekday()\<close>: Monday is 0.\<close>

definition weekday :: "date \<Rightarrow> int" where
  "weekday d = (d + 3) mod 7"

text \<open>\<open>_is_leap\<close>, \<open>_days_before_year\<close> and the table of days before each month.\<close>

definition is_leap :: "int \<Rightarrow> bool" where
  "is_leap y \<longleftrightarrow> y mod 4 = 0 \<and> (y mod 100 \<noteq> 0 \<or> y mod 400 = 0)"

definition days_before_year :: "int \<Rightarrow> int" where
  "days_before_year y = (let x = y - 1 in x * 365 + x div 4 - x div 100 + x div 400)"

definition month_starts :: "bool \<Rightarrow> int list" where
  "month_starts leap = (let l = (if leap then 1 else 0) in
     [0, 31, 59 + l, 90 + l, 120 + l, 151 + l, 181 + l, 212 + l, 243 + l, 273 + l, 304 + l, 334 + l])"

definition epoch_ordinal :: int where
  "epoch_ordinal = 719162"

text \<open>\<open>_ord2ymd\<close>: the year of an ordinal counted from 0, by cycles of 400, 100, 4 and 1 years.\<close>

definition year_of_ordinal :: "int \<Rightarrow> int" where
  "year_of_ordinal n =
     (let n400 = n div 146097; r400 = n mod 146097;
          n100 = r400 div 36524; r100 = r400 mod 36524;
          n4 = r100 div 1461; r4 = r100 mod 1461;
          n1 = r4 div 365
      in n400 * 400 + n100 * 100 + n4 * 4 + n1 + (if n1 = 4 \<or> n100 = 4 then 0 else 1))"

definition year :: "date \<Rightarrow> int" where
  "year d = year_of_ordinal (d + epoch_ordinal)"

definition day_of_year :: "date \<Rightarrow> int" where
  "day_of_year d = d + epoch_ordinal - days_before_year (year d)"

definition month :: "date \<Rightarrow> int" where
  "month d = int (length (filter (\<lambda>s. s \<le> day_of_year d) (month_starts (is_leap (year d)))))"

definition day :: "date \<Rightarrow> int" where
  "day d = day_of_year d - month_starts (is_leap (year d)) ! nat (month d - 1) + 1"

text \<open>\<open>date(y, m, d)\<close> as a day number, for a month from 1 to 12.\<close>

definition date_of :: "int \<Rightarrow> int \<Rightarrow> int \<Rightarrow> date" where
  "date_of y m d = days_before_year y + month_starts (is_leap y) ! nat (m - 1) + d - 1 - epoch_ordinal"

text \<open>\<open>isoformat()\<close>, for the years 1 to 9999 that Python's dates have.\<close>

definition isoformat :: "date \<Rightarrow> string" where
  "isoformat d = pad_dec 4 (nat (year d)) @ ''-'' @ pad_dec 2 (nat (month d)) @ ''-'' @ pad_dec 2 (nat (day d))"

text \<open>
  \<open>date.fromisoformat\<close> on \<open>YYYY-MM-DD\<close>, the form \<open>isoformat\<close> writes. It also reads \<open>YYYYMMDD\<close>
  and ISO week dates, of 7, 8 or 10 characters, which no text of the program has.
\<close>

definition days_in_month :: "int \<Rightarrow> int \<Rightarrow> int" where
  "days_in_month y m = (if m = 12 then 31
     else month_starts (is_leap y) ! nat m - month_starts (is_leap y) ! nat (m - 1))"

definition date_fromisoformat :: "string \<Rightarrow> date option" where
  "date_fromisoformat s =
     (if length s = 10 \<and> s ! 4 = CHR ''-'' \<and> s ! 7 = CHR ''-'' then
        (case (read_dec 0 (take 4 s), read_dec 0 (take 2 (drop 5 s)), read_dec 0 (drop 8 s)) of
           (Some y, Some m, Some d) \<Rightarrow>
             if 1 \<le> y \<and> 1 \<le> m \<and> m \<le> 12 \<and> 1 \<le> d \<and> int d \<le> days_in_month (int y) (int m)
             then Some (date_of (int y) (int m) (int d)) else None
         | _ \<Rightarrow> None)
      else None)"

section \<open>Zones\<close>

record zone =
  utc_offset :: "instant \<Rightarrow> int"
  wall_offset :: "int \<Rightarrow> int"

text \<open>\<open>moment.astimezone(zone)\<close> as a wall clock reading, and back for a wall clock reading.\<close>

definition to_wall :: "zone \<Rightarrow> instant \<Rightarrow> int" where
  "to_wall z t = t + utc_offset z t"

definition from_wall :: "zone \<Rightarrow> int \<Rightarrow> instant" where
  "from_wall z w = w - wall_offset z w"

definition fixed_zone :: "int \<Rightarrow> zone" where
  "fixed_zone off = \<lparr>utc_offset = (\<lambda>_. off), wall_offset = (\<lambda>_. off)\<rparr>"

text \<open>Asia/Tehran since September 2022: +03:30, no daylight saving.\<close>

definition tehran :: zone where
  "tehran = fixed_zone (minutes 210)"

section \<open>Period keys and starts (\<open>periods.py\<close>)\<close>

definition local_date :: "instant \<Rightarrow> zone \<Rightarrow> date" where
  "local_date moment z = to_wall z moment div microsecond_day"

definition local_midnight :: "date \<Rightarrow> zone \<Rightarrow> instant" where
  "local_midnight d z = from_wall z (days d)"

definition saturday_on_or_before :: "date \<Rightarrow> date" where
  "saturday_on_or_before d = d - (weekday d - 5) mod 7"

definition tehran_day_key :: "instant \<Rightarrow> zone \<Rightarrow> string" where
  "tehran_day_key moment z = ''D:'' @ isoformat (local_date moment z)"

definition tehran_week_key :: "instant \<Rightarrow> zone \<Rightarrow> string" where
  "tehran_week_key moment z = ''W:'' @ isoformat (saturday_on_or_before (local_date moment z))"

definition tehran_month_key :: "instant \<Rightarrow> zone \<Rightarrow> string" where
  "tehran_month_key moment z = (let d = local_date moment z in
     ''M:'' @ pad_dec 4 (nat (year d)) @ ''-'' @ pad_dec 2 (nat (month d)))"

definition tehran_day_start :: "instant \<Rightarrow> zone \<Rightarrow> instant" where
  "tehran_day_start moment z = local_midnight (local_date moment z) z"

definition tehran_week_start :: "instant \<Rightarrow> zone \<Rightarrow> instant" where
  "tehran_week_start moment z = local_midnight (saturday_on_or_before (local_date moment z)) z"

definition tehran_month_start :: "instant \<Rightarrow> zone \<Rightarrow> instant" where
  "tehran_month_start moment z = (let d = local_date moment z in
     local_midnight (date_of (year d) (month d) 1) z)"

definition tehran_date :: "instant \<Rightarrow> zone \<Rightarrow> date" where
  "tehran_date moment z = local_date moment z"

text \<open>
  The loop of \<open>current_streak\<close> ends because \<open>claimed_dates\<close> is finite: it is the list of its
  members, and one that was counted cannot come again, so as many steps as there are members and
  one more are enough.
\<close>

fun streak_loop :: "nat \<Rightarrow> date list \<Rightarrow> date \<Rightarrow> int \<Rightarrow> int option" where
  "streak_loop 0 claimed cursor streak = None"
| "streak_loop (Suc fuel) claimed cursor streak =
     (if cursor \<in> set claimed then streak_loop fuel claimed (cursor - 1) (streak + 1) else Some streak)"

definition current_streak :: "date list \<Rightarrow> date \<Rightarrow> int option" where
  "current_streak claimed today =
     streak_loop (length claimed + 1) claimed (if today \<in> set claimed then today else today - 1) 0"

section \<open>The campaign period (\<open>calendar.py\<close>)\<close>

record CampaignPeriod =
  day_key :: string
  week_key :: string
  day_ends_at :: instant
  week_ends_at :: instant

definition midnight :: "int \<Rightarrow> zone \<Rightarrow> instant" where
  "midnight local_time z = from_wall z (days (local_time div microsecond_day))"

definition campaign_period :: "instant \<Rightarrow> zone \<Rightarrow> CampaignPeriod" where
  "campaign_period moment z =
     (let local_time = to_wall z moment;
          week_start = local_time - days ((weekday (local_time div microsecond_day) - 5) mod 7)
      in \<lparr>day_key = ''D:'' @ isoformat (local_time div microsecond_day),
          week_key = ''W:'' @ isoformat (week_start div microsecond_day),
          day_ends_at = midnight (local_time + days 1) z,
          week_ends_at = midnight (week_start + days 7) z\<rparr>)"

section \<open>Years and months\<close>

lemma div_eq: "0 \<le> r \<Longrightarrow> r < k \<Longrightarrow> (k * q + r) div k = (q :: int)"
  by simp

lemma mod_eq: "0 \<le> r \<Longrightarrow> r < k \<Longrightarrow> (k * q + r) mod k = (r :: int)"
  by simp

lemma days_before_cycles:
  assumes "0 \<le> b" "b < 4" "0 \<le> c" "c < 25" "0 \<le> d" "d < 4"
  shows "days_before_year (400 * a + 100 * b + 4 * c + d + 1)
    = 146097 * a + 36524 * b + 1461 * c + 365 * d"
proof -
  have "(400 * a + 100 * b + 4 * c + d) div 4 = 100 * a + 25 * b + c"
    using div_eq [of d 4 "100 * a + 25 * b + c"] assms by (simp add: algebra_simps)
  moreover have "(400 * a + 100 * b + 4 * c + d) div 100 = 4 * a + b"
    using div_eq [of "4 * c + d" 100 "4 * a + b"] assms by (simp add: algebra_simps)
  moreover have "(400 * a + 100 * b + 4 * c + d) div 400 = a"
    using div_eq [of "100 * b + 4 * c + d" 400 a] assms by (simp add: algebra_simps)
  ultimately show ?thesis by (simp add: days_before_year_def)
qed

lemma div_pred: "0 < k \<Longrightarrow> y div k = (y - 1) div k + (if y mod k = 0 then 1 else (0 :: int))"
proof -
  assume k: "0 < k"
  define q r where "q = y div k" and "r = y mod k"
  have y: "y = k * q + r" "0 \<le> r" "r < k" using k by (simp_all add: q_def r_def)
  show ?thesis
  proof (cases "r = 0")
    case True
    have "y - 1 = k * (q - 1) + (k - 1)" using y(1) True by (simp add: algebra_simps)
    then have "(y - 1) div k = q - 1" by (simp only:) (rule div_eq, use k in simp_all)
    then show ?thesis using True by (simp add: q_def r_def)
  next
    case False
    have "y - 1 = k * q + (r - 1)" using y(1) by simp
    then have "(y - 1) div k = q" by (simp only:) (rule div_eq, use y(2,3) False in simp_all)
    then show ?thesis using False by (simp add: q_def r_def)
  qed
qed

lemma leap_days:
  fixes y p q r :: int
  assumes "C \<Longrightarrow> B" and "B \<Longrightarrow> A"
  shows "y * 365 + (p + (if A then 1 else 0)) - (q + (if B then 1 else 0)) + (r + (if C then 1 else 0))
    = (y - 1) * 365 + p - q + r + 365 + (if A \<and> (\<not> B \<or> C) then 1 else 0)"
  using assms by (cases A; cases B; cases C) simp_all

lemma mod_zero_factor: "y mod (k * m) = 0 \<Longrightarrow> y mod k = (0 :: int)"
  by (auto simp: mod_eq_0_iff_dvd dest: dvd_mult_left)

lemma days_before_Suc: "days_before_year (y + 1) = days_before_year y + 365 + (if is_leap y then 1 else 0)"
proof -
  have "y mod 100 = 0" if "y mod 400 = 0" using that mod_zero_factor [of y 100 4] by simp
  moreover have "y mod 4 = 0" if "y mod 100 = 0" using that mod_zero_factor [of y 4 25] by simp
  moreover have "days_before_year (y + 1) = y * 365 + y div 4 - y div 100 + y div 400"
    by (simp only: days_before_year_def Let_def add_diff_cancel_right')
  moreover have "y div 4 = (y - 1) div 4 + (if y mod 4 = 0 then 1 else 0)" by (rule div_pred) simp
  moreover have "y div 100 = (y - 1) div 100 + (if y mod 100 = 0 then 1 else 0)" by (rule div_pred) simp
  moreover have "y div 400 = (y - 1) div 400 + (if y mod 400 = 0 then 1 else 0)" by (rule div_pred) simp
  ultimately show ?thesis
    unfolding days_before_year_def Let_def is_leap_def
    by (simp only: leap_days)
qed

text \<open>The year of an ordinal is the one whose days include it.\<close>

lemma year_of_ordinal_bounds:
  "days_before_year (year_of_ordinal n) \<le> n \<and> n < days_before_year (year_of_ordinal n + 1)"
proof -
  define a r where "a = n div 146097" and "r = n mod 146097"
  define b s where "b = r div 36524" and "s = r mod 36524"
  define c t where "c = s div 1461" and "t = s mod 1461"
  define d u where "d = t div 365" and "u = t mod 365"
  have r: "0 \<le> r" "r < 146097" and s: "0 \<le> s" "s < 36524" and t: "0 \<le> t" "t < 1461" and u: "0 \<le> u" "u < 365"
    unfolding r_def s_def t_def u_def by (simp_all only: pos_mod_sign pos_mod_bound zero_less_numeral)
  have nr: "n = 146097 * a + r" and rs: "r = 36524 * b + s" and st: "s = 1461 * c + t" and tu: "t = 365 * d + u"
    unfolding a_def r_def b_def s_def c_def t_def d_def u_def by (simp_all only: mult_div_mod_eq)
  then have n: "n = 146097 * a + 36524 * b + 1461 * c + 365 * d + u" by linarith
  have "0 \<le> b" "b \<le> 4" using rs r s by linarith+
  moreover have "0 \<le> c" "c < 25" using st s t by linarith+
  moreover have "0 \<le> d" "d \<le> 4" using tu t u by linarith+
  ultimately have bounds: "0 \<le> b" "b \<le> 4" "0 \<le> c" "c < 25" "0 \<le> d" "d \<le> 4" .
  have y: "year_of_ordinal n = 400 * a + 100 * b + 4 * c + d + (if d = 4 \<or> b = 4 then 0 else 1)"
    unfolding year_of_ordinal_def Let_def a_def r_def b_def s_def c_def t_def d_def
    by (simp only: mult.commute)
  consider "b < 4" "d < 4" | "b < 4" "d = 4" | "b = 4" using bounds by linarith
  then show ?thesis
  proof cases
    case 1
    then have e: "days_before_year (year_of_ordinal n) = n - u"
      using days_before_cycles [of b c d a] bounds y n by simp
    with days_before_Suc [of "year_of_ordinal n"] u show ?thesis by (auto split: if_splits)
  next
    case 2
    then have "u = 0" "c < 24" using st tu t s u by linarith+
    have "year_of_ordinal n = 400 * a + 100 * b + 4 * c + 3 + 1" using y 2 by simp
    then have e: "days_before_year (year_of_ordinal n) = n - 365"
      using days_before_cycles [of b c 3 a] bounds 2 n \<open>u = 0\<close> by simp
    have y4: "year_of_ordinal n = 4 * (100 * a + 25 * b + c + 1) + 0"
      and y100: "year_of_ordinal n = 100 * (4 * a + b) + (4 * c + 4)"
      using y 2 by simp_all
    have "year_of_ordinal n mod 4 = 0" unfolding y4 by (rule mod_eq) simp_all
    moreover have "year_of_ordinal n mod 100 = 4 * c + 4"
      unfolding y100 by (rule mod_eq) (use \<open>c < 24\<close> bounds in simp_all)
    ultimately have "is_leap (year_of_ordinal n)" using bounds by (simp add: is_leap_def)
    with e days_before_Suc [of "year_of_ordinal n"] show ?thesis by simp
  next
    case 3
    then have "c = 0" "d = 0" "u = 0" using rs st tu r s t u bounds by linarith+
    have "year_of_ordinal n = 400 * a + 100 * 3 + 4 * 24 + 3 + 1" using y 3 \<open>c = 0\<close> \<open>d = 0\<close> by simp
    then have e: "days_before_year (year_of_ordinal n) = n - 365"
      using days_before_cycles [of 3 24 3 a] n 3 \<open>c = 0\<close> \<open>d = 0\<close> \<open>u = 0\<close> by simp
    have "year_of_ordinal n = 400 * (a + 1) + 0" using y 3 \<open>c = 0\<close> \<open>d = 0\<close> by simp
    then have y400: "year_of_ordinal n mod 400 = 0" by (simp only:) (rule mod_eq, simp_all)
    then have "is_leap (year_of_ordinal n)"
      unfolding is_leap_def using mod_zero_factor [of "year_of_ordinal n" 4 100] by simp
    with e days_before_Suc [of "year_of_ordinal n"] show ?thesis by simp
  qed
qed

lemma days_before_mono: "y \<le> z \<Longrightarrow> days_before_year y \<le> days_before_year z"
proof (induction z rule: int_ge_induct)
  case (step i)
  then show ?case using days_before_Suc [of i] by (simp split: if_splits)
qed simp

lemma year_of_ordinal_unique:
  assumes "days_before_year y \<le> n" "n < days_before_year (y + 1)"
  shows "year_of_ordinal n = y"
proof -
  note b = year_of_ordinal_bounds [of n]
  have "\<not> y + 1 \<le> year_of_ordinal n" using days_before_mono [of "y + 1" "year_of_ordinal n"] b assms by linarith
  moreover have "\<not> year_of_ordinal n + 1 \<le> y"
    using days_before_mono [of "year_of_ordinal n + 1" y] b assms by linarith
  ultimately show ?thesis by linarith
qed

lemma day_of_year_bounds: "0 \<le> day_of_year d \<and> day_of_year d < (if is_leap (year d) then 366 else 365)"
  using year_of_ordinal_bounds [of "d + epoch_ordinal"] days_before_Suc [of "year d"]
  unfolding day_of_year_def year_def by (simp split: if_splits)

definition month_index :: "bool \<Rightarrow> int \<Rightarrow> nat" where
  "month_index leap n = length (filter (\<lambda>s. s \<le> n) (month_starts leap))"

definition month_table_ok :: "bool \<Rightarrow> int \<Rightarrow> bool" where
  "month_table_ok leap n \<longleftrightarrow>
     (let m = month_index leap n; s = month_starts leap ! (m - 1) in
      1 \<le> m \<and> m \<le> 12 \<and> 0 \<le> s \<and> s \<le> n \<and> n - s < 31
      \<and> n - s < (if m = 12 then 31 else month_starts leap ! m - s) \<and> month_index leap s = m)"

lemma month_table:
  assumes "0 \<le> n" "n < (if leap then 366 else 365)"
  shows "month_table_ok leap n"
proof -
  have "list_all (month_table_ok True) [0..365]" "list_all (month_table_ok False) [0..364]"
    by code_simp+
  moreover have "n \<in> set (if leap then [0..365] else [0..364])" using assms by auto
  ultimately show ?thesis by (auto simp: list_all_iff split: if_splits)
qed

lemma month_facts:
  obtains k s where "k = month_index (is_leap (year d)) (day_of_year d)" "s = month_starts (is_leap (year d)) ! (k - 1)"
    "month d = int k" "nat (month d - 1) = k - 1" "day d = day_of_year d - s + 1"
    "1 \<le> k" "k \<le> 12" "0 \<le> s" "s \<le> day_of_year d" "day d \<le> 31"
    "day d \<le> (if k = 12 then 31 else month_starts (is_leap (year d)) ! k - s)"
    "month_index (is_leap (year d)) s = k"
proof -
  define k s where "k = month_index (is_leap (year d)) (day_of_year d)"
    and "s = month_starts (is_leap (year d)) ! (k - 1)"
  have ok: "month_table_ok (is_leap (year d)) (day_of_year d)"
    using month_table day_of_year_bounds by blast
  note ok = ok [unfolded month_table_ok_def Let_def k_def [symmetric] s_def [symmetric]]
  have m: "month d = int k" by (simp add: month_def k_def month_index_def)
  then have n: "nat (month d - 1) = k - 1" using ok by linarith
  then have "day d = day_of_year d - s + 1" by (simp only: day_def s_def)
  with that [OF k_def s_def m n] ok show thesis by simp
qed

lemma month_bounds: "1 \<le> month d \<and> month d \<le> 12"
  by (rule month_facts [of d]) simp

lemma day_bounds: "1 \<le> day d \<and> day d \<le> days_in_month (year d) (month d) \<and> day d \<le> 31"
  by (rule month_facts [of d]) (simp add: days_in_month_def split: if_splits)

text \<open>Year, month and day determine the date.\<close>

lemma date_of_parts: "date_of (year d) (month d) (day d) = d"
  by (simp add: date_of_def day_def day_of_year_def)

lemma first_of_month:
  "date_of (year d) (month d) 1 = d - (day d - 1)"
  "year (d - (day d - 1)) = year d" "month (d - (day d - 1)) = month d"
proof -
  show "date_of (year d) (month d) 1 = d - (day d - 1)"
    using date_of_parts [of d] by (simp add: date_of_def)
  obtain k s where f: "s \<le> day_of_year d" "0 \<le> s" "day d = day_of_year d - s + 1" "month d = int k"
    "month_index (is_leap (year d)) s = k"
    by (rule month_facts [of d]) blast
  then show y: "year (d - (day d - 1)) = year d"
    using year_of_ordinal_bounds [of "d + epoch_ordinal"]
    unfolding year_def [of "d - (day d - 1)"] by (intro year_of_ordinal_unique) (auto simp: day_of_year_def year_def)
  have "day_of_year (d - (day d - 1)) = s"
    unfolding day_of_year_def [of "d - (day d - 1)"] y using f(3) by (simp add: day_of_year_def)
  then show "month (d - (day d - 1)) = month d"
    unfolding month_def [of "d - (day d - 1)"] y using f(4,5) by (simp only: month_index_def)
qed

definition valid_date :: "date \<Rightarrow> bool" where
  "valid_date d \<longleftrightarrow> 1 \<le> year d \<and> year d \<le> 9999"

lemma iso_roundtrip: "valid_date d \<Longrightarrow> date_fromisoformat (isoformat d) = Some d"
proof -
  assume v: "valid_date d"
  let ?y = "pad_dec 4 (nat (year d))" and ?m = "pad_dec 2 (nat (month d))" and ?d = "pad_dec 2 (nat (day d))"
  have s: "isoformat d ! 4 = CHR ''-''" "isoformat d ! 7 = CHR ''-''" "take 4 (isoformat d) = ?y"
    "take 2 (drop 5 (isoformat d)) = ?m" "drop 8 (isoformat d) = ?d" "length (isoformat d) = 10"
    by (simp_all add: isoformat_def nth_append)
  have "nat (year d) < 10 ^ 4" "nat (month d) < 10 ^ 2" "nat (day d) < 10 ^ 2"
    using v month_bounds [of d] day_bounds [of d] by (auto simp: valid_date_def)
  then have "read_dec 0 ?y = Some (nat (year d))" "read_dec 0 ?m = Some (nat (month d))"
    "read_dec 0 ?d = Some (nat (day d))" by (blast intro: read_dec_pad_dec)+
  then show ?thesis
    using v month_bounds [of d] day_bounds [of d] date_of_parts [of d]
    by (auto simp: date_fromisoformat_def s valid_date_def)
qed

lemma isoformat_inject: "valid_date d \<Longrightarrow> valid_date e \<Longrightarrow> isoformat d = isoformat e \<longleftrightarrow> d = e"
  by (metis iso_roundtrip option.inject)

section \<open>Weeks\<close>

lemma saturday_bounds: "saturday_on_or_before d \<le> d \<and> d < saturday_on_or_before d + 7"
  using pos_mod_sign [of 7 "weekday d - 5"] pos_mod_bound [of 7 "weekday d - 5"]
  unfolding saturday_on_or_before_def by linarith

lemma days_since_saturday: "(weekday d - 5) mod 7 = (d - 2) mod 7"
  unfolding weekday_def by (simp add: mod_diff_left_eq)

lemma weekday_saturday: "weekday (saturday_on_or_before d) = 5"
proof -
  define q r where "q = (d - 2) div 7" and "r = (d - 2) mod 7"
  have "d - 2 = 7 * q + r" by (simp only: q_def r_def mult_div_mod_eq)
  then have "saturday_on_or_before d + 3 = 7 * q + 5"
    unfolding saturday_on_or_before_def days_since_saturday r_def [symmetric] by linarith
  then show ?thesis unfolding weekday_def by (simp only:) (rule mod_eq, simp_all)
qed

lemma weekday_next: "weekday (d + 7) = weekday d"
proof -
  have "d + 7 + 3 = (d + 3) + 7" by simp
  then show ?thesis unfolding weekday_def by (simp only: mod_add_self2)
qed

lemma saturday_unique:
  assumes "weekday e = 5" "e \<le> d" "d < e + 7"
  shows "saturday_on_or_before d = e"
proof -
  define q where "q = (e + 3) div 7"
  have "e + 3 = 7 * q + 5"
    using assms(1) mult_div_mod_eq [of 7 "e + 3"] by (simp only: weekday_def q_def)
  then have "d - 2 = 7 * q + (d - e)" by linarith
  then have "(d - 2) mod 7 = d - e" by (simp only:) (rule mod_eq, use assms in simp_all)
  then show ?thesis unfolding saturday_on_or_before_def days_since_saturday by simp
qed

section \<open>Cadences\<close>

text \<open>
  What challenges and leaderboards rely on: a cadence cuts time into periods, each with its start
  and its key; two moments share a key exactly when they share a period.
\<close>

locale cadence =
  fixes start :: "instant \<Rightarrow> instant" and key :: "instant \<Rightarrow> string" and valid :: "instant \<Rightarrow> bool"
  assumes start_le: "start t \<le> t"
    and same_start: "start t \<le> u \<Longrightarrow> u \<le> t \<Longrightarrow> start u = start t"
    and key_iff: "valid t \<Longrightarrow> valid u \<Longrightarrow> key t = key u \<longleftrightarrow> start t = start u"
begin

lemma start_idem: "start (start t) = start t"
  using same_start start_le by blast

lemma start_mono: "t \<le> u \<Longrightarrow> start t \<le> start u"
  by (metis linear order_trans same_start start_le)

text \<open>An earlier moment is in the same period exactly when it is not before its start.\<close>

lemma same_period_iff:
  assumes "valid t" "valid u" "u \<le> t"
  shows "key u = key t \<longleftrightarrow> start t \<le> u"
  using assms key_iff same_start start_le by metis

end

definition valid_moment :: "zone \<Rightarrow> instant \<Rightarrow> bool" where
  "valid_moment z t \<longleftrightarrow> valid_date (local_date t z) \<and> valid_date (saturday_on_or_before (local_date t z))"

lemma tehran_local_date: "local_date t tehran = (t + minutes 210) div microsecond_day"
  by (simp add: local_date_def to_wall_def tehran_def fixed_zone_def)

lemma tehran_midnight: "local_midnight d tehran = d * microsecond_day - minutes 210"
  by (simp add: local_midnight_def from_wall_def tehran_def fixed_zone_def days_def)

lemma microsecond_day_pos [simp]: "0 < microsecond_day"
  by (simp add: microsecond_day_def)

lemma tehran_midnight_le_iff: "local_midnight d tehran \<le> t \<longleftrightarrow> d \<le> local_date t tehran"
proof -
  have "d * microsecond_day \<le> x \<longleftrightarrow> d \<le> x div microsecond_day" for x
  proof
    assume "d * microsecond_day \<le> x"
    then have "d * microsecond_day div microsecond_day \<le> x div microsecond_day"
      by (rule zdiv_mono1) simp
    then show "d \<le> x div microsecond_day" by (simp add: less_imp_neq [OF microsecond_day_pos, symmetric])
  next
    assume "d \<le> x div microsecond_day"
    then have "d * microsecond_day \<le> x div microsecond_day * microsecond_day"
      by (intro mult_right_mono) (simp_all add: less_imp_le)
    also have "\<dots> \<le> x" using pos_mod_sign [OF microsecond_day_pos, of x] by (simp add: minus_mod_eq_div_mult [symmetric])
    finally show "d * microsecond_day \<le> x" .
  qed
  from this [of "t + minutes 210"] show ?thesis
    unfolding tehran_midnight tehran_local_date by linarith
qed

lemma tehran_midnight_inject: "local_midnight d tehran = local_midnight e tehran \<longleftrightarrow> d = e"
  unfolding tehran_midnight using less_imp_neq [OF microsecond_day_pos] by auto

lemma local_date_mono: "t \<le> u \<Longrightarrow> local_date t tehran \<le> local_date u tehran"
  unfolding tehran_local_date by (rule zdiv_mono1) simp_all

text \<open>A cadence from a function that rounds dates down.\<close>

lemma cadenceI:
  assumes "\<And>d. r d \<le> d" and "\<And>d e. r d \<le> e \<Longrightarrow> e \<le> d \<Longrightarrow> r e = r d"
    and "\<And>t. start t = local_midnight (r (local_date t tehran)) tehran"
    and "\<And>t u. valid_moment tehran t \<Longrightarrow> valid_moment tehran u
          \<Longrightarrow> key t = key u \<longleftrightarrow> r (local_date t tehran) = r (local_date u tehran)"
  shows "cadence start key (valid_moment tehran)"
proof
  fix t u
  show "start t \<le> t" by (simp add: assms(1,3) tehran_midnight_le_iff)
  show "start u = start t" if "start t \<le> u" "u \<le> t"
    using that assms(2) [of "local_date t tehran" "local_date u tehran"] local_date_mono [of u t]
    by (simp add: assms(3) tehran_midnight_le_iff)
  show "key t = key u \<longleftrightarrow> start t = start u" if "valid_moment tehran t" "valid_moment tehran u"
    using that by (simp add: assms(3,4) tehran_midnight_inject)
qed

interpretation tehran_days: cadence "\<lambda>t. tehran_day_start t tehran" "\<lambda>t. tehran_day_key t tehran" "valid_moment tehran"
  by (rule cadenceI [of "\<lambda>d. d"])
     (auto simp: tehran_day_start_def tehran_day_key_def valid_moment_def isoformat_inject)

interpretation tehran_weeks: cadence "\<lambda>t. tehran_week_start t tehran" "\<lambda>t. tehran_week_key t tehran" "valid_moment tehran"
proof (rule cadenceI [of saturday_on_or_before])
  fix d e assume "saturday_on_or_before d \<le> e" "e \<le> d"
  then show "saturday_on_or_before e = saturday_on_or_before d"
    using weekday_saturday [of d] saturday_bounds [of d] by (intro saturday_unique) simp_all
qed (auto simp: tehran_week_start_def tehran_week_key_def valid_moment_def isoformat_inject saturday_bounds)

definition first_of :: "date \<Rightarrow> date" where
  "first_of d = date_of (year d) (month d) 1"

lemma first_of_eq_iff: "first_of d = first_of e \<longleftrightarrow> year d = year e \<and> month d = month e"
  using first_of_month [of d] first_of_month [of e] by (metis first_of_def)

lemma year_mono: "d \<le> e \<Longrightarrow> year d \<le> year e"
proof (rule ccontr)
  assume "d \<le> e" "\<not> year d \<le> year e"
  then have "days_before_year (year e + 1) \<le> days_before_year (year d)" by (intro days_before_mono) simp
  with \<open>d \<le> e\<close> year_of_ordinal_bounds [of "d + epoch_ordinal"] year_of_ordinal_bounds [of "e + epoch_ordinal"]
  show False unfolding year_def by linarith
qed

lemma month_mono: "d \<le> e \<Longrightarrow> year d = year e \<Longrightarrow> month d \<le> month e"
proof -
  assume "d \<le> e" "year d = year e"
  then have "day_of_year d \<le> day_of_year e" by (simp add: day_of_year_def)
  then have "length (filter (\<lambda>s. s \<le> day_of_year d) xs) \<le> length (filter (\<lambda>s. s \<le> day_of_year e) xs)" for xs
    by (induction xs) auto
  then show ?thesis using \<open>year d = year e\<close> by (simp add: month_def)
qed

lemma pad_month: "pad_dec 2 (nat (month d)) = pad_dec 2 (nat (month e)) \<longleftrightarrow> month d = month e"
proof -
  have "nat (month d) < 100" "nat (month e) < 100" "0 \<le> month d" "0 \<le> month e"
    using month_bounds [of d] month_bounds [of e] by linarith+
  moreover have "(10 :: nat) ^ 2 = 100" by simp
  ultimately show ?thesis by (simp only: pad_dec_inject eq_nat_nat_iff)
qed

interpretation tehran_months: cadence "\<lambda>t. tehran_month_start t tehran" "\<lambda>t. tehran_month_key t tehran" "valid_moment tehran"
proof (rule cadenceI [of first_of])
  fix d show "first_of d \<le> d" using first_of_month(1) [of d] day_bounds [of d] by (simp add: first_of_def)
next
  fix d e assume e: "first_of d \<le> e" "e \<le> d"
  have "year d = year e" "month d = month e"
    using e first_of_month [of d] year_mono [of e d] year_mono [of "first_of d" e]
      month_mono [of e d] month_mono [of "first_of d" e] by (auto simp: first_of_def)
  then show "first_of e = first_of d" by (simp add: first_of_eq_iff)
next
  fix t u assume "valid_moment tehran t" "valid_moment tehran u"
  then have "1 \<le> year (local_date t tehran)" "year (local_date t tehran) \<le> 9999"
    "1 \<le> year (local_date u tehran)" "year (local_date u tehran) \<le> 9999"
    by (auto simp: valid_moment_def valid_date_def)
  then show "tehran_month_key t tehran = tehran_month_key u tehran
      \<longleftrightarrow> first_of (local_date t tehran) = first_of (local_date u tehran)"
    by (simp add: tehran_month_key_def Let_def first_of_eq_iff pad_dec_inject eq_nat_nat_iff pad_month)
qed (simp add: tehran_month_start_def first_of_def Let_def)

section \<open>Properties\<close>

text \<open>
  C28: keys and starts agree. In the Tehran zone a day, a week and a month start at or before the
  moment, a week starts at a Saturday midnight and a month on the first, and an earlier moment
  carries the same key exactly when it is not before that start: what is counted \<open>since the start\<close>
  is what carries the period's key.
\<close>

theorem period_keys_agree_with_starts:
  assumes "valid_moment tehran t" "valid_moment tehran u" "u \<le> t"
  shows "(tehran_day_key u tehran = tehran_day_key t tehran \<longleftrightarrow> tehran_day_start t tehran \<le> u)
    \<and> (tehran_week_key u tehran = tehran_week_key t tehran \<longleftrightarrow> tehran_week_start t tehran \<le> u)
    \<and> (tehran_month_key u tehran = tehran_month_key t tehran \<longleftrightarrow> tehran_month_start t tehran \<le> u)
    \<and> tehran_day_start t tehran \<le> t \<and> tehran_week_start t tehran \<le> t \<and> tehran_month_start t tehran \<le> t
    \<and> weekday (local_date (tehran_week_start t tehran) tehran) = 5
    \<and> day (local_date (tehran_month_start t tehran) tehran) = 1"
proof -
  have mid: "local_date (local_midnight d tehran) tehran = d" for d
    unfolding tehran_midnight tehran_local_date using less_imp_neq [OF microsecond_day_pos] by simp
  have "weekday (local_date (tehran_week_start t tehran) tehran) = 5"
    by (simp add: tehran_week_start_def mid weekday_saturday)
  moreover have "day (first_of d) = 1" for d
    using first_of_month [of d] date_of_parts [of "first_of d"] by (simp add: first_of_def date_of_def)
  then have "day (local_date (tehran_month_start t tehran) tehran) = 1"
    by (simp add: tehran_month_start_def Let_def mid first_of_def)
  ultimately show ?thesis
    using tehran_days.same_period_iff [OF assms] tehran_weeks.same_period_iff [OF assms]
      tehran_months.same_period_iff [OF assms] tehran_days.start_le tehran_weeks.start_le tehran_months.start_le
    by blast
qed

theorem period_keys_agree_with_starts_witness:
  "(tehran_day_key (days 20739) tehran = tehran_day_key (days 20740) tehran
      \<longleftrightarrow> tehran_day_start (days 20740) tehran \<le> days 20739)
    \<and> (tehran_week_key (days 20739) tehran = tehran_week_key (days 20740) tehran
      \<longleftrightarrow> tehran_week_start (days 20740) tehran \<le> days 20739)
    \<and> (tehran_month_key (days 20739) tehran = tehran_month_key (days 20740) tehran
      \<longleftrightarrow> tehran_month_start (days 20740) tehran \<le> days 20739)
    \<and> tehran_day_start (days 20740) tehran \<le> days 20740 \<and> tehran_week_start (days 20740) tehran \<le> days 20740
    \<and> tehran_month_start (days 20740) tehran \<le> days 20740
    \<and> weekday (local_date (tehran_week_start (days 20740) tehran) tehran) = 5
    \<and> day (local_date (tehran_month_start (days 20740) tehran) tehran) = 1"
proof (rule period_keys_agree_with_starts)
  show "valid_moment tehran (days 20740)" "valid_moment tehran (days 20739)" by code_simp+
qed (simp add: days_def microsecond_day_def)

text \<open>
  The streak. \<open>current_streak\<close> returns, and its value is the number of consecutive claimed
  days that end today, or yesterday when today is not claimed: all of them are claimed and the day
  before them is not.
\<close>

lemma streak_loop_spec:
  assumes "card (set claimed \<inter> {..cursor}) < fuel"
  shows "\<exists>n :: nat. streak_loop fuel claimed cursor s = Some (s + int n)
    \<and> (\<forall>i < n. cursor - int i \<in> set claimed) \<and> cursor - int n \<notin> set claimed"
  using assms
proof (induction fuel arbitrary: cursor s)
  case (Suc fuel)
  show ?case
  proof (cases "cursor \<in> set claimed")
    case True
    have "set claimed \<inter> {..cursor} = insert cursor (set claimed \<inter> {..cursor - 1})" using True by auto
    then have "card (set claimed \<inter> {..cursor - 1}) < fuel" using Suc.prems by simp
    from Suc.IH [OF this, of "s + 1"] obtain n where n: "streak_loop fuel claimed (cursor - 1) (s + 1) = Some (s + 1 + int n)"
      "\<forall>i < n. cursor - 1 - int i \<in> set claimed" "cursor - 1 - int n \<notin> set claimed" by blast
    have "cursor - int i \<in> set claimed" if "i < Suc n" for i
      using that True n(2) by (cases i) (auto simp: algebra_simps)
    with n True show ?thesis by (intro exI [of _ "Suc n"]) (simp add: algebra_simps)
  qed (auto intro: exI [of _ 0])
qed simp

theorem current_streak_counts:
  "\<exists>n :: nat. let last = (if today \<in> set claimed then today else today - 1) in
     current_streak claimed today = Some (int n)
     \<and> (\<forall>i < n. last - int i \<in> set claimed) \<and> last - int n \<notin> set claimed"
proof -
  let ?last = "if today \<in> set claimed then today else today - 1"
  have "card (set claimed \<inter> {..?last}) \<le> card (set claimed)" by (intro card_mono) auto
  also have "\<dots> \<le> length claimed" by (rule card_length)
  finally have "card (set claimed \<inter> {..?last}) < length claimed + 1" by simp
  from streak_loop_spec [OF this, of 0] show ?thesis unfolding current_streak_def Let_def by simp
qed

theorem current_streak_counts_witness:
  "\<exists>n :: nat. current_streak [10, 9, 7] 10 = Some (int n) \<and> 10 - int n \<notin> {7, 9, 10}"
proof -
  obtain n :: nat where "current_streak [10, 9, 7] 10 = Some (int n)" "10 - int n \<notin> set [10, 9, 7]"
    using current_streak_counts [where claimed = "[10, 9, 7]" and today = 10] by (auto simp: Let_def)
  then show ?thesis by auto
qed

text \<open>
  The two period modules agree. In the Tehran zone \<open>campaign_period\<close> (what \<open>GET /config\<close>
  serves) has the day and week keys of \<open>periods.py\<close>, and the day and the week end exactly where the
  next ones start, one and seven days after their own start.
\<close>

theorem campaign_period_agrees:
  "let p = campaign_period t tehran in
     day_key p = tehran_day_key t tehran \<and> week_key p = tehran_week_key t tehran
     \<and> day_ends_at p = tehran_day_start t tehran + days 1
     \<and> week_ends_at p = tehran_week_start t tehran + days 7
     \<and> t < day_ends_at p \<and> day_ends_at p \<le> week_ends_at p
     \<and> tehran_day_start (day_ends_at p) tehran = day_ends_at p
     \<and> tehran_week_start (week_ends_at p) tehran = week_ends_at p"
proof -
  define w where "w = to_wall tehran t"
  define d where "d = w div microsecond_day"
  have ne: "microsecond_day \<noteq> 0" using microsecond_day_pos by linarith
  have ld: "local_date t tehran = d" by (simp add: local_date_def d_def w_def)
  have shift: "(w + days n) div microsecond_day = d + n" for n
    using ne by (simp add: days_def d_def)
  from shift [of "- n" for n] have shift': "(w - days n) div microsecond_day = d - n" for n
    by (simp add: days_def)
  have mid: "midnight x tehran = local_midnight (x div microsecond_day) tehran" for x
    by (simp add: midnight_def local_midnight_def)
  have plus: "local_midnight (a + n) tehran = local_midnight a tehran + days n" for a n
    by (simp add: tehran_midnight days_def algebra_simps)
  have date: "local_date (local_midnight a tehran) tehran = a" for a
    unfolding tehran_midnight tehran_local_date using ne by simp
  have sat: "d - (weekday d - 5) mod 7 = saturday_on_or_before d" by (simp add: saturday_on_or_before_def)
  have "week_ends_at (campaign_period t tehran) = local_midnight (saturday_on_or_before d + 7) tehran"
  proof -
    have "(w - days ((weekday d - 5) mod 7) + days 7) div microsecond_day = saturday_on_or_before d + 7"
      using shift' [of "(weekday d - 5) mod 7 - 7"] sat by (simp add: days_def algebra_simps)
    then show ?thesis by (simp add: campaign_period_def Let_def w_def [symmetric] d_def [symmetric] mid)
  qed
  moreover have "day_ends_at (campaign_period t tehran) = local_midnight (d + 1) tehran"
    by (simp add: campaign_period_def Let_def w_def [symmetric] mid shift)
  moreover have "t < local_midnight (d + 1) tehran"
    using tehran_midnight_le_iff [of "d + 1" t] ld by simp
  moreover have "local_midnight (d + 1) tehran \<le> local_midnight (saturday_on_or_before d + 7) tehran"
    using saturday_bounds [of d] by (simp add: tehran_midnight)
  moreover have "saturday_on_or_before (saturday_on_or_before d + 7) = saturday_on_or_before d + 7"
    using weekday_saturday [of d] by (intro saturday_unique) (simp_all add: weekday_next)
  ultimately show ?thesis
    by (simp add: Let_def tehran_day_start_def tehran_week_start_def ld plus [symmetric] date)
       (simp add: campaign_period_def Let_def w_def [symmetric] d_def [symmetric] shift' sat
         tehran_day_key_def tehran_week_key_def ld)
qed

end
