(* ===== verification/Models.thy ===== *)
theory Models
  imports Passports Calendar
begin

text \<open>
  The tables (\<open>app/infrastructure/postgres/models.py\<close>) with the enumerations of \<open>app/domain\<close> that
  their columns hold, and the unit of work (\<open>unit_of_work.py\<close>). A row is a record, a table the list of
  its rows in insertion order. Columns with a closed set of values (a \<open>CHECK ... IN\<close>) hold the
  enumeration. Keys an administrator types are HOL strings, texts of users are code points.
\<close>

section \<open>Enumerations\<close>

datatype AccountStatus = ACCOUNT_ACTIVE | ACCOUNT_INACTIVE

datatype VerificationStatus = UNVERIFIED | VERIFIED

datatype UserRole = PLAYER | ADMIN

datatype BatchStatus = GENERATED | ACTIVE | VOID

datatype BatchEventType = EVENT_GENERATED | EVENT_EXPORTED | EVENT_FROZEN | EVENT_ACTIVATED | EVENT_VOIDED

datatype LedgerReason =
    CODE_REDEMPTION | FIRST_CODE_BONUS | CHALLENGE_REWARD | ACHIEVEMENT_REWARD | TOURNAMENT_PRIZE
  | SOCIAL_POST_REWARD | ADMIN_ADJUSTMENT | STORE_PURCHASE | REFERRAL_FIRST_CODE | REFERRAL_LATER_CODE

fun ledger_reason_value :: "LedgerReason \<Rightarrow> string" where
  "ledger_reason_value CODE_REDEMPTION = ''code_redemption''"
| "ledger_reason_value FIRST_CODE_BONUS = ''first_code_bonus''"
| "ledger_reason_value CHALLENGE_REWARD = ''challenge_reward''"
| "ledger_reason_value ACHIEVEMENT_REWARD = ''achievement_reward''"
| "ledger_reason_value TOURNAMENT_PRIZE = ''tournament_prize''"
| "ledger_reason_value SOCIAL_POST_REWARD = ''social_post_reward''"
| "ledger_reason_value ADMIN_ADJUSTMENT = ''admin_adjustment''"
| "ledger_reason_value STORE_PURCHASE = ''store_purchase''"
| "ledger_reason_value REFERRAL_FIRST_CODE = ''referral_first_code''"
| "ledger_reason_value REFERRAL_LATER_CODE = ''referral_later_code''"

datatype Cadence = CADENCE_ONCE | CADENCE_DAILY | CADENCE_WEEKLY | CADENCE_MONTHLY

datatype AuditAction = AUDIT_CREATE | AUDIT_UPDATE | AUDIT_DELETE

datatype ChallengeKind = TEAM_CHOICE | DISTINCT_FLAVORS | DAILY_CHECKIN | FIRST_MINI_GAME | TAP_REFLEX_FAST

datatype ChallengePeriod = ONCE | DAY | WEEK | MONTH

datatype AchievementFact = CHECKIN_STREAK

datatype MiniGameId = TAP_REFLEX

datatype MiniGameRunStatus = OPEN | ACCEPTED | REJECTED | EXPIRED

datatype MediaContentType = PNG | JPEG | WEBP

section \<open>Rows\<close>

record UserModel =
  u_id :: uuid
  u_identifier :: pystr
  u_display_name :: "pystr option"
  u_account_status :: AccountStatus
  u_verification_status :: VerificationStatus
  u_role :: UserRole
  u_nickname :: "pystr option"
  u_nickname_key :: "pystr option"
  u_terms_version :: "string option"
  u_terms_accepted_at :: "instant option"
  u_home_venue_id :: "string option"
  u_location_city :: "string option"
  u_avatar_id :: "string option"
  u_referral_code :: "string option"
  u_created_at :: instant
  u_updated_at :: instant
  u_totp_secret_encrypted :: "string option"
  u_totp_confirmed_at :: "instant option"

record VenueModel =
  v_id :: string
  v_name :: pystr
  v_city :: string
  v_public_ip :: "string option"
  v_address :: "pystr option"
  v_active :: bool
  v_created_at :: instant

record AvatarModel =
  av_id :: string
  av_image_url :: string
  av_locked :: bool
  av_unlock_rule :: "pystr option"
  av_sort :: int
  av_active :: bool
  av_created_at :: instant

record TeamMembershipModel =
  tm_user_id :: uuid
  tm_flavor :: CityCode
  tm_switch_no :: int
  tm_joined_at :: instant

record ReferralModel =
  rf_invitee_user_id :: uuid
  rf_inviter_user_id :: uuid
  rf_bound_at :: instant

record AuthenticationChallengeModel =
  ac_id :: uuid
  ac_user_id :: uuid
  ac_code_hash :: string
  ac_code_salt :: string
  ac_expires_at :: instant
  ac_attempts :: int
  ac_max_attempts :: int
  ac_consumed_at :: "instant option"
  ac_created_at :: instant

record SessionModel =
  se_id :: uuid
  se_user_id :: uuid
  se_token_hash :: string
  se_expires_at :: instant
  se_created_at :: instant
  se_last_used_at :: "instant option"
  se_revoked_at :: "instant option"

record PassportProgressModel =
  pp_id :: uuid
  pp_user_id :: uuid
  pp_campaign :: Campaign
  pp_points :: int
  pp_created_at :: instant
  pp_updated_at :: instant

record CodeBatchModel =
  cb_id :: uuid
  cb_city :: CityCode
  cb_label :: pystr
  cb_quantity :: int
  cb_coins_per_code :: int
  cb_status :: BatchStatus
  cb_created_at :: instant
  cb_activated_at :: "instant option"
  cb_voided_at :: "instant option"
  cb_format_id :: pystr
  cb_format_fingerprint :: "pystr option"
  cb_exported_at :: "instant option"
  cb_export_sha256 :: "string option"
  cb_frozen_at :: "instant option"
  cb_pepper_fingerprint :: "string option"

record CodeBatchEventModel =
  be_batch_id :: uuid
  be_event_type :: BatchEventType
  be_actor :: "pystr option"
  be_detail :: "pystr option"
  be_created_at :: instant

record RedemptionCodeModel =
  rc_id :: uuid
  rc_city :: CityCode
  rc_code_hash :: string
  rc_created_at :: instant
  rc_redeemed_at :: "instant option"
  rc_redeemed_by_user_id :: "uuid option"
  rc_batch_id :: "uuid option"

record WalletModel =
  w_user_id :: uuid
  w_balance :: int
  w_lifetime_earned :: int
  w_updated_at :: instant

record CoinLedgerEntryModel =
  le_id :: int
  le_user_id :: uuid
  le_amount :: int
  le_reason :: LedgerReason
  le_source_id :: "string option"
  le_idempotency_key :: string
  le_actor_id :: "uuid option"
  le_note :: "pystr option"
  le_created_at :: instant

record RewardRuleModel =
  rr_key :: string
  rr_amount :: int
  rr_cadence :: Cadence
  rr_active :: bool
  rr_note :: "pystr option"
  rr_updated_at :: instant

record RedemptionFailureModel =
  fa_user_id :: uuid
  fa_occurred_at :: instant

text \<open>The JSON of \<open>audit_log.changes\<close>: the flat objects that application services write.\<close>

datatype audit_value = AuditInt int | AuditText pystr | AuditNull

record AuditLogModel =
  al_actor_user_id :: uuid
  al_action :: AuditAction
  al_entity :: string
  al_entity_id :: "string option"
  al_changes :: "(string \<times> audit_value) list option"
  al_ip :: "string option"
  al_created_at :: instant

record ChallengeModel =
  ch_id :: string
  ch_kind :: ChallengeKind
  ch_period :: ChallengePeriod
  ch_target :: int
  ch_reward_coins :: int
  ch_active :: bool
  ch_created_at :: instant

record ChallengeClaimModel =
  cc_challenge_id :: string
  cc_user_id :: uuid
  cc_period_key :: string
  cc_claimed_at :: instant

record AchievementModel =
  at_id :: string
  at_fact :: AchievementFact
  at_threshold :: int
  at_reward_coins :: int
  at_active :: bool
  at_created_at :: instant

record MiniGameRunModel =
  mg_id :: uuid
  mg_user_id :: uuid
  mg_mini_game_id :: MiniGameId
  mg_round_delays_ms :: "int list"
  mg_issued_at :: instant
  mg_expires_at :: instant
  mg_finished_at :: "instant option"
  mg_status :: MiniGameRunStatus
  mg_average_reaction_ms :: "rat option"

record UserAchievementModel =
  ua_achievement_id :: string
  ua_user_id :: uuid
  ua_unlocked_at :: instant

record LegalDocumentModel =
  ld_version :: string
  ld_body :: pystr
  ld_created_at :: instant
  ld_updated_at :: instant

record MediaAssetModel =
  ma_sha256 :: string
  ma_content_type :: MediaContentType
  ma_bytes :: "8 word list"
  ma_byte_size :: int
  ma_created_at :: instant
  ma_created_by_user_id :: "uuid option"

section \<open>The database\<close>

record database =
  users :: "UserModel list"
  venues :: "VenueModel list"
  avatars :: "AvatarModel list"
  team_memberships :: "TeamMembershipModel list"
  referrals :: "ReferralModel list"
  authentication_challenges :: "AuthenticationChallengeModel list"
  auth_sessions :: "SessionModel list"
  passport_progress :: "PassportProgressModel list"
  code_batches :: "CodeBatchModel list"
  code_batch_events :: "CodeBatchEventModel list"
  redemption_codes :: "RedemptionCodeModel list"
  wallets :: "WalletModel list"
  coin_ledger_entries :: "CoinLedgerEntryModel list"
  reward_rules :: "RewardRuleModel list"
  redemption_failures :: "RedemptionFailureModel list"
  audit_log :: "AuditLogModel list"
  challenges :: "ChallengeModel list"
  challenge_claims :: "ChallengeClaimModel list"
  achievements :: "AchievementModel list"
  mini_game_runs :: "MiniGameRunModel list"
  user_achievements :: "UserAchievementModel list"
  legal_documents :: "LegalDocumentModel list"
  media_assets :: "MediaAssetModel list"

definition empty_database :: database where
  "empty_database = \<lparr>users = [], venues = [], avatars = [], team_memberships = [], referrals = [],
     authentication_challenges = [], auth_sessions = [], passport_progress = [], code_batches = [],
     code_batch_events = [], redemption_codes = [], wallets = [], coin_ledger_entries = [],
     reward_rules = [], redemption_failures = [], audit_log = [], challenges = [],
     challenge_claims = [], achievements = [], mini_game_runs = [], user_achievements = [],
     legal_documents = [], media_assets = []\<rparr>"

type_synonym ('e, 'a) dbtx = "(database, 'e, 'a) tx"

text \<open>
  \<open>INSERT\<close> into a table with a unique or check constraint: the row is added, or the statement
  raises \<open>IntegrityError\<close>.
\<close>

definition tx_insert :: "string \<Rightarrow> ('s \<Rightarrow> bool) \<Rightarrow> ('s \<Rightarrow> 's) \<Rightarrow> ('s, 'e, unit) tx" where
  "tx_insert constraint free w s = (if free s then Inr ((), w s) else Inl (Crash (IntegrityError constraint)))"

lemma tx_insert_Inr_iff [simp]: "tx_insert c free w s = Inr (u, s') \<longleftrightarrow> free s \<and> s' = w s"
  by (auto simp: tx_insert_def)

lemma tx_insert_bind [simp]:
  "tx_bind (tx_insert c free w) f s = (if free s then f () (w s) else Inl (Crash (IntegrityError c)))"
  by (simp add: tx_bind_def tx_insert_def)

lemma keeps_insert: "(\<And>s. P s \<Longrightarrow> free s \<Longrightarrow> P (w s)) \<Longrightarrow> tx_keeps P (tx_insert c free w)"
  by (auto simp: tx_keeps_def)

section \<open>The unit of work\<close>

text \<open>
  The body of \<open>async with self._unit_of_work() as uow\<close> ends by an exception, or normally: after
  \<open>await uow.commit()\<close> with the value it returns or the error it raises then, or without a commit.
  \<open>__aexit__\<close> rolls everything back unless the body committed. A unit of work is one transaction:
  the row locks it takes first make those of one user run one after the other, and it is modelled as
  one atomic step.
\<close>

datatype ('e, 'a) exit = Committed "'e raised + 'a" | Unfinished 'a

definition commit :: "'a \<Rightarrow> ('s, 'e, ('e, 'a) exit) tx" where
  "commit a = tx_return (Committed (Inr a))"

definition commit_raise :: "'e \<Rightarrow> ('s, 'e, ('e, 'a) exit) tx" where
  "commit_raise e = tx_return (Committed (Inl (Raised e)))"

definition leave :: "'a \<Rightarrow> ('s, 'e, ('e, 'a) exit) tx" where
  "leave a = tx_return (Unfinished a)"

definition unit_of_work :: "('s, 'e, ('e, 'a) exit) tx \<Rightarrow> 's \<Rightarrow> ('e raised + 'a) \<times> 's" where
  "unit_of_work body s =
     (case body s of
        Inl e \<Rightarrow> (Inl e, s)
      | Inr (Committed r, s') \<Rightarrow> (r, s')
      | Inr (Unfinished a, s') \<Rightarrow> (Inr a, s))"

lemmas exit_defs = commit_def commit_raise_def leave_def

lemma unit_of_work_error: "body s = Inl e \<Longrightarrow> unit_of_work body s = (Inl e, s)"
  by (simp add: unit_of_work_def)

lemma unit_of_work_committed: "body s = Inr (Committed r, s') \<Longrightarrow> unit_of_work body s = (r, s')"
  by (simp add: unit_of_work_def)

lemma unit_of_work_unfinished: "body s = Inr (Unfinished a, s') \<Longrightarrow> unit_of_work body s = (Inr a, s)"
  by (simp add: unit_of_work_def)

text \<open>Whatever holds of the tables before a unit of work and is kept by its body holds after it.\<close>

lemma unit_of_work_keeps:
  assumes "tx_keeps P body" and "P s" and "unit_of_work body s = (r, s')"
  shows "P s'"
proof (cases "body s")
  case (Inr p)
  obtain x t where p: "p = (x, t)" by (cases p)
  have "P t" using tx_keepsD [OF assms(1,2)] Inr p by blast
  with assms Inr p show ?thesis by (cases x) (auto simp: unit_of_work_def)
qed (use assms in \<open>auto simp: unit_of_work_def\<close>)

lemma keeps_exit [keeps_intros]:
  "tx_keeps P (commit a)" "tx_keeps P (commit_raise e)" "tx_keeps P (leave a)"
  by (simp_all add: exit_defs keeps_return)

text \<open>A unit of work that raises without having committed leaves the tables as they were.\<close>

lemma unit_of_work_rollback:
  assumes "\<And>x t. body s = Inr (Committed x, t) \<Longrightarrow> \<exists>a. x = Inr a"
    and "unit_of_work body s = (Inl e, s')"
  shows "s' = s"
  using assms by (auto simp: unit_of_work_def split: sum.splits prod.splits exit.splits)

end
