(* ===== verification/Ledger.thy ===== *)
theory Ledger
  imports Models
begin

text \<open>
  Coins: the append-only ledger and the cached balance of each wallet (\<open>app/domain/ledger.py\<close>,
  \<open>SqlLedger\<close>, the wallet reader). The abstract account is a balance for each user and the
  amount recorded under each idempotency key; the locale \<open>ledger_port\<close> states what every service
  that pays coins relies on, and \<open>SqlLedger\<close> is shown to provide it.
\<close>

section \<open>\<open>SqlLedger\<close>\<close>

record NewLedgerEntry =
  ne_user_id :: uuid
  ne_amount :: int
  ne_reason :: LedgerReason
  ne_idempotency_key :: string
  ne_created_at :: instant
  ne_source_id :: "string option"
  ne_actor_id :: "uuid option"
  ne_note :: "pystr option"

definition wallet_of :: "database \<Rightarrow> uuid \<Rightarrow> WalletModel option" where
  "wallet_of s user_id = select_one (\<lambda>w. w_user_id w = user_id) (wallets s)"

definition user_exists :: "database \<Rightarrow> uuid \<Rightarrow> bool" where
  "user_exists s user_id \<longleftrightarrow> exists_where (\<lambda>u. u_id u = user_id) (users s)"

text \<open>\<open>INSERT ... ON CONFLICT DO NOTHING\<close>, then the balance \<open>FOR UPDATE\<close>.\<close>

definition lock_wallet :: "uuid \<Rightarrow> instant \<Rightarrow> ('e, int) dbtx" where
  "lock_wallet user_id now =
     tx_bind (tx_read (\<lambda>s. wallet_of s user_id)) (\<lambda>w.
     tx_bind (case w of
         Some _ \<Rightarrow> tx_return ()
       | None \<Rightarrow> tx_insert ''wallets_user_id_fkey'' (\<lambda>s. user_exists s user_id)
           (\<lambda>s. s\<lparr>wallets := wallets s @ [\<lparr>w_user_id = user_id, w_balance = 0,
              w_lifetime_earned = 0, w_updated_at = now\<rparr>]\<rparr>)) (\<lambda>_.
     tx_read (\<lambda>s. case wallet_of s user_id of None \<Rightarrow> 0 | Some w \<Rightarrow> w_balance w)))"

definition key_recorded :: "database \<Rightarrow> string \<Rightarrow> bool" where
  "key_recorded s key \<longleftrightarrow> exists_where (\<lambda>e. le_idempotency_key e = key) (coin_ledger_entries s)"

definition ledger_entry :: "int \<Rightarrow> NewLedgerEntry \<Rightarrow> CoinLedgerEntryModel" where
  "ledger_entry i e = \<lparr>le_id = i, le_user_id = ne_user_id e, le_amount = ne_amount e,
     le_reason = ne_reason e, le_source_id = ne_source_id e, le_idempotency_key = ne_idempotency_key e,
     le_actor_id = ne_actor_id e, le_note = ne_note e, le_created_at = ne_created_at e\<rparr>"

definition ledger_record :: "NewLedgerEntry \<Rightarrow> ('e, int) dbtx" where
  "ledger_record e =
     tx_bind (tx_insert ''coin_ledger_entries''
         (\<lambda>s. \<not> key_recorded s (ne_idempotency_key e) \<and> ne_amount e \<noteq> 0)
         (\<lambda>s. s\<lparr>coin_ledger_entries := coin_ledger_entries s
            @ [ledger_entry (int (length (coin_ledger_entries s)) + 1) e]\<rparr>)) (\<lambda>_.
     tx_bind (tx_read (\<lambda>s. wallet_of s (ne_user_id e))) (\<lambda>w.
     case w of
       None \<Rightarrow> tx_crash (InsufficientCoinsError (ne_user_id e))
     | Some w \<Rightarrow>
         if w_balance w + ne_amount e < 0 then tx_crash (InsufficientCoinsError (ne_user_id e))
         else
           tx_bind (tx_write (\<lambda>s. s\<lparr>wallets := update_where (\<lambda>x. w_user_id x = ne_user_id e)
               (\<lambda>x. x\<lparr>w_balance := w_balance x + ne_amount e,
                  w_lifetime_earned := w_lifetime_earned x + max (ne_amount e) 0,
                  w_updated_at := ne_created_at e\<rparr>) (wallets s)\<rparr>)) (\<lambda>_.
           tx_return (w_balance w + ne_amount e))))"

definition recorded_amount :: "database \<Rightarrow> string \<Rightarrow> int option" where
  "recorded_amount s key =
     map_option le_amount (select_one (\<lambda>e. le_idempotency_key e = key) (coin_ledger_entries s))"

definition amount_for_key :: "string \<Rightarrow> ('e, int option) dbtx" where
  "amount_for_key key = tx_read (\<lambda>s. recorded_amount s key)"

text \<open>\<open>PostgreSQLWalletReader\<close>.\<close>

definition recent_entries :: "database \<Rightarrow> uuid \<Rightarrow> nat \<Rightarrow> CoinLedgerEntryModel list" where
  "recent_entries s user_id limit =
     take limit (order_desc le_id (filter (\<lambda>e. le_user_id e = user_id) (coin_ledger_entries s)))"

section \<open>The invariant\<close>

definition amounts_of :: "uuid \<Rightarrow> CoinLedgerEntryModel list \<Rightarrow> int" where
  "amounts_of user_id es = sum_list (map le_amount (filter (\<lambda>e. le_user_id e = user_id) es))"

definition earned_of :: "uuid \<Rightarrow> CoinLedgerEntryModel list \<Rightarrow> int" where
  "earned_of user_id es = sum_list (map (\<lambda>e. max (le_amount e) 0) (filter (\<lambda>e. le_user_id e = user_id) es))"

definition ledger_ok :: "database \<Rightarrow> bool" where
  "ledger_ok s \<longleftrightarrow>
     distinct (map w_user_id (wallets s))
     \<and> distinct (map le_idempotency_key (coin_ledger_entries s))
     \<and> map le_id (coin_ledger_entries s) = map (\<lambda>i. int i + 1) [0..<length (coin_ledger_entries s)]
     \<and> (\<forall>e \<in> set (coin_ledger_entries s). le_amount e \<noteq> 0 \<and> le_user_id e \<in> w_user_id ` set (wallets s))
     \<and> (\<forall>w \<in> set (wallets s). 0 \<le> w_balance w
          \<and> w_balance w = amounts_of (w_user_id w) (coin_ledger_entries s)
          \<and> w_lifetime_earned w = earned_of (w_user_id w) (coin_ledger_entries s))"

lemma ledger_ok_frame:
  "wallets t = wallets s \<Longrightarrow> coin_ledger_entries t = coin_ledger_entries s \<Longrightarrow> ledger_ok t = ledger_ok s"
  by (simp add: ledger_ok_def)

lemma ledger_ok_empty [simp]: "ledger_ok empty_database"
  by (simp add: ledger_ok_def empty_database_def)

lemma wallet_of_Some: "wallet_of s u = Some w \<Longrightarrow> w \<in> set (wallets s) \<and> w_user_id w = u"
  unfolding wallet_of_def by (rule select_one_Some)

lemma wallet_of_None: "wallet_of s u = None \<longleftrightarrow> u \<notin> w_user_id ` set (wallets s)"
  unfolding wallet_of_def by (auto simp: select_one_None_iff)

lemma amounts_of_append [simp]: "amounts_of u (es @ fs) = amounts_of u es + amounts_of u fs"
  by (simp add: amounts_of_def)

lemma earned_of_append [simp]: "earned_of u (es @ fs) = earned_of u es + earned_of u fs"
  by (simp add: earned_of_def)

lemma amounts_of_entry [simp]:
  "amounts_of u [ledger_entry i e] = (if ne_user_id e = u then ne_amount e else 0)"
  "earned_of u [ledger_entry i e] = (if ne_user_id e = u then max (ne_amount e) 0 else 0)"
  by (simp_all add: amounts_of_def earned_of_def ledger_entry_def)

lemma ledger_entry_simps [simp]:
  "le_id (ledger_entry i e) = i" "le_user_id (ledger_entry i e) = ne_user_id e"
  "le_amount (ledger_entry i e) = ne_amount e" "le_reason (ledger_entry i e) = ne_reason e"
  "le_idempotency_key (ledger_entry i e) = ne_idempotency_key e"
  "le_source_id (ledger_entry i e) = ne_source_id e" "le_created_at (ledger_entry i e) = ne_created_at e"
  "le_actor_id (ledger_entry i e) = ne_actor_id e" "le_note (ledger_entry i e) = ne_note e"
  by (simp_all add: ledger_entry_def)

lemma amounts_of_none: "\<forall>e \<in> set es. le_user_id e \<noteq> u \<Longrightarrow> amounts_of u es = 0 \<and> earned_of u es = 0"
  by (induction es) (auto simp: amounts_of_def earned_of_def)

section \<open>The abstract account\<close>

record account =
  acct_balance :: "uuid \<Rightarrow> int"
  acct_paid :: "string \<Rightarrow> int option"

definition account_of :: "database \<Rightarrow> account" where
  "account_of s = \<lparr>acct_balance = (\<lambda>u. amounts_of u (coin_ledger_entries s)),
     acct_paid = recorded_amount s\<rparr>"

definition post_entry :: "NewLedgerEntry \<Rightarrow> account \<Rightarrow> account" where
  "post_entry e a = \<lparr>acct_balance = (acct_balance a)(ne_user_id e := acct_balance a (ne_user_id e) + ne_amount e),
     acct_paid = (acct_paid a)(ne_idempotency_key e \<mapsto> ne_amount e)\<rparr>"

lemma account_of_frame: "coin_ledger_entries t = coin_ledger_entries s \<Longrightarrow> account_of t = account_of s"
  by (simp add: account_of_def recorded_amount_def fun_eq_iff)

locale ledger_port =
  fixes lock :: "uuid \<Rightarrow> instant \<Rightarrow> ('s, 'e, int) tx"
    and record_entry :: "NewLedgerEntry \<Rightarrow> ('s, 'e, int) tx"
    and paid_amount :: "string \<Rightarrow> ('s, 'e, int option) tx"
    and ok :: "'s \<Rightarrow> bool"
    and account :: "'s \<Rightarrow> account"
  assumes lock_law: "ok s \<Longrightarrow> lock u now s = Inr (b, t) \<Longrightarrow>
      ok t \<and> account t = account s \<and> b = acct_balance (account s) u"
    and record_law: "ok s \<Longrightarrow> record_entry e s = Inr (b, t) \<Longrightarrow>
      ok t \<and> acct_paid (account s) (ne_idempotency_key e) = None \<and> account t = post_entry e (account s)
      \<and> b = acct_balance (account t) (ne_user_id e) \<and> 0 \<le> b"
    and paid_law: "paid_amount key s = Inr (acct_paid (account s) key, s)"
begin

lemma record_balance:
  "ok s \<Longrightarrow> record_entry e s = Inr (b, t) \<Longrightarrow> b = acct_balance (account s) (ne_user_id e) + ne_amount e"
  using record_law by (fastforce simp: post_entry_def)

lemma record_marks_key:
  "ok s \<Longrightarrow> record_entry e s = Inr (b, t) \<Longrightarrow> acct_paid (account t) (ne_idempotency_key e) = Some (ne_amount e)"
  using record_law by (fastforce simp: post_entry_def)

text \<open>No key is ever paid twice: once recorded, the same key is refused.\<close>

lemma no_second_payment:
  assumes "ok s" and "acct_paid (account s) (ne_idempotency_key e) = Some n"
  shows "record_entry e s \<noteq> Inr (b, t)"
  using record_law [OF assms(1)] assms(2) by force

lemma record_keeps: "tx_keeps ok (record_entry e)"
  using record_law by (intro tx_keepsI) blast

lemma lock_keeps: "tx_keeps ok (lock u now)"
  using lock_law by (intro tx_keepsI) blast

lemma paid_keeps: "tx_keeps ok (paid_amount key)"
  by (auto intro!: tx_keepsI simp: paid_law)

end

section \<open>\<open>SqlLedger\<close> provides it\<close>

lemma lock_wallet_Inr_iff:
  "lock_wallet u now s = Inr (b, t) \<longleftrightarrow>
     (case wallet_of s u of
        Some w \<Rightarrow> t = s \<and> b = w_balance w
      | None \<Rightarrow> user_exists s u \<and> b = 0 \<and> t = s\<lparr>wallets := wallets s @ [\<lparr>w_user_id = u, w_balance = 0,
           w_lifetime_earned = 0, w_updated_at = now\<rparr>]\<rparr>)"
  by (auto simp: lock_wallet_def tx_bind_Inr_iff wallet_of_def select_one_append split: option.splits)

lemma ledger_ok_lock:
  assumes "ledger_ok s" and "lock_wallet u now s = Inr (b, t)"
  shows "ledger_ok t \<and> account_of t = account_of s \<and> b = acct_balance (account_of s) u"
proof (cases "wallet_of s u")
  case None
  then have new: "u \<notin> w_user_id ` set (wallets s)" by (simp add: wallet_of_None)
  then have "\<forall>e \<in> set (coin_ledger_entries s). le_user_id e \<noteq> u"
    using assms(1) by (auto simp: ledger_ok_def)
  then have "amounts_of u (coin_ledger_entries s) = 0 \<and> earned_of u (coin_ledger_entries s) = 0"
    by (rule amounts_of_none)
  moreover have "b = 0" "t = s\<lparr>wallets := wallets s @ [\<lparr>w_user_id = u, w_balance = 0,
      w_lifetime_earned = 0, w_updated_at = now\<rparr>]\<rparr>"
    using assms(2) None by (simp_all add: lock_wallet_Inr_iff)
  ultimately show ?thesis
    using assms(1) new by (auto simp: ledger_ok_def account_of_def recorded_amount_def)
next
  case (Some w)
  then show ?thesis
    using assms wallet_of_Some [OF Some] by (auto simp: lock_wallet_Inr_iff ledger_ok_def account_of_def)
qed

definition posted :: "NewLedgerEntry \<Rightarrow> database \<Rightarrow> database" where
  "posted e s = s\<lparr>coin_ledger_entries := coin_ledger_entries s
       @ [ledger_entry (int (length (coin_ledger_entries s)) + 1) e],
     wallets := update_where (\<lambda>x. w_user_id x = ne_user_id e)
       (\<lambda>x. x\<lparr>w_balance := w_balance x + ne_amount e,
          w_lifetime_earned := w_lifetime_earned x + max (ne_amount e) 0,
          w_updated_at := ne_created_at e\<rparr>) (wallets s)\<rparr>"

lemma ledger_record_Inr_iff:
  "ledger_record e s = Inr (b, t) \<longleftrightarrow>
     \<not> key_recorded s (ne_idempotency_key e) \<and> ne_amount e \<noteq> 0
     \<and> (\<exists>w. wallet_of s (ne_user_id e) = Some w \<and> 0 \<le> w_balance w + ne_amount e
           \<and> b = w_balance w + ne_amount e \<and> t = posted e s)"
  by (auto simp: ledger_record_def posted_def wallet_of_def tx_bind_Inr_iff split: option.splits)

lemma recorded_amount_None_iff: "recorded_amount s key = None \<longleftrightarrow> \<not> key_recorded s key"
  by (auto simp: recorded_amount_def key_recorded_def select_one_None_iff)

lemma recorded_amount_posted:
  "\<not> key_recorded s (ne_idempotency_key e) \<Longrightarrow>
     recorded_amount (posted e s) = (recorded_amount s)(ne_idempotency_key e \<mapsto> ne_amount e)"
  by (auto simp: recorded_amount_def posted_def select_one_append fun_eq_iff key_recorded_def
    split: option.splits dest!: select_one_Some)

lemma ledger_ok_posted:
  assumes "ledger_ok s" and "\<not> key_recorded s (ne_idempotency_key e)" "ne_amount e \<noteq> 0"
    and "wallet_of s (ne_user_id e) = Some w" "0 \<le> w_balance w + ne_amount e"
  shows "ledger_ok (posted e s)"
proof -
  let ?t = "posted e s"
  have w: "w \<in> set (wallets s)" "w_user_id w = ne_user_id e" using wallet_of_Some [OF assms(4)] by simp_all
  have ids: "map w_user_id (wallets ?t) = map w_user_id (wallets s)"
    unfolding posted_def by simp (rule map_update_where_same, simp)
  then have ids': "w_user_id ` set (wallets ?t) = w_user_id ` set (wallets s)" by (metis set_map)
  have "distinct (map le_idempotency_key (coin_ledger_entries ?t))"
    using assms(1,2) by (auto simp: ledger_ok_def posted_def key_recorded_def)
  moreover have "map le_id (coin_ledger_entries ?t) = map (\<lambda>i. int i + 1) [0..<length (coin_ledger_entries ?t)]"
    using assms(1) by (simp add: ledger_ok_def posted_def)
  moreover have "\<forall>x \<in> set (coin_ledger_entries ?t). le_amount x \<noteq> 0 \<and> le_user_id x \<in> w_user_id ` set (wallets ?t)"
  proof -
    have "ne_user_id e \<in> w_user_id ` set (wallets s)" using w by (metis image_eqI)
    then show ?thesis unfolding ids' using assms(1,3) by (auto simp: ledger_ok_def posted_def)
  qed
  moreover have "\<forall>x \<in> set (wallets ?t). 0 \<le> w_balance x
      \<and> w_balance x = amounts_of (w_user_id x) (coin_ledger_entries ?t)
      \<and> w_lifetime_earned x = earned_of (w_user_id x) (coin_ledger_entries ?t)"
  proof
    fix x assume "x \<in> set (wallets ?t)"
    then consider y where "y \<in> set (wallets s)" "w_user_id y = ne_user_id e"
        "x = y\<lparr>w_balance := w_balance y + ne_amount e,
          w_lifetime_earned := w_lifetime_earned y + max (ne_amount e) 0, w_updated_at := ne_created_at e\<rparr>"
      | "x \<in> set (wallets s)" "w_user_id x \<noteq> ne_user_id e"
      by (auto simp: posted_def set_update_where)
    then show "0 \<le> w_balance x \<and> w_balance x = amounts_of (w_user_id x) (coin_ledger_entries ?t)
      \<and> w_lifetime_earned x = earned_of (w_user_id x) (coin_ledger_entries ?t)"
    proof cases
      case 1
      with w assms(1) have "y = w" by (auto simp: ledger_ok_def distinct_map inj_on_def)
      with 1 assms show ?thesis by (auto simp: ledger_ok_def posted_def)
    next
      case 2
      with assms(1) show ?thesis by (auto simp: ledger_ok_def posted_def)
    qed
  qed
  moreover have "distinct (map w_user_id (wallets ?t))" using assms(1) ids by (simp add: ledger_ok_def)
  ultimately show ?thesis unfolding ledger_ok_def by blast
qed

lemma account_of_posted:
  "\<not> key_recorded s (ne_idempotency_key e) \<Longrightarrow> account_of (posted e s) = post_entry e (account_of s)"
  by (auto simp: account_of_def post_entry_def recorded_amount_posted fun_eq_iff)
     (auto simp: posted_def)

lemma ledger_record_ok:
  assumes "ledger_ok s" and "ledger_record e s = Inr (b, t)"
  shows "ledger_ok t \<and> acct_paid (account_of s) (ne_idempotency_key e) = None
    \<and> account_of t = post_entry e (account_of s)
    \<and> b = acct_balance (account_of t) (ne_user_id e) \<and> 0 \<le> b"
proof -
  from assms(2) obtain w where w: "\<not> key_recorded s (ne_idempotency_key e)" "ne_amount e \<noteq> 0"
    "wallet_of s (ne_user_id e) = Some w" "0 \<le> w_balance w + ne_amount e" "b = w_balance w + ne_amount e"
    "t = posted e s"
    by (auto simp: ledger_record_Inr_iff)
  have "w_balance w = amounts_of (ne_user_id e) (coin_ledger_entries s)"
    using assms(1) wallet_of_Some [OF w(3)] by (auto simp: ledger_ok_def)
  then show ?thesis
    using ledger_ok_posted [OF assms(1) w(1-4)] w account_of_posted [OF w(1)]
    by (simp add: recorded_amount_None_iff [symmetric] account_of_def post_entry_def)
qed

interpretation sql_ledger: ledger_port lock_wallet ledger_record amount_for_key ledger_ok account_of
proof
  fix s u now b t assume "ledger_ok s" "lock_wallet u now s = Inr (b, t)"
  then show "ledger_ok t \<and> account_of t = account_of s \<and> b = acct_balance (account_of s) u"
    by (rule ledger_ok_lock)
next
  fix s e b t assume "ledger_ok s" "ledger_record e s = Inr (b, t)"
  then show "ledger_ok t \<and> acct_paid (account_of s) (ne_idempotency_key e) = None
    \<and> account_of t = post_entry e (account_of s)
    \<and> b = acct_balance (account_of t) (ne_user_id e) \<and> 0 \<le> b" by (rule ledger_record_ok)
qed (simp add: amount_for_key_def tx_read_def account_of_def)

text \<open>When a payment goes through.\<close>

lemma ledger_record_goes_through:
  assumes "ledger_ok s" "wallet_of s (ne_user_id e) = Some w" "ne_amount e \<noteq> 0"
    "recorded_amount s (ne_idempotency_key e) = None" "0 \<le> w_balance w + ne_amount e"
  shows "ledger_record e s = Inr (w_balance w + ne_amount e, posted e s)"
  using assms by (simp add: ledger_record_Inr_iff recorded_amount_None_iff)

text \<open>The ledger's steps write the wallets and the entries only.\<close>

definition coins_only :: "database \<Rightarrow> database \<Rightarrow> bool" where
  "coins_only s t \<longleftrightarrow> t = s\<lparr>wallets := wallets t, coin_ledger_entries := coin_ledger_entries t\<rparr>
     \<and> (\<forall>v. wallet_of s v \<noteq> None \<longrightarrow> wallet_of t v \<noteq> None)"

lemma coins_only_refl [simp]: "coins_only s s"
  by (simp add: coins_only_def)

lemma coins_only_trans: "coins_only r s \<Longrightarrow> coins_only s t \<Longrightarrow> coins_only r t"
proof -
  assume a: "coins_only r s" "coins_only s t"
  then have "t = r\<lparr>wallets := wallets t, coin_ledger_entries := coin_ledger_entries t\<rparr>"
    by (cases r; cases s; cases t; auto simp: coins_only_def)
  with a show ?thesis unfolding coins_only_def by blast
qed

lemma coins_only_same:
  assumes "coins_only s t"
  shows "users t = users s" "venues t = venues s" "avatars t = avatars s"
    "team_memberships t = team_memberships s" "referrals t = referrals s"
    "passport_progress t = passport_progress s" "code_batches t = code_batches s"
    "redemption_codes t = redemption_codes s" "reward_rules t = reward_rules s"
    "redemption_failures t = redemption_failures s" "audit_log t = audit_log s"
    "challenges t = challenges s" "challenge_claims t = challenge_claims s"
    "achievements t = achievements s" "mini_game_runs t = mini_game_runs s"
    "user_achievements t = user_achievements s"
  by (subst conjunct1 [OF assms [unfolded coins_only_def]]; simp)+

lemma coins_only_wallet: "coins_only s t \<Longrightarrow> wallet_of s v \<noteq> None \<Longrightarrow> wallet_of t v \<noteq> None"
  by (simp add: coins_only_def)

lemma coins_only_posted [simp]: "coins_only s (posted e s)"
  by (simp add: coins_only_def posted_def wallet_of_def select_one_update_same)

lemma ledger_record_frame: "ledger_record e s = Inr (b, t) \<Longrightarrow> coins_only s t"
  by (auto simp: ledger_record_Inr_iff)

lemma lock_wallet_frame: "lock_wallet u now s = Inr (b, t) \<Longrightarrow> coins_only s t"
  by (auto simp: lock_wallet_Inr_iff coins_only_def wallet_of_def select_one_append split: option.splits)

lemma lock_wallet_wallet:
  "lock_wallet u now s = Inr (b, t) \<Longrightarrow> \<exists>w. wallet_of t u = Some w \<and> w_balance w = b"
  by (auto simp: lock_wallet_Inr_iff wallet_of_def select_one_append split: option.splits)

lemma lock_wallet_total: "user_exists s u \<or> wallet_of s u \<noteq> None \<Longrightarrow> \<exists>b t. lock_wallet u now s = Inr (b, t)"
  by (cases "wallet_of s u") (auto simp: lock_wallet_Inr_iff)

lemma lock_wallet_nobody:
  "\<not> (user_exists s u \<or> wallet_of s u \<noteq> None) \<Longrightarrow> lock_wallet u now s = Inl (Crash (IntegrityError ''wallets_user_id_fkey''))"
  by (simp add: lock_wallet_def tx_bind_def tx_read_def tx_insert_def)

section \<open>Properties\<close>

definition adult_user :: UserModel where
  "adult_user = \<lparr>u_id = 1, u_identifier = cp ''+989123456789'', u_display_name = None,
     u_account_status = ACCOUNT_ACTIVE, u_verification_status = VERIFIED, u_role = PLAYER,
     u_nickname = Some (cp ''neda''), u_nickname_key = Some (cp ''neda''), u_terms_version = Some ''v1'',
     u_terms_accepted_at = Some 0, u_home_venue_id = None, u_location_city = None, u_avatar_id = None,
     u_referral_code = None, u_created_at = 0, u_updated_at = 0, u_totp_secret_encrypted = None,
     u_totp_confirmed_at = None\<rparr>"

definition one_user :: database where
  "one_user = empty_database\<lparr>users := [adult_user]\<rparr>"

text \<open>
  A coin movement is exact. From consistent wallets \<open>record\<close> refuses a key that is already in the
  ledger and an amount of zero, refuses to overdraw, and otherwise returns the new balance, which is
  the old one plus the amount; the wallets stay consistent (each balance is the sum of its entries
  and not negative), no other user's balance changes, and the key is now taken.
\<close>

theorem ledger_record_exact:
  assumes "ledger_ok s" and "wallet_of s (ne_user_id e) = Some w"
  shows "case (ledger_record e s :: 'e raised + int \<times> database) of
      Inl err \<Rightarrow>
        err = Crash (IntegrityError ''coin_ledger_entries'')
          \<and> (key_recorded s (ne_idempotency_key e) \<or> ne_amount e = 0)
        \<or> err = Crash (InsufficientCoinsError (ne_user_id e)) \<and> w_balance w + ne_amount e < 0
    | Inr (b, t) \<Rightarrow>
        b = w_balance w + ne_amount e \<and> 0 \<le> b \<and> ledger_ok t
        \<and> \<not> key_recorded s (ne_idempotency_key e) \<and> key_recorded t (ne_idempotency_key e)
        \<and> (\<forall>u. acct_balance (account_of t) u
              = acct_balance (account_of s) u + (if u = ne_user_id e then ne_amount e else 0))"
proof (cases "ledger_record e s :: 'e raised + int \<times> database")
  case (Inl err)
  then show ?thesis
    using assms(2) by (auto simp: ledger_record_def wallet_of_def tx_crash_def tx_bind_def tx_insert_def tx_read_def
      tx_write_def tx_return_def split: if_splits)
next
  case (Inr p)
  obtain b t where p: "p = (b, t)" by (cases p)
  note law = sql_ledger.record_law [OF assms(1) Inr [unfolded p]]
  have "recorded_amount s (ne_idempotency_key e) = None"
    "recorded_amount t (ne_idempotency_key e) = Some (ne_amount e)"
    using law by (simp_all add: account_of_def post_entry_def)
  then have keys: "\<not> key_recorded s (ne_idempotency_key e)" "key_recorded t (ne_idempotency_key e)"
    by (metis recorded_amount_None_iff option.distinct(1))+
  have "b = w_balance w + ne_amount e"
    using Inr p assms(2) by (auto simp: ledger_record_Inr_iff)
  moreover have "acct_balance (account_of t) u
      = acct_balance (account_of s) u + (if u = ne_user_id e then ne_amount e else 0)" for u
    using law by (simp add: post_entry_def)
  moreover have "0 \<le> b" using law by blast
  ultimately show ?thesis using law keys by (simp add: Inr p)
qed

definition bonus_entry :: NewLedgerEntry where
  "bonus_entry = \<lparr>ne_user_id = 1, ne_amount = 15, ne_reason = FIRST_CODE_BONUS,
     ne_idempotency_key = ''first_code:1'', ne_created_at = 0, ne_source_id = None, ne_actor_id = None,
     ne_note = None\<rparr>"

lemma bonus_entry_simps [simp]:
  "ne_user_id bonus_entry = 1" "ne_amount bonus_entry = 15" "ne_reason bonus_entry = FIRST_CODE_BONUS"
  "ne_idempotency_key bonus_entry = ''first_code:1''" "ne_created_at bonus_entry = 0"
  by (simp_all add: bonus_entry_def)

definition funded :: database where
  "funded = one_user\<lparr>wallets := [\<lparr>w_user_id = 1, w_balance = 0, w_lifetime_earned = 0, w_updated_at = 0\<rparr>]\<rparr>"

lemma funded_simps [simp]: "ledger_ok funded"
  "wallet_of funded 1 = Some \<lparr>w_user_id = 1, w_balance = 0, w_lifetime_earned = 0, w_updated_at = 0\<rparr>"
  by (simp_all add: funded_def one_user_def empty_database_def ledger_ok_def amounts_of_def earned_of_def wallet_of_def)

theorem ledger_record_exact_witness:
  "\<exists>b t. (ledger_record bonus_entry funded :: unit raised + int \<times> database) = Inr (b, t) \<and> b = 0 + 15 \<and> ledger_ok t
    \<and> key_recorded t ''first_code:1''"
proof -
  have "(ledger_record bonus_entry funded :: unit raised + int \<times> database) = Inr (15, posted bonus_entry funded)"
    using ledger_record_goes_through [of funded bonus_entry]
    by (simp add: recorded_amount_def) (simp add: funded_def one_user_def empty_database_def)
  with ledger_record_exact [of funded bonus_entry, where 'e = unit] show ?thesis by simp
qed

end
