(* ===== verification/Phone.thy ===== *)
theory Phone
  imports Unicode
begin

text \<open>
  Iranian mobile numbers (\<open>app/domain/phone.py\<close>) and nicknames (\<open>app/domain/nickname.py\<close>): the
  two text fields whose normal form identifies a player.
\<close>

section \<open>Phone numbers\<close>

definition KNOWN_MOBILE_PREFIXES :: "nat list" where
  "KNOWN_MOBILE_PREFIXES = [900..<906] @ [910..<920] @ [920..<924] @ [930..<940]
     @ [941, 955, 971] @ [990..<995] @ [998, 999]"

text \<open>
  \<open>prefix.isdigit()\<close> holds of the decimal digits of every script and of a few other characters
  (superscripts, circled digits) that \<open>int\<close> rejects with \<open>ValueError\<close>; the text given here is the
  result of \<open>normalize_iranian_mobile\<close>, which has none of those, so \<open>isdigit\<close> is \<open>is_decimal\<close>.
\<close>

definition has_known_mobile_prefix :: "pystr \<Rightarrow> bool" where
  "has_known_mobile_prefix phone =
     (let prefix = take 3 (remove_prefix (cp ''+98'') phone) in
      prefix \<noteq> [] \<and> list_all is_decimal prefix
        \<and> undigs 10 (map (\<lambda>c. the (decimal_value c)) prefix) \<in> set KNOWN_MOBILE_PREFIXES)"

definition COUNTRY_PREFIXES :: "pystr list" where
  "COUNTRY_PREFIXES = [cp ''+98'', cp ''0098'', cp ''98'', cp ''0'']"

datatype PhoneNumberError = EmptyPhone | NotIranianMobile pystr

text \<open>\<open>re.sub(r"[^\d+]", "", ...)\<close>: \<open>\d\<close> is a decimal digit of any script.\<close>

definition clean_phone :: "pystr \<Rightarrow> pystr" where
  "clean_phone raw = filter (\<lambda>c. is_decimal c \<or> c = 43) (map translate_digit raw)"

definition strip_country :: "pystr \<Rightarrow> pystr" where
  "strip_country cleaned =
     (case List.find (\<lambda>p. starts_with p cleaned) COUNTRY_PREFIXES of
        Some p \<Rightarrow> drop (length p) cleaned
      | None \<Rightarrow> cleaned)"

text \<open>\<open>^9\d{9}$\<close> on a text without line breaks.\<close>

definition is_subscriber :: "pystr \<Rightarrow> bool" where
  "is_subscriber r \<longleftrightarrow> length r = 10 \<and> hd r = 57 \<and> list_all is_decimal (tl r)"

definition normalize_iranian_mobile :: "pystr \<Rightarrow> PhoneNumberError + pystr" where
  "normalize_iranian_mobile raw =
     (let cleaned = clean_phone raw in
      if cleaned = [] then Inl EmptyPhone
      else let remainder = strip_country cleaned in
        if \<not> is_subscriber remainder then Inl (NotIranianMobile raw)
        else Inr (cp ''+98'' @ remainder))"

definition mask_phone :: "pystr \<Rightarrow> pystr" where
  "mask_phone phone =
     (if length phone \<le> 8 then cp ''***''
      else take 6 phone @ cp ''***'' @ drop (length phone - 4) phone)"

section \<open>Nicknames\<close>

definition NICKNAME_MIN_LENGTH :: nat where "NICKNAME_MIN_LENGTH = 3"

definition NICKNAME_MAX_LENGTH :: nat where "NICKNAME_MAX_LENGTH = 16"

definition ZWNJ :: nat where "ZWNJ = 8204"

definition RESERVED_KEYS :: "pystr list" where
  "RESERVED_KEYS = map cp [''admin'', ''administrator'', ''support'', ''staff'', ''system'',
     ''moderator'', ''torshx'', ''lich king'']"

definition PERSIAN_LETTER_RANGES :: "(nat \<times> nat) list" where
  "PERSIAN_LETTER_RANGES = [(1569, 1594), (1601, 1610), (1662, 1662), (1670, 1670), (1688, 1688),
     (1705, 1705), (1711, 1711), (1740, 1740)]"

definition FOLD :: "nat \<Rightarrow> nat" where
  "FOLD c = (if c = 1610 then 1740 else if c = 1603 then 1705
     else if 1776 \<le> c \<and> c \<le> 1785 then 48 + (c - 1776) else c)"

datatype NicknameError = BadNicknameLength | BadNicknameChars | MisplacedZWNJ | ReservedNickname

record Nickname =
  nick_display :: pystr
  nick_key :: pystr

definition is_allowed :: "unicode \<Rightarrow> nat \<Rightarrow> bool" where
  "is_allowed ud c \<longleftrightarrow>
     (if c = ZWNJ \<or> c \<in> {95, 46, 45} then True
      else if c < 128 then alnum ud c
      else if 1776 \<le> c \<and> c < 1786 then True
      else in_ranges PERSIAN_LETTER_RANGES c)"

definition collapse :: "unicode \<Rightarrow> pystr \<Rightarrow> pystr" where
  "collapse ud t = filter (alnum ud) (map FOLD (casefold ud (nfc ud t)))"

definition is_reserved_name :: "unicode \<Rightarrow> pystr \<Rightarrow> bool" where
  "is_reserved_name ud raw \<longleftrightarrow> collapse ud raw \<in> set (map (collapse ud) RESERVED_KEYS)"

definition parse_nickname :: "unicode \<Rightarrow> pystr \<Rightarrow> NicknameError + Nickname" where
  "parse_nickname ud raw =
     (let v = join_with [32] (split_ws is_space (nfc ud raw)) in
      if \<not> (NICKNAME_MIN_LENGTH \<le> length v \<and> length v \<le> NICKNAME_MAX_LENGTH) then Inl BadNicknameLength
      else if list_ex (\<lambda>c. \<not> is_allowed ud c) v then Inl BadNicknameChars
      else if starts_with [ZWNJ] v \<or> ends_with [ZWNJ] v \<or> occurs_in [ZWNJ, ZWNJ] v then Inl MisplacedZWNJ
      else let key = map FOLD (casefold ud v) in
        if key \<in> set RESERVED_KEYS \<or> is_reserved_name ud v then Inl ReservedNickname
        else Inr \<lparr>nick_display = v, nick_key = key\<rparr>)"

section \<open>Normal forms of phone numbers\<close>

lemma is_decimal_digit: "48 \<le> c \<Longrightarrow> c \<le> 57 \<Longrightarrow> is_decimal c"
  by (simp add: is_decimal_ascii)

lemma translate_digit_decimal: "is_decimal (translate_digit c) \<Longrightarrow> translate_digit c = c \<or> 48 \<le> translate_digit c \<and> translate_digit c \<le> 57"
  by (auto simp: translate_digit_def)

definition ascii_digit :: "nat \<Rightarrow> bool" where
  "ascii_digit c \<longleftrightarrow> 48 \<le> c \<and> c \<le> 57"

lemma is_decimal_plus [simp]: "\<not> is_decimal 43"
  by (simp add: is_decimal_ascii)

lemma strip_country_98 [simp]: "strip_country (43 # 57 # 56 # r) = r"
  by (simp add: strip_country_def COUNTRY_PREFIXES_def starts_with_def)

lemma strip_country_prefix:
  assumes "p \<in> set ([] # COUNTRY_PREFIXES)" and "s \<noteq> []" "hd s = 57" and "p = [] \<Longrightarrow> \<not> starts_with (cp ''98'') s"
  shows "strip_country (p @ s) = s"
proof -
  obtain t where s: "s = 57 # t" using assms(2,3) by (cases s) auto
  then show ?thesis using assms(1,4)
    by (auto simp: strip_country_def COUNTRY_PREFIXES_def starts_with_def take_Cons')
qed

lemma clean_decimal: "c \<in> set (clean_phone raw) \<Longrightarrow> translate_digit c = c \<and> (is_decimal c \<or> c = 43)"
  by (auto simp: clean_phone_def translate_digit_def)

lemma clean_phone_idem: "(\<And>c. c \<in> set t \<Longrightarrow> translate_digit c = c \<and> (is_decimal c \<or> c = 43)) \<Longrightarrow> clean_phone t = t"
  by (induction t) (auto simp: clean_phone_def)

lemma set_strip_country: "set (strip_country t) \<subseteq> set t"
  by (auto simp: strip_country_def split: option.splits dest: in_set_dropD)

lemma normalize_mobile_Inr_iff:
  "normalize_iranian_mobile raw = Inr n \<longleftrightarrow>
     is_subscriber (strip_country (clean_phone raw)) \<and> n = cp ''+98'' @ strip_country (clean_phone raw)"
proof -
  have "\<not> is_subscriber (strip_country [])"
    by (simp add: strip_country_def COUNTRY_PREFIXES_def starts_with_def is_subscriber_def)
  then show ?thesis by (auto simp: normalize_iranian_mobile_def Let_def)
qed

section \<open>Properties\<close>

text \<open>
  Every way of typing a number has one normal form. When what remains of the text, after the
  marks that are no digits are dropped and Persian and Arabic-Indic digits are read as ASCII, is
  a subscriber number of ten ASCII digits beginning with 9, with one of the prefixes +98, 0098, 98, 0
  or none (and then the number does not itself begin with 98), the result is +98 and the number.
\<close>

theorem mobile_normal_form:
  assumes "clean_phone raw = p @ s" and "p \<in> set ([] # COUNTRY_PREFIXES)"
    and "length s = 10" "hd s = 57" "list_all ascii_digit s"
    and "p = [] \<Longrightarrow> \<not> starts_with (cp ''98'') s"
  shows "normalize_iranian_mobile raw = Inr (cp ''+98'' @ s)"
proof -
  have "s \<noteq> []" using assms(3) by auto
  then have "strip_country (clean_phone raw) = s"
    unfolding assms(1) using assms(2,4,6) by (intro strip_country_prefix)
  moreover have "list_all is_decimal (tl s)"
    using assms(5) by (cases s) (auto simp: list_all_iff ascii_digit_def is_decimal_digit)
  ultimately show ?thesis
    using assms(3,4) by (simp add: normalize_mobile_Inr_iff is_subscriber_def)
qed

text \<open>The number 0912 345 6789 typed with Persian digits, a dash and a space.\<close>

theorem mobile_normal_form_witness:
  "normalize_iranian_mobile ([1776, 1785, 1777, 1778, 45, 51, 52, 53, 32] @ cp ''6789'')
     = Inr (cp ''+98'' @ cp ''9123456789'')"
  by (rule mobile_normal_form [of _ "cp ''0''"])
     (simp_all add: clean_phone_def translate_digit_def is_decimal_ascii COUNTRY_PREFIXES_def ascii_digit_def)

text \<open>
  A result is +98 and a subscriber number of ten decimal digits beginning with 9, and it is its
  own normal form.
\<close>

theorem mobile_result_normal:
  assumes "normalize_iranian_mobile raw = Inr n"
  shows "(\<exists>s. n = cp ''+98'' @ s \<and> is_subscriber s) \<and> normalize_iranian_mobile n = Inr n"
proof -
  let ?s = "strip_country (clean_phone raw)"
  from assms have s: "is_subscriber ?s" "n = cp ''+98'' @ ?s" by (simp_all add: normalize_mobile_Inr_iff)
  have "clean_phone n = n"
  proof (rule clean_phone_idem)
    fix c assume "c \<in> set n"
    then consider "c \<in> set (cp ''+98'')" | "c \<in> set (clean_phone raw)"
      using s(2) set_strip_country [of "clean_phone raw"] by auto
    then show "translate_digit c = c \<and> (is_decimal c \<or> c = 43)"
      by cases (auto simp: is_decimal_ascii dest: clean_decimal)
  qed
  then show ?thesis using s by (auto simp: normalize_mobile_Inr_iff)
qed

theorem mobile_result_normal_witness:
  "(\<exists>s. cp ''+989123456789'' = cp ''+98'' @ s \<and> is_subscriber s)
    \<and> normalize_iranian_mobile (cp ''+989123456789'') = Inr (cp ''+989123456789'')"
  by (rule mobile_result_normal [of "cp ''09123456789''"])
     (simp add: normalize_iranian_mobile_def clean_phone_def is_decimal_ascii strip_country_def
       COUNTRY_PREFIXES_def starts_with_def is_subscriber_def)

text \<open>
  Digits of a script other than Persian and Arabic are accepted and kept as they are. The
  number 0912 345 6789 with its last seven digits typed in Devanagari is accepted, passes the test for
  known prefixes, and is a different result from that of the same number in ASCII digits.
\<close>

theorem mobile_foreign_digits:
  "let typed = cp ''0912'' @ map (\<lambda>c. c + 2358) (cp ''3456789'') in
   \<exists>n. normalize_iranian_mobile typed = Inr n \<and> \<not> is_ascii n \<and> has_known_mobile_prefix n
     \<and> normalize_iranian_mobile (cp ''09123456789'') \<noteq> Inr n"
proof -
  have d: "is_decimal c" if "2406 \<le> c" "c \<le> 2415" for c
    using that by (auto simp: is_decimal_def decimal_value_def nd_zeros_def)
  have r: "normalize_iranian_mobile (cp ''0912'' @ map (\<lambda>c. c + 2358) (cp ''3456789''))
      = Inr (cp ''+98912'' @ map (\<lambda>c. c + 2358) (cp ''3456789''))"
    by (simp add: normalize_iranian_mobile_def clean_phone_def translate_digit_def d is_decimal_ascii strip_country_def
      COUNTRY_PREFIXES_def starts_with_def is_subscriber_def)
  have a: "normalize_iranian_mobile (cp ''09123456789'') = Inr (cp ''+989123456789'')"
    by (simp add: normalize_iranian_mobile_def clean_phone_def is_decimal_ascii strip_country_def
      COUNTRY_PREFIXES_def starts_with_def is_subscriber_def)
  have "has_known_mobile_prefix (cp ''+98912'' @ t)" for t
    by (simp add: has_known_mobile_prefix_def remove_prefix_def starts_with_def is_decimal_ascii decimal_value_ascii
      undigs_def KNOWN_MOBILE_PREFIXES_def)
  then show ?thesis using r a by (simp add: Let_def)
qed

section \<open>Reserved names\<close>

lemma filter_split_runs:
  "(\<And>c. c \<in> set s \<Longrightarrow> w c \<Longrightarrow> \<not> P c) \<Longrightarrow> filter P (concat (split_runs w acc s)) = filter P (rev acc @ s)"
  by (induction s arbitrary: acc) auto

lemma filter_join: "\<not> P c \<Longrightarrow> filter P (join_with [c] ps) = filter P (concat ps)"
  by (induction "[c]" ps rule: join_with.induct) auto

lemma set_split_runs: "x \<in> set (split_runs w acc s) \<Longrightarrow> c \<in> set x \<Longrightarrow> c \<in> set acc \<or> c \<in> set s"
proof (induction s arbitrary: acc)
  case (Cons a s)
  then show ?case
    using Cons.IH [of "[]"] Cons.IH [of "a # acc"] by (cases "w a"; cases "acc = []") auto
qed (auto split: if_splits)

lemma set_join: "set (join_with [c] ps) \<subseteq> insert c (\<Union>(set ` set ps))"
  by (induction "[c]" ps rule: join_with.induct) auto

lemma collapse_ascii:
  assumes "ascii_laws ud" and "is_ascii t"
  shows "collapse ud t = filter ascii_alnum (map ascii_lower t)"
proof -
  have low: "ascii_lower c < 128" if "c < 128" for c using that by (simp add: ascii_lower_def)
  have fold: "FOLD c = c" if "c < 128" for c using that by (simp add: FOLD_def)
  have "map FOLD (map ascii_lower t) = map ascii_lower t"
    using assms(2) low by (intro map_idI fold) (auto simp: list_all_iff)
  moreover have "filter (alnum ud) (map ascii_lower t) = filter ascii_alnum (map ascii_lower t)"
    using assms low by (intro filter_cong) (auto simp: list_all_iff ascii_laws_alnum)
  ultimately show ?thesis using ascii_lawsD [OF assms] by (simp only: collapse_def)
qed

text \<open>
  Reserved names cannot be had by changing case, or by spaces and punctuation: an ASCII text
  whose letters and digits, in lower case, spell a reserved name is refused as a nickname, and
  \<open>is_reserved_name\<close> reports it for free-text fields.
\<close>

theorem reserved_names_refused:
  assumes "ascii_laws ud" and "is_ascii raw"
    and "filter ascii_alnum (map ascii_lower raw) \<in> set (map (filter ascii_alnum) RESERVED_KEYS)"
  shows "is_reserved_name ud raw \<and> (\<exists>e. parse_nickname ud raw = Inl e)"
proof -
  have keys: "collapse ud k = filter ascii_alnum k" if "k \<in> set RESERVED_KEYS" for k
    using that collapse_ascii [OF assms(1), of k] by (auto simp: RESERVED_KEYS_def ascii_lower_def)
  have reserved: "is_reserved_name ud t"
    if "is_ascii t" "filter ascii_alnum (map ascii_lower t) = filter ascii_alnum (map ascii_lower raw)" for t
    using assms(3) that(2) keys unfolding is_reserved_name_def collapse_ascii [OF assms(1) that(1)] by auto
  define v where "v = join_with [32] (split_ws is_space raw)"
  have "set v \<subseteq> insert 32 (set raw)"
    unfolding v_def split_ws_def using set_join set_split_runs [of _ is_space "[]" raw] by fastforce
  then have "is_ascii v" using assms(2) by (auto simp: list_all_iff)
  moreover have "filter ascii_alnum (map ascii_lower v) = filter ascii_alnum (map ascii_lower raw)"
  proof -
    let ?P = "\<lambda>c. ascii_alnum (ascii_lower c)"
    have "filter ?P v = filter ?P (concat (split_ws is_space raw))"
      unfolding v_def by (rule filter_join) (simp add: ascii_alnum_def ascii_lower_def)
    also have "\<dots> = filter ?P raw"
      unfolding split_ws_def using assms(2)
      by (subst filter_split_runs) (auto simp: list_all_iff is_space_ascii ascii_alnum_def ascii_lower_def)
    finally show ?thesis by (simp add: filter_map comp_def)
  qed
  ultimately have "is_reserved_name ud v" by (rule reserved)
  moreover have "nfc ud raw = raw" using ascii_lawsD [OF assms(1,2)] by simp
  ultimately show ?thesis
    using reserved [OF assms(2)] by (simp add: parse_nickname_def Let_def v_def)
qed

theorem reserved_names_refused_witness:
  "is_reserved_name ascii_unicode (cp ''Lich_King'') \<and> (\<exists>e. parse_nickname ascii_unicode (cp ''Lich_King'') = Inl e)"
  by (rule reserved_names_refused [OF ascii_unicode_laws])
     (simp_all add: RESERVED_KEYS_def ascii_alnum_def ascii_lower_def)

end
