(* ===== verification/Users.thy ===== *)
theory Users
  imports Ledger Phone "HOL-Library.Product_Lexorder" "HOL-Library.Multiset"
begin

text \<open>
  Accounts: the user, venue, avatar and legal repositories (\<open>repositories.py\<close>), profiles
  (\<open>app/application/profile.py\<close>) and the admin's user list (\<open>app/application/admin_users.py\<close>).
  A repository call is a transaction of its own, so a service that makes several is a sequence of
  committed steps: what an earlier one wrote stays when a later one raises.
\<close>

section \<open>Sequences of committed steps\<close>

type_synonym ('e, 'a) act = "database \<Rightarrow> ('e raised + 'a) \<times> database"

definition act_return :: "'a \<Rightarrow> ('e, 'a) act" where
  "act_return a s = (Inr a, s)"

definition act_raise :: "'e \<Rightarrow> ('e, 'a) act" where
  "act_raise e s = (Inl (Raised e), s)"

definition act_crash :: "py_error \<Rightarrow> ('e, 'a) act" where
  "act_crash e s = (Inl (Crash e), s)"

definition act_read :: "(database \<Rightarrow> 'a) \<Rightarrow> ('e, 'a) act" where
  "act_read q s = (Inr (q s), s)"

definition act_write :: "(database \<Rightarrow> database) \<Rightarrow> ('e, unit) act" where
  "act_write w s = (Inr (), w s)"

definition act_bind :: "('e, 'a) act \<Rightarrow> ('a \<Rightarrow> ('e, 'b) act) \<Rightarrow> ('e, 'b) act" where
  "act_bind m f s = (case m s of (Inl e, t) \<Rightarrow> (Inl e, t) | (Inr a, t) \<Rightarrow> f a t)"

text \<open>\<open>INSERT\<close> under the constraints of the table, as a transaction of its own.\<close>

definition act_insert :: "string \<Rightarrow> (database \<Rightarrow> bool) \<Rightarrow> (database \<Rightarrow> database) \<Rightarrow> ('e, unit) act" where
  "act_insert constraint free w s = (if free s then (Inr (), w s) else (Inl (Crash (IntegrityError constraint)), s))"

named_theorems act_defs \<open>definitions of the step combinators\<close>

lemmas [act_defs] = act_return_def act_raise_def act_crash_def act_read_def act_write_def

lemma act_bind_return [simp]: "act_bind (act_return a) f = f a"
  by (simp add: fun_eq_iff act_bind_def act_defs)

lemma act_bind_raise [simp]: "act_bind (act_raise e) f s = (Inl (Raised e), s)"
  by (simp add: act_bind_def act_defs)

lemma act_bind_crash [simp]: "act_bind (act_crash e) f s = (Inl (Crash e), s)"
  by (simp add: act_bind_def act_defs)

lemma act_bind_read [simp]: "act_bind (act_read q) f s = f (q s) s"
  by (simp add: act_bind_def act_defs)

lemma act_bind_write [simp]: "act_bind (act_write w) f s = f () (w s)"
  by (simp add: act_bind_def act_defs)

lemma act_bind_insert [simp]:
  "act_bind (act_insert c free w) f s = (if free s then f () (w s) else (Inl (Crash (IntegrityError c)), s))"
  by (simp add: act_bind_def act_insert_def)

lemma act_bind_Inr: "m s = (Inr a, t) \<Longrightarrow> act_bind m f s = f a t"
  by (simp add: act_bind_def)

lemma act_bind_Inl: "m s = (Inl e, t) \<Longrightarrow> act_bind m f s = (Inl e, t)"
  by (simp add: act_bind_def)

section \<open>The user repository\<close>

record User =
  user_id :: uuid
  user_identifier :: pystr
  user_display_name :: "pystr option"
  user_account_status :: AccountStatus
  user_verification_status :: VerificationStatus
  user_role :: UserRole
  user_created_at :: instant
  user_updated_at :: instant
  user_nickname :: "pystr option"
  user_terms_version :: "string option"
  user_terms_accepted_at :: "instant option"
  user_home_venue_id :: "string option"
  user_location_city :: "string option"
  user_avatar_id :: "string option"
  user_referral_code :: "string option"

definition is_profile_complete :: "User \<Rightarrow> bool \<Rightarrow> bool" where
  "is_profile_complete u terms_required \<longleftrightarrow>
     user_nickname u \<noteq> None \<and> (\<not> terms_required \<or> user_terms_accepted_at u \<noteq> None)"

definition user_from_model :: "UserModel \<Rightarrow> User" where
  "user_from_model m = \<lparr>user_id = u_id m, user_identifier = u_identifier m, user_display_name = u_display_name m,
     user_account_status = u_account_status m, user_verification_status = u_verification_status m,
     user_role = u_role m, user_created_at = u_created_at m, user_updated_at = u_updated_at m,
     user_nickname = u_nickname m, user_terms_version = u_terms_version m,
     user_terms_accepted_at = u_terms_accepted_at m, user_home_venue_id = u_home_venue_id m,
     user_location_city = u_location_city m, user_avatar_id = u_avatar_id m,
     user_referral_code = u_referral_code m\<rparr>"

definition user_row :: "database \<Rightarrow> uuid \<Rightarrow> UserModel option" where
  "user_row s i = select_one (\<lambda>u. u_id u = i) (users s)"

definition get_by_id :: "database \<Rightarrow> uuid \<Rightarrow> User option" where
  "get_by_id s i = map_option user_from_model (user_row s i)"

definition get_by_identifier :: "database \<Rightarrow> pystr \<Rightarrow> User option" where
  "get_by_identifier s identifier =
     map_option user_from_model (select_one (\<lambda>u. u_identifier u = identifier) (users s))"

definition update_user :: "uuid \<Rightarrow> (UserModel \<Rightarrow> UserModel) \<Rightarrow> database \<Rightarrow> database" where
  "update_user i f s = s\<lparr>users := update_where (\<lambda>u. u_id u = i) f (users s)\<rparr>"

definition new_user :: "uuid \<Rightarrow> pystr \<Rightarrow> instant \<Rightarrow> UserModel" where
  "new_user new_id identifier now = \<lparr>u_id = new_id, u_identifier = identifier, u_display_name = None,
     u_account_status = ACCOUNT_ACTIVE, u_verification_status = UNVERIFIED, u_role = PLAYER,
     u_nickname = None, u_nickname_key = None, u_terms_version = None, u_terms_accepted_at = None,
     u_home_venue_id = None, u_location_city = None, u_avatar_id = None, u_referral_code = None,
     u_created_at = now, u_updated_at = now, u_totp_secret_encrypted = None, u_totp_confirmed_at = None\<rparr>"

text \<open>An \<open>IntegrityError\<close> of the insert is answered by the user who has the identifier, if there is one.\<close>

definition create_user :: "uuid \<Rightarrow> pystr \<Rightarrow> instant \<Rightarrow> ('e, User) act" where
  "create_user new_id identifier now s =
     (if exists_where (\<lambda>u. u_id u = new_id \<or> u_identifier u = identifier) (users s)
      then (case get_by_identifier s identifier of
              None \<Rightarrow> (Inl (Crash (IntegrityError ''users'')), s)
            | Some existing \<Rightarrow> (Inr existing, s))
      else (Inr (user_from_model (new_user new_id identifier now)),
            s\<lparr>users := users s @ [new_user new_id identifier now]\<rparr>))"

definition mark_verified :: "uuid \<Rightarrow> instant \<Rightarrow> ('e, User) act" where
  "mark_verified i now =
     act_bind (act_write (update_user i (\<lambda>u. u\<lparr>u_verification_status := VERIFIED, u_updated_at := now\<rparr>))) (\<lambda>_.
     act_bind (act_read (\<lambda>s. get_by_id s i)) (\<lambda>result.
     case result of None \<Rightarrow> act_crash LookupError | Some u \<Rightarrow> act_return u))"

definition repo_update_display_name :: "uuid \<Rightarrow> pystr option \<Rightarrow> instant \<Rightarrow> ('e, User option) act" where
  "repo_update_display_name i display_name now =
     act_bind (act_write (update_user i (\<lambda>u. u\<lparr>u_display_name := display_name, u_updated_at := now\<rparr>))) (\<lambda>_.
     act_read (\<lambda>s. get_by_id s i))"

section \<open>Profiles\<close>

definition SUPPORTED_CITY_IDS :: "string list" where
  "SUPPORTED_CITY_IDS = [''tehran'', ''ahvaz'', ''mashhad'', ''isfahan'']"

definition exists_active :: "database \<Rightarrow> string \<Rightarrow> bool" where
  "exists_active s venue_id \<longleftrightarrow> exists_where (\<lambda>v. v_id v = venue_id \<and> v_active v) (venues s)"

record Avatar =
  avatar_id :: string
  avatar_image_url :: string
  avatar_locked :: bool

definition avatar_from_model :: "AvatarModel \<Rightarrow> Avatar" where
  "avatar_from_model m = \<lparr>avatar_id = av_id m, avatar_image_url = av_image_url m, avatar_locked = av_locked m\<rparr>"

definition get_active_avatar :: "database \<Rightarrow> string \<Rightarrow> Avatar option" where
  "get_active_avatar s i =
     (case select_one (\<lambda>a. av_id a = i) (avatars s) of
        None \<Rightarrow> None
      | Some m \<Rightarrow> if \<not> av_active m then None else Some (avatar_from_model m))"

text \<open>\<open>rank\<close> is the position of an identifier in the collation of the database.\<close>

definition list_active_avatars :: "(string \<Rightarrow> int) \<Rightarrow> database \<Rightarrow> Avatar list" where
  "list_active_avatars rank s =
     map avatar_from_model (sort_key (\<lambda>a. (av_sort a, rank (av_id a))) (filter av_active (avatars s)))"

definition list_active_venues :: "(pystr \<Rightarrow> int) \<Rightarrow> (string \<Rightarrow> int) \<Rightarrow> database \<Rightarrow> VenueModel list" where
  "list_active_venues name_rank rank s =
     sort_key (\<lambda>v. (name_rank (v_name v), rank (v_id v))) (filter v_active (venues s))"

definition get_legal_document :: "database \<Rightarrow> string \<Rightarrow> LegalDocumentModel option" where
  "get_legal_document s version = select_one (\<lambda>d. ld_version d = version) (legal_documents s)"

datatype ProfileError =
    ProfileNickname NicknameError | NicknameTaken pystr | TermsVersionMismatch string | VenueUnknown string
  | LocationCityUnknown string | AvatarUnknown string | AvatarLocked string | ProfileAuthenticationRequired

record profile_change =
  pc_nickname :: "Nickname option"
  pc_terms_version :: "string option"
  pc_home_venue_id :: "string option"
  pc_location_city :: "string option"
  pc_avatar_id :: "string option"

text \<open>\<open>keep old new\<close>: a field is written only when a value is given.\<close>

definition keep :: "'a option \<Rightarrow> 'a option \<Rightarrow> 'a option" where
  "keep old new = (case new of None \<Rightarrow> old | Some v \<Rightarrow> Some v)"

definition apply_change :: "profile_change \<Rightarrow> instant \<Rightarrow> UserModel \<Rightarrow> UserModel" where
  "apply_change c now u =
     u\<lparr>u_nickname := keep (u_nickname u) (map_option nick_display (pc_nickname c)),
       u_nickname_key := keep (u_nickname_key u) (map_option nick_key (pc_nickname c)),
       u_terms_version := keep (u_terms_version u) (pc_terms_version c),
       u_terms_accepted_at := (if pc_terms_version c = None then u_terms_accepted_at u else Some now),
       u_home_venue_id := keep (u_home_venue_id u) (pc_home_venue_id c),
       u_location_city := keep (u_location_city u) (pc_location_city c),
       u_avatar_id := keep (u_avatar_id u) (pc_avatar_id c), u_updated_at := now\<rparr>"

text \<open>
  The constraints on the row written: the unique nickname key and the two foreign keys. Their
  \<open>IntegrityError\<close> is reported as a taken nickname, whichever it was.
\<close>

definition change_allowed :: "uuid \<Rightarrow> profile_change \<Rightarrow> database \<Rightarrow> bool" where
  "change_allowed i c s \<longleftrightarrow>
     (case pc_nickname c of None \<Rightarrow> True
      | Some n \<Rightarrow> \<not> exists_where (\<lambda>u. u_id u \<noteq> i \<and> u_nickname_key u = Some (nick_key n)) (users s))
     \<and> (case pc_home_venue_id c of None \<Rightarrow> True | Some v \<Rightarrow> exists_where (\<lambda>x. v_id x = v) (venues s))
     \<and> (case pc_avatar_id c of None \<Rightarrow> True | Some a \<Rightarrow> exists_where (\<lambda>x. av_id x = a) (avatars s))"

definition update_profile :: "uuid \<Rightarrow> instant \<Rightarrow> profile_change \<Rightarrow> (ProfileError, User option) act" where
  "update_profile i now c s =
     (if user_row s i \<noteq> None \<and> \<not> change_allowed i c s
      then (Inl (Raised (NicknameTaken (case pc_nickname c of None \<Rightarrow> [] | Some n \<Rightarrow> nick_display n))), s)
      else let t = update_user i (apply_change c now) s in (Inr (get_by_id t i), t))"

text \<open>\<open>avatars_given\<close>: the service was built with an avatar catalogue.\<close>

definition check_avatar :: "bool \<Rightarrow> string \<Rightarrow> (ProfileError, unit) act" where
  "check_avatar avatars_given i =
     (if \<not> avatars_given then act_raise (AvatarUnknown i)
      else act_bind (act_read (\<lambda>s. get_active_avatar s i)) (\<lambda>avatar.
        case avatar of
          None \<Rightarrow> act_raise (AvatarUnknown i)
        | Some a \<Rightarrow> if avatar_locked a then act_raise (AvatarLocked i) else act_return ()))"

definition profile_update ::
  "unicode \<Rightarrow> string \<Rightarrow> bool \<Rightarrow> uuid \<Rightarrow> pystr option \<Rightarrow> string option \<Rightarrow> string option \<Rightarrow> string option \<Rightarrow> string option
     \<Rightarrow> instant \<Rightarrow> (ProfileError, User) act" where
  "profile_update ud current_terms avatars_given i nickname accept_terms_version home_venue_id location_city avatar now =
     act_bind (case nickname of
         None \<Rightarrow> act_return None
       | Some raw \<Rightarrow> (case parse_nickname ud raw of
             Inl e \<Rightarrow> act_raise (ProfileNickname e) | Inr n \<Rightarrow> act_return (Some n))) (\<lambda>parsed.
     act_bind (case accept_terms_version of
         None \<Rightarrow> act_return ()
       | Some v \<Rightarrow> if v \<noteq> current_terms then act_raise (TermsVersionMismatch v) else act_return ()) (\<lambda>_.
     act_bind (case home_venue_id of
         None \<Rightarrow> act_return ()
       | Some v \<Rightarrow> act_bind (act_read (\<lambda>s. exists_active s v)) (\<lambda>found.
           if \<not> found then act_raise (VenueUnknown v) else act_return ())) (\<lambda>_.
     act_bind (case location_city of
         None \<Rightarrow> act_return ()
       | Some c \<Rightarrow> if c \<notin> set SUPPORTED_CITY_IDS then act_raise (LocationCityUnknown c) else act_return ()) (\<lambda>_.
     act_bind (case avatar of None \<Rightarrow> act_return () | Some a \<Rightarrow> check_avatar avatars_given a) (\<lambda>_.
     act_bind (update_profile i now \<lparr>pc_nickname = parsed, pc_terms_version = accept_terms_version,
         pc_home_venue_id = home_venue_id, pc_location_city = location_city, pc_avatar_id = avatar\<rparr>) (\<lambda>result.
     case result of None \<Rightarrow> act_raise ProfileAuthenticationRequired | Some u \<Rightarrow> act_return u))))))"

section \<open>The user list\<close>

record UserCursor =
  cur_created_at :: instant
  cur_id :: uuid

record UserPage =
  page_items :: "User list"
  page_next_cursor :: "UserCursor option"

text \<open>PostgreSQL orders UUIDs by their bytes, which is the order of the words.\<close>

definition user_key :: "User \<Rightarrow> instant \<times> uuid" where
  "user_key u = (user_created_at u, user_id u)"

definition newest_first :: "database \<Rightarrow> User list" where
  "newest_first s = rev (sort_key user_key (map user_from_model (users s)))"

definition list_page :: "database \<Rightarrow> nat \<Rightarrow> UserCursor option \<Rightarrow> User list" where
  "list_page s limit after =
     take limit (filter (\<lambda>u. case after of
         None \<Rightarrow> True
       | Some c \<Rightarrow> user_created_at u < cur_created_at c \<or> user_created_at u = cur_created_at c \<and> user_id u < cur_id c)
       (newest_first s))"

text \<open>\<open>items[-1]\<close> of an empty list is an \<open>IndexError\<close>, a \<open>LookupError\<close>.\<close>

definition list_users :: "database \<Rightarrow> nat \<Rightarrow> UserCursor option \<Rightarrow> py_error + UserPage" where
  "list_users s limit after =
     (let rows = list_page s (limit + 1) after; items = take limit rows in
      if length rows \<le> limit then Inr \<lparr>page_items = items, page_next_cursor = None\<rparr>
      else if items = [] then Inl LookupError
      else Inr \<lparr>page_items = items,
        page_next_cursor = Some \<lparr>cur_created_at = user_created_at (last items), cur_id = user_id (last items)\<rparr>\<rparr>)"

section \<open>Consistent accounts\<close>

definition users_ok :: "database \<Rightarrow> bool" where
  "users_ok s \<longleftrightarrow> distinct (map u_id (users s)) \<and> distinct (map u_identifier (users s))
     \<and> (\<forall>u \<in> set (users s). \<forall>v \<in> set (users s). u_nickname_key u \<noteq> None \<longrightarrow> u_nickname_key u = u_nickname_key v \<longrightarrow> u_id u = u_id v)"

lemma user_row_Some: "user_row s i = Some u \<Longrightarrow> u \<in> set (users s) \<and> u_id u = i"
  unfolding user_row_def by (rule select_one_Some)

lemma user_row_in: "users_ok s \<Longrightarrow> u \<in> set (users s) \<Longrightarrow> user_row s (u_id u) = Some u"
  unfolding user_row_def users_ok_def by (simp add: select_one_unique)

lemma user_row_None_iff: "user_row s i = None \<longleftrightarrow> \<not> user_exists s i"
  by (auto simp: user_row_def user_exists_def select_one_None_iff)

lemma user_row_update:
  "(\<And>u. u_id (f u) = u_id u) \<Longrightarrow>
     user_row (update_user i f s) j = (if j = i then map_option f (user_row s j) else user_row s j)"
  by (auto simp: user_row_def update_user_def select_one_update_same map_option_case dest!: select_one_Some split: option.splits)

lemma update_user_absent: "user_row s i = None \<Longrightarrow> update_user i f s = s"
  by (simp add: user_row_def select_one_None_iff update_user_def update_where_none)

lemma user_from_model_simps [simp]:
  "user_id (user_from_model m) = u_id m" "user_identifier (user_from_model m) = u_identifier m"
  "user_display_name (user_from_model m) = u_display_name m"
  "user_account_status (user_from_model m) = u_account_status m"
  "user_verification_status (user_from_model m) = u_verification_status m"
  "user_role (user_from_model m) = u_role m" "user_created_at (user_from_model m) = u_created_at m"
  "user_nickname (user_from_model m) = u_nickname m" "user_terms_accepted_at (user_from_model m) = u_terms_accepted_at m"
  by (simp_all add: user_from_model_def)

lemma apply_change_simps [simp]:
  "u_id (apply_change c now u) = u_id u" "u_identifier (apply_change c now u) = u_identifier u"
  "u_role (apply_change c now u) = u_role u" "u_account_status (apply_change c now u) = u_account_status u"
  "u_nickname_key (apply_change c now u) = keep (u_nickname_key u) (map_option nick_key (pc_nickname c))"
  by (simp_all add: apply_change_def)

lemma keep_simps [simp]: "keep old None = old" "keep old (Some v) = Some v"
  by (simp_all add: keep_def)

lemma update_rows:
  assumes "v \<in> set (users (update_user i f s))"
  shows "\<exists>u \<in> set (users s). v = (if u_id u = i then f u else u)"
  using assms by (auto simp: update_user_def set_update_where)

lemma users_ok_change:
  assumes "users_ok s" "change_allowed i c s"
  shows "users_ok (update_user i (apply_change c now) s)"
proof -
  let ?t = "update_user i (apply_change c now) s"
  have "map u_id (users ?t) = map u_id (users s)" "map u_identifier (users ?t) = map u_identifier (users s)"
    unfolding update_user_def by (auto intro!: map_update_where_same)
  moreover have "u_id v = u_id w" if vw: "v \<in> set (users ?t)" "w \<in> set (users ?t)"
      "u_nickname_key v \<noteq> None" "u_nickname_key v = u_nickname_key w" for v w
  proof -
    obtain x y where xy: "x \<in> set (users s)" "v = (if u_id x = i then apply_change c now x else x)"
      "y \<in> set (users s)" "w = (if u_id y = i then apply_change c now y else y)"
      using update_rows [OF vw(1)] update_rows [OF vw(2)] by blast
    have old: "u_nickname_key x \<noteq> None \<Longrightarrow> u_nickname_key x = u_nickname_key y \<Longrightarrow> u_id x = u_id y"
      using assms(1) xy(1,3) unfolding users_ok_def by blast
    have free: "u_nickname_key z \<noteq> Some (nick_key n)" if "pc_nickname c = Some n" "z \<in> set (users s)" "u_id z \<noteq> i" for z n
      using assms(2) that unfolding change_allowed_def by auto
    show ?thesis
    proof (cases "pc_nickname c")
      case None
      with xy old vw(3,4) show ?thesis by (cases "u_id x = i"; cases "u_id y = i") auto
    next
      case (Some n)
      with xy old vw(3,4) free [OF Some] show ?thesis by (cases "u_id x = i"; cases "u_id y = i") (auto; metis)+
    qed
  qed
  ultimately show ?thesis using assms(1) unfolding users_ok_def by metis
qed

section \<open>Profile changes\<close>

text \<open>What a request must satisfy, each field on its own.\<close>

definition acceptable ::
  "unicode \<Rightarrow> string \<Rightarrow> bool \<Rightarrow> database \<Rightarrow> uuid \<Rightarrow> pystr option \<Rightarrow> string option \<Rightarrow> string option \<Rightarrow> string option \<Rightarrow> string option \<Rightarrow> bool" where
  "acceptable ud current_terms avatars_given s i nickname terms venue city avatar \<longleftrightarrow>
     user_exists s i
     \<and> (\<forall>raw. nickname = Some raw \<longrightarrow> (\<exists>n. parse_nickname ud raw = Inr n
          \<and> \<not> exists_where (\<lambda>u. u_id u \<noteq> i \<and> u_nickname_key u = Some (nick_key n)) (users s)))
     \<and> (\<forall>v. terms = Some v \<longrightarrow> v = current_terms)
     \<and> (\<forall>v. venue = Some v \<longrightarrow> exists_active s v)
     \<and> (\<forall>c. city = Some c \<longrightarrow> c \<in> set SUPPORTED_CITY_IDS)
     \<and> (\<forall>a. avatar = Some a \<longrightarrow> avatars_given \<and> (\<exists>x. get_active_avatar s a = Some x \<and> \<not> avatar_locked x))"

definition requested :: "unicode \<Rightarrow> pystr option \<Rightarrow> string option \<Rightarrow> string option \<Rightarrow> string option \<Rightarrow> string option \<Rightarrow> profile_change" where
  "requested ud nickname terms venue city avatar =
     \<lparr>pc_nickname = (case nickname of None \<Rightarrow> None
         | Some raw \<Rightarrow> (case parse_nickname ud raw of Inl _ \<Rightarrow> None | Inr n \<Rightarrow> Some n)),
      pc_terms_version = terms, pc_home_venue_id = venue, pc_location_city = city, pc_avatar_id = avatar\<rparr>"

lemma update_profile_result:
  "update_profile i now c s =
    (if user_exists s i then
       if change_allowed i c s
       then (Inr (map_option (\<lambda>u. user_from_model (apply_change c now u)) (user_row s i)), update_user i (apply_change c now) s)
       else (Inl (Raised (NicknameTaken (case pc_nickname c of None \<Rightarrow> [] | Some n \<Rightarrow> nick_display n))), s)
     else (Inr None, s))"
  by (auto simp: update_profile_def Let_def get_by_id_def user_row_update update_user_absent user_row_None_iff [symmetric]
    option.map_comp comp_def)

lemma active_venue: "exists_active s v \<Longrightarrow> exists_where (\<lambda>x. v_id x = v) (venues s)"
  by (auto simp: exists_active_def)

lemma active_avatar: "get_active_avatar s a = Some x \<Longrightarrow> exists_where (\<lambda>x. av_id x = a) (avatars s)"
  by (auto simp: get_active_avatar_def split: option.splits if_splits dest!: select_one_Some)

lemma profile_update_accepted:
  assumes "acceptable ud current g s i nickname terms venue city avatar"
  shows "change_allowed i (requested ud nickname terms venue city avatar) s
    \<and> profile_update ud current g i nickname terms venue city avatar now s
      = (Inr (user_from_model (apply_change (requested ud nickname terms venue city avatar) now (the (user_row s i)))),
         update_user i (apply_change (requested ud nickname terms venue city avatar) now) s)"
proof -
  let ?c = "requested ud nickname terms venue city avatar"
  have row: "user_row s i \<noteq> None" using assms by (simp add: acceptable_def user_row_None_iff)
  have allowed: "change_allowed i ?c s"
    using assms active_venue active_avatar
    by (fastforce simp: acceptable_def change_allowed_def requested_def split: option.splits)
  have "update_profile i now ?c s = (Inr (Some (user_from_model (apply_change ?c now (the (user_row s i))))),
      update_user i (apply_change ?c now) s)"
    using allowed row assms by (auto simp: update_profile_result acceptable_def)
  moreover have "profile_update ud current g i nickname terms venue city avatar now s
      = act_bind (update_profile i now ?c) (\<lambda>result.
          case result of None \<Rightarrow> act_raise ProfileAuthenticationRequired | Some u \<Rightarrow> act_return u) s"
    using assms
    by (cases nickname; cases terms; cases venue; cases city; cases avatar)
      (auto simp: acceptable_def profile_update_def requested_def check_avatar_def act_bind_def act_defs split: option.splits)
  ultimately show ?thesis using allowed by (simp add: act_bind_Inr act_return_def)
qed

text \<open>A check that raises unless its condition holds, and writes nothing.\<close>

definition guards :: "bool \<Rightarrow> ('e, unit) act \<Rightarrow> database \<Rightarrow> bool" where
  "guards c m s \<longleftrightarrow> (if c then m s = (Inr (), s) else (\<exists>e. m s = (Inl (Raised e), s)))"

definition raises :: "('e, 'a) act \<Rightarrow> database \<Rightarrow> bool" where
  "raises m s \<longleftrightarrow> (\<exists>e. m s = (Inl (Raised e), s))"

lemma raises_guarded: "guards c m s \<Longrightarrow> (c \<Longrightarrow> raises (f ()) s) \<Longrightarrow> raises (act_bind m f) s"
  by (auto simp: guards_def raises_def act_bind_def split: if_splits)

lemma profile_guards:
  "guards (\<forall>v. terms = Some v \<longrightarrow> v = current)
     (case terms of None \<Rightarrow> act_return () | Some v \<Rightarrow> if v \<noteq> current then act_raise (TermsVersionMismatch v) else act_return ()) s"
  "guards (\<forall>v. venue = Some v \<longrightarrow> exists_active s v)
     (case venue of None \<Rightarrow> act_return () | Some v \<Rightarrow> act_bind (act_read (\<lambda>s. exists_active s v)) (\<lambda>found.
           if \<not> found then act_raise (VenueUnknown v) else act_return ())) s"
  "guards (\<forall>c. city = Some c \<longrightarrow> c \<in> set SUPPORTED_CITY_IDS)
     (case city of None \<Rightarrow> act_return ()
       | Some c \<Rightarrow> if c \<notin> set SUPPORTED_CITY_IDS then act_raise (LocationCityUnknown c) else act_return ()) s"
  "guards (\<forall>a. avatar = Some a \<longrightarrow> g \<and> (\<exists>x. get_active_avatar s a = Some x \<and> \<not> avatar_locked x))
     (case avatar of None \<Rightarrow> act_return () | Some a \<Rightarrow> check_avatar g a) s"
  by (auto simp: guards_def act_defs check_avatar_def split: option.splits)

lemma profile_update_refused:
  assumes "\<not> acceptable ud current g s i nickname terms venue city avatar"
  shows "raises (profile_update ud current g i nickname terms venue city avatar now) s"
proof -
  have stored: "raises (act_bind (update_profile i now \<lparr>pc_nickname = p, pc_terms_version = terms, pc_home_venue_id = venue,
        pc_location_city = city, pc_avatar_id = avatar\<rparr>) (\<lambda>result.
      case result of None \<Rightarrow> act_raise ProfileAuthenticationRequired | Some u \<Rightarrow> act_return u)) s"
    if "\<not> user_exists s i \<or> (\<exists>n. p = Some n \<and> exists_where (\<lambda>u. u_id u \<noteq> i \<and> u_nickname_key u = Some (nick_key n)) (users s))" for p
    using that by (cases "user_exists s i") (auto simp: raises_def act_bind_def update_profile_result change_allowed_def act_raise_def)
  show ?thesis
  proof (cases nickname)
    case None
    show ?thesis
      unfolding profile_update_def None option.case act_bind_return
      by (intro raises_guarded [OF profile_guards(1)] raises_guarded [OF profile_guards(2)]
        raises_guarded [OF profile_guards(3)] raises_guarded [OF profile_guards(4)] stored)
        (use assms None in \<open>auto simp: acceptable_def\<close>)
  next
    case (Some raw)
    show ?thesis
    proof (cases "parse_nickname ud raw")
      case (Inl e)
      with Some show ?thesis by (simp add: profile_update_def raises_def)
    next
      case (Inr n)
      show ?thesis
        unfolding profile_update_def Some option.case Inr sum.case act_bind_return
        by (intro raises_guarded [OF profile_guards(1)] raises_guarded [OF profile_guards(2)]
          raises_guarded [OF profile_guards(3)] raises_guarded [OF profile_guards(4)] stored)
          (use assms Some Inr in \<open>auto simp: acceptable_def\<close>)
    qed
  qed
qed

text \<open>
  A profile change is all or nothing. It succeeds exactly when the player exists and every field
  given is acceptable on its own: the nickname parses and no one else's folds to the same key, the
  terms are the current ones, the venue is an active one, the city supported, the avatar active and
  not locked. Then the player's row gets the given fields and keeps all the others, no other player's
  row changes, and nickname keys stay unique; otherwise an error is raised and nothing is written.
\<close>

theorem profile_update_exact:
  assumes "users_ok s"
  shows "case profile_update ud current g i nickname terms venue city avatar now s of
      (Inl e, t) \<Rightarrow> \<not> acceptable ud current g s i nickname terms venue city avatar \<and> (\<exists>p. e = Raised p) \<and> t = s
    | (Inr u, t) \<Rightarrow> acceptable ud current g s i nickname terms venue city avatar
        \<and> t = update_user i (apply_change (requested ud nickname terms venue city avatar) now) s
        \<and> get_by_id t i = Some u \<and> users_ok t \<and> (\<forall>j. j \<noteq> i \<longrightarrow> user_row t j = user_row s j)"
proof (cases "acceptable ud current g s i nickname terms venue city avatar")
  case True
  let ?c = "requested ud nickname terms venue city avatar"
  have "user_row s i \<noteq> None" using True by (simp add: acceptable_def user_row_None_iff)
  then have "get_by_id (update_user i (apply_change ?c now) s) i = Some (user_from_model (apply_change ?c now (the (user_row s i))))"
    by (auto simp: get_by_id_def user_row_update)
  with profile_update_accepted [OF True, of now] users_ok_change [OF assms, of i ?c now] True show ?thesis
    by (simp add: user_row_update)
next
  case False
  with profile_update_refused [OF False, of now] show ?thesis by (auto simp: raises_def)
qed

theorem profile_update_exact_witness:
  "\<exists>u t. profile_update ascii_unicode ''v1'' True 1 None (Some ''v1'') None (Some ''tehran'') None 5 one_user = (Inr u, t)
    \<and> user_terms_accepted_at u = Some 5 \<and> user_nickname u = Some (cp ''neda'')"
proof -
  have ok: "users_ok one_user" by (simp add: users_ok_def one_user_def)
  have yes: "acceptable ascii_unicode ''v1'' True one_user 1 None (Some ''v1'') None (Some ''tehran'') None"
    by (simp add: acceptable_def user_exists_def one_user_def adult_user_def SUPPORTED_CITY_IDS_def)
  have "user_row one_user 1 = Some adult_user" by (simp add: user_row_def one_user_def adult_user_def)
  with profile_update_exact [OF ok, of ascii_unicode "''v1''" True 1 None "Some ''v1''" None "Some ''tehran''" None 5] yes
  show ?thesis
    by (auto simp: get_by_id_def user_row_update apply_change_def requested_def split: prod.splits sum.splits)
      (simp add: adult_user_def)
qed

section \<open>Walking the user list\<close>

text \<open>The pages a client gets that follows the cursors, at most \<open>n\<close> of them.\<close>

fun user_pages :: "nat \<Rightarrow> database \<Rightarrow> nat \<Rightarrow> UserCursor option \<Rightarrow> User list list" where
  "user_pages 0 s limit after = []"
| "user_pages (Suc n) s limit after =
     (case list_users s limit after of
        Inl _ \<Rightarrow> []
      | Inr p \<Rightarrow> page_items p # (case page_next_cursor p of None \<Rightarrow> [] | Some c \<Rightarrow> user_pages n s limit (Some c)))"

definition remaining :: "database \<Rightarrow> UserCursor option \<Rightarrow> User list" where
  "remaining s after = filter (\<lambda>u. case after of
         None \<Rightarrow> True
       | Some c \<Rightarrow> user_created_at u < cur_created_at c \<or> user_created_at u = cur_created_at c \<and> user_id u < cur_id c)
       (newest_first s)"

lemma list_page_remaining: "list_page s limit after = take limit (remaining s after)"
  by (simp add: list_page_def remaining_def)

lemma newest_first_strict:
  assumes "distinct (map u_id (users s))"
  shows "sorted_wrt (\<lambda>a b. user_key b < user_key a) (newest_first s)"
proof -
  have "distinct (map user_key (map user_from_model (users s)))"
    using assms by (auto simp: distinct_map inj_on_def user_key_def comp_def)
  moreover have "distinct (map k us) \<Longrightarrow> distinct (map k (sort_key user_key us))" for k :: "User \<Rightarrow> instant \<times> uuid" and us
    by (simp add: distinct_map)
  ultimately have "distinct (map user_key (sort_key user_key (map user_from_model (users s))))" by blast
  then have "sorted_wrt (<) (map user_key (sort_key user_key (map user_from_model (users s))))"
    by (simp add: strict_sorted_iff)
  then show ?thesis by (simp add: newest_first_def sorted_wrt_rev sorted_wrt_map)
qed

lemma remaining_after:
  assumes "sorted_wrt (\<lambda>a b. user_key b < user_key a) (newest_first s)" "newest_first s = xs @ u # ys"
  shows "remaining s (Some \<lparr>cur_created_at = user_created_at u, cur_id = user_id u\<rparr>) = ys"
proof -
  have "remaining s (Some \<lparr>cur_created_at = user_created_at u, cur_id = user_id u\<rparr>)
      = filter (\<lambda>v. user_key v < user_key u) (newest_first s)"
    unfolding remaining_def by (rule filter_cong) (auto simp: user_key_def less_prod_def)
  also have "\<dots> = ys" using assms(1) unfolding assms(2) by (auto simp: sorted_wrt_append filter_empty_conv intro: filter_True)
  finally show ?thesis .
qed

lemma pages_from:
  assumes "sorted_wrt (\<lambda>a b. user_key b < user_key a) (newest_first s)" "0 < limit"
    and "newest_first s = seen @ remaining s after" "length (remaining s after) < n * limit"
  shows "concat (user_pages n s limit after) = remaining s after
    \<and> (\<forall>p \<in> set (user_pages n s limit after). length p \<le> limit)"
  using assms(3,4)
proof (induction n arbitrary: seen after)
  case (Suc n)
  let ?rest = "remaining s after"
  show ?case
  proof (cases "length ?rest \<le> limit")
    case True
    then show ?thesis by (simp add: list_users_def list_page_remaining Let_def)
  next
    case False
    then obtain xs u where items: "take limit ?rest = xs @ [u]"
      by (metis append_butlast_last_id assms(2) gr_implies_not0 list.size(3) take_eq_Nil zero_le)
    let ?c = "Some \<lparr>cur_created_at = user_created_at u, cur_id = user_id u\<rparr>"
    have all: "newest_first s = (seen @ xs) @ u # drop limit ?rest"
      using Suc.prems(1) items append_take_drop_id [of limit ?rest] by (metis append.assoc append_Cons append_Nil)
    from remaining_after [OF assms(1) all] have next_rows: "remaining s ?c = drop limit ?rest" .
    have "concat (user_pages n s limit ?c) = remaining s ?c \<and> (\<forall>p \<in> set (user_pages n s limit ?c). length p \<le> limit)"
    proof (rule Suc.IH)
      show "newest_first s = (seen @ xs @ [u]) @ remaining s ?c" using all next_rows by simp
      show "length (remaining s ?c) < n * limit" using Suc.prems(2) False next_rows by simp
    qed
    moreover have "user_pages (Suc n) s limit after = take limit ?rest # user_pages n s limit ?c"
      using False items by (simp add: list_users_def list_page_remaining Let_def min_def)
    ultimately show ?thesis using next_rows by simp
  qed
qed simp

text \<open>
  The admin's user list is complete. Following the cursors from the first page visits every user
  exactly once, newest first, in pages of at most the limit, and ends; and users who register while the
  admin is paging do not disturb the pages still to come.
\<close>

theorem user_pages_complete:
  assumes "distinct (map u_id (users s))" and "0 < limit" and "length (users s) < n * limit"
  shows "let rows = concat (user_pages n s limit None) in
      mset rows = mset (map user_from_model (users s))
      \<and> sorted_wrt (\<lambda>a b. user_key b < user_key a) rows
      \<and> (\<forall>p \<in> set (user_pages n s limit None). length p \<le> limit)
      \<and> (\<forall>c new. (\<forall>u \<in> set new. (cur_created_at c, cur_id c) \<le> user_key (user_from_model u))
          \<longrightarrow> list_users (s\<lparr>users := users s @ new\<rparr>) limit (Some c) = list_users s limit (Some c))"
proof -
  have none: "remaining s None = newest_first s" by (simp add: remaining_def)
  have size: "length (newest_first s) = length (users s)" by (simp add: newest_first_def)
  note sorted = newest_first_strict [OF assms(1)]
  have "concat (user_pages n s limit None) = newest_first s \<and> (\<forall>p \<in> set (user_pages n s limit None). length p \<le> limit)"
    using pages_from [OF sorted assms(2), of "[]" None n] assms(3) by (simp add: none size)
  moreover have "mset (newest_first s) = mset (map user_from_model (users s))" by (simp add: newest_first_def)
  moreover have "remaining (s\<lparr>users := users s @ new\<rparr>) (Some c) = remaining s (Some c)"
    if "\<forall>u \<in> set new. (cur_created_at c, cur_id c) \<le> user_key (user_from_model u)" for c new
  proof -
    let ?later = "\<lambda>u. user_key u < (cur_created_at c, cur_id c)"
    have later: "remaining t (Some c) = filter ?later (newest_first t)" for t
      unfolding remaining_def by (rule filter_cong) (auto simp: user_key_def less_prod_def)
    have "filter ?later (sort_key user_key us) = sort_key user_key (filter ?later us)" for us by (rule filter_sort)
    moreover have "filter ?later (map user_from_model new) = []" using that by (fastforce simp: filter_empty_conv)
    ultimately show ?thesis by (simp add: later newest_first_def flip: rev_filter)
  qed
  ultimately show ?thesis using sorted by (simp add: Let_def list_users_def list_page_remaining)
qed

theorem user_pages_complete_witness:
  "length (concat (user_pages 3 (one_user\<lparr>users := [adult_user, adult_user\<lparr>u_id := 2\<rparr>]\<rparr>) 1 None)) = 2"
proof -
  let ?s = "one_user\<lparr>users := [adult_user, adult_user\<lparr>u_id := 2\<rparr>]\<rparr>"
  have "distinct (map u_id (users ?s))" by (simp add: adult_user_def)
  then have "mset (concat (user_pages 3 ?s 1 None)) = mset (map user_from_model (users ?s))"
    by (rule user_pages_complete [unfolded Let_def, THEN conjunct1]) simp_all
  from mset_eq_length [OF this] show ?thesis by simp
qed

end
