(* ===== verification/Code_Checks.thy ===== *)
theory Code_Checks
  imports Codes
begin

text \<open>
  What the check character of a printed code detects, and the round trip from a generated code
  through its printed form and its QR back to the parser. The arguments are made once for every
  format that satisfies the locale \<open>sound_format\<close>, which is interpreted on the registered formats.
\<close>

section \<open>The weighted sum\<close>

text \<open>The addend of one value, and its doubled form.\<close>

definition addend :: "nat \<Rightarrow> nat \<Rightarrow> nat \<Rightarrow> nat" where
  "addend factor b v = factor * v div b + factor * v mod b"

lemma addend_1: "v < b \<Longrightarrow> addend (Suc 0) b v = v"
  by (simp add: addend_def)

lemma addend_2:
  assumes "v < b" and "even b"
  shows "addend 2 b v = (if 2 * v < b then 2 * v else 2 * v - b + 1)"
proof (cases "2 * v < b")
  case False
  with assms have "2 * v div b = 1" "2 * v mod b = 2 * v - b"
    by (auto intro!: div_nat_eqI simp: le_mod_geq)
  with False show ?thesis by (simp add: addend_def)
qed (simp add: addend_def)

lemma addend_lt:
  assumes "v < b" and "even b" and "factor = 1 \<or> factor = 2"
  shows "addend factor b v < b"
proof -
  have "2 * v - b + 1 < b" if "\<not> 2 * v < b" using assms that by (elim evenE) simp
  then show ?thesis using assms by (auto simp: addend_1 addend_2)
qed

lemma addend_inject:
  assumes "u < b" "v < b" "even b" "factor = 1 \<or> factor = 2" "addend factor b u = addend factor b v"
  shows "u = v"
proof -
  obtain c where "b = 2 * c" using assms by (elim evenE)
  then show ?thesis using assms
    by (auto simp: addend_1 addend_2 split: if_splits; presburger?)
qed

definition flip :: "nat \<Rightarrow> nat" where
  "flip factor = (if factor = 2 then 1 else 2)"

primrec flips :: "nat \<Rightarrow> nat \<Rightarrow> nat" where
  "flips 0 factor = factor"
| "flips (Suc n) factor = flips n (flip factor)"

lemma luhn_loop_acc: "luhn_loop factor b acc vs = acc + luhn_loop factor b 0 vs"
proof (induction vs arbitrary: acc factor)
  case Nil
  then show ?case by simp
next
  case (Cons v vs)
  show ?case
    using Cons [of _ "acc + (factor * v div b + factor * v mod b)"]
      Cons [of _ "factor * v div b + factor * v mod b"]
    by (simp del: split_paired_All)
qed

lemma luhn_mod_n_sum_Nil [simp]: "luhn_mod_n_sum [] factor b = 0"
  by (simp add: luhn_mod_n_sum_def)

lemma luhn_mod_n_sum_snoc:
  "luhn_mod_n_sum (vs @ [v]) factor b = addend factor b v + luhn_mod_n_sum vs (flip factor) b"
  unfolding luhn_mod_n_sum_def addend_def flip_def
  using luhn_loop_acc [of "if factor = 2 then 1 else 2" b "factor * v div b + factor * v mod b" "rev vs"] by simp

lemma flips_range: "factor = 1 \<or> factor = 2 \<Longrightarrow> flips n factor = 1 \<or> flips n factor = 2"
  by (induction n arbitrary: factor) (auto simp: flip_def)

lemma luhn_mod_n_sum_append:
  "luhn_mod_n_sum (us @ vs) factor b
     = luhn_mod_n_sum vs factor b + luhn_mod_n_sum us (flips (length vs) factor) b"
proof (induction vs arbitrary: factor rule: rev_induct)
  case Nil
  then show ?case by simp
next
  case (snoc v vs)
  then show ?case
    using luhn_mod_n_sum_snoc [of "us @ vs"] by (simp add: luhn_mod_n_sum_snoc)
qed

lemma luhn_mod_n_sum_Cons:
  "luhn_mod_n_sum (v # vs) factor b
     = luhn_mod_n_sum vs factor b + addend (flips (length vs) factor) b v"
  using luhn_mod_n_sum_append [of "[v]" vs] luhn_mod_n_sum_snoc [of "[]" v] by simp

lemma mod_add_cancel:
  assumes "(r + x) mod b = (r + y) mod b" "x < b" "y < (b::nat)"
  shows "x = y"
proof -
  from assms(1) obtain p q where "r + x + b * p = r + y + b * q" by (auto simp: nat_mod_eq_iff)
  then have "x mod b = y mod b" by (auto simp: nat_mod_eq_iff)
  with assms show ?thesis by simp
qed

text \<open>One changed value changes the sum modulo an even base.\<close>

lemma luhn_substitution:
  assumes "even b" "u < b" "v < b" "u \<noteq> v" "factor = 1 \<or> factor = 2"
  shows "luhn_mod_n_sum (us @ u # vs) factor b mod b \<noteq> luhn_mod_n_sum (us @ v # vs) factor b mod b"
proof
  assume eq: "luhn_mod_n_sum (us @ u # vs) factor b mod b = luhn_mod_n_sum (us @ v # vs) factor b mod b"
  define f where "f = flips (length vs) factor"
  define r where "r = luhn_mod_n_sum vs factor b + luhn_mod_n_sum us (flips (Suc (length vs)) factor) b"
  have "luhn_mod_n_sum (us @ x # vs) factor b = r + addend f b x" for x
    by (simp add: luhn_mod_n_sum_append [of us "_ # vs"] luhn_mod_n_sum_Cons f_def r_def)
  with eq have e: "(r + addend f b u) mod b = (r + addend f b v) mod b" by simp
  have f: "f = 1 \<or> f = 2" using assms flips_range by (simp add: f_def)
  from mod_add_cancel [OF e addend_lt [OF assms(2,1) f] addend_lt [OF assms(3,1) f]]
  have "addend f b u = addend f b v" .
  with addend_inject [OF _ _ _ f] assms show False by blast
qed

text \<open>
  Two neighbours swapped change the sum modulo an even base, unless they are equal or are the
  first and the last value.
\<close>

lemma doubled_differences:
  fixes u v c du dv :: nat
  assumes "u < 2 * c" "v < 2 * c"
    and du: "du = (if 2 * u < 2 * c then 2 * u else 2 * u - 2 * c + 1)"
    and dv: "dv = (if 2 * v < 2 * c then 2 * v else 2 * v - 2 * c + 1)"
  shows "du + v = dv + u \<or> du + v = dv + u + 2 * c \<or> dv + u = du + v + 2 * c
    \<longleftrightarrow> u = v \<or> (u = 0 \<and> v = 2 * c - 1) \<or> (u = 2 * c - 1 \<and> v = 0)"
proof -
  consider (ll) "u < c" "v < c" | (lh) y where "u < c" "v = c + y" 
    | (hl) x where "u = c + x" "v < c" | (hh) x y where "u = c + x" "v = c + y"
    by (metis le_iff_add not_le)
  then show ?thesis
  proof cases
    case ll then show ?thesis using assms by auto
  next
    case lh then show ?thesis using assms by auto
  next
    case hl then show ?thesis using assms by auto
  next
    case hh then show ?thesis using assms by auto
  qed
qed

lemma swap_addends:
  assumes "even b" "u < b" "v < b" "factor = 1 \<or> factor = 2"
  shows "(r + addend factor b v + addend (flip factor) b u) mod b
           = (r + addend factor b u + addend (flip factor) b v) mod b
         \<longleftrightarrow> u = v \<or> {u, v} = {0, b - 1}"
proof -
  obtain c where c: "b = 2 * c" using assms(1) by (elim evenE)
  have *: "(r + x) mod b = (r + y) mod b \<longleftrightarrow> x = y \<or> x = y + b \<or> y = x + b"
    if "x < 2 * b" "y < 2 * b" for x y
  proof
    assume "(r + x) mod b = (r + y) mod b"
    then have "x mod b = y mod b"
      by (metis assms(2) mod_add_cancel mod_add_right_eq mod_less_divisor gr_zeroI not_less_zero)
    with that show "x = y \<or> x = y + b \<or> y = x + b"
      by (auto simp: mod_if [of x b] mod_if [of y b] split: if_splits)
  next
    assume "x = y \<or> x = y + b \<or> y = x + b"
    then show "(r + x) mod b = (r + y) mod b" by (auto simp: add.assoc [symmetric])
  qed
  have "u < 2 * c" "v < 2 * c" using assms(2,3) by (simp_all only: c)
  from doubled_differences [OF this] addend_2 [OF assms(2,1)] addend_2 [OF assms(3,1)]
  have d: "addend 2 b u + v = addend 2 b v + u \<or> addend 2 b u + v = addend 2 b v + u + b
      \<or> addend 2 b v + u = addend 2 b u + v + b \<longleftrightarrow> u = v \<or> {u, v} = {0, b - 1}"
    unfolding doubleton_eq_iff by (simp only: c)
  have "addend 2 b u + v < 2 * b" "addend 2 b v + u < 2 * b"
    using addend_lt [OF assms(2,1), of 2] addend_lt [OF assms(3,1), of 2] assms by simp_all
  from trans [OF * [OF this] d]
  have e: "(r + (addend 2 b u + v)) mod b = (r + (addend 2 b v + u)) mod b
      \<longleftrightarrow> u = v \<or> {u, v} = {0, b - 1}" .
  from assms(4) show ?thesis
  proof
    assume "factor = 1"
    then show ?thesis using e assms by (simp add: flip_def addend_1 ac_simps)
  next
    assume "factor = 2"
    then show ?thesis using e assms by (simp add: flip_def addend_1 ac_simps eq_commute)
  qed
qed

lemma luhn_transposition:
  assumes "even b" "u < b" "v < b" "factor = 1 \<or> factor = 2"
  shows "luhn_mod_n_sum (us @ u # v # vs) factor b mod b
           = luhn_mod_n_sum (us @ v # u # vs) factor b mod b
         \<longleftrightarrow> u = v \<or> {u, v} = {0, b - 1}"
proof -
  define f where "f = flips (length vs) factor"
  define r where "r = luhn_mod_n_sum vs factor b + luhn_mod_n_sum us (flips (Suc (Suc (length vs))) factor) b"
  have fl: "flips n (flip x) = flip (flips n x)" for n x
    by (induction n arbitrary: x) auto
  have "luhn_mod_n_sum (us @ x # y # vs) factor b = r + addend f b y + addend (flip f) b x" for x y
    by (simp add: luhn_mod_n_sum_append [of us "_ # _ # vs"] luhn_mod_n_sum_Cons f_def r_def fl)
  moreover have "f = 1 \<or> f = 2" using assms flips_range by (simp add: f_def)
  ultimately show ?thesis using swap_addends [of b u v f r] assms by simp
qed

section \<open>What people type and what the QR carries\<close>

lemma occurs_in_iff: "occurs_in p s \<longleftrightarrow> (\<exists>a b. s = a @ p @ b)"
proof (induction s)
  case Nil
  then show ?case by simp
next
  case (Cons c s)
  then show ?case by (auto simp: starts_with_iff Cons_eq_append_conv)
qed

lemma strip_separators_idem [simp]: "strip_separators (strip_separators t) = strip_separators t"
  by (simp add: strip_separators_def)

lemma occurs_in_append: "occurs_in p s \<Longrightarrow> occurs_in p (s @ t)"
  unfolding occurs_in_iff by (metis append.assoc)

lemma occurs_in_set: "occurs_in p s \<Longrightarrow> set p \<subseteq> set s"
  by (auto simp: occurs_in_iff)

lemma occurs_in_map: "occurs_in p s \<Longrightarrow> occurs_in (map g p) (map g s)"
  by (fastforce simp: occurs_in_iff)

lemma occurs_in_single: "occurs_in [c] s \<longleftrightarrow> c \<in> set s"
  by (auto simp: occurs_in_iff in_set_conv_decomp)

lemma filter_lstrip_by: "(\<And>c. c \<in> set s \<Longrightarrow> w c \<Longrightarrow> \<not> P c) \<Longrightarrow> filter P (lstrip_by w s) = filter P s"
  by (induction s) (auto simp: lstrip_by_def)

lemma set_lstrip_by: "set (lstrip_by w s) \<subseteq> set s"
  by (auto simp: lstrip_by_def dest: set_dropWhileD)

lemma rstrip_by_rev: "rstrip_by w s = rev (lstrip_by w (rev s))"
  by (simp add: rstrip_by_def lstrip_by_def)

lemma set_strip_by: "set (strip_by w s) \<subseteq> set s"
  using set_lstrip_by [of w "rev (lstrip_by w s)"] set_lstrip_by [of w s]
  by (auto simp: strip_by_def rstrip_by_rev)

lemma filter_strip_by:
  assumes "\<And>c. c \<in> set s \<Longrightarrow> w c \<Longrightarrow> \<not> P c"
  shows "filter P (strip_by w s) = filter P s"
proof -
  have "filter P (rev (lstrip_by w (rev r))) = filter P r" if "set r \<subseteq> set s" for r
  proof -
    have "filter P (lstrip_by w (rev r)) = filter P (rev r)"
      using assms that by (intro filter_lstrip_by) auto
    then show ?thesis by (simp add: rev_filter [symmetric])
  qed
  then show ?thesis
    using assms filter_lstrip_by [of s w P] set_lstrip_by [of w s]
    by (simp add: strip_by_def rstrip_by_rev)
qed

lemma filter_join_with: "\<not> P c \<Longrightarrow> filter P (join_with [c] ps) = filter P (concat ps)"
  by (induction "[c]" ps rule: join_with.induct) auto

text \<open>Text typed on a keyboard: printable ASCII without the marks of a URL.\<close>

definition typed_char :: "nat \<Rightarrow> bool" where
  "typed_char c \<longleftrightarrow> 32 \<le> c \<and> c < 127 \<and> c \<noteq> 35 \<and> c \<noteq> 58"

lemma typed_ascii: "list_all typed_char t \<Longrightarrow> is_ascii t"
  by (erule list.pred_mono_strong) (unfold typed_char_def, linarith)

lemma is_separator_space [simp]: "is_separator 32" "is_separator 45"
  by (simp_all add: is_separator_def is_zs_def zs_ranges_def is_pd_def pd_ranges_def)

lemma normalize_ascii:
  assumes "ascii_laws ud" and "is_ascii t"
  shows "normalize_input ud t = map ascii_upper (strip_separators t)"
proof -
  have "is_ascii (strip_separators t)"
    using assms(2) by (auto simp: strip_separators_def list_all_iff)
  with assms show ?thesis
    by (simp add: normalize_input_def ascii_lawsD map_translate_ascii)
qed

lemma normalize_typed:
  assumes "ascii_laws ud" and "list_all typed_char t"
  shows "normalize_input ud (strip_qr_wrapper t) = map ascii_upper (strip_separators t)"
proof -
  have "set (strip t) \<subseteq> set t" by (simp add: strip_def set_strip_by)
  with assms(2) have typed: "list_all typed_char (strip t)" by (auto simp: list_all_iff)
  then have no: "35 \<notin> set (strip t)" "\<not> occurs_in (cp ''://'') (strip t)"
    using occurs_in_set [of "cp ''://''" "strip t"] by (auto simp: list_all_iff typed_char_def)
  have "strip_separators (strip t) = strip_separators t"
    unfolding strip_separators_def strip_def
  proof (rule filter_strip_by)
    fix c assume "c \<in> set t" and "is_space c"
    then have "32 \<le> c" "c < 127" using assms(2) by (simp_all add: list_all_iff typed_char_def)
    with \<open>is_space c\<close> is_space_ascii [of c] have "c = 32" by linarith
    then show "\<not> \<not> is_separator c" by simp
  qed
  with no normalize_ascii [OF assms(1) typed_ascii [OF typed]] show ?thesis
    by (simp add: strip_qr_wrapper_def)
qed

lemma normalize_url:
  assumes "ascii_laws ud" and "is_ascii u" "35 \<notin> set u" "list_all (\<lambda>c. \<not> is_space c) u"
    and "occurs_in (cp ''://'') u"
    and "list_all typed_char t" "32 \<notin> set t" "47 \<notin> set t"
  shows "normalize_input ud (strip_qr_wrapper (u @ 47 # t)) = map ascii_upper (strip_separators t)"
proof -
  have "strip (u @ 47 # t) = u @ 47 # t"
    unfolding strip_def using assms(4,6,7)
    by (intro strip_by_id) (auto simp: list_all_iff typed_char_def is_space_ascii)
  moreover have "35 \<notin> set (u @ 47 # t)"
    using assms(3,6) by (auto simp: list_all_iff typed_char_def)
  ultimately have "strip_qr_wrapper (u @ 47 # t) = t"
    using assms(5,8) by (simp add: strip_qr_wrapper_def occurs_in_append after_last_append)
  then show ?thesis using normalize_ascii [OF assms(1) typed_ascii [OF assms(6)]] by simp
qed

section \<open>Check characters of a sound format\<close>

lemma index_of_lt: "index_of xs c = Some i \<Longrightarrow> i < length xs \<and> xs ! i = c"
  by (induction xs arbitrary: i) (auto split: if_splits)

lemma index_of_mem: "c \<in> set xs \<Longrightarrow> \<exists>i. index_of xs c = Some i"
  by (induction xs) auto

lemma index_of_nth: "distinct xs \<Longrightarrow> i < length xs \<Longrightarrow> index_of xs (xs ! i) = Some i"
  by (metis index_of_lt index_of_mem nth_eq_iff_index_eq nth_mem)

lemma index_of_inject: "index_of xs c = Some i \<Longrightarrow> index_of xs d = Some i \<Longrightarrow> c = d"
  using index_of_lt by metis

lemma char_values_Nil [simp]: "char_values f [] = Some []"
  by (simp add: char_values_def)

lemma char_values_append:
  "char_values f (s @ t) = (case char_values f s of None \<Rightarrow> None
     | Some us \<Rightarrow> (case char_values f t of None \<Rightarrow> None | Some vs \<Rightarrow> Some (us @ vs)))"
  by (induction s) (auto simp: char_values_def split: option.splits)

lemma char_values_Cons:
  "char_values f (c # t) = (case index_of (alphabet f) c of None \<Rightarrow> None
     | Some v \<Rightarrow> (case char_values f t of None \<Rightarrow> None | Some vs \<Rightarrow> Some (v # vs)))"
  by (auto simp: char_values_def split: option.splits)

lemma char_values_total: "set t \<subseteq> set (alphabet f) \<Longrightarrow> \<exists>vs. char_values f t = Some vs"
  by (induction t) (auto simp: char_values_Cons dest!: index_of_mem)

lemma char_values_lt: "char_values f t = Some vs \<Longrightarrow> length vs = length t \<and> (\<forall>v \<in> set vs. v < base f)"
  by (induction t arbitrary: vs)
     (auto simp: char_values_Cons base_def dest: index_of_lt split: option.splits)

text \<open>
  A format whose check character does its work: it passed \<open>__post_init__\<close>, its alphabet has an
  even number of characters, and none of them is one the parser strips or reads as a URL.
\<close>

definition plain_char :: "nat \<Rightarrow> bool" where
  "plain_char c \<longleftrightarrow> 33 \<le> c \<and> c < 127 \<and> \<not> is_separator c \<and> c \<noteq> 35 \<and> c \<noteq> 47 \<and> c \<noteq> 58"

lemma is_separator_ascii: "c < 128 \<Longrightarrow> is_separator c \<longleftrightarrow> c \<in> {9, 10, 13, 32, 45, 46, 95}"
  by (auto simp: is_separator_def is_zs_def zs_ranges_def is_pd_def pd_ranges_def is_cf_def cf_ranges_def)

lemma plain_char_iff: "plain_char c \<longleftrightarrow> 33 \<le> c \<and> c < 127 \<and> c \<notin> {35, 45, 46, 47, 58, 95}"
  by (auto simp: plain_char_def is_separator_ascii)

locale sound_format =
  fixes f :: CodeFormat
  assumes post_init: "post_init f = None"
    and even_base: "even (base f)"
    and plain: "\<And>c. c \<in> set (alphabet f) \<Longrightarrow> plain_char c"
begin

lemma checks:
  "length (alphabet f) \<ge> 2" "distinct (alphabet f)" "is_ascii (alphabet f)"
  "map ascii_upper (alphabet f) = alphabet f" "1 \<le> body_length f"
  "sum_list (grouping f) = body_length f + 1" "\<forall>g \<in> set (grouping f). 1 \<le> g"
  "List.find (\<lambda>(typed, meant). occurs_in typed (alphabet f) \<or> \<not> occurs_in meant (alphabet f))
     (aliases f) = None"
  "foldr max (map CITY_CHECK_INDEX all_cities) 0 < base f"
  using post_init unfolding post_init_def base_def
  by (auto split: if_splits option.splits simp: list_ex_iff not_less)

lemma city_index_lt: "CITY_CHECK_INDEX city < base f"
proof -
  note city_indexes
  with checks(9) CITY_CHECK_INDEX_bounds [of city] show ?thesis by simp
qed

lemma base_pos: "0 < base f"
  using checks(1) unfolding base_def by linarith

text \<open>The computed character is the one that makes the check succeed, and the only one.\<close>

lemma computed_check_iff:
  assumes "set body \<subseteq> set (alphabet f)" and "c \<in> set (alphabet f)"
  shows "\<exists>v < base f. compute_check_value city body f = Some v
    \<and> check_is_valid city body [c] f = Some (c = alphabet f ! v)"
proof -
  obtain vs where vs: "char_values f body = Some vs" using char_values_total assms by blast
  obtain i where i: "index_of (alphabet f) c = Some i" using index_of_mem assms by blast
  define s where "s = luhn_mod_n_sum (CITY_CHECK_INDEX city # vs) 2 (base f)"
  define v where "v = (base f - s mod base f) mod base f"
  have v: "v < base f" using base_pos by (simp add: v_def)
  have il: "i < base f" "alphabet f ! i = c" using index_of_lt [OF i] by (simp_all add: base_def)
  have "check_is_valid city body [c] f
      = Some (luhn_mod_n_sum ((CITY_CHECK_INDEX city # vs) @ [i]) 1 (base f) mod base f = 0)"
    by (simp add: check_is_valid_def char_values_append char_values_Cons vs i)
  also have "luhn_mod_n_sum ((CITY_CHECK_INDEX city # vs) @ [i]) 1 (base f) = i + s"
    using il by (simp only: luhn_mod_n_sum_snoc) (simp add: flip_def addend_1 s_def)
  also have "(i + s) mod base f = 0 \<longleftrightarrow> i = v"
  proof -
    have "(s + v) mod base f = 0"
      by (simp add: v_def mod_simps)
         (metis add_diff_inverse_nat base_pos mod_add_left_eq mod_less_divisor mod_self not_less_iff_gr_or_eq)
    then show ?thesis using mod_add_cancel [of s i "base f" v] il v by (metis add.commute)
  qed
  also have "i = v \<longleftrightarrow> c = alphabet f ! v"
    using il v checks(2) by (auto simp: nth_eq_iff_index_eq base_def)
  finally show ?thesis
    using v by (auto simp: compute_check_value_def vs s_def v_def)
qed

lemma check_split: "check_is_valid city body check f = check_is_valid city (body @ check) [] f"
  by (simp add: check_is_valid_def)

lemma valid_chars:
  assumes "check_is_valid city t [] f \<noteq> None"
  shows "set t \<subseteq> set (alphabet f)"
proof
  fix c assume "c \<in> set t"
  then obtain a b where "t = a @ c # b" by (auto simp: in_set_conv_decomp)
  with assms obtain i where "index_of (alphabet f) c = Some i"
    by (auto simp: check_is_valid_def char_values_append char_values_Cons split: option.splits)
  then show "c \<in> set (alphabet f)" by (auto dest: index_of_lt)
qed

lemma check_total: "set t \<subseteq> set (alphabet f) \<Longrightarrow> \<exists>b. check_is_valid city t [] f = Some b"
  using char_values_total [of t f] by (auto simp: check_is_valid_def)

text \<open>A code that checks, read as values.\<close>

lemma valid_values:
  assumes "check_is_valid city (s @ t) [] f = Some True"
  obtains us vs where "char_values f s = Some us" "char_values f t = Some vs"
    and "luhn_mod_n_sum ((CITY_CHECK_INDEX city # us) @ vs) 1 (base f) mod base f = 0"
  using assms by (auto simp: check_is_valid_def char_values_append split: option.splits)

text \<open>One wrong character is always noticed.\<close>

lemma substitution_detected:
  assumes "check_is_valid city (s @ c # t) [] f = Some True" and "d \<in> set (alphabet f)" and "d \<noteq> c"
  shows "check_is_valid city (s @ d # t) [] f = Some False"
proof -
  from assms(1) obtain us ws where us: "char_values f s = Some us" and ws: "char_values f (c # t) = Some ws"
    and sum: "luhn_mod_n_sum ((CITY_CHECK_INDEX city # us) @ ws) 1 (base f) mod base f = 0"
    by (rule valid_values)
  from ws obtain i vs where i: "index_of (alphabet f) c = Some i" and vs: "char_values f t = Some vs"
    and "ws = i # vs" by (auto simp: char_values_Cons split: option.splits)
  obtain j where j: "index_of (alphabet f) d = Some j" using index_of_mem assms(2) by blast
  have "i \<noteq> j" using i j assms(3) index_of_inject by blast
  then have "luhn_mod_n_sum ((CITY_CHECK_INDEX city # us) @ i # vs) 1 (base f) mod base f
      \<noteq> luhn_mod_n_sum ((CITY_CHECK_INDEX city # us) @ j # vs) 1 (base f) mod base f"
    using index_of_lt [OF i] index_of_lt [OF j] even_base
    by (intro luhn_substitution) (simp_all add: base_def)
  with sum \<open>ws = i # vs\<close> show ?thesis
    by (simp add: check_is_valid_def char_values_append char_values_Cons us vs j)
qed

text \<open>A wrong city is always noticed.\<close>

lemma city_detected:
  assumes "check_is_valid city t [] f = Some True" and "city' \<noteq> city"
  shows "check_is_valid city' t [] f = Some False"
proof -
  from assms(1) obtain vs where vs: "char_values f t = Some vs"
    and sum: "luhn_mod_n_sum (CITY_CHECK_INDEX city # vs) 1 (base f) mod base f = 0"
    by (auto simp: check_is_valid_def split: option.splits)
  have "luhn_mod_n_sum ([] @ CITY_CHECK_INDEX city # vs) 1 (base f) mod base f
      \<noteq> luhn_mod_n_sum ([] @ CITY_CHECK_INDEX city' # vs) 1 (base f) mod base f"
    using city_index_lt even_base assms(2) by (intro luhn_substitution) auto
  with vs sum show ?thesis by (simp add: check_is_valid_def)
qed

text \<open>
  Two swapped neighbours are noticed, unless they are the first and the last character of the
  alphabet (or equal, which is no error).
\<close>

lemma transposition_check:
  assumes "check_is_valid city (s @ c # d # t) [] f = Some True"
  shows "check_is_valid city (s @ d # c # t) [] f
    = Some (c = d \<or> {c, d} = {alphabet f ! 0, alphabet f ! (base f - 1)})"
proof -
  from assms obtain us ws where us: "char_values f s = Some us" and ws: "char_values f (c # d # t) = Some ws"
    and sum: "luhn_mod_n_sum ((CITY_CHECK_INDEX city # us) @ ws) 1 (base f) mod base f = 0"
    by (rule valid_values)
  from ws obtain i j vs where i: "index_of (alphabet f) c = Some i" and j: "index_of (alphabet f) d = Some j"
    and vs: "char_values f t = Some vs" and w: "ws = i # j # vs"
    by (auto simp: char_values_Cons split: option.splits)
  have lt: "i < base f" "j < base f" "alphabet f ! i = c" "alphabet f ! j = d"
    using index_of_lt [OF i] index_of_lt [OF j] by (simp_all add: base_def)
  have eq: "alphabet f ! k = alphabet f ! m \<longleftrightarrow> k = m" if "k < base f" "m < base f" for k m
    using that checks(2) by (simp add: nth_eq_iff_index_eq base_def)
  have pos: "base f - 1 < base f" "0 < base f" using base_pos by simp_all
  have "check_is_valid city (s @ d # c # t) [] f
      = Some (luhn_mod_n_sum ((CITY_CHECK_INDEX city # us) @ j # i # vs) 1 (base f) mod base f = 0)"
    by (simp add: check_is_valid_def char_values_append char_values_Cons us vs i j)
  also have "luhn_mod_n_sum ((CITY_CHECK_INDEX city # us) @ j # i # vs) 1 (base f) mod base f = 0
      \<longleftrightarrow> i = j \<or> {i, j} = {0, base f - 1}"
    using luhn_transposition [OF even_base lt(1,2), of 1 "CITY_CHECK_INDEX city # us" vs] sum
    unfolding w by (simp only: simp_thms) (metis)
  also have "\<dots> \<longleftrightarrow> c = d \<or> {c, d} = {alphabet f ! 0, alphabet f ! (base f - 1)}"
    using eq [OF lt(1,2)] eq [OF lt(1) pos(2)] eq [OF lt(2) pos(2)] eq [OF lt(1) pos(1)] eq [OF lt(2) pos(1)] lt
    by (simp add: doubleton_eq_iff)
  finally show ?thesis .
qed

lemma alphabet_chars:
  assumes "c \<in> set (alphabet f)"
  shows "plain_char c" and "ascii_upper c = c" and "alias_get f c = [c]"
proof -
  show "plain_char c" using plain assms .
  show "ascii_upper c = c" using checks(4) assms by (auto simp: map_eq_conv [of _ _ id, simplified])
  have "map_of (aliases f) [c] = None"
  proof (rule ccontr)
    assume "map_of (aliases f) [c] \<noteq> None"
    then obtain m where "([c], m) \<in> set (aliases f)" by (auto dest: map_of_SomeD)
    with checks(8) have "\<not> occurs_in [c] (alphabet f)" by (auto simp: find_None_iff)
    with assms show False by (simp add: occurs_in_single)
  qed
  then show "alias_get f c = [c]" by (simp add: alias_get_def)
qed

lemma alias_alphabet: "set t \<subseteq> set (alphabet f) \<Longrightarrow> concat (map (alias_get f) t) = t"
  by (induction t) (auto simp: alphabet_chars(3))

lemma printed_parts:
  assumes "length t = nat (body_length f) + 1"
  shows "concat (chunks (map nat (grouping f)) t) = t"
proof -
  have "sum_list (map nat gs) = nat (sum_list gs)" if "\<forall>g \<in> set gs. 1 \<le> g" for gs :: "int list"
    using that
  proof (induction gs)
    case (Cons g gs)
    have "0 \<le> sum_list gs" using Cons.prems by (intro sum_list_nonneg) auto
    with Cons show ?case by (auto simp: nat_add_distrib)
  qed simp
  with checks(5,6,7) assms show ?thesis by (simp add: concat_chunks nat_add_distrib)
qed

end

lemma city_letters: "c \<in> set (cp (city_value city)) \<Longrightarrow> 65 \<le> c \<and> c \<le> 90 \<and> c \<noteq> 48 \<and> \<not> is_separator c"
  by (cases city) (auto simp: is_separator_ascii)

section \<open>The parser on a registered format\<close>

text \<open>A base URL of the site: ASCII, no space, no fragment, a scheme with something after it.\<close>

definition public_url :: "pystr \<Rightarrow> bool" where
  "public_url u \<longleftrightarrow> list_all (\<lambda>c. 32 < c \<and> c < 127 \<and> c \<noteq> 35) u
     \<and> occurs_in (cp ''://'') (rstrip_by (\<lambda>c. c = 47) u)"

locale registered_format = sound_format +
  fixes reg :: registry
  assumes found: "List.find (\<lambda>g. canonical_length g = canonical_length f) reg = Some f"
begin

text \<open>What the parser makes of any text that normalises to a city and characters of the alphabet.\<close>

lemma parse_normalized:
  assumes "normalize_input ud (strip_qr_wrapper raw) = cp (city_value city) @ t"
    and "set t \<subseteq> set (alphabet f)" and "length t = nat (body_length f) + 1"
  shows "parse_code ud reg raw =
    (if check_is_valid city t [] f = Some True
     then Inr \<lparr>pc_city = city, pc_canonical = cp (city_value city) @ t, pc_format_id = format_id f\<rparr>
     else Inl (Raised MISTYPED))"
proof -
  have "int (length (cp (city_value city) @ t)) = canonical_length f"
    using assms(3) checks(5) by (simp add: canonical_length_def PREFIX_LENGTH_def)
  then have fnd: "List.find (\<lambda>g. canonical_length g = int (length (cp (city_value city) @ t))) reg = Some f"
    using found by simp
  have prefix: "map (\<lambda>c. if c = 48 then 79 else c) (cp (city_value city)) = cp (city_value city)"
    using city_letters [of _ city] by (intro map_idI) auto
  have ascii: "is_ascii (cp (city_value city) @ t)"
    using city_letters [of _ city] assms(2) checks(3) by (fastforce simp: list_all_iff)
  obtain b where "check_is_valid city t [] f = Some b" using check_total assms(2) by blast
  moreover have "\<not> list_ex (\<lambda>c. c \<notin> set (alphabet f)) t" using assms(2) by (auto simp: list_ex_iff)
  ultimately show ?thesis
    using ascii prefix alias_alphabet [OF assms(2)]
      check_split [of city "take (nat (body_length f)) t" "drop (nat (body_length f)) t"]
    unfolding parse_code_def assms(1) Let_def fnd
    by (simp add: PREFIX_LENGTH_def split: bool.splits)
qed

lemma parse_typed:
  assumes "ascii_laws ud" and "list_all typed_char raw"
    and "map ascii_upper (strip_separators raw) = cp (city_value city) @ t"
    and "set t \<subseteq> set (alphabet f)" and "length t = nat (body_length f) + 1"
  shows "parse_code ud reg raw =
    (if check_is_valid city t [] f = Some True
     then Inr \<lparr>pc_city = city, pc_canonical = cp (city_value city) @ t, pc_format_id = format_id f\<rparr>
     else Inl (Raised MISTYPED))"
  using normalize_typed [OF assms(1,2)] assms(3-5) by (intro parse_normalized) simp_all

lemma canonical_typed:
  assumes "set t \<subseteq> set (alphabet f)"
  shows "list_all typed_char (cp (city_value city) @ t)"
    and "map ascii_upper (strip_separators (cp (city_value city) @ t)) = cp (city_value city) @ t"
proof -
  have pl: "plain_char c \<and> ascii_upper c = c" if "c \<in> set t" for c
    using that assms alphabet_chars by blast
  then show "list_all typed_char (cp (city_value city) @ t)"
    using city_letters [of _ city] by (fastforce simp: list_all_iff typed_char_def plain_char_def)
  have "strip_separators (cp (city_value city) @ t) = cp (city_value city) @ t"
    unfolding strip_separators_def using pl city_letters [of _ city]
    by (intro filter_True) (auto simp: plain_char_def)
  moreover have "map ascii_upper (cp (city_value city) @ t) = cp (city_value city) @ t"
    using pl city_letters [of _ city] by (intro map_idI) (fastforce simp: ascii_upper_def)
  ultimately show "map ascii_upper (strip_separators (cp (city_value city) @ t)) = cp (city_value city) @ t"
    by simp
qed

lemmas parse_canonical = parse_typed [OF _ canonical_typed]

lemma printed_typed:
  fixes city :: CityCode
  assumes "set t \<subseteq> set (alphabet f)" and "length t = nat (body_length f) + 1"
  defines "p \<equiv> format_printed (cp (city_value city) @ t) f"
  shows "list_all typed_char p" and "strip_separators p = cp (city_value city) @ t"
    and "32 \<notin> set p" and "47 \<notin> set p"
proof -
  have parts: "concat (cp (city_value city) # chunks (map nat (grouping f)) t) = cp (city_value city) @ t"
    using printed_parts [OF assms(2)] by simp
  have p: "p = join_with [45] (cp (city_value city) # chunks (map nat (grouping f)) t)"
    by (simp add: p_def format_printed_def PREFIX_LENGTH_def)
  have "strip_separators p = strip_separators (cp (city_value city) @ t)"
    unfolding strip_separators_def p parts [symmetric] by (rule filter_join_with) simp
  moreover have "strip_separators (cp (city_value city) @ t) = cp (city_value city) @ t"
    unfolding strip_separators_def using alphabet_chars(1) assms(1) city_letters [of _ city]
    by (intro filter_True) (auto simp: plain_char_def)
  ultimately show "strip_separators p = cp (city_value city) @ t" by simp
  have j: "set (join_with [45] ps) \<subseteq> insert 45 (set (concat ps))" for ps :: "pystr list"
    by (induction "[45::nat]" ps rule: join_with.induct) auto
  have "set p \<subseteq> insert 45 (set (concat (cp (city_value city) # chunks (map nat (grouping f)) t)))"
    unfolding p by (rule j)
  then have "set p \<subseteq> insert 45 (set (cp (city_value city)) \<union> set t)"
    unfolding parts by simp
  then have c: "c = 45 \<or> 65 \<le> c \<and> c \<le> 90 \<or> plain_char c" if "c \<in> set p" for c
    using that city_letters [of c city] alphabet_chars(1) assms(1) by blast
  show "list_all typed_char p" "32 \<notin> set p" "47 \<notin> set p"
    using c by (fastforce simp: list_all_iff typed_char_def plain_char_def)+
qed

lemma generated_code:
  assumes "\<And>i n. 0 < n \<Longrightarrow> randbelow i n < n"
  obtains t where "generate_code randbelow city f = Some (cp (city_value city) @ t)"
    and "set t \<subseteq> set (alphabet f)" and "length t = nat (body_length f) + 1"
    and "check_is_valid city t [] f = Some True"
proof -
  define body where "body = random_body randbelow f"
  have body: "set body \<subseteq> set (alphabet f)"
    using assms base_pos by (auto simp: body_def random_body_def base_def)
  obtain v where v: "v < base f" "compute_check_value city body f = Some v"
    using computed_check_iff [OF body, of "alphabet f ! 0"] base_pos by (auto simp: base_def)
  have mem: "alphabet f ! v \<in> set (alphabet f)" using v by (simp add: base_def)
  show thesis
  proof (rule that [of "body @ [alphabet f ! v]"])
    show "generate_code randbelow city f = Some (cp (city_value city) @ body @ [alphabet f ! v])"
      using v by (simp add: generate_code_def body_def [symmetric])
    show "check_is_valid city (body @ [alphabet f ! v]) [] f = Some True"
      using computed_check_iff [OF body mem, of city] v(2) check_split [of city body "[alphabet f ! v]"]
      by auto
  qed (use body mem in \<open>auto simp: body_def random_body_def\<close>)
qed

lemma lower_printed:
  assumes "ascii_laws ud" and "set t \<subseteq> set (alphabet f)" and "length t = nat (body_length f) + 1"
    and "check_is_valid city t [] f = Some True"
  shows "parse_code ud reg (map ascii_lower (format_printed (cp (city_value city) @ t) f))
    = Inr \<lparr>pc_city = city, pc_canonical = cp (city_value city) @ t, pc_format_id = format_id f\<rparr>"
proof -
  let ?p = "format_printed (cp (city_value city) @ t) f"
  note pt = printed_typed [OF assms(2,3), of city]
  have "typed_char (ascii_lower c)" if "typed_char c" for c
    using that unfolding typed_char_def ascii_lower_def by (cases "65 \<le> c \<and> c \<le> 90") simp_all
  then have "list_all typed_char (map ascii_lower ?p)"
    using pt(1) by (simp add: list_all_iff)
  moreover have "strip_separators (map ascii_lower ?p) = map ascii_lower (strip_separators ?p)"
  proof -
    have "is_separator (ascii_lower c) = is_separator c" if "c \<in> set ?p" for c
    proof -
      from that pt(1) have "c < 127" by (auto simp: list_all_iff typed_char_def)
      then show ?thesis by (auto simp: is_separator_ascii ascii_lower_def)
    qed
    then show ?thesis
      by (auto simp: strip_separators_def filter_map intro!: map_cong filter_cong)
  qed
  moreover have "map ascii_upper (map ascii_lower (cp (city_value city) @ t)) = cp (city_value city) @ t"
    unfolding map_map
  proof (rule map_idI)
    fix c assume "c \<in> set (cp (city_value city) @ t)"
    then consider "c \<in> set (cp (city_value city))" | "c \<in> set (alphabet f)" using assms(2) by auto
    then have "ascii_upper c = c"
      using city_letters [of c city] alphabet_chars(2) by cases (auto simp: ascii_upper_def)
    then show "(ascii_upper \<circ> ascii_lower) c = c"
      by (auto simp: ascii_upper_def ascii_lower_def split: if_splits)
  qed
  ultimately show ?thesis
    using parse_typed [OF assms(1), of "map ascii_lower ?p" city t] assms(2-4) pt(2) by simp
qed

lemma parse_qr_url:
  assumes "ascii_laws ud" and "set t \<subseteq> set (alphabet f)" and "length t = nat (body_length f) + 1"
    and "check_is_valid city t [] f = Some True" and "public_url u"
  shows "parse_code ud reg (qr_url ud u (cp (city_value city) @ t) f)
    = Inr \<lparr>pc_city = city, pc_canonical = cp (city_value city) @ t, pc_format_id = format_id f\<rparr>"
proof -
  let ?p = "format_printed (cp (city_value city) @ t) f"
  let ?r = "rstrip_by (\<lambda>c. c = 47) u"
  let ?u = "map ascii_lower ?r @ [47, 98]"
  note pt = printed_typed [OF assms(2,3), of city]
  have r: "set ?r \<subseteq> set u" using set_lstrip_by [of _ "rev u"] by (auto simp: rstrip_by_rev)
  have asc: "is_ascii ?r" using assms(5) r by (fastforce simp: public_url_def list_all_iff)
  have "35 \<notin> set ?u" "list_all (\<lambda>c. \<not> is_space c) ?u" "is_ascii ?u"
    using assms(5) r asc
    by (fastforce simp: public_url_def list_all_iff ascii_lower_def is_space_ascii split: if_splits)+
  moreover have "occurs_in (map ascii_lower (cp ''://'')) (map ascii_lower ?r)"
    using assms(5) by (intro occurs_in_map) (simp add: public_url_def)
  then have "occurs_in (cp ''://'') ?u" by (intro occurs_in_append) (simp add: ascii_lower_def)
  ultimately have "normalize_input ud (strip_qr_wrapper (?u @ 47 # ?p)) = map ascii_upper (strip_separators ?p)"
    using assms(1) pt by (intro normalize_url)
  moreover have "?u @ 47 # ?p = qr_url ud u (cp (city_value city) @ t) f"
    by (simp add: qr_url_def ascii_lawsD [OF assms(1) asc])
  moreover have "map ascii_upper (strip_separators ?p) = cp (city_value city) @ t"
    using canonical_typed(2) [OF assms(2), of city] pt(2) by (metis strip_separators_idem)
  ultimately have "normalize_input ud (strip_qr_wrapper (qr_url ud u (cp (city_value city) @ t) f))
      = cp (city_value city) @ t" by simp
  from parse_normalized [OF this assms(2,3)] assms(4) show ?thesis by simp
qed

end

lemma plain_crockford: "c \<in> set CROCKFORD_BASE32 \<Longrightarrow> plain_char c"
  by (auto simp: CROCKFORD_BASE32_def plain_char_iff)

interpretation v2_b10: registered_format V2_B10 FORMATS
proof unfold_locales
  show "List.find (\<lambda>g. canonical_length g = canonical_length V2_B10) FORMATS = Some V2_B10"
    by (simp add: FORMATS_eq)
qed (simp_all add: plain_crockford)

interpretation city2_b9: registered_format CITY2_B9 FORMATS
proof unfold_locales
  show "List.find (\<lambda>g. canonical_length g = canonical_length CITY2_B9) FORMATS = Some CITY2_B9"
    by (simp add: FORMATS_eq)
qed (simp_all add: plain_crockford)

lemma FORMATS_registered: "f \<in> set FORMATS \<Longrightarrow> registered_format f FORMATS"
  using v2_b10.registered_format_axioms city2_b9.registered_format_axioms by (auto simp: FORMATS_eq)

text \<open>What the parser accepts is a canonical code of a registered format.\<close>

definition canonical_code :: "registry \<Rightarrow> ParsedCode \<Rightarrow> bool" where
  "canonical_code reg p \<longleftrightarrow> (\<exists>f \<in> set reg. \<exists>t. pc_format_id p = format_id f
     \<and> pc_canonical p = cp (city_value (pc_city p)) @ t \<and> set t \<subseteq> set (alphabet f)
     \<and> int (length (pc_canonical p)) = canonical_length f
     \<and> check_is_valid (pc_city p) t [] f = Some True)"

lemma alias_length_formats: "f \<in> set FORMATS \<Longrightarrow> length (alias_get f c) = 1"
  by (auto simp: FORMATS_eq alias_get_def V2_B10_def CITY2_B9_def CROCKFORD_ALIASES_def)

lemma parse_sound:
  assumes "parse_code ud FORMATS raw = Inr p"
  shows "canonical_code FORMATS p"
proof -
  define t where "t = normalize_input ud (strip_qr_wrapper raw)"
  define pre where "pre = map (\<lambda>c. if c = 48 then 79 else c) (take PREFIX_LENGTH t)"
  obtain f where f: "List.find (\<lambda>f. canonical_length f = int (length t)) FORMATS = Some f"
    using assms by (auto simp: parse_code_def t_def Let_def split: option.splits)
  define tl where "tl = concat (map (alias_get f) (drop PREFIX_LENGTH t))"
  from f have mem: "f \<in> set FORMATS" and len: "canonical_length f = int (length t)"
    by (auto simp: find_Some_iff)
  note a = assms [unfolded parse_code_def Let_def t_def [symmetric] f option.case]
  then have acc: "\<exists>city. CITY_BY_PREFIX pre = Some city \<and> set tl \<subseteq> set (alphabet f)
      \<and> check_is_valid city tl [] f = Some True
      \<and> p = \<lparr>pc_city = city, pc_canonical = pre @ tl, pc_format_id = format_id f\<rparr>"
    by (auto simp: pre_def tl_def list_ex_iff check_is_valid_def simp del: length_concat
      split: if_splits option.splits bool.splits)
  have "length tl = length (drop PREFIX_LENGTH t)"
    unfolding tl_def using alias_length_formats [OF mem] by (induction t) (simp_all add: length_concat comp_def sum_list_triv)
  moreover have "PREFIX_LENGTH \<le> length t"
    using mem len by (auto simp: FORMATS_eq PREFIX_LENGTH_def)
  ultimately have "length (pre @ tl) = length t" by (simp add: pre_def)
  with acc mem len show ?thesis
    by (auto simp: canonical_code_def dest: CITY_BY_PREFIX_Some intro!: bexI [of _ f])
qed

section \<open>Properties\<close>

definition parsed_as :: "CityCode \<Rightarrow> pystr \<Rightarrow> CodeFormat \<Rightarrow> ParsedCode" where
  "parsed_as city t f = \<lparr>pc_city = city, pc_canonical = t, pc_format_id = format_id f\<rparr>"

lemma generated_texts:
  assumes "ascii_laws ud" and "f \<in> set FORMATS" and "\<And>i n. 0 < n \<Longrightarrow> randbelow i n < n" and "public_url u"
  obtains t where "generate_code randbelow city f = Some t" "int (length t) = canonical_length f"
    "parse_code ud FORMATS t = Inr (parsed_as city t f)"
    "parse_code ud FORMATS (format_printed t f) = Inr (parsed_as city t f)"
    "parse_code ud FORMATS (map ascii_lower (format_printed t f)) = Inr (parsed_as city t f)"
    "parse_code ud FORMATS (qr_url ud u t f) = Inr (parsed_as city t f)"
proof -
  note reg = FORMATS_registered [OF assms(2)]
  note sound = registered_format.axioms(1) [OF reg]
  obtain t
    where g: "generate_code randbelow city f = Some (cp (city_value city) @ t)"
      and t: "set t \<subseteq> set (alphabet f)" "length t = nat (body_length f) + 1"
      and ok: "check_is_valid city t [] f = Some True"
    by (rule registered_format.generated_code [OF reg assms(3)])
  have len: "int (length (cp (city_value city) @ t)) = canonical_length f"
    using t(2) sound_format.checks(5) [OF sound] by (simp add: canonical_length_def PREFIX_LENGTH_def)
  note pt = registered_format.printed_typed [OF reg t, of city]
  have up: "map ascii_upper (strip_separators (format_printed (cp (city_value city) @ t) f))
      = cp (city_value city) @ t"
    using registered_format.canonical_typed(2) [OF reg t(1), of city] pt(2)
    by (metis strip_separators_idem)
  show thesis
    using that [OF g] len ok registered_format.parse_canonical [OF reg assms(1) t(1) t(1) t]
      registered_format.parse_typed [OF reg assms(1) pt(1) up t]
      registered_format.lower_printed [OF reg assms(1) t ok]
      registered_format.parse_qr_url [OF reg assms(1) t ok assms(4)]
    by (simp add: parsed_as_def)
qed

text \<open>
  C15: round trip of a printed code. Whatever the random source draws, \<open>generate_code\<close> returns a
  code of the format's length, and the parser reads back exactly that code and its city from the
  canonical text, from the printed grouping, from the printed grouping in lower case, and from the
  URL in the QR of any public site.
\<close>

theorem generated_code_parses:
  assumes "ascii_laws ud" and "f \<in> set FORMATS" and "\<And>i n. 0 < n \<Longrightarrow> randbelow i n < n" and "public_url u"
  shows "\<exists>t. generate_code randbelow city f = Some t \<and> int (length t) = canonical_length f
    \<and> parse_code ud FORMATS t = Inr (parsed_as city t f)
    \<and> parse_code ud FORMATS (format_printed t f) = Inr (parsed_as city t f)
    \<and> parse_code ud FORMATS (map ascii_lower (format_printed t f)) = Inr (parsed_as city t f)
    \<and> parse_code ud FORMATS (qr_url ud u t f) = Inr (parsed_as city t f)"
  by (rule generated_texts [where randbelow = randbelow and city = city, OF assms(1,2) _ assms(4)])
    (use assms(3) in blast)+

theorem generated_code_parses_witness:
  "\<exists>t. generate_code (\<lambda>i n. (7 * i) mod n) TOKYO CITY2_B9 = Some t
    \<and> int (length t) = canonical_length CITY2_B9
    \<and> parse_code ascii_unicode FORMATS t = Inr (parsed_as TOKYO t CITY2_B9)
    \<and> parse_code ascii_unicode FORMATS (format_printed t CITY2_B9) = Inr (parsed_as TOKYO t CITY2_B9)
    \<and> parse_code ascii_unicode FORMATS (map ascii_lower (format_printed t CITY2_B9))
        = Inr (parsed_as TOKYO t CITY2_B9)
    \<and> parse_code ascii_unicode FORMATS (qr_url ascii_unicode (cp ''https://torshx.com/'') t CITY2_B9)
        = Inr (parsed_as TOKYO t CITY2_B9)"
  by (rule generated_code_parses [OF ascii_unicode_laws])
     (simp_all add: FORMATS_eq public_url_def rstrip_by_def starts_with_def)

text \<open>An accepted code, taken apart.\<close>

lemma accepted_code:
  assumes "parse_code ud FORMATS raw = Inr p"
  obtains f t where "f \<in> set FORMATS" "registered_format f FORMATS"
    "p = parsed_as (pc_city p) (cp (city_value (pc_city p)) @ t) f"
    "pc_canonical p = cp (city_value (pc_city p)) @ t"
    "set t \<subseteq> set CROCKFORD_BASE32" "length t = nat (body_length f) + 1"
    "check_is_valid (pc_city p) t [] f = Some True" "alphabet f = CROCKFORD_BASE32"
proof -
  from parse_sound [OF assms] obtain f t where f: "f \<in> set FORMATS" "pc_format_id p = format_id f"
    and t: "pc_canonical p = cp (city_value (pc_city p)) @ t" "set t \<subseteq> set (alphabet f)"
    "int (length (pc_canonical p)) = canonical_length f" "check_is_valid (pc_city p) t [] f = Some True"
    by (auto simp: canonical_code_def)
  have reg: "registered_format f FORMATS" using f(1) by (rule FORMATS_registered)
  have "length t = nat (body_length f) + 1"
    using t(1,3) sound_format.checks(5) [OF registered_format.axioms(1) [OF reg]]
    by (simp add: canonical_length_def PREFIX_LENGTH_def)
  moreover have "alphabet f = CROCKFORD_BASE32" using f(1) by (auto simp: FORMATS_eq)
  ultimately show thesis
    using that [of f t] f t reg by (simp add: parsed_as_def)
qed

text \<open>
  C24: the parser only accepts canonical codes of a registered format whose check character is
  right, whatever the Unicode tables do; it never raises anything but \<open>CodeFormatError\<close>; and a
  code it returned parses to itself.
\<close>

theorem parse_code_sound:
  "(\<forall>e. parse_code ud reg raw \<noteq> Inl (Crash e))
   \<and> (parse_code ud FORMATS raw = Inr p \<longrightarrow> canonical_code FORMATS p
        \<and> (ascii_laws ud \<longrightarrow> parse_code ud FORMATS (pc_canonical p) = Inr p))"
proof (intro conjI allI impI)
  fix e show "parse_code ud reg raw \<noteq> Inl (Crash e)"
  proof
    assume crash: "parse_code ud reg raw = Inl (Crash e)"
    then obtain f city tl n where "\<not> list_ex (\<lambda>c. c \<notin> set (alphabet f)) tl"
      and "check_is_valid city (take n tl) (drop n tl) f = None"
      by (auto simp: parse_code_def Let_def split: option.splits if_splits bool.splits)
    then show False
      using char_values_total [of tl f] by (auto simp: check_is_valid_def list_ex_iff subset_iff)
  qed
next
  assume p: "parse_code ud FORMATS raw = Inr p"
  then show "canonical_code FORMATS p" by (rule parse_sound)
  assume ud: "ascii_laws ud"
  from p show "parse_code ud FORMATS (pc_canonical p) = Inr p"
  proof (rule accepted_code)
    fix f t assume a: "registered_format f FORMATS"
      "p = parsed_as (pc_city p) (cp (city_value (pc_city p)) @ t) f"
      "pc_canonical p = cp (city_value (pc_city p)) @ t"
      "set t \<subseteq> set CROCKFORD_BASE32" "length t = nat (body_length f) + 1"
      "check_is_valid (pc_city p) t [] f = Some True" "alphabet f = CROCKFORD_BASE32"
    show "parse_code ud FORMATS (pc_canonical p) = Inr p"
      using registered_format.parse_canonical [OF a(1) ud, where t = t and city = "pc_city p"] a
      by (metis parsed_as_def)
  qed
qed

text \<open>A code of the parser's test vectors, accepted, and what its typed variants give.\<close>

definition sample_code :: ParsedCode where
  "sample_code = parsed_as TOKYO (cp ''TO07ENW3AHY'') CITY2_B9"

text \<open>
  C23: single errors. Replacing any one character after the prefix of an accepted code by
  another character of the alphabet, or its prefix by that of another city, is reported as
  \<open>MISTYPED\<close>: never accepted, never \<open>MALFORMED\<close>.
\<close>

theorem single_error_detected:
  assumes "ascii_laws ud" and "parse_code ud FORMATS raw = Inr p"
    and "2 \<le> i" "i < length (pc_canonical p)" "d \<in> set CROCKFORD_BASE32" "d \<noteq> pc_canonical p ! i"
    and "other \<noteq> pc_city p"
  shows "parse_code ud FORMATS ((pc_canonical p)[i := d]) = Inl (Raised MISTYPED)
    \<and> parse_code ud FORMATS (cp (city_value other) @ drop 2 (pc_canonical p)) = Inl (Raised MISTYPED)"
proof -
  obtain f t where f: "registered_format f FORMATS" "alphabet f = CROCKFORD_BASE32"
    and p: "pc_canonical p = cp (city_value (pc_city p)) @ t"
    and t: "set t \<subseteq> set (alphabet f)" "length t = nat (body_length f) + 1"
    and ok: "check_is_valid (pc_city p) t [] f = Some True"
    using assms(2) by (rule accepted_code) simp
  note sound = registered_format.axioms(1) [OF f(1)]
  define k where "k = i - 2"
  have k: "k < length t" "(pc_canonical p)[i := d] = cp (city_value (pc_city p)) @ t[k := d]" "t ! k \<noteq> d"
    using assms(3,4,6) by (auto simp: p k_def list_update_append nth_append)
  have "t = take k t @ t ! k # drop (Suc k) t" using k(1) by (rule id_take_nth_drop)
  then have "check_is_valid (pc_city p) (take k t @ d # drop (Suc k) t) [] f = Some False"
    using sound_format.substitution_detected [OF sound, of "pc_city p" "take k t" "t ! k" "drop (Suc k) t" d]
      ok assms(5) f(2) k(3) by simp
  moreover have "take k t @ d # drop (Suc k) t = t[k := d]" using k(1) by (simp add: upd_conv_take_nth_drop)
  moreover have "set (t[k := d]) \<subseteq> set (alphabet f)" using t(1) assms(5) f(2) by (auto dest: set_update_subsetI)
  ultimately have "parse_code ud FORMATS ((pc_canonical p)[i := d]) = Inl (Raised MISTYPED)"
    using registered_format.parse_canonical [OF f(1) assms(1), where t = "t[k := d]" and city = "pc_city p"] k(2) t(2)
    by simp
  moreover have "check_is_valid other t [] f = Some False"
    using sound_format.city_detected [OF sound ok assms(7)] .
  then have "parse_code ud FORMATS (cp (city_value other) @ drop 2 (pc_canonical p)) = Inl (Raised MISTYPED)"
    using registered_format.parse_canonical [OF f(1) assms(1) t(1) t(1) t] p by simp
  ultimately show ?thesis by simp
qed

lemma sample_parses:
  "ascii_laws ud \<Longrightarrow> parse_code ud FORMATS (cp ''TO07ENW3AHY'') = Inr sample_code"
proof -
  assume ud: "ascii_laws ud"
  have "check_is_valid TOKYO (cp ''07ENW3AHY'') [] CITY2_B9 = Some True" by code_simp
  then show ?thesis
    using city2_b9.parse_canonical [OF ud, where city = TOKYO and t = "cp ''07ENW3AHY''"]
    by (simp add: sample_code_def parsed_as_def CROCKFORD_BASE32_def) (simp add: CITY2_B9_def)
qed

theorem parse_code_sound_witness:
  "canonical_code FORMATS sample_code \<and> parse_code ascii_unicode FORMATS (pc_canonical sample_code) = Inr sample_code"
  using parse_code_sound [of ascii_unicode FORMATS "cp ''TO07ENW3AHY''" sample_code] sample_parses [OF ascii_unicode_laws]
    ascii_unicode_laws by blast

theorem single_error_detected_witness:
  "parse_code ascii_unicode FORMATS ((pc_canonical sample_code)[4 := 50]) = Inl (Raised MISTYPED)
   \<and> parse_code ascii_unicode FORMATS (cp (city_value PARIS) @ drop 2 (pc_canonical sample_code))
       = Inl (Raised MISTYPED)"
  by (rule single_error_detected [OF ascii_unicode_laws sample_parses [OF ascii_unicode_laws]])
     (simp_all add: sample_code_def parsed_as_def CROCKFORD_BASE32_def)

text \<open>
  Swapped neighbours. Exchanging two adjacent characters of an accepted code (not the
  prefix) is reported as \<open>MISTYPED\<close>, with the one known exception of the Luhn scheme: the first
  and the last character of the alphabet, \<open>0\<close> and \<open>Z\<close>, whose exchange is accepted.
\<close>

theorem transposition_detected:
  assumes "ascii_laws ud" and "parse_code ud FORMATS raw = Inr p"
    and "pc_canonical p = cp (city_value (pc_city p)) @ a @ c # d # b"
  defines "swapped \<equiv> cp (city_value (pc_city p)) @ a @ d # c # b"
  shows "parse_code ud FORMATS swapped =
    (if c = d \<or> {c, d} = {48, 90}
     then Inr \<lparr>pc_city = pc_city p, pc_canonical = swapped, pc_format_id = pc_format_id p\<rparr>
     else Inl (Raised MISTYPED))"
proof -
  obtain f t where f: "registered_format f FORMATS" "alphabet f = CROCKFORD_BASE32"
    "pc_format_id p = format_id f"
    and p: "pc_canonical p = cp (city_value (pc_city p)) @ t"
    and t: "set t \<subseteq> set (alphabet f)" "length t = nat (body_length f) + 1"
    and ok: "check_is_valid (pc_city p) t [] f = Some True"
    using assms(2) by (rule accepted_code) (simp add: parsed_as_def, metis ParsedCode.select_convs(3))
  have tt: "t = a @ c # d # b" using p assms(3) by simp
  have "alphabet f ! 0 = 48" "alphabet f ! (base f - 1) = 90"
    by (simp_all add: base_def f(2) CROCKFORD_BASE32_def)
  then have "check_is_valid (pc_city p) (a @ d # c # b) [] f = Some (c = d \<or> {c, d} = {48, 90})"
    using sound_format.transposition_check [OF registered_format.axioms(1) [OF f(1)] ok [unfolded tt]]
    by (simp only:)
  moreover have "set (a @ d # c # b) \<subseteq> set (alphabet f)" "length (a @ d # c # b) = nat (body_length f) + 1"
    using t by (auto simp: tt)
  ultimately show ?thesis
    using registered_format.parse_canonical [OF f(1) assms(1), where t = "a @ d # c # b" and city = "pc_city p"]
      f(3) by (simp add: swapped_def)
qed

theorem transposition_detected_witness:
  "parse_code ascii_unicode FORMATS (cp (city_value TOKYO) @ [48] @ 69 # 55 # cp ''NW3AHY'') =
    (if (55::nat) = 69 \<or> {55, 69::nat} = {48, 90}
     then Inr \<lparr>pc_city = TOKYO, pc_canonical = cp (city_value TOKYO) @ [48] @ 69 # 55 # cp ''NW3AHY'',
            pc_format_id = pc_format_id sample_code\<rparr>
     else Inl (Raised MISTYPED))"
  using transposition_detected [OF ascii_unicode_laws sample_parses [OF ascii_unicode_laws],
      of "[48]" 55 69 "cp ''NW3AHY''"]
  by (simp add: sample_code_def parsed_as_def)

definition registry_ok :: "registry \<Rightarrow> bool" where
  "registry_ok reg \<longleftrightarrow> distinct (map format_id reg) \<and> distinct (map canonical_length reg)"

lemma FORMATS_ok: "registry_ok FORMATS"
  by (simp add: registry_ok_def FORMATS_eq) (simp add: V2_B10_def CITY2_B9_def)

lemma find_key: "distinct (map k xs) \<Longrightarrow> x \<in> set xs \<Longrightarrow> List.find (\<lambda>y. k y = k x) xs = Some x"
  using select_one_unique [of k xs x] by (simp add: select_one_def)

lemma find_append: "List.find P (xs @ ys) = (case List.find P xs of None \<Rightarrow> List.find P ys | Some x \<Rightarrow> Some x)"
  by (induction xs) auto

text \<open>
  The registry. From a registry whose ids and lengths are distinct, \<open>register_format\<close> either
  refuses, because the id is taken by another spec or the length by another format, or returns a
  registry that is again of this kind, holds the format under its id, keeps every format it had,
  and parses every text that was accepted before to the same code.
\<close>

theorem register_format_keeps_codes:
  assumes "registry_ok reg"
  shows "case register_format f reg of
      Inl e \<Rightarrow> (\<exists>g \<in> set reg. (format_id g = format_id f \<and> \<not> format_eq g f)
                  \<or> (format_id g \<noteq> format_id f \<and> canonical_length g = canonical_length f))
    | Inr (g, reg') \<Rightarrow> registry_ok reg' \<and> format_eq g f \<and> registered reg' (format_id f) = Some g
        \<and> (\<forall>h \<in> set reg. registered reg' (format_id h) = Some h)
        \<and> (\<forall>raw p. parse_code ud reg raw = Inr p \<longrightarrow> parse_code ud reg' raw = Inr p)"
proof (cases "registered reg (format_id f)")
  case (Some g)
  then have "g \<in> set reg" "format_id g = format_id f" by (auto simp: registered_def find_Some_iff)
  with Some assms show ?thesis
    by (auto simp: register_format_def registered_def registry_ok_def find_key)
next
  case None
  then have new: "format_id h \<noteq> format_id f" if "h \<in> set reg" for h
    using that by (auto simp: registered_def find_None_iff)
  show ?thesis
  proof (cases "List.find (\<lambda>other. canonical_length other = canonical_length f) reg")
    case (Some g)
    then have "g \<in> set reg" "canonical_length g = canonical_length f" by (auto simp: find_Some_iff)
    then show ?thesis using Some None new by (auto simp: register_format_def)
  next
    case none: None
    have ok: "registry_ok (reg @ [f])"
      using assms none new by (fastforce simp: registry_ok_def find_None_iff)
    have same: "parse_code ud (reg @ [f]) raw = Inr p" if "parse_code ud reg raw = Inr p" for raw p
    proof -
      let ?P = "\<lambda>g. canonical_length g = int (length (normalize_input ud (strip_qr_wrapper raw)))"
      from that obtain g where "List.find ?P reg = Some g"
        by (auto simp: parse_code_def Let_def split: option.splits)
      then have "List.find ?P (reg @ [f]) = List.find ?P reg" by (simp add: find_append)
      with that show ?thesis by (simp only: parse_code_def Let_def)
    qed
    have "registered (reg @ [f]) (format_id h) = Some h" if "h \<in> set (reg @ [f])" for h
      using ok that unfolding registry_ok_def registered_def by (blast intro: find_key)
    with ok same None none show ?thesis by (auto simp: register_format_def format_eq_def)
  qed
qed

theorem register_format_keeps_codes_witness:
  "case register_format V2_B10 [CITY2_B9] of
      Inl e \<Rightarrow> (\<exists>g \<in> set [CITY2_B9]. (format_id g = format_id V2_B10 \<and> \<not> format_eq g V2_B10)
                  \<or> (format_id g \<noteq> format_id V2_B10 \<and> canonical_length g = canonical_length V2_B10))
    | Inr (g, reg') \<Rightarrow> registry_ok reg' \<and> format_eq g V2_B10 \<and> registered reg' (format_id V2_B10) = Some g
        \<and> (\<forall>h \<in> set [CITY2_B9]. registered reg' (format_id h) = Some h)
        \<and> (\<forall>raw p. parse_code ascii_unicode [CITY2_B9] raw = Inr p
              \<longrightarrow> parse_code ascii_unicode reg' raw = Inr p)"
  by (rule register_format_keeps_codes) (simp add: registry_ok_def)

end
