(* ===== verification/Redemption.thy ===== *)
theory Redemption
  imports Ledger Code_Checks
begin

text \<open>
  Redeeming a printed code (\<open>app/application/redemption_codes.py\<close>) with the repositories of its
  unit of work: \<open>SqlRedemptionCodes\<close>, \<open>SqlPassports\<close>, \<open>SqlRewardRules\<close>, \<open>count_flavor_codes\<close>, and the
  failure throttle. HMAC-SHA256 is an argument \<open>hmac\<close> of key and message; the time of the clock and
  the identifier \<open>uuid4\<close> draws are arguments of each call.
\<close>

section \<open>Time\<close>

definition start_of_local_day :: "instant \<Rightarrow> zone \<Rightarrow> instant" where
  "start_of_local_day moment z = local_midnight (local_date moment z) z"

text \<open>Python's \<open>round\<close>: the nearest integer, halves to the even one.\<close>

definition round_half_even :: "rat \<Rightarrow> int" where
  "round_half_even x =
     (let f = \<lfloor>x\<rfloor>; r = x - of_int f in
      if r < 1 / 2 then f else if 1 / 2 < r then f + 1 else if even f then f else f + 1)"

text \<open>The next midnight is a day later on the wall clock.\<close>

definition seconds_until_next_local_midnight :: "instant \<Rightarrow> zone \<Rightarrow> int" where
  "seconds_until_next_local_midnight moment z =
     max 0 (round_half_even (of_int (local_midnight (local_date moment z + 1) z - moment) / 1000000))"

section \<open>The failure throttle\<close>

text \<open>\<open>PostgreSQLFailureThrottle\<close> and \<open>NullFailureThrottle\<close>.\<close>

definition record_failure :: "uuid \<Rightarrow> instant \<Rightarrow> database \<Rightarrow> database" where
  "record_failure user_id occurred_at s = s\<lparr>redemption_failures := redemption_failures s
     @ [\<lparr>fa_user_id = user_id, fa_occurred_at = occurred_at\<rparr>]\<rparr>"

definition count_failures_in_window :: "uuid \<Rightarrow> instant \<Rightarrow> database \<Rightarrow> int" where
  "count_failures_in_window user_id window_start s =
     count_where (\<lambda>f. fa_user_id f = user_id \<and> window_start \<le> fa_occurred_at f) (redemption_failures s)"

definition null_record :: "uuid \<Rightarrow> instant \<Rightarrow> database \<Rightarrow> database" where
  "null_record user_id occurred_at s = s"

definition null_count :: "uuid \<Rightarrow> instant \<Rightarrow> database \<Rightarrow> int" where
  "null_count user_id window_start s = 0"

datatype throttle = PostgreSQLFailureThrottle | NullFailureThrottle

fun throttle_record :: "throttle \<Rightarrow> uuid \<Rightarrow> instant \<Rightarrow> database \<Rightarrow> database" where
  "throttle_record PostgreSQLFailureThrottle = record_failure"
| "throttle_record NullFailureThrottle = null_record"

fun throttle_count :: "throttle \<Rightarrow> uuid \<Rightarrow> instant \<Rightarrow> database \<Rightarrow> int" where
  "throttle_count PostgreSQLFailureThrottle = count_failures_in_window"
| "throttle_count NullFailureThrottle = null_count"

section \<open>\<open>SqlRedemptionCodes\<close>\<close>

record ClaimedCode =
  claimed_code_id :: uuid
  claimed_city :: CityCode
  claimed_coins_per_code :: int
  claimed_batch_id :: uuid

record CodeLookup =
  found_code_id :: uuid
  found_city :: CityCode
  found_redeemed_by_user_id :: "uuid option"
  found_batch_active :: bool
  found_batch_id :: "uuid option"

definition batch_of :: "database \<Rightarrow> RedemptionCodeModel \<Rightarrow> CodeBatchModel option" where
  "batch_of s c = select_one (\<lambda>b. rc_batch_id c = Some (cb_id b)) (code_batches s)"

definition in_active_batch :: "database \<Rightarrow> RedemptionCodeModel \<Rightarrow> bool" where
  "in_active_batch s c \<longleftrightarrow>
     (case batch_of s c of None \<Rightarrow> False | Some b \<Rightarrow> cb_status b = ACTIVE)"

definition claimable :: "database \<Rightarrow> string \<Rightarrow> RedemptionCodeModel \<Rightarrow> bool" where
  "claimable s code_hash c \<longleftrightarrow>
     rc_code_hash c = code_hash \<and> rc_redeemed_at c = None \<and> in_active_batch s c"

definition redeemed_row :: "uuid \<Rightarrow> instant \<Rightarrow> RedemptionCodeModel \<Rightarrow> RedemptionCodeModel" where
  "redeemed_row user_id now c = c\<lparr>rc_redeemed_at := Some now, rc_redeemed_by_user_id := Some user_id\<rparr>"

definition claim :: "string \<Rightarrow> uuid \<Rightarrow> instant \<Rightarrow> ('e, ClaimedCode option) dbtx" where
  "claim code_hash user_id now =
     tx_bind (tx_read (\<lambda>s. select_one (claimable s code_hash) (redemption_codes s))) (\<lambda>row.
     tx_bind (tx_read (\<lambda>s. case row of None \<Rightarrow> None | Some c \<Rightarrow> batch_of s c)) (\<lambda>batch.
     case (row, batch) of
       (Some c, Some b) \<Rightarrow>
         tx_bind (tx_write (\<lambda>s. s\<lparr>redemption_codes :=
             update_where (claimable s code_hash) (redeemed_row user_id now) (redemption_codes s)\<rparr>)) (\<lambda>_.
         tx_return (Some \<lparr>claimed_code_id = rc_id c, claimed_city = rc_city c,
           claimed_coins_per_code = cb_coins_per_code b, claimed_batch_id = cb_id b\<rparr>))
     | _ \<Rightarrow> tx_return None))"

definition lookup :: "string \<Rightarrow> ('e, CodeLookup option) dbtx" where
  "lookup code_hash = tx_read (\<lambda>s.
     map_option (\<lambda>c. \<lparr>found_code_id = rc_id c, found_city = rc_city c,
         found_redeemed_by_user_id = rc_redeemed_by_user_id c,
         found_batch_active = in_active_batch s c, found_batch_id = rc_batch_id c\<rparr>)
       (select_one (\<lambda>c. rc_code_hash c = code_hash) (redemption_codes s)))"

definition redeemed_since :: "uuid \<Rightarrow> instant \<Rightarrow> RedemptionCodeModel \<Rightarrow> bool" where
  "redeemed_since user_id since c \<longleftrightarrow> rc_redeemed_by_user_id c = Some user_id
     \<and> (case rc_redeemed_at c of None \<Rightarrow> False | Some t \<Rightarrow> since \<le> t)"

definition count_redeemed_since :: "uuid \<Rightarrow> instant \<Rightarrow> ('e, int) dbtx" where
  "count_redeemed_since user_id since =
     tx_read (\<lambda>s. count_where (redeemed_since user_id since) (redemption_codes s))"

definition list_redeemed :: "database \<Rightarrow> uuid \<Rightarrow> (uuid \<times> instant) list" where
  "list_redeemed s user_id =
     map (\<lambda>c. (rc_id c, the (rc_redeemed_at c)))
       (order_asc (\<lambda>c. the (rc_redeemed_at c))
         (filter (\<lambda>c. rc_redeemed_by_user_id c = Some user_id \<and> rc_redeemed_at c \<noteq> None)
           (redemption_codes s)))"

definition count_flavor_codes :: "database \<Rightarrow> uuid \<Rightarrow> CityCode \<Rightarrow> int" where
  "count_flavor_codes s user_id flavor =
     count_where (\<lambda>c. rc_redeemed_by_user_id c = Some user_id \<and> rc_city c = flavor) (redemption_codes s)"

section \<open>\<open>SqlPassports\<close> and \<open>SqlRewardRules\<close>\<close>

definition progress_of :: "database \<Rightarrow> uuid \<Rightarrow> Campaign \<Rightarrow> PassportProgressModel option" where
  "progress_of s user_id campaign =
     select_one (\<lambda>p. pp_user_id p = user_id \<and> pp_campaign p = campaign) (passport_progress s)"

text \<open>\<open>INSERT ... ON CONFLICT (user_id, campaign) DO UPDATE ... RETURNING\<close>: the points afterwards.\<close>

definition add_entries :: "uuid \<Rightarrow> uuid \<Rightarrow> Campaign \<Rightarrow> int \<Rightarrow> instant \<Rightarrow> ('e, int) dbtx" where
  "add_entries new_id user_id campaign amount now =
     tx_bind (tx_read (\<lambda>s. progress_of s user_id campaign)) (\<lambda>p.
     case p of
       None \<Rightarrow>
         tx_bind (tx_write (\<lambda>s. s\<lparr>passport_progress := passport_progress s
             @ [\<lparr>pp_id = new_id, pp_user_id = user_id, pp_campaign = campaign, pp_points = amount,
                 pp_created_at = now, pp_updated_at = now\<rparr>]\<rparr>)) (\<lambda>_.
         tx_return amount)
     | Some p \<Rightarrow>
         tx_bind (tx_write (\<lambda>s. s\<lparr>passport_progress :=
             update_where (\<lambda>x. pp_user_id x = user_id \<and> pp_campaign x = campaign)
               (\<lambda>x. x\<lparr>pp_points := pp_points x + amount, pp_updated_at := now\<rparr>) (passport_progress s)\<rparr>)) (\<lambda>_.
         tx_return (pp_points p + amount)))"

definition get_rule :: "string \<Rightarrow> ('e, RewardRuleModel option) dbtx" where
  "get_rule key = tx_read (\<lambda>s. select_one (\<lambda>r. rr_key r = key) (reward_rules s))"

section \<open>The service\<close>

definition FIRST_CODE_BONUS_KEY :: string where
  "FIRST_CODE_BONUS_KEY = ''first_code''"

definition redemption_idempotency_key :: "uuid \<Rightarrow> string" where
  "redemption_idempotency_key code_id = ledger_reason_value CODE_REDEMPTION @ '':'' @ uuid_str code_id"

definition first_code_bonus_idempotency_key :: "uuid \<Rightarrow> string" where
  "first_code_bonus_idempotency_key user_id = FIRST_CODE_BONUS_KEY @ '':'' @ uuid_str user_id"

text \<open>\<open>RedemptionErrorCode\<close> with the \<open>retry_after\<close> that accompanies it.\<close>

datatype RedemptionError =
    REDEMPTION_NOT_CONFIGURED | CODE_MALFORMED | CODE_MISTYPED | CODE_INVALID | CODE_ALREADY_REDEEMED
  | REDEMPTION_DAILY_LIMIT int | CODE_ATTEMPTS_LIMITED int

record RedemptionResult =
  res_city :: CityCode
  res_entries_added :: int
  res_city_entries :: int
  res_coins_awarded :: int
  res_coin_balance :: int
  res_replayed :: bool
  res_bonus_awarded :: int
  res_flavor_unlocked :: "CityCode option"

record redemption_settings =
  rs_pepper :: "pystr option"
  rs_daily_limit :: int
  rs_campaign_zone :: zone
  rs_throttle :: "throttle option"
  rs_max_attempts :: int
  rs_window_seconds :: int
  rs_first_code_bonus_coins :: int

type_synonym hmac_hex = "pystr \<Rightarrow> pystr \<Rightarrow> string"

definition hash_redemption_code :: "hmac_hex \<Rightarrow> pystr \<Rightarrow> pystr \<Rightarrow> string" where
  "hash_redemption_code hmac code pepper = hmac pepper code"

definition pepper_fingerprint :: "hmac_hex \<Rightarrow> pystr \<Rightarrow> string" where
  "pepper_fingerprint hmac pepper = hmac pepper (cp ''pepper-fingerprint:v1'')"

definition UNLOCK_THRESHOLD :: int where
  "UNLOCK_THRESHOLD = 5"

definition is_unlocked :: "int \<Rightarrow> bool" where
  "is_unlocked flavor_codes \<longleftrightarrow> UNLOCK_THRESHOLD \<le> flavor_codes"

definition unlocks_now :: "int \<Rightarrow> bool" where
  "unlocks_now flavor_codes_after \<longleftrightarrow> flavor_codes_after = UNLOCK_THRESHOLD"

definition award_first_code_bonus ::
  "redemption_settings \<Rightarrow> uuid \<Rightarrow> int \<Rightarrow> instant \<Rightarrow> ('e, int \<times> int) dbtx" where
  "award_first_code_bonus cfg user_id balance now =
     tx_bind (get_rule FIRST_CODE_BONUS_KEY) (\<lambda>rule.
     let amount = (case rule of Some r \<Rightarrow> rr_amount r | None \<Rightarrow> rs_first_code_bonus_coins cfg);
         active = (case rule of Some r \<Rightarrow> rr_active r | None \<Rightarrow> True) in
     if \<not> active \<or> amount \<le> 0 then tx_return (balance, 0)
     else
       tx_bind (amount_for_key (first_code_bonus_idempotency_key user_id)) (\<lambda>paid.
       case paid of
         Some _ \<Rightarrow> tx_return (balance, 0)
       | None \<Rightarrow>
           tx_bind (ledger_record \<lparr>ne_user_id = user_id, ne_amount = amount, ne_reason = FIRST_CODE_BONUS,
               ne_idempotency_key = first_code_bonus_idempotency_key user_id, ne_created_at = now,
               ne_source_id = None, ne_actor_id = None, ne_note = None\<rparr>) (\<lambda>b.
           tx_return (b, amount))))"

definition apply_claim ::
  "redemption_settings \<Rightarrow> uuid \<Rightarrow> ClaimedCode \<Rightarrow> uuid \<Rightarrow> int \<Rightarrow> instant \<Rightarrow> (RedemptionError, RedemptionResult) dbtx" where
  "apply_claim cfg new_id claimed user_id balance now =
     tx_bind (count_redeemed_since user_id (start_of_local_day now (rs_campaign_zone cfg))) (\<lambda>today.
     if rs_daily_limit cfg < today
     then tx_raise (REDEMPTION_DAILY_LIMIT (seconds_until_next_local_midnight now (rs_campaign_zone cfg)))
     else
       tx_bind (add_entries new_id user_id (CAMPAIGN_BY_CITY (claimed_city claimed)) ENTRIES_PER_CODE now) (\<lambda>points.
       tx_bind (if 0 < claimed_coins_per_code claimed
           then ledger_record \<lparr>ne_user_id = user_id, ne_amount = claimed_coins_per_code claimed,
             ne_reason = CODE_REDEMPTION,
             ne_idempotency_key = redemption_idempotency_key (claimed_code_id claimed), ne_created_at = now,
             ne_source_id = Some (uuid_str (claimed_code_id claimed)), ne_actor_id = None, ne_note = None\<rparr>
           else tx_return balance) (\<lambda>balance.
       tx_bind (award_first_code_bonus cfg user_id balance now) (\<lambda>(balance, bonus).
       tx_bind (tx_read (\<lambda>s. count_flavor_codes s user_id (claimed_city claimed))) (\<lambda>flavor_codes.
       tx_return \<lparr>res_city = claimed_city claimed, res_entries_added = ENTRIES_PER_CODE,
         res_city_entries = points, res_coins_awarded = claimed_coins_per_code claimed,
         res_coin_balance = balance, res_replayed = False, res_bonus_awarded = bonus,
         res_flavor_unlocked = (if unlocks_now flavor_codes then Some (claimed_city claimed) else None)\<rparr>)))))"

definition resolve_unclaimed ::
  "string \<Rightarrow> uuid \<Rightarrow> int \<Rightarrow> (RedemptionError, RedemptionResult) dbtx" where
  "resolve_unclaimed code_hash user_id balance =
     tx_bind (lookup code_hash) (\<lambda>found.
     case found of
       None \<Rightarrow> tx_raise CODE_INVALID
     | Some found \<Rightarrow>
         (case found_redeemed_by_user_id found of
            None \<Rightarrow> tx_raise CODE_INVALID
          | Some redeemer \<Rightarrow>
              if redeemer \<noteq> user_id then tx_raise CODE_ALREADY_REDEEMED
              else
                tx_bind (tx_read (\<lambda>s. progress_of s user_id (CAMPAIGN_BY_CITY (found_city found)))) (\<lambda>progress.
                tx_bind (amount_for_key (redemption_idempotency_key (found_code_id found))) (\<lambda>coins.
                tx_return \<lparr>res_city = found_city found, res_entries_added = ENTRIES_PER_CODE,
                  res_city_entries = (case progress of None \<Rightarrow> 0 | Some p \<Rightarrow> pp_points p),
                  res_coins_awarded = (case coins of None \<Rightarrow> 0 | Some c \<Rightarrow> c),
                  res_coin_balance = balance, res_replayed = True, res_bonus_awarded = 0,
                  res_flavor_unlocked = None\<rparr>))))"

definition redeem_transaction ::
  "redemption_settings \<Rightarrow> uuid \<Rightarrow> string \<Rightarrow> uuid \<Rightarrow> instant
     \<Rightarrow> (RedemptionError, (RedemptionError, RedemptionResult) exit) dbtx" where
  "redeem_transaction cfg new_id code_hash user_id now =
     tx_bind (lock_wallet user_id now) (\<lambda>balance.
     tx_bind (claim code_hash user_id now) (\<lambda>claimed.
     case claimed of
       None \<Rightarrow> tx_bind (resolve_unclaimed code_hash user_id balance) leave
     | Some c \<Rightarrow> tx_bind (apply_claim cfg new_id c user_id balance now) commit))"

text \<open>The call made with a parsed code at the time of the clock, after the throttle.\<close>

definition redeem_parsed ::
  "redemption_settings \<Rightarrow> uuid \<Rightarrow> string \<Rightarrow> uuid \<Rightarrow> instant \<Rightarrow> database
     \<Rightarrow> (RedemptionError raised + RedemptionResult) \<times> database" where
  "redeem_parsed cfg new_id code_hash user_id now s =
     (let (r, s') = unit_of_work (redeem_transaction cfg new_id code_hash user_id now) s in
      case (r, rs_throttle cfg) of
        (Inl (Raised CODE_INVALID), Some th) \<Rightarrow> (r, throttle_record th user_id now s')
      | _ \<Rightarrow> (r, s'))"

definition redeem ::
  "unicode \<Rightarrow> hmac_hex \<Rightarrow> registry \<Rightarrow> redemption_settings \<Rightarrow> uuid \<Rightarrow> uuid \<Rightarrow> pystr \<Rightarrow> instant \<Rightarrow> database
     \<Rightarrow> (RedemptionError raised + RedemptionResult) \<times> database" where
  "redeem ud hmac reg cfg new_id user_id raw_code now s =
     (case rs_pepper cfg of
        None \<Rightarrow> (Inl (Raised REDEMPTION_NOT_CONFIGURED), s)
      | Some pepper \<Rightarrow>
          (case parse_code ud reg raw_code of
             Inl (Crash e) \<Rightarrow> (Inl (Crash e), s)
           | Inl (Raised MISTYPED) \<Rightarrow> (Inl (Raised CODE_MISTYPED), s)
           | Inl (Raised MALFORMED) \<Rightarrow> (Inl (Raised CODE_MALFORMED), s)
           | Inr parsed \<Rightarrow>
               (case rs_throttle cfg of
                  Some th \<Rightarrow>
                    if rs_max_attempts cfg \<le> throttle_count th user_id (now - seconds (rs_window_seconds cfg)) s
                    then (Inl (Raised (CODE_ATTEMPTS_LIMITED (rs_window_seconds cfg))), s)
                    else redeem_parsed cfg new_id (hash_redemption_code hmac (pc_canonical parsed) pepper)
                           user_id now s
                | None \<Rightarrow> redeem_parsed cfg new_id (hash_redemption_code hmac (pc_canonical parsed) pepper)
                            user_id now s)))"

section \<open>Consistent codes and passports\<close>

definition points_of :: "database \<Rightarrow> uuid \<Rightarrow> Campaign \<Rightarrow> int" where
  "points_of s user_id campaign = (case progress_of s user_id campaign of None \<Rightarrow> 0 | Some p \<Rightarrow> pp_points p)"

definition codes_ok :: "database \<Rightarrow> bool" where
  "codes_ok s \<longleftrightarrow>
     distinct (map cb_id (code_batches s)) \<and> (\<forall>b \<in> set (code_batches s). 0 \<le> cb_coins_per_code b)
     \<and> distinct (map rc_id (redemption_codes s))
     \<and> distinct (map rc_code_hash (redemption_codes s))
     \<and> distinct (map (\<lambda>p. (pp_user_id p, pp_campaign p)) (passport_progress s))
     \<and> (\<forall>c \<in> set (redemption_codes s). rc_redeemed_at c = None \<longrightarrow> rc_redeemed_by_user_id c = None)"

text \<open>Each redeemed code is one entry in its city's draw, and there are no others.\<close>

definition entries_ok :: "database \<Rightarrow> bool" where
  "entries_ok s \<longleftrightarrow> (\<forall>u city. points_of s u (CAMPAIGN_BY_CITY city) = count_flavor_codes s u city * ENTRIES_PER_CODE)"

text \<open>A code nobody redeemed has not been paid.\<close>

definition unpaid_ok :: "database \<Rightarrow> bool" where
  "unpaid_ok s \<longleftrightarrow> (\<forall>c \<in> set (redemption_codes s). rc_redeemed_at c = None
     \<longrightarrow> recorded_amount s (redemption_idempotency_key (rc_id c)) = None)"

lemma redemption_key_inject [simp]: "redemption_idempotency_key a = redemption_idempotency_key b \<longleftrightarrow> a = b"
  by (simp add: redemption_idempotency_key_def)

lemma redemption_key_not_bonus [simp]:
  "redemption_idempotency_key a \<noteq> first_code_bonus_idempotency_key b"
  "first_code_bonus_idempotency_key b \<noteq> redemption_idempotency_key a"
  by (simp_all add: redemption_idempotency_key_def first_code_bonus_idempotency_key_def FIRST_CODE_BONUS_KEY_def)

section \<open>The steps\<close>

lemma claim_Inr:
  assumes "codes_ok s" and "claim h u now s = Inr (r, t)"
  shows "(r = None \<and> t = s \<and> (\<forall>c \<in> set (redemption_codes s). \<not> claimable s h c))
    \<or> (\<exists>c b. c \<in> set (redemption_codes s) \<and> claimable s h c \<and> b \<in> set (code_batches s)
        \<and> rc_batch_id c = Some (cb_id b) \<and> cb_status b = ACTIVE
        \<and> r = Some \<lparr>claimed_code_id = rc_id c, claimed_city = rc_city c,
             claimed_coins_per_code = cb_coins_per_code b, claimed_batch_id = cb_id b\<rparr>
        \<and> t = s\<lparr>redemption_codes := update_where (\<lambda>x. rc_id x = rc_id c) (redeemed_row u now) (redemption_codes s)\<rparr>)"
proof (cases "select_one (claimable s h) (redemption_codes s)")
  case None
  then have "r = None \<and> t = s" using assms(2) by (simp add: claim_def)
  moreover have "\<forall>c \<in> set (redemption_codes s). \<not> claimable s h c"
    using None by (simp add: select_one_None_iff)
  ultimately show ?thesis by blast
next
  case (Some c)
  then have c: "c \<in> set (redemption_codes s)" "claimable s h c" by (auto dest: select_one_Some)
  then obtain b where b: "batch_of s c = Some b" "cb_status b = ACTIVE"
    by (auto simp: claimable_def in_active_batch_def split: option.splits)
  then have b': "b \<in> set (code_batches s)" "rc_batch_id c = Some (cb_id b)"
    by (auto simp: batch_of_def dest: select_one_Some)
  have "claimable s h x = (rc_id x = rc_id c)" if "x \<in> set (redemption_codes s)" for x
    using that c assms(1) by (auto simp: codes_ok_def claimable_def dest: distinct_key_eq)
  then have "update_where (claimable s h) (redeemed_row u now) (redemption_codes s)
      = update_where (\<lambda>x. rc_id x = rc_id c) (redeemed_row u now) (redemption_codes s)"
    by (rule update_where_cong)
  with Some b b' c assms(2) show ?thesis
    by (auto simp: claim_def tx_bind_Inr_iff)
qed

lemma claimed_flavor_codes:
  assumes "codes_ok s" and "c \<in> set (redemption_codes s)" "rc_redeemed_at c = None"
    and "t = s\<lparr>redemption_codes := update_where (\<lambda>x. rc_id x = rc_id c) (redeemed_row u now) (redemption_codes s)\<rparr>"
  shows "count_flavor_codes t u' city = count_flavor_codes s u' city + (if u' = u \<and> city = rc_city c then 1 else 0)"
  using assms count_where_update_key [of rc_id "redemption_codes s" c]
  by (auto simp: count_flavor_codes_def codes_ok_def redeemed_row_def)

lemma add_entries_Inr:
  assumes "distinct (map (\<lambda>p. (pp_user_id p, pp_campaign p)) (passport_progress s))"
    and "add_entries i u camp n now s = Inr (points, t)"
  shows "t = s\<lparr>passport_progress := passport_progress t\<rparr>
    \<and> distinct (map (\<lambda>p. (pp_user_id p, pp_campaign p)) (passport_progress t))
    \<and> points = points_of s u camp + n
    \<and> (\<forall>u' camp'. points_of t u' camp' = points_of s u' camp' + (if u' = u \<and> camp' = camp then n else 0))"
proof (cases "progress_of s u camp")
  case None
  then have "\<forall>p \<in> set (passport_progress s). pp_user_id p = u \<longrightarrow> pp_campaign p \<noteq> camp"
    by (auto simp: progress_of_def select_one_None_iff)
  with None assms show ?thesis
    by (auto simp: add_entries_def tx_bind_Inr_iff points_of_def progress_of_def select_one_append image_iff
      split: option.splits)
next
  case (Some p)
  let ?f = "\<lambda>x. x\<lparr>pp_points := pp_points x + n, pp_updated_at := now\<rparr>"
  let ?P = "\<lambda>x. pp_user_id x = u \<and> pp_campaign x = camp"
  have t: "t = s\<lparr>passport_progress := update_where ?P ?f (passport_progress s)\<rparr>" "points = pp_points p + n"
    using assms(2) Some by (auto simp: add_entries_def tx_bind_Inr_iff)
  have "map (\<lambda>p. (pp_user_id p, pp_campaign p)) (update_where ?P ?f (passport_progress s))
      = map (\<lambda>p. (pp_user_id p, pp_campaign p)) (passport_progress s)"
    by (rule map_update_where_same) simp
  moreover have "progress_of t u' camp' = map_option (\<lambda>r. if ?P r then ?f r else r) (progress_of s u' camp')" for u' camp'
    unfolding t progress_of_def by simp (rule select_one_update_same, simp)
  then have "points_of t u' camp' = points_of s u' camp' + (if u' = u \<and> camp' = camp then n else 0)" for u' camp'
    using Some by (auto simp: points_of_def progress_of_def split: option.splits dest: select_one_Some)
  ultimately show ?thesis using assms(1) t Some by (auto simp: points_of_def)
qed

definition first_code_bonus_due :: "redemption_settings \<Rightarrow> database \<Rightarrow> uuid \<Rightarrow> int" where
  "first_code_bonus_due cfg s u =
     (let rule = select_one (\<lambda>r. rr_key r = FIRST_CODE_BONUS_KEY) (reward_rules s);
          amount = (case rule of Some r \<Rightarrow> rr_amount r | None \<Rightarrow> rs_first_code_bonus_coins cfg);
          active = (case rule of Some r \<Rightarrow> rr_active r | None \<Rightarrow> True) in
      if active \<and> 0 < amount \<and> recorded_amount s (first_code_bonus_idempotency_key u) = None
      then amount else 0)"

lemma award_bonus_cases:
  "award_first_code_bonus cfg u b now s =
     (if first_code_bonus_due cfg s u = 0 then Inr ((b, 0), s)
      else tx_bind (ledger_record \<lparr>ne_user_id = u, ne_amount = first_code_bonus_due cfg s u,
             ne_reason = FIRST_CODE_BONUS, ne_idempotency_key = first_code_bonus_idempotency_key u,
             ne_created_at = now, ne_source_id = None, ne_actor_id = None, ne_note = None\<rparr>)
           (\<lambda>b. tx_return (b, first_code_bonus_due cfg s u)) s)"
  by (auto simp: award_first_code_bonus_def first_code_bonus_due_def get_rule_def amount_for_key_def
    tx_return_def Let_def split: option.splits)

lemma bonus_due_nonneg [simp]: "0 \<le> first_code_bonus_due cfg s u"
  by (simp add: first_code_bonus_due_def Let_def)

lemma bonus_due_unpaid:
  "first_code_bonus_due cfg s u \<noteq> 0 \<Longrightarrow> recorded_amount s (first_code_bonus_idempotency_key u) = None"
  by (simp add: first_code_bonus_due_def Let_def split: if_splits)

text \<open>Paying \<open>n\<close> coins under \<open>key\<close>, if there is anything to pay.\<close>

definition paid_under :: "uuid \<Rightarrow> string \<Rightarrow> int \<Rightarrow> database \<Rightarrow> database \<Rightarrow> bool" where
  "paid_under u key n s t \<longleftrightarrow> coins_only s t \<and> ledger_ok t
     \<and> (\<forall>v. acct_balance (account_of t) v = acct_balance (account_of s) v + (if v = u then n else 0))
     \<and> (\<forall>k. recorded_amount t k = (if k = key \<and> n \<noteq> 0 then Some n else recorded_amount s k))"

lemma paid_under_none: "ledger_ok s \<Longrightarrow> paid_under u key 0 s s"
  by (simp add: paid_under_def)

lemma paid_under_record:
  assumes "ledger_ok s" and "ledger_record e s = Inr (b, t)"
  shows "paid_under (ne_user_id e) (ne_idempotency_key e) (ne_amount e) s t
    \<and> b = acct_balance (account_of s) (ne_user_id e) + ne_amount e
    \<and> recorded_amount s (ne_idempotency_key e) = None"
proof -
  note law = sql_ledger.record_law [OF assms]
  have "ne_amount e \<noteq> 0" using assms(2) by (simp add: ledger_record_Inr_iff)
  have t: "acct_balance (account_of t) = (acct_balance (account_of s))(ne_user_id e :=
      acct_balance (account_of s) (ne_user_id e) + ne_amount e)"
    "recorded_amount t = (recorded_amount s)(ne_idempotency_key e \<mapsto> ne_amount e)"
    "recorded_amount s (ne_idempotency_key e) = None"
    using law by (simp_all add: post_entry_def) (simp_all add: account_of_def)
  show ?thesis
    unfolding paid_under_def t(1,2)
    using law ledger_record_frame [OF assms(2)] t(3) \<open>ne_amount e \<noteq> 0\<close> sql_ledger.record_balance [OF assms] by simp
qed

lemma award_bonus_Inr:
  assumes "ledger_ok s" "b = acct_balance (account_of s) u"
    and "(award_first_code_bonus cfg u b now s :: 'e raised + (int \<times> int) \<times> database) = Inr ((b', bonus), t)"
  shows "bonus = first_code_bonus_due cfg s u
    \<and> paid_under u (first_code_bonus_idempotency_key u) bonus s t \<and> b' = b + bonus"
proof (cases "first_code_bonus_due cfg s u = 0")
  case True
  with assms show ?thesis by (auto simp: award_bonus_cases paid_under_none)
next
  case False
  then have bonus: "bonus = first_code_bonus_due cfg s u"
    and rec: "ledger_record \<lparr>ne_user_id = u, ne_amount = bonus,
      ne_reason = FIRST_CODE_BONUS, ne_idempotency_key = first_code_bonus_idempotency_key u,
      ne_created_at = now, ne_source_id = None, ne_actor_id = None, ne_note = None\<rparr> s
        = (Inr (b', t) :: 'e raised + int \<times> database)"
    using assms(3) by (auto simp: award_bonus_cases tx_bind_Inr_iff)
  from paid_under_record [OF assms(1) rec] bonus assms(2) show ?thesis by simp
qed

lemma bonus_due_frame:
  "reward_rules t = reward_rules s
     \<Longrightarrow> recorded_amount t (first_code_bonus_idempotency_key u) = recorded_amount s (first_code_bonus_idempotency_key u)
     \<Longrightarrow> first_code_bonus_due cfg t u = first_code_bonus_due cfg s u"
  by (simp add: first_code_bonus_due_def)

section \<open>What a redemption does\<close>

definition shop_ok :: "database \<Rightarrow> bool" where
  "shop_ok s \<longleftrightarrow> ledger_ok s \<and> codes_ok s \<and> entries_ok s \<and> unpaid_ok s"

text \<open>The abstract effect of redeeming the code \<open>c\<close> of the batch \<open>b\<close>.\<close>

definition credited ::
  "redemption_settings \<Rightarrow> uuid \<Rightarrow> instant \<Rightarrow> database \<Rightarrow> RedemptionCodeModel \<Rightarrow> CodeBatchModel
     \<Rightarrow> RedemptionResult \<Rightarrow> database \<Rightarrow> bool" where
  "credited cfg u now s c b res t \<longleftrightarrow>
     (let coins = cb_coins_per_code b; bonus = first_code_bonus_due cfg s u; city = rc_city c in
        redemption_codes t = update_where (\<lambda>x. rc_id x = rc_id c) (redeemed_row u now) (redemption_codes s)
      \<and> (\<forall>v k. points_of t v k = points_of s v k + (if v = u \<and> k = CAMPAIGN_BY_CITY city then ENTRIES_PER_CODE else 0))
      \<and> (\<forall>v. acct_balance (account_of t) v
            = acct_balance (account_of s) v + (if v = u then coins + bonus else 0))
      \<and> (\<forall>k. recorded_amount t k =
           (if k = redemption_idempotency_key (rc_id c) \<and> coins \<noteq> 0 then Some coins
            else if k = first_code_bonus_idempotency_key u \<and> bonus \<noteq> 0 then Some bonus
            else recorded_amount s k))
      \<and> res = \<lparr>res_city = city, res_entries_added = ENTRIES_PER_CODE,
          res_city_entries = points_of t u (CAMPAIGN_BY_CITY city), res_coins_awarded = coins,
          res_coin_balance = acct_balance (account_of t) u, res_replayed = False, res_bonus_awarded = bonus,
          res_flavor_unlocked = (if count_flavor_codes t u city = UNLOCK_THRESHOLD then Some city else None)\<rparr>)"

lemma pay_code_Inr:
  assumes "ledger_ok s" "b = acct_balance (account_of s) (ne_user_id e)" "0 \<le> ne_amount e"
    and "(if 0 < ne_amount e then ledger_record e else tx_return b) s = (Inr (b', t) :: 'e raised + int \<times> database)"
  shows "paid_under (ne_user_id e) (ne_idempotency_key e) (ne_amount e) s t \<and> b' = b + ne_amount e"
proof (cases "0 < ne_amount e")
  case True
  with assms have "ledger_record e s = (Inr (b', t) :: 'e raised + int \<times> database)" by simp
  from paid_under_record [OF assms(1) this] assms(2) show ?thesis by simp
next
  case False
  with assms show ?thesis by (auto simp: paid_under_none)
qed

lemma codes_ok_redeemed:
  assumes "codes_ok s" and "code_batches t = code_batches s"
    and "redemption_codes t = update_where (\<lambda>x. rc_id x = rc_id c) (redeemed_row u now) (redemption_codes s)"
    and "distinct (map (\<lambda>p. (pp_user_id p, pp_campaign p)) (passport_progress t))"
  shows "codes_ok t"
proof -
  have "map rc_id (redemption_codes t) = map rc_id (redemption_codes s)"
    "map rc_code_hash (redemption_codes t) = map rc_code_hash (redemption_codes s)"
    unfolding assms(3) by (rule map_update_where_same; simp add: redeemed_row_def)+
  with assms show ?thesis by (auto simp: codes_ok_def set_update_where redeemed_row_def)
qed

lemma CAMPAIGN_inject: "CAMPAIGN_BY_CITY a = CAMPAIGN_BY_CITY b \<longleftrightarrow> a = b"
  by (cases a; cases b; simp)

lemma apply_claim_steps:
  assumes "apply_claim cfg i cl u balance now s = Inr (res, t)"
  obtains s2 points s3 b3 b4 bonus where
    "count_where (redeemed_since u (start_of_local_day now (rs_campaign_zone cfg))) (redemption_codes s)
      \<le> rs_daily_limit cfg"
    "(add_entries i u (CAMPAIGN_BY_CITY (claimed_city cl)) ENTRIES_PER_CODE now s
        :: RedemptionError raised + int \<times> database) = Inr (points, s2)"
    "(if 0 < claimed_coins_per_code cl
       then ledger_record \<lparr>ne_user_id = u, ne_amount = claimed_coins_per_code cl, ne_reason = CODE_REDEMPTION,
         ne_idempotency_key = redemption_idempotency_key (claimed_code_id cl), ne_created_at = now,
         ne_source_id = Some (uuid_str (claimed_code_id cl)), ne_actor_id = None, ne_note = None\<rparr>
       else tx_return balance) s2 = (Inr (b3, s3) :: RedemptionError raised + int \<times> database)"
    "award_first_code_bonus cfg u b3 now s3 = (Inr ((b4, bonus), t) :: RedemptionError raised + (int \<times> int) \<times> database)"
    "res = \<lparr>res_city = claimed_city cl, res_entries_added = ENTRIES_PER_CODE, res_city_entries = points,
        res_coins_awarded = claimed_coins_per_code cl, res_coin_balance = b4, res_replayed = False,
        res_bonus_awarded = bonus, res_flavor_unlocked =
          (if unlocks_now (count_flavor_codes t u (claimed_city cl)) then Some (claimed_city cl) else None)\<rparr>"
proof -
  have "count_where (redeemed_since u (start_of_local_day now (rs_campaign_zone cfg))) (redemption_codes s)
      \<le> rs_daily_limit cfg"
    using assms by (auto simp: apply_claim_def count_redeemed_since_def split: if_splits)
  with assms that show ?thesis
    by (auto simp: apply_claim_def count_redeemed_since_def tx_bind_Inr_iff)
qed

lemma apply_claim_Inr:
  assumes s: "shop_ok s" and c: "c \<in> set (redemption_codes s)" "rc_redeemed_at c = None"
    and b: "b \<in> set (code_batches s)"
    and s1: "s1 = s\<lparr>redemption_codes := update_where (\<lambda>x. rc_id x = rc_id c) (redeemed_row u now) (redemption_codes s)\<rparr>"
    and bal: "balance = acct_balance (account_of s) u"
    and cl: "claimed_code_id cl = rc_id c" "claimed_city cl = rc_city c"
      "claimed_coins_per_code cl = cb_coins_per_code b"
    and run: "apply_claim cfg i cl u balance now s1 = Inr (res, t)"
  shows "credited cfg u now s c b res t \<and> shop_ok t \<and> redemption_failures t = redemption_failures s
    \<and> count_where (redeemed_since u (start_of_local_day now (rs_campaign_zone cfg))) (redemption_codes t)
        \<le> rs_daily_limit cfg
    \<and> (wallet_of s u \<noteq> None \<longrightarrow> wallet_of t u \<noteq> None)"
proof -
  let ?camp = "CAMPAIGN_BY_CITY (rc_city c)"
  let ?pay = "\<lparr>ne_user_id = u, ne_amount = cb_coins_per_code b, ne_reason = CODE_REDEMPTION,
     ne_idempotency_key = redemption_idempotency_key (rc_id c), ne_created_at = now,
     ne_source_id = Some (uuid_str (rc_id c)), ne_actor_id = None, ne_note = None\<rparr>"
  obtain s2 points s3 b3 b4 bonus where
    cap: "count_where (redeemed_since u (start_of_local_day now (rs_campaign_zone cfg))) (redemption_codes s1)
        \<le> rs_daily_limit cfg"
    and entries: "(add_entries i u ?camp ENTRIES_PER_CODE now s1 :: RedemptionError raised + int \<times> database)
        = Inr (points, s2)"
    and pay: "(if 0 < cb_coins_per_code b then ledger_record ?pay else tx_return balance) s2
        = (Inr (b3, s3) :: RedemptionError raised + int \<times> database)"
    and bonus: "award_first_code_bonus cfg u b3 now s3
        = (Inr ((b4, bonus), t) :: RedemptionError raised + (int \<times> int) \<times> database)"
    and res: "res = \<lparr>res_city = rc_city c, res_entries_added = ENTRIES_PER_CODE, res_city_entries = points,
        res_coins_awarded = cb_coins_per_code b, res_coin_balance = b4, res_replayed = False,
        res_bonus_awarded = bonus, res_flavor_unlocked =
          (if unlocks_now (count_flavor_codes t u (rc_city c)) then Some (rc_city c) else None)\<rparr>"
    by (rule apply_claim_steps [OF run, unfolded cl]) (rule that)
  have ok: "ledger_ok s" "codes_ok s" "entries_ok s" "unpaid_ok s" using s by (auto simp: shop_ok_def)
  have coins: "0 \<le> cb_coins_per_code b" using ok(2) b by (auto simp: codes_ok_def)
  have dist: "distinct (map (\<lambda>p. (pp_user_id p, pp_campaign p)) (passport_progress s1))"
    using ok(2) by (simp add: s1 codes_ok_def)
  note e = add_entries_Inr [OF dist entries]
  have same: "wallets s2 = wallets s" "coin_ledger_entries s2 = coin_ledger_entries s"
    "redemption_codes s2 = redemption_codes s1" "code_batches s2 = code_batches s"
    "redemption_failures s2 = redemption_failures s" "reward_rules s2 = reward_rules s"
    by (subst conjunct1 [OF e], simp add: s1)+
  have s2: "ledger_ok s2" "account_of s2 = account_of s" "recorded_amount s2 = recorded_amount s"
    using ok(1) same ledger_ok_frame [of s2 s] account_of_frame [of s2 s]
    by (simp_all add: recorded_amount_def fun_eq_iff)
  have "balance = acct_balance (account_of s2) u" by (simp add: bal s2)
  then have p: "paid_under u (redemption_idempotency_key (rc_id c)) (cb_coins_per_code b) s2 s3"
    "b3 = balance + cb_coins_per_code b"
    using pay_code_Inr [of s2 balance ?pay b3 s3, where 'e = RedemptionError] s2 coins pay by auto
  then have "b3 = acct_balance (account_of s3) u" by (simp add: paid_under_def bal s2)
  with award_bonus_Inr [OF _ _ bonus] p(1)
  have q: "bonus = first_code_bonus_due cfg s3 u"
    "paid_under u (first_code_bonus_idempotency_key u) bonus s3 t" "b4 = b3 + bonus"
    by (auto simp: paid_under_def)
  have co: "coins_only s2 t" using p(1) q(2) by (auto simp: paid_under_def intro: coins_only_trans)
  note t = coins_only_same [OF co]
  have codes: "redemption_codes t = redemption_codes s1" "code_batches t = code_batches s"
    "passport_progress t = passport_progress s2" "redemption_failures t = redemption_failures s"
    using t same by simp_all
  have due: "bonus = first_code_bonus_due cfg s u"
    using q(1) bonus_due_frame [of s3 s u cfg] p(1) coins_only_same(9) [of s2 s3] same s2
    by (simp add: paid_under_def)
  have points: "points_of t v k = points_of s v k + (if v = u \<and> k = ?camp then ENTRIES_PER_CODE else 0)" for v k
  proof -
    have "points_of t v k = points_of s2 v k" "points_of s1 v k = points_of s v k"
      by (simp_all add: points_of_def progress_of_def codes s1)
    with e show ?thesis by simp
  qed
  have bal': "acct_balance (account_of t) v
      = acct_balance (account_of s) v + (if v = u then cb_coins_per_code b + bonus else 0)" for v
    using p(1) q(2) by (auto simp: paid_under_def s2)
  have paid: "recorded_amount t k =
      (if k = redemption_idempotency_key (rc_id c) \<and> cb_coins_per_code b \<noteq> 0 then Some (cb_coins_per_code b)
       else if k = first_code_bonus_idempotency_key u \<and> bonus \<noteq> 0 then Some bonus
       else recorded_amount s k)" for k
    using p(1) q(2) by (auto simp: paid_under_def s2)
  have "points = points_of t u ?camp" using e points [of u ?camp] by (simp add: points_of_def progress_of_def s1)
  then have "credited cfg u now s c b res t"
    using points bal' paid due p(2) q(3) bal
    by (simp add: credited_def Let_def codes s1 res unlocks_now_def)
  moreover have "codes_ok t"
    by (rule codes_ok_redeemed [OF ok(2), of _ c u now]) (use codes s1 e in simp_all)
  moreover have "entries_ok t"
    unfolding entries_ok_def
  proof (intro allI)
    fix v city
    have "count_flavor_codes t v city = count_flavor_codes s1 v city"
      by (simp add: count_flavor_codes_def codes)
    with claimed_flavor_codes [OF ok(2) c s1] ok(3)
    show "points_of t v (CAMPAIGN_BY_CITY city) = count_flavor_codes t v city * ENTRIES_PER_CODE"
      by (auto simp: points entries_ok_def CAMPAIGN_inject algebra_simps)
  qed
  moreover have "unpaid_ok t"
    using ok(4) by (auto simp: unpaid_ok_def codes s1 paid set_update_where redeemed_row_def)
  moreover have "ledger_ok t" using q(2) by (simp add: paid_under_def)
  moreover have "wallet_of s u \<noteq> None \<longrightarrow> wallet_of t u \<noteq> None"
    using coins_only_wallet [OF co, of u] same by (simp add: wallet_of_def)
  ultimately show ?thesis using cap by (simp add: shop_ok_def codes)
qed

text \<open>Below the cap the claim is always paid: nothing on the way can fail.\<close>

lemma pay_goes_through:
  assumes "ledger_ok s" "wallet_of s (ne_user_id e) = Some w" "0 < ne_amount e"
    "recorded_amount s (ne_idempotency_key e) = None"
  shows "\<exists>b t w'. (ledger_record e s :: 'e raised + int \<times> database) = Inr (b, t) \<and> wallet_of t (ne_user_id e) = Some w'"
proof -
  have "0 \<le> w_balance w" using assms(1) wallet_of_Some [OF assms(2)] by (auto simp: ledger_ok_def)
  then have "(ledger_record e s :: 'e raised + int \<times> database) = Inr (w_balance w + ne_amount e, posted e s)"
    using assms by (intro ledger_record_goes_through) auto
  moreover have "\<exists>w'. wallet_of (posted e s) (ne_user_id e) = Some w'"
    using assms(2) by (simp add: wallet_of_def posted_def select_one_update_same)
  ultimately show ?thesis by blast
qed

lemma add_entries_total: "\<exists>p t. add_entries i u camp n now s = Inr (p, t)"
  by (cases "progress_of s u camp") (simp_all add: add_entries_def tx_return_def)

lemma apply_claim_total:
  assumes s: "shop_ok s" and c: "c \<in> set (redemption_codes s)" "rc_redeemed_at c = None"
    and b: "b \<in> set (code_batches s)"
    and s1: "s1 = s\<lparr>redemption_codes := update_where (\<lambda>x. rc_id x = rc_id c) (redeemed_row u now) (redemption_codes s)\<rparr>"
    and bal: "balance = acct_balance (account_of s) u" and w: "wallet_of s u = Some w"
    and cl: "claimed_code_id cl = rc_id c" "claimed_city cl = rc_city c"
      "claimed_coins_per_code cl = cb_coins_per_code b"
    and cap: "count_where (redeemed_since u (start_of_local_day now (rs_campaign_zone cfg))) (redemption_codes s1)
        \<le> rs_daily_limit cfg"
  shows "\<exists>res t. apply_claim cfg i cl u balance now s1 = Inr (res, t)"
proof -
  let ?pay = "\<lparr>ne_user_id = u, ne_amount = cb_coins_per_code b, ne_reason = CODE_REDEMPTION,
     ne_idempotency_key = redemption_idempotency_key (rc_id c), ne_created_at = now,
     ne_source_id = Some (uuid_str (rc_id c)), ne_actor_id = None, ne_note = None\<rparr>"
  have ok: "ledger_ok s" "codes_ok s" "unpaid_ok s" using s by (auto simp: shop_ok_def)
  have coins: "0 \<le> cb_coins_per_code b" using ok(2) b by (auto simp: codes_ok_def)
  obtain points s2 where entries: "(add_entries i u (CAMPAIGN_BY_CITY (rc_city c)) ENTRIES_PER_CODE now s1
      :: RedemptionError raised + int \<times> database) = Inr (points, s2)"
    using add_entries_total by blast
  have dist: "distinct (map (\<lambda>p. (pp_user_id p, pp_campaign p)) (passport_progress s1))"
    using ok(2) by (simp add: s1 codes_ok_def)
  have same: "wallets s2 = wallets s" "coin_ledger_entries s2 = coin_ledger_entries s"
    by (subst conjunct1 [OF add_entries_Inr [OF dist entries]], simp add: s1)+
  have s2: "ledger_ok s2" "wallet_of s2 u = Some w" "balance = acct_balance (account_of s2) u"
    "recorded_amount s2 (redemption_idempotency_key (rc_id c)) = None"
    using ok c w bal same ledger_ok_frame [of s2 s] account_of_frame [of s2 s]
    by (simp_all add: recorded_amount_def wallet_of_def unpaid_ok_def)
  have "\<exists>b3 s3 w3. (if 0 < cb_coins_per_code b then ledger_record ?pay else tx_return balance) s2
      = (Inr (b3, s3) :: RedemptionError raised + int \<times> database) \<and> wallet_of s3 u = Some w3"
    using pay_goes_through [of s2 ?pay w, where 'e = RedemptionError] s2 by simp
  then obtain b3 s3 w3 where pay: "(if 0 < cb_coins_per_code b then ledger_record ?pay else tx_return balance) s2
      = (Inr (b3, s3) :: RedemptionError raised + int \<times> database)" "wallet_of s3 u = Some w3"
    by blast
  have s3: "ledger_ok s3" using pay_code_Inr [of s2 balance ?pay b3 s3, where 'e = RedemptionError] s2 coins pay(1) by (simp add: paid_under_def)
  let ?due = "first_code_bonus_due cfg s3 u"
  have "\<exists>r t. (award_first_code_bonus cfg u b3 now s3 :: RedemptionError raised + (int \<times> int) \<times> database) = Inr (r, t)"
  proof (cases "?due = 0")
    case True
    then show ?thesis by (simp add: award_bonus_cases)
  next
    case False
    let ?e = "\<lparr>ne_user_id = u, ne_amount = ?due, ne_reason = FIRST_CODE_BONUS,
      ne_idempotency_key = first_code_bonus_idempotency_key u, ne_created_at = now, ne_source_id = None,
      ne_actor_id = None, ne_note = None\<rparr>"
    obtain b4 t where "(ledger_record ?e s3 :: RedemptionError raised + int \<times> database) = Inr (b4, t)"
      using pay_goes_through [of s3 ?e w3, where 'e = RedemptionError] s3 pay(2) False bonus_due_unpaid [OF False] bonus_due_nonneg [of cfg s3 u]
      by auto
    with False show ?thesis by (simp add: award_bonus_cases tx_return_def)
  qed
  then obtain b4 bonus t where
    "(award_first_code_bonus cfg u b3 now s3 :: RedemptionError raised + (int \<times> int) \<times> database) = Inr ((b4, bonus), t)"
    by auto
  with cap entries pay(1) show ?thesis
    by (cases "0 < cb_coins_per_code b") (simp_all add: apply_claim_def count_redeemed_since_def cl tx_return_def)
qed

text \<open>Every branch of the transaction, decided by the row of the code's hash.\<close>

definition invalid_recorded :: "redemption_settings \<Rightarrow> uuid \<Rightarrow> instant \<Rightarrow> database \<Rightarrow> database" where
  "invalid_recorded cfg u now s = (case rs_throttle cfg of None \<Rightarrow> s | Some th \<Rightarrow> throttle_record th u now s)"

definition replayed_result :: "database \<Rightarrow> uuid \<Rightarrow> RedemptionCodeModel \<Rightarrow> RedemptionResult" where
  "replayed_result s u c = \<lparr>res_city = rc_city c, res_entries_added = ENTRIES_PER_CODE,
     res_city_entries = points_of s u (CAMPAIGN_BY_CITY (rc_city c)),
     res_coins_awarded = (case recorded_amount s (redemption_idempotency_key (rc_id c)) of None \<Rightarrow> 0 | Some n \<Rightarrow> n),
     res_coin_balance = acct_balance (account_of s) u, res_replayed = True, res_bonus_awarded = 0,
     res_flavor_unlocked = None\<rparr>"

definition wallet_owner :: "database \<Rightarrow> uuid \<Rightarrow> bool" where
  "wallet_owner s u \<longleftrightarrow> user_exists s u \<or> wallet_of s u \<noteq> None"

definition redeemed_today :: "redemption_settings \<Rightarrow> database \<Rightarrow> uuid \<Rightarrow> instant \<Rightarrow> int" where
  "redeemed_today cfg s u now =
     count_where (redeemed_since u (start_of_local_day now (rs_campaign_zone cfg))) (redemption_codes s)"

lemma lock_for_redemption:
  assumes "shop_ok s" "wallet_owner s u"
  obtains s1 w where
    "(lock_wallet u now s :: RedemptionError raised + int \<times> database) = Inr (acct_balance (account_of s) u, s1)"
    "coins_only s s1" "shop_ok s1" "account_of s1 = account_of s" "recorded_amount s1 = recorded_amount s"
    "wallet_of s1 u = Some w"
proof -
  obtain b s1 where lock: "(lock_wallet u now s :: RedemptionError raised + int \<times> database) = Inr (b, s1)"
    using lock_wallet_total assms(2) unfolding wallet_owner_def by blast
  have ok: "ledger_ok s" "codes_ok s" "entries_ok s" "unpaid_ok s" using assms(1) by (auto simp: shop_ok_def)
  have l: "ledger_ok s1" "account_of s1 = account_of s" "b = acct_balance (account_of s) u"
    using sql_ledger.lock_law [OF ok(1) lock] by auto
  then have r: "recorded_amount s1 = recorded_amount s" by (simp add: account_of_def fun_eq_iff)
  note f = coins_only_same [OF lock_wallet_frame [OF lock]]
  have "shop_ok s1"
    using l ok r by (simp add: shop_ok_def codes_ok_def entries_ok_def unpaid_ok_def points_of_def progress_of_def
      count_flavor_codes_def f)
  with that lock l r lock_wallet_frame [OF lock] lock_wallet_wallet [OF lock] show thesis by blast
qed

lemma claimable_only:
  assumes "codes_ok s" "select_one (\<lambda>c. rc_code_hash c = h) (redemption_codes s) = Some c"
  shows "select_one (claimable s h) (redemption_codes s) =
    (if rc_redeemed_at c = None \<and> in_active_batch s c then Some c else None)"
proof -
  from assms(2) have c: "c \<in> set (redemption_codes s)" "rc_code_hash c = h" by (auto dest: select_one_Some)
  have only: "claimable s h x \<Longrightarrow> x = c" if "x \<in> set (redemption_codes s)" for x
    using that c assms(1) by (auto simp: codes_ok_def claimable_def dest: distinct_key_eq)
  show ?thesis
  proof (cases "select_one (claimable s h) (redemption_codes s)")
    case None
    with c show ?thesis by (auto simp: select_one_None_iff claimable_def)
  next
    case (Some x)
    then have "x \<in> set (redemption_codes s)" "claimable s h x" by (auto dest: select_one_Some)
    with only Some show ?thesis by (auto simp: claimable_def)
  qed
qed

lemma redeemed_today_claimed:
  assumes "codes_ok s" "c \<in> set (redemption_codes s)" "rc_redeemed_at c = None"
    and "s1 = s\<lparr>redemption_codes := update_where (\<lambda>x. rc_id x = rc_id c) (redeemed_row u now) (redemption_codes s)\<rparr>"
  shows "redeemed_today cfg s1 u now = redeemed_today cfg s u now + (if start_of_local_day now (rs_campaign_zone cfg) \<le> now then 1 else 0)"
  using assms count_where_update_key [of rc_id "redemption_codes s" c]
  by (auto simp: redeemed_today_def codes_ok_def redeemed_since_def redeemed_row_def)

lemma redeem_parsed_unclaimed:
  assumes s: "shop_ok s" "wallet_owner s u" and c: "select_one (\<lambda>c. rc_code_hash c = h) (redemption_codes s) = found"
    and no: "\<And>c. found = Some c \<Longrightarrow> rc_redeemed_at c = None \<Longrightarrow> \<not> in_active_batch s c"
  shows "redeem_parsed cfg i h u now s =
    (case found of
       None \<Rightarrow> (Inl (Raised CODE_INVALID), invalid_recorded cfg u now s)
     | Some c \<Rightarrow>
         (case rc_redeemed_by_user_id c of
            None \<Rightarrow> (Inl (Raised CODE_INVALID), invalid_recorded cfg u now s)
          | Some v \<Rightarrow> if v \<noteq> u then (Inl (Raised CODE_ALREADY_REDEEMED), s) else (Inr (replayed_result s u c), s)))"
proof -
  obtain s1 w where l: "(lock_wallet u now s :: RedemptionError raised + int \<times> database)
      = Inr (acct_balance (account_of s) u, s1)"
    "coins_only s s1" "shop_ok s1" "account_of s1 = account_of s" "recorded_amount s1 = recorded_amount s"
    "wallet_of s1 u = Some w"
    by (rule lock_for_redemption [OF s])
  note f = coins_only_same [OF l(2)]
  have act: "in_active_batch s1 = in_active_batch s" by (simp add: fun_eq_iff in_active_batch_def batch_of_def f)
  have "select_one (claimable s1 h) (redemption_codes s1) = None"
  proof (cases found)
    case None
    then show ?thesis using c by (auto simp: select_one_None_iff claimable_def f)
  next
    case (Some x)
    then show ?thesis using claimable_only [of s1 h x] l(3) c no by (auto simp: shop_ok_def f act)
  qed
  then have claim: "(claim h u now s1 :: RedemptionError raised + ClaimedCode option \<times> database) = Inr (None, s1)"
    by (simp add: claim_def tx_return_def)
  have pts: "points_of s1 = points_of s" by (simp add: points_of_def progress_of_def f fun_eq_iff)
  have find: "select_one (\<lambda>c. rc_code_hash c = h) (redemption_codes s1) = found" using c f by simp
  show ?thesis
    using l claim
    by (cases found; cases "rs_throttle cfg")
      (auto simp: redeem_parsed_def unit_of_work_def redeem_transaction_def resolve_unclaimed_def lookup_def find
        tx_raise_def invalid_recorded_def replayed_result_def leave_def tx_return_def amount_for_key_def
        tx_read_def points_of_def [symmetric] pts split: option.splits)
qed

lemma credited_frame:
  assumes "redemption_codes s1 = redemption_codes s" "points_of s1 = points_of s" "account_of s1 = account_of s"
    "recorded_amount s1 = recorded_amount s" "reward_rules s1 = reward_rules s"
  shows "credited cfg u now s1 c b res t = credited cfg u now s c b res t"
  using bonus_due_frame [of s1 s u cfg] assms by (simp add: credited_def)

lemma redeem_parsed_claimed:
  assumes s: "shop_ok s" "wallet_owner s u" and c: "select_one (\<lambda>c. rc_code_hash c = h) (redemption_codes s) = Some c"
    and free: "rc_redeemed_at c = None" "in_active_batch s c"
  shows "if rs_daily_limit cfg < redeemed_today cfg s u now
        + (if start_of_local_day now (rs_campaign_zone cfg) \<le> now then 1 else 0)
    then redeem_parsed cfg i h u now s =
      (Inl (Raised (REDEMPTION_DAILY_LIMIT (seconds_until_next_local_midnight now (rs_campaign_zone cfg)))), s)
    else \<exists>b res t. batch_of s c = Some b \<and> cb_status b = ACTIVE
      \<and> redeem_parsed cfg i h u now s = (Inr res, t) \<and> credited cfg u now s c b res t \<and> shop_ok t
      \<and> redemption_failures t = redemption_failures s \<and> redeemed_today cfg t u now \<le> rs_daily_limit cfg
      \<and> wallet_of t u \<noteq> None"
proof -
  obtain s1 w where l: "(lock_wallet u now s :: RedemptionError raised + int \<times> database)
      = Inr (acct_balance (account_of s) u, s1)"
    "coins_only s s1" "shop_ok s1" "account_of s1 = account_of s" "recorded_amount s1 = recorded_amount s"
    "wallet_of s1 u = Some w"
    by (rule lock_for_redemption [OF s])
  note f = coins_only_same [OF l(2)]
  have act: "in_active_batch s1 = in_active_batch s" "batch_of s1 = batch_of s"
    by (simp_all add: fun_eq_iff in_active_batch_def batch_of_def f)
  have pts: "points_of s1 = points_of s" by (simp add: points_of_def progress_of_def f fun_eq_iff)
  have c': "c \<in> set (redemption_codes s)" "rc_code_hash c = h" using c by (auto dest: select_one_Some)
  obtain b where b: "batch_of s c = Some b" "cb_status b = ACTIVE" "b \<in> set (code_batches s)"
    using free(2) by (auto simp: in_active_batch_def batch_of_def dest: select_one_Some split: option.splits)
  define s2 where "s2 = s1\<lparr>redemption_codes := update_where (\<lambda>x. rc_id x = rc_id c) (redeemed_row u now) (redemption_codes s1)\<rparr>"
  define cl where "cl = \<lparr>claimed_code_id = rc_id c, claimed_city = rc_city c,
      claimed_coins_per_code = cb_coins_per_code b, claimed_batch_id = cb_id b\<rparr>"
  have cl: "claimed_code_id cl = rc_id c" "claimed_city cl = rc_city c" "claimed_coins_per_code cl = cb_coins_per_code b"
    by (simp_all add: cl_def)
  have ok1: "codes_ok s1" using l(3) by (simp add: shop_ok_def)
  have find: "select_one (claimable s1 h) (redemption_codes s1) = Some c"
    using claimable_only [OF ok1, of h c] c free by (simp add: f act)
  have claim: "(claim h u now s1 :: RedemptionError raised + ClaimedCode option \<times> database) = Inr (Some cl, s2)"
  proof -
    have "update_where (claimable s1 h) (redeemed_row u now) (redemption_codes s1)
        = update_where (\<lambda>x. rc_id x = rc_id c) (redeemed_row u now) (redemption_codes s1)"
      using ok1 c' free f act by (intro update_where_cong) (auto simp: codes_ok_def claimable_def dest: distinct_key_eq)
    then show ?thesis using find b by (simp add: claim_def act tx_return_def cl_def s2_def)
  qed
  have today: "redeemed_today cfg s2 u now = redeemed_today cfg s u now + (if start_of_local_day now (rs_campaign_zone cfg) \<le> now then 1 else 0)"
    using redeemed_today_claimed [OF ok1 _ free(1) s2_def] c' f by (simp add: redeemed_today_def)
  show ?thesis
  proof (cases "rs_daily_limit cfg < redeemed_today cfg s2 u now")
    case True
    then have "apply_claim cfg i cl u (acct_balance (account_of s) u) now s2
        = Inl (Raised (REDEMPTION_DAILY_LIMIT (seconds_until_next_local_midnight now (rs_campaign_zone cfg))))"
      by (simp add: apply_claim_def count_redeemed_since_def redeemed_today_def tx_raise_def)
    with True [unfolded today] l claim show ?thesis
      by (simp add: redeem_parsed_def unit_of_work_def redeem_transaction_def split: option.splits)
  next
    case False
    have bal: "acct_balance (account_of s) u = acct_balance (account_of s1) u" by (simp add: l)
    have "\<exists>res t. apply_claim cfg i cl u (acct_balance (account_of s) u) now s2 = Inr (res, t)"
      by (rule apply_claim_total [OF l(3) _ free(1) _ s2_def bal l(6) cl])
        (use False today c' b f in \<open>auto simp: redeemed_today_def\<close>)
    then obtain res t where run: "apply_claim cfg i cl u (acct_balance (account_of s) u) now s2 = Inr (res, t)" by blast
    have eff: "credited cfg u now s1 c b res t \<and> shop_ok t \<and> redemption_failures t = redemption_failures s1
        \<and> redeemed_today cfg t u now \<le> rs_daily_limit cfg
        \<and> wallet_of t u \<noteq> None"
      using apply_claim_Inr [OF l(3) _ free(1) _ s2_def bal cl run] c' b f l(6) by (simp add: redeemed_today_def)
    then have "credited cfg u now s c b res t" using credited_frame [of s1 s cfg u now c b res t] l pts f by simp
    moreover have "redeem_parsed cfg i h u now s = (Inr res, t)"
      using l claim run
      by (simp add: redeem_parsed_def unit_of_work_def redeem_transaction_def commit_def tx_return_def)
    ultimately show ?thesis using False [unfolded today] b eff f by auto
  qed
qed

text \<open>What any call leaves behind, and how a call with a parsed code comes about.\<close>

definition found_code :: "database \<Rightarrow> string \<Rightarrow> RedemptionCodeModel option" where
  "found_code s h = select_one (\<lambda>c. rc_code_hash c = h) (redemption_codes s)"

definition spent :: "RedemptionCodeModel \<Rightarrow> bool" where
  "spent c \<longleftrightarrow> rc_redeemed_at c \<noteq> None"

lemma redeem_parsed_result:
  assumes s: "shop_ok s" and run: "redeem_parsed cfg i h u now s = (r, t)"
  obtains (same) "t = s" "\<And>res. r = Inr res \<Longrightarrow> res_replayed res" "r \<noteq> Inl (Raised CODE_INVALID)"
  | (invalid) "r = Inl (Raised CODE_INVALID)" "t = invalid_recorded cfg u now s"
  | (fresh) res c b where "r = Inr res" "found_code s h = Some c" "\<not> spent c" "batch_of s c = Some b"
      "cb_status b = ACTIVE" "credited cfg u now s c b res t" "shop_ok t"
      "redemption_failures t = redemption_failures s" "redeemed_today cfg t u now \<le> rs_daily_limit cfg"
      "wallet_of t u \<noteq> None"
proof (cases "wallet_owner s u")
  case False
  then have "redeem_parsed cfg i h u now s = (Inl (Crash (IntegrityError ''wallets_user_id_fkey'')), s)"
    by (simp add: redeem_parsed_def redeem_transaction_def unit_of_work_def wallet_owner_def lock_wallet_nobody)
  with run have "t = s" "r = Inl (Crash (IntegrityError ''wallets_user_id_fkey''))" by simp_all
  then show ?thesis using same by blast
next
  case True
  show ?thesis
  proof (cases "\<exists>c. found_code s h = Some c \<and> \<not> spent c \<and> in_active_batch s c")
    case False
    then have "redeem_parsed cfg i h u now s =
      (case found_code s h of
         None \<Rightarrow> (Inl (Raised CODE_INVALID), invalid_recorded cfg u now s)
       | Some c \<Rightarrow>
           (case rc_redeemed_by_user_id c of
              None \<Rightarrow> (Inl (Raised CODE_INVALID), invalid_recorded cfg u now s)
            | Some v \<Rightarrow> if v \<noteq> u then (Inl (Raised CODE_ALREADY_REDEEMED), s) else (Inr (replayed_result s u c), s)))"
      by (intro redeem_parsed_unclaimed [OF s True]) (auto simp: found_code_def spent_def)
    with run same invalid show ?thesis
      by (auto simp: replayed_result_def split: option.splits if_splits)
  next
    case claimable: True
    then obtain c where c: "found_code s h = Some c" "\<not> spent c" "in_active_batch s c" by blast
    from redeem_parsed_claimed [OF s True, of h c cfg now i] c run same fresh show ?thesis
      by (auto simp: found_code_def spent_def split: if_splits)
  qed
qed

definition attempts_left :: "redemption_settings \<Rightarrow> uuid \<Rightarrow> instant \<Rightarrow> database \<Rightarrow> bool" where
  "attempts_left cfg u now s \<longleftrightarrow>
     (case rs_throttle cfg of
        None \<Rightarrow> True
      | Some th \<Rightarrow> throttle_count th u (now - seconds (rs_window_seconds cfg)) s < rs_max_attempts cfg)"

lemma redeem_unfold:
  assumes "rs_pepper cfg = Some pepper" "parse_code ud reg raw = Inr p"
  shows "redeem ud hmac reg cfg i u raw now s =
    (if attempts_left cfg u now s
     then redeem_parsed cfg i (hash_redemption_code hmac (pc_canonical p) pepper) u now s
     else (Inl (Raised (CODE_ATTEMPTS_LIMITED (rs_window_seconds cfg))), s))"
  using assms by (simp add: redeem_def attempts_left_def split: option.splits)

text \<open>A call that reaches the tables, or an error that leaves them alone.\<close>

lemma redeem_result:
  assumes s: "shop_ok s" and run: "redeem ud hmac reg cfg i u raw now s = (r, t)"
  obtains (same) "t = s" "\<And>res. r = Inr res \<Longrightarrow> res_replayed res" "r \<noteq> Inl (Raised CODE_INVALID)"
  | (invalid) "r = Inl (Raised CODE_INVALID)" "t = invalid_recorded cfg u now s" "attempts_left cfg u now s"
  | (fresh) res pepper p c b where "r = Inr res" "rs_pepper cfg = Some pepper" "parse_code ud reg raw = Inr p"
      "attempts_left cfg u now s" "found_code s (hash_redemption_code hmac (pc_canonical p) pepper) = Some c" "\<not> spent c"
      "batch_of s c = Some b" "cb_status b = ACTIVE" "credited cfg u now s c b res t" "shop_ok t"
      "redemption_failures t = redemption_failures s" "redeemed_today cfg t u now \<le> rs_daily_limit cfg"
      "wallet_of t u \<noteq> None"
proof (cases "rs_pepper cfg")
  case None
  with run have "t = s" "r = Inl (Raised REDEMPTION_NOT_CONFIGURED)" by (simp_all add: redeem_def)
  then show ?thesis using same by blast
next
  case (Some pepper)
  show ?thesis
  proof (cases "parse_code ud reg raw")
    case (Inl e)
    with Some run have "t = s \<and> (\<exists>e. r = Inl e \<and> e \<noteq> Raised CODE_INVALID)"
      by (auto simp: redeem_def split: raised.splits CodeProblem.splits)
    with same show ?thesis by auto
  next
    case (Inr p)
    note run' = run [unfolded redeem_unfold [where hmac = hmac, OF Some Inr]]
    show ?thesis
    proof (cases "attempts_left cfg u now s")
      case False
      with run' have "t = s" "r = Inl (Raised (CODE_ATTEMPTS_LIMITED (rs_window_seconds cfg)))" by simp_all
      then show ?thesis using same by blast
    next
      case True
      with run' have "redeem_parsed cfg i (hash_redemption_code hmac (pc_canonical p) pepper) u now s = (r, t)" by simp
      then show ?thesis
        by (rule redeem_parsed_result [OF s]) (use same invalid True fresh Some Inr in blast)+
    qed
  qed
qed

end
