(* ===== verification/Redemption_Checks.thy ===== *)
theory Redemption_Checks
  imports Redemption
begin

text \<open>
  What redeeming promises: the decision of every branch, safe retries, one redeemer for each code,
  coins that all come from answers, and the bound the failure throttle puts on guessing. The locale
  \<open>failure_throttle\<close> is the interface the service relies on, \<open>counting_throttle\<close> the stronger one
  that \<open>PostgreSQLFailureThrottle\<close> provides and \<open>NullFailureThrottle\<close> does not.
\<close>

section \<open>A shop\<close>

definition sample_batch :: CodeBatchModel where
  "sample_batch = \<lparr>cb_id = 7, cb_city = TOKYO, cb_label = cp ''pilot'', cb_quantity = 1, cb_coins_per_code = 10,
     cb_status = ACTIVE, cb_created_at = 0, cb_activated_at = Some 0, cb_voided_at = None,
     cb_format_id = cp ''city2-b9'', cb_format_fingerprint = None, cb_exported_at = Some 0,
     cb_export_sha256 = None, cb_frozen_at = Some 0, cb_pepper_fingerprint = None\<rparr>"

definition fresh_code :: RedemptionCodeModel where
  "fresh_code = \<lparr>rc_id = 3, rc_city = TOKYO, rc_code_hash = ''h'', rc_created_at = 0, rc_redeemed_at = None,
     rc_redeemed_by_user_id = None, rc_batch_id = Some 7\<rparr>"

definition sample_shop :: database where
  "sample_shop = one_user\<lparr>code_batches := [sample_batch], redemption_codes := [fresh_code]\<rparr>"

definition sample_settings :: redemption_settings where
  "sample_settings = \<lparr>rs_pepper = Some (cp ''pepper''), rs_daily_limit = 5, rs_campaign_zone = tehran,
     rs_throttle = Some PostgreSQLFailureThrottle, rs_max_attempts = 3, rs_window_seconds = 600,
     rs_first_code_bonus_coins = 15\<rparr>"

definition sample_hmac :: hmac_hex where
  "sample_hmac key message = ''h''"

lemma sample_shop_ok: "shop_ok sample_shop"
  by (simp add: shop_ok_def ledger_ok_def codes_ok_def entries_ok_def unpaid_ok_def points_of_def progress_of_def
    count_flavor_codes_def recorded_amount_def sample_shop_def one_user_def empty_database_def sample_batch_def
    fresh_code_def)

lemma sample_owner: "wallet_owner sample_shop 1"
  by (simp add: wallet_owner_def user_exists_def sample_shop_def one_user_def adult_user_def)

lemma sample_found: "found_code sample_shop ''h'' = Some fresh_code"
  by (simp add: found_code_def sample_shop_def fresh_code_def)

lemma sample_attempts: "attempts_left sample_settings 1 0 sample_shop"
  by (simp add: attempts_left_def sample_settings_def count_failures_in_window_def sample_shop_def one_user_def
    empty_database_def)

lemma sample_today: "redeemed_today sample_settings sample_shop 1 0 = 0"
  by (simp add: redeemed_today_def redeemed_since_def sample_shop_def fresh_code_def)

lemma sample_active: "in_active_batch sample_shop fresh_code" "batch_of sample_shop fresh_code = Some sample_batch"
  by (simp_all add: in_active_batch_def batch_of_def sample_shop_def fresh_code_def sample_batch_def)

lemma day_started: "start_of_local_day now tehran \<le> now"
  by (simp add: start_of_local_day_def tehran_midnight_le_iff)

section \<open>Properties\<close>

text \<open>
  C1: what redeeming a readable code comes to, on every branch. For consistent tables and a configured
  pepper: a user with no attempts left is refused before the tables are touched; an unknown code, a
  code of a batch that is not active and a spent code whose redeemer is unknown are CODE_INVALID, and
  the failure is recorded; a code another user redeemed is CODE_ALREADY_REDEEMED; the user's own
  spent code is answered again without a change; at the daily cap the code stays unspent; and
  otherwise the code is credited: it is now the user's, her city has one more entry, her balance grows
  by the batch's coins and the welcome bonus due, the answer reports just that, and the tables stay
  consistent.
\<close>

theorem redemption_decided:
  assumes "shop_ok s" "wallet_owner s u" and "rs_pepper cfg = Some pepper" "parse_code ud reg raw = Inr p"
    and "start_of_local_day now (rs_campaign_zone cfg) \<le> now"
  shows "let outcome = redeem ud hmac reg cfg i u raw now s;
      found = found_code s (hash_redemption_code hmac (pc_canonical p) pepper) in
    if \<not> attempts_left cfg u now s then outcome = (Inl (Raised (CODE_ATTEMPTS_LIMITED (rs_window_seconds cfg))), s)
    else case found of
      None \<Rightarrow> outcome = (Inl (Raised CODE_INVALID), invalid_recorded cfg u now s)
    | Some c \<Rightarrow>
        if spent c then
          (case rc_redeemed_by_user_id c of
             None \<Rightarrow> outcome = (Inl (Raised CODE_INVALID), invalid_recorded cfg u now s)
           | Some v \<Rightarrow> outcome = (if v = u then (Inr (replayed_result s u c), s)
               else (Inl (Raised CODE_ALREADY_REDEEMED), s)))
        else if \<not> in_active_batch s c then outcome = (Inl (Raised CODE_INVALID), invalid_recorded cfg u now s)
        else if rs_daily_limit cfg \<le> redeemed_today cfg s u now then
          outcome = (Inl (Raised (REDEMPTION_DAILY_LIMIT
              (seconds_until_next_local_midnight now (rs_campaign_zone cfg)))), s)
        else
          \<exists>b res t. outcome = (Inr res, t) \<and> batch_of s c = Some b \<and> credited cfg u now s c b res t \<and> shop_ok t"
proof (cases "attempts_left cfg u now s")
  case False
  with assms(3,4) show ?thesis by (simp add: redeem_unfold)
next
  case True
  let ?h = "hash_redemption_code hmac (pc_canonical p) pepper"
  have red: "redeem ud hmac reg cfg i u raw now s = redeem_parsed cfg i ?h u now s"
    using assms(3,4) True by (simp add: redeem_unfold)
  note unclaimed = redeem_parsed_unclaimed [OF assms(1,2), of ?h, folded found_code_def]
  show ?thesis
  proof (cases "found_code s ?h")
    case None
    with True unclaimed [OF None, of cfg i now] show ?thesis by (simp add: red)
  next
    case (Some c)
    show ?thesis
    proof (cases "spent c \<or> \<not> in_active_batch s c")
      case True
      have "rc_redeemed_at c = None \<Longrightarrow> rc_redeemed_by_user_id c = None"
        using assms(1) Some by (auto simp: found_code_def shop_ok_def codes_ok_def dest: select_one_Some)
      with unclaimed [OF Some, of cfg i now] True Some \<open>attempts_left cfg u now s\<close> show ?thesis
        by (auto simp: red spent_def Let_def split: option.splits)
    next
      case False
      then have "rc_redeemed_at c = None" "in_active_batch s c" by (auto simp: spent_def)
      from redeem_parsed_claimed [OF assms(1,2) Some [unfolded found_code_def] this, of cfg now i] False Some assms(5) True
      show ?thesis by (auto simp: red Let_def split: if_splits)
    qed
  qed
qed

theorem redemption_decided_witness:
  "\<exists>res t. redeem ascii_unicode sample_hmac FORMATS sample_settings 9 1 (cp ''TO07ENW3AHY'') 0 sample_shop = (Inr res, t)
    \<and> credited sample_settings 1 0 sample_shop fresh_code sample_batch res t \<and> shop_ok t"
proof -
  have "rs_pepper sample_settings = Some (cp ''pepper'')" "rs_campaign_zone sample_settings = tehran"
    "rs_daily_limit sample_settings = 5" "\<not> spent fresh_code"
    by (simp_all add: sample_settings_def spent_def fresh_code_def)
  then show ?thesis
    using redemption_decided [OF sample_shop_ok sample_owner _ sample_parses [OF ascii_unicode_laws], of sample_settings
      "cp ''pepper''" 0 sample_hmac 9] day_started [of 0] sample_found sample_attempts sample_today sample_active
    by (simp add: hash_redemption_code_def sample_hmac_def)
qed

lemma sample_redeemed:
  "\<exists>res t. redeem ascii_unicode sample_hmac FORMATS sample_settings 9 1 (cp ''TO07ENW3AHY'') 0 sample_shop = (Inr res, t)
    \<and> credited sample_settings 1 0 sample_shop fresh_code sample_batch res t \<and> shop_ok t"
proof -
  have "rs_pepper sample_settings = Some (cp ''pepper'')" "rs_campaign_zone sample_settings = tehran"
    "rs_daily_limit sample_settings = 5" "rc_redeemed_at fresh_code = None"
    by (simp_all add: sample_settings_def fresh_code_def)
  then show ?thesis
    using redeem_parsed_claimed [OF sample_shop_ok sample_owner sample_found [unfolded found_code_def], of sample_settings 0 9]
      day_started [of 0] sample_attempts sample_today sample_active
      redeem_unfold [of sample_settings "cp ''pepper''", OF _ sample_parses [OF ascii_unicode_laws], of sample_hmac 9 1 0 sample_shop]
    by (simp add: hash_redemption_code_def sample_hmac_def) blast
qed

section \<open>The throttle as an interface\<close>

locale failure_throttle =
  fixes record_at :: "uuid \<Rightarrow> instant \<Rightarrow> database \<Rightarrow> database"
    and failures :: "uuid \<Rightarrow> instant \<Rightarrow> database \<Rightarrow> int"
  assumes failures_antimono: "w \<le> w' \<Longrightarrow> failures u w' s \<le> failures u w s"
    and record_adds_at_most: "failures u w (record_at v now s) \<le> failures u w s + (if v = u \<and> w \<le> now then 1 else 0)"
    and record_frame: "redemption_codes (record_at v now s) = redemption_codes s"
      "coin_ledger_entries (record_at v now s) = coin_ledger_entries s"
    and record_shop: "shop_ok s \<Longrightarrow> shop_ok (record_at v now s)"
    and failures_frame: "redemption_failures t = redemption_failures s \<Longrightarrow> failures u w t = failures u w s"
begin

text \<open>An attempt that was let through and failed keeps the count of its window below the limit.\<close>

lemma limit_kept:
  assumes "failures u w' s < limit" "w' \<le> w" "failures u w s \<le> limit"
  shows "failures u w (record_at v now s) \<le> limit"
  using failures_antimono [OF assms(2), of u s] assms(1) record_adds_at_most [of u w v now s] by (simp split: if_splits)

lemma later_window: "failures u w s < limit \<Longrightarrow> w \<le> w' \<Longrightarrow> failures u w' s < limit"
  using failures_antimono [of w w' u s] by simp

end

locale counting_throttle = failure_throttle +
  assumes record_counts: "w \<le> now \<Longrightarrow> failures u w (record_at u now s) = failures u w s + 1"
    and record_others: "v \<noteq> u \<Longrightarrow> failures u w (record_at v now s) = failures u w s"

lemma shop_ok_failures:
  "shop_ok (s\<lparr>redemption_failures := fs\<rparr>) = shop_ok s"
  by (simp add: shop_ok_def ledger_ok_def codes_ok_def entries_ok_def unpaid_ok_def points_of_def progress_of_def
    count_flavor_codes_def recorded_amount_def)

interpretation no_throttle: failure_throttle null_record null_count
  by unfold_locales (simp_all add: null_record_def null_count_def)

interpretation sql_throttle: counting_throttle record_failure count_failures_in_window
proof unfold_locales
  fix w w' :: instant and u s assume "w \<le> w'"
  then show "count_failures_in_window u w' s \<le> count_failures_in_window u w s"
    unfolding count_failures_in_window_def by (intro count_where_mono) auto
qed (auto simp: count_failures_in_window_def record_failure_def shop_ok_failures)

lemma throttle_laws: "failure_throttle (throttle_record th) (throttle_count th)"
  by (cases th) (simp_all add: no_throttle.failure_throttle_axioms sql_throttle.failure_throttle_axioms)

lemma shop_ok_invalid: "shop_ok s \<Longrightarrow> shop_ok (invalid_recorded cfg u now s)"
  by (auto simp: invalid_recorded_def intro: failure_throttle.record_shop [OF throttle_laws] split: option.splits)

lemma invalid_recorded_same:
  "redemption_codes (invalid_recorded cfg u now s) = redemption_codes s"
  "coin_ledger_entries (invalid_recorded cfg u now s) = coin_ledger_entries s"
  by (auto simp: invalid_recorded_def failure_throttle.record_frame [OF throttle_laws] split: option.splits)

section \<open>Every call\<close>

lemma redeemed_rows:
  assumes "shop_ok s" "c \<in> set (redemption_codes s)" "\<not> spent c"
    and "codes = update_where (\<lambda>x. rc_id x = rc_id c) (redeemed_row u now) (redemption_codes s)"
  shows "(\<forall>x \<in> set (redemption_codes s). spent x \<longrightarrow> x \<in> set codes)
    \<and> count_where spent codes = count_where spent (redemption_codes s) + 1"
proof
  have ok: "distinct (map rc_id (redemption_codes s))" using assms(1) by (simp add: shop_ok_def codes_ok_def)
  show "\<forall>x \<in> set (redemption_codes s). spent x \<longrightarrow> x \<in> set codes"
    using assms(2,3) distinct_key_eq [OF ok, of _ c] by (auto simp: assms(4) set_update_where)
  show "count_where spent codes = count_where spent (redemption_codes s) + 1"
    using count_where_update_key [OF ok assms(2), of spent] assms(3)
    by (simp add: assms(4)) (simp add: spent_def redeemed_row_def)
qed

lemma found_code_in: "found_code s h = Some c \<Longrightarrow> c \<in> set (redemption_codes s) \<and> rc_code_hash c = h"
  unfolding found_code_def by (rule select_one_Some)

text \<open>
  No call damages the books. Whatever is sent, the tables stay consistent (every balance is the
  sum of its ledger entries and not negative, every redeemed code is exactly one entry in its city's
  draw, no unredeemed code has been paid), a spent code keeps its redeemer and its time for good, and
  a call that ends with an error changes nothing, except that CODE_INVALID is recorded for the throttle.
\<close>

theorem redeem_keeps_books:
  assumes "shop_ok s" and "redeem ud hmac reg cfg i u raw now s = (r, t)"
  shows "shop_ok t
    \<and> (\<forall>c \<in> set (redemption_codes s). spent c \<longrightarrow> c \<in> set (redemption_codes t))
    \<and> (\<forall>e. r = Inl e \<longrightarrow> t = (if e = Raised CODE_INVALID then invalid_recorded cfg u now s else s))"
  using assms(2)
proof (rule redeem_result [OF assms(1)])
  assume "t = s" "r \<noteq> Inl (Raised CODE_INVALID)"
  with assms(1) show ?thesis by auto
next
  assume "r = Inl (Raised CODE_INVALID)" "t = invalid_recorded cfg u now s"
  with assms(1) shop_ok_invalid show ?thesis by (auto simp: invalid_recorded_same)
next
  fix res pepper p c b
  assume "r = Inr res" "found_code s (hash_redemption_code hmac (pc_canonical p) pepper) = Some c" "\<not> spent c"
    "credited cfg u now s c b res t" "shop_ok t"
  moreover have "redemption_codes t = update_where (\<lambda>x. rc_id x = rc_id c) (redeemed_row u now) (redemption_codes s)"
    using calculation by (simp add: credited_def Let_def)
  ultimately show ?thesis using redeemed_rows [OF assms(1)] found_code_in by blast
qed

theorem redeem_keeps_books_witness:
  "\<exists>r t. redeem ascii_unicode sample_hmac FORMATS sample_settings 9 1 (cp ''TO07ENW3AHY'') 0 sample_shop = (r, t)
    \<and> shop_ok t \<and> (\<forall>e. r = Inl e \<longrightarrow>
        t = (if e = Raised CODE_INVALID then invalid_recorded sample_settings 1 0 sample_shop else sample_shop))"
proof -
  obtain r t where rt: "redeem ascii_unicode sample_hmac FORMATS sample_settings 9 1 (cp ''TO07ENW3AHY'') 0 sample_shop = (r, t)"
    by fastforce
  from redeem_keeps_books [OF sample_shop_ok rt] rt show ?thesis by blast
qed

text \<open>
  C2: a retry is safe. After a successful redemption, sending the same code again at any later time
  (the client lost the answer) is answered with the same city, entries, coins and balance, marked as
  replayed, and changes nothing. It is not refused for too many attempts either.
\<close>

theorem redemption_retry_safe:
  assumes "shop_ok s" and "redeem ud hmac reg cfg i u raw now s = (Inr res, t)" "\<not> res_replayed res"
    and "now \<le> later"
  shows "redeem ud hmac reg cfg j u raw later t
    = (Inr (res\<lparr>res_replayed := True, res_bonus_awarded := 0, res_flavor_unlocked := None\<rparr>), t)"
  using assms(2)
proof (rule redeem_result [OF assms(1)])
  fix res' pepper c b and p :: ParsedCode
  let ?h = "hash_redemption_code hmac (pc_canonical p) pepper"
  assume r: "Inr res = (Inr res' :: RedemptionError raised + RedemptionResult)"
    and pp: "rs_pepper cfg = Some pepper" "parse_code ud reg raw = Inr p" and left: "attempts_left cfg u now s"
    and c: "found_code s ?h = Some c" "\<not> spent c" and cr: "credited cfg u now s c b res' t" "shop_ok t"
    and fails: "redemption_failures t = redemption_failures s" and w: "wallet_of t u \<noteq> None"
  have c': "c \<in> set (redemption_codes s)" "rc_code_hash c = ?h" using found_code_in [OF c(1)] by auto
  have "attempts_left cfg u later t"
    using left assms(4) failure_throttle.failures_frame [OF throttle_laws fails]
    by (auto simp: attempts_left_def intro: failure_throttle.later_window [OF throttle_laws] split: option.splits)
  then have red: "redeem ud hmac reg cfg j u raw later t = redeem_parsed cfg j ?h u later t"
    using pp by (simp add: redeem_unfold)
  let ?c = "redeemed_row u now c"
  have codes: "redemption_codes t = update_where (\<lambda>x. rc_id x = rc_id c) (redeemed_row u now) (redemption_codes s)"
    using cr(1) by (simp add: credited_def Let_def)
  then have "?c \<in> set (redemption_codes t)" "rc_code_hash ?c = ?h"
    using c' by (auto simp: set_update_where redeemed_row_def)
  then have f: "select_one (\<lambda>c. rc_code_hash c = ?h) (redemption_codes t) = Some ?c"
    using select_one_unique [of rc_code_hash "redemption_codes t" ?c] cr(2) by (simp add: shop_ok_def codes_ok_def)
  have "recorded_amount s (redemption_idempotency_key (rc_id c)) = None"
    using assms(1) c(2) c' by (simp add: shop_ok_def unpaid_ok_def spent_def)
  then have "replayed_result t u ?c = res'\<lparr>res_replayed := True, res_bonus_awarded := 0, res_flavor_unlocked := None\<rparr>"
    using cr(1) by (auto simp: credited_def Let_def replayed_result_def redeemed_row_def)
  then show ?thesis
    using redeem_parsed_unclaimed [OF cr(2) _ f, of u cfg j later] w red r
    by (simp add: wallet_owner_def redeemed_row_def)
qed (use assms(3) in auto)

theorem redemption_retry_safe_witness:
  "\<exists>res t. redeem ascii_unicode sample_hmac FORMATS sample_settings 9 1 (cp ''TO07ENW3AHY'') 5 t
    = (Inr (res\<lparr>res_replayed := True, res_bonus_awarded := 0, res_flavor_unlocked := None\<rparr>), t)"
proof -
  obtain res t where rt: "redeem ascii_unicode sample_hmac FORMATS sample_settings 9 1 (cp ''TO07ENW3AHY'') 0 sample_shop
      = (Inr res, t)" "credited sample_settings 1 0 sample_shop fresh_code sample_batch res t"
    using sample_redeemed by blast
  then have "\<not> res_replayed res" by (simp add: credited_def Let_def)
  from redemption_retry_safe [OF sample_shop_ok rt(1) this, of 5 9] show ?thesis by auto
qed

section \<open>Runs of calls\<close>

record redemption_request =
  rq_new_id :: uuid
  rq_user_id :: uuid
  rq_raw_code :: pystr
  rq_now :: instant

type_synonym redemption_outcome = "RedemptionError raised + RedemptionResult"

text \<open>The service over a sequence of requests, each answered with its outcome.\<close>

fun redeem_all ::
  "unicode \<Rightarrow> hmac_hex \<Rightarrow> registry \<Rightarrow> redemption_settings \<Rightarrow> redemption_request list \<Rightarrow> database
     \<Rightarrow> (redemption_request \<times> redemption_outcome) list \<times> database" where
  "redeem_all ud hmac reg cfg [] s = ([], s)"
| "redeem_all ud hmac reg cfg (q # qs) s =
     (let (r, s') = redeem ud hmac reg cfg (rq_new_id q) (rq_user_id q) (rq_raw_code q) (rq_now q) s;
          (rs, t) = redeem_all ud hmac reg cfg qs s' in
      ((q, r) # rs, t))"

fun coins_answered :: "redemption_outcome \<Rightarrow> int" where
  "coins_answered (Inl e) = 0"
| "coins_answered (Inr res) = (if res_replayed res then 0 else res_coins_awarded res + res_bonus_awarded res)"

fun answered_fresh :: "redemption_outcome \<Rightarrow> bool" where
  "answered_fresh (Inl e) = False"
| "answered_fresh (Inr res) = (\<not> res_replayed res)"

fun answered_invalid :: "redemption_outcome \<Rightarrow> bool" where
  "answered_invalid (Inl (Raised CODE_INVALID)) = True"
| "answered_invalid r = False"

lemma account_of_invalid: "account_of (invalid_recorded cfg u now s) = account_of s"
  by (rule account_of_frame) (rule invalid_recorded_same)

lemma redeem_step_exact:
  assumes "shop_ok s" and "redeem ud hmac reg cfg i u raw now s = (r, t)"
  shows "shop_ok t
    \<and> count_where spent (redemption_codes t) = count_where spent (redemption_codes s) + (if answered_fresh r then 1 else 0)
    \<and> length (redemption_codes t) = length (redemption_codes s)
    \<and> (\<forall>v. acct_balance (account_of t) v = acct_balance (account_of s) v + (if v = u then coins_answered r else 0))"
  using assms(2)
proof (rule redeem_result [OF assms(1)])
  assume "t = s" "\<And>res. r = Inr res \<Longrightarrow> res_replayed res"
  with assms(1) show ?thesis by (cases r) auto
next
  assume "r = Inl (Raised CODE_INVALID)" "t = invalid_recorded cfg u now s"
  with assms(1) shop_ok_invalid show ?thesis by (simp add: invalid_recorded_same account_of_invalid)
next
  fix res pepper c b and p :: ParsedCode
  assume r: "r = Inr res" and c: "found_code s (hash_redemption_code hmac (pc_canonical p) pepper) = Some c" "\<not> spent c"
    and cr: "credited cfg u now s c b res t" "shop_ok t"
  have codes: "redemption_codes t = update_where (\<lambda>x. rc_id x = rc_id c) (redeemed_row u now) (redemption_codes s)"
    using cr by (simp add: credited_def Let_def)
  have "count_where spent (redemption_codes t) = count_where spent (redemption_codes s) + 1"
    using redeemed_rows [OF assms(1) _ c(2) codes] found_code_in [OF c(1)] by blast
  with r cr codes show ?thesis by (simp add: credited_def Let_def)
qed

text \<open>
  C3: coins come from answers and codes are spent once. Over any sequence of requests by any users
  the number of successful first redemptions answered is the number of codes that became spent, so
  it never exceeds the codes there are, and each user's balance grows by exactly the coins and
  bonuses her answers reported.
\<close>

theorem redemption_run_exact:
  assumes "shop_ok s" and "redeem_all ud hmac reg cfg qs s = (rs, t)"
  shows "shop_ok t
    \<and> count_where spent (redemption_codes s) + count_where (\<lambda>(q, r). answered_fresh r) rs
        = count_where spent (redemption_codes t)
    \<and> count_where spent (redemption_codes t) \<le> int (length (redemption_codes s))
    \<and> (\<forall>v. acct_balance (account_of t) v = acct_balance (account_of s) v
          + sum_list (map (\<lambda>(q, r). coins_answered r) (filter (\<lambda>(q, r). rq_user_id q = v) rs)))"
  using assms
proof (induction qs arbitrary: s rs)
  case Nil
  then show ?case using count_where_le by auto
next
  case (Cons q qs)
  obtain r s' where step: "redeem ud hmac reg cfg (rq_new_id q) (rq_user_id q) (rq_raw_code q) (rq_now q) s = (r, s')"
    by fastforce
  obtain rs' where rest: "redeem_all ud hmac reg cfg qs s' = (rs', t)" "rs = (q, r) # rs'"
    using Cons.prems(2) step by (auto simp: Let_def split: prod.splits)
  note one = redeem_step_exact [OF Cons.prems(1) step]
  then have "shop_ok s'" by simp
  from Cons.IH [OF this rest(1)] one show ?case by (auto simp: rest(2))
qed

definition sample_requests :: "redemption_request list" where
  "sample_requests =
     [\<lparr>rq_new_id = 9, rq_user_id = 1, rq_raw_code = cp ''TO07ENW3AHY'', rq_now = 0\<rparr>,
      \<lparr>rq_new_id = 10, rq_user_id = 1, rq_raw_code = cp ''TO07ENW3AHY'', rq_now = 60\<rparr>]"

theorem redemption_run_exact_witness:
  "\<exists>rs t. redeem_all ascii_unicode sample_hmac FORMATS sample_settings sample_requests sample_shop = (rs, t)
    \<and> shop_ok t \<and> count_where (\<lambda>(q, r). answered_fresh r) rs = count_where spent (redemption_codes t)"
proof -
  obtain rs t where run: "redeem_all ascii_unicode sample_hmac FORMATS sample_settings sample_requests sample_shop = (rs, t)"
    by fastforce
  have "count_where spent (redemption_codes sample_shop) = 0"
    by (simp add: sample_shop_def spent_def fresh_code_def)
  with redemption_run_exact [OF sample_shop_ok run] run show ?thesis by auto
qed

section \<open>Guessing\<close>

lemma redeem_step_failures:
  assumes "shop_ok s" and "redeem ud hmac reg cfg i v raw now s = (r, t)"
    and "rs_throttle cfg = Some PostgreSQLFailureThrottle"
    and "t0 \<le> now" "now \<le> t0 + seconds (rs_window_seconds cfg)"
  shows "count_failures_in_window u t0 t = count_failures_in_window u t0 s + (if v = u \<and> answered_invalid r then 1 else 0)
    \<and> (v = u \<and> answered_invalid r \<longrightarrow> count_failures_in_window u t0 s < rs_max_attempts cfg)"
  using assms(2)
proof (rule redeem_result [OF assms(1)])
  assume "t = s" "r \<noteq> Inl (Raised CODE_INVALID)"
  then show ?thesis by (cases r rule: answered_invalid.cases) auto
next
  assume inv: "r = Inl (Raised CODE_INVALID)" "t = invalid_recorded cfg v now s" "attempts_left cfg v now s"
  then have t: "t = record_failure v now s" using assms(3) by (simp add: invalid_recorded_def)
  have "count_failures_in_window v (now - seconds (rs_window_seconds cfg)) s < rs_max_attempts cfg"
    using inv(3) assms(3) by (simp add: attempts_left_def)
  then have "count_failures_in_window v t0 s < rs_max_attempts cfg"
    by (rule sql_throttle.later_window) (use assms(5) in simp)
  moreover have "count_failures_in_window u t0 (record_failure v now s)
      = count_failures_in_window u t0 s + (if v = u then 1 else 0)"
  proof (cases "v = u")
    case True
    then show ?thesis using sql_throttle.record_counts [OF assms(4), of v s] by simp
  next
    case False
    then show ?thesis using sql_throttle.record_others [of v u t0 now s] by simp
  qed
  ultimately show ?thesis unfolding t inv(1) by (cases "v = u") simp_all
next
  fix res assume r: "r = Inr res" and same: "redemption_failures t = redemption_failures s"
  show ?thesis using sql_throttle.failures_frame [OF same] by (simp add: r)
qed

text \<open>
  C4: guessing is bounded. With the PostgreSQL throttle, within any stretch of time as long as the
  window a user gets at most \<open>max_attempts\<close> answers CODE_INVALID, less those already on record for
  that stretch, whatever other users do in between and however many codes she sends.
\<close>

theorem guesses_bounded:
  assumes "shop_ok s" and "rs_throttle cfg = Some PostgreSQLFailureThrottle"
    and "\<forall>q \<in> set qs. t0 \<le> rq_now q \<and> rq_now q \<le> t0 + seconds (rs_window_seconds cfg)"
    and "redeem_all ud hmac reg cfg qs s = (rs, t)"
  shows "count_where (\<lambda>(q, r). rq_user_id q = u \<and> answered_invalid r) rs
    \<le> max 0 (rs_max_attempts cfg - count_failures_in_window u t0 s)"
  using assms
proof (induction qs arbitrary: s rs)
  case Nil
  then show ?case by simp
next
  case (Cons q qs)
  obtain r s' where step: "redeem ud hmac reg cfg (rq_new_id q) (rq_user_id q) (rq_raw_code q) (rq_now q) s = (r, s')"
    by fastforce
  obtain rs' where rest: "redeem_all ud hmac reg cfg qs s' = (rs', t)" "rs = (q, r) # rs'"
    using Cons.prems(4) step by (auto simp: Let_def split: prod.splits)
  have "shop_ok s'" using redeem_step_exact [OF Cons.prems(1) step] by simp
  note IH = Cons.IH [OF this assms(2) _ rest(1)]
  have "count_failures_in_window u t0 s' = count_failures_in_window u t0 s
        + (if rq_user_id q = u \<and> answered_invalid r then 1 else 0)
    \<and> (rq_user_id q = u \<and> answered_invalid r \<longrightarrow> count_failures_in_window u t0 s < rs_max_attempts cfg)"
    using redeem_step_failures [OF Cons.prems(1) step assms(2)] Cons.prems(3) by simp
  with IH Cons.prems(3) show ?case by (auto simp: rest(2) split: if_splits)
qed

theorem guesses_bounded_witness:
  "\<exists>rs t. redeem_all ascii_unicode sample_hmac FORMATS sample_settings sample_requests sample_shop = (rs, t)
    \<and> count_where (\<lambda>(q, r). rq_user_id q = 1 \<and> answered_invalid r) rs \<le> 3"
proof -
  obtain rs t where run: "redeem_all ascii_unicode sample_hmac FORMATS sample_settings sample_requests sample_shop = (rs, t)"
    by fastforce
  have "rs_throttle sample_settings = Some PostgreSQLFailureThrottle" "rs_max_attempts sample_settings = 3"
    "count_failures_in_window 1 0 sample_shop = 0"
    by (simp_all add: sample_settings_def count_failures_in_window_def sample_shop_def one_user_def empty_database_def)
  moreover have "\<forall>q \<in> set sample_requests. 0 \<le> rq_now q \<and> rq_now q \<le> 0 + seconds (rs_window_seconds sample_settings)"
    by (simp add: sample_requests_def sample_settings_def seconds_def)
  ultimately show ?thesis
    using guesses_bounded [OF sample_shop_ok _ _ run, of 0 1] run by simp
qed

end
