(* ===== verification/Batches.thy ===== *)
theory Batches
  imports Users Redemption_Checks Code_Checks "HOL-Library.AList"
begin

text \<open>
  Printed batches: the pepper guard (\<open>app/application/redemption_codes.py\<close>), the life of a batch
  (\<open>scripts/code_batches.py\<close>) and the generation of its codes (\<open>scripts/generate_codes.py\<close>). The codes
  the random source draws, the fresh ids, the files that exist and the moments at which the database or
  the disk fails are arguments.
\<close>

section \<open>The pepper guard\<close>

record PepperMismatch =
  pm_batch_id :: uuid
  pm_city :: CityCode

definition active_batch_peppers :: "database \<Rightarrow> (uuid \<times> CityCode \<times> string option) list" where
  "active_batch_peppers s =
     map (\<lambda>b. (cb_id b, cb_city b, cb_pepper_fingerprint b)) (filter (\<lambda>b. cb_status b = ACTIVE) (code_batches s))"

definition find_pepper_mismatches :: "(uuid \<times> CityCode \<times> string option) list \<Rightarrow> string \<Rightarrow> PepperMismatch list" where
  "find_pepper_mismatches active_batches expected_fingerprint =
     map (\<lambda>(batch_id, city, _). \<lparr>pm_batch_id = batch_id, pm_city = city\<rparr>)
       (filter (\<lambda>(_, _, fingerprint). fingerprint \<noteq> None \<and> fingerprint \<noteq> Some expected_fingerprint) active_batches)"

definition verify_active_batch_peppers ::
  "(uuid \<times> CityCode \<times> string option) list \<Rightarrow> string \<Rightarrow> PepperMismatch list + unit" where
  "verify_active_batch_peppers active_batches expected_fingerprint =
     (let mismatches = find_pepper_mismatches active_batches expected_fingerprint in
      if mismatches \<noteq> [] then Inl mismatches else Inr ())"

text \<open>\<open>PepperGuard.check\<close>; without a configured pepper there is nothing to compare.\<close>

definition pepper_guard_check :: "string option \<Rightarrow> database \<Rightarrow> bool" where
  "pepper_guard_check expected_fingerprint s =
     (case expected_fingerprint of
        None \<Rightarrow> True
      | Some expected \<Rightarrow> find_pepper_mismatches (active_batch_peppers s) expected = [])"

section \<open>The life of a batch\<close>

definition allowed_from :: "BatchStatus \<Rightarrow> BatchStatus list option" where
  "allowed_from target =
     (case target of ACTIVE \<Rightarrow> Some [GENERATED] | VOID \<Rightarrow> Some [GENERATED, ACTIVE] | GENERATED \<Rightarrow> None)"

definition batch_event :: "uuid \<Rightarrow> BatchEventType \<Rightarrow> pystr option \<Rightarrow> pystr option \<Rightarrow> instant \<Rightarrow> CodeBatchEventModel" where
  "batch_event batch_id event_type actor detail now =
     \<lparr>be_batch_id = batch_id, be_event_type = event_type, be_actor = actor, be_detail = detail, be_created_at = now\<rparr>"

definition update_batches :: "(CodeBatchModel \<Rightarrow> bool) \<Rightarrow> (CodeBatchModel \<Rightarrow> CodeBatchModel) \<Rightarrow> database \<Rightarrow> database" where
  "update_batches p f s = s\<lparr>code_batches := update_where p f (code_batches s)\<rparr>"

definition add_event :: "CodeBatchEventModel \<Rightarrow> database \<Rightarrow> database" where
  "add_event e s = s\<lparr>code_batch_events := code_batch_events s @ [e]\<rparr>"

definition set_status :: "uuid \<Rightarrow> BatchStatus \<Rightarrow> pystr option \<Rightarrow> instant \<Rightarrow> ('e, bool) act" where
  "set_status batch_id target actor now s =
     (case allowed_from target of
        None \<Rightarrow> (Inl (Crash KeyError), s)
      | Some allowed \<Rightarrow>
          (let matches = (\<lambda>b. cb_id b = batch_id \<and> cb_status b \<in> set allowed);
               moved = (\<lambda>b. if target = ACTIVE then b\<lparr>cb_status := target, cb_activated_at := Some now\<rparr>
                            else b\<lparr>cb_status := target, cb_voided_at := Some now\<rparr>) in
           if exists_where matches (code_batches s)
           then (Inr True, add_event (batch_event batch_id (if target = ACTIVE then EVENT_ACTIVATED else EVENT_VOIDED) actor None now)
                   (update_batches matches moved s))
           else (Inr False, s)))"

text \<open>\<open>sha\<close> is SHA-256 of the dumped spec, as text.\<close>

definition freeze_batch ::
  "(pystr \<Rightarrow> pystr) \<Rightarrow> registry \<Rightarrow> uuid \<Rightarrow> string option \<Rightarrow> pystr option \<Rightarrow> instant \<Rightarrow> (FormatRegistryError, bool) act" where
  "freeze_batch sha reg batch_id export_sha256 actor now s =
     (case select_one (\<lambda>b. cb_id b = batch_id) (code_batches s) of
        None \<Rightarrow> (Inr False, s)
      | Some batch \<Rightarrow>
          (case get_format (cb_format_id batch) reg of
             Inl e \<Rightarrow> (Inl (Raised e), s)
           | Inr code_format \<Rightarrow>
               (let fp = fingerprint sha code_format in
                if cb_frozen_at batch \<noteq> None then (Inr (cb_format_fingerprint batch = Some fp), s)
                else
                  (let detail = cp ''fingerprint='' @ take 16 fp;
                       froze = update_batches (\<lambda>b. cb_id b = batch_id)
                         (\<lambda>b. b\<lparr>cb_format_fingerprint := Some fp, cb_frozen_at := Some now\<rparr>) s in
                   case export_sha256 of
                     None \<Rightarrow> (Inr True, add_event (batch_event batch_id EVENT_FROZEN actor (Some detail) now) froze)
                   | Some sha256 \<Rightarrow>
                       (Inr True, add_event (batch_event batch_id EVENT_EXPORTED actor
                           (Some (detail @ cp '' sha256='' @ take 16 (cp sha256))) now)
                         (update_batches (\<lambda>b. cb_id b = batch_id)
                           (\<lambda>b. b\<lparr>cb_exported_at := Some now, cb_export_sha256 := Some sha256\<rparr>) froze))))))"

definition batch_history :: "database \<Rightarrow> uuid \<Rightarrow> CodeBatchEventModel list" where
  "batch_history s batch_id = order_asc be_created_at (filter (\<lambda>e. be_batch_id e = batch_id) (code_batch_events s))"

text \<open>\<open>frozen_batch_formats\<close> of \<open>database.py\<close>, for the start-up check of the registry.\<close>

definition frozen_batch_formats :: "database \<Rightarrow> (pystr \<times> pystr) list" where
  "frozen_batch_formats s =
     concat (map (\<lambda>b. case cb_format_fingerprint b of None \<Rightarrow> [] | Some fp \<Rightarrow> if fp = [] then [] else [(cb_format_id b, fp)])
       (filter (\<lambda>b. cb_frozen_at b \<noteq> None) (code_batches s)))"

section \<open>Generating codes\<close>

definition INSERT_CHUNK :: int where
  "INSERT_CHUNK = 2000"

definition MAX_QUANTITY :: int where
  "MAX_QUANTITY = 5000000"

text \<open>The campaign name first (\<open>Campaign(...)\<close>, then the city of the same name), then the prefix.\<close>

definition city_from_name :: "unicode \<Rightarrow> pystr \<Rightarrow> CityCode option" where
  "city_from_name ud given =
     (case find (\<lambda>c. cp (campaign_value (CAMPAIGN_BY_CITY c)) = lower ud (strip given)) all_cities of
        Some c \<Rightarrow> Some c
      | None \<Rightarrow> find (\<lambda>c. cp (city_value c) = upper ud (strip given)) all_cities)"

text \<open>
  \<open>draws i\<close> is what the \<open>i\<close>-th call of the generator returns. The loop draws until it has enough
  different codes; \<open>tries\<close> bounds the draws, and \<open>None\<close> is a loop that has not ended by then.
\<close>

fun build_unique_codes :: "nat \<Rightarrow> nat \<Rightarrow> (nat \<Rightarrow> pystr) \<Rightarrow> pystr list \<Rightarrow> (pystr list \<times> (nat \<Rightarrow> pystr)) option" where
  "build_unique_codes 0 wanted draws codes = (if wanted \<le> length codes then Some (sort codes, draws) else None)"
| "build_unique_codes (Suc tries) wanted draws codes =
     (if wanted \<le> length codes then Some (sort codes, draws)
      else build_unique_codes tries wanted (\<lambda>i. draws (Suc i)) (List.insert (draws 0) codes))"

text \<open>The dict \<open>{hash: code}\<close>: a repeated hash keeps its place and takes the later code.\<close>

definition by_hash :: "(pystr \<Rightarrow> string) \<Rightarrow> pystr list \<Rightarrow> (string \<times> pystr) list" where
  "by_hash code_hash codes = fold (\<lambda>c m. AList.update (code_hash c) c m) codes []"

record print_order =
  po_batch_id :: uuid
  po_city :: CityCode
  po_quantity :: int
  po_coins_per_code :: int
  po_label :: pystr
  po_base_url :: pystr
  po_format_id :: pystr

definition new_code_row :: "print_order \<Rightarrow> instant \<Rightarrow> uuid \<Rightarrow> string \<Rightarrow> RedemptionCodeModel" where
  "new_code_row order now i h = \<lparr>rc_id = i, rc_city = po_city order, rc_code_hash = h, rc_created_at = now,
     rc_redeemed_at = None, rc_redeemed_by_user_id = None, rc_batch_id = Some (po_batch_id order)\<rparr>"

text \<open>\<open>ON CONFLICT (code_hash) DO NOTHING\<close>; the ids come from \<open>uuid4\<close>, one for each hash.\<close>

definition code_values :: "(nat \<Rightarrow> uuid) \<Rightarrow> (string \<times> pystr) list \<Rightarrow> database \<Rightarrow> (uuid \<times> string \<times> pystr) list" where
  "code_values ids rows s =
     filter (\<lambda>(_, h, _). \<not> exists_where (\<lambda>c. rc_code_hash c = h) (redemption_codes s)) (zip (map ids [0..<length rows]) rows)"

definition insert_codes ::
  "(pystr \<Rightarrow> string) \<Rightarrow> print_order \<Rightarrow> pystr list \<Rightarrow> instant \<Rightarrow> (nat \<Rightarrow> uuid) \<Rightarrow> ('e, pystr list) act" where
  "insert_codes code_hash order codes now ids s =
     (let pairs = code_values ids (by_hash code_hash codes) s in
      if \<not> distinct (map fst pairs) \<or> (\<exists>(i, _) \<in> set pairs. exists_where (\<lambda>c. rc_id c = i) (redemption_codes s))
      then (Inl (Crash (IntegrityError ''redemption_codes'')), s)
      else (Inr (map (snd \<circ> snd) pairs),
            s\<lparr>redemption_codes := redemption_codes s @ map (\<lambda>(i, h, _). new_code_row order now i h) pairs\<rparr>))"

text \<open>One row of the printer's file.\<close>

record csv_row =
  cv_batch_id :: uuid
  cv_city :: CityCode
  cv_printed_code :: pystr
  cv_code :: pystr
  cv_qr_url :: pystr

definition csv_row_of :: "unicode \<Rightarrow> CodeFormat \<Rightarrow> print_order \<Rightarrow> pystr \<Rightarrow> csv_row" where
  "csv_row_of ud f order code = \<lparr>cv_batch_id = po_batch_id order, cv_city = po_city order,
     cv_printed_code = format_printed code f, cv_code = code, cv_qr_url = qr_url ud (po_base_url order) code f\<rparr>"

text \<open>
  The world of a run: the generator's draws, fresh ids for the code rows, and \<open>outage k\<close>, whether the
  database or the disk raises in the \<open>k\<close>-th round of the loop.
\<close>

record print_world =
  pw_draws :: "nat \<Rightarrow> pystr"
  pw_ids :: "nat \<Rightarrow> uuid"
  pw_outage :: "nat \<Rightarrow> bool"

definition next_round :: "(nat \<Rightarrow> pystr) \<Rightarrow> nat \<Rightarrow> print_world \<Rightarrow> print_world" where
  "next_round draws used w = \<lparr>pw_draws = draws, pw_ids = (\<lambda>i. pw_ids w (i + used)), pw_outage = (\<lambda>k. pw_outage w (Suc k))\<rparr>"

text \<open>The loop; \<open>done\<close> are the codes whose rows were written. \<open>None\<close>: not ended within \<open>rounds\<close> and \<open>tries\<close>.\<close>

fun generate_loop ::
  "nat \<Rightarrow> nat \<Rightarrow> (pystr \<Rightarrow> string) \<Rightarrow> print_order \<Rightarrow> instant \<Rightarrow> int \<Rightarrow> print_world \<Rightarrow> pystr list \<Rightarrow> database
     \<Rightarrow> (('e raised + pystr list) \<times> database) option" where
  "generate_loop 0 tries code_hash order now left w written s =
     (if left \<le> 0 then Some (Inr written, s) else None)"
| "generate_loop (Suc rounds) tries code_hash order now left w written s =
     (if left \<le> 0 then Some (Inr written, s)
      else if pw_outage w 0 then Some (Inl (Crash (OSError ''outage'')), s)
      else
        (case build_unique_codes tries (nat (min INSERT_CHUNK left)) (pw_draws w) [] of
           None \<Rightarrow> None
         | Some (candidates, draws) \<Rightarrow>
             (case insert_codes code_hash order candidates now (pw_ids w) s of
                (Inl e, t) \<Rightarrow> Some (Inl e, t)
              | (Inr inserted, t) \<Rightarrow>
                  generate_loop rounds tries code_hash order now (left - int (length inserted))
                    (next_round draws (length candidates) w) (written @ inserted) t)))"

text \<open>The row of the batch and its first event, in one transaction.\<close>

definition new_batch :: "hmac_hex \<Rightarrow> pystr \<Rightarrow> print_order \<Rightarrow> CodeFormat \<Rightarrow> instant \<Rightarrow> CodeBatchModel" where
  "new_batch hmac pepper order f now = \<lparr>cb_id = po_batch_id order, cb_city = po_city order, cb_label = po_label order,
     cb_quantity = po_quantity order, cb_coins_per_code = po_coins_per_code order, cb_status = GENERATED,
     cb_created_at = now, cb_activated_at = None, cb_voided_at = None, cb_format_id = format_id f,
     cb_format_fingerprint = None, cb_exported_at = None, cb_export_sha256 = None, cb_frozen_at = None,
     cb_pepper_fingerprint = Some (pepper_fingerprint hmac pepper)\<rparr>"

definition register_batch :: "hmac_hex \<Rightarrow> pystr \<Rightarrow> print_order \<Rightarrow> CodeFormat \<Rightarrow> instant \<Rightarrow> ('e, unit) act" where
  "register_batch hmac pepper order f now =
     act_insert ''code_batches'' (\<lambda>s. \<not> exists_where (\<lambda>b. cb_id b = po_batch_id order) (code_batches s))
       (\<lambda>s. add_event (batch_event (po_batch_id order) EVENT_GENERATED None
            (Some (cp ''quantity='' @ show_int (po_quantity order) @ cp '' format='' @ format_id f)) now)
          (s\<lparr>code_batches := code_batches s @ [new_batch hmac pepper order f now]\<rparr>))"

text \<open>
  \<open>generate_batch\<close>: \<open>file_exists\<close> tells whether the output file is already there, \<open>shuffled\<close> is the order
  the rows are written in. The answer is the content of the file.
\<close>

definition generate_batch ::
  "nat \<Rightarrow> nat \<Rightarrow> unicode \<Rightarrow> hmac_hex \<Rightarrow> registry \<Rightarrow> pystr \<Rightarrow> print_order \<Rightarrow> bool \<Rightarrow> (csv_row list \<Rightarrow> csv_row list) \<Rightarrow> instant
     \<Rightarrow> print_world \<Rightarrow> database \<Rightarrow> ((FormatRegistryError raised + csv_row list) \<times> database) option" where
  "generate_batch rounds tries ud hmac reg pepper order file_exists shuffled now w s =
     (if \<not> (0 < po_quantity order \<and> po_quantity order \<le> MAX_QUANTITY)
      then Some (Inl (Crash (ValueError ''quantity'')), s)
      else if po_coins_per_code order < 0 then Some (Inl (Crash (ValueError ''coins_per_code'')), s)
      else case get_format (po_format_id order) reg of
        Inl e \<Rightarrow> Some (Inl (Raised e), s)
      | Inr f \<Rightarrow>
          if file_exists then Some (Inl (Crash (OSError ''FileExistsError'')), s)
          else
            (case register_batch hmac pepper order f now s of
               (Inl e, t) \<Rightarrow> Some (Inl e, t)
             | (Inr _, t) \<Rightarrow>
                 map_option (\<lambda>(r, u). (map_sum id (\<lambda>codes. shuffled (map (csv_row_of ud f order) codes)) r, u))
                   (generate_loop rounds tries (\<lambda>c. hash_redemption_code hmac c pepper) order now (po_quantity order) w [] t)))"

section \<open>What the loop writes\<close>

lemma build_sound:
  assumes "build_unique_codes n wanted draws codes = Some (cs, d)" "distinct codes" "length codes \<le> wanted"
  shows "distinct cs \<and> length cs = wanted \<and> set cs \<subseteq> set codes \<union> range draws \<and> range d \<subseteq> range draws"
  using assms
proof (induction n arbitrary: draws codes)
  case 0
  then show ?case by (auto split: if_splits)
next
  case (Suc n)
  show ?case
  proof (cases "wanted \<le> length codes")
    case True
    with Suc.prems show ?thesis by auto
  next
    case False
    have "range (\<lambda>i. draws (Suc i)) \<subseteq> range draws" by auto
    moreover have "length (List.insert (draws 0) codes) \<le> wanted" using False by (simp add: List.insert_def)
    ultimately show ?thesis
      using Suc.IH [of "\<lambda>i. draws (Suc i)" "List.insert (draws 0) codes"] Suc.prems False by auto
  qed
qed

lemma by_hash_fold:
  assumes "distinct (map fst m)" "\<forall>(h, c) \<in> set m. h = code_hash c \<and> c \<in> C"
  shows "distinct (map fst (fold (\<lambda>c m. AList.update (code_hash c) c m) codes m))
    \<and> (\<forall>(h, c) \<in> set (fold (\<lambda>c m. AList.update (code_hash c) c m) codes m). h = code_hash c \<and> c \<in> C \<union> set codes)
    \<and> length (fold (\<lambda>c m. AList.update (code_hash c) c m) codes m) \<le> length m + length codes"
  using assms
proof (induction codes arbitrary: m C)
  case (Cons c codes)
  let ?m = "AList.update (code_hash c) c m"
  have "set ?m \<subseteq> insert (code_hash c, c) (set m)" by (induction m) auto
  then have "\<forall>(h, x) \<in> set ?m. h = code_hash x \<and> x \<in> insert c C" using Cons.prems(2) by auto
  moreover have "distinct (map fst ?m)" using Cons.prems(1) by (rule distinct_update)
  moreover have "length ?m \<le> Suc (length m)" by (induction m) auto
  ultimately show ?case using Cons.IH [of ?m "insert c C"] by fastforce
qed simp

lemma by_hash_props:
  "distinct (map fst (by_hash code_hash codes))"
  "(h, c) \<in> set (by_hash code_hash codes) \<Longrightarrow> h = code_hash c \<and> c \<in> set codes"
  "length (by_hash code_hash codes) \<le> length codes"
  using by_hash_fold [of "[]" code_hash "{}" codes] by (auto simp: by_hash_def)

text \<open>The table of codes has grown by fresh rows for these codes, and nothing else has changed.\<close>

definition new_rows :: "(pystr \<Rightarrow> string) \<Rightarrow> print_order \<Rightarrow> instant \<Rightarrow> uuid list \<Rightarrow> pystr list \<Rightarrow> RedemptionCodeModel list" where
  "new_rows code_hash order now ks codes = map2 (\<lambda>i c. new_code_row order now i (code_hash c)) ks codes"

lemma new_code_row_simps [simp]: "rc_id (new_code_row order now i h) = i" "rc_code_hash (new_code_row order now i h) = h"
  "rc_redeemed_at (new_code_row order now i h) = None" "rc_redeemed_by_user_id (new_code_row order now i h) = None"
  "rc_batch_id (new_code_row order now i h) = Some (po_batch_id order)" "rc_city (new_code_row order now i h) = po_city order"
  by (simp_all add: new_code_row_def)

lemma new_rows_keys:
  assumes "length ks = length codes"
  shows "map rc_id (new_rows code_hash order now ks codes) = ks"
    and "map rc_code_hash (new_rows code_hash order now ks codes) = map code_hash codes"
    and "rc_id ` set (new_rows code_hash order now ks codes) = set ks"
    and "rc_code_hash ` set (new_rows code_hash order now ks codes) = code_hash ` set codes"
proof -
  show keys: "map rc_id (new_rows code_hash order now ks codes) = ks"
    "map rc_code_hash (new_rows code_hash order now ks codes) = map code_hash codes"
    using assms by (induction ks codes rule: list_induct2) (auto simp: new_rows_def)
  then show "rc_id ` set (new_rows code_hash order now ks codes) = set ks"
    "rc_code_hash ` set (new_rows code_hash order now ks codes) = code_hash ` set codes"
    by (metis list.set_map)+
qed

lemma new_rows_in: "r \<in> set (new_rows code_hash order now ks codes) \<Longrightarrow> \<exists>i. \<exists>c \<in> set codes. r = new_code_row order now i (code_hash c)"
  by (auto simp: new_rows_def dest: set_zip_rightD)

definition codes_added :: "uuid set \<Rightarrow> (pystr \<Rightarrow> string) \<Rightarrow> print_order \<Rightarrow> instant \<Rightarrow> database \<Rightarrow> pystr list \<Rightarrow> database \<Rightarrow> bool" where
  "codes_added ids code_hash order now s codes t \<longleftrightarrow>
     (\<exists>ks. length ks = length codes \<and> distinct ks \<and> set ks \<subseteq> ids \<and> set ks \<inter> rc_id ` set (redemption_codes s) = {}
        \<and> distinct (map code_hash codes) \<and> code_hash ` set codes \<inter> rc_code_hash ` set (redemption_codes s) = {}
        \<and> t = s\<lparr>redemption_codes := redemption_codes s @ new_rows code_hash order now ks codes\<rparr>)"

lemma codes_added_none: "codes_added ids code_hash order now s [] s"
  by (simp add: codes_added_def new_rows_def)

lemma codes_added_more:
  assumes "codes_added ids code_hash order now s xs t" "codes_added ids' code_hash order now t ys u" "ids' \<subseteq> ids"
  shows "codes_added ids code_hash order now s (xs @ ys) u"
proof -
  from assms(1) obtain ks where ks: "length ks = length xs" "distinct ks" "set ks \<subseteq> ids" "set ks \<inter> rc_id ` set (redemption_codes s) = {}"
      "distinct (map code_hash xs)" "code_hash ` set xs \<inter> rc_code_hash ` set (redemption_codes s) = {}"
      and t: "t = s\<lparr>redemption_codes := redemption_codes s @ new_rows code_hash order now ks xs\<rparr>"
    unfolding codes_added_def by blast
  from assms(2) obtain js where js: "length js = length ys" "distinct js" "set js \<subseteq> ids'" "set js \<inter> rc_id ` set (redemption_codes t) = {}"
      "distinct (map code_hash ys)" "code_hash ` set ys \<inter> rc_code_hash ` set (redemption_codes t) = {}"
      and u: "u = t\<lparr>redemption_codes := redemption_codes t @ new_rows code_hash order now js ys\<rparr>"
    unfolding codes_added_def by blast
  have old: "rc_code_hash ` set (redemption_codes t) = rc_code_hash ` set (redemption_codes s) \<union> code_hash ` set xs"
    "rc_id ` set (redemption_codes t) = rc_id ` set (redemption_codes s) \<union> set ks"
    using new_rows_keys(3,4) [OF ks(1)] by (simp_all add: t image_Un)
  have "new_rows code_hash order now (ks @ js) (xs @ ys) = new_rows code_hash order now ks xs @ new_rows code_hash order now js ys"
    using ks(1) by (simp add: new_rows_def)
  moreover have "distinct (map code_hash (xs @ ys))" "code_hash ` set (xs @ ys) \<inter> rc_code_hash ` set (redemption_codes s) = {}"
    "distinct (ks @ js)" "set (ks @ js) \<inter> rc_id ` set (redemption_codes s) = {}" "set (ks @ js) \<subseteq> ids"
    using ks js assms(3) unfolding old by auto
  ultimately show ?thesis
    unfolding codes_added_def using ks(1) js(1) by (intro exI [of _ "ks @ js"]) (simp add: t u)
qed

lemma new_rows_values:
  "\<forall>(i, h, c) \<in> set vs. h = code_hash c \<Longrightarrow>
     map (\<lambda>(i, h, _). new_code_row order now i h) vs = new_rows code_hash order now (map fst vs) (map (snd \<circ> snd) vs)"
  by (induction vs) (auto simp: new_rows_def)

lemma insert_codes_sound:
  assumes "insert_codes code_hash order codes now ids s = (Inr inserted, t)"
  shows "codes_added (range ids) code_hash order now s inserted t \<and> set inserted \<subseteq> set codes \<and> length inserted \<le> length codes"
proof -
  let ?rows = "by_hash code_hash codes" and ?vals = "code_values ids (by_hash code_hash codes) s"
  let ?z = "zip (map ids [0..<length (by_hash code_hash codes)]) (by_hash code_hash codes)"
  have t: "inserted = map (snd \<circ> snd) ?vals" "distinct (map fst ?vals)"
      "\<forall>(i, _) \<in> set ?vals. \<not> exists_where (\<lambda>c. rc_id c = i) (redemption_codes s)"
      "t = s\<lparr>redemption_codes := redemption_codes s @ map (\<lambda>(i, h, _). new_code_row order now i h) ?vals\<rparr>"
    using assms by (auto simp: insert_codes_def Let_def split: if_splits)
  have vals: "h = code_hash c \<and> c \<in> set codes \<and> i \<in> range ids \<and> h \<notin> rc_code_hash ` set (redemption_codes s)"
    if "(i, h, c) \<in> set ?vals" for i h c
  proof -
    from that have z: "(i, h, c) \<in> set ?z" and new: "h \<notin> rc_code_hash ` set (redemption_codes s)" by (auto simp: code_values_def)
    from set_zip_leftD [OF z] set_zip_rightD [OF z] by_hash_props(2) [of h c code_hash codes] new show ?thesis by auto
  qed
  have "map (fst \<circ> snd) ?z = map fst ?rows" by (simp flip: map_map)
  then have "distinct (map (fst \<circ> snd) ?vals)"
    using by_hash_props(1) [of code_hash codes] by (simp add: code_values_def distinct_map_filter)
  moreover have "map (fst \<circ> snd) ?vals = map code_hash inserted" using vals by (auto simp: t(1))
  ultimately have "distinct (map code_hash inserted)" by simp
  moreover have "map (\<lambda>(i, h, _). new_code_row order now i h) ?vals = new_rows code_hash order now (map fst ?vals) inserted"
    unfolding t(1) using vals by (intro new_rows_values) blast
  moreover have "code_hash ` set inserted \<inter> rc_code_hash ` set (redemption_codes s) = {}" "set inserted \<subseteq> set codes"
    "set (map fst ?vals) \<subseteq> range ids" "set (map fst ?vals) \<inter> rc_id ` set (redemption_codes s) = {}"
    using vals t(3) unfolding t(1) by fastforce+
  moreover have "length ?vals \<le> length ?rows"
    unfolding code_values_def using length_filter_le [of _ ?z] by (rule order_trans) simp
  ultimately show ?thesis
    unfolding codes_added_def using t(1,2,4) by_hash_props(3) [of code_hash codes]
    by (intro conjI exI [of _ "map fst ?vals"]) simp_all
qed

text \<open>Whatever the loop comes to, it has only added rows for codes that were drawn.\<close>

lemma generate_loop_sound:
  assumes "generate_loop rounds tries code_hash order now left w written s = Some (r :: 'e raised + pystr list, t)" "0 \<le> left"
  shows "\<exists>new. codes_added (range (pw_ids w)) code_hash order now s new t \<and> set new \<subseteq> range (pw_draws w) \<and> int (length new) \<le> left
    \<and> (\<forall>codes. r = Inr codes \<longrightarrow> codes = written @ new \<and> int (length new) = left)"
  using assms
proof (induction rounds arbitrary: left w written s)
  case 0
  then have "left = 0" "t = s" "r = Inr written" by (auto split: if_splits)
  then show ?case using codes_added_none by (intro exI [of _ "[]"]) auto
next
  case (Suc rounds)
  have stopped: ?case if "t = s" "r = Inr written \<and> left = 0 \<or> (\<exists>e. r = Inl e)"
    using that codes_added_none Suc.prems(2) by (intro exI [of _ "[]"]) auto
  show ?case
  proof (cases "left \<le> 0 \<or> pw_outage w 0")
    case True
    with stopped Suc.prems show ?thesis by (auto split: if_splits)
  next
    case False
    let ?wanted = "nat (min INSERT_CHUNK left)"
    from Suc.prems False obtain candidates draws where b: "build_unique_codes tries ?wanted (pw_draws w) [] = Some (candidates, draws)"
      by (auto split: option.splits)
    obtain q u where i: "insert_codes code_hash order candidates now (pw_ids w) s = (q :: 'e raised + pystr list, u)" by fastforce
    note drawn = build_sound [OF b, simplified]
    show ?thesis
    proof (cases q)
      case (Inl e)
      with i have "u = s" by (auto simp: insert_codes_def Let_def split: if_splits)
      with Suc.prems(1) False b i Inl stopped show ?thesis by auto
    next
      case (Inr inserted)
      with i have ins: "insert_codes code_hash order candidates now (pw_ids w) s = (Inr inserted :: 'e raised + pystr list, u)" by simp
      note added = insert_codes_sound [OF ins]
      let ?w = "next_round draws (length candidates) w"
      have rest: "generate_loop rounds tries code_hash order now (left - int (length inserted)) ?w (written @ inserted) u = Some (r, t)"
        using Suc.prems(1) False b ins by simp
      have "length inserted \<le> nat left" using conjunct2 [OF conjunct2 [OF added]] drawn by simp
      then have "int (length inserted) \<le> left" using False by linarith
      then obtain new where new: "codes_added (range (pw_ids ?w)) code_hash order now u new t" "set new \<subseteq> range (pw_draws ?w)"
          "int (length new) \<le> left - int (length inserted)"
          "\<forall>codes. r = Inr codes \<longrightarrow> codes = (written @ inserted) @ new \<and> int (length new) = left - int (length inserted)"
        using Suc.IH [OF rest] by auto
      have "range (pw_ids ?w) \<subseteq> range (pw_ids w)" "range (pw_draws ?w) \<subseteq> range (pw_draws w)"
        using drawn by (auto simp: next_round_def)
      with new added drawn codes_added_more [of "range (pw_ids w)" code_hash order now s inserted u "range (pw_ids ?w)" new t]
      show ?thesis by (intro exI [of _ "inserted @ new"]) auto
    qed
  qed
qed

section \<open>The loop ends when nothing collides\<close>

lemma build_ends:
  assumes "inj_on draws {..<wanted - length codes}" "distinct codes" "set codes \<inter> draws ` {..<wanted - length codes} = {}"
    and "wanted \<le> length codes + n"
  shows "\<exists>cs. build_unique_codes n wanted draws codes = Some (cs, \<lambda>i. draws (i + (wanted - length codes)))
    \<and> set cs = set codes \<union> draws ` {..<wanted - length codes}"
  using assms
proof (induction n arbitrary: draws codes)
  case 0
  then show ?case by auto
next
  case (Suc n)
  show ?case
  proof (cases "wanted \<le> length codes")
    case True
    then show ?thesis by auto
  next
    case False
    let ?d = "\<lambda>i. draws (Suc i)" and ?m = "wanted - length codes" and ?k = "wanted - length (draws 0 # codes)"
    have m: "{..<?m} = insert 0 (Suc ` {..<?k})"
      using False by (simp add: lessThan_Suc_eq_insert_0 flip: Suc_diff_Suc)
    have new: "draws 0 \<notin> set codes" using Suc.prems(3) unfolding m by auto
    have "inj_on ?d {..<?k}" using Suc.prems(1) unfolding m by (auto simp: inj_on_def)
    moreover have "set (draws 0 # codes) \<inter> ?d ` {..<?k} = {}" using Suc.prems(1,3) unfolding m by (auto simp: inj_on_def)
    ultimately obtain cs where "build_unique_codes n wanted ?d (draws 0 # codes) = Some (cs, \<lambda>i. ?d (i + ?k))"
      and cs: "set cs = set (draws 0 # codes) \<union> ?d ` {..<?k}"
      using Suc.IH [of ?d "draws 0 # codes"] Suc.prems(2,4) new by auto
    moreover have "(\<lambda>i. ?d (i + ?k)) = (\<lambda>i. draws (i + ?m))"
      using False by (auto simp: fun_eq_iff Suc_diff_Suc)
    moreover have "draws ` {..<?m} = insert (draws 0) (?d ` {..<?k})" unfolding m by (simp add: image_image)
    ultimately show ?thesis using False new cs by simp
  qed
qed

text \<open>No two of the next \<open>n\<close> codes share a text, a hash or an id, and the table has none of them.\<close>

definition no_collision :: "nat \<Rightarrow> (pystr \<Rightarrow> string) \<Rightarrow> print_world \<Rightarrow> database \<Rightarrow> bool" where
  "no_collision n code_hash w s \<longleftrightarrow> inj_on (\<lambda>i. code_hash (pw_draws w i)) {..<n} \<and> inj_on (pw_ids w) {..<n}
     \<and> (\<lambda>i. code_hash (pw_draws w i)) ` {..<n} \<inter> rc_code_hash ` set (redemption_codes s) = {}
     \<and> pw_ids w ` {..<n} \<inter> rc_id ` set (redemption_codes s) = {}"

lemma by_hash_distinct:
  assumes "distinct (map code_hash codes)"
  shows "by_hash code_hash codes = map (\<lambda>c. (code_hash c, c)) codes"
proof -
  have "fold (\<lambda>c m. AList.update (code_hash c) c m) codes m = m @ map (\<lambda>c. (code_hash c, c)) codes"
    if "distinct (map fst m @ map code_hash codes)" for m
    using that
  proof (induction codes arbitrary: m)
    case (Cons c codes)
    then have "code_hash c \<notin> fst ` set m" by auto
    then have "AList.update (code_hash c) c m = m @ [(code_hash c, c)]" by (induction m) auto
    with Cons show ?case by simp
  qed simp
  from this [of "[]"] assms show ?thesis by (simp add: by_hash_def)
qed

lemma shifted:
  fixes f :: "nat \<Rightarrow> 'z"
  assumes "inj_on f {..<n}" "k \<le> n"
  shows "(\<lambda>i. f (i + k)) ` {..<n - k} \<inter> f ` {..<k} = {}" "inj_on (\<lambda>i. f (i + k)) {..<n - k}"
    "(\<lambda>i. f (i + k)) ` {..<n - k} \<subseteq> f ` {..<n}"
proof -
  have eq: "f i = f j \<longleftrightarrow> i = j" if "i < n" "j < n" for i j using inj_on_eq_iff [OF assms(1)] that by simp
  show "(\<lambda>i. f (i + k)) ` {..<n - k} \<inter> f ` {..<k} = {}" using assms(2) eq by fastforce
  show "inj_on (\<lambda>i. f (i + k)) {..<n - k}" using eq by (auto intro!: inj_onI)
qed (use assms(2) in auto)

lemma disjoint_shift: "S \<inter> T = {} \<Longrightarrow> S \<subseteq> F \<Longrightarrow> F \<inter> A = {} \<Longrightarrow> S \<inter> (A \<union> T) = {}"
  by blast

lemma generate_loop_ends:
  assumes "no_collision (nat left) code_hash w s" "\<forall>k. \<not> pw_outage w k" "nat left \<le> rounds" "nat (min INSERT_CHUNK left) \<le> tries"
  shows "\<exists>codes t. generate_loop rounds tries code_hash order now left w written s = Some (Inr codes :: 'e raised + pystr list, t)"
  using assms
proof (induction rounds arbitrary: left w written s)
  case 0
  then show ?case by simp
next
  case (Suc rounds)
  show ?case
  proof (cases "left \<le> 0")
    case False
    let ?n = "nat left" and ?wanted = "nat (min INSERT_CHUNK left)" and ?draw = "\<lambda>i. code_hash (pw_draws w i)"
    have le: "?wanted \<le> ?n" by simp
    have inj: "inj_on ?draw {..<?n}" "inj_on (pw_ids w) {..<?n}" using Suc.prems(1) by (simp_all add: no_collision_def)
    have "inj_on (pw_draws w) {..<?wanted}" using inj(1) by (auto simp: inj_on_def)
    then obtain candidates where b: "build_unique_codes tries ?wanted (pw_draws w) [] = Some (candidates, \<lambda>i. pw_draws w (i + ?wanted))"
      and which: "set candidates = pw_draws w ` {..<?wanted}"
      using build_ends [of "pw_draws w" ?wanted "[]" tries] Suc.prems(4) by auto
    note drawn = build_sound [OF b, simplified]
    have hashes: "distinct (map code_hash candidates)"
      using drawn which inj_on_subset [OF inj(1), of "{..<?wanted}"] le by (auto simp: distinct_map inj_on_def)
    have fresh: "\<not> exists_where (\<lambda>r. rc_code_hash r = code_hash c) (redemption_codes s)" if c: "c \<in> set candidates" for c
    proof -
      from c which le obtain i where "c = pw_draws w i" "i < ?n" by auto
      then have "code_hash c \<in> ?draw ` {..<?n}" by blast
      with Suc.prems(1) have "code_hash c \<notin> rc_code_hash ` set (redemption_codes s)" unfolding no_collision_def by blast
      then show ?thesis unfolding exists_where_iff by (metis imageI)
    qed
    have vals: "code_values (pw_ids w) (by_hash code_hash candidates) s
        = zip (map (pw_ids w) [0..<length candidates]) (map (\<lambda>c. (code_hash c, c)) candidates)"
      unfolding code_values_def by_hash_distinct [OF hashes] using fresh by (auto simp: filter_id_conv dest!: set_zip_rightD)
    have ids: "distinct (map (pw_ids w) [0..<length candidates])"
      using drawn inj_on_subset [OF inj(2), of "{..<?wanted}"] le by (simp add: distinct_map atLeast0LessThan)
    have "map fst (code_values (pw_ids w) (by_hash code_hash candidates) s) = map (pw_ids w) [0..<length candidates]"
      "map (snd \<circ> snd) (code_values (pw_ids w) (by_hash code_hash candidates) s) = candidates"
      unfolding vals by (simp_all flip: map_map) (simp add: comp_def)
    moreover have "\<not> (\<exists>(i, _) \<in> set (code_values (pw_ids w) (by_hash code_hash candidates) s). exists_where (\<lambda>c. rc_id c = i) (redemption_codes s))"
    proof -
      have "pw_ids w k \<notin> rc_id ` set (redemption_codes s)" if "k < length candidates" for k
      proof -
        have "pw_ids w k \<in> pw_ids w ` {..<?n}" using that drawn le by auto
        with Suc.prems(1) show ?thesis unfolding no_collision_def by blast
      qed
      then show ?thesis unfolding vals by (auto dest!: set_zip_leftD) (metis imageI)
    qed
    ultimately obtain u where ins: "insert_codes code_hash order candidates now (pw_ids w) s = (Inr candidates :: 'e raised + pystr list, u)"
      and u: "u = s\<lparr>redemption_codes := redemption_codes s
        @ map (\<lambda>(i, h, _). new_code_row order now i h) (code_values (pw_ids w) (by_hash code_hash candidates) s)\<rparr>"
      using ids by (simp add: insert_codes_def Let_def)
    have rows: "map (\<lambda>(i, h, _). new_code_row order now i h) (code_values (pw_ids w) (by_hash code_hash candidates) s)
        = new_rows code_hash order now (map (pw_ids w) [0..<length candidates]) candidates"
      unfolding vals by (simp add: new_rows_def zip_map2 comp_def split_beta)
    have old: "rc_code_hash ` set (redemption_codes u) = rc_code_hash ` set (redemption_codes s) \<union> ?draw ` {..<?wanted}"
      "rc_id ` set (redemption_codes u) = rc_id ` set (redemption_codes s) \<union> pw_ids w ` {..<?wanted}"
      using drawn which by (simp_all add: u rows image_Un new_rows_keys image_image atLeast0LessThan)
    let ?w = "next_round (\<lambda>i. pw_draws w (i + ?wanted)) (length candidates) w"
    have now_left: "nat (left - int (length candidates)) = ?n - ?wanted"
      using drawn False by (auto simp: INSERT_CHUNK_def min_def)
    have fresh_keys: "?draw ` {..<?n} \<inter> rc_code_hash ` set (redemption_codes s) = {}"
      "pw_ids w ` {..<?n} \<inter> rc_id ` set (redemption_codes s) = {}" using Suc.prems(1) by (simp_all add: no_collision_def)
    have "(\<lambda>i. ?draw (i + ?wanted)) ` {..<?n - ?wanted} \<inter> rc_code_hash ` set (redemption_codes u) = {}"
      "(\<lambda>i. pw_ids w (i + ?wanted)) ` {..<?n - ?wanted} \<inter> rc_id ` set (redemption_codes u) = {}"
      unfolding old
      by (rule disjoint_shift [OF shifted(1) [OF inj(1) le] shifted(3) [OF inj(1) le] fresh_keys(1)],
        rule disjoint_shift [OF shifted(1) [OF inj(2) le] shifted(3) [OF inj(2) le] fresh_keys(2)])
    then have "no_collision (?n - ?wanted) code_hash ?w u"
      using shifted(2) [OF inj(1) le] shifted(2) [OF inj(2) le] drawn by (simp add: no_collision_def next_round_def)
    moreover have "nat (left - int (length candidates)) \<le> rounds" "nat (min INSERT_CHUNK (left - int (length candidates))) \<le> tries"
      using Suc.prems(3,4) drawn False by (auto simp: INSERT_CHUNK_def)
    moreover have "\<forall>k. \<not> pw_outage ?w k" using Suc.prems(2) by (simp add: next_round_def)
    ultimately show ?thesis using Suc.IH [of "left - int (length candidates)" ?w u] Suc.prems(2) False b ins now_left by simp
  qed simp
qed

end
