(* ===== verification/Batch_Checks.thy ===== *)
theory Batch_Checks
  imports Batches
begin

text \<open>
  What printing a batch promises: the run ends with the number of codes ordered, whatever happens the
  tables stay consistent and nothing old changes, a printed code pays exactly while its batch is active,
  and a batch only moves forward.
\<close>

section \<open>What a run leaves in the tables\<close>

definition generated_event :: "print_order \<Rightarrow> CodeFormat \<Rightarrow> instant \<Rightarrow> CodeBatchEventModel" where
  "generated_event order f now = batch_event (po_batch_id order) EVENT_GENERATED None
     (Some (cp ''quantity='' @ show_int (po_quantity order) @ cp '' format='' @ format_id f)) now"

text \<open>The batch with its first event, and one row for each of the codes; nothing else has changed.\<close>

definition batch_written ::
  "hmac_hex \<Rightarrow> pystr \<Rightarrow> print_order \<Rightarrow> CodeFormat \<Rightarrow> instant \<Rightarrow> database \<Rightarrow> pystr list \<Rightarrow> database \<Rightarrow> bool" where
  "batch_written hmac pepper order f now s codes t \<longleftrightarrow>
     (\<exists>ks. length ks = length codes
        \<and> t = s\<lparr>code_batches := code_batches s @ [new_batch hmac pepper order f now],
              code_batch_events := code_batch_events s @ [generated_event order f now],
              redemption_codes := redemption_codes s
                @ new_rows (\<lambda>c. hash_redemption_code hmac c pepper) order now ks codes\<rparr>)"

text \<open>No coins were ever paid for the codes the run may create: their ids are fresh.\<close>

definition ids_unpaid :: "print_world \<Rightarrow> database \<Rightarrow> bool" where
  "ids_unpaid w s \<longleftrightarrow> (\<forall>i. recorded_amount s (redemption_idempotency_key (pw_ids w i)) = None)"

lemma register_batch_result:
  "register_batch hmac pepper order f now s =
     (if exists_where (\<lambda>b. cb_id b = po_batch_id order) (code_batches s)
      then (Inl (Crash (IntegrityError ''code_batches'')), s)
      else (Inr (), s\<lparr>code_batches := code_batches s @ [new_batch hmac pepper order f now],
              code_batch_events := code_batch_events s @ [generated_event order f now]\<rparr>))"
  by (auto simp: register_batch_def act_insert_def add_event_def generated_event_def)

text \<open>The rows of a run keep the shop consistent.\<close>

lemma shop_ok_generated:
  assumes s: "shop_ok s" and b: "cb_id b \<notin> cb_id ` set (code_batches s)" "0 \<le> cb_coins_per_code b"
    and added: "codes_added (range (pw_ids w)) h order now
        (s\<lparr>code_batches := code_batches s @ [b], code_batch_events := es\<rparr>) codes t"
    and ids: "ids_unpaid w s"
  shows "shop_ok t"
proof -
  from added obtain ks where ks: "length ks = length codes" "distinct ks" "set ks \<subseteq> range (pw_ids w)"
      "set ks \<inter> rc_id ` set (redemption_codes s) = {}" "distinct (map h codes)"
      "h ` set codes \<inter> rc_code_hash ` set (redemption_codes s) = {}"
    and t: "t = s\<lparr>code_batches := code_batches s @ [b], code_batch_events := es,
        redemption_codes := redemption_codes s @ new_rows h order now ks codes\<rparr>"
    unfolding codes_added_def by auto
  note keys = new_rows_keys [OF ks(1), of h order now]
  have "codes_ok t"
    using s b ks keys by (auto simp: shop_ok_def codes_ok_def t dest!: new_rows_in)
  moreover have "count_flavor_codes t u city = count_flavor_codes s u city" for u city
  proof -
    have "count_where (\<lambda>c. rc_redeemed_by_user_id c = Some u \<and> rc_city c = city) (new_rows h order now ks codes) = 0"
      by (auto simp: count_where_zero_iff dest!: new_rows_in)
    then show ?thesis by (simp add: count_flavor_codes_def t)
  qed
  then have "entries_ok t" using s by (simp add: shop_ok_def entries_ok_def points_of_def progress_of_def t)
  moreover have "recorded_amount t = recorded_amount s" by (simp add: t recorded_amount_def fun_eq_iff)
  then have "unpaid_ok t"
  proof -
    have "recorded_amount s (redemption_idempotency_key (rc_id c)) = None" if "c \<in> set (new_rows h order now ks codes)" for c
    proof -
      from that have "rc_id c \<in> range (pw_ids w)" using ks(3) keys(3) by auto
      with ids show ?thesis by (auto simp: ids_unpaid_def)
    qed
    with s \<open>recorded_amount t = recorded_amount s\<close> show ?thesis by (auto simp: shop_ok_def unpaid_ok_def t)
  qed
  moreover have "ledger_ok t" using s ledger_ok_frame [of t s] by (simp add: shop_ok_def t)
  ultimately show ?thesis by (simp add: shop_ok_def)
qed

text \<open>Either nothing was written, or the batch is there with some of its codes.\<close>

lemma generation_rows:
  assumes "generate_batch rounds tries ud hmac reg pepper order file_exists shuffled now w s = Some (r, t)"
  obtains (refused) e where "t = s" "r = Inl e"
  | (written) f codes where "get_format (po_format_id order) reg = Inr f" "0 < po_quantity order" "0 \<le> po_coins_per_code order"
      "po_batch_id order \<notin> cb_id ` set (code_batches s)" "int (length codes) \<le> po_quantity order" "set codes \<subseteq> range (pw_draws w)"
      "codes_added (range (pw_ids w)) (\<lambda>c. hash_redemption_code hmac c pepper) order now
        (s\<lparr>code_batches := code_batches s @ [new_batch hmac pepper order f now],
           code_batch_events := code_batch_events s @ [generated_event order f now]\<rparr>) codes t"
      "\<forall>rows. r = Inr rows \<longrightarrow> int (length codes) = po_quantity order \<and> rows = shuffled (map (csv_row_of ud f order) codes)"
proof (cases "0 < po_quantity order \<and> po_quantity order \<le> MAX_QUANTITY \<and> 0 \<le> po_coins_per_code order \<and> \<not> file_exists
    \<and> po_batch_id order \<notin> cb_id ` set (code_batches s) \<and> (\<exists>f. get_format (po_format_id order) reg = Inr f)")
  case False
  with assms(1) have "t = s \<and> (\<exists>e. r = Inl e)"
    by (auto simp: generate_batch_def register_batch_result split: if_splits sum.splits)
  with refused show ?thesis by blast
next
  case True
  then obtain f where f: "get_format (po_format_id order) reg = Inr f" by blast
  let ?h = "\<lambda>c. hash_redemption_code hmac c pepper"
  define s1 where "s1 = s\<lparr>code_batches := code_batches s @ [new_batch hmac pepper order f now],
    code_batch_events := code_batch_events s @ [generated_event order f now]\<rparr>"
  have reg: "register_batch hmac pepper order f now s = (Inr () :: FormatRegistryError raised + unit, s1)"
    using True by (auto simp: register_batch_result s1_def image_iff)
  obtain q where q: "generate_loop rounds tries ?h order now (po_quantity order) w [] s1 = Some (q, t)"
    and r: "r = map_sum id (\<lambda>codes. shuffled (map (csv_row_of ud f order) codes)) q"
    using assms(1) True f reg by (auto simp: generate_batch_def)
  from generate_loop_sound [OF q] True obtain new
    where new: "codes_added (range (pw_ids w)) ?h order now s1 new t" "set new \<subseteq> range (pw_draws w)"
      "int (length new) \<le> po_quantity order" "\<forall>codes. q = Inr codes \<longrightarrow> codes = new \<and> int (length new) = po_quantity order"
    by auto
  have "\<forall>rows. r = Inr rows \<longrightarrow> int (length new) = po_quantity order \<and> rows = shuffled (map (csv_row_of ud f order) new)"
    using r new(4) by (cases q) auto
  with True show ?thesis using written f new(1-3) unfolding s1_def by blast
qed

lemma generation_result:
  assumes run: "generate_batch rounds tries ud hmac reg pepper order file_exists shuffled now w s = Some (r, t)"
    and shop: "shop_ok s" "ids_unpaid w s"
  obtains (refused) e where "t = s" "r = Inl e"
  | (written) f codes where "get_format (po_format_id order) reg = Inr f"
      "batch_written hmac pepper order f now s codes t" "distinct codes" "set codes \<subseteq> range (pw_draws w)"
      "int (length codes) \<le> po_quantity order" "shop_ok t" "0 < po_quantity order"
      "\<forall>rows. r = Inr rows \<longrightarrow> int (length codes) = po_quantity order \<and> rows = shuffled (map (csv_row_of ud f order) codes)"
  using run
proof (rule generation_rows)
  fix e
  assume "t = s" "r = Inl e"
  then show thesis by (rule refused)
next
  fix f codes
  assume f: "get_format (po_format_id order) reg = Inr f" "0 \<le> po_coins_per_code order" "0 < po_quantity order"
      "po_batch_id order \<notin> cb_id ` set (code_batches s)" "int (length codes) \<le> po_quantity order" "set codes \<subseteq> range (pw_draws w)"
    and added: "codes_added (range (pw_ids w)) (\<lambda>c. hash_redemption_code hmac c pepper) order now
        (s\<lparr>code_batches := code_batches s @ [new_batch hmac pepper order f now],
           code_batch_events := code_batch_events s @ [generated_event order f now]\<rparr>) codes t"
    and rows: "\<forall>rows. r = Inr rows \<longrightarrow> int (length codes) = po_quantity order \<and> rows = shuffled (map (csv_row_of ud f order) codes)"
  have "shop_ok t" using shop_ok_generated [OF shop(1) _ _ added shop(2)] f by (simp add: new_batch_def)
  moreover have "batch_written hmac pepper order f now s codes t" "distinct codes"
    using added by (auto simp: codes_added_def batch_written_def distinct_map)
  ultimately show thesis using written f(1,3,5,6) rows by blast
qed

lemma found_written:
  assumes "batch_written hmac pepper order f now s codes t" "shop_ok t" "c \<in> set codes"
  obtains k where "found_code t (hash_redemption_code hmac c pepper)
    = Some (new_code_row order now k (hash_redemption_code hmac c pepper))"
proof -
  let ?h = "\<lambda>c. hash_redemption_code hmac c pepper"
  from assms(1) obtain ks where ks: "length ks = length codes"
    and t: "redemption_codes t = redemption_codes s @ new_rows ?h order now ks codes"
    unfolding batch_written_def by force
  from assms(3) ks obtain k where "(k, c) \<in> set (zip ks codes)"
    by (metis in_set_impl_in_set_zip2)
  then have "new_code_row order now k (?h c) \<in> set (redemption_codes t)"
    unfolding t new_rows_def by force
  with assms(2) have "select_one (\<lambda>x. rc_code_hash x = rc_code_hash (new_code_row order now k (?h c))) (redemption_codes t)
      = Some (new_code_row order now k (?h c))"
    by (intro select_one_unique) (auto simp: shop_ok_def codes_ok_def)
  then show thesis by (intro that [of k]) (simp add: found_code_def)
qed

lemma batch_of_written:
  assumes "code_batches t = code_batches s @ [b]" "rc_batch_id c = Some (cb_id b)" "codes_ok t"
  shows "batch_of t c = Some b"
proof -
  have "select_one (\<lambda>x. cb_id x = cb_id b) (code_batches t) = Some b"
    using assms by (intro select_one_unique) (auto simp: codes_ok_def)
  then show ?thesis using assms(2) by (simp add: batch_of_def eq_commute)
qed

lemma in_active_batch_written:
  assumes "code_batches t = code_batches s @ [b]" "cb_status b \<noteq> ACTIVE"
  shows "in_active_batch t c = in_active_batch s c"
  using assms by (auto simp: in_active_batch_def batch_of_def select_one_append split: option.splits)

section \<open>A press\<close>

definition sample_order :: "int \<Rightarrow> print_order" where
  "sample_order n = \<lparr>po_batch_id = 7, po_city = TOKYO, po_quantity = n, po_coins_per_code = 10, po_label = cp ''run'',
     po_base_url = cp ''https://torshx.com/'', po_format_id = []\<rparr>"

definition sample_press :: "(nat \<Rightarrow> pystr) \<Rightarrow> print_world" where
  "sample_press draws = \<lparr>pw_draws = draws, pw_ids = of_nat, pw_outage = (\<lambda>_. False)\<rparr>"

definition first_letter_hmac :: hmac_hex where
  "first_letter_hmac key message = (if hd message = 65 then ''a'' else ''b'')"

lemma one_user_shop: "shop_ok one_user" "ids_unpaid w one_user" "code_batches one_user = []" "redemption_codes one_user = []"
  by (simp_all add: shop_ok_def ledger_ok_def codes_ok_def entries_ok_def unpaid_ok_def points_of_def progress_of_def
    count_flavor_codes_def recorded_amount_def one_user_def empty_database_def ids_unpaid_def)

lemma default_format: "get_format [] FORMATS = Inr CITY2_B9"
  by (simp add: get_format_def registered_def FORMATS_eq DEFAULT_FORMAT_ID_def V2_B10_def CITY2_B9_def)

lemma sample_run:
  "\<exists>t. generate_batch 1 1 ascii_unicode sample_hmac FORMATS (cp ''pepper'') (sample_order 1) False id 0 (sample_press (\<lambda>_. c)) one_user
    = Some (Inr [csv_row_of ascii_unicode CITY2_B9 (sample_order 1) c], t)"
  by (simp add: generate_batch_def sample_order_def default_format register_batch_result one_user_shop MAX_QUANTITY_def
    INSERT_CHUNK_def sample_press_def insert_codes_def by_hash_def code_values_def Let_def)

section \<open>The run\<close>



text \<open>
  Whatever becomes of a run - a refusal, a collision of hashes or ids, an outage half-way or a
  success - the tables stay consistent, what was there before is unchanged, there is at most the one new
  batch with at most the codes ordered, drawn by the generator, and no code becomes redeemable. If the
  run succeeds, the file holds exactly the codes that were written, and their number is the one ordered.
\<close>

theorem batch_generation_safe:
  assumes "generate_batch rounds tries ud hmac reg pepper order file_exists shuffled now w s = Some (r, t)"
    and "shop_ok s" "ids_unpaid w s"
  shows "shop_ok t \<and> (\<forall>c. in_active_batch t c = in_active_batch s c)
    \<and> (case r of
         Inl _ \<Rightarrow> t = s \<or> (\<exists>f codes. batch_written hmac pepper order f now s codes t \<and> distinct codes
             \<and> set codes \<subseteq> range (pw_draws w) \<and> int (length codes) \<le> po_quantity order)
       | Inr rows \<Rightarrow> \<exists>f codes. batch_written hmac pepper order f now s codes t \<and> distinct codes
             \<and> set codes \<subseteq> range (pw_draws w) \<and> int (length codes) = po_quantity order
             \<and> rows = shuffled (map (csv_row_of ud f order) codes))"
  using assms
proof (rule generation_result)
  fix e
  assume "t = s" "r = Inl e"
  with assms(2) show ?thesis by simp
next
  fix f codes
  assume w: "batch_written hmac pepper order f now s codes t" "distinct codes" "set codes \<subseteq> range (pw_draws w)"
    "int (length codes) \<le> po_quantity order" "shop_ok t"
    and rows: "\<forall>rows. r = Inr rows \<longrightarrow> int (length codes) = po_quantity order \<and> rows = shuffled (map (csv_row_of ud f order) codes)"
  have "in_active_batch t c = in_active_batch s c" for c
    using w(1) by (intro in_active_batch_written [of _ _ "new_batch hmac pepper order f now"])
      (auto simp: batch_written_def new_batch_def)
  with w rows show ?thesis by (cases r) (simp_all, blast+)
qed

theorem batch_generation_safe_witness:
  "\<exists>t. generate_batch 1 1 ascii_unicode sample_hmac FORMATS (cp ''pepper'') (sample_order 1) False id 0 (sample_press (\<lambda>_. [65]))
        one_user = Some (Inr [csv_row_of ascii_unicode CITY2_B9 (sample_order 1) [65]], t)
    \<and> shop_ok t \<and> (\<forall>c. in_active_batch t c = in_active_batch one_user c)
    \<and> (\<exists>f codes. batch_written sample_hmac (cp ''pepper'') (sample_order 1) f 0 one_user codes t \<and> int (length codes) = 1)"
proof -
  obtain t where run: "generate_batch 1 1 ascii_unicode sample_hmac FORMATS (cp ''pepper'') (sample_order 1) False id 0
      (sample_press (\<lambda>_. [65])) one_user = Some (Inr [csv_row_of ascii_unicode CITY2_B9 (sample_order 1) [65]], t)"
    using sample_run by blast
  have "po_quantity (sample_order 1) = 1" by (simp add: sample_order_def)
  with run batch_generation_safe [OF run one_user_shop(1,2)] show ?thesis by auto
qed

section \<open>From the press to the wallet\<close>

text \<open>The codes of the run come from \<open>generate_code\<close>, whatever its random source draws.\<close>

definition drawn_codes :: "CityCode \<Rightarrow> CodeFormat \<Rightarrow> print_world \<Rightarrow> bool" where
  "drawn_codes city f w \<longleftrightarrow>
     (\<forall>i. \<exists>randbelow. (\<forall>k n. 0 < n \<longrightarrow> randbelow k n < n) \<and> generate_code randbelow city f = Some (pw_draws w i))"

definition texts_of :: "csv_row \<Rightarrow> pystr set" where
  "texts_of row = {cv_code row, cv_printed_code row, map ascii_lower (cv_printed_code row), cv_qr_url row}"

lemma printed_parses:
  assumes "ascii_laws ud" "f \<in> set FORMATS" "drawn_codes (po_city order) f w" "public_url (po_base_url order)"
    and "c \<in> range (pw_draws w)" "x \<in> texts_of (csv_row_of ud f order c)"
  shows "parse_code ud FORMATS x = Inr (parsed_as (po_city order) c f)"
proof -
  from assms(3,5) obtain randbelow where r: "\<And>k n. 0 < n \<Longrightarrow> randbelow k n < n" "generate_code randbelow (po_city order) f = Some c"
    unfolding drawn_codes_def by blast
  show ?thesis
  proof (rule generated_texts [where randbelow = randbelow and city = "po_city order", OF assms(1,2) _ assms(4)])
    fix t
    assume "generate_code randbelow (po_city order) f = Some t"
      "parse_code ud FORMATS t = Inr (parsed_as (po_city order) t f)"
      "parse_code ud FORMATS (format_printed t f) = Inr (parsed_as (po_city order) t f)"
      "parse_code ud FORMATS (map ascii_lower (format_printed t f)) = Inr (parsed_as (po_city order) t f)"
      "parse_code ud FORMATS (qr_url ud (po_base_url order) t f) = Inr (parsed_as (po_city order) t f)"
    with r(2) assms(6) show ?thesis by (auto simp: texts_of_def csv_row_of_def)
  qed (use r(1) in blast)
qed

lemma get_format_in: "get_format fid reg = Inr f \<Longrightarrow> f \<in> set reg"
  by (auto simp: get_format_def registered_def Let_def find_Some_iff split: option.splits if_splits)

text \<open>Changing the status of a batch, as far as redeeming is concerned.\<close>

definition moved_to :: "uuid \<Rightarrow> BatchStatus \<Rightarrow> database \<Rightarrow> database \<Rightarrow> bool" where
  "moved_to i target s t \<longleftrightarrow> (\<exists>g es. t = s\<lparr>code_batches := update_where (\<lambda>b. cb_id b = i) g (code_batches s), code_batch_events := es\<rparr>
     \<and> (\<forall>b. cb_id (g b) = cb_id b \<and> cb_coins_per_code (g b) = cb_coins_per_code b \<and> cb_status (g b) = target))"

lemma set_status_moved:
  assumes "codes_ok s" "b \<in> set (code_batches s)" "allowed_from target = Some allowed" "cb_status b \<in> set allowed"
  obtains t where "set_status (cb_id b) target actor now s = (Inr True, t)" "moved_to (cb_id b) target s t"
proof -
  let ?g = "\<lambda>b. if target = ACTIVE then b\<lparr>cb_status := target, cb_activated_at := Some now\<rparr>
    else b\<lparr>cb_status := target, cb_voided_at := Some now\<rparr>"
  have only: "(cb_id x = cb_id b \<and> cb_status x \<in> set allowed) = (cb_id x = cb_id b)" if "x \<in> set (code_batches s)" for x
    using that assms(1,2,4) by (auto simp: codes_ok_def dest: distinct_key_eq)
  have "update_where (\<lambda>x. cb_id x = cb_id b \<and> cb_status x \<in> set allowed) ?g (code_batches s)
      = update_where (\<lambda>x. cb_id x = cb_id b) ?g (code_batches s)"
    by (rule update_where_cong) (rule only)
  then have moved: "set_status (cb_id b) target actor now s
      = (Inr True, s\<lparr>code_batches := update_where (\<lambda>x. cb_id x = cb_id b) ?g (code_batches s), code_batch_events := code_batch_events s
          @ [batch_event (cb_id b) (if target = ACTIVE then EVENT_ACTIVATED else EVENT_VOIDED) actor None now]\<rparr>)"
    using assms(2-4) by (auto simp: set_status_def Let_def update_batches_def add_event_def)
  show thesis
    by (rule that [OF moved]) (auto simp: moved_to_def intro!: exI [of _ ?g])
qed

lemma moved_to_shop:
  assumes "moved_to i target s t" "shop_ok s"
  shows "shop_ok t" and "redemption_codes t = redemption_codes s" and "redemption_failures t = redemption_failures s"
    and "wallets t = wallets s" and "users t = users s" and "account_of t = account_of s"
    and "recorded_amount t = recorded_amount s" and "reward_rules t = reward_rules s"
    and "batch_of s c = Some b \<Longrightarrow> cb_id b = i \<Longrightarrow>
      \<exists>b'. batch_of t c = Some b' \<and> cb_status b' = target \<and> cb_coins_per_code b' = cb_coins_per_code b"
proof -
  from assms(1) obtain g es where t: "t = s\<lparr>code_batches := update_where (\<lambda>b. cb_id b = i) g (code_batches s), code_batch_events := es\<rparr>"
    and g: "\<And>b. cb_id (g b) = cb_id b" "\<And>b. cb_coins_per_code (g b) = cb_coins_per_code b" "\<And>b. cb_status (g b) = target"
    by (auto simp: moved_to_def)
  have ids: "map cb_id (code_batches t) = map cb_id (code_batches s)" unfolding t by simp (rule map_update_where_same, simp add: g)
  have acc: "recorded_amount t = recorded_amount s" "account_of t = account_of s" "wallets t = wallets s"
    using account_of_frame [of t s] by (simp_all add: t recorded_amount_def fun_eq_iff)
  then show "recorded_amount t = recorded_amount s" "account_of t = account_of s" "wallets t = wallets s" by simp_all
  have "map cb_coins_per_code (code_batches t) = map cb_coins_per_code (code_batches s)"
    unfolding t by simp (rule map_update_where_same, simp add: g)
  then have "cb_coins_per_code ` set (code_batches t) = cb_coins_per_code ` set (code_batches s)" by (metis list.set_map)
  then have "\<forall>b \<in> set (code_batches t). 0 \<le> cb_coins_per_code b" using assms(2) by (force simp: shop_ok_def codes_ok_def)
  with ids have "codes_ok t" using assms(2) by (simp add: shop_ok_def codes_ok_def t)
  moreover have "entries_ok t = entries_ok s"
    by (simp add: t entries_ok_def points_of_def progress_of_def count_flavor_codes_def)
  moreover have "unpaid_ok t = unpaid_ok s" "ledger_ok t = ledger_ok s"
    by (simp_all add: t unpaid_ok_def recorded_amount_def ledger_ok_def)
  ultimately show "shop_ok t" using assms(2) by (simp add: shop_ok_def)
  show "redemption_codes t = redemption_codes s" "redemption_failures t = redemption_failures s" "users t = users s"
    "reward_rules t = reward_rules s" by (simp_all add: t)
  assume b: "batch_of s c = Some b" "cb_id b = i"
  then show "\<exists>b'. batch_of t c = Some b' \<and> cb_status b' = target \<and> cb_coins_per_code b' = cb_coins_per_code b"
    unfolding batch_of_def t by (simp add: select_one_update_same g)
qed

lemma attempts_left_frame:
  "redemption_failures t = redemption_failures s \<Longrightarrow> attempts_left cfg u now t = attempts_left cfg u now s"
proof -
  have "redemption_failures t = redemption_failures s \<Longrightarrow> throttle_count th u window t = throttle_count th u window s" for th window
    by (cases th) (simp_all add: count_failures_in_window_def null_count_def)
  then show "redemption_failures t = redemption_failures s \<Longrightarrow> attempts_left cfg u now t = attempts_left cfg u now s"
    by (simp add: attempts_left_def split: option.split)
qed

lemma moved_to_frame:
  assumes "moved_to i target s t"
  shows "wallet_owner t u = wallet_owner s u" and "attempts_left cfg u now t = attempts_left cfg u now s"
    and "redeemed_today cfg t u now = redeemed_today cfg s u now" and "found_code t h = found_code s h"
proof -
  from assms obtain bs es where "t = s\<lparr>code_batches := bs, code_batch_events := es\<rparr>" by (auto simp: moved_to_def)
  then show "wallet_owner t u = wallet_owner s u" "attempts_left cfg u now t = attempts_left cfg u now s"
    "redeemed_today cfg t u now = redeemed_today cfg s u now" "found_code t h = found_code s h"
    using attempts_left_frame [of t s cfg u now]
    by (simp_all add: wallet_owner_def user_exists_def wallet_of_def redeemed_today_def found_code_def)
qed

lemma written_frame:
  assumes "batch_written hmac pepper order f now s codes t"
  shows "wallet_owner t u = wallet_owner s u" and "attempts_left cfg u clock t = attempts_left cfg u clock s"
    and "redeemed_today cfg t u clock = redeemed_today cfg s u clock"
    and "acct_balance (account_of t) u = acct_balance (account_of s) u"
proof -
  from assms obtain bs es ks where t: "t = s\<lparr>code_batches := bs, code_batch_events := es, redemption_codes := redemption_codes s
      @ new_rows (\<lambda>c. hash_redemption_code hmac c pepper) order now ks codes\<rparr>"
    by (auto simp: batch_written_def)
  then show "wallet_owner t u = wallet_owner s u" "attempts_left cfg u clock t = attempts_left cfg u clock s"
    "acct_balance (account_of t) u = acct_balance (account_of s) u"
    using account_of_frame [of t s] attempts_left_frame [of t s cfg u clock]
    by (simp_all add: wallet_owner_def user_exists_def wallet_of_def)
  have "count_where (redeemed_since u since) (new_rows h order now ks codes) = 0" for since h
    by (auto simp: count_where_zero_iff redeemed_since_def dest!: new_rows_in)
  then show "redeemed_today cfg t u clock = redeemed_today cfg s u clock" by (simp add: redeemed_today_def t)
qed

text \<open>Redeeming an unspent code of the shop.\<close>

lemma redeem_unspent:
  assumes "shop_ok s" "wallet_owner s u" "rs_pepper cfg = Some pepper" "parse_code ud reg raw = Inr p"
    and "attempts_left cfg u now s" "found_code s (hash_redemption_code hmac (pc_canonical p) pepper) = Some c"
    and "rc_redeemed_at c = None" "rc_redeemed_by_user_id c = None"
  shows "\<not> in_active_batch s c \<Longrightarrow> redeem ud hmac reg cfg i u raw now s = (Inl (Raised CODE_INVALID), invalid_recorded cfg u now s)"
    and "in_active_batch s c \<Longrightarrow> redeemed_today cfg s u now < rs_daily_limit cfg \<Longrightarrow>
      \<exists>b res t. redeem ud hmac reg cfg i u raw now s = (Inr res, t) \<and> batch_of s c = Some b \<and> credited cfg u now s c b res t \<and> shop_ok t"
proof -
  let ?h = "hash_redemption_code hmac (pc_canonical p) pepper"
  note red = redeem_unfold [OF assms(3,4)]
  note sel = assms(6) [unfolded found_code_def]
  show "redeem ud hmac reg cfg i u raw now s = (Inl (Raised CODE_INVALID), invalid_recorded cfg u now s)" if "\<not> in_active_batch s c"
    using redeem_parsed_unclaimed [OF assms(1,2) sel, of cfg i now] that assms(5,8) by (simp add: red)
  show "\<exists>b res t. redeem ud hmac reg cfg i u raw now s = (Inr res, t) \<and> batch_of s c = Some b \<and> credited cfg u now s c b res t \<and> shop_ok t"
    if "in_active_batch s c" "redeemed_today cfg s u now < rs_daily_limit cfg"
    using redeem_parsed_claimed [OF assms(1,2) sel assms(7) that(1), of cfg now i] that(2) assms(5)
    by (auto simp: red split: if_splits)
qed

text \<open>
  C33: from the press to the wallet. Take any row of the file of a finished run, and what a customer may
  send of it: the canonical code, the printed grouping in either case, or the text of its QR. While the
  batch is only generated the code is invalid. The operator can activate the batch; then the code is
  credited to the customer with the city and the coins of the order, and the books stay consistent. And
  if the batch is voided instead of the code being redeemed, it is invalid again.
\<close>

theorem printed_code_redeems:
  assumes "shop_ok s" "ids_unpaid w s" "get_format (po_format_id order) FORMATS = Inr f"
    and "generate_batch rounds tries ud hmac FORMATS pepper order file_exists shuffled now w s = Some (Inr rows, t)"
    and "drawn_codes (po_city order) f w" "\<And>xs. set (shuffled xs) \<subseteq> set xs" "ascii_laws ud" "public_url (po_base_url order)"
    and "row \<in> set rows" "x \<in> texts_of row"
    and "rs_pepper cfg = Some pepper" "wallet_owner s u" "attempts_left cfg u clock s" "redeemed_today cfg s u clock < rs_daily_limit cfg"
  shows "\<exists>active void. set_status (po_batch_id order) ACTIVE actor at_launch t = (Inr True :: 'e raised + bool, active)
    \<and> set_status (po_batch_id order) VOID actor at_recall active = (Inr True :: 'e raised + bool, void)
    \<and> fst (redeem ud hmac FORMATS cfg i u x clock t) = Inl (Raised CODE_INVALID)
    \<and> fst (redeem ud hmac FORMATS cfg i u x clock void) = Inl (Raised CODE_INVALID)
    \<and> (\<exists>res paid. redeem ud hmac FORMATS cfg i u x clock active = (Inr res, paid) \<and> \<not> res_replayed res
        \<and> res_city res = po_city order \<and> res_coins_awarded res = po_coins_per_code order
        \<and> acct_balance (account_of paid) u = acct_balance (account_of s) u + po_coins_per_code order + res_bonus_awarded res
        \<and> shop_ok paid)"
  using assms(4,1,2)
proof (rule generation_result)
  fix g codes
  assume g: "get_format (po_format_id order) FORMATS = Inr g" and wr: "batch_written hmac pepper order g now s codes t"
    and codes: "set codes \<subseteq> range (pw_draws w)" and t: "shop_ok t"
    and "\<forall>rs. Inr rows = Inr rs \<longrightarrow> int (length codes) = po_quantity order \<and> rs = shuffled (map (csv_row_of ud g order) codes)"
  then have fg: "g = f" and rows: "rows = shuffled (map (csv_row_of ud f order) codes)" using assms(3) by simp_all
  from assms(6,9) rows obtain c where c: "c \<in> set codes" and row: "row = csv_row_of ud f order c" by fastforce
  let ?h = "hash_redemption_code hmac c pepper" and ?b = "new_batch hmac pepper order f now"
  have parsed: "parse_code ud FORMATS x = Inr (parsed_as (po_city order) c f)"
    using printed_parses [OF assms(7) get_format_in [OF assms(3)] assms(5,8)] c codes assms(10) row by blast
  obtain k where found: "found_code t ?h = Some (new_code_row order now k ?h)" by (rule found_written [OF wr t c])
  have batch: "?b \<in> set (code_batches t)" "batch_of t (new_code_row order now k ?h) = Some ?b"
    using wr t fg batch_of_written [of t s ?b] by (auto simp: batch_written_def shop_ok_def new_batch_def)
  obtain active where a: "set_status (cb_id ?b) ACTIVE actor at_launch t = (Inr True :: 'e raised + bool, active)" "moved_to (cb_id ?b) ACTIVE t active"
    using set_status_moved [of t ?b ACTIVE "[GENERATED]"] t batch(1) by (auto simp: shop_ok_def allowed_from_def new_batch_def)
  note am = moved_to_shop [OF a(2) t] moved_to_frame [OF a(2)]
  obtain b where b: "batch_of active (new_code_row order now k ?h) = Some b" "cb_status b = ACTIVE"
      "cb_coins_per_code b = po_coins_per_code order" "cb_id b = cb_id ?b"
  proof -
    from am(9) [OF batch(2)] obtain b where b: "batch_of active (new_code_row order now k ?h) = Some b" "cb_status b = ACTIVE"
      "cb_coins_per_code b = po_coins_per_code order" by (auto simp: new_batch_def)
    moreover have "cb_id b = cb_id ?b"
      using select_one_Some [OF b(1) [unfolded batch_of_def]] by (simp add: new_batch_def)
    ultimately show thesis by (rule that)
  qed
  obtain void where v: "set_status (cb_id b) VOID actor at_recall active = (Inr True :: 'e raised + bool, void)" "moved_to (cb_id b) VOID active void"
    using set_status_moved [of active b VOID "[GENERATED, ACTIVE]"] am(1) b(2) select_one_Some [OF b(1) [unfolded batch_of_def]]
    by (auto simp: shop_ok_def allowed_from_def)
  note vm = moved_to_shop [OF v(2) am(1)] moved_to_frame [OF v(2)]
  obtain b' where b': "batch_of void (new_code_row order now k ?h) = Some b'" "cb_status b' = VOID" using vm(9) [OF b(1)] by auto
  note wf = written_frame [OF wr]
  have "redeem ud hmac FORMATS cfg i u x clock t = (Inl (Raised CODE_INVALID), invalid_recorded cfg u clock t)"
    using t batch found wf assms(11-14)
    by (intro redeem_unspent(1) [OF t _ assms(11) parsed]) (auto simp: parsed_as_def in_active_batch_def new_batch_def)
  moreover have "redeem ud hmac FORMATS cfg i u x clock void = (Inl (Raised CODE_INVALID), invalid_recorded cfg u clock void)"
    using vm am b' found wf assms(11-14)
    by (intro redeem_unspent(1) [OF vm(1) _ assms(11) parsed]) (auto simp: parsed_as_def in_active_batch_def)
  moreover obtain res paid where paid: "redeem ud hmac FORMATS cfg i u x clock active = (Inr res, paid)"
      "credited cfg u clock active (new_code_row order now k ?h) b res paid" "shop_ok paid"
    using redeem_unspent(2) [OF am(1) _ assms(11) parsed, of u clock hmac "new_code_row order now k ?h" i] am b found wf assms(11-14)
    by (auto simp: parsed_as_def in_active_batch_def)
  moreover have "res_replayed res = False \<and> res_city res = po_city order \<and> res_coins_awarded res = po_coins_per_code order
      \<and> acct_balance (account_of paid) u = acct_balance (account_of s) u + po_coins_per_code order + res_bonus_awarded res"
    using paid(2) b(3) am(6) wf(4) by (simp add: credited_def Let_def)
  moreover have "cb_id b = po_batch_id order" "cb_id ?b = po_batch_id order" using b(4) by (simp_all add: new_batch_def)
  ultimately have "set_status (po_batch_id order) ACTIVE actor at_launch t = (Inr True :: 'e raised + bool, active)
    \<and> set_status (po_batch_id order) VOID actor at_recall active = (Inr True :: 'e raised + bool, void)
    \<and> fst (redeem ud hmac FORMATS cfg i u x clock t) = Inl (Raised CODE_INVALID)
    \<and> fst (redeem ud hmac FORMATS cfg i u x clock void) = Inl (Raised CODE_INVALID)
    \<and> redeem ud hmac FORMATS cfg i u x clock active = (Inr res, paid) \<and> \<not> res_replayed res
    \<and> res_city res = po_city order \<and> res_coins_awarded res = po_coins_per_code order
    \<and> acct_balance (account_of paid) u = acct_balance (account_of s) u + po_coins_per_code order + res_bonus_awarded res
    \<and> shop_ok paid"
    using a(1) v(1) paid(1,3) by simp
  then show ?thesis by blast
qed simp

theorem printed_code_redeems_witness:
  "\<exists>c t active void res paid. set_status 7 ACTIVE None 0 t = (Inr True :: unit raised + bool, active)
    \<and> set_status 7 VOID None 0 active = (Inr True :: unit raised + bool, void)
    \<and> fst (redeem ascii_unicode sample_hmac FORMATS sample_settings 9 1 (qr_url ascii_unicode (cp ''https://torshx.com/'') c CITY2_B9) 0 t)
        = Inl (Raised CODE_INVALID)
    \<and> fst (redeem ascii_unicode sample_hmac FORMATS sample_settings 9 1 (qr_url ascii_unicode (cp ''https://torshx.com/'') c CITY2_B9) 0 void)
        = Inl (Raised CODE_INVALID)
    \<and> redeem ascii_unicode sample_hmac FORMATS sample_settings 9 1 (qr_url ascii_unicode (cp ''https://torshx.com/'') c CITY2_B9) 0 active
        = (Inr res, paid) \<and> res_coins_awarded res = 10"
proof -
  obtain c where c: "generate_code (\<lambda>i n. (7 * i) mod n) TOKYO CITY2_B9 = Some c"
    by (rule generated_texts [where randbelow = "\<lambda>i n. (7 * i) mod n" and city = TOKYO and f = CITY2_B9 and u = "cp ''https://torshx.com/''",
      OF ascii_unicode_laws]) (simp_all add: FORMATS_eq public_url_def rstrip_by_def starts_with_def)
  obtain t where run: "generate_batch 1 1 ascii_unicode sample_hmac FORMATS (cp ''pepper'') (sample_order 1) False id 0
      (sample_press (\<lambda>_. c)) one_user = Some (Inr [csv_row_of ascii_unicode CITY2_B9 (sample_order 1) c], t)"
    using sample_run by blast
  have order: "po_city (sample_order 1) = TOKYO" "po_format_id (sample_order 1) = []" "po_batch_id (sample_order 1) = 7"
    "po_base_url (sample_order 1) = cp ''https://torshx.com/''" "po_coins_per_code (sample_order 1) = 10"
    by (simp_all add: sample_order_def)
  have drawn: "drawn_codes TOKYO CITY2_B9 (sample_press (\<lambda>_. c))"
    using c by (auto simp: drawn_codes_def sample_press_def intro!: exI [of _ "\<lambda>i n. (7 * i) mod n"])
  have url: "public_url (cp ''https://torshx.com/'')" by (simp add: public_url_def rstrip_by_def starts_with_def)
  have user: "wallet_owner one_user 1" "attempts_left sample_settings 1 0 one_user" "redeemed_today sample_settings one_user 1 0 < 5"
    "rs_pepper sample_settings = Some (cp ''pepper'')" "rs_daily_limit sample_settings = 5"
    by (simp_all add: wallet_owner_def user_exists_def one_user_def adult_user_def attempts_left_def sample_settings_def
      count_failures_in_window_def empty_database_def redeemed_today_def)
  have "qr_url ascii_unicode (cp ''https://torshx.com/'') c CITY2_B9 \<in> texts_of (csv_row_of ascii_unicode CITY2_B9 (sample_order 1) c)"
    by (simp add: texts_of_def csv_row_of_def order)
  note sold = printed_code_redeems [where 'e = unit and f = CITY2_B9 and actor = None and at_launch = 0 and at_recall = 0 and i = 9,
    OF one_user_shop(1,2) _ run _ _ ascii_unicode_laws _ _ this user(4,1,2)]
  have "\<exists>active void. set_status 7 ACTIVE None 0 t = (Inr True :: unit raised + bool, active)
    \<and> set_status 7 VOID None 0 active = (Inr True :: unit raised + bool, void)
    \<and> fst (redeem ascii_unicode sample_hmac FORMATS sample_settings 9 1 (qr_url ascii_unicode (cp ''https://torshx.com/'') c CITY2_B9) 0 t)
        = Inl (Raised CODE_INVALID)
    \<and> fst (redeem ascii_unicode sample_hmac FORMATS sample_settings 9 1 (qr_url ascii_unicode (cp ''https://torshx.com/'') c CITY2_B9) 0 void)
        = Inl (Raised CODE_INVALID)
    \<and> (\<exists>res paid. redeem ascii_unicode sample_hmac FORMATS sample_settings 9 1 (qr_url ascii_unicode (cp ''https://torshx.com/'') c CITY2_B9) 0 active
        = (Inr res, paid) \<and> \<not> res_replayed res \<and> res_city res = TOKYO \<and> res_coins_awarded res = 10
        \<and> acct_balance (account_of paid) 1 = acct_balance (account_of one_user) 1 + 10 + res_bonus_awarded res \<and> shop_ok paid)"
    using sold unfolding order default_format user(5) using drawn url user(3) by simp
  then show ?thesis by blast
qed

end
