(* ===== verification/Batch_Life.thy ===== *)
theory Batch_Life
  imports Batch_Checks
begin

text \<open>
  The life of a printed batch as a state machine: every run of the generator, the status commands and
  the freezing only moves a batch forward, and its append-only history tells exactly how it moved.
\<close>

section \<open>The history of a batch\<close>

definition history :: "database \<Rightarrow> uuid \<Rightarrow> BatchEventType list" where
  "history s i = map be_event_type (filter (\<lambda>e. be_batch_id e = i) (code_batch_events s))"

definition is_move :: "BatchEventType \<Rightarrow> bool" where
  "is_move e \<longleftrightarrow> e \<in> {EVENT_GENERATED, EVENT_ACTIVATED, EVENT_VOIDED}"

definition expected_moves :: "CodeBatchModel \<Rightarrow> BatchEventType list" where
  "expected_moves b = EVENT_GENERATED # (if cb_activated_at b = None then [] else [EVENT_ACTIVATED])
     @ (if cb_voided_at b = None then [] else [EVENT_VOIDED])"

definition told_by :: "BatchEventType list \<Rightarrow> CodeBatchModel \<Rightarrow> bool" where
  "told_by es b \<longleftrightarrow> filter is_move es = expected_moves b
     \<and> cb_status b = (if cb_voided_at b \<noteq> None then VOID else if cb_activated_at b \<noteq> None then ACTIVE else GENERATED)
     \<and> filter (\<lambda>e. \<not> is_move e) es = (if cb_frozen_at b = None then []
         else if cb_exported_at b = None then [EVENT_FROZEN] else [EVENT_EXPORTED])
     \<and> (cb_format_fingerprint b = None) = (cb_frozen_at b = None)
     \<and> (cb_frozen_at b = None \<longrightarrow> cb_exported_at b = None) \<and> (cb_export_sha256 b = None) = (cb_exported_at b = None)"

definition batches_ok :: "database \<Rightarrow> bool" where
  "batches_ok s \<longleftrightarrow> distinct (map cb_id (code_batches s))
     \<and> be_batch_id ` set (code_batch_events s) \<subseteq> cb_id ` set (code_batches s)
     \<and> (\<forall>b \<in> set (code_batches s). told_by (history s (cb_id b)) b)"

text \<open>What may become of a batch.\<close>

definition later :: "CodeBatchModel \<Rightarrow> CodeBatchModel \<Rightarrow> bool" where
  "later b c \<longleftrightarrow> cb_id c = cb_id b \<and> cb_city c = cb_city b \<and> cb_label c = cb_label b \<and> cb_quantity c = cb_quantity b
     \<and> cb_coins_per_code c = cb_coins_per_code b \<and> cb_created_at c = cb_created_at b \<and> cb_format_id c = cb_format_id b
     \<and> cb_pepper_fingerprint c = cb_pepper_fingerprint b
     \<and> (cb_status b = VOID \<longrightarrow> cb_status c = VOID \<and> cb_activated_at c = cb_activated_at b)
     \<and> (cb_activated_at b \<noteq> None \<longrightarrow> cb_activated_at c = cb_activated_at b)
     \<and> (cb_voided_at b \<noteq> None \<longrightarrow> cb_voided_at c = cb_voided_at b)
     \<and> (cb_frozen_at b \<noteq> None \<longrightarrow> cb_frozen_at c = cb_frozen_at b \<and> cb_format_fingerprint c = cb_format_fingerprint b
          \<and> cb_exported_at c = cb_exported_at b \<and> cb_export_sha256 c = cb_export_sha256 b)"

definition batches_later :: "database \<Rightarrow> database \<Rightarrow> bool" where
  "batches_later s t \<longleftrightarrow> (\<forall>b \<in> set (code_batches s). \<exists>c \<in> set (code_batches t). later b c)"

section \<open>The machine\<close>

inductive batch_step :: "(pystr \<Rightarrow> pystr) \<Rightarrow> hmac_hex \<Rightarrow> database \<Rightarrow> database \<Rightarrow> bool" for sha hmac where
  generating: "generate_batch rounds tries ud hmac reg pepper order file_exists shuffled now w s = Some (r, t)
    \<Longrightarrow> batch_step sha hmac s t"
| moving: "set_status i target actor now s = (m :: unit raised + bool, t) \<Longrightarrow> batch_step sha hmac s t"
| freezing: "freeze_batch sha reg i export_sha256 actor now s = (f, t) \<Longrightarrow> batch_step sha hmac s t"
| elsewhere: "code_batches t = code_batches s \<Longrightarrow> code_batch_events t = code_batch_events s \<Longrightarrow> batch_step sha hmac s t"

abbreviation batch_run :: "(pystr \<Rightarrow> pystr) \<Rightarrow> hmac_hex \<Rightarrow> database \<Rightarrow> database \<Rightarrow> bool" where
  "batch_run sha hmac \<equiv> (batch_step sha hmac)\<^sup>*\<^sup>*"

lemma later_refl [simp]: "later b b"
  by (simp add: later_def)

lemma later_trans: "later a b \<Longrightarrow> later b c \<Longrightarrow> later a c"
  unfolding later_def by (elim conjE, intro conjI) auto

lemma batches_later_trans: "batches_later s t \<Longrightarrow> batches_later t u \<Longrightarrow> batches_later s u"
  unfolding batches_later_def by (meson later_trans)

lemma batches_later_same: "code_batches t = code_batches s \<Longrightarrow> batches_later s t"
  unfolding batches_later_def using later_refl by metis

lemma history_tables: "code_batch_events t = code_batch_events s \<Longrightarrow> history t i = history s i"
  by (simp add: history_def)

lemma history_event: "history (s\<lparr>code_batches := bs, code_batch_events := code_batch_events s @ [e]\<rparr>) i
    = history s i @ (if be_batch_id e = i then [be_event_type e] else [])"
  by (simp add: history_def)

text \<open>A batch that moves, with the event that tells it.\<close>

lemma batches_ok_moved:
  assumes "batches_ok s" "b \<in> set (code_batches s)" "be_batch_id e = cb_id b" "later b (g b)"
    and t: "t = s\<lparr>code_batches := update_where (\<lambda>x. cb_id x = cb_id b) g (code_batches s), code_batch_events := code_batch_events s @ [e]\<rparr>"
    and told: "told_by (history s (cb_id b) @ [be_event_type e]) (g b)"
  shows "batches_ok t \<and> batches_later s t"
proof -
  have dist: "distinct (map cb_id (code_batches s))" using assms(1) by (simp add: batches_ok_def)
  then have only: "x = b" if "x \<in> set (code_batches s)" "cb_id x = cb_id b" for x
    using that assms(2) by (auto dest: distinct_key_eq)
  have g: "cb_id (g b) = cb_id b" using assms(4) by (simp add: later_def)
  then have ids: "map cb_id (code_batches t) = map cb_id (code_batches s)"
    unfolding t by simp (rule map_update_where_same, use only in auto)
  then have id_set: "cb_id ` set (code_batches t) = cb_id ` set (code_batches s)" by (metis list.set_map)
  have rows: "set (code_batches t) = insert (g b) (set (code_batches s) - {b})"
  proof -
    have "{x \<in> set (code_batches s). cb_id x = cb_id b} = {b}"
      "{x \<in> set (code_batches s). cb_id x \<noteq> cb_id b} = set (code_batches s) - {b}" using only assms(2) by blast+
    then show ?thesis unfolding t by (simp add: set_update_where)
  qed
  have "told_by (history t (cb_id c)) c" if "c \<in> set (code_batches t)" for c
  proof (cases "c = g b")
    case True
    with told g assms(3) show ?thesis by (simp add: t history_event)
  next
    case False
    with that rows have c: "c \<in> set (code_batches s)" "c \<noteq> b" by auto
    with only have "cb_id c \<noteq> cb_id b" by blast
    with c assms(1,3) show ?thesis by (simp add: t history_event batches_ok_def)
  qed
  moreover have "be_batch_id ` set (code_batch_events t) \<subseteq> cb_id ` set (code_batches t)"
    unfolding id_set using assms(1-3) by (auto simp: batches_ok_def t)
  moreover have "\<exists>d \<in> set (code_batches t). later c d" if "c \<in> set (code_batches s)" for c
    using that assms(4) later_refl [of c] unfolding rows by (cases "c = b") (simp, blast)
  ultimately show ?thesis using dist ids by (simp add: batches_ok_def batches_later_def)
qed

lemma set_status_result:
  assumes "set_status i target actor now s = (m :: 'e raised + bool, t)" "distinct (map cb_id (code_batches s))"
  obtains (refused) "t = s" "m \<noteq> Inr True"
  | (moved) b where "m = Inr True" "b \<in> set (code_batches s)" "cb_id b = i" "target = ACTIVE \<and> cb_status b = GENERATED \<or> target = VOID \<and> cb_status b \<noteq> VOID"
      "t = s\<lparr>code_batches := update_where (\<lambda>x. cb_id x = cb_id b)
          (\<lambda>b. if target = ACTIVE then b\<lparr>cb_status := target, cb_activated_at := Some now\<rparr>
               else b\<lparr>cb_status := target, cb_voided_at := Some now\<rparr>) (code_batches s),
        code_batch_events := code_batch_events s
          @ [batch_event i (if target = ACTIVE then EVENT_ACTIVATED else EVENT_VOIDED) actor None now]\<rparr>"
proof (cases "\<exists>b \<in> set (code_batches s). cb_id b = i \<and> (target = ACTIVE \<and> cb_status b = GENERATED \<or> target = VOID \<and> cb_status b \<noteq> VOID)")
  case False
  then have "\<not> exists_where (\<lambda>b. cb_id b = i \<and> cb_status b \<in> set allowed) (code_batches s)" if "allowed_from target = Some allowed" for allowed
    using that by (cases target) (auto simp: allowed_from_def)
  with assms(1) have "t = s \<and> m \<noteq> Inr True"
    by (cases "allowed_from target") (auto simp: set_status_def Let_def simp del: exists_where_iff)
  with refused show thesis by blast
next
  case True
  then obtain b where b: "b \<in> set (code_batches s)" "cb_id b = i"
      "target = ACTIVE \<and> cb_status b = GENERATED \<or> target = VOID \<and> cb_status b \<noteq> VOID" by blast
  then obtain allowed where allowed: "allowed_from target = Some allowed" "cb_status b \<in> set allowed"
    by (cases "cb_status b") (auto simp: allowed_from_def)
  have only: "(cb_id x = i \<and> cb_status x \<in> set allowed) = (cb_id x = i)" if "x \<in> set (code_batches s)" for x
    using that b(1,2) allowed(2) assms(2) by (auto dest: distinct_key_eq)
  let ?g = "\<lambda>b. if target = ACTIVE then b\<lparr>cb_status := target, cb_activated_at := Some now\<rparr>
    else b\<lparr>cb_status := target, cb_voided_at := Some now\<rparr>"
  have "update_where (\<lambda>x. cb_id x = i \<and> cb_status x \<in> set allowed) ?g (code_batches s)
      = update_where (\<lambda>x. cb_id x = i) ?g (code_batches s)" by (rule update_where_cong) (rule only)
  moreover have "exists_where (\<lambda>b. cb_id b = i \<and> cb_status b \<in> set allowed) (code_batches s)" using b allowed by auto
  ultimately have "m = Inr True" "t = s\<lparr>code_batches := update_where (\<lambda>x. cb_id x = cb_id b) ?g (code_batches s),
      code_batch_events := code_batch_events s
        @ [batch_event i (if target = ACTIVE then EVENT_ACTIVATED else EVENT_VOIDED) actor None now]\<rparr>"
    using assms(1) allowed(1) b(2) by (auto simp: set_status_def Let_def update_batches_def add_event_def simp del: exists_where_iff)
  with b show thesis by (intro moved)
qed

text \<open>Freezing: what is changed, and the answer.\<close>

definition frozen_batch :: "pystr \<Rightarrow> string option \<Rightarrow> instant \<Rightarrow> CodeBatchModel \<Rightarrow> CodeBatchModel" where
  "frozen_batch fp export_sha256 now b =
     (case export_sha256 of
        None \<Rightarrow> b\<lparr>cb_format_fingerprint := Some fp, cb_frozen_at := Some now\<rparr>
      | Some x \<Rightarrow> b\<lparr>cb_format_fingerprint := Some fp, cb_frozen_at := Some now, cb_exported_at := Some now, cb_export_sha256 := Some x\<rparr>)"

lemma frozen_batch_simps [simp]: "cb_id (frozen_batch fp x now b) = cb_id b" "cb_status (frozen_batch fp x now b) = cb_status b"
  "cb_format_id (frozen_batch fp x now b) = cb_format_id b" "cb_frozen_at (frozen_batch fp x now b) = Some now"
  "cb_format_fingerprint (frozen_batch fp x now b) = Some fp"
  by (simp_all add: frozen_batch_def split: option.split)

lemma frozen_batch_fun:
  "frozen_batch fp None now = (\<lambda>b. b\<lparr>cb_format_fingerprint := Some fp, cb_frozen_at := Some now\<rparr>)"
  "frozen_batch fp (Some x) now = (\<lambda>b. b\<lparr>cb_format_fingerprint := Some fp, cb_frozen_at := Some now,
     cb_exported_at := Some now, cb_export_sha256 := Some x\<rparr>)"
  by (simp_all add: fun_eq_iff frozen_batch_def)

lemma freeze_first:
  assumes "freeze_batch sha reg i export_sha256 actor now s = (f, t)" "select_one (\<lambda>b. cb_id b = i) (code_batches s) = Some b"
    and "cb_frozen_at b = None" "get_format (cb_format_id b) reg = Inr g"
  shows "f = Inr True \<and> (\<exists>detail. t = s\<lparr>
      code_batches := update_where (\<lambda>x. cb_id x = i) (frozen_batch (fingerprint sha g) export_sha256 now) (code_batches s),
      code_batch_events := code_batch_events s
        @ [batch_event i (if export_sha256 = None then EVENT_FROZEN else EVENT_EXPORTED) actor (Some detail) now]\<rparr>)"
proof -
  have twice: "update_where p h (update_where p k rows) = update_where p (\<lambda>x. h (k x)) rows" if "\<And>x. p (k x) = p x"
    for p and h k :: "CodeBatchModel \<Rightarrow> CodeBatchModel" and rows
    using that by (simp add: update_where_def)
  from assms show ?thesis
    by (auto simp: freeze_batch_def Let_def update_batches_def add_event_def frozen_batch_fun twice split: option.splits)
qed

lemma freeze_result:
  assumes "freeze_batch sha reg i export_sha256 actor now s = (f, t)"
  obtains (same) "t = s"
  | (froze) b g detail where "b \<in> set (code_batches s)" "cb_id b = i" "cb_frozen_at b = None" "get_format (cb_format_id b) reg = Inr g"
      "t = s\<lparr>code_batches := update_where (\<lambda>x. cb_id x = cb_id b) (frozen_batch (fingerprint sha g) export_sha256 now) (code_batches s),
        code_batch_events := code_batch_events s
          @ [batch_event i (if export_sha256 = None then EVENT_FROZEN else EVENT_EXPORTED) actor (Some detail) now]\<rparr>"
proof (cases "select_one (\<lambda>b. cb_id b = i) (code_batches s)")
  case None
  with assms(1) same show thesis by (simp add: freeze_batch_def)
next
  case (Some b)
  then have b: "b \<in> set (code_batches s)" "cb_id b = i" by (auto dest: select_one_Some)
  show thesis
  proof (cases "cb_frozen_at b \<noteq> None \<or> (\<exists>e. get_format (cb_format_id b) reg = Inl e)")
    case True
    with assms(1) Some same show thesis by (auto simp: freeze_batch_def Let_def split: sum.splits if_splits)
  next
    case False
    then obtain g where g: "get_format (cb_format_id b) reg = Inr g" "cb_frozen_at b = None" by (cases "get_format (cb_format_id b) reg") auto
    from freeze_first [OF assms Some g(2,1)] froze [OF b g(2,1)] b(2) show thesis by blast
  qed
qed

text \<open>The check of the registry at start-up, over the batches that are frozen.\<close>

definition fits_registry :: "(pystr \<Rightarrow> pystr) \<Rightarrow> registry \<Rightarrow> CodeBatchModel \<Rightarrow> bool" where
  "fits_registry sha reg b \<longleftrightarrow> (case cb_format_fingerprint b of None \<Rightarrow> True
     | Some fp \<Rightarrow> cb_frozen_at b = None \<or> fp = [] \<or> (\<exists>g. get_format (cb_format_id b) reg = Inr g \<and> fingerprint sha g = fp))"

lemma verify_frozen_Cons:
  "verify_frozen_formats sha reg ((fid, fp) # frozen) = None
     \<longleftrightarrow> (\<exists>g. get_format fid reg = Inr g \<and> fingerprint sha g = fp) \<and> verify_frozen_formats sha reg frozen = None"
  by (auto split: sum.splits)

lemma frozen_check_iff:
  "verify_frozen_formats sha reg (frozen_batch_formats s) = None \<longleftrightarrow> (\<forall>b \<in> set (code_batches s). fits_registry sha reg b)"
proof -
  have "verify_frozen_formats sha reg (concat (map (\<lambda>b. case cb_format_fingerprint b of None \<Rightarrow> []
        | Some fp \<Rightarrow> if fp = [] then [] else [(cb_format_id b, fp)]) (filter (\<lambda>b. cb_frozen_at b \<noteq> None) bs))) = None
      \<longleftrightarrow> (\<forall>b \<in> set bs. fits_registry sha reg b)" for bs
  proof (induction bs)
    case (Cons b bs)
    then show ?case
      by (cases "cb_format_fingerprint b"; cases "cb_frozen_at b") (simp_all add: fits_registry_def verify_frozen_Cons del: verify_frozen_formats.simps(2))
  qed simp
  then show ?thesis by (simp add: frozen_batch_formats_def)
qed

lemma freeze_keeps_check:
  assumes "distinct (map cb_id (code_batches s))" "b \<in> set (code_batches s)" "get_format (cb_format_id b) reg = Inr g"
    and "code_batches t = update_where (\<lambda>x. cb_id x = cb_id b) (frozen_batch (fingerprint sha g) export_sha256 now) (code_batches s)"
    and "verify_frozen_formats sha reg (frozen_batch_formats s) = None"
  shows "verify_frozen_formats sha reg (frozen_batch_formats t) = None"
proof -
  have "fits_registry sha reg (frozen_batch (fingerprint sha g) export_sha256 now x)"
    if "x \<in> set (code_batches s)" "cb_id x = cb_id b" for x
  proof -
    from that assms(1,2) have "x = b" by (auto dest: distinct_key_eq)
    with assms(3) show ?thesis by (simp add: fits_registry_def)
  qed
  with assms(5) show ?thesis unfolding frozen_check_iff assms(4) by (auto simp: set_update_where)
qed

text \<open>Each step keeps the histories true and only moves the batches forward.\<close>

lemma told_by_simps:
  "filter is_move (es @ [e]) = filter is_move es @ (if is_move e then [e] else [])"
  "is_move EVENT_GENERATED" "is_move EVENT_ACTIVATED" "is_move EVENT_VOIDED" "\<not> is_move EVENT_FROZEN" "\<not> is_move EVENT_EXPORTED"
  by (simp_all add: is_move_def)

lemma told_by_status: "told_by es b \<Longrightarrow> cb_status b = GENERATED \<Longrightarrow> cb_activated_at b = None \<and> cb_voided_at b = None"
  "told_by es b \<Longrightarrow> cb_status b \<noteq> VOID \<Longrightarrow> cb_voided_at b = None"
  "told_by es b \<Longrightarrow> cb_status b = VOID \<Longrightarrow> cb_voided_at b \<noteq> None"
  by (auto simp: told_by_def split: if_splits)

lemma batch_step_keeps:
  assumes "batch_step sha hmac s t" "batches_ok s"
  shows "batches_ok t \<and> batches_later s t"
  using assms
proof cases
  case (elsewhere)
  with assms(2) batches_later_same show ?thesis by (auto simp: batches_ok_def history_def)
next
  case (moving i target actor now m)
  have dist: "distinct (map cb_id (code_batches s))" using assms(2) by (simp add: batches_ok_def)
  show ?thesis
  proof (rule set_status_result [OF moving dist])
    assume "t = s"
    with assms(2) batches_later_same show ?thesis by auto
  next
    fix b
    assume b: "b \<in> set (code_batches s)" "cb_id b = i"
      and move: "target = ACTIVE \<and> cb_status b = GENERATED \<or> target = VOID \<and> cb_status b \<noteq> VOID"
      and t: "t = s\<lparr>code_batches := update_where (\<lambda>x. cb_id x = cb_id b)
          (\<lambda>b. if target = ACTIVE then b\<lparr>cb_status := target, cb_activated_at := Some now\<rparr>
               else b\<lparr>cb_status := target, cb_voided_at := Some now\<rparr>) (code_batches s),
        code_batch_events := code_batch_events s
          @ [batch_event i (if target = ACTIVE then EVENT_ACTIVATED else EVENT_VOIDED) actor None now]\<rparr>"
    have told: "told_by (history s (cb_id b)) b" using assms(2) b(1) by (simp add: batches_ok_def)
    from move show ?thesis
    proof (elim disjE conjE)
      assume a: "target = ACTIVE" "cb_status b = GENERATED"
      with told_by_status(1) [OF told] have n: "cb_activated_at b = None" "cb_voided_at b = None" by simp_all
      show ?thesis
        by (rule batches_ok_moved [OF assms(2) b(1) _ _ t])
          (use a b(2) n told in \<open>simp_all add: batch_event_def later_def told_by_def told_by_simps expected_moves_def\<close>)
    next
      assume a: "target = VOID" "cb_status b \<noteq> VOID"
      with told_by_status(2) [OF told] have n: "cb_voided_at b = None" by simp
      show ?thesis
        by (rule batches_ok_moved [OF assms(2) b(1) _ _ t])
          (use a b(2) n told in \<open>simp_all add: batch_event_def later_def told_by_def told_by_simps expected_moves_def\<close>)
    qed
  qed
next
  case (freezing reg i export_sha256 actor now f)
  show ?thesis
  proof (rule freeze_result [OF freezing])
    assume "t = s"
    with assms(2) batches_later_same show ?thesis by auto
  next
    fix b g detail
    assume b: "b \<in> set (code_batches s)" "cb_id b = i" "cb_frozen_at b = None"
      and t: "t = s\<lparr>code_batches := update_where (\<lambda>x. cb_id x = cb_id b) (frozen_batch (fingerprint sha g) export_sha256 now) (code_batches s),
        code_batch_events := code_batch_events s
          @ [batch_event i (if export_sha256 = None then EVENT_FROZEN else EVENT_EXPORTED) actor (Some detail) now]\<rparr>"
    have told: "told_by (history s (cb_id b)) b" using assms(2) b(1) by (simp add: batches_ok_def)
    show ?thesis
      by (rule batches_ok_moved [OF assms(2) b(1) _ _ t])
        (use b told in \<open>auto simp: batch_event_def later_def told_by_def told_by_simps expected_moves_def frozen_batch_def split: option.split\<close>)
  qed
next
  case (generating rounds tries ud reg pepper order file_exists shuffled now w r)
  then show ?thesis
  proof (rule generation_rows)
    assume "t = s"
    with assms(2) batches_later_same show ?thesis by auto
  next
    fix f codes
    assume new: "po_batch_id order \<notin> cb_id ` set (code_batches s)"
      and added: "codes_added (range (pw_ids w)) (\<lambda>c. hash_redemption_code hmac c pepper) order now
        (s\<lparr>code_batches := code_batches s @ [new_batch hmac pepper order f now],
           code_batch_events := code_batch_events s @ [generated_event order f now]\<rparr>) codes t"
    have t: "code_batches t = code_batches s @ [new_batch hmac pepper order f now]"
      "code_batch_events t = code_batch_events s @ [generated_event order f now]"
      using added by (auto simp: codes_added_def)
    have old: "history s (po_batch_id order) = []"
      using new assms(2) by (force simp: history_def batches_ok_def filter_empty_conv)
    have "history t i = history s i @ (if i = po_batch_id order then [EVENT_GENERATED] else [])" for i
      by (auto simp: history_def t generated_event_def batch_event_def)
    then show ?thesis
      using assms(2) new old
      by (auto simp: batches_ok_def batches_later_def t generated_event_def batch_event_def new_batch_def told_by_def expected_moves_def
        told_by_simps intro: later_refl)
  qed
qed

section \<open>Properties\<close>

text \<open>
  C34: the life of a batch. Over any sequence of generator runs (finished, refused or broken off), status
  commands, freezes and operations elsewhere, the append-only history of every batch tells exactly what
  happened to it - it was generated, perhaps activated once, perhaps voided once, in this order, and
  frozen or exported at most once - and agrees with the row's status and timestamps. No batch disappears;
  its city, quantity, coins, format and pepper never change; a void batch stays void, and the moment it
  was activated, voided or frozen and the fingerprint it was frozen with are never rewritten.
\<close>

theorem batch_moves_forward:
  assumes "batches_ok s" "batch_run sha hmac s t"
  shows "batches_ok t \<and> batches_later s t"
  using assms(2)
proof (induction rule: rtranclp_induct)
  case base
  then show ?case using assms(1) batches_later_same by blast
next
  case (step t u)
  with batch_step_keeps [of sha hmac t u] show ?case by (blast intro: batches_later_trans)
qed

lemma sample_run_batches:
  "\<exists>t. generate_batch 1 1 ascii_unicode sample_hmac FORMATS (cp ''pepper'') (sample_order 1) False id 0 (sample_press (\<lambda>_. [65])) one_user
      = Some (Inr [csv_row_of ascii_unicode CITY2_B9 (sample_order 1) [65]], t)
    \<and> code_batches t = [new_batch sample_hmac (cp ''pepper'') (sample_order 1) CITY2_B9 0]"
proof -
  obtain t where run: "generate_batch 1 1 ascii_unicode sample_hmac FORMATS (cp ''pepper'') (sample_order 1) False id 0
      (sample_press (\<lambda>_. [65])) one_user = Some (Inr [csv_row_of ascii_unicode CITY2_B9 (sample_order 1) [65]], t)"
    using sample_run by blast
  have f: "get_format (po_format_id (sample_order 1)) FORMATS = Inr CITY2_B9" by (simp add: sample_order_def default_format)
  have "code_batches t = [new_batch sample_hmac (cp ''pepper'') (sample_order 1) CITY2_B9 0]"
    by (rule generation_result [OF run one_user_shop(1,2)]) (use f in \<open>auto simp: batch_written_def one_user_shop\<close>)
  with run show ?thesis by blast
qed

theorem batch_moves_forward_witness:
  "\<exists>s t u v. batch_run id sample_hmac one_user v \<and> set_status 7 ACTIVE None 5 s = (Inr True :: unit raised + bool, t)
    \<and> set_status 7 VOID None 6 t = (Inr True :: unit raised + bool, u)
    \<and> set_status 7 ACTIVE None 7 u = (Inr False :: unit raised + bool, v)
    \<and> batches_ok v \<and> batches_later one_user v"
proof -
  obtain s where s: "generate_batch 1 1 ascii_unicode sample_hmac FORMATS (cp ''pepper'') (sample_order 1) False id 0
      (sample_press (\<lambda>_. [65])) one_user = Some (Inr [csv_row_of ascii_unicode CITY2_B9 (sample_order 1) [65]], s)"
    "code_batches s = [new_batch sample_hmac (cp ''pepper'') (sample_order 1) CITY2_B9 0]"
    using sample_run_batches by blast
  define t u v where "t = snd (set_status 7 ACTIVE None 5 s :: (unit raised + bool) \<times> database)"
    and "u = snd (set_status 7 VOID None 6 t :: (unit raised + bool) \<times> database)"
    and "v = snd (set_status 7 ACTIVE None 7 u :: (unit raised + bool) \<times> database)"
  have moves: "set_status 7 ACTIVE None 5 s = (Inr True :: unit raised + bool, t)"
    "set_status 7 VOID None 6 t = (Inr True :: unit raised + bool, u)"
    "set_status 7 ACTIVE None 7 u = (Inr False :: unit raised + bool, v)"
    by (simp_all add: t_def u_def v_def set_status_def allowed_from_def s(2) new_batch_def sample_order_def update_batches_def add_event_def)
  have "batch_step id sample_hmac one_user s" "batch_step id sample_hmac s t" "batch_step id sample_hmac t u" "batch_step id sample_hmac u v"
    by (rule generating [OF s(1)], (rule moving, rule moves)+)
  then have run: "batch_run id sample_hmac one_user v" by (meson converse_rtranclp_into_rtranclp r_into_rtranclp)
  have "batches_ok one_user" by (simp add: batches_ok_def one_user_shop) (simp add: one_user_def empty_database_def)
  from batch_moves_forward [OF this run] run moves show ?thesis by blast
qed

text \<open>
  Freezing, on every branch, and the start-up check. An unknown batch is not frozen; a batch of a
  format nobody registered is refused; a batch frozen before is left alone, checksum and all, and the answer
  tells whether the format is still the one it was frozen with; otherwise the fingerprint of the format
  is kept with the moment and, for an export, the checksum of the file. If every frozen batch passed
  \<open>verify_frozen_formats\<close> before, every one does afterwards.
\<close>

theorem freeze_decided:
  assumes "distinct (map cb_id (code_batches s))"
  shows "case select_one (\<lambda>b. cb_id b = i) (code_batches s) of
      None \<Rightarrow> freeze_batch sha reg i checksum actor now s = (Inr False, s)
    | Some b \<Rightarrow>
        (case get_format (cb_format_id b) reg of
           Inl e \<Rightarrow> freeze_batch sha reg i checksum actor now s = (Inl (Raised e), s)
         | Inr g \<Rightarrow>
             if cb_frozen_at b \<noteq> None
             then freeze_batch sha reg i checksum actor now s
               = (Inr (cb_format_fingerprint b = Some (fingerprint sha g)), s)
             else \<exists>t. freeze_batch sha reg i checksum actor now s = (Inr True, t)
               \<and> code_batches t = update_where (\<lambda>x. cb_id x = i) (frozen_batch (fingerprint sha g) checksum now) (code_batches s)
               \<and> redemption_codes t = redemption_codes s
               \<and> (verify_frozen_formats sha reg (frozen_batch_formats s) = None
                   \<longrightarrow> verify_frozen_formats sha reg (frozen_batch_formats t) = None))"
proof (cases "select_one (\<lambda>b. cb_id b = i) (code_batches s)")
  case None
  then show ?thesis by (simp add: freeze_batch_def)
next
  case (Some b)
  then have b: "b \<in> set (code_batches s)" "cb_id b = i" by (auto dest: select_one_Some)
  show ?thesis
  proof (cases "cb_frozen_at b \<noteq> None \<or> (\<exists>e. get_format (cb_format_id b) reg = Inl e)")
    case True
    with Some show ?thesis by (auto simp: freeze_batch_def Let_def split: sum.splits)
  next
    case False
    then obtain g where g: "get_format (cb_format_id b) reg = Inr g" "cb_frozen_at b = None"
      by (cases "get_format (cb_format_id b) reg") auto
    obtain f t where run: "freeze_batch sha reg i checksum actor now s = (f, t)" by fastforce
    have "f = Inr True \<and> redemption_codes t = redemption_codes s
        \<and> code_batches t = update_where (\<lambda>x. cb_id x = i) (frozen_batch (fingerprint sha g) checksum now) (code_batches s)"
      using freeze_first [OF run Some g(2,1)] by auto
    with freeze_keeps_check [OF assms b(1) g(1), of t sha] b(2) Some g run show ?thesis by simp
  qed
qed

theorem freeze_decided_witness:
  "\<exists>s t u. freeze_batch id FORMATS 7 None (Some (cp ''me'')) 5 s = (Inr True, t)
    \<and> code_batches t = update_where (\<lambda>x. cb_id x = 7) (frozen_batch (fingerprint id CITY2_B9) None 5) (code_batches s)
    \<and> verify_frozen_formats id FORMATS (frozen_batch_formats t) = None
    \<and> freeze_batch id FORMATS 7 (Some ''abc'') None 6 t = (Inr True, t)"
proof -
  obtain s :: database where s: "code_batches s = [new_batch sample_hmac (cp ''pepper'') (sample_order 1) CITY2_B9 0]"
    using sample_run_batches by blast
  have f: "get_format (format_id CITY2_B9) FORMATS = Inr CITY2_B9"
    by (simp add: get_format_def registered_def FORMATS_eq V2_B10_def CITY2_B9_def)
  have row: "select_one (\<lambda>b. cb_id b = 7) (code_batches s) = Some (new_batch sample_hmac (cp ''pepper'') (sample_order 1) CITY2_B9 0)"
    "distinct (map cb_id (code_batches s))" "verify_frozen_formats id FORMATS (frozen_batch_formats s) = None"
    by (simp_all add: s new_batch_def sample_order_def frozen_check_iff fits_registry_def)
  from freeze_decided [OF row(2), where i = 7 and sha = id and reg = FORMATS and checksum = None and actor = "Some (cp ''me'')" and now = 5] row f obtain t
    where t: "freeze_batch id FORMATS 7 None (Some (cp ''me'')) 5 s = (Inr True, t)"
      "code_batches t = update_where (\<lambda>x. cb_id x = 7) (frozen_batch (fingerprint id CITY2_B9) None 5) (code_batches s)"
      "verify_frozen_formats id FORMATS (frozen_batch_formats t) = None"
    by (auto simp: new_batch_def)
  have "code_batches t = [frozen_batch (fingerprint id CITY2_B9) None 5 (new_batch sample_hmac (cp ''pepper'') (sample_order 1) CITY2_B9 0)]"
    by (simp add: t(2) s new_batch_def sample_order_def)
  then have "distinct (map cb_id (code_batches t))"
    "select_one (\<lambda>b. cb_id b = 7) (code_batches t)
      = Some (frozen_batch (fingerprint id CITY2_B9) None 5 (new_batch sample_hmac (cp ''pepper'') (sample_order 1) CITY2_B9 0))"
    by (simp_all add: new_batch_def sample_order_def)
  with freeze_decided [of t, where i = 7 and sha = id and reg = FORMATS and checksum = "Some ''abc''" and actor = None and now = 6] f
  have "freeze_batch id FORMATS 7 (Some ''abc'') None 6 t = (Inr True, t)" by (simp add: new_batch_def)
  with t show ?thesis by blast
qed

end
