(* ===== verification/Print_Run_Script.thy ===== *)
theory Print_Run_Script
  imports Batch_Life Print_Runs Calendar
begin

text \<open>
  The weighted print run of \<open>scripts/print_run.py\<close>: the run id, the codes issued so far, one batch with its
  printer file for each flavor, and the rollback that voids the batches of a run that breaks off. A run
  holds an advisory lock, so runs are steps that follow one another.
\<close>

declare show_nat.simps [simp del]

section \<open>The run id and the quota\<close>

definition issued_per_city :: "database \<Rightarrow> CityCode \<Rightarrow> int" where
  "issued_per_city s c = sum_list (map cb_quantity (filter (\<lambda>b. cb_city b = c) (code_batches s)))"

definition new_run_id :: "instant \<Rightarrow> pystr" where
  "new_run_id now =
     (let d = now div microsecond_day; t = nat ((now mod microsecond_day) div 1000000) in
      cp (''PR-'' @ pad_dec 4 (nat (year d)) @ pad_dec 2 (nat (month d)) @ pad_dec 2 (nat (day d)) @ ''T''
        @ pad_dec 2 (t div 3600) @ pad_dec 2 (t div 60 mod 60) @ pad_dec 2 (t mod 60) @ ''Z''))"

definition label_used :: "database \<Rightarrow> pystr \<Rightarrow> bool" where
  "label_used s run_id \<longleftrightarrow> exists_where (\<lambda>b. starts_with (run_id @ [32]) (cb_label b)) (code_batches s)"

text \<open>The loop of \<open>unique_run_id\<close>; \<open>None\<close>: no free id among the first \<open>fuel\<close> suffixes.\<close>

fun run_id_loop :: "nat \<Rightarrow> database \<Rightarrow> pystr \<Rightarrow> pystr \<Rightarrow> nat \<Rightarrow> pystr option" where
  "run_id_loop 0 s stem candidate suffix = None"
| "run_id_loop (Suc fuel) s stem candidate suffix =
     (if label_used s candidate then run_id_loop fuel s stem (stem @ [45] @ show_nat (suffix + 1)) (suffix + 1)
      else Some candidate)"

definition unique_run_id :: "database \<Rightarrow> instant \<Rightarrow> pystr option" where
  "unique_run_id s now = run_id_loop (Suc (length (code_batches s))) s (new_run_id now) (new_run_id now) 1"

definition plan_print_run ::
  "database \<Rightarrow> int \<Rightarrow> weights \<Rightarrow> int \<Rightarrow> PrintRunError + (allocation \<times> (CityCode \<Rightarrow> int))" where
  "plan_print_run s k ws quota_per_sku =
     (case plan_run k ws (issued_per_city s) quota_per_sku of
        Inl e \<Rightarrow> Inl e
      | Inr alloc \<Rightarrow> Inr (alloc, issued_per_city s))"

section \<open>The batches of a run\<close>

record RunBatch =
  rb_city :: CityCode
  rb_batch_id :: uuid
  rb_quantity :: int
  rb_csv_name :: pystr
  rb_sha256 :: string

record PrintRunResult =
  pr_run_id :: pystr
  pr_allocation :: allocation
  pr_issued_before :: "CityCode \<Rightarrow> int"
  pr_remaining_after :: "CityCode \<Rightarrow> int"
  pr_batches :: "RunBatch list"

text \<open>
  What the run is called with, and what it finds: the generator's world, clock and new id for each city,
  whether the disk or the database raises before the city's batch is frozen, the clock of the rollback,
  whether the directory exists, and whether the manifest cannot be written.
\<close>

record run_order =
  ro_k :: int
  ro_weights :: weights
  ro_coins_per_code :: int
  ro_base_url :: pystr
  ro_pepper :: pystr
  ro_quota_per_sku :: int
  ro_format_id :: pystr

record run_world =
  rw_now :: instant
  rw_batch_id :: "CityCode \<Rightarrow> uuid"
  rw_press :: "CityCode \<Rightarrow> print_world"
  rw_shuffled :: "CityCode \<Rightarrow> csv_row list \<Rightarrow> csv_row list"
  rw_clock :: "CityCode \<Rightarrow> instant"
  rw_breaks :: "CityCode \<Rightarrow> bool"
  rw_rollback_clock :: "uuid \<Rightarrow> instant"
  rw_dir_exists :: bool
  rw_manifest_fails :: bool

text \<open>The hash functions, the character tables and the registry.\<close>

record tools =
  tl_unicode :: unicode
  tl_hmac :: hmac_hex
  tl_sha :: "pystr \<Rightarrow> pystr"
  tl_file_sha :: "csv_row list \<Rightarrow> string"
  tl_registry :: registry

datatype run_error = REFUSED PrintRunError | BAD_FORMAT FormatRegistryError

type_synonym files = "(pystr \<times> csv_row list) list"

definition run_raised :: "FormatRegistryError raised \<Rightarrow> run_error raised" where
  "run_raised e = (case e of Raised x \<Rightarrow> Raised (BAD_FORMAT x) | Crash c \<Rightarrow> Crash c)"

definition city_name :: "CityCode \<Rightarrow> pystr" where
  "city_name c = cp (campaign_value (CAMPAIGN_BY_CITY c))"

definition RUN_ACTOR :: pystr where
  "RUN_ACTOR = cp ''print_run''"

definition ROLLBACK_ACTOR :: pystr where
  "ROLLBACK_ACTOR = cp ''print_run rollback''"

definition csv_name :: "pystr \<Rightarrow> CityCode \<Rightarrow> pystr" where
  "csv_name run_id c = run_id @ [45] @ cp (city_value c) @ [45] @ city_name c @ cp ''.csv''"

definition city_order :: "run_order \<Rightarrow> run_world \<Rightarrow> pystr \<Rightarrow> pystr \<Rightarrow> allocation \<Rightarrow> CityCode \<Rightarrow> print_order" where
  "city_order ro w fid run_id alloc c = \<lparr>po_batch_id = rw_batch_id w c, po_city = c, po_quantity = alloc c,
     po_coins_per_code = ro_coins_per_code ro,
     po_label = run_id @ [32] @ city_name c @ [32] @ show_int (alloc c) @ [47] @ show_int (ro_k ro),
     po_base_url = ro_base_url ro, po_format_id = fid\<rparr>"

text \<open>
  The loop over the flavors, with the files written and the batches made so far; \<open>None\<close>: the generator
  has not ended within \<open>rounds\<close> and \<open>tries\<close>.
\<close>

fun generate_cities ::
  "nat \<Rightarrow> nat \<Rightarrow> tools \<Rightarrow> run_order \<Rightarrow> run_world \<Rightarrow> pystr \<Rightarrow> pystr \<Rightarrow> allocation \<Rightarrow> CityCode list \<Rightarrow> RunBatch list \<Rightarrow> files
     \<Rightarrow> database \<Rightarrow> ((run_error raised + RunBatch list) \<times> files \<times> database) option" where
  "generate_cities rounds tries kit ro w fid run_id alloc [] batches files s = Some (Inr batches, files, s)"
| "generate_cities rounds tries kit ro w fid run_id alloc (c # cs) batches files s =
     (if alloc c = 0 then generate_cities rounds tries kit ro w fid run_id alloc cs batches files s
      else
        (let name = csv_name run_id c; i = rw_batch_id w c in
         case generate_batch rounds tries (tl_unicode kit) (tl_hmac kit) (tl_registry kit) (ro_pepper ro)
             (city_order ro w fid run_id alloc c) (name \<in> fst ` set files) (rw_shuffled w c) (rw_clock w c) (rw_press w c) s of
           None \<Rightarrow> None
         | Some (Inl e, t) \<Rightarrow> Some (Inl (run_raised e), files, t)
         | Some (Inr rows, t) \<Rightarrow>
             if rw_breaks w c then Some (Inl (Crash (OSError ''outage'')), files @ [(name, rows)], t)
             else
               (case freeze_batch (tl_sha kit) (tl_registry kit) i (Some (tl_file_sha kit rows)) (Some RUN_ACTOR) (rw_clock w c) t of
                  (Inl e, u) \<Rightarrow> Some (Inl (run_raised e), files @ [(name, rows)], u)
                | (Inr _, u) \<Rightarrow> generate_cities rounds tries kit ro w fid run_id alloc cs
                    (batches @ [\<lparr>rb_city = c, rb_batch_id = i, rb_quantity = alloc c, rb_csv_name = name,
                       rb_sha256 = tl_file_sha kit rows\<rparr>]) (files @ [(name, rows)]) u)))"

text \<open>The rollback: every batch whose label carries the run id is voided, by the command's own code.\<close>

fun void_all :: "(uuid \<Rightarrow> instant) \<Rightarrow> uuid list \<Rightarrow> database \<Rightarrow> database" where
  "void_all clock [] s = s"
| "void_all clock (i # js) s =
     void_all clock js (snd (set_status i VOID (Some ROLLBACK_ACTOR) (clock i) s :: (unit raised + bool) \<times> database))"

definition orphans :: "pystr \<Rightarrow> database \<Rightarrow> uuid list" where
  "orphans run_id s = map cb_id (filter (\<lambda>b. starts_with (run_id @ [32]) (cb_label b)) (code_batches s))"

text \<open>\<open>_generate_all\<close>; the files of the run are unlinked when it breaks off.\<close>

definition generate_all ::
  "nat \<Rightarrow> nat \<Rightarrow> tools \<Rightarrow> run_order \<Rightarrow> run_world \<Rightarrow> pystr \<Rightarrow> pystr \<Rightarrow> allocation \<Rightarrow> database
     \<Rightarrow> ((run_error raised + RunBatch list) \<times> files \<times> database) option" where
  "generate_all rounds tries kit ro w fid run_id alloc s =
     (case generate_cities rounds tries kit ro w fid run_id alloc SKU_ORDER [] [] s of
        None \<Rightarrow> None
      | Some (Inr batches, files, t) \<Rightarrow> Some (Inr batches, files, t)
      | Some (Inl e, files, t) \<Rightarrow>
          Some (Inl e, filter (\<lambda>(name, _). name \<notin> csv_name run_id ` set SKU_ORDER) files,
            void_all (rw_rollback_clock w) (orphans run_id t) t))"

definition run_print_run ::
  "nat \<Rightarrow> nat \<Rightarrow> tools \<Rightarrow> run_order \<Rightarrow> run_world \<Rightarrow> database
     \<Rightarrow> ((run_error raised + PrintRunResult) \<times> files \<times> database) option" where
  "run_print_run rounds tries kit ro w s =
     (case get_format (ro_format_id ro) (tl_registry kit) of
        Inl e \<Rightarrow> Some (Inl (Raised (BAD_FORMAT e)), [], s)
      | Inr f \<Rightarrow>
          (case unique_run_id s (rw_now w) of
             None \<Rightarrow> None
           | Some run_id \<Rightarrow>
               let issued = issued_per_city s in
               (case plan_run (ro_k ro) (ro_weights ro) issued (ro_quota_per_sku ro) of
                  Inl e \<Rightarrow> Some (Inl (Raised (REFUSED e)), [], s)
                | Inr alloc \<Rightarrow>
                    if rw_dir_exists w then Some (Inl (Crash (OSError ''FileExistsError'')), [], s)
                    else
                      (case generate_all rounds tries kit ro w (format_id f) run_id alloc s of
                         None \<Rightarrow> None
                       | Some (Inl e, files, t) \<Rightarrow> Some (Inl e, files, t)
                       | Some (Inr batches, files, t) \<Rightarrow>
                           if rw_manifest_fails w then Some (Inl (Crash (OSError ''manifest'')), files, t)
                           else Some (Inr \<lparr>pr_run_id = run_id, pr_allocation = alloc, pr_issued_before = issued,
                               pr_remaining_after = (\<lambda>c. remaining_quota issued (ro_quota_per_sku ro) c - alloc c),
                               pr_batches = batches\<rparr>, files, t)))))"

section \<open>A free run id is always found\<close>

lemma run_id_loop_Some:
  assumes "run_id_loop fuel s stem candidate k = Some run_id"
  shows "\<not> label_used s run_id"
  using assms by (induction fuel s stem candidate k rule: run_id_loop.induct) (auto split: if_splits)

lemma undigs_show_nat: "undigs 10 (map (\<lambda>c. c - 48) (show_nat n)) = n \<and> (\<forall>c \<in> set (show_nat n). 48 \<le> c \<and> c < 58)"
proof (induction n rule: show_nat.induct)
  case (1 n)
  then show ?case by (cases "n < 10") (auto simp: show_nat.simps [of n] undigs_def)
qed

lemma show_nat_inject: "show_nat m = show_nat n \<longleftrightarrow> m = n"
  using undigs_show_nat by metis

definition candidate :: "pystr \<Rightarrow> nat \<Rightarrow> pystr" where
  "candidate stem k = (if k = 1 then stem else stem @ [45] @ show_nat k)"

lemma candidate_inject: "1 \<le> j \<Longrightarrow> 1 \<le> k \<Longrightarrow> candidate stem j = candidate stem k \<longleftrightarrow> j = k"
  by (auto simp: candidate_def show_nat_inject)

lemma candidate_no_space: "32 \<notin> set stem \<Longrightarrow> 32 \<notin> set (candidate stem k)"
  using undigs_show_nat [of k] by (auto simp: candidate_def)

lemma label_used_prefix:
  assumes "label_used s run_id" "32 \<notin> set run_id"
  shows "run_id \<in> (\<lambda>b. takeWhile (\<lambda>c. c \<noteq> 32) (cb_label b)) ` set (code_batches s)"
proof -
  from assms(1) obtain b r where b: "b \<in> set (code_batches s)" "cb_label b = (run_id @ [32]) @ r"
    by (auto simp: label_used_def starts_with_iff)
  moreover have "takeWhile (\<lambda>c. c \<noteq> 32) (run_id @ 32 # r) = run_id"
    using assms(2) by (induction run_id) auto
  ultimately show ?thesis by force
qed

lemma run_id_loop_None:
  "run_id_loop fuel s stem (candidate stem k) k = None \<Longrightarrow> 1 \<le> k \<Longrightarrow> j < fuel \<Longrightarrow> label_used s (candidate stem (k + j))"
proof (induction fuel arbitrary: k j)
  case (Suc fuel)
  have used: "label_used s (candidate stem k)" using Suc.prems(1) by (auto split: if_splits)
  have next_one: "stem @ [45] @ show_nat (k + 1) = candidate stem (k + 1)" using Suc.prems(2) by (simp add: candidate_def)
  show ?case
  proof (cases j)
    case (Suc i)
    have "run_id_loop fuel s stem (candidate stem (k + 1)) (k + 1) = None"
      using Suc.prems(1) used next_one by simp
    from Suc.IH [OF this, of i] Suc \<open>j < Suc fuel\<close> show ?thesis by simp
  qed (use used in simp)
qed simp

lemma new_run_id_no_space: "32 \<notin> set (new_run_id now)"
proof -
  have dig: "CHR '' '' \<notin> set (pad_dec w n)" for w n
  proof -
    have "CHR '' '' \<noteq> digit_char d" if "d < 10" for d
      using that by (auto simp: digit_char_def less_Suc_eq numeral_eq_Suc)
    then show ?thesis by (auto simp: pad_dec_def dest!: digs_lt [of 10, rotated])
  qed
  have "of_char CHR '' '' = (32 :: nat)" by simp
  then have "32 \<in> set (cp x) \<longleftrightarrow> CHR '' '' \<in> set x" for x
    by (metis (no_types, lifting) cp_def image_iff of_char_eq_iff set_map)
  with dig show ?thesis by (simp add: new_run_id_def Let_def del: cp_Cons cp_append)
qed

lemma unique_run_id_found:
  obtains run_id where "unique_run_id s now = Some run_id" "\<not> label_used s run_id" "32 \<notin> set run_id"
proof (cases "unique_run_id s now")
  case None
  let ?n = "length (code_batches s)" and ?c = "candidate (new_run_id now)"
  have used: "label_used s (?c (1 + j))" if "j < Suc ?n" for j
    using run_id_loop_None [of "Suc ?n" s "new_run_id now" 1 j] None that by (simp add: unique_run_id_def candidate_def)
  have "?c ` {1..Suc ?n} \<subseteq> (\<lambda>b. takeWhile (\<lambda>c. c \<noteq> 32) (cb_label b)) ` set (code_batches s)"
  proof (intro image_subsetI)
    fix k
    assume "k \<in> {1..Suc ?n}"
    then have "label_used s (?c (1 + (k - 1)))" "1 + (k - 1) = k" using used [of "k - 1"] by auto
    then have "label_used s (?c k)" by simp
    with label_used_prefix candidate_no_space [OF new_run_id_no_space] show "?c k \<in> (\<lambda>b. takeWhile (\<lambda>c. c \<noteq> 32) (cb_label b)) ` set (code_batches s)"
      by blast
  qed
  then have "card (?c ` {1..Suc ?n}) \<le> card (set (code_batches s))"
    by (meson List.finite_set card_image_le card_mono finite_imageI le_trans)
  moreover have "card (?c ` {1..Suc ?n}) = Suc ?n"
    by (subst card_image) (auto simp: inj_on_def candidate_inject)
  ultimately show ?thesis using card_length [of "code_batches s"] by simp
next
  case (Some run_id)
  have "run_id \<in> insert (new_run_id now) (range (\<lambda>k. new_run_id now @ [45] @ show_nat k))"
    if "run_id_loop fuel s (new_run_id now) c k = Some run_id" "c \<in> insert (new_run_id now) (range (\<lambda>k. new_run_id now @ [45] @ show_nat k))"
    for fuel c k
    using that by (induction fuel s "new_run_id now" c k rule: run_id_loop.induct) (auto split: if_splits)
  from this [OF Some [unfolded unique_run_id_def]] have "32 \<notin> set run_id"
    using new_run_id_no_space [of now] undigs_show_nat by fastforce
  with Some run_id_loop_Some [OF Some [unfolded unique_run_id_def]] that show ?thesis by blast
qed

section \<open>The rollback\<close>

lemma shop_ok_batches:
  assumes "shop_ok s" "t = s\<lparr>code_batches := bs, code_batch_events := es\<rparr>" "map cb_id bs = map cb_id (code_batches s)"
    and "map cb_coins_per_code bs = map cb_coins_per_code (code_batches s)"
  shows "shop_ok t"
proof -
  have "cb_coins_per_code ` set bs = cb_coins_per_code ` set (code_batches s)" using assms(4) by (metis list.set_map)
  then have "\<forall>b \<in> set bs. 0 \<le> cb_coins_per_code b" using assms(1) by (force simp: shop_ok_def codes_ok_def)
  with assms(1,3) have "codes_ok t" by (simp add: shop_ok_def codes_ok_def assms(2))
  moreover have "entries_ok t = entries_ok s"
    by (simp add: assms(2) entries_ok_def points_of_def progress_of_def count_flavor_codes_def)
  moreover have "unpaid_ok t = unpaid_ok s" "ledger_ok t = ledger_ok s"
    by (simp_all add: assms(2) unpaid_ok_def recorded_amount_def ledger_ok_def)
  ultimately show ?thesis using assms(1) by (simp add: shop_ok_def)
qed

definition voided_at :: "(uuid \<Rightarrow> instant) \<Rightarrow> CodeBatchModel \<Rightarrow> CodeBatchModel" where
  "voided_at clock b = b\<lparr>cb_status := VOID, cb_voided_at := Some (clock (cb_id b))\<rparr>"

lemma voided_at_simps [simp]: "cb_id (voided_at clock b) = cb_id b" "cb_status (voided_at clock b) = VOID"
  "cb_coins_per_code (voided_at clock b) = cb_coins_per_code b" "cb_city (voided_at clock b) = cb_city b"
  "cb_quantity (voided_at clock b) = cb_quantity b" "cb_label (voided_at clock b) = cb_label b"
  by (simp_all add: voided_at_def)

lemma void_all_result:
  "\<exists>es. void_all clock js s = s\<lparr>code_batches := update_where (\<lambda>b. cb_id b \<in> set js \<and> cb_status b \<noteq> VOID) (voided_at clock) (code_batches s),
     code_batch_events := code_batch_events s @ es\<rparr>"
proof (induction js arbitrary: s)
  case Nil
  then show ?case by (intro exI [of _ "[]"]) (simp add: update_where_def)
next
  case (Cons i js)
  let ?t = "snd (set_status i VOID (Some ROLLBACK_ACTOR) (clock i) s :: (unit raised + bool) \<times> database)"
  have one: "\<exists>es. ?t = s\<lparr>code_batches := update_where (\<lambda>b. cb_id b = i \<and> cb_status b \<noteq> VOID) (voided_at clock) (code_batches s),
      code_batch_events := code_batch_events s @ es\<rparr>"
  proof -
    have alive: "cb_status b \<in> {GENERATED, ACTIVE} \<longleftrightarrow> cb_status b \<noteq> VOID" for b :: CodeBatchModel by (cases "cb_status b") auto
    have same: "update_where (\<lambda>b. cb_id b = i \<and> cb_status b \<noteq> VOID) (\<lambda>b. b\<lparr>cb_status := VOID, cb_voided_at := Some (clock i)\<rparr>) (code_batches s)
        = update_where (\<lambda>b. cb_id b = i \<and> cb_status b \<noteq> VOID) (voided_at clock) (code_batches s)"
      by (auto simp: update_where_def voided_at_def)
    have none: "update_where (\<lambda>b. cb_id b = i \<and> cb_status b \<noteq> VOID) (voided_at clock) (code_batches s) = code_batches s"
      if "\<not> exists_where (\<lambda>b. cb_id b = i \<and> cb_status b \<noteq> VOID) (code_batches s)"
      using that by (intro update_where_none) auto
    show ?thesis
    proof (cases "exists_where (\<lambda>b. cb_id b = i \<and> cb_status b \<noteq> VOID) (code_batches s)")
      case True
      with alive show ?thesis
        by (intro exI [of _ "[batch_event i EVENT_VOIDED (Some ROLLBACK_ACTOR) None (clock i)]"])
          (simp add: set_status_def allowed_from_def Let_def update_batches_def add_event_def same del: exists_where_iff)
    next
      case False
      with alive none [OF False] show ?thesis
        by (intro exI [of _ "[]"]) (simp add: set_status_def allowed_from_def Let_def del: exists_where_iff)
    qed
  qed
  then obtain es where t: "?t = s\<lparr>code_batches := update_where (\<lambda>b. cb_id b = i \<and> cb_status b \<noteq> VOID) (voided_at clock) (code_batches s),
      code_batch_events := code_batch_events s @ es\<rparr>" by blast
  have both: "update_where (\<lambda>b. cb_id b \<in> set js \<and> cb_status b \<noteq> VOID) (voided_at clock)
      (update_where (\<lambda>b. cb_id b = i \<and> cb_status b \<noteq> VOID) (voided_at clock) rows)
    = update_where (\<lambda>b. cb_id b \<in> set (i # js) \<and> cb_status b \<noteq> VOID) (voided_at clock) rows" for rows
    by (auto simp: update_where_def)
  from Cons.IH [of ?t] obtain es' where "void_all clock js ?t = ?t\<lparr>code_batches
      := update_where (\<lambda>b. cb_id b \<in> set js \<and> cb_status b \<noteq> VOID) (voided_at clock) (code_batches ?t), code_batch_events := code_batch_events ?t @ es'\<rparr>"
    by blast
  then show ?case by (intro exI [of _ "es @ es'"]) (simp add: t both)
qed

section \<open>The cities\<close>

definition city_batch :: "tools \<Rightarrow> run_order \<Rightarrow> run_world \<Rightarrow> CodeFormat \<Rightarrow> pystr \<Rightarrow> allocation \<Rightarrow> CityCode \<Rightarrow> csv_row list \<Rightarrow> CodeBatchModel" where
  "city_batch kit ro w f run_id alloc c rows = frozen_batch (fingerprint (tl_sha kit) f) (Some (tl_file_sha kit rows)) (rw_clock w c)
     (new_batch (tl_hmac kit) (ro_pepper ro) (city_order ro w (format_id f) run_id alloc c) f (rw_clock w c))"

definition city_record :: "tools \<Rightarrow> run_world \<Rightarrow> pystr \<Rightarrow> allocation \<Rightarrow> CityCode \<Rightarrow> csv_row list \<Rightarrow> RunBatch" where
  "city_record kit w run_id alloc c rows = \<lparr>rb_city = c, rb_batch_id = rw_batch_id w c, rb_quantity = alloc c,
     rb_csv_name = csv_name run_id c, rb_sha256 = tl_file_sha kit rows\<rparr>"

text \<open>The batches of a run: labelled with its id, with the quantity allotted, and not yet on the shelves.\<close>

definition run_batch :: "pystr \<Rightarrow> allocation \<Rightarrow> CityCode list \<Rightarrow> CodeBatchModel \<Rightarrow> bool" where
  "run_batch run_id alloc cs b \<longleftrightarrow> starts_with (run_id @ [32]) (cb_label b) \<and> cb_city b \<in> set cs \<and> cb_quantity b = alloc (cb_city b)
     \<and> 0 < cb_quantity b \<and> cb_status b = GENERATED"

lemma get_format_again:
  assumes "get_format fid reg = Inr f"
  shows "get_format (format_id f) reg = Inr f"
proof -
  have f: "registered reg (if fid = [] then DEFAULT_FORMAT_ID else fid) = Some f"
    using assms by (auto simp: get_format_def split: option.splits)
  then have "format_id f = (if fid = [] then DEFAULT_FORMAT_ID else fid)" by (auto simp: registered_def find_Some_iff)
  moreover from this have "format_id f \<noteq> []" by (auto simp: DEFAULT_FORMAT_ID_def CITY2_B9_def)
  ultimately show ?thesis using f by (simp add: get_format_def)
qed

text \<open>What one city adds, when its batch is made and frozen.\<close>

lemma city_frozen:
  assumes "distinct (map cb_id (code_batches t))" "code_batches t = bs @ [new_batch hmac pepper order f at_time]"
    and "get_format (format_id f) reg = Inr f"
  shows "\<exists>es. freeze_batch sha reg (po_batch_id order) (Some x) actor now t
    = (Inr True, t\<lparr>code_batches := bs @ [frozen_batch (fingerprint sha f) (Some x) now (new_batch hmac pepper order f at_time)],
        code_batch_events := code_batch_events t @ es\<rparr>)"
proof -
  let ?b = "new_batch hmac pepper order f at_time"
  have id: "cb_id ?b = po_batch_id order" "cb_frozen_at ?b = None" "cb_format_id ?b = format_id f" by (simp_all add: new_batch_def)
  have "select_one (\<lambda>b. cb_id b = cb_id ?b) (code_batches t) = Some ?b"
    using assms(1,2) by (intro select_one_unique) simp_all
  then have row: "select_one (\<lambda>b. cb_id b = po_batch_id order) (code_batches t) = Some ?b" by (simp add: id)
  have "update_where (\<lambda>b. cb_id b = po_batch_id order) g bs = bs" for g
    using assms(1,2) id(1) by (intro update_where_none) (auto simp: image_iff)
  with freeze_first [OF _ row id(2), of sha reg "Some x" actor now _ _ f] assms(2,3) id show ?thesis
    by (cases "freeze_batch sha reg (po_batch_id order) (Some x) actor now t") (auto simp: id)
qed

text \<open>What the loop has added when it ends, complete or not.\<close>

definition cities_done ::
  "tools \<Rightarrow> run_order \<Rightarrow> run_world \<Rightarrow> CodeFormat \<Rightarrow> pystr \<Rightarrow> allocation \<Rightarrow> CityCode list \<Rightarrow> database \<Rightarrow> RunBatch list \<Rightarrow> files \<Rightarrow> database \<Rightarrow> bool" where
  "cities_done kit ro w f run_id alloc cs s batches files t \<longleftrightarrow>
     (\<exists>rowss. list_all2 (\<lambda>c rows. int (length rows) = alloc c) (filter (\<lambda>c. alloc c \<noteq> 0) cs) rowss
        \<and> code_batches t = code_batches s @ map2 (city_batch kit ro w f run_id alloc) (filter (\<lambda>c. alloc c \<noteq> 0) cs) rowss
        \<and> batches = map2 (city_record kit w run_id alloc) (filter (\<lambda>c. alloc c \<noteq> 0) cs) rowss
        \<and> files = map2 (\<lambda>c rows. (csv_name run_id c, rows)) (filter (\<lambda>c. alloc c \<noteq> 0) cs) rowss)"

definition cities_left :: "pystr \<Rightarrow> allocation \<Rightarrow> CityCode list \<Rightarrow> database \<Rightarrow> files \<Rightarrow> database \<Rightarrow> bool" where
  "cities_left run_id alloc cs s files t \<longleftrightarrow>
     (\<exists>new. code_batches t = code_batches s @ new \<and> list_all (run_batch run_id alloc cs) new \<and> distinct (map cb_city new))
     \<and> shop_ok t \<and> recorded_amount t = recorded_amount s \<and> fst ` set files \<subseteq> csv_name run_id ` set cs"

definition fair_world :: "run_world \<Rightarrow> database \<Rightarrow> bool" where
  "fair_world w s \<longleftrightarrow> (\<forall>c. ids_unpaid (rw_press w c) s) \<and> (\<forall>c xs. mset (rw_shuffled w c xs) = mset xs)"

lemma written_amounts: "batch_written hmac pepper order f now s codes t \<Longrightarrow> recorded_amount t = recorded_amount s"
  by (auto simp: batch_written_def recorded_amount_def fun_eq_iff)

lemma city_order_simps [simp]: "po_city (city_order ro w fid run_id alloc c) = c" "po_quantity (city_order ro w fid run_id alloc c) = alloc c"
  "po_batch_id (city_order ro w fid run_id alloc c) = rw_batch_id w c" "po_format_id (city_order ro w fid run_id alloc c) = fid"
  "po_coins_per_code (city_order ro w fid run_id alloc c) = ro_coins_per_code ro"
  by (simp_all add: city_order_def)

lemma run_batch_new:
  assumes "0 < alloc c" "c \<in> set cs"
  shows "run_batch run_id alloc cs (new_batch hmac pepper (city_order ro w fid run_id alloc c) f now)"
    and "run_batch run_id alloc cs (city_batch kit ro w f run_id alloc c rows)"
  using assms by (simp_all add: run_batch_def new_batch_def city_batch_def frozen_batch_def starts_with_iff)
    (simp_all add: city_order_def)

lemma run_batch_more: "run_batch run_id alloc cs b \<Longrightarrow> set cs \<subseteq> set ds \<Longrightarrow> run_batch run_id alloc ds b"
  by (auto simp: run_batch_def)

lemma csv_name_inject: "csv_name run_id c = csv_name run_id d \<longleftrightarrow> c = d"
  by (auto simp: csv_name_def append_eq_append_conv)

lemma cities_left_new:
  assumes "cities_left run_id alloc cs u files t" "shop_ok u" "code_batches u = code_batches s @ [b]" "recorded_amount u = recorded_amount s"
    and "run_batch run_id alloc (c # cs) b" "cb_city b = c" "c \<notin> set cs"
    and "fst ` set made \<subseteq> insert (csv_name run_id c) (fst ` set files)"
  shows "cities_left run_id alloc (c # cs) s made t"
proof -
  from assms(1) obtain new where new: "code_batches t = code_batches u @ new" "list_all (run_batch run_id alloc cs) new"
      "distinct (map cb_city new)" "shop_ok t" "recorded_amount t = recorded_amount u" "fst ` set files \<subseteq> csv_name run_id ` set cs"
    by (auto simp: cities_left_def)
  have "list_all (run_batch run_id alloc (c # cs)) new" using new(2) by (auto simp: list_all_iff run_batch_def)
  moreover have "c \<notin> cb_city ` set new" using new(2) assms(7) by (auto simp: list_all_iff run_batch_def)
  moreover have "fst ` set made \<subseteq> csv_name run_id ` set (c # cs)" using assms(8) new(6) by auto
  ultimately show ?thesis
    unfolding cities_left_def using new(1,3-5) assms(3-6) by (intro conjI exI [of _ "b # new"]) simp_all
qed

lemma cities_left_more: "cities_left run_id alloc cs s made t \<Longrightarrow> set cs \<subseteq> set ds \<Longrightarrow> cities_left run_id alloc ds s made t"
proof -
  assume left: "cities_left run_id alloc cs s made t" and sub: "set cs \<subseteq> set ds"
  then obtain new where "code_batches t = code_batches s @ new" "list_all (run_batch run_id alloc cs) new" "distinct (map cb_city new)"
    by (auto simp: cities_left_def)
  moreover from this(2) sub have "list_all (run_batch run_id alloc ds) new" by (auto simp: list_all_iff run_batch_def)
  moreover have "csv_name run_id ` set cs \<subseteq> csv_name run_id ` set ds" using sub by (rule image_mono)
  ultimately show ?thesis using left unfolding cities_left_def by blast
qed

lemma cities_left_none: "shop_ok s \<Longrightarrow> cities_left run_id alloc cs s [] s"
  by (auto simp: cities_left_def)

lemma cities_done_Cons:
  assumes "alloc c \<noteq> 0" "int (length rows) = alloc c" "code_batches u = code_batches s @ [city_batch kit ro w f run_id alloc c rows]"
    and "cities_done kit ro w f run_id alloc cs u made new t"
  shows "cities_done kit ro w f run_id alloc (c # cs) s (city_record kit w run_id alloc c rows # made) ((csv_name run_id c, rows) # new) t"
proof -
  from assms(4) obtain rowss where "list_all2 (\<lambda>c rows. int (length rows) = alloc c) (filter (\<lambda>c. alloc c \<noteq> 0) cs) rowss"
    "code_batches t = code_batches u @ map2 (city_batch kit ro w f run_id alloc) (filter (\<lambda>c. alloc c \<noteq> 0) cs) rowss"
    "made = map2 (city_record kit w run_id alloc) (filter (\<lambda>c. alloc c \<noteq> 0) cs) rowss"
    "new = map2 (\<lambda>c rows. (csv_name run_id c, rows)) (filter (\<lambda>c. alloc c \<noteq> 0) cs) rowss"
    by (auto simp: cities_done_def)
  with assms(1-3) show ?thesis unfolding cities_done_def by (intro exI [of _ "rows # rowss"]) simp
qed

lemma generate_cities_result:
  assumes "generate_cities rounds tries kit ro w (format_id f) run_id alloc cs batches files s = Some (r, files', t)"
    and "shop_ok s" "fair_world w s" "distinct cs" "get_format (format_id f) (tl_registry kit) = Inr f"
    and "\<forall>c \<in> set cs. csv_name run_id c \<notin> fst ` set files"
  shows "\<exists>new. files' = files @ new \<and> cities_left run_id alloc cs s new t
    \<and> (\<forall>c. in_active_batch t c = in_active_batch s c)
    \<and> (\<forall>bs. r = Inr bs \<longrightarrow> (\<exists>made. bs = batches @ made \<and> cities_done kit ro w f run_id alloc cs s made new t))"
  using assms
proof (induction cs arbitrary: batches files s)
  case Nil
  then have "t = s" "r = Inr batches" "files' = files" by simp_all
  with Nil.prems(2) show ?case by (auto simp: cities_left_none cities_done_def)
next
  case (Cons c cs)
  show ?case
  proof (cases "alloc c = 0")
    case True
    with Cons.prems Cons.IH [of batches files s] obtain new where
      "files' = files @ new" "cities_left run_id alloc cs s new t" "\<forall>c. in_active_batch t c = in_active_batch s c"
      "\<forall>bs. r = Inr bs \<longrightarrow> (\<exists>made. bs = batches @ made \<and> cities_done kit ro w f run_id alloc cs s made new t)"
      by auto
    with True cities_left_more [of run_id alloc cs s new t "c # cs"] show ?thesis
      by (intro exI [of _ new]) (auto simp: cities_done_def)
  next
    case False
    let ?name = "csv_name run_id c" and ?order = "city_order ro w (format_id f) run_id alloc c"
    let ?new = "new_batch (tl_hmac kit) (ro_pepper ro) ?order f (rw_clock w c)"
    have fresh: "?name \<notin> fst ` set files" using Cons.prems(6) by simp
    obtain q t1 where gen: "generate_batch rounds tries (tl_unicode kit) (tl_hmac kit) (tl_registry kit) (ro_pepper ro) ?order
        (?name \<in> fst ` set files) (rw_shuffled w c) (rw_clock w c) (rw_press w c) s = Some (q, t1)"
      using Cons.prems(1) False by (auto simp: Let_def split: option.splits)
    note go = Cons.prems(1) [unfolded generate_cities.simps Let_def if_not_P [OF False] gen option.case prod.case]
    have unpaid: "ids_unpaid (rw_press w c) s" using Cons.prems(3) by (simp add: fair_world_def)
    show ?thesis
      using gen Cons.prems(2) unpaid
    proof (rule generation_result)
      fix e
      assume "t1 = s" "q = Inl e"
      with go show ?thesis using cities_left_none [OF Cons.prems(2)] by auto
    next
      fix g codes
      assume g: "get_format (po_format_id ?order) (tl_registry kit) = Inr g" "0 < po_quantity ?order"
        and wr: "batch_written (tl_hmac kit) (ro_pepper ro) ?order g (rw_clock w c) s codes t1" and t1: "shop_ok t1"
        and rows: "\<forall>rows. q = Inr rows \<longrightarrow> int (length codes) = po_quantity ?order
          \<and> rows = rw_shuffled w c (map (csv_row_of (tl_unicode kit) g ?order) codes)"
      have fg: "g = f" using g(1) Cons.prems(5) by simp
      have tabs: "code_batches t1 = code_batches s @ [?new]" using wr fg by (auto simp: batch_written_def)
      have new_batch_ok: "cb_status ?new = GENERATED" "cb_city ?new = c" "cb_id ?new = rw_batch_id w c" by (simp_all add: new_batch_def)
      have active: "in_active_batch t1 c' = in_active_batch s c'" for c'
        by (rule in_active_batch_written [OF tabs]) (simp add: new_batch_ok)
      have stopped: "cities_left run_id alloc (c # cs) s made t1" if "fst ` set made \<subseteq> {?name}" for made
        using that Cons.prems(4) g(2)
        by (intro cities_left_new [OF cities_left_none [OF t1] t1 tabs written_amounts [OF wr] run_batch_new(1)]) (simp_all add: new_batch_ok)
      show ?thesis
      proof (cases q)
        case (Inl e)
        with go have "r = Inl (run_raised e)" "files' = files" "t = t1" by simp_all
        with stopped [of "[]"] active show ?thesis by auto
      next
        case (Inr rows')
        show ?thesis
        proof (cases "rw_breaks w c")
          case True
          with go Inr have "r = Inl (Crash (OSError ''outage''))" "files' = files @ [(?name, rows')]" "t = t1" by simp_all
          with stopped [of "[(?name, rows')]"] active show ?thesis by auto
        next
          case False
          have ids: "distinct (map cb_id (code_batches t1))" using t1 by (simp add: shop_ok_def codes_ok_def)
          let ?b = "city_batch kit ro w f run_id alloc c rows'"
          obtain es where fr: "freeze_batch (tl_sha kit) (tl_registry kit) (rw_batch_id w c) (Some (tl_file_sha kit rows'))
              (Some RUN_ACTOR) (rw_clock w c) t1
            = (Inr True, t1\<lparr>code_batches := code_batches s @ [?b], code_batch_events := code_batch_events t1 @ es\<rparr>)"
            using city_frozen [OF ids tabs Cons.prems(5), of "tl_sha kit" "tl_file_sha kit rows'" "Some RUN_ACTOR" "rw_clock w c"] that
            unfolding city_batch_def city_order_simps by blast
          define u where "u = t1\<lparr>code_batches := code_batches s @ [?b], code_batch_events := code_batch_events t1 @ es\<rparr>"
          have b: "cb_id ?b = cb_id ?new" "cb_coins_per_code ?b = cb_coins_per_code ?new" "cb_status ?b = GENERATED" "cb_city ?b = c"
            by (simp_all add: city_batch_def frozen_batch_def new_batch_def)
          have u: "shop_ok u" by (rule shop_ok_batches [OF t1 u_def]) (simp_all add: tabs b)
          have u_tabs: "code_batches u = code_batches s @ [?b]" "recorded_amount u = recorded_amount s"
            using written_amounts [OF wr] by (simp_all add: u_def recorded_amount_def fun_eq_iff)
          have u_active: "in_active_batch u c' = in_active_batch s c'" for c'
            by (rule in_active_batch_written [OF u_tabs(1)]) (simp add: b)
          have rest: "generate_cities rounds tries kit ro w (format_id f) run_id alloc cs
              (batches @ [city_record kit w run_id alloc c rows']) (files @ [(?name, rows')]) u = Some (r, files', t)"
            using go Inr False fr by (simp add: u_def city_record_def)
          have "fair_world w u" using Cons.prems(3) u_tabs(2) by (simp add: fair_world_def ids_unpaid_def)
          moreover have "\<forall>d \<in> set cs. csv_name run_id d \<notin> fst ` set (files @ [(?name, rows')])"
            using Cons.prems(4,6) by (auto simp: csv_name_inject)
          ultimately obtain new where new: "files' = (files @ [(?name, rows')]) @ new" "cities_left run_id alloc cs u new t"
              "\<forall>c. in_active_batch t c = in_active_batch u c"
              "\<forall>bs. r = Inr bs \<longrightarrow> (\<exists>made. bs = (batches @ [city_record kit w run_id alloc c rows']) @ made
                \<and> cities_done kit ro w f run_id alloc cs u made new t)"
            using Cons.IH [OF rest u] Cons.prems(4,5) by auto
          have len: "int (length rows') = alloc c"
          proof -
            have "length (rw_shuffled w c xs) = length xs" for xs
              using Cons.prems(3) unfolding fair_world_def by (metis size_mset)
            with rows Inr show ?thesis by simp
          qed
          have "cities_left run_id alloc (c # cs) s ((?name, rows') # new) t"
            using Cons.prems(4) g(2)
            by (intro cities_left_new [OF new(2) u u_tabs run_batch_new(2)]) (simp_all add: b)
          moreover have "cities_done kit ro w f run_id alloc (c # cs) s (city_record kit w run_id alloc c rows' # made) ((?name, rows') # new) t"
            if "cities_done kit ro w f run_id alloc cs u made new t" for made
            using cities_done_Cons [OF \<open>alloc c \<noteq> 0\<close> len u_tabs(1) that] .
          ultimately show ?thesis
            using new u_active by (intro exI [of _ "(?name, rows') # new"]) auto
        qed
      qed
    qed
  qed
qed

section \<open>The quota\<close>

lemma issued_cong:
  assumes "map (\<lambda>b. (cb_city b, cb_quantity b)) (code_batches t) = map (\<lambda>b. (cb_city b, cb_quantity b)) (code_batches s)"
  shows "issued_per_city t = issued_per_city s"
proof -
  have "issued_per_city u c = sum_list (map snd (filter (\<lambda>x. fst x = c) (map (\<lambda>b. (cb_city b, cb_quantity b)) (code_batches u))))" for u c
    by (simp add: issued_per_city_def filter_map comp_def)
  then show ?thesis by (simp add: assms fun_eq_iff)
qed

lemma issued_append: "code_batches t = code_batches s @ new \<Longrightarrow>
    issued_per_city t c = issued_per_city s c + sum_list (map cb_quantity (filter (\<lambda>b. cb_city b = c) new))"
  by (simp add: issued_per_city_def)

lemma quantity_of_city:
  assumes "\<forall>b \<in> set new. cb_quantity b = alloc (cb_city b)" "distinct (map cb_city new)"
  shows "sum_list (map cb_quantity (filter (\<lambda>b. cb_city b = c) new)) = (if c \<in> cb_city ` set new then alloc c else 0)"
  using assms
proof (induction new)
  case (Cons b new)
  then have "c \<notin> cb_city ` set new \<Longrightarrow> filter (\<lambda>b. cb_city b = c) new = []" by (auto simp: filter_empty_conv)
  with Cons show ?case by auto
qed simp

lemma plan_within: "plan_run k ws issued q = Inr alloc \<Longrightarrow> 0 < alloc c \<Longrightarrow> issued c + alloc c \<le> q"
proof -
  assume plan: "plan_run k ws issued q = Inr alloc" and pos: "0 < alloc c"
  then have none: "[Shortage c (alloc c) (q - issued c). c \<leftarrow> SKU_ORDER, alloc c > max (q - issued c) 0] = []"
    by (auto simp: plan_run_def check_quota_def remaining_quota_def Let_def split: sum.splits option.splits if_splits)
  have shortages: "set [Shortage c (alloc c) (q - issued c). c \<leftarrow> SKU_ORDER, alloc c > max (q - issued c) 0]
      = {Shortage c (alloc c) (q - issued c) | c. 0 < alloc c \<and> q < issued c + alloc c}" by auto
  show ?thesis
  proof (rule ccontr)
    assume "\<not> issued c + alloc c \<le> q"
    with pos have "Shortage c (alloc c) (q - issued c) \<in> {Shortage c (alloc c) (q - issued c) | c. 0 < alloc c \<and> q < issued c + alloc c}"
      by auto
    then show False unfolding shortages [symmetric] none by simp
  qed
qed

definition within_quota :: "int \<Rightarrow> database \<Rightarrow> bool" where
  "within_quota q s \<longleftrightarrow> (\<forall>c. issued_per_city s c \<le> q)"

lemma left_within:
  assumes "cities_left run_id alloc cs s files t" "within_quota q s" "\<And>c. 0 < alloc c \<Longrightarrow> issued_per_city s c + alloc c \<le> q"
  shows "within_quota q t"
proof -
  from assms(1) obtain new where new: "code_batches t = code_batches s @ new" "list_all (run_batch run_id alloc cs) new" "distinct (map cb_city new)"
    by (auto simp: cities_left_def)
  then have quantity: "\<forall>b \<in> set new. cb_quantity b = alloc (cb_city b) \<and> 0 < cb_quantity b" by (auto simp: list_all_iff run_batch_def)
  have "issued_per_city t c \<le> q" for c
  proof (cases "c \<in> cb_city ` set new")
    case True
    then have "0 < alloc c" using quantity by auto
    with True assms(3) [of c] quantity_of_city [of new alloc c] quantity new(3) issued_append [OF new(1), of c] show ?thesis by simp
  next
    case False
    with assms(2) quantity_of_city [of new alloc c] quantity new(3) issued_append [OF new(1), of c] show ?thesis
      by (simp add: within_quota_def)
  qed
  then show ?thesis by (simp add: within_quota_def)
qed

section \<open>Undone\<close>

text \<open>After the rollback: the batches of the run are void, the others as they were.\<close>

lemma rolled_back:
  assumes "cities_left run_id alloc cs s files t" "\<not> label_used s run_id"
  shows "\<exists>void es. void_all clock (orphans run_id t) t = t\<lparr>code_batches := code_batches s @ void, code_batch_events := code_batch_events t @ es\<rparr>
    \<and> (\<forall>b \<in> set void. cb_status b = VOID)
    \<and> map cb_id (code_batches s @ void) = map cb_id (code_batches t)
    \<and> map cb_coins_per_code (code_batches s @ void) = map cb_coins_per_code (code_batches t)
    \<and> map (\<lambda>b. (cb_city b, cb_quantity b)) (code_batches s @ void) = map (\<lambda>b. (cb_city b, cb_quantity b)) (code_batches t)"
proof -
  from assms(1) obtain new where new: "code_batches t = code_batches s @ new" "list_all (run_batch run_id alloc cs) new"
    and shop: "shop_ok t" by (auto simp: cities_left_def)
  have old: "filter (\<lambda>b. starts_with (run_id @ [32]) (cb_label b)) (code_batches s) = []"
    using assms(2) by (auto simp: label_used_def filter_empty_conv)
  have mine: "filter (\<lambda>b. starts_with (run_id @ [32]) (cb_label b)) new = new"
    using new(2) by (auto simp: list_all_iff run_batch_def filter_id_conv)
  have ids: "set (orphans run_id t) = cb_id ` set new" by (simp add: orphans_def new(1) old mine)
  have dist: "distinct (map cb_id (code_batches s @ new))" using shop new(1) by (simp add: shop_ok_def codes_ok_def)
  have "update_where (\<lambda>b. cb_id b \<in> cb_id ` set new \<and> cb_status b \<noteq> VOID) (voided_at clock) (code_batches s) = code_batches s"
    using dist by (intro update_where_none) auto
  moreover have "update_where (\<lambda>b. cb_id b \<in> cb_id ` set new \<and> cb_status b \<noteq> VOID) (voided_at clock) new = map (voided_at clock) new"
    using new(2) by (auto simp: update_where_def list_all_iff run_batch_def)
  ultimately show ?thesis
    using void_all_result [of clock "orphans run_id t" t]
    by (auto simp: ids new(1) comp_def intro!: exI [of _ "map (voided_at clock) new"])
qed

section \<open>What a run comes to\<close>

lemma print_run_result:
  assumes run: "run_print_run rounds tries kit ro w s = Some (r, files, t)" and s: "shop_ok s" "fair_world w s"
  obtains (refused) e where "r = Inl e" "files = []" "t = s"
  | (undone) e run_id alloc files' u void es where "r = Inl e" "files = []" "cities_left run_id alloc SKU_ORDER s files' u"
      "plan_run (ro_k ro) (ro_weights ro) (issued_per_city s) (ro_quota_per_sku ro) = Inr alloc"
      "t = u\<lparr>code_batches := code_batches s @ void, code_batch_events := code_batch_events u @ es\<rparr>" "\<forall>b \<in> set void. cb_status b = VOID"
      "map cb_id (code_batches s @ void) = map cb_id (code_batches u)"
      "map cb_coins_per_code (code_batches s @ void) = map cb_coins_per_code (code_batches u)"
      "map (\<lambda>b. (cb_city b, cb_quantity b)) (code_batches s @ void) = map (\<lambda>b. (cb_city b, cb_quantity b)) (code_batches u)"
  | (complete) f run_id alloc bs where "get_format (ro_format_id ro) (tl_registry kit) = Inr f" "\<not> label_used s run_id"
      "plan_run (ro_k ro) (ro_weights ro) (issued_per_city s) (ro_quota_per_sku ro) = Inr alloc"
      "cities_left run_id alloc SKU_ORDER s files t" "cities_done kit ro w f run_id alloc SKU_ORDER s bs files t"
      "\<forall>c. in_active_batch t c = in_active_batch s c"
      "r = (if rw_manifest_fails w then Inl (Crash (OSError ''manifest''))
        else Inr \<lparr>pr_run_id = run_id, pr_allocation = alloc, pr_issued_before = issued_per_city s,
          pr_remaining_after = (\<lambda>c. remaining_quota (issued_per_city s) (ro_quota_per_sku ro) c - alloc c), pr_batches = bs\<rparr>)"
proof (cases "get_format (ro_format_id ro) (tl_registry kit)")
  case (Inl e)
  with run refused show thesis by (auto simp: run_print_run_def)
next
  case f: (Inr f)
  obtain run_id where id: "unique_run_id s (rw_now w) = Some run_id" "\<not> label_used s run_id" by (rule unique_run_id_found)
  show thesis
  proof (cases "plan_run (ro_k ro) (ro_weights ro) (issued_per_city s) (ro_quota_per_sku ro)")
    case (Inl e)
    with run f id refused show thesis by (auto simp: run_print_run_def)
  next
    case plan: (Inr alloc)
    show thesis
    proof (cases "rw_dir_exists w")
      case True
      with run f id plan refused show thesis by (auto simp: run_print_run_def)
    next
      case False
      with run f id plan obtain q made u where gen:
          "generate_cities rounds tries kit ro w (format_id f) run_id alloc SKU_ORDER [] [] s = Some (q, made, u)"
        by (auto simp: run_print_run_def generate_all_def split: option.splits)
      from generate_cities_result [OF gen s distinct_SKU_ORDER get_format_again [OF f]]
      have cl: "cities_left run_id alloc SKU_ORDER s made u" "\<forall>c. in_active_batch u c = in_active_batch s c"
        "\<forall>bs. q = Inr bs \<longrightarrow> cities_done kit ro w f run_id alloc SKU_ORDER s bs made u" by auto
      show thesis
      proof (cases q)
        case (Inl e)
        from rolled_back [OF cl(1) id(2), of "rw_rollback_clock w"] obtain void es where restored:
          "void_all (rw_rollback_clock w) (orphans run_id u) u = u\<lparr>code_batches := code_batches s @ void, code_batch_events := code_batch_events u @ es\<rparr>"
          "\<forall>b \<in> set void. cb_status b = VOID" "map cb_id (code_batches s @ void) = map cb_id (code_batches u)"
          "map cb_coins_per_code (code_batches s @ void) = map cb_coins_per_code (code_batches u)"
          "map (\<lambda>b. (cb_city b, cb_quantity b)) (code_batches s @ void) = map (\<lambda>b. (cb_city b, cb_quantity b)) (code_batches u)"
          by blast
        have none: "filter (\<lambda>(name, _). name \<notin> csv_name run_id ` set SKU_ORDER) made = []"
        proof -
          have sub: "fst ` set made \<subseteq> csv_name run_id ` set SKU_ORDER" using cl(1) by (simp only: cities_left_def)
          have "name \<in> csv_name run_id ` set SKU_ORDER" if "(name, rows) \<in> set made" for name rows
            using imageI [OF that, of fst] subsetD [OF sub] by (simp only: fst_conv)
          then show ?thesis by (simp only: filter_empty_conv) (blast intro: prod.split)
        qed
        have "r = Inl e \<and> files = [] \<and> t = void_all (rw_rollback_clock w) (orphans run_id u) u"
          using run f id plan False gen Inl none by (simp add: run_print_run_def generate_all_def Let_def)
        then show thesis using undone [OF _ _ cl(1) plan _ restored(2-5)] restored(1) by metis
      next
        case (Inr bs)
        have "files = made \<and> t = u \<and> r = (if rw_manifest_fails w then Inl (Crash (OSError ''manifest''))
          else Inr \<lparr>pr_run_id = run_id, pr_allocation = alloc, pr_issued_before = issued_per_city s,
            pr_remaining_after = (\<lambda>c. remaining_quota (issued_per_city s) (ro_quota_per_sku ro) c - alloc c), pr_batches = bs\<rparr>)"
          using run f id plan False gen Inr by (auto simp: run_print_run_def generate_all_def Let_def split: if_splits)
        with complete [OF f id(2) plan] cl Inr show thesis by blast
      qed
    qed
  qed
qed

lemma in_active_batch_void:
  "code_batches t = code_batches s @ new \<Longrightarrow> \<forall>b \<in> set new. cb_status b \<noteq> ACTIVE \<Longrightarrow> in_active_batch t c = in_active_batch s c"
  by (auto simp: in_active_batch_def batch_of_def select_one_append split: option.splits dest: select_one_Some)

lemma issued_done:
  assumes "cities_done kit ro w f run_id alloc SKU_ORDER s bs files t"
  shows "issued_per_city t c = issued_per_city s c + alloc c"
proof -
  from assms obtain rowss where l: "list_all2 (\<lambda>c rows. int (length rows) = alloc c) (filter (\<lambda>c. alloc c \<noteq> 0) SKU_ORDER) rowss"
    and t: "code_batches t = code_batches s @ map2 (city_batch kit ro w f run_id alloc) (filter (\<lambda>c. alloc c \<noteq> 0) SKU_ORDER) rowss"
    by (auto simp: cities_done_def)
  let ?new = "map2 (city_batch kit ro w f run_id alloc) (filter (\<lambda>c. alloc c \<noteq> 0) SKU_ORDER) rowss"
  have city: "cb_city (city_batch kit ro w f run_id alloc d rows) = d" "cb_quantity (city_batch kit ro w f run_id alloc d rows) = alloc d" for d rows
    by (simp_all add: city_batch_def frozen_batch_def new_batch_def)
  have cities: "map cb_city ?new = filter (\<lambda>c. alloc c \<noteq> 0) SKU_ORDER"
  proof -
    have "length cs = length rs \<Longrightarrow> map cb_city (map2 (city_batch kit ro w f run_id alloc) cs rs) = cs" for cs rs
      by (induction cs rs rule: list_induct2) (simp_all add: city)
    with list_all2_lengthD [OF l] show ?thesis by blast
  qed
  have "cb_city ` set ?new = set (map cb_city ?new)" by (simp only: list.set_map)
  also have "\<dots> = {c. alloc c \<noteq> 0}" unfolding cities by simp
  finally have "cb_city ` set ?new = {c. alloc c \<noteq> 0}" .
  moreover have "distinct (map cb_city ?new)" unfolding cities by simp
  moreover have "\<forall>b \<in> set ?new. cb_quantity b = alloc (cb_city b)" by (auto simp: city)
  ultimately show ?thesis using quantity_of_city [of ?new alloc c] issued_append [OF t, of c] by auto
qed

text \<open>A run of one code of one flavor.\<close>

definition sample_tools :: tools where
  "sample_tools = \<lparr>tl_unicode = ascii_unicode, tl_hmac = sample_hmac, tl_sha = id, tl_file_sha = (\<lambda>_. ''sum''), tl_registry = FORMATS\<rparr>"

definition sample_run_order :: run_order where
  "sample_run_order = \<lparr>ro_k = 1, ro_weights = [(TOKYO, 1)], ro_coins_per_code = 10, ro_base_url = cp ''https://torshx.com'',
     ro_pepper = cp ''pepper'', ro_quota_per_sku = 1, ro_format_id = []\<rparr>"

definition sample_run_world :: "bool \<Rightarrow> run_world" where
  "sample_run_world broken = \<lparr>rw_now = 0, rw_batch_id = (\<lambda>_. 7), rw_press = (\<lambda>_. sample_press (\<lambda>_. [65])), rw_shuffled = (\<lambda>_. id),
     rw_clock = (\<lambda>_. 0), rw_breaks = (\<lambda>_. broken), rw_rollback_clock = (\<lambda>_. 0), rw_dir_exists = False, rw_manifest_fails = False\<rparr>"

lemma sample_fair: "fair_world (sample_run_world broken) s \<longleftrightarrow> ids_unpaid (sample_press (\<lambda>_. [65])) s"
  by (simp add: fair_world_def sample_run_world_def)

definition tokyo_only :: allocation where
  "tokyo_only = (\<lambda>c. if c = TOKYO then 1 else 0)"

lemma sample_plan: "plan_run 1 [(TOKYO, 1)] (issued_per_city one_user) 1 = Inr tokyo_only"
proof -
  have counts: "(\<lambda>c. \<lfloor>weight_get [(TOKYO, 1)] c * 1\<rfloor>) = tokyo_only" by (auto simp: fun_eq_iff weight_get_def tokyo_only_def)
  have "sum_list (map tokyo_only SKU_ORDER) = 1" by (simp add: SKU_ORDER_eq all_cities_def tokyo_only_def)
  then have "allocate 1 [(TOKYO, 1)] = Inr tokyo_only"
    using counts by (simp add: allocate_def validate_weights_def Let_def)
  then show ?thesis
    by (simp add: plan_run_def check_quota_def remaining_quota_def issued_per_city_def one_user_shop tokyo_only_def)
qed

lemma sample_cities:
  "\<exists>bs files t. generate_cities 1 1 sample_tools sample_run_order (sample_run_world False) (format_id CITY2_B9) run_id tokyo_only SKU_ORDER [] [] one_user
    = Some (Inr bs, files, t)"
proof -
  let ?o = "city_order sample_run_order (sample_run_world False) (format_id CITY2_B9) run_id tokyo_only TOKYO"
  have o: "po_quantity ?o = 1" "po_coins_per_code ?o = 10" "po_format_id ?o = format_id CITY2_B9" "po_batch_id ?o = 7"
    by (simp_all add: city_order_def tokyo_only_def sample_run_order_def sample_run_world_def)
  have f: "get_format (format_id CITY2_B9) FORMATS = Inr CITY2_B9" by (rule get_format_again [OF default_format])
  have "\<exists>rows t. generate_batch 1 1 ascii_unicode sample_hmac FORMATS (cp ''pepper'') ?o False id 0 (sample_press (\<lambda>_. [65])) one_user = Some (Inr rows, t)"
    by (simp add: generate_batch_def f register_batch_result one_user_shop MAX_QUANTITY_def tokyo_only_def sample_run_order_def
      INSERT_CHUNK_def sample_press_def insert_codes_def by_hash_def code_values_def Let_def)
  then obtain rows t where gen: "generate_batch 1 1 ascii_unicode sample_hmac FORMATS (cp ''pepper'') ?o False id 0 (sample_press (\<lambda>_. [65])) one_user
      = Some (Inr rows, t)" by blast
  from gen one_user_shop(1,2) have "code_batches t = [] @ [new_batch sample_hmac (cp ''pepper'') ?o CITY2_B9 0] \<and> shop_ok t"
    by (rule generation_result) (use f o in \<open>auto simp: batch_written_def one_user_shop\<close>)
  then have t: "code_batches t = [] @ [new_batch sample_hmac (cp ''pepper'') ?o CITY2_B9 0]" "distinct (map cb_id (code_batches t))"
    by (simp_all add: shop_ok_def codes_ok_def)
  from city_frozen [OF t(2,1) f, of id "''sum''" "Some RUN_ACTOR" 0] o(4) obtain u
    where "freeze_batch id FORMATS 7 (Some ''sum'') (Some RUN_ACTOR) 0 t = (Inr True, u)" by auto
  with gen show ?thesis
    by (simp add: SKU_ORDER_eq all_cities_def tokyo_only_def sample_tools_def sample_run_order_def sample_run_world_def Let_def)
qed
lemma sample_print_run:
  "\<exists>res files t. run_print_run 1 1 sample_tools sample_run_order (sample_run_world False) one_user = Some (Inr res, files, t)"
proof -
  obtain run_id where "unique_run_id one_user 0 = Some run_id" by (rule unique_run_id_found)
  with sample_cities [of run_id] sample_plan default_format show ?thesis
    by (auto simp: run_print_run_def generate_all_def Let_def sample_tools_def sample_run_order_def sample_run_world_def)
qed

section \<open>Properties\<close>



text \<open>What may happen to the batches of the campaign between and during the runs, with the quota \<open>q\<close>.\<close>

inductive campaign_step :: "int \<Rightarrow> database \<Rightarrow> database \<Rightarrow> bool" for q where
  a_run: "run_print_run rounds tries kit ro w s = Some (r, files, t) \<Longrightarrow> ro_quota_per_sku ro = q \<Longrightarrow> fair_world w s \<Longrightarrow> campaign_step q s t"
| a_move: "set_status i target actor now s = (m :: unit raised + bool, t) \<Longrightarrow> campaign_step q s t"
| a_freeze: "freeze_batch sha reg i checksum actor now s = (f, t) \<Longrightarrow> campaign_step q s t"
| a_shop: "code_batches t = code_batches s \<Longrightarrow> shop_ok t \<Longrightarrow> campaign_step q s t"

lemma edited_keeps:
  assumes "t = s\<lparr>code_batches := update_where p g (code_batches s), code_batch_events := es\<rparr>"
    and "\<And>b. cb_city (g b) = cb_city b" "\<And>b. cb_quantity (g b) = cb_quantity b"
    and "\<And>b. cb_id (g b) = cb_id b" "\<And>b. cb_coins_per_code (g b) = cb_coins_per_code b"
    and "shop_ok s" "within_quota q s"
  shows "shop_ok t \<and> within_quota q t"
proof -
  have "map h (update_where p g (code_batches s)) = map h (code_batches s)" if "\<And>b. h (g b) = h b" for h :: "CodeBatchModel \<Rightarrow> 'z"
    by (rule map_update_where_same) (rule that)
  note same = this [of cb_id] this [of cb_coins_per_code]
  have "map (\<lambda>b. (cb_city b, cb_quantity b)) (update_where p g (code_batches s)) = map (\<lambda>b. (cb_city b, cb_quantity b)) (code_batches s)"
    by (rule map_update_where_same) (simp add: assms(2,3))
  then have "issued_per_city t = issued_per_city s" by (intro issued_cong) (simp add: assms(1))
  moreover have "shop_ok t" by (rule shop_ok_batches [OF assms(6,1) same]) (rule assms)+
  ultimately show ?thesis using assms(7) by (simp add: within_quota_def)
qed

text \<open>
  C36: the quota is never exceeded. With any number of print runs - finished, refused, broken off and rolled
  back, or without their manifest - and any status changes, freezes and operations of the shop in between,
  no flavor ever has more codes issued than its quota; the batches of failed and voided runs count too.
\<close>

theorem quota_never_exceeded:
  assumes "(campaign_step q)\<^sup>*\<^sup>* s t" "shop_ok s" "within_quota q s"
  shows "shop_ok t \<and> within_quota q t"
  using assms
proof (induction rule: rtranclp_induct)
  case (step t u)
  then have t: "shop_ok t" "within_quota q t" by simp_all
  from \<open>campaign_step q t u\<close> show ?case
  proof cases
    case (a_run rounds tries kit ro w r files)
    show ?thesis
    proof (rule print_run_result [OF a_run(1) t(1) a_run(3)])
      fix e run_id alloc files' v void es
      assume left: "cities_left run_id alloc SKU_ORDER t files' v"
        and plan: "plan_run (ro_k ro) (ro_weights ro) (issued_per_city t) (ro_quota_per_sku ro) = Inr alloc"
        and u: "u = v\<lparr>code_batches := code_batches t @ void, code_batch_events := code_batch_events v @ es\<rparr>"
        and same: "map cb_id (code_batches t @ void) = map cb_id (code_batches v)"
          "map cb_coins_per_code (code_batches t @ void) = map cb_coins_per_code (code_batches v)"
          "map (\<lambda>b. (cb_city b, cb_quantity b)) (code_batches t @ void) = map (\<lambda>b. (cb_city b, cb_quantity b)) (code_batches v)"
      have "shop_ok v" using left by (simp add: cities_left_def)
      then have "shop_ok u" by (rule shop_ok_batches [OF _ u same(1,2)])
      moreover have "issued_per_city u = issued_per_city v" using same(3) by (intro issued_cong) (simp add: u)
      ultimately show ?thesis using left_within [OF left t(2)] plan_within [OF plan] a_run(2) by (simp add: within_quota_def)
    next
      fix f run_id alloc bs
      assume left: "cities_left run_id alloc SKU_ORDER t files u"
        and plan: "plan_run (ro_k ro) (ro_weights ro) (issued_per_city t) (ro_quota_per_sku ro) = Inr alloc"
      then show ?thesis using left_within [OF left t(2)] plan_within [OF plan] a_run(2) by (simp add: cities_left_def)
    qed (use t in simp)
  next
    case (a_move i target actor now m)
    have "distinct (map cb_id (code_batches t))" using t(1) by (simp add: shop_ok_def codes_ok_def)
    show ?thesis
    proof (rule set_status_result [OF a_move \<open>distinct _\<close>])
      fix b
      assume "u = t\<lparr>code_batches := update_where (\<lambda>x. cb_id x = cb_id b)
            (\<lambda>b. if target = ACTIVE then b\<lparr>cb_status := target, cb_activated_at := Some now\<rparr>
                 else b\<lparr>cb_status := target, cb_voided_at := Some now\<rparr>) (code_batches t),
          code_batch_events := code_batch_events t
            @ [batch_event i (if target = ACTIVE then EVENT_ACTIVATED else EVENT_VOIDED) actor None now]\<rparr>"
      then show ?thesis by (rule edited_keeps) (simp_all add: t)
    qed (use t in simp)
  next
    case (a_freeze sha reg i checksum actor now f)
    show ?thesis
    proof (rule freeze_result [OF a_freeze])
      fix b g detail
      assume "u = t\<lparr>code_batches := update_where (\<lambda>x. cb_id x = cb_id b) (frozen_batch (fingerprint sha g) checksum now) (code_batches t),
          code_batch_events := code_batch_events t
            @ [batch_event i (if checksum = None then EVENT_FROZEN else EVENT_EXPORTED) actor (Some detail) now]\<rparr>"
      then show ?thesis by (rule edited_keeps) (simp_all add: t frozen_batch_def split: option.split)
    qed (use t in simp)
  next
    case a_shop
    then have "issued_per_city u = issued_per_city t" by (intro issued_cong) simp
    with a_shop t(2) show ?thesis by (simp add: within_quota_def)
  qed
qed simp

theorem quota_never_exceeded_witness:
  "\<exists>res files t. run_print_run 1 1 sample_tools sample_run_order (sample_run_world False) one_user = Some (Inr res, files, t)
    \<and> (campaign_step 1)\<^sup>*\<^sup>* one_user t \<and> shop_ok t \<and> within_quota 1 t"
proof -
  obtain res files t where run: "run_print_run 1 1 sample_tools sample_run_order (sample_run_world False) one_user = Some (Inr res, files, t)"
    using sample_print_run by blast
  have "campaign_step 1 one_user t"
    by (rule a_run [OF run]) (simp_all add: sample_run_order_def sample_fair one_user_shop)
  then have "(campaign_step 1)\<^sup>*\<^sup>* one_user t" by blast
  moreover have "within_quota 1 one_user" by (simp add: within_quota_def issued_per_city_def one_user_shop)
  ultimately show ?thesis using run quota_never_exceeded [of 1 one_user t] one_user_shop(1) by blast
qed

end
