(* ===== verification/Totp.thy ===== *)
theory Totp
  imports Unicode
begin

text \<open>
  RFC 6238 codes (\<open>app/domain/totp.py\<close>). Base 32 is the one of Python's \<open>base64\<close>: quanta of five bytes
  and eight characters. HMAC-SHA1 and the random bytes are arguments; times are whole microseconds.
\<close>

section \<open>Base 32\<close>

type_synonym bytes = "8 word list"

definition b32_alphabet :: pystr where
  "b32_alphabet = cp ''ABCDEFGHIJKLMNOPQRSTUVWXYZ234567''"

definition b32_value :: "nat \<Rightarrow> nat option" where
  "b32_value c = (if 65 \<le> c \<and> c \<le> 90 then Some (c - 65) else if 50 \<le> c \<and> c \<le> 55 then Some (c - 24) else None)"

text \<open>\<open>base64.b32encode\<close>: the last quantum is filled with zeros, the characters that come from the
  filling alone are replaced by the padding sign.\<close>

definition encode_quantum :: "bytes \<Rightarrow> pystr" where
  "encode_quantum q = map ((!) b32_alphabet) (digs 32 8 (undigs 256 (map unat (q @ replicate (5 - length q) 0))))"

definition pad_count :: "nat \<Rightarrow> nat" where
  "pad_count len = (if len = 1 then 6 else if len = 2 then 4 else if len = 3 then 3 else if len = 4 then 1 else 0)"

fun b32encode :: "bytes \<Rightarrow> pystr" where
  "b32encode (a # b # c # d # e # rest) = encode_quantum [a, b, c, d, e] @ b32encode rest"
| "b32encode [] = []"
| "b32encode q = take (8 - pad_count (length q)) (encode_quantum q) @ replicate (pad_count (length q)) 61"

datatype b32_error = IncorrectPadding | NonBase32Digit

fun decode_quanta :: "pystr \<Rightarrow> (b32_error + bytes \<times> nat)" where
  "decode_quanta s =
     (if s = [] then Inr ([], 0)
      else case those (map b32_value (take 8 s)) of
        None \<Rightarrow> Inl NonBase32Digit
      | Some ds \<Rightarrow>
          (let acc = undigs 32 ds; full = map of_nat (digs 256 5 acc) in
           if length s \<le> 8 then Inr (full, acc)
           else case decode_quanta (drop 8 s) of
             Inl e \<Rightarrow> Inl e
           | Inr (rest, last_acc) \<Rightarrow> Inr (full @ rest, last_acc)))"

declare decode_quanta.simps [simp del]

text \<open>\<open>base64.b32decode\<close>; the second component of \<open>decode_quanta\<close> is the accumulator of the last quantum.\<close>

definition b32decode :: "pystr \<Rightarrow> b32_error raised + bytes" where
  "b32decode s =
     (if \<not> is_ascii s then Inl (Crash (ValueError ''string argument should contain only ASCII characters''))
      else if length s mod 8 \<noteq> 0 then Inl (Raised IncorrectPadding)
      else let body = rstrip_by (\<lambda>c. c = 61) s; padchars = length s - length body in
        case decode_quanta body of
          Inl e \<Rightarrow> Inl (Raised e)
        | Inr (decoded, acc) \<Rightarrow>
            if padchars \<notin> {0, 1, 3, 4, 6} then Inl (Raised IncorrectPadding)
            else if padchars \<noteq> 0 \<and> decoded \<noteq> [] then
              Inr (take (length decoded - 5) decoded
                @ take ((43 - 5 * padchars) div 8) (map of_nat (digs 256 5 (acc * 32 ^ padchars))))
            else Inr decoded)"

section \<open>Codes\<close>

definition TIME_STEP :: int where
  "TIME_STEP = 30 * 1000000"

definition DIGITS :: nat where
  "DIGITS = 6"

definition DIGITS_MOD :: nat where
  "DIGITS_MOD = 10 ^ DIGITS"

datatype TotpError = TotpSecretError

text \<open>\<open>random\<close> is what \<open>secrets.token_bytes(20)\<close> returns.\<close>

definition generate_secret :: "bytes \<Rightarrow> pystr" where
  "generate_secret random = rstrip_by (\<lambda>c. c = 61) (b32encode random)"

definition decode_secret :: "unicode \<Rightarrow> pystr \<Rightarrow> TotpError raised + bytes" where
  "decode_secret ud secret =
     (let cleaned = upper ud (filter (\<lambda>c. c \<noteq> 32) (strip secret));
          padded = cleaned @ replicate ((8 - length cleaned mod 8) mod 8) 61 in
      case b32decode padded of
        Inl (Raised e) \<Rightarrow> Inl (Raised TotpSecretError)
      | Inl (Crash e) \<Rightarrow> Inl (Crash e)
      | Inr key \<Rightarrow> Inr key)"

type_synonym mac = "bytes \<Rightarrow> bytes \<Rightarrow> bytes"

definition truncated_code :: "bytes \<Rightarrow> nat" where
  "truncated_code digest =
     (let offset = unat (last digest) mod 16 in
      undigs 256 (map unat (take 4 (drop offset digest))) mod 2 ^ 31)"

definition generate_code_at :: "mac \<Rightarrow> unicode \<Rightarrow> pystr \<Rightarrow> int \<Rightarrow> TotpError raised + pystr" where
  "generate_code_at mac ud secret at_time =
     (case decode_secret ud secret of
        Inl e \<Rightarrow> Inl e
      | Inr key \<Rightarrow>
          (let counter = at_time div TIME_STEP in
           if counter < 0 \<or> 2 ^ 64 \<le> counter then Inl (Crash OverflowError)
           else Inr (cp (pad_dec DIGITS
             (truncated_code (mac key (map of_nat (digs 256 8 (nat counter)))) mod DIGITS_MOD)))))"

text \<open>\<open>hmac.compare_digest\<close> of two texts raises \<open>TypeError\<close> unless both are ASCII.\<close>

fun verify_steps :: "(int \<Rightarrow> TotpError raised + pystr) \<Rightarrow> pystr \<Rightarrow> int list \<Rightarrow> TotpError raised + bool" where
  "verify_steps candidate_at code [] = Inr False"
| "verify_steps candidate_at code (step # steps) =
     (case candidate_at step of
        Inl e \<Rightarrow> Inl e
      | Inr candidate \<Rightarrow>
          if \<not> is_ascii candidate \<or> \<not> is_ascii (strip code) then Inl (Crash TypeError)
          else if candidate = strip code then Inr True
          else verify_steps candidate_at code steps)"

definition verify_code :: "mac \<Rightarrow> unicode \<Rightarrow> pystr \<Rightarrow> pystr \<Rightarrow> int \<Rightarrow> int \<Rightarrow> TotpError raised + bool" where
  "verify_code mac ud secret code now window =
     verify_steps (\<lambda>step. generate_code_at mac ud secret (now + step * TIME_STEP)) code [- window..window]"

section \<open>Encoding and decoding\<close>

lemma digs_undigs: "(\<And>d. d \<in> set ds \<Longrightarrow> d < b) \<Longrightarrow> digs b (length ds) (undigs b ds) = ds"
proof (induction ds rule: rev_induct)
  case (snoc d ds)
  then have d: "d < b" by simp
  then have "(undigs b ds * b + d) div b = undigs b ds" "(undigs b ds * b + d) mod b = d" by simp_all
  moreover have "digs b (length ds) (undigs b ds) = ds" using snoc by simp
  ultimately show ?case by simp
qed (simp add: undigs_def)

lemma undigs_less: "(\<And>d. d \<in> set ds \<Longrightarrow> d < b) \<Longrightarrow> undigs b ds < b ^ length ds"
proof (induction ds rule: rev_induct)
  case (snoc d ds)
  have "undigs b ds * b + d < undigs b ds * b + b" using snoc.prems by simp
  also have "\<dots> \<le> b ^ length ds * b" using snoc by (metis Suc_leI add.commute mult_Suc mult_le_mono1 in_set_butlastD butlast_snoc)
  finally show ?case by (simp add: mult.commute)
qed (simp add: undigs_def)

lemma b32_alphabet_nth: "d < 32 \<Longrightarrow> b32_alphabet ! d = (if d < 26 then 65 + d else 24 + d)"
proof -
  have "\<forall>d \<in> set [0..<32]. b32_alphabet ! d = (if d < 26 then 65 + d else 24 + d)"
    by (simp add: b32_alphabet_def upt_rec)
  then show "d < 32 \<Longrightarrow> b32_alphabet ! d = (if d < 26 then 65 + d else 24 + d)" by simp
qed

lemma b32_value_alphabet: "d < 32 \<Longrightarrow> b32_value (b32_alphabet ! d) = Some d"
  by (auto simp: b32_alphabet_nth b32_value_def)

lemma those_alphabet: "(\<And>d. d \<in> set ds \<Longrightarrow> d < 32) \<Longrightarrow> those (map b32_value (map ((!) b32_alphabet) ds)) = Some ds"
  by (induction ds) (auto simp: b32_value_alphabet)

lemma length_encode_quantum [simp]: "length (encode_quantum q) = 8"
  by (simp add: encode_quantum_def)

lemma encode_quantum_chars: "c \<in> set (encode_quantum q) \<Longrightarrow> 65 \<le> c \<and> c \<le> 90 \<or> 50 \<le> c \<and> c \<le> 55"
  by (auto simp: encode_quantum_def b32_alphabet_nth split: if_splits dest!: digs_lt [rotated])

lemma decode_quantum:
  assumes "length q = 5"
  defines "n \<equiv> undigs 256 (map unat q)"
  shows "those (map b32_value (encode_quantum q)) = Some (digs 32 8 n)" "undigs 32 (digs 32 8 n) = n"
    "map of_nat (digs 256 5 n) = q"
proof -
  have bytes: "d < 256" if "d \<in> set (map unat q)" for d
    using that unsigned_less [where 'a = nat and 'b = 8] by auto
  have "n < 256 ^ length (map unat q)" unfolding n_def by (rule undigs_less) (rule bytes)
  then show "undigs 32 (digs 32 8 n) = n" using assms(1) by (intro undigs_digs) simp
  show "those (map b32_value (encode_quantum q)) = Some (digs 32 8 n)"
    unfolding encode_quantum_def using assms(1) by (simp add: n_def those_alphabet digs_lt del: map_map digs.simps)
  have "digs 256 5 n = map unat q"
    using digs_undigs [of "map unat q" 256, OF bytes] assms(1) by (simp add: n_def)
  then show "map of_nat (digs 256 5 n) = q" by (simp add: comp_def)
qed

lemma decode_quanta_encode:
  "length q mod 5 = 0 \<Longrightarrow> \<exists>acc. decode_quanta (b32encode q) = Inr (q, acc)"
proof (induction q rule: b32encode.induct)
  case (1 a b c d e rest)
  then obtain acc where rest: "decode_quanta (b32encode rest) = Inr (rest, acc)" by auto
  note q = decode_quantum [of "[a, b, c, d, e]", simplified]
  have "encode_quantum [a, b, c, d, e] @ b32encode rest \<noteq> []"
    by (metis append_is_Nil_conv length_encode_quantum list.size(3) zero_neq_numeral)
  moreover have "length (b32encode rest) = 0 \<longleftrightarrow> rest = []" by (cases rest rule: b32encode.cases) (auto simp: encode_quantum_def)
  ultimately show ?case
    using rest q by (subst decode_quanta.simps) (auto simp: Let_def simp del: digs.simps)
qed (simp_all add: decode_quanta.simps)

lemma b32encode_chars:
  "length q mod 5 = 0 \<Longrightarrow> length (b32encode q) mod 8 = 0
     \<and> (\<forall>c \<in> set (b32encode q). 65 \<le> c \<and> c \<le> 90 \<or> 50 \<le> c \<and> c \<le> 55)"
  by (induction q rule: b32encode.induct) (auto dest: encode_quantum_chars)

lemma generate_secret_plain:
  assumes "length random mod 5 = 0"
  shows "generate_secret random = b32encode random"
  unfolding generate_secret_def using b32encode_chars [OF assms] by (intro rstrip_by_id) auto

lemma b32decode_encode:
  assumes "length random mod 5 = 0"
  shows "b32decode (b32encode random) = Inr random"
proof -
  note chars = b32encode_chars [OF assms]
  obtain acc where "decode_quanta (b32encode random) = Inr (random, acc)" using decode_quanta_encode [OF assms] by blast
  moreover have "rstrip_by (\<lambda>c. c = 61) (b32encode random) = b32encode random" using chars by (intro rstrip_by_id) auto
  moreover have "is_ascii (b32encode random)" using chars by (auto simp: list_all_iff)
  ultimately show ?thesis using chars by (simp add: b32decode_def)
qed

lemma filter_stripped:
  assumes "\<And>c. c \<in> set t \<Longrightarrow> w c \<Longrightarrow> \<not> P c"
  shows "filter P (strip_by w t) = filter P t"
proof -
  have l: "filter P (lstrip_by w u) = filter P u" if "\<And>c. c \<in> set u \<Longrightarrow> w c \<Longrightarrow> \<not> P c" for u
    using that by (induction u) (auto simp: lstrip_by_def)
  have "filter P (rstrip_by w u) = rev (filter P (lstrip_by w (rev u)))" for u
    by (simp add: rstrip_by_def lstrip_by_def rev_filter)
  then have r: "filter P (rstrip_by w u) = filter P u" if "\<And>c. c \<in> set u \<Longrightarrow> w c \<Longrightarrow> \<not> P c" for u
    using arg_cong [OF l [of "rev u"], of rev] that by (simp add: rev_filter)
  have "c \<in> set t" if "c \<in> set (lstrip_by w t)" for c using that by (auto simp: lstrip_by_def dest: set_dropWhileD)
  with assms show ?thesis unfolding strip_by_def by (subst r) (auto simp: l)
qed

lemma decode_typed:
  assumes "ascii_laws ud" "length random mod 5 = 0" "is_ascii typed"
    and "map ascii_upper (filter (\<lambda>c. c \<noteq> 32) typed) = generate_secret random"
  shows "decode_secret ud typed = Inr random"
proof -
  have secret: "map ascii_upper (filter (\<lambda>c. c \<noteq> 32) typed) = b32encode random"
    using assms(4) generate_secret_plain [OF assms(2)] by simp
  have "c \<noteq> 32 \<Longrightarrow> \<not> is_space c" if "c \<in> set typed" for c
  proof -
    assume "c \<noteq> 32"
    then have "ascii_upper c \<in> set (b32encode random)" unfolding secret [symmetric] using that by simp
    then have "65 \<le> ascii_upper c \<or> 50 \<le> ascii_upper c" using b32encode_chars [OF assms(2)] by auto
    moreover have "c < 128" using assms(3) that by (auto simp: list_all_iff)
    ultimately show ?thesis by (auto simp: is_space_ascii ascii_upper_def split: if_splits)
  qed
  then have "filter (\<lambda>c. c \<noteq> 32) (strip typed) = filter (\<lambda>c. c \<noteq> 32) typed"
    unfolding strip_def by (intro filter_stripped) auto
  moreover have "is_ascii (filter (\<lambda>c. c \<noteq> 32) typed)" using assms(3) by (auto simp: list_all_iff)
  ultimately have "upper ud (filter (\<lambda>c. c \<noteq> 32) (strip typed)) = b32encode random"
    using ascii_lawsD(3) [OF assms(1)] secret by simp
  then show ?thesis
    using b32decode_encode [OF assms(2)] b32encode_chars [OF assms(2)] by (simp add: decode_secret_def Let_def)
qed

text \<open>
  A secret survives being typed. Whatever the 20 random bytes, the base 32 text shown to the admin
  decodes back to exactly those bytes, in upper or lower case and with any spaces between its characters.
\<close>

theorem totp_secret_roundtrip:
  assumes "ascii_laws ud" "length random = 20" "is_ascii typed"
    and "map ascii_upper (filter (\<lambda>c. c \<noteq> 32) typed) = generate_secret random"
  shows "decode_secret ud typed = Inr random \<and> length (generate_secret random) = 32"
proof -
  have "length (b32encode q) = 8 * (length q div 5)" if "length q mod 5 = 0" for q
    using that by (induction q rule: b32encode.induct) auto
  from this [of random] show ?thesis
    using decode_typed [OF assms(1) _ assms(3,4)] generate_secret_plain [of random] assms(2) by simp
qed

theorem totp_secret_roundtrip_witness:
  "decode_secret ascii_unicode (generate_secret (replicate 20 7) @ [32]) = Inr (replicate 20 7)"
proof -
  let ?r = "replicate 20 7 :: bytes"
  have "length ?r mod 5 = 0" by simp
  note chars = b32encode_chars [OF this] generate_secret_plain [OF this]
  have "is_ascii (generate_secret ?r @ [32])" using chars by (auto simp: list_all_iff simp del: length_replicate)
  moreover have "map ascii_upper (filter (\<lambda>c. c \<noteq> 32) (generate_secret ?r @ [32])) = generate_secret ?r"
  proof -
    have "filter (\<lambda>c. c \<noteq> 32) (generate_secret ?r) = generate_secret ?r" using chars by (intro filter_True) auto
    moreover have "map ascii_upper (generate_secret ?r) = generate_secret ?r"
      using chars by (intro map_idI) (auto simp: ascii_upper_def)
    ultimately show ?thesis by simp
  qed
  ultimately show ?thesis using totp_secret_roundtrip [OF ascii_unicode_laws, of ?r] by simp
qed

section \<open>Checking a code\<close>

lemma generated_ok:
  assumes "decode_secret ud secret = Inr key" "0 \<le> at_time" "at_time < 2 ^ 64 * TIME_STEP"
  shows "\<exists>code. generate_code_at mac ud secret at_time = Inr code \<and> length code = 6 \<and> (\<forall>c \<in> set code. 48 \<le> c \<and> c \<le> 57)"
proof -
  have "0 \<le> at_time div TIME_STEP" "at_time div TIME_STEP < 2 ^ 64"
    using assms(2,3) by (simp_all add: TIME_STEP_def div_less_iff_less_mult)
  moreover have "c \<in> set (cp (pad_dec w n)) \<Longrightarrow> 48 \<le> c \<and> c \<le> (57 :: nat)" for c w n
  proof -
    assume "c \<in> set (cp (pad_dec w n))"
    then obtain d where "d < 10" "c = of_char (digit_char d)" by (auto simp: cp_def pad_dec_def dest: digs_lt [rotated])
    moreover from \<open>d < 10\<close> have "d \<in> {0, 1, 2, 3, 4, 5, 6, 7, 8, 9}" by auto
    ultimately show ?thesis by (auto simp: digit_char_def)
  qed
  ultimately show ?thesis using assms(1) by (auto simp: generate_code_at_def Let_def DIGITS_def)
qed

lemma verify_steps_iff:
  assumes "\<And>step. step \<in> set steps \<Longrightarrow> \<exists>c. candidate_at step = Inr c \<and> is_ascii c" "is_ascii (strip code)"
  shows "verify_steps candidate_at code steps = Inr (\<exists>step \<in> set steps. candidate_at step = Inr (strip code))"
  using assms
proof (induction steps)
  case (Cons step steps)
  then obtain c where "candidate_at step = Inr c" "is_ascii c" by (meson list.set_intros(1))
  with Cons show ?case by auto
qed simp

text \<open>The moments a code is checked at, for a time that is not at the very ends of the counter.\<close>

definition in_range :: "int \<Rightarrow> bool" where
  "in_range now \<longleftrightarrow> TIME_STEP \<le> now \<and> now < (2 ^ 64 - 1) * TIME_STEP"

lemma in_range_steps:
  assumes "in_range now" "step \<in> {- 1, 0, 1}"
  shows "0 \<le> now + step * TIME_STEP" "now + step * TIME_STEP < 2 ^ 64 * TIME_STEP"
  using assms by (auto simp: in_range_def TIME_STEP_def)

lemma window_steps: "set [- 1..1 :: int] = {- 1, 0, 1}"
  by auto

lemma verify_code_iff:
  assumes "decode_secret ud secret = Inr key" "in_range now" "is_ascii (strip code)"
  shows "verify_code mac ud secret code now 1
    = Inr (\<exists>step \<in> {- 1, 0, 1}. generate_code_at mac ud secret (now + step * TIME_STEP) = Inr (strip code))"
proof -
  have "\<exists>c. generate_code_at mac ud secret (now + step * TIME_STEP) = Inr c \<and> is_ascii c"
    if "step \<in> set [- 1..1]" for step
    using generated_ok [OF assms(1), of "now + step * TIME_STEP" mac] in_range_steps [OF assms(2), of step] that
    unfolding window_steps by (fastforce simp: list_all_iff)
  from verify_steps_iff [where candidate_at = "\<lambda>step. generate_code_at mac ud secret (now + step * TIME_STEP)"
      and steps = "[- 1..1]", OF this assms(3)]
  show ?thesis unfolding verify_code_def by (simp only: window_steps)
qed

text \<open>
  When a code is accepted. For a readable secret the check accepts exactly the codes of the current
  step and of the one before and after it, with blanks around them ignored. Every generated code has six
  ASCII digits, and one generated at some moment is still accepted at any moment within 30 seconds of it.
\<close>

theorem totp_window:
  assumes "decode_secret ud secret = Inr key" "in_range now" "is_ascii (strip code)"
  shows "verify_code mac ud secret code now 1
      = Inr (\<exists>step \<in> {- 1, 0, 1}. generate_code_at mac ud secret (now + step * TIME_STEP) = Inr (strip code))
    \<and> (\<forall>shown c. in_range shown \<longrightarrow> \<bar>now - shown\<bar> \<le> 30 * 1000000 \<longrightarrow> generate_code_at mac ud secret shown = Inr c
        \<longrightarrow> length c = 6 \<and> (\<forall>d \<in> set c. 48 \<le> d \<and> d \<le> 57) \<and> verify_code mac ud secret c now 1 = Inr True)"
proof (intro conjI allI impI)
  show "verify_code mac ud secret code now 1
      = Inr (\<exists>step \<in> {- 1, 0, 1}. generate_code_at mac ud secret (now + step * TIME_STEP) = Inr (strip code))"
    by (rule verify_code_iff [OF assms])
next
  fix shown c
  assume shown: "in_range shown" and near: "\<bar>now - shown\<bar> \<le> 30 * 1000000"
    and c: "generate_code_at mac ud secret shown = Inr c"
  have "0 \<le> shown" "shown < 2 ^ 64 * TIME_STEP" using in_range_steps [OF shown, of 0] by simp_all
  from generated_ok [OF assms(1) this, of mac] c have digits: "length c = 6" "\<forall>d \<in> set c. 48 \<le> d \<and> d \<le> 57" by auto
  then have strip: "strip c = c" "is_ascii c"
    unfolding strip_def by (auto intro!: strip_by_id simp: is_space_ascii list_all_iff)
  have "\<exists>step \<in> {- 1, 0, 1}. (now + step * TIME_STEP) div TIME_STEP = shown div TIME_STEP"
  proof -
    have "\<bar>now div TIME_STEP - shown div TIME_STEP\<bar> \<le> 1" using near by (simp add: TIME_STEP_def)
    then have "shown div TIME_STEP - now div TIME_STEP \<in> {- 1, 0, 1}" by auto
    moreover have "(now + k * TIME_STEP) div TIME_STEP = now div TIME_STEP + k" for k by (simp add: TIME_STEP_def)
    ultimately show ?thesis by (metis add_diff_cancel_left' diff_add_cancel add.commute)
  qed
  then obtain step where "step \<in> {- 1, 0, 1}" "(now + step * TIME_STEP) div TIME_STEP = shown div TIME_STEP" by blast
  with c have "generate_code_at mac ud secret (now + step * TIME_STEP) = Inr c"
    by (simp add: generate_code_at_def split: sum.splits)
  with verify_code_iff [OF assms(1,2), of c mac] \<open>step \<in> {- 1, 0, 1}\<close> strip
  show "verify_code mac ud secret c now 1 = Inr True" by auto
  show "length c = 6" "\<forall>d \<in> set c. 48 \<le> d \<and> d \<le> 57" using digits by auto
qed

text \<open>
  A code typed with Persian or other non-ASCII digits is not refused but crashes the check with the
  \<open>TypeError\<close> of \<open>hmac.compare_digest\<close>, which the callers do not catch.
\<close>

theorem totp_foreign_digits_crash:
  assumes "decode_secret ud secret = Inr key" "in_range now" "\<not> is_ascii (strip code)"
  shows "verify_code mac ud secret code now 1 = Inl (Crash TypeError)"
proof -
  have "[- 1..1 :: int] = [- 1, 0, 1]" by code_simp
  moreover obtain c where "generate_code_at mac ud secret (now + (- 1) * TIME_STEP) = Inr c"
    using generated_ok [OF assms(1), of "now + (- 1) * TIME_STEP" mac] in_range_steps [OF assms(2), of "- 1"] by auto
  ultimately show ?thesis using assms(3) by (simp add: verify_code_def)
qed

definition sample_mac :: mac where
  "sample_mac key message = replicate 20 1"

lemma sample_secret: "decode_secret ascii_unicode (generate_secret (replicate 20 7)) = Inr (replicate 20 7)"
proof -
  have len: "length (replicate 20 7 :: bytes) mod 5 = 0" by simp
  note chars = b32encode_chars [OF len] generate_secret_plain [OF len]
  let ?s = "generate_secret (replicate 20 7)"
  have "filter (\<lambda>c. c \<noteq> 32) ?s = ?s" using chars by (intro filter_True) auto
  moreover have "map ascii_upper ?s = ?s" using chars by (intro map_idI) (auto simp: ascii_upper_def)
  ultimately show ?thesis
    using chars by (intro decode_typed [OF ascii_unicode_laws len]) (auto simp: list_all_iff)
qed

theorem totp_window_witness:
  "\<exists>c. verify_code sample_mac ascii_unicode (generate_secret (replicate 20 7)) c 60000000 1 = Inr True"
proof -
  have r: "in_range 60000000" "in_range 90000000" by (simp_all add: in_range_def TIME_STEP_def)
  then obtain c where "generate_code_at sample_mac ascii_unicode (generate_secret (replicate 20 7)) 90000000 = Inr c"
    using generated_ok [OF sample_secret, of 90000000 sample_mac] by (auto simp: TIME_STEP_def)
  moreover have "is_ascii (strip [])" by (simp add: strip_def strip_by_def lstrip_by_def rstrip_by_def)
  moreover have "\<bar>60000000 - 90000000 :: int\<bar> \<le> 30 * 1000000" by simp
  ultimately have "verify_code sample_mac ascii_unicode (generate_secret (replicate 20 7)) c 60000000 1 = Inr True"
    using totp_window [OF sample_secret r(1), of "[]" sample_mac] r(2) by blast
  then show ?thesis ..
qed

theorem totp_foreign_digits_crash_witness:
  "verify_code sample_mac ascii_unicode (generate_secret (replicate 20 7)) (replicate 6 1777) 60000000 1 = Inl (Crash TypeError)"
proof (rule totp_foreign_digits_crash [OF sample_secret])
  show "in_range 60000000" by (simp add: in_range_def TIME_STEP_def)
  have "\<not> is_space 1777" by (simp add: is_space_def space_ranges_def)
  then show "\<not> is_ascii (strip (replicate 6 1777))" unfolding strip_def by (subst strip_by_id) (auto simp: list_all_iff)
qed

end
