(* ===== verification/Authentication.thy ===== *)
theory Authentication
  imports Users Totp
begin

text \<open>
  Sign-in (\<open>app/application/authentication.py\<close>, \<open>app/application/otp_test_numbers.py\<close>, the code
  generator of \<open>app/infrastructure/authentication.py\<close>, the challenge, session and TOTP repositories).
  Each repository call is a committed step. SHA-256, the random values and the TOTP cipher are
  arguments; whether the SMS of a call is delivered is an argument of the call.
\<close>

section \<open>Settings and errors\<close>

type_synonym sha256_hex = "pystr \<Rightarrow> string"

record authentication_settings =
  as_challenge_ttl :: int
  as_session_ttl :: int
  as_max_verification_attempts :: int
  as_resend_cooldown :: int
  as_daily_limit :: int
  as_test_numbers_enabled :: bool
  as_allowed_phones :: "pystr list"

datatype AuthError =
    INVALID_CHALLENGE | AUTHENTICATION_REQUIRED | COULD_NOT_SEND | PHONE_INVALID | RESEND_COOLDOWN int
  | DAILY_LIMIT | DISPLAY_NAME_RESERVED | PHONE_NOT_ALLOWED | TOTP_ALREADY_ENROLLED | TOTP_NOT_PENDING
  | PHONE_UNUSUAL

definition TEST_PHONE_PREFIX :: pystr where
  "TEST_PHONE_PREFIX = cp ''+98969''"

definition is_test_phone_number :: "pystr \<Rightarrow> bool" where
  "is_test_phone_number phone \<longleftrightarrow> starts_with TEST_PHONE_PREFIX phone"

definition CODE_LENGTH :: nat where
  "CODE_LENGTH = 6"

definition hash_code :: "sha256_hex \<Rightarrow> pystr \<Rightarrow> string \<Rightarrow> string" where
  "hash_code sha code salt = sha (cp salt @ cp '':'' @ code)"

text \<open>\<open>number\<close> is the number \<open>secrets.randbelow(1_000_000)\<close> returns, \<open>salt\<close> the random salt.\<close>

definition generate_otp :: "sha256_hex \<Rightarrow> nat \<Rightarrow> string \<Rightarrow> pystr \<times> string \<times> string" where
  "generate_otp sha number salt =
     (let code = cp (pad_dec CODE_LENGTH number) in (code, salt, hash_code sha code salt))"

definition hash_secret :: "sha256_hex \<Rightarrow> pystr \<Rightarrow> string" where
  "hash_secret sha secret = sha secret"

definition is_active_admin :: "User option \<Rightarrow> bool" where
  "is_active_admin user \<longleftrightarrow>
     (case user of None \<Rightarrow> False | Some u \<Rightarrow> user_role u = ADMIN \<and> user_account_status u = ACCOUNT_ACTIVE)"

section \<open>The challenge repository\<close>

definition create_challenge :: "AuthenticationChallengeModel \<Rightarrow> ('e, unit) act" where
  "create_challenge c =
     act_insert ''authentication_challenges''
       (\<lambda>s. \<not> exists_where (\<lambda>x. ac_id x = ac_id c) (authentication_challenges s) \<and> user_exists s (ac_user_id c))
       (\<lambda>s. s\<lparr>authentication_challenges := authentication_challenges s @ [c]\<rparr>)"

definition get_active_for_user :: "database \<Rightarrow> uuid \<Rightarrow> instant \<Rightarrow> AuthenticationChallengeModel option" where
  "get_active_for_user s i now =
     first_row (order_desc ac_created_at
       (filter (\<lambda>c. ac_user_id c = i \<and> ac_consumed_at c = None \<and> now < ac_expires_at c) (authentication_challenges s)))"

definition get_most_recent_for_user :: "database \<Rightarrow> uuid \<Rightarrow> AuthenticationChallengeModel option" where
  "get_most_recent_for_user s i =
     first_row (order_desc ac_created_at (filter (\<lambda>c. ac_user_id c = i) (authentication_challenges s)))"

definition count_created_since :: "database \<Rightarrow> uuid \<Rightarrow> instant \<Rightarrow> int" where
  "count_created_since s i since =
     count_where (\<lambda>c. ac_user_id c = i \<and> since \<le> ac_created_at c) (authentication_challenges s)"

definition update_challenges ::
  "(AuthenticationChallengeModel \<Rightarrow> bool) \<Rightarrow> (AuthenticationChallengeModel \<Rightarrow> AuthenticationChallengeModel) \<Rightarrow> database \<Rightarrow> database" where
  "update_challenges p f s = s\<lparr>authentication_challenges := update_where p f (authentication_challenges s)\<rparr>"

definition increment_attempts :: "uuid \<Rightarrow> ('e, unit) act" where
  "increment_attempts challenge_id =
     act_write (update_challenges (\<lambda>c. ac_id c = challenge_id) (\<lambda>c. c\<lparr>ac_attempts := ac_attempts c + 1\<rparr>))"

definition consumable :: "uuid \<Rightarrow> string \<Rightarrow> instant \<Rightarrow> AuthenticationChallengeModel \<Rightarrow> bool" where
  "consumable challenge_id code_hash now c \<longleftrightarrow> ac_id c = challenge_id \<and> ac_code_hash c = code_hash
     \<and> ac_consumed_at c = None \<and> now < ac_expires_at c \<and> ac_attempts c < ac_max_attempts c"

definition consume_if_matching :: "uuid \<Rightarrow> string \<Rightarrow> instant \<Rightarrow> ('e, bool) act" where
  "consume_if_matching challenge_id code_hash now s =
     (Inr (count_where (consumable challenge_id code_hash now) (authentication_challenges s) = 1),
      update_challenges (consumable challenge_id code_hash now) (\<lambda>c. c\<lparr>ac_consumed_at := Some now\<rparr>) s)"

section \<open>The session repository\<close>

definition create_session :: "SessionModel \<Rightarrow> ('e, unit) act" where
  "create_session x =
     act_insert ''auth_sessions''
       (\<lambda>s. \<not> exists_where (\<lambda>y. se_id y = se_id x \<or> se_token_hash y = se_token_hash x) (auth_sessions s)
          \<and> user_exists s (se_user_id x))
       (\<lambda>s. s\<lparr>auth_sessions := auth_sessions s @ [x]\<rparr>)"

definition get_active_by_token_hash :: "database \<Rightarrow> string \<Rightarrow> instant \<Rightarrow> SessionModel option" where
  "get_active_by_token_hash s token_hash now =
     select_one (\<lambda>x. se_token_hash x = token_hash \<and> se_revoked_at x = None \<and> now < se_expires_at x) (auth_sessions s)"

definition touch_session :: "uuid \<Rightarrow> instant \<Rightarrow> ('e, unit) act" where
  "touch_session session_id now =
     act_write (\<lambda>s. s\<lparr>auth_sessions := update_where (\<lambda>x. se_id x = session_id)
       (\<lambda>x. x\<lparr>se_last_used_at := Some now\<rparr>) (auth_sessions s)\<rparr>)"

definition revoke_by_token_hash :: "string \<Rightarrow> instant \<Rightarrow> ('e, unit) act" where
  "revoke_by_token_hash token_hash now =
     act_write (\<lambda>s. s\<lparr>auth_sessions := update_where (\<lambda>x. se_token_hash x = token_hash \<and> se_revoked_at x = None)
       (\<lambda>x. x\<lparr>se_revoked_at := Some now\<rparr>) (auth_sessions s)\<rparr>)"

section \<open>Asking for a code\<close>

record RequestChallengeResult =
  rq_resend_after_seconds :: int
  rq_expires_in_seconds :: int
  rq_code_length :: nat
  rq_test_code :: "pystr option"

text \<open>\<open>int(d.total_seconds())\<close> truncates towards zero.\<close>

definition whole_seconds :: "int \<Rightarrow> int" where
  "whole_seconds d = (if d < 0 then - (- d div 1000000) else d div 1000000)"

text \<open>The values a call draws from its generators.\<close>

record challenge_draw =
  dr_user_id :: uuid
  dr_challenge_id :: uuid
  dr_number :: nat
  dr_salt :: string

definition request_result :: "authentication_settings \<Rightarrow> RequestChallengeResult" where
  "request_result cfg = \<lparr>rq_resend_after_seconds = whole_seconds (as_resend_cooldown cfg),
     rq_expires_in_seconds = whole_seconds (as_challenge_ttl cfg), rq_code_length = CODE_LENGTH, rq_test_code = None\<rparr>"

definition new_challenge ::
  "sha256_hex \<Rightarrow> authentication_settings \<Rightarrow> challenge_draw \<Rightarrow> uuid \<Rightarrow> instant \<Rightarrow> AuthenticationChallengeModel" where
  "new_challenge sha cfg draw i now =
     (let (code, salt, code_hash) = generate_otp sha (dr_number draw) (dr_salt draw) in
      \<lparr>ac_id = dr_challenge_id draw, ac_user_id = i, ac_code_hash = code_hash, ac_code_salt = salt,
       ac_expires_at = now + as_challenge_ttl cfg, ac_attempts = 0,
       ac_max_attempts = as_max_verification_attempts cfg, ac_consumed_at = None, ac_created_at = now\<rparr>)"

text \<open>The account behind the number, or \<open>None\<close> for an inactive one.\<close>

definition account_for :: "uuid \<Rightarrow> pystr \<Rightarrow> instant \<Rightarrow> (AuthError, User option) act" where
  "account_for new_id phone now =
     act_bind (act_read (\<lambda>s. get_by_identifier s phone)) (\<lambda>user.
     case user of
       None \<Rightarrow> act_bind (create_user new_id phone now) (\<lambda>u. act_return (Some u))
     | Some u \<Rightarrow> act_return (if user_account_status u = ACCOUNT_INACTIVE then None else Some u))"

definition issue_challenge ::
  "sha256_hex \<Rightarrow> authentication_settings \<Rightarrow> bool \<Rightarrow> challenge_draw \<Rightarrow> bool \<Rightarrow> uuid \<Rightarrow> instant
     \<Rightarrow> (AuthError, RequestChallengeResult) act" where
  "issue_challenge sha cfg sms_delivered draw test_number i now =
     act_bind (act_read (\<lambda>s. get_most_recent_for_user s i)) (\<lambda>recent.
     act_bind (case recent of
         None \<Rightarrow> act_return ()
       | Some r \<Rightarrow> let remaining = as_resend_cooldown cfg - (now - ac_created_at r) in
           if 0 < remaining then act_raise (RESEND_COOLDOWN (remaining div 1000000 + 1)) else act_return ()) (\<lambda>_.
     act_bind (act_read (\<lambda>s. count_created_since s i (now - microsecond_day))) (\<lambda>sent_in_last_24h.
     if as_daily_limit cfg \<le> sent_in_last_24h then act_raise DAILY_LIMIT
     else if test_number then
       act_bind (create_challenge (new_challenge sha cfg draw i now)) (\<lambda>_.
       act_return ((request_result cfg)\<lparr>rq_test_code := Some (fst (generate_otp sha (dr_number draw) (dr_salt draw)))\<rparr>))
     else if \<not> sms_delivered then act_raise COULD_NOT_SEND
     else act_bind (create_challenge (new_challenge sha cfg draw i now)) (\<lambda>_. act_return (request_result cfg)))))"

definition request_challenge ::
  "sha256_hex \<Rightarrow> authentication_settings \<Rightarrow> bool \<Rightarrow> challenge_draw \<Rightarrow> pystr \<Rightarrow> instant
     \<Rightarrow> (AuthError, RequestChallengeResult) act" where
  "request_challenge sha cfg sms_delivered draw given now =
     (case normalize_iranian_mobile given of
        Inl _ \<Rightarrow> act_raise PHONE_INVALID
      | Inr phone \<Rightarrow>
          (let test_number = (as_test_numbers_enabled cfg \<and> is_test_phone_number phone) in
           if as_allowed_phones cfg \<noteq> [] \<and> \<not> test_number \<and> phone \<notin> set (as_allowed_phones cfg)
           then act_raise PHONE_NOT_ALLOWED
           else if \<not> test_number \<and> \<not> has_known_mobile_prefix phone then act_raise PHONE_UNUSUAL
           else
             act_bind (account_for (dr_user_id draw) phone now) (\<lambda>user.
             case user of
               None \<Rightarrow> act_return (request_result cfg)
             | Some u \<Rightarrow> issue_challenge sha cfg sms_delivered draw test_number (user_id u) now)))"

definition request_admin_challenge ::
  "sha256_hex \<Rightarrow> authentication_settings \<Rightarrow> bool \<Rightarrow> challenge_draw \<Rightarrow> pystr \<Rightarrow> instant
     \<Rightarrow> (AuthError, RequestChallengeResult) act" where
  "request_admin_challenge sha cfg sms_delivered draw given now =
     (case normalize_iranian_mobile given of
        Inl _ \<Rightarrow> act_raise PHONE_INVALID
      | Inr phone \<Rightarrow>
          act_bind (act_read (\<lambda>s. get_by_identifier s phone)) (\<lambda>user.
          if \<not> is_active_admin user then act_return (request_result cfg)
          else request_challenge sha cfg sms_delivered draw phone now))"

section \<open>Using a code\<close>

definition consume_code :: "sha256_hex \<Rightarrow> pystr \<Rightarrow> pystr \<Rightarrow> instant \<Rightarrow> (AuthError, User) act" where
  "consume_code sha given code now =
     (case normalize_iranian_mobile given of
        Inl _ \<Rightarrow> act_raise INVALID_CHALLENGE
      | Inr phone \<Rightarrow>
          act_bind (act_read (\<lambda>s. get_by_identifier s phone)) (\<lambda>found.
          case found of
            None \<Rightarrow> act_raise INVALID_CHALLENGE
          | Some user \<Rightarrow>
              if user_account_status user = ACCOUNT_INACTIVE then act_raise INVALID_CHALLENGE
              else
                act_bind (act_read (\<lambda>s. get_active_for_user s (user_id user) now)) (\<lambda>active.
                case active of
                  None \<Rightarrow> act_raise INVALID_CHALLENGE
                | Some challenge \<Rightarrow>
                    if ac_max_attempts challenge \<le> ac_attempts challenge then act_raise INVALID_CHALLENGE
                    else if hash_code sha code (ac_code_salt challenge) \<noteq> ac_code_hash challenge then
                      act_bind (increment_attempts (ac_id challenge)) (\<lambda>_. act_raise INVALID_CHALLENGE)
                    else
                      act_bind (consume_if_matching (ac_id challenge) (hash_code sha code (ac_code_salt challenge)) now)
                        (\<lambda>consumed. if \<not> consumed then act_raise INVALID_CHALLENGE else act_return user))))"

definition verified_user :: "User \<Rightarrow> instant \<Rightarrow> (AuthError, User) act" where
  "verified_user user now =
     (if user_verification_status user \<noteq> VERIFIED then mark_verified (user_id user) now else act_return user)"

record VerificationResult =
  vr_user :: User
  vr_session_token :: pystr

definition verify_challenge ::
  "sha256_hex \<Rightarrow> authentication_settings \<Rightarrow> uuid \<Rightarrow> pystr \<Rightarrow> pystr \<Rightarrow> pystr \<Rightarrow> instant \<Rightarrow> (AuthError, VerificationResult) act" where
  "verify_challenge sha cfg session_id session_token given code now =
     act_bind (consume_code sha given code now) (\<lambda>user.
     act_bind (verified_user user now) (\<lambda>user.
     act_bind (create_session \<lparr>se_id = session_id, se_user_id = user_id user, se_token_hash = hash_secret sha session_token,
         se_expires_at = now + as_session_ttl cfg, se_created_at = now, se_last_used_at = Some now, se_revoked_at = None\<rparr>) (\<lambda>_.
     act_return \<lparr>vr_user = user, vr_session_token = session_token\<rparr>)))"

definition verify_admin_challenge :: "sha256_hex \<Rightarrow> pystr \<Rightarrow> pystr \<Rightarrow> instant \<Rightarrow> (AuthError, User) act" where
  "verify_admin_challenge sha given code now =
     act_bind (consume_code sha given code now) (\<lambda>user.
     if \<not> is_active_admin (Some user) then act_raise INVALID_CHALLENGE else verified_user user now)"

definition get_active_admin :: "database \<Rightarrow> uuid \<Rightarrow> User option" where
  "get_active_admin s i = (let user = get_by_id s i in if is_active_admin user then user else None)"

section \<open>Sessions\<close>

definition get_current_user :: "sha256_hex \<Rightarrow> pystr option \<Rightarrow> instant \<Rightarrow> (AuthError, User) act" where
  "get_current_user sha session_token now =
     (if session_token = None \<or> session_token = Some [] then act_raise AUTHENTICATION_REQUIRED
      else
        act_bind (act_read (\<lambda>s. get_active_by_token_hash s (hash_secret sha (the session_token)) now)) (\<lambda>found.
        case found of
          None \<Rightarrow> act_raise AUTHENTICATION_REQUIRED
        | Some x \<Rightarrow>
            act_bind (act_read (\<lambda>s. get_by_id s (se_user_id x))) (\<lambda>user.
            case user of
              None \<Rightarrow> act_raise AUTHENTICATION_REQUIRED
            | Some u \<Rightarrow>
                if user_account_status u \<noteq> ACCOUNT_ACTIVE then act_raise AUTHENTICATION_REQUIRED
                else act_bind (touch_session (se_id x) now) (\<lambda>_. act_return u))))"

definition logout :: "sha256_hex \<Rightarrow> pystr option \<Rightarrow> instant \<Rightarrow> (AuthError, unit) act" where
  "logout sha session_token now =
     (if session_token = None \<or> session_token = Some [] then act_return ()
      else revoke_by_token_hash (hash_secret sha (the session_token)) now)"

definition update_display_name :: "unicode \<Rightarrow> uuid \<Rightarrow> pystr option \<Rightarrow> instant \<Rightarrow> (AuthError, User) act" where
  "update_display_name ud i display_name now =
     act_bind (case display_name of
         None \<Rightarrow> act_return ()
       | Some name \<Rightarrow> if is_reserved_name ud name then act_raise DISPLAY_NAME_RESERVED else act_return ()) (\<lambda>_.
     act_bind (repo_update_display_name i display_name now) (\<lambda>user.
     case user of None \<Rightarrow> act_raise AUTHENTICATION_REQUIRED | Some u \<Rightarrow> act_return u))"

section \<open>The second factor of an admin\<close>

text \<open>The cipher of \<open>app/infrastructure/crypto.py\<close>; decrypting raises, a \<open>ValueError\<close>, on a foreign text.\<close>

record cipher =
  encrypt :: "pystr \<Rightarrow> string"
  decrypt :: "string \<Rightarrow> pystr option"

record AdminTotpRecord =
  tr_secret :: pystr
  tr_confirmed_at :: "instant option"

definition totp_get :: "cipher \<Rightarrow> uuid \<Rightarrow> ('e, AdminTotpRecord option) act" where
  "totp_get ci i s =
     (case user_row s i of
        None \<Rightarrow> (Inr None, s)
      | Some u \<Rightarrow>
          (case u_totp_secret_encrypted u of
             None \<Rightarrow> (Inr None, s)
           | Some x \<Rightarrow>
               (case decrypt ci x of
                  None \<Rightarrow> (Inl (Crash (ValueError ''could not decrypt'')), s)
                | Some secret \<Rightarrow> (Inr (Some \<lparr>tr_secret = secret, tr_confirmed_at = u_totp_confirmed_at u\<rparr>), s))))"

definition totp_save_pending :: "cipher \<Rightarrow> uuid \<Rightarrow> pystr \<Rightarrow> instant \<Rightarrow> ('e, unit) act" where
  "totp_save_pending ci i secret now =
     act_write (update_user i (\<lambda>u. u\<lparr>u_totp_secret_encrypted := Some (encrypt ci secret), u_totp_confirmed_at := None,
       u_updated_at := now\<rparr>))"

text \<open>The table's check: a confirmed second factor has a secret.\<close>

definition totp_confirm :: "uuid \<Rightarrow> instant \<Rightarrow> ('e, unit) act" where
  "totp_confirm i now =
     act_insert ''ck_users_totp_confirmed_requires_secret''
       (\<lambda>s. \<not> exists_where (\<lambda>u. u_id u = i \<and> u_totp_secret_encrypted u = None) (users s))
       (update_user i (\<lambda>u. u\<lparr>u_totp_confirmed_at := Some now, u_updated_at := now\<rparr>))"

definition totp_clear :: "uuid \<Rightarrow> ('e, unit) act" where
  "totp_clear i =
     act_write (update_user i (\<lambda>u. u\<lparr>u_totp_secret_encrypted := None, u_totp_confirmed_at := None\<rparr>))"

definition has_confirmed_admin_totp :: "cipher \<Rightarrow> uuid \<Rightarrow> (AuthError, bool) act" where
  "has_confirmed_admin_totp ci i =
     act_bind (totp_get ci i) (\<lambda>r.
     act_return (case r of None \<Rightarrow> False | Some r \<Rightarrow> tr_confirmed_at r \<noteq> None))"

definition begin_admin_totp_enrollment :: "cipher \<Rightarrow> bytes \<Rightarrow> uuid \<Rightarrow> instant \<Rightarrow> (AuthError, pystr) act" where
  "begin_admin_totp_enrollment ci random i now =
     act_bind (act_read (\<lambda>s. get_by_id s i)) (\<lambda>user.
     if \<not> is_active_admin user then act_raise AUTHENTICATION_REQUIRED
     else
       act_bind (totp_get ci i) (\<lambda>existing.
       case existing of
         Some r \<Rightarrow> if tr_confirmed_at r \<noteq> None then act_raise TOTP_ALREADY_ENROLLED else act_return (tr_secret r)
       | None \<Rightarrow> act_bind (totp_save_pending ci i (generate_secret random) now) (\<lambda>_. act_return (generate_secret random))))"

text \<open>\<open>at_time\<close> is \<open>time.time()\<close>; a bad secret is answered as a bad code, other exceptions pass through.\<close>

definition check_totp :: "mac \<Rightarrow> unicode \<Rightarrow> pystr \<Rightarrow> pystr \<Rightarrow> int \<Rightarrow> (AuthError, unit) act" where
  "check_totp mac ud secret code at_time =
     (case verify_code mac ud secret code at_time 1 of
        Inl (Raised TotpSecretError) \<Rightarrow> act_raise INVALID_CHALLENGE
      | Inl (Crash e) \<Rightarrow> act_crash e
      | Inr matches \<Rightarrow> if \<not> matches then act_raise INVALID_CHALLENGE else act_return ())"

definition confirm_admin_totp_enrollment ::
  "cipher \<Rightarrow> mac \<Rightarrow> unicode \<Rightarrow> uuid \<Rightarrow> pystr \<Rightarrow> int \<Rightarrow> instant \<Rightarrow> (AuthError, unit) act" where
  "confirm_admin_totp_enrollment ci mac ud i code at_time now =
     act_bind (totp_get ci i) (\<lambda>r.
     case r of
       None \<Rightarrow> act_raise TOTP_NOT_PENDING
     | Some r \<Rightarrow>
         if tr_confirmed_at r \<noteq> None then act_raise TOTP_NOT_PENDING
         else act_bind (check_totp mac ud (tr_secret r) code at_time) (\<lambda>_. totp_confirm i now))"

definition verify_admin_totp :: "cipher \<Rightarrow> mac \<Rightarrow> unicode \<Rightarrow> uuid \<Rightarrow> pystr \<Rightarrow> int \<Rightarrow> (AuthError, unit) act" where
  "verify_admin_totp ci mac ud i code at_time =
     act_bind (totp_get ci i) (\<lambda>r.
     case r of
       None \<Rightarrow> act_raise INVALID_CHALLENGE
     | Some r \<Rightarrow>
         if tr_confirmed_at r = None then act_raise INVALID_CHALLENGE
         else check_totp mac ud (tr_secret r) code at_time)"

definition reset_admin_totp :: "pystr \<Rightarrow> (AuthError, bool) act" where
  "reset_admin_totp given =
     act_bind (act_read (\<lambda>s. get_by_identifier s given)) (\<lambda>user.
     case user of None \<Rightarrow> act_return False | Some u \<Rightarrow> act_bind (totp_clear (user_id u)) (\<lambda>_. act_return True))"

end
