(* ===== verification/Sign_In.thy ===== *)
theory Sign_In
  imports Authentication
begin

text \<open>
  What sign-in promises: the outcome of using a code, one session for each code, the bounds the
  attempt counter, the cooldown and the daily limit put on guessing, sessions that end for good, and a
  second factor that cannot be swapped.
\<close>

section \<open>Consistent challenges and sessions\<close>

definition auth_ok :: "database \<Rightarrow> bool" where
  "auth_ok s \<longleftrightarrow> users_ok s \<and> distinct (map ac_id (authentication_challenges s))
     \<and> distinct (map se_id (auth_sessions s)) \<and> distinct (map se_token_hash (auth_sessions s))
     \<and> (\<forall>c \<in> set (authentication_challenges s). 0 \<le> ac_attempts c \<and> ac_attempts c \<le> max 0 (ac_max_attempts c))"

lemma first_row_Some: "first_row xs = Some c \<Longrightarrow> c \<in> set xs"
  by (cases xs) auto

lemma active_challenge:
  "get_active_for_user s i now = Some c \<Longrightarrow>
     c \<in> set (authentication_challenges s) \<and> ac_user_id c = i \<and> ac_consumed_at c = None \<and> now < ac_expires_at c"
  by (auto simp: get_active_for_user_def dest!: first_row_Some)

text \<open>The player and the challenge a phone number leads to.\<close>

definition pending :: "database \<Rightarrow> pystr \<Rightarrow> instant \<Rightarrow> User \<Rightarrow> AuthenticationChallengeModel \<Rightarrow> bool" where
  "pending s given now u c \<longleftrightarrow>
     (\<exists>phone. normalize_iranian_mobile given = Inr phone \<and> get_by_identifier s phone = Some u)
     \<and> user_account_status u = ACCOUNT_ACTIVE \<and> get_active_for_user s (user_id u) now = Some c
     \<and> ac_attempts c < ac_max_attempts c"

definition right_code :: "sha256_hex \<Rightarrow> pystr \<Rightarrow> AuthenticationChallengeModel \<Rightarrow> bool" where
  "right_code sha code c \<longleftrightarrow> hash_code sha code (ac_code_salt c) = ac_code_hash c"

definition consumed_challenge :: "instant \<Rightarrow> AuthenticationChallengeModel \<Rightarrow> AuthenticationChallengeModel" where
  "consumed_challenge now c = c\<lparr>ac_consumed_at := Some now\<rparr>"

definition charged_challenge :: "AuthenticationChallengeModel \<Rightarrow> AuthenticationChallengeModel" where
  "charged_challenge c = c\<lparr>ac_attempts := ac_attempts c + 1\<rparr>"

definition with_challenge ::
  "AuthenticationChallengeModel \<Rightarrow> (AuthenticationChallengeModel \<Rightarrow> AuthenticationChallengeModel) \<Rightarrow> database \<Rightarrow> database" where
  "with_challenge c f s = update_challenges (\<lambda>x. ac_id x = ac_id c) f s"

lemma count_where_unique: "distinct (map k rows) \<Longrightarrow> r \<in> set rows \<Longrightarrow> count_where (\<lambda>x. k x = k r) rows = 1"
proof (induction rows)
  case (Cons x rows)
  then show ?case by (cases "k x = k r") (auto simp: count_where_zero_iff image_iff)
qed simp

lemma consume_exact:
  assumes "auth_ok s" "get_active_for_user s i now = Some c" "ac_attempts c < ac_max_attempts c"
  shows "consume_if_matching (ac_id c) (ac_code_hash c) now s = (Inr True, with_challenge c (consumed_challenge now) s)"
proof -
  note c = active_challenge [OF assms(2)]
  have dist: "distinct (map ac_id (authentication_challenges s))" using assms(1) by (simp add: auth_ok_def)
  have iff: "consumable (ac_id c) (ac_code_hash c) now x \<longleftrightarrow> ac_id x = ac_id c" if "x \<in> set (authentication_challenges s)" for x
    using c assms(3) distinct_key_eq [OF dist that, of c] by (auto simp: consumable_def)
  have "count_where (consumable (ac_id c) (ac_code_hash c) now) (authentication_challenges s)
      = count_where (\<lambda>x. ac_id x = ac_id c) (authentication_challenges s)"
    unfolding count_where_def by (intro arg_cong [where f = int] arg_cong [where f = length] filter_cong) (auto simp: iff)
  moreover have "update_where (consumable (ac_id c) (ac_code_hash c) now) f (authentication_challenges s)
      = update_where (\<lambda>x. ac_id x = ac_id c) f (authentication_challenges s)" for f
    by (rule update_where_cong) (rule iff)
  ultimately show ?thesis
    using count_where_unique [OF dist, of c] c by (simp add: consume_if_matching_def with_challenge_def update_challenges_def consumed_challenge_def [abs_def])
qed

lemma consume_code_cases:
  assumes "auth_ok s"
  shows "case consume_code sha given code now s of
      (Inr u, t) \<Rightarrow> \<exists>c. pending s given now u c \<and> right_code sha code c \<and> t = with_challenge c (consumed_challenge now) s
    | (Inl e, t) \<Rightarrow> e = Raised INVALID_CHALLENGE \<and> (\<forall>u c. pending s given now u c \<longrightarrow> \<not> right_code sha code c)
        \<and> (if \<exists>u c. pending s given now u c then \<exists>u c. pending s given now u c \<and> t = with_challenge c charged_challenge s else t = s)"
proof (cases "\<exists>u c. pending s given now u c")
  case True
  then obtain u c where p: "pending s given now u c" by blast
  then obtain phone where phone: "normalize_iranian_mobile given = Inr phone" "get_by_identifier s phone = Some u"
    and active: "user_account_status u = ACCOUNT_ACTIVE" "get_active_for_user s (user_id u) now = Some c"
      "ac_attempts c < ac_max_attempts c"
    by (auto simp: pending_def)
  have only: "pending s given now v d \<longleftrightarrow> v = u \<and> d = c" for v d
    using phone active by (auto simp: pending_def)
  show ?thesis
  proof (cases "right_code sha code c")
    case True
    then have "consume_code sha given code now s = (Inr u, with_challenge c (consumed_challenge now) s)"
      using phone active consume_exact [where 'a = AuthError, OF assms active(2,3)]
      by (simp add: consume_code_def right_code_def act_bind_Inr act_return_def)
    then show ?thesis using True by (simp add: only)
  next
    case False
    then have "consume_code sha given code now s = (Inl (Raised INVALID_CHALLENGE), with_challenge c charged_challenge s)"
      using phone active
      by (simp add: consume_code_def right_code_def increment_attempts_def with_challenge_def charged_challenge_def [abs_def] act_raise_def)
    then show ?thesis using False by (simp add: only)
  qed
next
  case False
  then have "consume_code sha given code now s = (Inl (Raised INVALID_CHALLENGE), s)"
    by (auto simp: consume_code_def pending_def act_raise_def split: sum.splits option.splits)
      (metis AccountStatus.exhaust not_le)+
  with False show ?thesis by simp
qed

section \<open>Signing in\<close>

lemma with_challenge_tables [simp]:
  "users (with_challenge c f s) = users s" "auth_sessions (with_challenge c f s) = auth_sessions s"
  "authentication_challenges (with_challenge c f s) = update_where (\<lambda>x. ac_id x = ac_id c) f (authentication_challenges s)"
  by (simp_all add: with_challenge_def update_challenges_def)

lemma update_user_tables [simp]:
  "auth_sessions (update_user i f s) = auth_sessions s"
  "authentication_challenges (update_user i f s) = authentication_challenges s"
  by (simp_all add: update_user_def)

lemma users_ok_same: "users t = users s \<Longrightarrow> users_ok t = users_ok s"
  by (simp add: users_ok_def)

lemma users_ok_update:
  assumes "users_ok s" "\<And>u. u_id (f u) = u_id u \<and> u_identifier (f u) = u_identifier u \<and> u_nickname_key (f u) = u_nickname_key u"
  shows "users_ok (update_user i f s)"
proof -
  have "map u_id (users (update_user i f s)) = map u_id (users s)"
    "map u_identifier (users (update_user i f s)) = map u_identifier (users s)"
    using assms(2) unfolding update_user_def by (auto intro!: map_update_where_same)
  moreover have "\<exists>x \<in> set (users s). u_id v = u_id x \<and> u_nickname_key v = u_nickname_key x"
    if "v \<in> set (users (update_user i f s))" for v
    using update_rows [OF that] assms(2) by (metis (full_types))
  ultimately show ?thesis using assms(1) unfolding users_ok_def by metis
qed

definition verified_state :: "User \<Rightarrow> instant \<Rightarrow> database \<Rightarrow> database" where
  "verified_state u now s =
     (if user_verification_status u = VERIFIED then s
      else update_user (user_id u) (\<lambda>x. x\<lparr>u_verification_status := VERIFIED, u_updated_at := now\<rparr>) s)"

lemma verified_state_tables [simp]:
  "auth_sessions (verified_state u now s) = auth_sessions s"
  "authentication_challenges (verified_state u now s) = authentication_challenges s"
  by (simp_all add: verified_state_def)

lemma users_ok_verified: "users_ok s \<Longrightarrow> users_ok (verified_state u now s)"
  by (simp add: verified_state_def users_ok_update)

lemma identifier_row:
  "users_ok s \<Longrightarrow> get_by_identifier s phone = Some u \<Longrightarrow>
     \<exists>m. user_row s (user_id u) = Some m \<and> u = user_from_model m"
  by (auto simp: get_by_identifier_def user_row_in dest!: select_one_Some)

lemma verified_user_result:
  assumes "users_ok s" "user_row s (user_id u) = Some m" "u = user_from_model m"
  shows "\<exists>v. verified_user u now s = (Inr v, verified_state u now s) \<and> get_by_id (verified_state u now s) (user_id u) = Some v
    \<and> user_id v = user_id u \<and> user_verification_status v = VERIFIED \<and> user_account_status v = user_account_status u
    \<and> user_role v = user_role u"
  using assms
  by (auto simp: verified_user_def verified_state_def mark_verified_def get_by_id_def user_row_update act_defs)

definition session_row :: "sha256_hex \<Rightarrow> authentication_settings \<Rightarrow> uuid \<Rightarrow> pystr \<Rightarrow> uuid \<Rightarrow> instant \<Rightarrow> SessionModel" where
  "session_row sha cfg session_id token i now = \<lparr>se_id = session_id, se_user_id = i, se_token_hash = hash_secret sha token,
     se_expires_at = now + as_session_ttl cfg, se_created_at = now, se_last_used_at = Some now, se_revoked_at = None\<rparr>"

definition signed_in_state ::
  "sha256_hex \<Rightarrow> authentication_settings \<Rightarrow> uuid \<Rightarrow> pystr \<Rightarrow> User \<Rightarrow> AuthenticationChallengeModel \<Rightarrow> instant \<Rightarrow> database \<Rightarrow> database" where
  "signed_in_state sha cfg session_id token u c now s =
     (verified_state u now (with_challenge c (consumed_challenge now) s))
       \<lparr>auth_sessions := auth_sessions s @ [session_row sha cfg session_id token (user_id u) now]\<rparr>"

lemma auth_ok_challenge:
  assumes "auth_ok s" "\<And>x. ac_id (f x) = ac_id x"
    and "\<And>x. x \<in> set (authentication_challenges s) \<Longrightarrow> ac_id x = ac_id c \<Longrightarrow> 0 \<le> ac_attempts (f x) \<and> ac_attempts (f x) \<le> max 0 (ac_max_attempts (f x))"
  shows "auth_ok (with_challenge c f s)"
proof -
  have "map ac_id (update_where (\<lambda>x. ac_id x = ac_id c) f (authentication_challenges s)) = map ac_id (authentication_challenges s)"
    using assms(2) by (intro map_update_where_same) simp
  moreover have "users_ok (with_challenge c f s)" using assms(1) users_ok_same [of "with_challenge c f s" s] by (simp add: auth_ok_def)
  ultimately show ?thesis using assms(1,3) by (auto simp: auth_ok_def set_update_where)
qed

lemma auth_ok_consumed: "auth_ok s \<Longrightarrow> auth_ok (with_challenge c (consumed_challenge now) s)"
  by (rule auth_ok_challenge) (auto simp: consumed_challenge_def auth_ok_def)

lemma pending_challenge: "pending s given now u c \<Longrightarrow> c \<in> set (authentication_challenges s) \<and> ac_user_id c = user_id u
    \<and> ac_consumed_at c = None \<and> now < ac_expires_at c \<and> ac_attempts c < ac_max_attempts c"
  by (auto simp: pending_def dest: active_challenge)

lemma auth_ok_charged: "auth_ok s \<Longrightarrow> pending s given now u c \<Longrightarrow> auth_ok (with_challenge c charged_challenge s)"
  using pending_challenge [of s given now u c]
  by (intro auth_ok_challenge) (auto simp: charged_challenge_def auth_ok_def dest: distinct_key_eq)

lemma sign_in_result:
  assumes "auth_ok s" "pending s given now u c" "right_code sha code c"
    and "session_id \<notin> se_id ` set (auth_sessions s)" "hash_secret sha token \<notin> se_token_hash ` set (auth_sessions s)"
  shows "\<exists>v. verify_challenge sha cfg session_id token given code now s
      = (Inr \<lparr>vr_user = v, vr_session_token = token\<rparr>, signed_in_state sha cfg session_id token u c now s)
    \<and> user_id v = user_id u \<and> user_verification_status v = VERIFIED
    \<and> get_by_id (signed_in_state sha cfg session_id token u c now s) (user_id u) = Some v
    \<and> user_account_status v = ACCOUNT_ACTIVE"
proof -
  let ?s1 = "with_challenge c (consumed_challenge now) s"
  from assms(2) obtain phone where "get_by_identifier s phone = Some u" "user_account_status u = ACCOUNT_ACTIVE"
    by (auto simp: pending_def)
  with identifier_row [of s phone u] assms(1) obtain m where m: "user_row s (user_id u) = Some m" "u = user_from_model m"
    by (auto simp: auth_ok_def)
  have ok1: "users_ok ?s1" using auth_ok_consumed [OF assms(1), of c now] by (simp add: auth_ok_def)
  have "user_row ?s1 (user_id u) = Some m" using m(1) by (simp add: user_row_def)
  from verified_user_result [OF ok1 this m(2), of now] obtain v where v:
    "verified_user u now ?s1 = (Inr v, verified_state u now ?s1)" "get_by_id (verified_state u now ?s1) (user_id u) = Some v"
    "user_id v = user_id u" "user_verification_status v = VERIFIED" "user_account_status v = user_account_status u" by blast
  have "consume_code sha given code now s = (Inr u, ?s1)"
    using consume_code_cases [OF assms(1), where sha = sha and given = given and code = code and now = now] assms(2,3)
    by (auto simp: pending_def split: prod.splits sum.splits)
  moreover have "user_exists (verified_state u now ?s1) (user_id u)"
    using v(2) user_row_None_iff [of "verified_state u now ?s1" "user_id u"] by (auto simp: get_by_id_def)
  ultimately have "verify_challenge sha cfg session_id token given code now s
      = (Inr \<lparr>vr_user = v, vr_session_token = token\<rparr>, signed_in_state sha cfg session_id token u c now s)"
    using v(1,3) assms(4,5)
    by (auto simp: verify_challenge_def act_bind_Inr create_session_def act_return_def signed_in_state_def session_row_def image_iff)
  with v \<open>user_account_status u = ACCOUNT_ACTIVE\<close> show ?thesis
    by (simp add: signed_in_state_def get_by_id_def user_row_def)
qed

lemma auth_ok_signed_in:
  assumes "auth_ok s" "session_id \<notin> se_id ` set (auth_sessions s)" "hash_secret sha token \<notin> se_token_hash ` set (auth_sessions s)"
  shows "auth_ok (signed_in_state sha cfg session_id token u c now s)"
proof -
  let ?s1 = "with_challenge c (consumed_challenge now) s"
  let ?t = "signed_in_state sha cfg session_id token u c now s"
  have ok: "auth_ok ?s1" by (rule auth_ok_consumed [OF assms(1)])
  then have "users_ok (verified_state u now ?s1)" by (intro users_ok_verified) (simp add: auth_ok_def)
  then have "users_ok ?t" using users_ok_same [of ?t "verified_state u now ?s1"] by (simp add: signed_in_state_def)
  with ok assms show ?thesis by (auto simp: auth_ok_def signed_in_state_def session_row_def)
qed

lemma active_session:
  assumes "auth_ok s" "x \<in> set (auth_sessions s)"
  shows "get_active_by_token_hash s (se_token_hash x) now = (if se_revoked_at x = None \<and> now < se_expires_at x then Some x else None)"
proof -
  have dist: "distinct (map se_token_hash (auth_sessions s))" using assms(1) by (simp add: auth_ok_def)
  have only: "se_token_hash y = se_token_hash x \<longleftrightarrow> y = x" if "y \<in> set (auth_sessions s)" for y
    using distinct_key_eq [OF dist that assms(2)] by auto
  have "select_one (\<lambda>y. y = x \<and> P y) rows = (if P x then Some x else None)" if "x \<in> set rows" for P and rows :: "SessionModel list"
    using that by (induction rows) (auto simp: select_one_None_iff)
  moreover have "get_active_by_token_hash s (se_token_hash x) now
      = select_one (\<lambda>y. y = x \<and> se_revoked_at y = None \<and> now < se_expires_at y) (auth_sessions s)"
    unfolding get_active_by_token_hash_def select_one_def by (rule find_cong) (auto simp: only)
  ultimately show ?thesis using assms(2) by simp
qed

text \<open>Who a token stands for at a moment.\<close>

lemma current_user_exact:
  assumes "auth_ok s" "token \<noteq> []"
  shows "case get_current_user sha (Some token) now s of
      (Inr u, t) \<Rightarrow> \<exists>x. x \<in> set (auth_sessions s) \<and> se_token_hash x = hash_secret sha token \<and> se_revoked_at x = None
        \<and> now < se_expires_at x \<and> get_by_id s (se_user_id x) = Some u \<and> user_account_status u = ACCOUNT_ACTIVE
    | (Inl e, t) \<Rightarrow> e = Raised AUTHENTICATION_REQUIRED \<and> t = s
        \<and> \<not> (\<exists>x u. x \<in> set (auth_sessions s) \<and> se_token_hash x = hash_secret sha token \<and> se_revoked_at x = None
          \<and> now < se_expires_at x \<and> get_by_id s (se_user_id x) = Some u \<and> user_account_status u = ACCOUNT_ACTIVE)"
proof (cases "get_active_by_token_hash s (hash_secret sha token) now")
  case None
  have "\<not> (x \<in> set (auth_sessions s) \<and> se_token_hash x = hash_secret sha token \<and> se_revoked_at x = None \<and> now < se_expires_at x)" for x
    using active_session [OF assms(1), of x now] None by auto
  with None assms(2) show ?thesis by (auto simp: get_current_user_def act_raise_def)
next
  case (Some x)
  then have x: "x \<in> set (auth_sessions s)" "se_token_hash x = hash_secret sha token" "se_revoked_at x = None" "now < se_expires_at x"
    by (auto simp: get_active_by_token_hash_def dest!: select_one_Some)
  have only: "y = x" if "y \<in> set (auth_sessions s)" "se_token_hash y = hash_secret sha token" for y
    using distinct_key_eq [of se_token_hash "auth_sessions s" y x] assms(1) that x by (auto simp: auth_ok_def)
  show ?thesis
    using Some assms(2) x
    by (auto simp: get_current_user_def touch_session_def act_raise_def act_return_def dest: only split: option.splits)
qed

text \<open>
  C5: signing in. The call succeeds exactly when the number is that of an active account whose newest
  live code has tries left and matches; then that code is used up, the account is verified, one session
  for it is added, and the token stands for the account until the session expires. Otherwise the one
  answer given is that the challenge is invalid, no session and no account changes, and a wrong guess
  costs the code one try.
\<close>

theorem sign_in_exact:
  assumes "auth_ok s" "token \<noteq> []"
    and "session_id \<notin> se_id ` set (auth_sessions s)" "hash_secret sha token \<notin> se_token_hash ` set (auth_sessions s)"
  shows "case verify_challenge sha cfg session_id token given code now s of
      (Inr r, t) \<Rightarrow> \<exists>u c. pending s given now u c \<and> right_code sha code c
        \<and> t = signed_in_state sha cfg session_id token u c now s \<and> auth_ok t
        \<and> vr_session_token r = token \<and> user_id (vr_user r) = user_id u \<and> user_verification_status (vr_user r) = VERIFIED
        \<and> (\<forall>later. later < now + as_session_ttl cfg \<longrightarrow> fst (get_current_user sha (Some token) later t) = Inr (vr_user r))
    | (Inl e, t) \<Rightarrow> e = Raised INVALID_CHALLENGE \<and> (\<forall>u c. pending s given now u c \<longrightarrow> \<not> right_code sha code c)
        \<and> (if \<exists>u c. pending s given now u c then \<exists>u c. pending s given now u c \<and> t = with_challenge c charged_challenge s else t = s)"
proof (cases "\<exists>u c. pending s given now u c \<and> right_code sha code c")
  case True
  then obtain u c where p: "pending s given now u c" "right_code sha code c" by blast
  let ?t = "signed_in_state sha cfg session_id token u c now s"
  from sign_in_result [OF assms(1) p assms(3,4), of cfg] obtain v where
    v: "verify_challenge sha cfg session_id token given code now s = (Inr \<lparr>vr_user = v, vr_session_token = token\<rparr>, ?t)"
      "user_id v = user_id u" "user_verification_status v = VERIFIED" "get_by_id ?t (user_id u) = Some v"
      "user_account_status v = ACCOUNT_ACTIVE" by blast
  have ok: "auth_ok ?t" by (rule auth_ok_signed_in [OF assms(1,3,4)])
  have "fst (get_current_user sha (Some token) later ?t) = Inr v" if "later < now + as_session_ttl cfg" for later
  proof -
    let ?x = "session_row sha cfg session_id token (user_id u) now"
    have "?x \<in> set (auth_sessions ?t)" by (simp add: signed_in_state_def)
    from active_session [OF ok this, of later] that v(4,5) assms(2) show ?thesis
      by (simp add: get_current_user_def session_row_def touch_session_def act_return_def)
  qed
  with v ok p show ?thesis by auto
next
  case False
  with consume_code_cases [OF assms(1), where sha = sha and given = given and code = code and now = now]
  show ?thesis by (auto simp: verify_challenge_def act_bind_def split: prod.splits sum.splits)
qed

definition otp_settings :: authentication_settings where
  "otp_settings = \<lparr>as_challenge_ttl = 120000000, as_session_ttl = 86400000000, as_max_verification_attempts = 3,
     as_resend_cooldown = 60000000, as_daily_limit = 5, as_test_numbers_enabled = False, as_allowed_phones = []\<rparr>"

definition toy_sha :: sha256_hex where
  "toy_sha t = map char_of t"

definition sent_code :: AuthenticationChallengeModel where
  "sent_code = \<lparr>ac_id = 4, ac_user_id = 1, ac_code_hash = hash_code toy_sha (cp ''123456'') ''salt'', ac_code_salt = ''salt'',
     ac_expires_at = 120000000, ac_attempts = 0, ac_max_attempts = 3, ac_consumed_at = None, ac_created_at = 0\<rparr>"

definition waiting :: database where
  "waiting = one_user\<lparr>authentication_challenges := [sent_code]\<rparr>"

lemma waiting_ok: "auth_ok waiting" "auth_sessions waiting = []"
  by (simp_all add: auth_ok_def users_ok_def waiting_def one_user_def empty_database_def sent_code_def)

lemma waiting_pending: "pending waiting (cp ''09123456789'') 1 (user_from_model adult_user) sent_code"
proof -
  have "normalize_iranian_mobile (cp ''09123456789'') = Inr (cp ''+989123456789'')"
    by (simp add: normalize_iranian_mobile_def clean_phone_def is_decimal_ascii strip_country_def
       COUNTRY_PREFIXES_def starts_with_def is_subscriber_def)
  moreover have "get_by_identifier waiting (cp ''+989123456789'') = Some (user_from_model adult_user)"
    by (simp add: get_by_identifier_def waiting_def one_user_def adult_user_def)
  moreover have "get_active_for_user waiting 1 1 = Some sent_code"
    by (simp add: get_active_for_user_def waiting_def sent_code_def order_desc_def)
  ultimately show ?thesis
    unfolding pending_def by (intro conjI exI) (simp_all add: adult_user_def sent_code_def)
qed

theorem sign_in_exact_witness:
  "\<exists>r t. verify_challenge toy_sha otp_settings 8 (cp ''token'') (cp ''09123456789'') (cp ''123456'') 1 waiting = (Inr r, t)
    \<and> auth_ok t \<and> fst (get_current_user toy_sha (Some (cp ''token'')) 2 t) = Inr (vr_user r)"
proof -
  obtain r t where out: "verify_challenge toy_sha otp_settings 8 (cp ''token'') (cp ''09123456789'') (cp ''123456'') 1 waiting = (r, t)"
    by fastforce
  have "right_code toy_sha (cp ''123456'') sent_code" by (simp add: right_code_def sent_code_def)
  moreover have "cp ''token'' \<noteq> []" "2 < 1 + as_session_ttl otp_settings" by (simp_all add: otp_settings_def)
  ultimately show ?thesis
    using sign_in_exact [OF waiting_ok(1), where token = "cp ''token''" and session_id = 8 and sha = toy_sha
        and given = "cp ''09123456789''" and code = "cp ''123456''" and now = 1 and cfg = otp_settings, unfolded out prod.case]
      waiting_pending waiting_ok(2) out by (cases r) (fastforce simp del: cp_Cons)+
qed

section \<open>Runs\<close>

inductive sign_in_step :: "sha256_hex \<Rightarrow> authentication_settings \<Rightarrow> database \<times> instant \<Rightarrow> database \<times> instant \<Rightarrow> bool"
  for sha cfg where
  request_step: "now \<le> later \<Longrightarrow> request_challenge sha cfg sms draw given later s = (r, t) \<Longrightarrow> sign_in_step sha cfg (s, now) (t, later)"
| admin_request_step: "now \<le> later \<Longrightarrow> request_admin_challenge sha cfg sms draw given later s = (r, t)
    \<Longrightarrow> sign_in_step sha cfg (s, now) (t, later)"
| verify_step: "now \<le> later \<Longrightarrow> verify_challenge sha cfg session_id token given code later s = (v, t)
    \<Longrightarrow> sign_in_step sha cfg (s, now) (t, later)"
| admin_verify_step: "now \<le> later \<Longrightarrow> verify_admin_challenge sha given code later s = (u, t)
    \<Longrightarrow> sign_in_step sha cfg (s, now) (t, later)"
| current_step: "now \<le> later \<Longrightarrow> get_current_user sha given_token later s = (u, t) \<Longrightarrow> sign_in_step sha cfg (s, now) (t, later)"
| logout_step: "now \<le> later \<Longrightarrow> logout sha given_token later s = (x, t) \<Longrightarrow> sign_in_step sha cfg (s, now) (t, later)"

definition codes_within :: "database \<Rightarrow> uuid \<Rightarrow> instant \<Rightarrow> AuthenticationChallengeModel list" where
  "codes_within s i x = filter (\<lambda>c. ac_user_id c = i \<and> x \<le> ac_created_at c \<and> ac_created_at c \<le> x + microsecond_day)
     (authentication_challenges s)"

definition issued_ok :: "authentication_settings \<Rightarrow> instant \<Rightarrow> AuthenticationChallengeModel list \<Rightarrow> bool" where
  "issued_ok cfg now cs \<longleftrightarrow>
     (\<forall>c \<in> set cs. ac_created_at c \<le> now \<and> ac_max_attempts c = as_max_verification_attempts cfg)
     \<and> (\<forall>i x. count_where (\<lambda>c. ac_user_id c = i \<and> x \<le> ac_created_at c \<and> ac_created_at c \<le> x + microsecond_day) cs
          \<le> max 0 (as_daily_limit cfg))
     \<and> sorted_wrt (\<lambda>a b. ac_user_id a = ac_user_id b \<longrightarrow> ac_created_at a + as_resend_cooldown cfg \<le> ac_created_at b) cs"

definition codes_used :: "database \<Rightarrow> int" where
  "codes_used s = count_where (\<lambda>c. ac_consumed_at c \<noteq> None) (authentication_challenges s)"

definition guess_ok :: "authentication_settings \<Rightarrow> database \<times> instant \<Rightarrow> bool" where
  "guess_ok cfg st \<longleftrightarrow> (case st of (s, now) \<Rightarrow> auth_ok s \<and> issued_ok cfg now (authentication_challenges s)
     \<and> int (length (auth_sessions s)) \<le> codes_used s)"

text \<open>What a step may do: nothing, a new code, a wrong guess, or a code used.\<close>

lemma most_recent:
  assumes "get_most_recent_for_user s i = Some r" "c \<in> set (authentication_challenges s)" "ac_user_id c = i"
  shows "ac_created_at c \<le> ac_created_at r"
proof -
  let ?rows = "filter (\<lambda>c. ac_user_id c = i) (authentication_challenges s)"
  obtain rest where rest: "order_desc ac_created_at ?rows = r # rest"
    using assms(1) by (auto simp: get_most_recent_for_user_def first_row_def split: list.splits)
  have "sorted (map (\<lambda>c. - ac_created_at c) (order_desc ac_created_at ?rows))" by (simp add: order_desc_def)
  moreover have "c \<in> set (r # rest)" using assms(2,3) by (simp flip: rest)
  ultimately show ?thesis unfolding rest by auto
qed

lemma issued_ok_new:
  assumes "issued_ok cfg now (authentication_challenges s)" "now \<le> later"
    and "\<forall>r. get_most_recent_for_user s i = Some r \<longrightarrow> ac_created_at r + as_resend_cooldown cfg \<le> later"
    and "count_created_since s i (later - microsecond_day) < as_daily_limit cfg"
  shows "issued_ok cfg later (authentication_challenges s @ [new_challenge sha cfg draw i later])"
proof -
  let ?new = "new_challenge sha cfg draw i later"
  have new: "ac_user_id ?new = i" "ac_created_at ?new = later" "ac_max_attempts ?new = as_max_verification_attempts cfg"
    by (simp_all add: new_challenge_def generate_otp_def Let_def)
  have old: "ac_created_at c \<le> later" if "c \<in> set (authentication_challenges s)" for c
    using assms(1,2) that by (fastforce simp: issued_ok_def)
  have gap: "ac_created_at c + as_resend_cooldown cfg \<le> later"
    if "c \<in> set (authentication_challenges s)" "ac_user_id c = i" for c
  proof (cases "get_most_recent_for_user s i")
    case None
    then have "set (filter (\<lambda>c. ac_user_id c = i) (authentication_challenges s)) = {}"
      unfolding get_most_recent_for_user_def first_row_def by (metis list.simps(4) list.simps(5) neq_Nil_conv option.distinct(1) set_empty set_order_desc)
    with that show ?thesis by (auto simp: filter_empty_conv)
  next
    case (Some r)
    with most_recent [OF Some that] assms(3) show ?thesis by auto
  qed
  have window: "count_where (\<lambda>c. ac_user_id c = j \<and> x \<le> ac_created_at c \<and> ac_created_at c \<le> x + microsecond_day)
      (authentication_challenges s @ [?new]) \<le> max 0 (as_daily_limit cfg)" for j x
  proof (cases "j = i \<and> x \<le> later \<and> later \<le> x + microsecond_day")
    case True
    have "count_where (\<lambda>c. ac_user_id c = j \<and> x \<le> ac_created_at c \<and> ac_created_at c \<le> x + microsecond_day) (authentication_challenges s)
        \<le> count_created_since s i (later - microsecond_day)"
      unfolding count_created_since_def using True by (intro count_where_mono) auto
    with assms(4) True show ?thesis by (simp add: new)
  next
    case False
    then show ?thesis using assms(1) by (auto simp: issued_ok_def new)
  qed
  show ?thesis
    using assms(1) window old gap by (auto simp: issued_ok_def new sorted_wrt_append)
qed

lemma guess_ok_tables:
  assumes "guess_ok cfg (s, now)" "users_ok t" "now \<le> later"
    and "authentication_challenges t = authentication_challenges s" "auth_sessions t = auth_sessions s"
  shows "guess_ok cfg (t, later)"
  using assms by (fastforce simp: guess_ok_def auth_ok_def issued_ok_def codes_used_def)

lemma guess_ok_users: "guess_ok cfg (s, now) \<Longrightarrow> users_ok s"
  by (simp add: guess_ok_def auth_ok_def)

lemma guess_ok_row:
  assumes "guess_ok cfg (s, now)" "now \<le> later" "auth_ok (with_challenge c f s)"
    and "\<And>x. ac_user_id (f x) = ac_user_id x \<and> ac_created_at (f x) = ac_created_at x \<and> ac_max_attempts (f x) = ac_max_attempts x"
    and "codes_used s \<le> codes_used (with_challenge c f s)"
  shows "guess_ok cfg (with_challenge c f s, later)"
proof -
  let ?cs = "update_where (\<lambda>x. ac_id x = ac_id c) f (authentication_challenges s)"
  have "count_where (\<lambda>c. ac_user_id c = i \<and> x \<le> ac_created_at c \<and> ac_created_at c \<le> x + microsecond_day) ?cs
      = count_where (\<lambda>c. ac_user_id c = i \<and> x \<le> ac_created_at c \<and> ac_created_at c \<le> x + microsecond_day) (authentication_challenges s)" for i x
    using assms(4) by (intro count_where_update_same) simp
  moreover have same: "ac_user_id (if p then f x else x) = ac_user_id x" "ac_created_at (if p then f x else x) = ac_created_at x" for p x
    using assms(4) by (cases p; simp)+
  have "sorted_wrt (\<lambda>a b. ac_user_id a = ac_user_id b \<longrightarrow> ac_created_at a + as_resend_cooldown cfg \<le> ac_created_at b) ?cs"
    unfolding update_where_def sorted_wrt_map same using assms(1) by (simp add: guess_ok_def issued_ok_def)
  moreover have "\<exists>x \<in> set (authentication_challenges s). ac_created_at y = ac_created_at x \<and> ac_max_attempts y = ac_max_attempts x"
    if "y \<in> set ?cs" for y using that assms(4) by (auto simp: set_update_where)
  then have "ac_created_at y \<le> later \<and> ac_max_attempts y = as_max_verification_attempts cfg" if "y \<in> set ?cs" for y
    using assms(1,2) that unfolding guess_ok_def issued_ok_def by fastforce
  ultimately show ?thesis using assms(1,3,5) by (simp add: guess_ok_def issued_ok_def)
qed

lemma guess_ok_charged:
  assumes "guess_ok cfg (s, now)" "now \<le> later" "pending s given later u c"
  shows "guess_ok cfg (with_challenge c charged_challenge s, later)"
proof (rule guess_ok_row [OF assms(1,2)])
  have "auth_ok s" using assms(1) by (simp add: guess_ok_def)
  then show "auth_ok (with_challenge c charged_challenge s)" using assms(3) by (rule auth_ok_charged)
  show "codes_used s \<le> codes_used (with_challenge c charged_challenge s)"
    by (simp add: codes_used_def count_where_update_same charged_challenge_def)
qed (simp add: charged_challenge_def)

lemma codes_used_consumed:
  assumes "auth_ok s" "pending s given later u c"
  shows "codes_used (with_challenge c (consumed_challenge later) s) = codes_used s + 1"
  using count_where_update_key [of ac_id "authentication_challenges s" c "\<lambda>c. ac_consumed_at c \<noteq> None" "consumed_challenge later"]
    assms(1) pending_challenge [OF assms(2)]
  by (simp add: codes_used_def auth_ok_def consumed_challenge_def)

lemma guess_ok_consumed:
  assumes "guess_ok cfg (s, now)" "now \<le> later" "pending s given later u c"
  shows "guess_ok cfg (with_challenge c (consumed_challenge later) s, later)
    \<and> int (length (auth_sessions s)) + 1 \<le> codes_used (with_challenge c (consumed_challenge later) s)"
proof -
  have ok: "auth_ok s" using assms(1) by (simp add: guess_ok_def)
  have "guess_ok cfg (with_challenge c (consumed_challenge later) s, later)"
    using codes_used_consumed [OF ok assms(3)] auth_ok_consumed [OF ok]
    by (intro guess_ok_row [OF assms(1,2)]) (simp_all add: consumed_challenge_def)
  with codes_used_consumed [OF ok assms(3)] assms(1) show ?thesis by (simp add: guess_ok_def)
qed

lemma account_cases:
  assumes "account_for new_id phone now s = (r, t)" "users_ok s"
  shows "users_ok t \<and> authentication_challenges t = authentication_challenges s \<and> auth_sessions t = auth_sessions s"
proof -
  have "t = s \<or> (t = s\<lparr>users := users s @ [new_user new_id phone now]\<rparr>
      \<and> \<not> exists_where (\<lambda>u. u_id u = new_id \<or> u_identifier u = phone) (users s))"
  proof (cases "get_by_identifier s phone")
    case None
    then have step: "account_for new_id phone now s = act_bind (create_user new_id phone now) (\<lambda>u. act_return (Some u)) s"
      by (simp add: account_for_def)
    show ?thesis
    proof (cases "exists_where (\<lambda>u. u_id u = new_id \<or> u_identifier u = phone) (users s)")
      case True
      then have "create_user new_id phone now s = (Inl (Crash (IntegrityError ''users'')) :: AuthError raised + User, s)"
        unfolding create_user_def None by simp
      with assms(1) step show ?thesis by (simp add: act_bind_Inl)
    next
      case False
      then have "create_user new_id phone now s = (Inr (user_from_model (new_user new_id phone now)) :: AuthError raised + User,
          s\<lparr>users := users s @ [new_user new_id phone now]\<rparr>)"
        unfolding create_user_def by (simp only: if_False)
      with assms(1) step False show ?thesis by (simp add: act_bind_Inr act_return_def)
    qed
  next
    case (Some u)
    then show ?thesis using assms(1) by (auto simp: account_for_def act_return_def)
  qed
  then show ?thesis
  proof (elim disjE conjE)
    assume t: "t = s\<lparr>users := users s @ [new_user new_id phone now]\<rparr>"
      and fresh: "\<not> exists_where (\<lambda>u. u_id u = new_id \<or> u_identifier u = phone) (users s)"
    have new: "u_id (new_user new_id phone now) = new_id" "u_identifier (new_user new_id phone now) = phone"
      "u_nickname_key (new_user new_id phone now) = None" by (simp_all add: new_user_def)
    have "u_id u = u_id v" if uv: "u \<in> set (users t)" "v \<in> set (users t)" "u_nickname_key u \<noteq> None"
      "u_nickname_key u = u_nickname_key v" for u v
    proof -
      have "u \<in> set (users s)" "v \<in> set (users s)" using uv new(3) by (auto simp: t)
      with uv(3,4) assms(2) show ?thesis unfolding users_ok_def by blast
    qed
    moreover have "distinct (map u_id (users t))" "distinct (map u_identifier (users t))"
      using assms(2) fresh by (auto simp: t users_ok_def new)
    ultimately have "users_ok t" unfolding users_ok_def by blast
    then show ?thesis by (simp add: t)
  qed (use assms(2) in simp)
qed

lemma issue_cases:
  assumes "issue_challenge sha cfg sms draw test i now s = (r, t)"
  shows "t = s \<or> t = s\<lparr>authentication_challenges := authentication_challenges s @ [new_challenge sha cfg draw i now]\<rparr>
    \<and> \<not> exists_where (\<lambda>x. ac_id x = dr_challenge_id draw) (authentication_challenges s)
    \<and> (\<forall>r. get_most_recent_for_user s i = Some r \<longrightarrow> ac_created_at r + as_resend_cooldown cfg \<le> now)
    \<and> count_created_since s i (now - microsecond_day) < as_daily_limit cfg"
proof -
  have id: "ac_id (new_challenge sha cfg draw i now) = dr_challenge_id draw" by (simp add: new_challenge_def generate_otp_def Let_def)
  show ?thesis
    using assms
    by (cases "get_most_recent_for_user s i")
      (auto simp: issue_challenge_def create_challenge_def id act_return_def act_raise_def Let_def split: if_splits)
qed

lemma guess_ok_issued:
  assumes "guess_ok cfg (s, now)" "now \<le> later" "issue_challenge sha cfg sms draw test i later s = (r, t)"
  shows "guess_ok cfg (t, later)"
  using issue_cases [OF assms(3)]
proof (elim disjE conjE)
  assume "t = s"
  with guess_ok_tables [OF assms(1) guess_ok_users [OF assms(1)] assms(2)] show ?thesis by simp
next
  assume t: "t = s\<lparr>authentication_challenges := authentication_challenges s @ [new_challenge sha cfg draw i later]\<rparr>"
    and fresh: "\<not> exists_where (\<lambda>x. ac_id x = dr_challenge_id draw) (authentication_challenges s)"
    and free: "\<forall>r. get_most_recent_for_user s i = Some r \<longrightarrow> ac_created_at r + as_resend_cooldown cfg \<le> later"
      "count_created_since s i (later - microsecond_day) < as_daily_limit cfg"
  have g: "auth_ok s" "issued_ok cfg now (authentication_challenges s)" "int (length (auth_sessions s)) \<le> codes_used s"
    using assms(1) by (simp_all add: guess_ok_def)
  have "auth_ok t" using g(1) fresh by (auto simp: t auth_ok_def users_ok_def new_challenge_def generate_otp_def Let_def)
  moreover have "codes_used t = codes_used s" by (simp add: t codes_used_def new_challenge_def generate_otp_def Let_def)
  ultimately show ?thesis
    using issued_ok_new [OF g(2) assms(2) free] g(3) by (simp add: guess_ok_def t)
qed

lemma request_keeps:
  assumes "guess_ok cfg (s, now)" "now \<le> later" "request_challenge sha cfg sms draw given later s = (r, t)"
  shows "guess_ok cfg (t, later)"
proof (cases "normalize_iranian_mobile given")
  case (Inl e)
  with assms guess_ok_tables [OF assms(1) guess_ok_users [OF assms(1)] assms(2)] show ?thesis
    by (auto simp: request_challenge_def act_raise_def)
next
  case (Inr phone)
  obtain a s1 where acc: "account_for (dr_user_id draw) phone later s = (a, s1)" by fastforce
  have s1: "guess_ok cfg (s1, later)"
    using account_cases [OF acc guess_ok_users [OF assms(1)]] by (intro guess_ok_tables [OF assms(1) _ assms(2)]) auto
  have s: "guess_ok cfg (s, later)" by (rule guess_ok_tables [OF assms(1) guess_ok_users [OF assms(1)] assms(2)]) simp_all
  show ?thesis
    using assms(3) Inr acc s s1 guess_ok_issued [OF s1 order_refl, of sha sms draw _ _ r t]
    by (auto simp: request_challenge_def act_raise_def act_return_def act_bind_def Let_def split: if_splits sum.splits option.splits)
qed

lemma verify_cases:
  assumes "auth_ok s" "verify_challenge sha cfg session_id token given code now s = (r, t)"
  shows "t = s \<or> (\<exists>u c. pending s given now u c \<and> t = with_challenge c charged_challenge s)
    \<or> (\<exists>u c. pending s given now u c \<and> (t = verified_state u now (with_challenge c (consumed_challenge now) s)
         \<or> t = signed_in_state sha cfg session_id token u c now s
           \<and> session_id \<notin> se_id ` set (auth_sessions s) \<and> hash_secret sha token \<notin> se_token_hash ` set (auth_sessions s)))"
proof -
  obtain a s1 where con: "consume_code sha given code now s = (a, s1)" by fastforce
  note cases = consume_code_cases [OF assms(1), where sha = sha and given = given and code = code and now = now, unfolded con prod.case]
  show ?thesis
  proof (cases a)
    case (Inl e)
    with con assms(2) have "t = s1" by (simp add: verify_challenge_def act_bind_Inl)
    with cases Inl show ?thesis by (auto split: if_splits)
  next
    case (Inr u)
    with cases obtain c where p: "pending s given now u c" "right_code sha code c"
      and s1: "s1 = with_challenge c (consumed_challenge now) s" by auto
    show ?thesis
    proof (cases "session_id \<notin> se_id ` set (auth_sessions s) \<and> hash_secret sha token \<notin> se_token_hash ` set (auth_sessions s)")
      case True
      with sign_in_result [OF assms(1) p, of session_id token cfg] assms(2) p(1) show ?thesis by auto
    next
      case False
      from p(1) obtain phone where "get_by_identifier s phone = Some u" by (auto simp: pending_def)
      with identifier_row [of s phone u] assms(1) obtain m where m: "user_row s (user_id u) = Some m" "u = user_from_model m"
        by (auto simp: auth_ok_def)
      have "users_ok s1" using auth_ok_consumed [OF assms(1)] by (simp add: s1 auth_ok_def)
      moreover have "user_row s1 (user_id u) = Some m" using m(1) by (simp add: s1 user_row_def)
      ultimately obtain v where v: "verified_user u now s1 = (Inr v, verified_state u now s1)"
        using verified_user_result [OF _ _ m(2), of s1 now] by blast
      have "auth_sessions s1 = auth_sessions s" by (simp add: s1)
      then have "t = verified_state u now s1"
        using assms(2) con Inr v False
        by (auto simp: verify_challenge_def act_bind_Inr create_session_def image_iff act_return_def split: if_splits)
      with p(1) s1 show ?thesis by blast
    qed
  qed
qed

lemma admin_verify_cases:
  assumes "auth_ok s" "verify_admin_challenge sha given code now s = (r, t)"
  shows "t = s \<or> (\<exists>u c. pending s given now u c \<and> t = with_challenge c charged_challenge s)
    \<or> (\<exists>u c. pending s given now u c \<and> right_code sha code c
         \<and> (t = with_challenge c (consumed_challenge now) s \<or> t = verified_state u now (with_challenge c (consumed_challenge now) s)))"
proof -
  obtain a s1 where con: "consume_code sha given code now s = (a, s1)" by fastforce
  note cases = consume_code_cases [OF assms(1), where sha = sha and given = given and code = code and now = now, unfolded con prod.case]
  show ?thesis
  proof (cases a)
    case (Inl e)
    with con assms(2) have "t = s1" by (simp add: verify_admin_challenge_def act_bind_Inl)
    with cases Inl show ?thesis by (auto split: if_splits)
  next
    case (Inr u)
    with cases obtain c where p: "pending s given now u c" "right_code sha code c"
      and s1: "s1 = with_challenge c (consumed_challenge now) s" by auto
    from p(1) obtain phone where "get_by_identifier s phone = Some u" by (auto simp: pending_def)
    with identifier_row [of s phone u] assms(1) obtain m where m: "user_row s (user_id u) = Some m" "u = user_from_model m"
      by (auto simp: auth_ok_def)
    have "users_ok s1" using auth_ok_consumed [OF assms(1)] by (simp add: s1 auth_ok_def)
    moreover have "user_row s1 (user_id u) = Some m" using m(1) by (simp add: s1 user_row_def)
    ultimately obtain v where "verified_user u now s1 = (Inr v, verified_state u now s1)"
      using verified_user_result [OF _ _ m(2), of s1 now] by blast
    with assms(2) con Inr have "t = s1 \<or> t = verified_state u now s1"
      by (auto simp: verify_admin_challenge_def act_bind_Inr act_raise_def split: if_splits)
    with p s1 show ?thesis by blast
  qed
qed

lemma guess_ok_verified: "guess_ok cfg (s, now) \<Longrightarrow> guess_ok cfg (verified_state u at_time s, now)"
proof -
  assume ok: "guess_ok cfg (s, now)"
  show ?thesis by (rule guess_ok_tables [OF ok users_ok_verified [OF guess_ok_users [OF ok]] order_refl]) simp_all
qed

lemma guess_ok_later: "guess_ok cfg (s, now) \<Longrightarrow> now \<le> later \<Longrightarrow> guess_ok cfg (s, later)"
  by (rule guess_ok_tables [OF _ guess_ok_users]) simp_all

lemma verify_keeps:
  assumes "guess_ok cfg (s, now)" "now \<le> later" "verify_challenge sha cfg session_id token given code later s = (r, t)"
  shows "guess_ok cfg (t, later)"
proof -
  have ok: "auth_ok s" using assms(1) by (simp add: guess_ok_def)
  from verify_cases [OF ok assms(3)] show ?thesis
  proof (elim disjE exE conjE)
    assume "t = s"
    with guess_ok_tables [OF assms(1) guess_ok_users [OF assms(1)] assms(2)] show ?thesis by simp
  next
    fix u c assume "pending s given later u c" "t = with_challenge c charged_challenge s"
    with guess_ok_charged [OF assms(1,2)] show ?thesis by blast
  next
    fix u c assume "pending s given later u c" "t = verified_state u later (with_challenge c (consumed_challenge later) s)"
    with guess_ok_consumed [OF assms(1,2)] guess_ok_verified show ?thesis by blast
  next
    fix u c assume p: "pending s given later u c" and t: "t = signed_in_state sha cfg session_id token u c later s"
      and fresh: "session_id \<notin> se_id ` set (auth_sessions s)" "hash_secret sha token \<notin> se_token_hash ` set (auth_sessions s)"
    let ?s1 = "verified_state u later (with_challenge c (consumed_challenge later) s)"
    have "guess_ok cfg (?s1, later)" "int (length (auth_sessions s)) + 1 \<le> codes_used ?s1"
      using guess_ok_consumed [OF assms(1,2) p] guess_ok_verified by (auto simp: codes_used_def)
    then show ?thesis
      using auth_ok_signed_in [OF ok fresh, of cfg u c later] by (simp add: t guess_ok_def signed_in_state_def codes_used_def)
  qed
qed

lemma admin_verify_keeps:
  assumes "guess_ok cfg (s, now)" "now \<le> later" "verify_admin_challenge sha given code later s = (r, t)"
  shows "guess_ok cfg (t, later)"
proof -
  have ok: "auth_ok s" using assms(1) by (simp add: guess_ok_def)
  from admin_verify_cases [OF ok assms(3)] show ?thesis
  proof (elim disjE exE conjE)
    assume "t = s"
    with guess_ok_tables [OF assms(1) guess_ok_users [OF assms(1)] assms(2)] show ?thesis by simp
  next
    fix u c assume "pending s given later u c" "t = with_challenge c charged_challenge s"
    with guess_ok_charged [OF assms(1,2)] show ?thesis by blast
  next
    fix u c assume "pending s given later u c" "t = with_challenge c (consumed_challenge later) s"
    with guess_ok_consumed [OF assms(1,2)] show ?thesis by blast
  next
    fix u c assume "pending s given later u c" "t = verified_state u later (with_challenge c (consumed_challenge later) s)"
    with guess_ok_consumed [OF assms(1,2)] guess_ok_verified show ?thesis by blast
  qed
qed

section \<open>Sessions over a run\<close>

text \<open>Sessions are never removed or handed to another token, and a revoked one stays revoked.\<close>

definition sessions_kept :: "SessionModel list \<Rightarrow> SessionModel list \<Rightarrow> bool" where
  "sessions_kept xs ys \<longleftrightarrow> (\<forall>x \<in> set xs. \<exists>y \<in> set ys. se_token_hash y = se_token_hash x \<and> se_id y = se_id x
     \<and> se_user_id y = se_user_id x \<and> (se_revoked_at x \<noteq> None \<longrightarrow> se_revoked_at y \<noteq> None))"

lemma sessions_kept_refl: "sessions_kept xs xs"
  by (auto simp: sessions_kept_def)

lemma sessions_kept_append: "sessions_kept xs (xs @ ys)"
  by (auto simp: sessions_kept_def)

lemma sessions_kept_update:
  assumes "\<And>x. se_token_hash (f x) = se_token_hash x \<and> se_id (f x) = se_id x \<and> se_user_id (f x) = se_user_id x
    \<and> (se_revoked_at x \<noteq> None \<longrightarrow> se_revoked_at (f x) \<noteq> None)"
  shows "sessions_kept xs (update_where p f xs)"
  unfolding sessions_kept_def
proof
  fix x assume "x \<in> set xs"
  then have "(if p x then f x else x) \<in> set (update_where p f xs)" by (auto simp: update_where_def)
  with assms [of x] show "\<exists>y \<in> set (update_where p f xs). se_token_hash y = se_token_hash x \<and> se_id y = se_id x
      \<and> se_user_id y = se_user_id x \<and> (se_revoked_at x \<noteq> None \<longrightarrow> se_revoked_at y \<noteq> None)"
    by (metis (full_types))
qed

lemma current_user_state:
  assumes "get_current_user sha token now s = (r, t)"
  shows "t = s \<or> (\<exists>x. t = s\<lparr>auth_sessions := update_where (\<lambda>y. se_id y = x) (\<lambda>y. y\<lparr>se_last_used_at := Some now\<rparr>) (auth_sessions s)\<rparr>)"
  using assms
  by (auto simp: get_current_user_def touch_session_def act_raise_def act_return_def split: if_splits option.splits)

lemma logout_state:
  assumes "logout sha token now s = (r, t)"
  shows "t = s \<or> (\<exists>h. t = s\<lparr>auth_sessions := update_where (\<lambda>x. se_token_hash x = h \<and> se_revoked_at x = None)
       (\<lambda>x. x\<lparr>se_revoked_at := Some now\<rparr>) (auth_sessions s)\<rparr>)"
  using assms by (auto simp: logout_def revoke_by_token_hash_def act_write_def act_return_def split: if_splits)

lemma guess_ok_sessions:
  assumes "guess_ok cfg (s, now)" "now \<le> later"
    and "\<And>x. se_token_hash (f x) = se_token_hash x \<and> se_id (f x) = se_id x"
  shows "guess_ok cfg (s\<lparr>auth_sessions := update_where p f (auth_sessions s)\<rparr>, later)"
proof -
  have "map se_id (update_where p f (auth_sessions s)) = map se_id (auth_sessions s)"
    "map se_token_hash (update_where p f (auth_sessions s)) = map se_token_hash (auth_sessions s)"
    using assms(3) by (intro map_update_where_same; simp)+
  then have "auth_ok (s\<lparr>auth_sessions := update_where p f (auth_sessions s)\<rparr>)"
    "length (update_where p f (auth_sessions s)) = length (auth_sessions s)"
    using assms(1) users_ok_same [of "s\<lparr>auth_sessions := update_where p f (auth_sessions s)\<rparr>" s]
    by (simp_all add: guess_ok_def auth_ok_def)
  moreover have "guess_ok cfg (s, later)" by (rule guess_ok_later [OF assms(1,2)])
  ultimately show ?thesis by (simp add: guess_ok_def codes_used_def)
qed

lemma admin_request_cases:
  assumes "request_admin_challenge sha cfg sms draw given now s = (r, t)"
  shows "t = s \<or> (\<exists>phone q. request_challenge sha cfg sms draw phone now s = (q, t))"
proof (cases "normalize_iranian_mobile given")
  case (Inl e)
  with assms show ?thesis by (simp add: request_admin_challenge_def act_raise_def)
next
  case (Inr phone)
  have "request_admin_challenge sha cfg sms draw given now s =
      (if is_active_admin (get_by_identifier s phone) then request_challenge sha cfg sms draw phone now s
       else (Inr (request_result cfg), s))"
    by (simp add: request_admin_challenge_def Inr act_return_def)
  with assms show ?thesis by (simp split: if_splits) blast
qed

lemma sign_in_step_keeps:
  assumes "sign_in_step sha cfg st st'" "guess_ok cfg st"
  shows "guess_ok cfg st'"
  using assms
proof (induction rule: sign_in_step.induct)
  case (request_step now later sms draw given s r t)
  show ?case by (rule request_keeps [OF request_step(3,1,2)])
next
  case (admin_request_step now later sms draw given s r t)
  have "t = s \<or> (\<exists>phone q. request_challenge sha cfg sms draw phone later s = (q, t))"
    by (rule admin_request_cases [OF admin_request_step(2)])
  then show ?case
  proof (elim disjE exE)
    assume "t = s"
    then show ?thesis using guess_ok_later [OF admin_request_step(3,1)] by simp
  next
    fix phone q assume "request_challenge sha cfg sms draw phone later s = (q, t)"
    then show ?thesis by (rule request_keeps [OF admin_request_step(3,1)])
  qed
next
  case (verify_step now later session_id token given code s v t)
  show ?case by (rule verify_keeps [OF verify_step(3,1,2)])
next
  case (admin_verify_step now later given code s u t)
  show ?case by (rule admin_verify_keeps [OF admin_verify_step(3,1,2)])
next
  case (current_step now later given_token s u t)
  with current_user_state [OF current_step(2)] show ?case
    using guess_ok_later [OF current_step(3,1)] guess_ok_sessions [OF current_step(3,1)] by (elim disjE exE) simp_all
next
  case (logout_step now later given_token s x t)
  with logout_state [OF logout_step(2)] show ?case
    using guess_ok_later [OF logout_step(3,1)] guess_ok_sessions [OF logout_step(3,1)] by (elim disjE exE) simp_all
qed

lemma sign_in_run_keeps:
  assumes "(sign_in_step sha cfg)\<^sup>*\<^sup>* st st'" "guess_ok cfg st"
  shows "guess_ok cfg st'"
  using assms(1)
proof (induction rule: rtranclp_induct)
  case base
  show ?case by (rule assms(2))
next
  case (step st1 st2)
  from step(2,3) show ?case by (rule sign_in_step_keeps)
qed

lemma logout_revokes:
  assumes "hash_secret sha token \<in> se_token_hash ` set (auth_sessions s)" "logout sha (Some token) now s = (Inr (), t)" "token \<noteq> []"
  shows "\<exists>y \<in> set (auth_sessions t). se_token_hash y = hash_secret sha token \<and> se_revoked_at y \<noteq> None"
proof -
  let ?p = "\<lambda>x. se_token_hash x = hash_secret sha token \<and> se_revoked_at x = None"
    and ?f = "\<lambda>x. x\<lparr>se_revoked_at := Some now\<rparr>"
  from assms(1) obtain x where x: "x \<in> set (auth_sessions s)" "se_token_hash x = hash_secret sha token" by auto
  have "auth_sessions t = update_where ?p ?f (auth_sessions s)"
    using assms(2,3) by (auto simp: logout_def revoke_by_token_hash_def act_write_def)
  with x(1) have "(if ?p x then ?f x else x) \<in> set (auth_sessions t)" by (simp add: update_where_def)
  then show ?thesis by (rule rev_bexI) (use x(2) in auto)
qed

lemma start_ok:
  "users_ok s \<Longrightarrow> authentication_challenges s = [] \<Longrightarrow> auth_sessions s = [] \<Longrightarrow> guess_ok cfg (s, now)"
  by (simp add: guess_ok_def auth_ok_def issued_ok_def codes_used_def)

text \<open>
  C10: guessing is bounded. Starting from no codes and no sessions, however codes are asked for, guessed
  and used: no code is tried more often than the limit; in any 24 hours a player gets no more codes than
  the daily limit, hence no more wrong guesses than the product of the two limits; two codes of a player
  are the cooldown apart; and every session was paid for with a code of its own.
\<close>

theorem codes_and_guesses_bounded:
  assumes "users_ok s" "authentication_challenges s = []" "auth_sessions s = []"
    and "(sign_in_step sha cfg)\<^sup>*\<^sup>* (s, now) (t, later)"
  shows "(\<forall>c \<in> set (authentication_challenges t). 0 \<le> ac_attempts c \<and> ac_attempts c \<le> max 0 (as_max_verification_attempts cfg))
    \<and> int (length (codes_within t i x)) \<le> max 0 (as_daily_limit cfg)
    \<and> sum_list (map ac_attempts (codes_within t i x)) \<le> max 0 (as_daily_limit cfg) * max 0 (as_max_verification_attempts cfg)
    \<and> sorted_wrt (\<lambda>a b. ac_user_id a = ac_user_id b \<longrightarrow> ac_created_at a + as_resend_cooldown cfg \<le> ac_created_at b)
      (authentication_challenges t)
    \<and> int (length (auth_sessions t)) \<le> codes_used t"
proof -
  from sign_in_run_keeps [OF assms(4) start_ok [OF assms(1-3)]]
  have ok: "auth_ok t" "issued_ok cfg later (authentication_challenges t)" and used: "int (length (auth_sessions t)) \<le> codes_used t"
    by (simp_all add: guess_ok_def)
  have tries: "\<forall>c \<in> set (authentication_challenges t). 0 \<le> ac_attempts c \<and> ac_attempts c \<le> max 0 (as_max_verification_attempts cfg)"
    using ok by (auto simp: auth_ok_def issued_ok_def)
  have codes: "int (length (codes_within t i x)) \<le> max 0 (as_daily_limit cfg)"
    using ok(2) by (simp add: issued_ok_def codes_within_def count_where_def)
  have "sum_list (map ac_attempts (codes_within t i x))
      \<le> sum_list (map (\<lambda>_. max 0 (as_max_verification_attempts cfg)) (codes_within t i x))"
    using tries by (intro sum_list_mono) (simp add: codes_within_def)
  also have "\<dots> = int (length (codes_within t i x)) * max 0 (as_max_verification_attempts cfg)"
    by (simp add: sum_list_triv)
  also have "\<dots> \<le> max 0 (as_daily_limit cfg) * max 0 (as_max_verification_attempts cfg)"
    using codes by (intro mult_right_mono) simp_all
  finally have guesses: "sum_list (map ac_attempts (codes_within t i x))
      \<le> max 0 (as_daily_limit cfg) * max 0 (as_max_verification_attempts cfg)" .
  with tries codes used ok(2) show ?thesis unfolding issued_ok_def by blast
qed

lemma sessions_kept_trans: "sessions_kept xs ys \<Longrightarrow> sessions_kept ys zs \<Longrightarrow> sessions_kept xs zs"
  unfolding sessions_kept_def by metis

lemma request_sessions:
  assumes "request_challenge sha cfg sms draw given now s = (r, t)" "users_ok s"
  shows "auth_sessions t = auth_sessions s"
proof (cases "normalize_iranian_mobile given")
  case (Inl e)
  with assms(1) show ?thesis by (simp add: request_challenge_def act_raise_def)
next
  case (Inr phone)
  obtain a s1 where acc: "account_for (dr_user_id draw) phone now s = (a, s1)" by fastforce
  have s1: "auth_sessions s1 = auth_sessions s" using account_cases [OF acc assms(2)] by simp
  have issued: "auth_sessions t = auth_sessions s1" if "issue_challenge sha cfg sms draw b i now s1 = (r, t)" for b i
    using issue_cases [OF that] by auto
  show ?thesis
    using assms(1) Inr acc s1 issued
    by (auto simp: request_challenge_def act_raise_def act_return_def act_bind_def Let_def split: if_splits sum.splits option.splits)
qed

lemma sessions_kept_step:
  assumes "sign_in_step sha cfg st st'" "auth_ok (fst st)"
  shows "sessions_kept (auth_sessions (fst st)) (auth_sessions (fst st'))"
  using assms
proof (induction rule: sign_in_step.induct)
  case (request_step now later sms draw given s r t)
  have "users_ok s" using request_step(3) by (simp add: auth_ok_def)
  with request_sessions [OF request_step(2)] show ?case by (simp add: sessions_kept_refl)
next
  case (admin_request_step now later sms draw given s r t)
  have "users_ok s" using admin_request_step(3) by (simp add: auth_ok_def)
  with admin_request_cases [OF admin_request_step(2)] request_sessions have "auth_sessions t = auth_sessions s" by blast
  then show ?case by (simp add: sessions_kept_refl)
next
  case (verify_step now later session_id token given code s v t)
  have "auth_ok s" using verify_step(3) by simp
  from verify_cases [OF this verify_step(2)] show ?case
    by (elim disjE exE conjE) (simp_all add: sessions_kept_refl sessions_kept_append signed_in_state_def)
next
  case (admin_verify_step now later given code s u t)
  have "auth_ok s" using admin_verify_step(3) by simp
  from admin_verify_cases [OF this admin_verify_step(2)] show ?case
    by (elim disjE exE conjE) (simp_all add: sessions_kept_refl)
next
  case (current_step now later given_token s u t)
  from current_user_state [OF current_step(2)] show ?case
    by (elim disjE exE) (simp_all add: sessions_kept_refl sessions_kept_update)
next
  case (logout_step now later given_token s x t)
  from logout_state [OF logout_step(2)] show ?case
    by (elim disjE exE) (simp_all add: sessions_kept_refl sessions_kept_update)
qed

lemma sessions_kept_run:
  assumes "(sign_in_step sha cfg)\<^sup>*\<^sup>* st st'" "guess_ok cfg st"
  shows "sessions_kept (auth_sessions (fst st)) (auth_sessions (fst st'))"
  using assms(1)
proof (induction rule: rtranclp_induct)
  case base
  show ?case by (rule sessions_kept_refl)
next
  case (step st1 st2)
  have "guess_ok cfg st1" by (rule sign_in_run_keeps [OF step(1) assms(2)])
  then have "auth_ok (fst st1)" by (auto simp: guess_ok_def split: prod.splits)
  from sessions_kept_trans [OF step(3) sessions_kept_step [OF step(2) this]] show ?case .
qed

text \<open>
  C11: a session ends for good. Once a session's token has been used to sign out, no call made with it
  later in any run is answered with a player, and the other sessions that were there are still there.
\<close>

theorem session_ends_for_good:
  assumes "users_ok s0" "authentication_challenges s0 = []" "auth_sessions s0 = []"
    and "(sign_in_step sha cfg)\<^sup>*\<^sup>* (s0, start) (s, now)" "hash_secret sha token \<in> se_token_hash ` set (auth_sessions s)"
    and "now \<le> now'" "logout sha (Some token) now' s = (Inr (), t)"
    and "(sign_in_step sha cfg)\<^sup>*\<^sup>* (t, now') (u, later)"
  shows "get_current_user sha (Some token) any_time u = (Inl (Raised AUTHENTICATION_REQUIRED), u)
    \<and> sessions_kept (auth_sessions s) (auth_sessions u)"
proof -
  have s: "guess_ok cfg (s, now)" by (rule sign_in_run_keeps [OF assms(4) start_ok [OF assms(1-3)]])
  have out: "sign_in_step sha cfg (s, now) (t, now')" by (rule logout_step [OF assms(6,7)])
  from sign_in_step_keeps [OF out s] have t: "guess_ok cfg (t, now')" .
  from sign_in_run_keeps [OF assms(8) t] have u: "auth_ok u" by (simp add: guess_ok_def)
  have "sessions_kept (auth_sessions s) (auth_sessions t)" "sessions_kept (auth_sessions t) (auth_sessions u)"
    using sessions_kept_step [OF out] s sessions_kept_run [OF assms(8) t] by (simp_all add: guess_ok_def)
  note kept = sessions_kept_trans [OF this] this(2)
  have "get_current_user sha (Some token) any_time u = (Inl (Raised AUTHENTICATION_REQUIRED), u)"
  proof (cases "token = []")
    case True
    then show ?thesis by (simp add: get_current_user_def act_raise_def)
  next
    case False
    have ended: "\<exists>y \<in> set (auth_sessions t). se_token_hash y = hash_secret sha token \<and> se_revoked_at y \<noteq> None"
      by (rule logout_revokes [OF assms(5,7) False])
    then obtain y where y: "y \<in> set (auth_sessions u)" "se_token_hash y = hash_secret sha token" "se_revoked_at y \<noteq> None"
      using kept(2) unfolding sessions_kept_def by metis
    with active_session [OF u y(1), of any_time] False show ?thesis by (simp add: get_current_user_def act_raise_def)
  qed
  with kept(1) show ?thesis by simp
qed

definition asking :: challenge_draw where
  "asking = \<lparr>dr_user_id = 7, dr_challenge_id = 4, dr_number = 123456, dr_salt = ''salt''\<rparr>"

lemma sent_code_issued: "new_challenge toy_sha otp_settings asking 1 0 = sent_code"
proof -
  have six: "CODE_LENGTH = Suc (Suc (Suc (Suc (Suc (Suc 0)))))" by (simp add: CODE_LENGTH_def)
  have "pad_dec CODE_LENGTH 123456 = ''123456''" unfolding six by (simp add: pad_dec_def digit_char_def)
  then show ?thesis
    by (simp add: new_challenge_def generate_otp_def asking_def sent_code_def otp_settings_def Let_def del: cp_Cons)
qed

lemma waiting_reached: "sign_in_step toy_sha otp_settings (one_user, 0) (waiting, 0)"
proof (rule request_step [OF order_refl])
  have phone: "normalize_iranian_mobile (cp ''09123456789'') = Inr (cp ''+989123456789'')"
    by (simp add: normalize_iranian_mobile_def clean_phone_def is_decimal_ascii strip_country_def
       COUNTRY_PREFIXES_def starts_with_def is_subscriber_def)
  have known: "has_known_mobile_prefix (cp ''+989123456789'')"
    by (simp add: has_known_mobile_prefix_def remove_prefix_def starts_with_def is_decimal_ascii decimal_value_ascii
       undigs_def KNOWN_MOBILE_PREFIXES_def)
  have user: "get_by_identifier one_user (cp ''+989123456789'') = Some (user_from_model adult_user)"
    by (simp add: get_by_identifier_def one_user_def adult_user_def)
  have cfg: "as_daily_limit otp_settings = 5" "ac_user_id sent_code = 1" "as_allowed_phones otp_settings = []"
    "as_test_numbers_enabled otp_settings = False" by (simp_all add: otp_settings_def sent_code_def)
  have "issue_challenge toy_sha otp_settings True asking False 1 0 one_user = (Inr (request_result otp_settings), waiting)"
    by (simp add: issue_challenge_def create_challenge_def sent_code_issued act_return_def user_exists_def count_created_since_def
        get_most_recent_for_user_def cfg waiting_def one_user_def adult_user_def empty_database_def order_desc_def)
  then show "request_challenge toy_sha otp_settings True asking (cp ''09123456789'') 0 one_user
      = (Inr (request_result otp_settings), waiting)"
    by (simp add: request_challenge_def phone known account_for_def user cfg act_bind_def act_return_def act_read_def del: cp_Cons)
      (simp add: adult_user_def)
qed

text \<open>A whole run: a code is sent and used, the session signs out, and later the token is tried again.\<close>

definition signed_in :: database where
  "signed_in = signed_in_state toy_sha otp_settings 8 (cp ''token'') (user_from_model adult_user) sent_code 1 waiting"

lemma signed_in_reached: "sign_in_step toy_sha otp_settings (waiting, 0) (signed_in, 1)"
proof -
  have "right_code toy_sha (cp ''123456'') sent_code" by (simp add: right_code_def sent_code_def)
  from sign_in_result [OF waiting_ok(1) waiting_pending this, of 8 "cp ''token''" otp_settings]
  obtain v where "verify_challenge toy_sha otp_settings 8 (cp ''token'') (cp ''09123456789'') (cp ''123456'') 1 waiting
      = (Inr v, signed_in)" by (auto simp: waiting_ok(2) signed_in_def simp del: cp_Cons)
  then show ?thesis by (rule verify_step [rotated]) simp
qed

lemma one_user_start: "users_ok one_user" "authentication_challenges one_user = []" "auth_sessions one_user = []"
  by (simp_all add: users_ok_def one_user_def empty_database_def)

theorem codes_and_guesses_bounded_witness:
  "codes_within signed_in 1 0 \<noteq> [] \<and> sum_list (map ac_attempts (codes_within signed_in 1 0)) \<le> 15"
proof -
  have "(sign_in_step toy_sha otp_settings)\<^sup>*\<^sup>* (one_user, 0) (signed_in, 1)"
    using waiting_reached signed_in_reached by (rule converse_rtranclp_into_rtranclp [OF _ r_into_rtranclp])
  from codes_and_guesses_bounded [OF one_user_start this, of 1 0]
  have "sum_list (map ac_attempts (codes_within signed_in 1 0)) \<le> 15" by (simp add: otp_settings_def)
  moreover have "codes_within signed_in 1 0 \<noteq> []"
    by (simp add: codes_within_def signed_in_def signed_in_state_def with_challenge_def update_challenges_def waiting_def
        sent_code_def consumed_challenge_def microsecond_day_def)
  ultimately show ?thesis by simp
qed

theorem session_ends_for_good_witness:
  "\<exists>t. logout toy_sha (Some (cp ''token'')) 2 signed_in = (Inr (), t)
     \<and> get_current_user toy_sha (Some (cp ''token'')) 3 t = (Inl (Raised AUTHENTICATION_REQUIRED), t)
     \<and> sessions_kept (auth_sessions signed_in) (auth_sessions t)"
proof -
  have run: "(sign_in_step toy_sha otp_settings)\<^sup>*\<^sup>* (one_user, 0) (signed_in, 1)"
    using waiting_reached signed_in_reached by (rule converse_rtranclp_into_rtranclp [OF _ r_into_rtranclp])
  have there: "hash_secret toy_sha (cp ''token'') \<in> se_token_hash ` set (auth_sessions signed_in)"
    by (simp add: signed_in_def signed_in_state_def session_row_def del: cp_Cons)
  obtain t where out: "logout toy_sha (Some (cp ''token'')) 2 signed_in = (Inr (), t)"
    by (simp add: logout_def revoke_by_token_hash_def act_write_def)
  show ?thesis
    using session_ends_for_good [OF one_user_start run there _ out rtranclp.rtrancl_refl, of 3] out by auto
qed

end
