(* ===== verification/Second_Factor.thy ===== *)
theory Second_Factor
  imports Sign_In
begin

text \<open>
  The second factor of an admin over a run of enrolment, confirmation, checking and reset calls.
\<close>

definition confirmed_factor :: "cipher \<Rightarrow> database \<Rightarrow> uuid \<Rightarrow> pystr \<Rightarrow> bool" where
  "confirmed_factor ci s i secret \<longleftrightarrow> (\<exists>u x. user_row s i = Some u \<and> u_totp_secret_encrypted u = Some x
     \<and> decrypt ci x = Some secret \<and> u_totp_confirmed_at u \<noteq> None)"

text \<open>The calls, by anyone, for anyone; a reset by the command line names another number than \<open>own\<close>.\<close>

inductive second_factor_step :: "cipher \<Rightarrow> mac \<Rightarrow> unicode \<Rightarrow> pystr \<Rightarrow> database \<Rightarrow> database \<Rightarrow> bool"
  for ci mac ud own where
  begin_step: "begin_admin_totp_enrollment ci random j now s = (r, t) \<Longrightarrow> second_factor_step ci mac ud own s t"
| confirm_step: "confirm_admin_totp_enrollment ci mac ud j code at_time now s = (x, t) \<Longrightarrow> second_factor_step ci mac ud own s t"
| check_step: "verify_admin_totp ci mac ud j code at_time s = (x, t) \<Longrightarrow> second_factor_step ci mac ud own s t"
| reset_step: "given \<noteq> own \<Longrightarrow> reset_admin_totp given s = (b, t) \<Longrightarrow> second_factor_step ci mac ud own s t"

lemma totp_get_confirmed:
  assumes "confirmed_factor ci s i secret"
  shows "\<exists>r. totp_get ci i s = (Inr (Some r), s) \<and> tr_secret r = secret \<and> tr_confirmed_at r \<noteq> None"
  using assms by (auto simp: confirmed_factor_def totp_get_def)

lemma totp_get_state: "totp_get ci i s = (r, t) \<Longrightarrow> t = s"
  by (auto simp: totp_get_def split: option.splits)

lemma check_totp_state: "check_totp mac ud secret code at_time s = (r, t) \<Longrightarrow> t = s"
  by (auto simp: check_totp_def act_defs split: sum.splits raised.splits TotpError.splits if_splits)

lemma begin_cases:
  assumes "begin_admin_totp_enrollment ci random j now s = (r, t)"
  shows "t = s \<or> (totp_get ci j s = (Inr None :: AuthError raised + AdminTotpRecord option, s)
     \<and> t = update_user j (\<lambda>u. u\<lparr>u_totp_secret_encrypted := Some (encrypt ci (generate_secret random)), u_totp_confirmed_at := None,
         u_updated_at := now\<rparr>) s)"
proof (cases "is_active_admin (get_by_id s j)")
  case False
  with assms show ?thesis by (simp add: begin_admin_totp_enrollment_def act_raise_def)
next
  case True
  obtain a t' where get: "totp_get ci j s = (a :: AuthError raised + AdminTotpRecord option, t')" by fastforce
  from totp_get_state [OF this] get have get: "totp_get ci j s = (a :: AuthError raised + AdminTotpRecord option, s)" by simp
  show ?thesis
  proof (cases a)
    case (Inl e)
    with assms True get show ?thesis by (simp add: begin_admin_totp_enrollment_def act_bind_Inl)
  next
    case (Inr found)
    with assms True get show ?thesis
      by (cases found)
        (auto simp: begin_admin_totp_enrollment_def act_bind_Inr totp_save_pending_def act_raise_def act_return_def split: if_splits)
  qed
qed

lemma confirm_cases:
  assumes "confirm_admin_totp_enrollment ci mac ud j code at_time now s = (r, t)"
  shows "t = s \<or> (\<exists>x. totp_get ci j s = (Inr (Some x) :: AuthError raised + AdminTotpRecord option, s) \<and> tr_confirmed_at x = None
     \<and> verify_code mac ud (tr_secret x) code at_time 1 = Inr True
     \<and> t = update_user j (\<lambda>u. u\<lparr>u_totp_confirmed_at := Some now, u_updated_at := now\<rparr>) s)"
proof -
  obtain a t' where get: "totp_get ci j s = (a :: AuthError raised + AdminTotpRecord option, t')" by fastforce
  from totp_get_state [OF this] get have get: "totp_get ci j s = (a :: AuthError raised + AdminTotpRecord option, s)" by simp
  consider e where "a = Inl e" | "a = Inr None" | x where "a = Inr (Some x)" by (metis not_None_eq sum.exhaust)
  then show ?thesis
  proof cases
    case (3 x)
    show ?thesis
    proof (cases "tr_confirmed_at x")
      case (Some y)
      with 3 get assms show ?thesis by (simp add: confirm_admin_totp_enrollment_def act_bind_Inr act_raise_def)
    next
      case None
      obtain c t' where check: "check_totp mac ud (tr_secret x) code at_time s = (c, t')" by fastforce
      note same = check_totp_state [OF this]
      have out: "act_bind (check_totp mac ud (tr_secret x) code at_time) (\<lambda>_. totp_confirm j now) s = (r, t)"
        using assms 3 get None by (simp add: confirm_admin_totp_enrollment_def act_bind_Inr)
      show ?thesis
      proof (cases c)
        case (Inl e)
        with out check same show ?thesis by (simp add: act_bind_Inl)
      next
        case (Inr v)
        then have "verify_code mac ud (tr_secret x) code at_time 1 = Inr True"
          using check by (auto simp: check_totp_def act_defs split: sum.splits raised.splits TotpError.splits if_splits)
        with out check same Inr 3 get None show ?thesis
          by (auto simp: act_bind_Inr totp_confirm_def act_insert_def split: if_splits)
      qed
    qed
  qed (use assms get in \<open>simp_all add: confirm_admin_totp_enrollment_def act_bind_Inl act_bind_Inr act_raise_def\<close>)
qed

lemma reset_cases:
  assumes "reset_admin_totp given s = (b, t)"
  shows "t = s \<or> (\<exists>u. get_by_identifier s given = Some u
     \<and> t = update_user (user_id u) (\<lambda>u. u\<lparr>u_totp_secret_encrypted := None, u_totp_confirmed_at := None\<rparr>) s)"
  using assms
  by (cases "get_by_identifier s given") (auto simp: reset_admin_totp_def totp_clear_def act_return_def)

text \<open>What a step must leave alone: the factor of the account with the identifier \<open>own\<close>.\<close>

definition factor_of :: "database \<Rightarrow> uuid \<Rightarrow> (string option \<times> instant option) option" where
  "factor_of s i = map_option (\<lambda>u. (u_totp_secret_encrypted u, u_totp_confirmed_at u)) (user_row s i)"

lemma factor_of_update:
  "(\<And>u. u_id (f u) = u_id u) \<Longrightarrow> j \<noteq> i \<Longrightarrow> factor_of (update_user j f s) i = factor_of s i"
  by (simp add: factor_of_def user_row_update)

definition protected :: "cipher \<Rightarrow> pystr \<Rightarrow> uuid \<Rightarrow> pystr \<Rightarrow> database \<Rightarrow> bool" where
  "protected ci own i secret s \<longleftrightarrow> users_ok s \<and> confirmed_factor ci s i secret
     \<and> map_option u_identifier (user_row s i) = Some own"

lemma protected_update:
  assumes "protected ci own i secret s" "j \<noteq> i"
    and "\<And>u. u_id (f u) = u_id u \<and> u_identifier (f u) = u_identifier u \<and> u_nickname_key (f u) = u_nickname_key u"
  shows "protected ci own i secret (update_user j f s) \<and> factor_of (update_user j f s) i = factor_of s i"
proof -
  have "user_row (update_user j f s) i = user_row s i" using assms(2,3) by (simp add: user_row_update)
  with assms(1) users_ok_update [of s f j, OF _ assms(3)] show ?thesis
    by (simp add: protected_def confirmed_factor_def factor_of_def)
qed

lemma second_factor_step_spares:
  assumes "second_factor_step ci mac ud own s t" "protected ci own i secret s"
  shows "protected ci own i secret t \<and> factor_of t i = factor_of s i"
  using assms
proof (induction rule: second_factor_step.induct)
  case (begin_step random j now s r t)
  from totp_get_confirmed [of ci s i secret] begin_step(2) obtain x where
    x: "totp_get ci i s = (Inr (Some x) :: AuthError raised + AdminTotpRecord option, s)" by (auto simp: protected_def)
  from begin_cases [OF begin_step(1)] show ?case
  proof (elim disjE conjE)
    assume "totp_get ci j s = (Inr None :: AuthError raised + AdminTotpRecord option, s)"
      and t: "t = update_user j (\<lambda>u. u\<lparr>u_totp_secret_encrypted := Some (encrypt ci (generate_secret random)), u_totp_confirmed_at := None,
         u_updated_at := now\<rparr>) s"
    with x have "j \<noteq> i" by auto
    from protected_update [OF begin_step(2) this] show ?thesis by (simp add: t)
  qed (use begin_step(2) in simp)
next
  case (confirm_step j code at_time now s x t)
  from totp_get_confirmed [of ci s i secret] confirm_step(2) obtain y where
    y: "totp_get ci i s = (Inr (Some y) :: AuthError raised + AdminTotpRecord option, s)" "tr_confirmed_at y \<noteq> None"
    by (auto simp: protected_def)
  from confirm_cases [OF confirm_step(1)] show ?case
  proof (elim disjE exE conjE)
    fix z assume "totp_get ci j s = (Inr (Some z) :: AuthError raised + AdminTotpRecord option, s)" "tr_confirmed_at z = None"
      and t: "t = update_user j (\<lambda>u. u\<lparr>u_totp_confirmed_at := Some now, u_updated_at := now\<rparr>) s"
    with y have "j \<noteq> i" by auto
    from protected_update [OF confirm_step(2) this] show ?thesis by (simp add: t)
  qed (use confirm_step(2) in simp)
next
  case (check_step j code at_time s x t)
  obtain a t' where get: "totp_get ci j s = (a :: AuthError raised + AdminTotpRecord option, t')" by fastforce
  from totp_get_state [OF this] get have get: "totp_get ci j s = (a :: AuthError raised + AdminTotpRecord option, s)" by simp
  have "t = s"
    using check_step(1) get check_totp_state
    by (cases a) (auto simp: verify_admin_totp_def act_bind_Inl act_bind_Inr act_raise_def split: option.splits if_splits)
  with check_step(2) show ?case by simp
next
  case (reset_step given s b t)
  from reset_cases [OF reset_step(2)] show ?case
  proof (elim disjE exE conjE)
    fix u assume u: "get_by_identifier s given = Some u"
      and t: "t = update_user (user_id u) (\<lambda>u. u\<lparr>u_totp_secret_encrypted := None, u_totp_confirmed_at := None\<rparr>) s"
    have "user_id u \<noteq> i"
    proof
      assume same: "user_id u = i"
      from reset_step(3) identifier_row [OF _ u] obtain m where "user_row s i = Some m" "u = user_from_model m"
        by (auto simp: protected_def same)
      moreover have "user_identifier u = given" using u by (auto simp: get_by_identifier_def dest!: select_one_Some)
      ultimately show False using reset_step(1,3) by (simp add: protected_def)
    qed
    from protected_update [OF reset_step(3) this] show ?thesis by (simp add: t)
  qed (use reset_step(3) in simp)
qed

text \<open>
  C12: a second factor cannot be swapped. Once an admin has confirmed a secret, no run of enrolments,
  confirmations and checks by anyone, nor a reset of another account, changes it or its confirmation:
  enrolling again is refused, confirming again is refused, and a check is always against that secret.
\<close>

theorem totp_never_swapped:
  assumes "users_ok s" "confirmed_factor ci s i secret" "map_option u_identifier (user_row s i) = Some own"
    and "(second_factor_step ci mac ud own)\<^sup>*\<^sup>* s t"
  shows "factor_of t i = factor_of s i
    \<and> begin_admin_totp_enrollment ci random i now t
        = (Inl (Raised (if is_active_admin (get_by_id t i) then TOTP_ALREADY_ENROLLED else AUTHENTICATION_REQUIRED)), t)
    \<and> confirm_admin_totp_enrollment ci mac ud i code at_time now t = (Inl (Raised TOTP_NOT_PENDING), t)
    \<and> verify_admin_totp ci mac ud i code at_time t = check_totp mac ud secret code at_time t"
proof -
  have kept: "protected ci own i secret t \<and> factor_of t i = factor_of s i"
    using assms(4)
  proof (induction rule: rtranclp_induct)
    case base
    show ?case using assms(1-3) by (simp add: protected_def)
  next
    case (step t1 t2)
    with second_factor_step_spares [OF step(2), of i secret] show ?case by simp
  qed
  with totp_get_confirmed [of ci t i secret] obtain r where
    r: "totp_get ci i t = (Inr (Some r) :: AuthError raised + AdminTotpRecord option, t)" "tr_secret r = secret" "tr_confirmed_at r \<noteq> None"
    by (auto simp: protected_def)
  have "begin_admin_totp_enrollment ci random i now t
        = (Inl (Raised (if is_active_admin (get_by_id t i) then TOTP_ALREADY_ENROLLED else AUTHENTICATION_REQUIRED)), t)"
    using r by (simp add: begin_admin_totp_enrollment_def act_bind_Inr act_raise_def)
  moreover have "confirm_admin_totp_enrollment ci mac ud i code at_time now t = (Inl (Raised TOTP_NOT_PENDING), t)"
    using r by (simp add: confirm_admin_totp_enrollment_def act_bind_Inr act_raise_def)
  moreover have "verify_admin_totp ci mac ud i code at_time t = check_totp mac ud secret code at_time t"
    using r by (auto simp: verify_admin_totp_def act_bind_Inr)
  ultimately show ?thesis using kept by simp
qed

text \<open>The database of one admin with a confirmed secret, read with a cipher that hides nothing.\<close>

definition plain_cipher :: cipher where
  "plain_cipher = \<lparr>encrypt = map char_of, decrypt = (\<lambda>t. Some (map of_char t))\<rparr>"

definition one_admin :: database where
  "one_admin = empty_database\<lparr>users := [adult_user\<lparr>u_role := ADMIN, u_totp_secret_encrypted := Some ''ABCD'',
     u_totp_confirmed_at := Some 3\<rparr>]\<rparr>"

theorem totp_never_swapped_witness:
  "\<exists>t. reset_admin_totp (cp ''+989999999999'') one_admin = (Inr False, t)
     \<and> begin_admin_totp_enrollment plain_cipher [1, 2, 3] 1 5 t = (Inl (Raised TOTP_ALREADY_ENROLLED), t)
     \<and> factor_of t 1 = Some (Some ''ABCD'', Some 3)"
proof -
  have reset: "reset_admin_totp (cp ''+989999999999'') one_admin = (Inr False, one_admin)"
    by (simp add: reset_admin_totp_def get_by_identifier_def one_admin_def adult_user_def act_return_def)
  have ok: "users_ok one_admin" by (simp add: users_ok_def one_admin_def)
  have conf: "confirmed_factor plain_cipher one_admin 1 (cp ''ABCD'')"
    by (simp add: confirmed_factor_def one_admin_def user_row_def plain_cipher_def adult_user_def)
  have own: "map_option u_identifier (user_row one_admin 1) = Some (cp ''+989123456789'')"
    by (simp add: one_admin_def user_row_def adult_user_def)
  have "second_factor_step plain_cipher (\<lambda>_ _. []) ascii_unicode (cp ''+989123456789'') one_admin one_admin"
    by (rule reset_step [OF _ reset]) simp
  then have "(second_factor_step plain_cipher (\<lambda>_ _. []) ascii_unicode (cp ''+989123456789''))\<^sup>*\<^sup>* one_admin one_admin"
    by blast
  from totp_never_swapped [OF ok conf own this, of "[1, 2, 3]" 5]
  show ?thesis using reset
    by (simp add: factor_of_def one_admin_def user_row_def get_by_id_def is_active_admin_def adult_user_def)
qed

end
