(* ===== verification/Payments.thy ===== *)
theory Payments
  imports Redemption
begin

text \<open>
  Paying a list of entries that may have been paid before: the loop of \<open>ReferralService.settle\<close> asks the
  ledger for each key and records what is missing. It is stated over the ledger as a port, extended by
  what makes a payment go through, and the SQL ledger is shown to be such a port.
\<close>

section \<open>Paying once\<close>

definition pay_once ::
  "(string \<Rightarrow> ('s, 'e, int option) tx) \<Rightarrow> (NewLedgerEntry \<Rightarrow> ('s, 'e, int) tx) \<Rightarrow> NewLedgerEntry \<Rightarrow> ('s, 'e, unit) tx" where
  "pay_once paid_amount record_entry e =
     tx_bind (paid_amount (ne_idempotency_key e)) (\<lambda>paid.
     case paid of
       Some _ \<Rightarrow> tx_return ()
     | None \<Rightarrow> tx_bind (record_entry e) (\<lambda>_. tx_return ()))"

text \<open>What is still to be paid, and the account once it is.\<close>

definition unpaid :: "account \<Rightarrow> NewLedgerEntry list \<Rightarrow> NewLedgerEntry list" where
  "unpaid a es = filter (\<lambda>e. acct_paid a (ne_idempotency_key e) = None) es"

definition post_all :: "NewLedgerEntry list \<Rightarrow> account \<Rightarrow> account" where
  "post_all es a = fold post_entry es a"

lemma post_all_simps [simp]: "post_all [] a = a" "post_all (e # es) a = post_all es (post_entry e a)"
  by (simp_all add: post_all_def)

lemma unpaid_posted:
  "ne_idempotency_key e \<notin> ne_idempotency_key ` set es \<Longrightarrow> unpaid (post_entry e a) es = unpaid a es"
  by (induction es) (auto simp: unpaid_def post_entry_def)

lemma post_all_balance:
  "acct_balance (post_all es a) u
     = acct_balance a u + sum_list (map ne_amount (filter (\<lambda>e. ne_user_id e = u) es))"
  by (induction es arbitrary: a) (auto simp: post_entry_def)

lemma post_all_paid:
  "distinct (map ne_idempotency_key es) \<Longrightarrow>
     acct_paid (post_all es a) k
       = (case List.find (\<lambda>e. ne_idempotency_key e = k) es of Some e \<Rightarrow> Some (ne_amount e) | None \<Rightarrow> acct_paid a k)"
proof (induction es arbitrary: a)
  case (Cons e es)
  have IH: "acct_paid (post_all es (post_entry e a)) k = (case List.find (\<lambda>e. ne_idempotency_key e = k) es of
      Some e \<Rightarrow> Some (ne_amount e) | None \<Rightarrow> acct_paid (post_entry e a) k)"
    using Cons by simp
  have "List.find (\<lambda>e. ne_idempotency_key e = k) es = None" if "ne_idempotency_key e = k"
    using Cons.prems that by (simp add: find_None_iff) (metis image_eqI)
  with IH show ?case by (simp add: post_entry_def split: option.splits)
qed simp

locale paying_port = ledger_port +
  fixes has_wallet :: "'a \<Rightarrow> uuid \<Rightarrow> bool"
    and coins_frame :: "'a \<Rightarrow> 'a \<Rightarrow> bool"
  assumes goes_through: "ok s \<Longrightarrow> has_wallet s (ne_user_id e) \<Longrightarrow> 0 < ne_amount e
      \<Longrightarrow> acct_paid (account s) (ne_idempotency_key e) = None
      \<Longrightarrow> \<exists>b t. record_entry e s = Inr (b, t) \<and> has_wallet t (ne_user_id e) \<and> coins_frame s t"
    and frame_refl: "coins_frame s s"
    and frame_trans: "coins_frame r s \<Longrightarrow> coins_frame s t \<Longrightarrow> coins_frame r t"
begin

lemma pay_once_paid:
  "acct_paid (account s) (ne_idempotency_key e) \<noteq> None \<Longrightarrow> pay_once paid_amount record_entry e s = Inr ((), s)"
  by (auto simp: pay_once_def paid_law tx_return_def)

lemma pay_once_new:
  assumes "ok s" "has_wallet s (ne_user_id e)" "0 < ne_amount e"
    and "acct_paid (account s) (ne_idempotency_key e) = None"
  shows "\<exists>t. pay_once paid_amount record_entry e s = Inr ((), t) \<and> ok t \<and> has_wallet t (ne_user_id e)
    \<and> coins_frame s t \<and> account t = post_entry e (account s)"
proof -
  from goes_through [OF assms] obtain b t where "record_entry e s = Inr (b, t)"
    and t: "has_wallet t (ne_user_id e)" "coins_frame s t" by blast
  with record_law [OF assms(1)] assms(4) show ?thesis
    by (auto simp: pay_once_def paid_law tx_return_def)
qed

text \<open>The whole loop succeeds, and pays exactly what was not yet paid.\<close>

theorem pay_all:
  assumes "ok s" "has_wallet s u" "\<And>e. e \<in> set es \<Longrightarrow> ne_user_id e = u \<and> 0 < ne_amount e"
    and "distinct (map ne_idempotency_key es)"
  shows "\<exists>t. tx_each (pay_once paid_amount record_entry) es s = Inr ((), t) \<and> ok t \<and> has_wallet t u
    \<and> coins_frame s t \<and> account t = post_all (unpaid (account s) es) (account s)"
  using assms
proof (induction es arbitrary: s)
  case Nil
  then show ?case by (simp add: tx_return_def unpaid_def frame_refl)
next
  case (Cons e es)
  show ?case
  proof (cases "acct_paid (account s) (ne_idempotency_key e)")
    case None
    from Cons.prems(3) have e: "ne_user_id e = u" "0 < ne_amount e" by auto
    with pay_once_new [OF Cons.prems(1), of e] Cons.prems(2) None obtain s1 where
      s1: "pay_once paid_amount record_entry e s = Inr ((), s1)" "ok s1" "has_wallet s1 u" "coins_frame s s1"
        "account s1 = post_entry e (account s)" by auto
    have rest: "unpaid (post_entry e (account s)) es = unpaid (account s) es"
      using Cons.prems(4) by (intro unpaid_posted) auto
    have "\<exists>t. tx_each (pay_once paid_amount record_entry) es s1 = Inr ((), t) \<and> ok t \<and> has_wallet t u
        \<and> coins_frame s1 t \<and> account t = post_all (unpaid (account s1) es) (account s1)"
      using Cons.prems(3,4) by (intro Cons.IH s1) auto
    then obtain t where "tx_each (pay_once paid_amount record_entry) es s1 = Inr ((), t)" "ok t" "has_wallet t u"
        "coins_frame s1 t" "account t = post_all (unpaid (account s1) es) (account s1)" by blast
    moreover have "unpaid (account s) (e # es) = e # unpaid (account s) es" using None by (simp add: unpaid_def)
    ultimately show ?thesis using s1 rest frame_trans by fastforce
  next
    case (Some n)
    then have "pay_once paid_amount record_entry e s = Inr ((), s)" by (intro pay_once_paid) simp
    moreover have "unpaid (account s) (e # es) = unpaid (account s) es" using Some by (simp add: unpaid_def)
    ultimately show ?thesis using Cons by simp
  qed
qed

end

section \<open>The SQL ledger\<close>

interpretation sql_paying: paying_port lock_wallet ledger_record amount_for_key ledger_ok account_of
  "\<lambda>s u. wallet_of s u \<noteq> None" coins_only
proof unfold_locales
  fix s :: database and e :: NewLedgerEntry
  assume "ledger_ok s" "wallet_of s (ne_user_id e) \<noteq> None" "0 < ne_amount e"
    "acct_paid (account_of s) (ne_idempotency_key e) = None"
  then obtain b t w where "ledger_record e s = (Inr (b, t) :: 'e raised + int \<times> database)"
    "wallet_of t (ne_user_id e) = Some w"
    using pay_goes_through [where s = s and e = e and 'e = 'e] by (auto simp: account_of_def)
  moreover from this have "coins_only s t" by (intro ledger_record_frame)
  ultimately show "\<exists>b t. ledger_record e s = (Inr (b, t) :: 'e raised + int \<times> database)
      \<and> wallet_of t (ne_user_id e) \<noteq> None \<and> coins_only s t" by auto
qed (auto intro: coins_only_trans)

text \<open>Locking the wallet of a user who may have one: the account stays what it was.\<close>

lemma lock_wallet_ok:
  assumes "ledger_ok s" "wallet_owner s u"
  obtains s1 w where "lock_wallet u now s = (Inr (acct_balance (account_of s) u, s1) :: 'e raised + int \<times> database)"
    "coins_only s s1" "ledger_ok s1" "account_of s1 = account_of s" "wallet_of s1 u = Some w"
proof -
  obtain b s1 where lock: "lock_wallet u now s = (Inr (b, s1) :: 'e raised + int \<times> database)"
    using lock_wallet_total assms(2) unfolding wallet_owner_def by blast
  from that lock sql_ledger.lock_law [OF assms(1) lock] lock_wallet_frame [OF lock] lock_wallet_wallet [OF lock]
  show thesis by blast
qed

lemma lock_wallet_again: "wallet_of s u = Some w \<Longrightarrow> lock_wallet u now s = Inr (w_balance w, s)"
  by (simp add: lock_wallet_Inr_iff)

lemma wallet_owner_frame: "coins_only s t \<Longrightarrow> wallet_owner s u \<Longrightarrow> wallet_owner t u"
  using coins_only_same(1) [of s t] coins_only_wallet [of s t u] by (auto simp: wallet_owner_def user_exists_def)

end
