(* ===== verification/Mini_Games.thy ===== *)
theory Mini_Games
  imports Redemption
begin

text \<open>
  Tap Reflex runs: \<open>app/domain/mini_games.py\<close>, \<open>app/application/mini_games.py\<close>, \<open>SqlMiniGames\<close> and
  \<open>SqlAudit\<close>. The random generator is an argument: the numbers its calls to \<open>randint\<close> return, in
  order. The average of reactions is the exact quotient; the wall time is compared in microseconds.
\<close>

section \<open>The audit trail\<close>

record NewAuditEntry =
  na_actor_user_id :: uuid
  na_action :: AuditAction
  na_entity :: string
  na_entity_id :: "string option"
  na_created_at :: instant
  na_changes :: "(string \<times> audit_value) list option"
  na_ip :: "string option"

definition audit_record :: "NewAuditEntry \<Rightarrow> ('e, unit) dbtx" where
  "audit_record e = tx_write (\<lambda>s. s\<lparr>audit_log := audit_log s
     @ [\<lparr>al_actor_user_id = na_actor_user_id e, al_action = na_action e, al_entity = na_entity e,
         al_entity_id = na_entity_id e, al_changes = na_changes e, al_ip = na_ip e,
         al_created_at = na_created_at e\<rparr>]\<rparr>)"

section \<open>The rules of a run\<close>

definition ROUNDS_PER_RUN :: nat where
  "ROUNDS_PER_RUN = 5"

definition MIN_ROUND_DELAY_MS :: int where
  "MIN_ROUND_DELAY_MS = 800"

definition MAX_ROUND_DELAY_MS :: int where
  "MAX_ROUND_DELAY_MS = 3000"

definition RUN_TTL :: int where
  "RUN_TTL = minutes 2"

definition MIN_HUMAN_REACTION_MS :: int where
  "MIN_HUMAN_REACTION_MS = 100"

text \<open>\<open>rng i a b\<close> is what the \<open>i\<close>-th call of \<open>randint(a, b)\<close> returns.\<close>

type_synonym random = "nat \<Rightarrow> int \<Rightarrow> int \<Rightarrow> int"

definition generate_round_delays :: "random \<Rightarrow> nat \<Rightarrow> int list" where
  "generate_round_delays rng rounds = map (\<lambda>i. rng i MIN_ROUND_DELAY_MS MAX_ROUND_DELAY_MS) [0..<rounds]"

definition open_run :: "uuid \<Rightarrow> uuid \<Rightarrow> MiniGameId \<Rightarrow> instant \<Rightarrow> random \<Rightarrow> MiniGameRunModel" where
  "open_run new_id user_id mini_game_id now rng =
     \<lparr>mg_id = new_id, mg_user_id = user_id, mg_mini_game_id = mini_game_id,
      mg_round_delays_ms = generate_round_delays rng ROUNDS_PER_RUN, mg_issued_at = now,
      mg_expires_at = now + RUN_TTL, mg_finished_at = None, mg_status = OPEN, mg_average_reaction_ms = None\<rparr>"

datatype MiniGameRunRefusal = NOT_FOUND | NOT_OWNER | ALREADY_FINISHED | RUN_EXPIRED | ROUND_COUNT_MISMATCH

definition check_can_finish ::
  "MiniGameRunModel \<Rightarrow> uuid \<Rightarrow> int list \<Rightarrow> instant \<Rightarrow> MiniGameRunRefusal + unit" where
  "check_can_finish run user_id reactions_ms now =
     (if mg_user_id run \<noteq> user_id then Inl NOT_OWNER
      else if mg_status run = EXPIRED then Inl RUN_EXPIRED
      else if mg_status run \<noteq> OPEN then Inl ALREADY_FINISHED
      else if mg_expires_at run < now then Inl RUN_EXPIRED
      else if length reactions_ms \<noteq> length (mg_round_delays_ms run) then Inl ROUND_COUNT_MISMATCH
      else Inr ())"

datatype MiniGameRunRejection = REACTION_TOO_FAST | IDENTICAL_REACTIONS | WALL_TIME_TOO_SHORT

record MiniGameRunAssessment =
  plausible :: bool
  as_reason :: "MiniGameRunRejection option"
  as_average_reaction_ms :: rat

text \<open>\<open>None\<close> is the \<open>ZeroDivisionError\<close> of a run of no rounds.\<close>

definition assess_plausibility ::
  "int list \<Rightarrow> int list \<Rightarrow> instant \<Rightarrow> instant \<Rightarrow> MiniGameRunAssessment option" where
  "assess_plausibility round_delays_ms reactions_ms issued_at finished_at =
     (if reactions_ms = [] then None
      else
        let average = of_int (sum_list reactions_ms) / of_int (int (length reactions_ms)) in
        if list_ex (\<lambda>r. r < MIN_HUMAN_REACTION_MS) reactions_ms
        then Some \<lparr>plausible = False, as_reason = Some REACTION_TOO_FAST, as_average_reaction_ms = average\<rparr>
        else if length (remdups reactions_ms) = 1
        then Some \<lparr>plausible = False, as_reason = Some IDENTICAL_REACTIONS, as_average_reaction_ms = average\<rparr>
        else if finished_at - issued_at < 1000 * (sum_list round_delays_ms + sum_list reactions_ms)
        then Some \<lparr>plausible = False, as_reason = Some WALL_TIME_TOO_SHORT, as_average_reaction_ms = average\<rparr>
        else Some \<lparr>plausible = True, as_reason = None, as_average_reaction_ms = average\<rparr>)"

section \<open>\<open>SqlMiniGames\<close>\<close>

text \<open>The table has its primary key and the partial unique index on the user of an open run.\<close>

definition insert_run :: "MiniGameRunModel \<Rightarrow> ('e, unit) dbtx" where
  "insert_run run =
     tx_insert ''mini_game_runs''
       (\<lambda>s. \<not> exists_where (\<lambda>r. mg_id r = mg_id run) (mini_game_runs s)
          \<and> \<not> exists_where (\<lambda>r. mg_user_id r = mg_user_id run \<and> mg_status r = OPEN) (mini_game_runs s))
       (\<lambda>s. s\<lparr>mini_game_runs := mini_game_runs s @ [run]\<rparr>)"

definition get_open :: "database \<Rightarrow> uuid \<Rightarrow> MiniGameId \<Rightarrow> MiniGameRunModel option" where
  "get_open s user_id mini_game_id =
     select_one (\<lambda>r. mg_user_id r = user_id \<and> mg_mini_game_id r = mini_game_id \<and> mg_status r = OPEN)
       (mini_game_runs s)"

definition get_run :: "database \<Rightarrow> uuid \<Rightarrow> MiniGameRunModel option" where
  "get_run s run_id = select_one (\<lambda>r. mg_id r = run_id) (mini_game_runs s)"

definition closed_run :: "MiniGameRunStatus \<Rightarrow> instant \<Rightarrow> rat option \<Rightarrow> MiniGameRunModel \<Rightarrow> MiniGameRunModel" where
  "closed_run status finished_at average r =
     r\<lparr>mg_status := status, mg_finished_at := Some finished_at, mg_average_reaction_ms := average\<rparr>"

definition finish_row :: "uuid \<Rightarrow> MiniGameRunStatus \<Rightarrow> instant \<Rightarrow> rat option \<Rightarrow> ('e, unit) dbtx" where
  "finish_row run_id status finished_at average =
     tx_write (\<lambda>s. s\<lparr>mini_game_runs :=
       update_where (\<lambda>r. mg_id r = run_id) (closed_run status finished_at average) (mini_game_runs s)\<rparr>)"

definition count_rejected_since :: "database \<Rightarrow> uuid \<Rightarrow> instant \<Rightarrow> int" where
  "count_rejected_since s user_id since =
     count_where (\<lambda>r. mg_user_id r = user_id \<and> mg_status r = REJECTED
       \<and> (case mg_finished_at r of None \<Rightarrow> False | Some t \<Rightarrow> since \<le> t)) (mini_game_runs s)"

section \<open>The service\<close>

record RunStarted =
  rs_run_id :: uuid
  rs_mini_game_id :: MiniGameId
  rs_round_delays_ms :: "int list"
  rs_expires_at :: instant

record MiniGameFinishResult =
  mf_run_id :: uuid
  mf_accepted :: bool
  mf_average_reaction_ms :: rat
  mf_reason :: "MiniGameRunRejection option"

record mini_game_settings =
  ms_zone :: zone
  ms_rejected_review_threshold :: int

fun mini_game_id_value :: "MiniGameId \<Rightarrow> string" where
  "mini_game_id_value TAP_REFLEX = ''tap_reflex''"

definition start_run ::
  "uuid \<Rightarrow> random \<Rightarrow> uuid \<Rightarrow> MiniGameId \<Rightarrow> instant \<Rightarrow> database
     \<Rightarrow> (MiniGameRunRefusal raised + RunStarted) \<times> database" where
  "start_run new_id rng user_id mini_game_id now =
     unit_of_work (
       tx_bind (lock_wallet user_id now) (\<lambda>_.
       tx_bind (tx_read (\<lambda>s. get_open s user_id mini_game_id)) (\<lambda>previous.
       tx_bind (case previous of
           None \<Rightarrow> tx_return ()
         | Some run \<Rightarrow> finish_row (mg_id run) EXPIRED now None) (\<lambda>_.
       let new_run = open_run new_id user_id mini_game_id now rng in
       tx_bind (insert_run new_run) (\<lambda>_.
       commit \<lparr>rs_run_id = mg_id new_run, rs_mini_game_id = mini_game_id,
         rs_round_delays_ms = mg_round_delays_ms new_run, rs_expires_at = mg_expires_at new_run\<rparr>)))))"

definition flag_if_abusive :: "mini_game_settings \<Rightarrow> uuid \<Rightarrow> MiniGameId \<Rightarrow> instant \<Rightarrow> ('e, unit) dbtx" where
  "flag_if_abusive cfg user_id mini_game_id now =
     tx_bind (tx_read (\<lambda>s. count_rejected_since s user_id (tehran_day_start now (ms_zone cfg)))) (\<lambda>rejected_today.
     if rejected_today < ms_rejected_review_threshold cfg then tx_return ()
     else audit_record \<lparr>na_actor_user_id = user_id, na_action = AUDIT_CREATE, na_entity = ''mini_game_run_abuse'',
       na_entity_id = Some (uuid_str user_id), na_created_at = now,
       na_changes = Some [(''mini_game_id'', AuditText (cp (mini_game_id_value mini_game_id))),
         (''rejected_today'', AuditInt rejected_today)], na_ip = None\<rparr>)"

definition finish_transaction ::
  "mini_game_settings \<Rightarrow> uuid \<Rightarrow> uuid \<Rightarrow> int list \<Rightarrow> instant
     \<Rightarrow> (MiniGameRunRefusal, (MiniGameRunRefusal, MiniGameFinishResult) exit) dbtx" where
  "finish_transaction cfg user_id run_id reactions_ms now =
     tx_bind (lock_wallet user_id now) (\<lambda>_.
     tx_bind (tx_read (\<lambda>s. get_run s run_id)) (\<lambda>found.
     case found of
       None \<Rightarrow> tx_raise NOT_FOUND
     | Some run \<Rightarrow>
         (case check_can_finish run user_id reactions_ms now of
            Inl reason \<Rightarrow>
              if reason = RUN_EXPIRED \<and> mg_status run = OPEN
              then tx_bind (finish_row (mg_id run) EXPIRED now None) (\<lambda>_. commit_raise reason)
              else tx_raise reason
          | Inr _ \<Rightarrow>
              (case assess_plausibility (mg_round_delays_ms run) reactions_ms (mg_issued_at run) now of
                 None \<Rightarrow> tx_crash ZeroDivisionError
               | Some assessment \<Rightarrow>
                   tx_bind (finish_row (mg_id run) (if plausible assessment then ACCEPTED else REJECTED) now
                     (Some (as_average_reaction_ms assessment))) (\<lambda>_.
                   tx_bind (if plausible assessment then tx_return ()
                     else flag_if_abusive cfg user_id (mg_mini_game_id run) now) (\<lambda>_.
                   commit \<lparr>mf_run_id = mg_id run, mf_accepted = plausible assessment,
                     mf_average_reaction_ms = as_average_reaction_ms assessment,
                     mf_reason = as_reason assessment\<rparr>))))))"

definition finish_run ::
  "mini_game_settings \<Rightarrow> uuid \<Rightarrow> uuid \<Rightarrow> int list \<Rightarrow> instant \<Rightarrow> database
     \<Rightarrow> (MiniGameRunRefusal raised + MiniGameFinishResult) \<times> database" where
  "finish_run cfg user_id run_id reactions_ms now =
     unit_of_work (finish_transaction cfg user_id run_id reactions_ms now)"

section \<open>Plausibility\<close>

definition humanly_possible :: "int list \<Rightarrow> int list \<Rightarrow> int \<Rightarrow> bool" where
  "humanly_possible delays reactions elapsed \<longleftrightarrow>
     (\<forall>r \<in> set reactions. 100 \<le> r) \<and> 2 \<le> card (set reactions)
     \<and> 1000 * (sum_list delays + sum_list reactions) \<le> elapsed"

definition average_of :: "int list \<Rightarrow> rat" where
  "average_of reactions = of_int (sum_list reactions) / of_int (int (length reactions))"

lemma one_value_iff: "xs \<noteq> [] \<Longrightarrow> length (remdups xs) = Suc 0 \<longleftrightarrow> card (set xs) < 2"
proof -
  assume "xs \<noteq> []"
  then have "0 < card (set xs)" by (simp add: card_gt_0_iff)
  then show ?thesis by (auto simp: length_remdups_card_conv)
qed

lemma assess_plausibility_iff:
  "assess_plausibility delays reactions issued finished = Some a \<longleftrightarrow>
     reactions \<noteq> [] \<and> (plausible a \<longleftrightarrow> humanly_possible delays reactions (finished - issued))
     \<and> as_average_reaction_ms a = average_of reactions
     \<and> as_reason a = (if \<exists>r \<in> set reactions. r < 100 then Some REACTION_TOO_FAST
          else if card (set reactions) < 2 then Some IDENTICAL_REACTIONS
          else if finished - issued < 1000 * (sum_list delays + sum_list reactions) then Some WALL_TIME_TOO_SHORT
          else None)"
  by (cases a) (auto simp: assess_plausibility_def humanly_possible_def average_of_def MIN_HUMAN_REACTION_MS_def
    one_value_iff Let_def list_ex_iff not_less not_le)

lemma assess_plausibility_None: "assess_plausibility delays reactions issued finished = None \<longleftrightarrow> reactions = []"
  by (simp add: assess_plausibility_def Let_def)

lemma sum_list_ge: "(\<forall>x \<in> set xs. c \<le> x) \<Longrightarrow> c * int (length xs) \<le> sum_list xs" for xs :: "int list"
  by (induction xs) (auto simp: algebra_simps)

section \<open>Consistent runs\<close>

definition run_ok :: "MiniGameRunModel \<Rightarrow> bool" where
  "run_ok r \<longleftrightarrow>
     length (mg_round_delays_ms r) = ROUNDS_PER_RUN
     \<and> (\<forall>d \<in> set (mg_round_delays_ms r). MIN_ROUND_DELAY_MS \<le> d \<and> d \<le> MAX_ROUND_DELAY_MS)
     \<and> mg_expires_at r = mg_issued_at r + RUN_TTL
     \<and> (mg_status r = OPEN \<longleftrightarrow> mg_finished_at r = None)
     \<and> (mg_status r = ACCEPTED \<longrightarrow> (\<exists>average finished. mg_average_reaction_ms r = Some average \<and> 100 \<le> average
          \<and> mg_finished_at r = Some finished
          \<and> mg_issued_at r + 1000 * (sum_list (mg_round_delays_ms r) + 500) \<le> finished
          \<and> finished \<le> mg_issued_at r + RUN_TTL))"

definition open_of :: "database \<Rightarrow> uuid \<Rightarrow> MiniGameRunModel list" where
  "open_of s u = filter (\<lambda>r. mg_user_id r = u \<and> mg_status r = OPEN) (mini_game_runs s)"

definition runs_ok :: "database \<Rightarrow> bool" where
  "runs_ok s \<longleftrightarrow> distinct (map mg_id (mini_game_runs s)) \<and> (\<forall>r \<in> set (mini_game_runs s). run_ok r)
     \<and> (\<forall>u. length (open_of s u) \<le> 1)"

lemma humanly_possible_accepted:
  assumes "humanly_possible delays reactions elapsed" "length reactions = ROUNDS_PER_RUN"
  shows "100 \<le> average_of reactions \<and> 1000 * (sum_list delays + 500) \<le> elapsed"
proof -
  have "100 * int (length reactions) \<le> sum_list reactions"
    using assms(1) by (intro sum_list_ge) (simp add: humanly_possible_def)
  then have s: "500 \<le> sum_list reactions" using assms(2) by (simp add: ROUNDS_PER_RUN_def)
  then have "(500 :: rat) \<le> of_int (sum_list reactions)" by linarith
  then show ?thesis
    using assms s by (simp add: average_of_def humanly_possible_def ROUNDS_PER_RUN_def)
qed

lemma closed_run_ok:
  assumes "run_ok r" "status \<noteq> OPEN" "status \<noteq> ACCEPTED"
  shows "run_ok (closed_run status now average r)"
  using assms by (auto simp: run_ok_def closed_run_def)

lemma accepted_run_ok:
  assumes "run_ok r" "humanly_possible (mg_round_delays_ms r) reactions (now - mg_issued_at r)"
    "length reactions = length (mg_round_delays_ms r)" "now \<le> mg_expires_at r"
  shows "run_ok (closed_run ACCEPTED now (Some (average_of reactions)) r)"
  using assms humanly_possible_accepted [OF assms(2)] by (auto simp: run_ok_def closed_run_def)

lemma closed_run_simps [simp]:
  "mg_id (closed_run st now a r) = mg_id r" "mg_user_id (closed_run st now a r) = mg_user_id r"
  "mg_status (closed_run st now a r) = st"
  by (simp_all add: closed_run_def)

lemma length_filter_mono: "(\<And>x. x \<in> set xs \<Longrightarrow> p (f x) \<Longrightarrow> q x) \<Longrightarrow> length (filter p (map f xs)) \<le> length (filter q xs)"
  by (induction xs) auto

lemma closed_none_open:
  "filter (\<lambda>r. mg_user_id r = u \<and> mg_status r = OPEN)
     (update_where (\<lambda>r. mg_user_id r = u \<and> mg_status r = OPEN) (closed_run EXPIRED now a) rows) = []"
  by (induction rows) simp_all

text \<open>Closing a run keeps the table consistent.\<close>

lemma runs_ok_closed:
  assumes "runs_ok s" and "st \<noteq> OPEN"
    and "\<And>r. r \<in> set (mini_game_runs s) \<Longrightarrow> mg_id r = i \<Longrightarrow> run_ok (closed_run st now a r)"
    and "mini_game_runs t = update_where (\<lambda>r. mg_id r = i) (closed_run st now a) (mini_game_runs s)"
  shows "runs_ok t"
proof -
  have "map mg_id (mini_game_runs t) = map mg_id (mini_game_runs s)"
    unfolding assms(4) by (rule map_update_where_same) simp
  moreover have "length (open_of t u) \<le> length (open_of s u)" for u
    unfolding open_of_def assms(4) update_where_def
    using assms(2) by (intro length_filter_mono) (auto split: if_splits)
  then have "length (open_of t u) \<le> 1" for u
    using assms(1) unfolding runs_ok_def by (meson order_trans)
  ultimately show ?thesis
    using assms(1,3) by (simp add: runs_ok_def) (auto simp: assms(4) set_update_where)
qed

lemma get_open_None: "get_open s u g = None \<Longrightarrow> open_of s u = []"
proof -
  assume a: "get_open s u g = None"
  have g: "g = TAP_REFLEX" "\<And>r. mg_mini_game_id r = TAP_REFLEX"
    using MiniGameId.exhaust by blast+
  show "open_of s u = []"
    using a by (auto simp: get_open_def open_of_def select_one_None_iff filter_empty_conv g)
qed

lemma get_open_Some:
  assumes "runs_ok s" "get_open s u g = Some r"
  shows "open_of s u = [r] \<and> r \<in> set (mini_game_runs s) \<and> mg_user_id r = u \<and> mg_status r = OPEN"
proof -
  have r: "r \<in> set (mini_game_runs s)" "mg_user_id r = u" "mg_status r = OPEN"
    using assms(2) by (auto simp: get_open_def dest: select_one_Some)
  then have "r \<in> set (open_of s u)" by (simp add: open_of_def)
  moreover have "length (open_of s u) \<le> 1" using assms(1) by (simp add: runs_ok_def)
  ultimately show ?thesis using r by (cases "open_of s u") auto
qed

lemma runs_ok_frame: "mini_game_runs t = mini_game_runs s \<Longrightarrow> runs_ok t = runs_ok s"
  by (simp add: runs_ok_def open_of_def)

text \<open>The wallet lock leaves what the service reads as it was.\<close>

lemma lock_for_run:
  assumes "ledger_ok s" "wallet_owner s u"
  obtains b s1 where "(lock_wallet u now s :: MiniGameRunRefusal raised + int \<times> database) = Inr (b, s1)"
    "mini_game_runs s1 = mini_game_runs s" "audit_log s1 = audit_log s" "account_of s1 = account_of s" "ledger_ok s1"
proof -
  obtain b s1 where lock: "(lock_wallet u now s :: MiniGameRunRefusal raised + int \<times> database) = Inr (b, s1)"
    using lock_wallet_total assms(2) unfolding wallet_owner_def by blast
  with that coins_only_same [OF lock_wallet_frame [OF lock]] sql_ledger.lock_law [OF assms(1) lock] show thesis by blast
qed

definition flag_row :: "mini_game_settings \<Rightarrow> uuid \<Rightarrow> MiniGameId \<Rightarrow> instant \<Rightarrow> database \<Rightarrow> AuditLogModel list" where
  "flag_row cfg u g now s =
     (let rejected = count_rejected_since s u (tehran_day_start now (ms_zone cfg)) in
      if rejected < ms_rejected_review_threshold cfg then []
      else [\<lparr>al_actor_user_id = u, al_action = AUDIT_CREATE, al_entity = ''mini_game_run_abuse'',
        al_entity_id = Some (uuid_str u),
        al_changes = Some [(''mini_game_id'', AuditText (cp (mini_game_id_value g))), (''rejected_today'', AuditInt rejected)],
        al_ip = None, al_created_at = now\<rparr>])"

lemma flag_if_abusive_run:
  "flag_if_abusive cfg u g now s = Inr ((), s\<lparr>audit_log := audit_log s @ flag_row cfg u g now s\<rparr>)"
  by (simp add: flag_if_abusive_def flag_row_def audit_record_def Let_def tx_return_def tx_write_def)

lemma mini_game_runs_same [simp]:
  "account_of (s\<lparr>mini_game_runs := rs\<rparr>) = account_of s" "account_of (s\<lparr>audit_log := al\<rparr>) = account_of s"
  "ledger_ok (s\<lparr>mini_game_runs := rs\<rparr>) = ledger_ok s" "ledger_ok (s\<lparr>audit_log := al\<rparr>) = ledger_ok s"
  by (simp_all add: account_of_def recorded_amount_def ledger_ok_def fun_eq_iff)

text \<open>How a finish request is judged.\<close>

datatype verdict = Refused MiniGameRunRefusal | TimedOut | Judged bool

definition judge :: "MiniGameRunModel option \<Rightarrow> uuid \<Rightarrow> int list \<Rightarrow> instant \<Rightarrow> verdict" where
  "judge found u reactions now =
     (case found of
        None \<Rightarrow> Refused NOT_FOUND
      | Some run \<Rightarrow>
          if mg_user_id run \<noteq> u then Refused NOT_OWNER
          else if mg_status run = EXPIRED then Refused RUN_EXPIRED
          else if mg_status run \<noteq> OPEN then Refused ALREADY_FINISHED
          else if mg_expires_at run < now then TimedOut
          else if length reactions \<noteq> length (mg_round_delays_ms run) then Refused ROUND_COUNT_MISMATCH
          else Judged (humanly_possible (mg_round_delays_ms run) reactions (now - mg_issued_at run)))"

definition run_closed_as :: "MiniGameRunStatus \<Rightarrow> instant \<Rightarrow> rat option \<Rightarrow> uuid \<Rightarrow> database \<Rightarrow> database \<Rightarrow> bool" where
  "run_closed_as status now average i s t \<longleftrightarrow>
     mini_game_runs t = update_where (\<lambda>r. mg_id r = i) (closed_run status now average) (mini_game_runs s)
     \<and> account_of t = account_of s \<and> ledger_ok t"

lemma get_run_Some: "get_run s i = Some r \<Longrightarrow> r \<in> set (mini_game_runs s) \<and> mg_id r = i"
  unfolding get_run_def by (rule select_one_Some)

lemma finish_run_result:
  assumes "runs_ok s" "ledger_ok s" "wallet_owner s u"
  shows "case judge (get_run s i) u reactions now of
      Refused e \<Rightarrow> finish_run cfg u i reactions now s = (Inl (Raised e), s)
    | TimedOut \<Rightarrow> \<exists>t. finish_run cfg u i reactions now s = (Inl (Raised RUN_EXPIRED), t)
        \<and> run_closed_as EXPIRED now None i s t \<and> audit_log t = audit_log s
    | Judged fair \<Rightarrow> \<exists>res t. finish_run cfg u i reactions now s = (Inr res, t)
        \<and> mf_run_id res = i \<and> mf_accepted res = fair \<and> mf_average_reaction_ms res = average_of reactions
        \<and> (mf_reason res = None \<longleftrightarrow> fair)
        \<and> run_closed_as (if fair then ACCEPTED else REJECTED) now (Some (average_of reactions)) i s t
        \<and> audit_log t = audit_log s @ (if fair then [] else flag_row cfg u TAP_REFLEX now t)"
proof -
  obtain b s1 where l: "(lock_wallet u now s :: MiniGameRunRefusal raised + int \<times> database) = Inr (b, s1)"
    "mini_game_runs s1 = mini_game_runs s" "audit_log s1 = audit_log s" "account_of s1 = account_of s" "ledger_ok s1"
    by (rule lock_for_run [OF assms(2,3)])
  have get: "get_run s1 = get_run s" by (simp add: get_run_def l fun_eq_iff)
  show ?thesis
  proof (cases "get_run s i")
    case None
    then show ?thesis
      using l(1) by (simp add: judge_def finish_run_def finish_transaction_def unit_of_work_def get tx_raise_def)
  next
    case (Some run)
    then have run: "run \<in> set (mini_game_runs s)" "mg_id run = i" using get_run_Some by auto
    have rounds: "length (mg_round_delays_ms run) = 5" using assms(1) run by (auto simp: runs_ok_def run_ok_def ROUNDS_PER_RUN_def)
    show ?thesis
    proof (cases "check_can_finish run u reactions now")
      case (Inl e)
      then show ?thesis
        using l Some run
        by (auto simp: judge_def finish_run_def finish_transaction_def unit_of_work_def get tx_raise_def
          check_can_finish_def finish_row_def commit_raise_def tx_return_def run_closed_as_def split: if_splits)
    next
      case (Inr x)
      then have len: "length reactions = 5" using rounds by (auto simp: check_can_finish_def split: if_splits)
      then have "reactions \<noteq> []" by auto
      then obtain a where a: "assess_plausibility (mg_round_delays_ms run) reactions (mg_issued_at run) now = Some a"
        using assess_plausibility_None by (metis option.exhaust)
      have a': "plausible a \<longleftrightarrow> humanly_possible (mg_round_delays_ms run) reactions (now - mg_issued_at run)"
        "as_average_reaction_ms a = average_of reactions" "as_reason a = None \<longleftrightarrow> plausible a"
        using a by (auto simp: assess_plausibility_iff humanly_possible_def not_less)
      have g: "mg_mini_game_id run = TAP_REFLEX" by (cases "mg_mini_game_id run") simp
      show ?thesis
      proof (cases "plausible a")
        case True
        with a a' Inr l Some run show ?thesis
          by (auto simp: judge_def finish_run_def finish_transaction_def unit_of_work_def get finish_row_def
            check_can_finish_def commit_def tx_return_def run_closed_as_def split: if_splits)
      next
        case False
        with a a' Inr l Some run g show ?thesis
          by (auto simp: judge_def finish_run_def finish_transaction_def unit_of_work_def get finish_row_def
            check_can_finish_def commit_def tx_return_def run_closed_as_def flag_if_abusive_run flag_row_def
            count_rejected_since_def Let_def split: if_splits)
      qed
    qed
  qed
qed

lemma start_run_result:
  assumes "runs_ok s" "ledger_ok s" "wallet_owner s u"
  shows "if \<exists>r \<in> set (mini_game_runs s). mg_id r = new_id
    then start_run new_id rng u g now s = (Inl (Crash (IntegrityError ''mini_game_runs'')), s)
    else \<exists>t. start_run new_id rng u g now s
      = (Inr \<lparr>rs_run_id = new_id, rs_mini_game_id = g, rs_round_delays_ms = generate_round_delays rng ROUNDS_PER_RUN,
            rs_expires_at = now + RUN_TTL\<rparr>, t)
    \<and> mini_game_runs t = update_where (\<lambda>r. mg_user_id r = u \<and> mg_status r = OPEN) (closed_run EXPIRED now None)
        (mini_game_runs s) @ [open_run new_id u g now rng]
    \<and> account_of t = account_of s \<and> ledger_ok t \<and> audit_log t = audit_log s"
proof -
  obtain b s1 where l: "(lock_wallet u now s :: MiniGameRunRefusal raised + int \<times> database) = Inr (b, s1)"
    "mini_game_runs s1 = mini_game_runs s" "audit_log s1 = audit_log s" "account_of s1 = account_of s" "ledger_ok s1"
    by (rule lock_for_run [OF assms(2,3)])
  have get: "get_open s1 = get_open s" by (simp add: get_open_def l fun_eq_iff)
  have closed: "(case get_open s u g of None \<Rightarrow> mini_game_runs s
      | Some r \<Rightarrow> update_where (\<lambda>x. mg_id x = mg_id r) (closed_run EXPIRED now None) (mini_game_runs s))
    = update_where (\<lambda>r. mg_user_id r = u \<and> mg_status r = OPEN) (closed_run EXPIRED now None) (mini_game_runs s)"
  proof (cases "get_open s u g")
    case None
    then show ?thesis using get_open_None [OF None] by (simp add: open_of_def filter_empty_conv update_where_none)
  next
    case (Some r)
    note o = get_open_Some [OF assms(1) Some]
    have "(mg_id x = mg_id r) = (mg_user_id x = u \<and> mg_status x = OPEN)" if "x \<in> set (mini_game_runs s)" for x
    proof
      assume "mg_id x = mg_id r"
      then have "x = r" using assms(1) that o distinct_key_eq unfolding runs_ok_def by metis
      with o show "mg_user_id x = u \<and> mg_status x = OPEN" by simp
    next
      assume "mg_user_id x = u \<and> mg_status x = OPEN"
      then have "x \<in> set (open_of s u)" using that by (simp add: open_of_def)
      with o show "mg_id x = mg_id r" by simp
    qed
    then show ?thesis unfolding Some option.case by (rule update_where_cong)
  qed
  define rs where "rs = update_where (\<lambda>r. mg_user_id r = u \<and> mg_status r = OPEN) (closed_run EXPIRED now None)
      (mini_game_runs s)"
  have step: "(case get_open s u g of None \<Rightarrow> tx_return () | Some r \<Rightarrow> finish_row (mg_id r) EXPIRED now None) s1
      = (Inr ((), s1\<lparr>mini_game_runs := rs\<rparr>) :: MiniGameRunRefusal raised + unit \<times> database)"
  proof (cases "get_open s u g")
    case None
    then have "rs = mini_game_runs s1" using closed l(2) by (simp add: rs_def)
    then have "s1\<lparr>mini_game_runs := rs\<rparr> = s1" by simp
    with None show ?thesis by (simp add: tx_return_def)
  next
    case (Some r)
    then show ?thesis using closed l(2) by (simp add: rs_def finish_row_def tx_write_def)
  qed
  have ids: "mg_id ` set rs = mg_id ` set (mini_game_runs s)"
    unfolding rs_def set_map [symmetric] by (subst map_update_where_same) simp_all
  have taken: "(\<exists>r \<in> set rs. mg_id r = new_id) = (\<exists>r \<in> set (mini_game_runs s). mg_id r = new_id)"
  proof -
    have "(\<exists>r \<in> set rows. mg_id r = new_id) = (new_id \<in> mg_id ` set rows)" for rows by blast
    from this [of rs] this [of "mini_game_runs s"] show ?thesis by (simp only: ids)
  qed
  have none_open: "\<not> (\<exists>r \<in> set rs. mg_user_id r = u \<and> mg_status r = OPEN)"
    using closed_none_open [of u now None "mini_game_runs s"] unfolding rs_def filter_empty_conv by blast
  note defs = start_run_def unit_of_work_def get tx_bind_def insert_run_def tx_insert_def commit_def tx_return_def
    Let_def tx_read_def open_run_def
  show ?thesis
  proof (cases "\<exists>r \<in> set rs. mg_id r = new_id")
    case True
    then have "start_run new_id rng u g now s = (Inl (Crash (IntegrityError ''mini_game_runs'')), s)"
      using l step by (simp add: defs)
    with True taken show ?thesis by simp
  next
    case False
    then show ?thesis
      unfolding rs_def [symmetric] taken [symmetric] using l step none_open by (simp add: defs)
  qed
qed

section \<open>Runs over time\<close>

text \<open>What \<open>randint\<close> documents.\<close>

definition randint_ok :: "random \<Rightarrow> bool" where
  "randint_ok rng \<longleftrightarrow> (\<forall>i a b. a \<le> b \<longrightarrow> a \<le> rng i a b \<and> rng i a b \<le> b)"

inductive run_step :: "mini_game_settings \<Rightarrow> database \<Rightarrow> database \<Rightarrow> bool" for cfg where
  started: "start_run new_id rng u g now s = (r, t) \<Longrightarrow>
    randint_ok rng \<Longrightarrow> run_step cfg s t"
| finished: "finish_run cfg u run_id reactions now s = (r, t) \<Longrightarrow> run_step cfg s t"

definition closed_for_good :: "database \<Rightarrow> database \<Rightarrow> bool" where
  "closed_for_good s t \<longleftrightarrow> (\<forall>r \<in> set (mini_game_runs s). mg_status r \<noteq> OPEN \<longrightarrow> r \<in> set (mini_game_runs t))"

lemma open_run_ok: "randint_ok rng \<Longrightarrow> run_ok (open_run i u g now rng)"
  by (auto simp: run_ok_def open_run_def generate_round_delays_def randint_ok_def MIN_ROUND_DELAY_MS_def
    MAX_ROUND_DELAY_MS_def)

lemma runs_ok_started:
  assumes "runs_ok s" and fresh: "\<not> (\<exists>r \<in> set (mini_game_runs s). mg_id r = new_id)"
    and new: "run_ok (open_run new_id u g now rng)"
    and t: "mini_game_runs t = update_where (\<lambda>r. mg_user_id r = u \<and> mg_status r = OPEN) (closed_run EXPIRED now None)
        (mini_game_runs s) @ [open_run new_id u g now rng]"
  shows "runs_ok t \<and> closed_for_good s t"
proof -
  let ?rs = "update_where (\<lambda>r. mg_user_id r = u \<and> mg_status r = OPEN) (closed_run EXPIRED now None) (mini_game_runs s)"
  have ids: "map mg_id ?rs = map mg_id (mini_game_runs s)" by (rule map_update_where_same) simp
  then have "new_id \<notin> set (map mg_id ?rs)" using fresh by auto
  with ids have "distinct (map mg_id (mini_game_runs t))"
    using assms(1) by (simp add: t runs_ok_def open_run_def)
  moreover have "run_ok r" if "r \<in> set (mini_game_runs t)" for r
    using that assms(1) new by (auto simp: t runs_ok_def set_update_where closed_run_ok)
  moreover have "length (open_of t v) \<le> 1" for v
  proof (cases "v = u")
    case True
    have "filter (\<lambda>r. mg_user_id r = u \<and> mg_status r = OPEN) ?rs = []"
      by (rule closed_none_open)
    then show ?thesis by (simp add: open_of_def t True)
  next
    case False
    have "length (filter (\<lambda>r. mg_user_id r = v \<and> mg_status r = OPEN) ?rs) \<le> length (open_of s v)"
      unfolding update_where_def open_of_def by (rule length_filter_mono) (auto split: if_splits)
    then show ?thesis
      using assms(1) False unfolding runs_ok_def
      by (simp add: open_of_def t open_run_def) (meson order_trans)
  qed
  ultimately show ?thesis by (auto simp: runs_ok_def closed_for_good_def t set_update_where)
qed

lemma closed_for_good_closed:
  assumes "runs_ok s" "get_run s i = Some run" "mg_status run = OPEN" "run_closed_as st now a i s t"
  shows "closed_for_good s t"
proof -
  have "x = run" if "x \<in> set (mini_game_runs s)" "mg_id x = i" for x
    using that assms(1) get_run_Some [OF assms(2)] distinct_key_eq unfolding runs_ok_def by metis
  with assms(3,4) show ?thesis by (auto simp: closed_for_good_def run_closed_as_def set_update_where)
qed

lemma nobody_runs:
  "\<not> wallet_owner s u \<Longrightarrow> start_run i rng u g now s = (Inl (Crash (IntegrityError ''wallets_user_id_fkey'')), s)"
  "\<not> wallet_owner s u \<Longrightarrow> finish_run cfg u i reactions now s = (Inl (Crash (IntegrityError ''wallets_user_id_fkey'')), s)"
  by (simp_all add: start_run_def finish_run_def finish_transaction_def unit_of_work_def wallet_owner_def lock_wallet_nobody)

lemma finish_keeps:
  assumes "runs_ok s" "ledger_ok s" "finish_run cfg u i reactions now s = (r, t)"
  shows "runs_ok t \<and> ledger_ok t \<and> closed_for_good s t \<and> account_of t = account_of s"
proof (cases "wallet_owner s u")
  case False
  with assms show ?thesis by (simp add: nobody_runs closed_for_good_def)
next
  case True
  note res = finish_run_result [OF assms(1,2) True, where i = i and reactions = reactions and now = now and cfg = cfg]
  show ?thesis
  proof (cases "judge (get_run s i) u reactions now")
    case (Refused e)
    with res assms show ?thesis by (auto simp: closed_for_good_def)
  next
    case TimedOut
    then obtain run where run: "get_run s i = Some run" "mg_status run = OPEN"
      by (auto simp: judge_def split: option.splits if_splits)
    from TimedOut res assms(3) have t: "run_closed_as EXPIRED now None i s t" by auto
    have "runs_ok t"
      using t assms(1) by (intro runs_ok_closed [OF assms(1), of EXPIRED i now None])
        (auto simp: run_closed_as_def runs_ok_def intro: closed_run_ok)
    with t closed_for_good_closed [OF assms(1) run t] show ?thesis by (simp add: run_closed_as_def)
  next
    case (Judged fair)
    then obtain run where run: "get_run s i = Some run" "mg_status run = OPEN" "now \<le> mg_expires_at run"
      "length reactions = length (mg_round_delays_ms run)"
      "fair = humanly_possible (mg_round_delays_ms run) reactions (now - mg_issued_at run)"
      by (auto simp: judge_def split: option.splits if_splits)
    from Judged res assms(3)
    have t: "run_closed_as (if fair then ACCEPTED else REJECTED) now (Some (average_of reactions)) i s t" by auto
    have ok: "run_ok (closed_run (if fair then ACCEPTED else REJECTED) now (Some (average_of reactions)) x)"
      if "x \<in> set (mini_game_runs s)" "mg_id x = i" for x
    proof -
      have "x = run" using that assms(1) get_run_Some [OF run(1)] distinct_key_eq unfolding runs_ok_def by metis
      moreover have "run_ok x" using that assms(1) by (simp add: runs_ok_def)
      ultimately show ?thesis using run by (auto intro: accepted_run_ok closed_run_ok)
    qed
    have "runs_ok t"
      using t ok by (intro runs_ok_closed [OF assms(1), of "if fair then ACCEPTED else REJECTED" i now
          "Some (average_of reactions)"]) (auto simp: run_closed_as_def)
    with t closed_for_good_closed [OF assms(1) run(1,2) t] show ?thesis by (simp add: run_closed_as_def)
  qed
qed

lemma run_step_keeps:
  assumes "run_step cfg s t" "runs_ok s" "ledger_ok s"
  shows "runs_ok t \<and> ledger_ok t \<and> closed_for_good s t \<and> account_of t = account_of s"
  using assms(1)
proof cases
  case (started new_id rng u g now r)
  show ?thesis
  proof (cases "wallet_owner s u")
    case False
    with started assms show ?thesis by (simp add: nobody_runs closed_for_good_def)
  next
    case True
    show ?thesis
    proof (cases "\<exists>x \<in> set (mini_game_runs s). mg_id x = new_id")
      case fresh: False
      with start_run_result [OF assms(2,3) True, where new_id = new_id and rng = rng and g = g and now = now] started(1)
      have t: "mini_game_runs t = update_where (\<lambda>r. mg_user_id r = u \<and> mg_status r = OPEN) (closed_run EXPIRED now None)
          (mini_game_runs s) @ [open_run new_id u g now rng]" "account_of t = account_of s" "ledger_ok t" by auto
      from runs_ok_started [OF assms(2) fresh open_run_ok [OF started(2)] t(1)] t show ?thesis by simp
    qed (use start_run_result [OF assms(2,3) True, where new_id = new_id and rng = rng and g = g and now = now] started(1) assms in
        \<open>auto simp: closed_for_good_def\<close>)
  qed
next
  case (finished u run_id reactions now r)
  from finish_keeps [OF assms(2,3) finished] show ?thesis .
qed

section \<open>Properties\<close>

text \<open>
  How a run is finished. An unknown run, someone else's, a closed one and a wrong number of rounds
  are refused and change nothing; a run past its time is closed as EXPIRED although the answer is an
  error; every other attempt is an answer, accepted exactly when each reaction is at least 100 ms, they
  are not all the same and the server's own clock covers the delays and the reactions. The run is
  closed with that verdict and the average, and coins never move. A rejected run is also audited when
  the day's rejections have reached the review threshold.
\<close>

theorem finish_run_decided:
  assumes "runs_ok s" "ledger_ok s" "wallet_owner s u"
  shows "case judge (get_run s i) u reactions now of
      Refused e \<Rightarrow> finish_run cfg u i reactions now s = (Inl (Raised e), s)
    | TimedOut \<Rightarrow> \<exists>t. finish_run cfg u i reactions now s = (Inl (Raised RUN_EXPIRED), t)
        \<and> run_closed_as EXPIRED now None i s t \<and> audit_log t = audit_log s
    | Judged fair \<Rightarrow> \<exists>res t. finish_run cfg u i reactions now s = (Inr res, t)
        \<and> mf_run_id res = i \<and> mf_accepted res = fair \<and> mf_average_reaction_ms res = average_of reactions
        \<and> (mf_reason res = None \<longleftrightarrow> fair)
        \<and> run_closed_as (if fair then ACCEPTED else REJECTED) now (Some (average_of reactions)) i s t
        \<and> audit_log t = audit_log s @ (if fair then [] else flag_row cfg u TAP_REFLEX now t)"
  by (rule finish_run_result [OF assms])

definition sample_run :: MiniGameRunModel where
  "sample_run = open_run 5 1 TAP_REFLEX 0 (\<lambda>i a b. a)"

definition game_db :: database where
  "game_db = one_user\<lparr>mini_game_runs := [sample_run]\<rparr>"

definition game_settings :: mini_game_settings where
  "game_settings = \<lparr>ms_zone = tehran, ms_rejected_review_threshold = 3\<rparr>"

lemma game_db_ok: "runs_ok game_db" "ledger_ok game_db" "wallet_owner game_db 1"
proof -
  have "run_ok sample_run" unfolding sample_run_def
    by (rule open_run_ok) (simp add: randint_ok_def)
  then show "runs_ok game_db" by (simp add: game_db_def runs_ok_def open_of_def)
qed (simp_all add: game_db_def one_user_def empty_database_def ledger_ok_def wallet_owner_def user_exists_def adult_user_def)

lemma game_run: "get_run game_db 5 = Some sample_run"
  by (simp add: get_run_def game_db_def sample_run_def open_run_def)

theorem finish_run_decided_witness:
  "\<exists>res t. finish_run game_settings 1 5 [200, 210, 220, 230, 240] (seconds 10) game_db = (Inr res, t)
    \<and> mf_accepted res \<and> run_closed_as ACCEPTED (seconds 10) (Some 220) 5 game_db t"
proof -
  have "judge (get_run game_db 5) 1 [200, 210, 220, 230, 240] (seconds 10) = Judged True"
    by (simp add: game_run judge_def sample_run_def open_run_def generate_round_delays_def ROUNDS_PER_RUN_def
      MIN_ROUND_DELAY_MS_def humanly_possible_def RUN_TTL_def minutes_def seconds_def upt_conv_Cons)
  with finish_run_decided [OF game_db_ok, where i = 5 and reactions = "[200, 210, 220, 230, 240]" and now = "seconds 10"
      and cfg = game_settings]
  show ?thesis by (auto simp: average_of_def)
qed

text \<open>
  A player never locks herself out. Starting a run always succeeds, however many runs were left
  open or lost: the one still open is closed as EXPIRED and the new one, with its five delays and two
  minutes, is the only open run afterwards.
\<close>

theorem start_run_always_opens:
  assumes "runs_ok s" "ledger_ok s" "wallet_owner s u" "\<forall>r \<in> set (mini_game_runs s). mg_id r \<noteq> new_id"
    and "randint_ok rng"
  shows "\<exists>res t. start_run new_id rng u g now s = (Inr res, t) \<and> rs_run_id res = new_id
    \<and> length (rs_round_delays_ms res) = 5 \<and> rs_expires_at res = now + minutes 2
    \<and> open_of t u = [open_run new_id u g now rng]
    \<and> (\<forall>r \<in> set (open_of s u). closed_run EXPIRED now None r \<in> set (mini_game_runs t))
    \<and> runs_ok t \<and> account_of t = account_of s"
proof -
  obtain res t where run: "start_run new_id rng u g now s = (Inr res, t)"
    "res = \<lparr>rs_run_id = new_id, rs_mini_game_id = g, rs_round_delays_ms = generate_round_delays rng ROUNDS_PER_RUN,
      rs_expires_at = now + RUN_TTL\<rparr>"
    "mini_game_runs t = update_where (\<lambda>r. mg_user_id r = u \<and> mg_status r = OPEN) (closed_run EXPIRED now None)
        (mini_game_runs s) @ [open_run new_id u g now rng]" "account_of t = account_of s"
    using start_run_result [OF assms(1-3), of new_id rng g now] assms(4) by auto
  have "open_of t u = [open_run new_id u g now rng]"
    using closed_none_open [of u now None "mini_game_runs s"] by (simp add: open_of_def run(3)) (simp add: open_run_def)
  moreover have "runs_ok t"
    using runs_ok_started [OF assms(1) _ open_run_ok [OF assms(5)] run(3)] assms(4) by blast
  moreover have "\<forall>r \<in> set (open_of s u). closed_run EXPIRED now None r \<in> set (mini_game_runs t)"
    by (auto simp: open_of_def run(3) set_update_where)
  ultimately show ?thesis
    using run by (simp add: generate_round_delays_def ROUNDS_PER_RUN_def RUN_TTL_def)
qed

theorem start_run_always_opens_witness:
  "\<exists>res t. start_run 6 (\<lambda>i a b. a) 1 TAP_REFLEX 50 game_db = (Inr res, t)
    \<and> open_of t 1 = [open_run 6 1 TAP_REFLEX 50 (\<lambda>i a b. a)]"
proof -
  have "\<forall>r \<in> set (mini_game_runs game_db). mg_id r \<noteq> 6" by (simp add: game_db_def sample_run_def open_run_def)
  from start_run_always_opens [OF game_db_ok this, of "\<lambda>i a b. a" TAP_REFLEX 50] show ?thesis
    by (auto simp: randint_ok_def)
qed

text \<open>
  C30: over any sequence of starts and finishes by any players, with any numbers reported at any time, a
  player has at most one open run, a closed run is never reopened, judged again or changed, no
  coins move, and every accepted run took at least its own delays and 500 ms by the server's clock, at
  most two minutes, and has an average of at least 100 ms.
\<close>

theorem mini_game_runs_sound:
  assumes "(run_step cfg)\<^sup>*\<^sup>* s t" and "runs_ok s" "ledger_ok s"
  shows "(\<forall>u. length (open_of t u) \<le> 1) \<and> closed_for_good s t \<and> account_of t = account_of s
    \<and> (\<forall>r \<in> set (mini_game_runs t). mg_status r = ACCEPTED \<longrightarrow>
         (\<exists>average finished. mg_average_reaction_ms r = Some average \<and> 100 \<le> average \<and> mg_finished_at r = Some finished
            \<and> mg_issued_at r + 1000 * (sum_list (mg_round_delays_ms r) + 500) \<le> finished
            \<and> finished \<le> mg_issued_at r + minutes 2))"
proof -
  have "runs_ok t \<and> ledger_ok t \<and> closed_for_good s t \<and> account_of t = account_of s"
    using assms(1)
  proof (induction rule: rtranclp_induct)
    case base
    then show ?case using assms by (simp add: closed_for_good_def)
  next
    case (step t t')
    with run_step_keeps [of cfg t t'] show ?case by (auto simp: closed_for_good_def)
  qed
  then show ?thesis by (auto simp: runs_ok_def run_ok_def RUN_TTL_def)
qed

theorem mini_game_runs_sound_witness:
  "\<exists>t. (run_step game_settings)\<^sup>*\<^sup>* game_db t \<and> closed_for_good game_db t \<and> length (open_of t 1) \<le> 1"
proof -
  obtain r t where run: "finish_run game_settings 1 5 [200, 210, 220, 230, 240] (seconds 10) game_db = (r, t)"
    by fastforce
  then have "(run_step game_settings)\<^sup>*\<^sup>* game_db t" by (blast intro: run_step.finished r_into_rtranclp)
  from mini_game_runs_sound [OF this game_db_ok(1,2)] this show ?thesis by blast
qed

end
