(* ===== verification/Coin_Adjustments.thy ===== *)
theory Coin_Adjustments
  imports Users Payments Mini_Games
begin

text \<open>
  Coins given or taken by an administrator (\<open>app/application/coin_adjustments.py\<close>): the ledger entry,
  the balance and the audit row are one unit of work. The \<open>uuid4\<close> of the key is an argument.
\<close>

datatype CoinAdjustmentError = AdjustPhone PhoneNumberError | AdjustUserNotFound pystr

record CoinAdjustmentResult =
  ca_user_id :: uuid
  ca_new_balance :: int

definition adjustment_key :: "uuid \<Rightarrow> string" where
  "adjustment_key fresh = ledger_reason_value ADMIN_ADJUSTMENT @ '':'' @ uuid_str fresh"

definition adjustment_entry :: "uuid \<Rightarrow> uuid \<Rightarrow> int \<Rightarrow> pystr \<Rightarrow> uuid \<Rightarrow> instant \<Rightarrow> NewLedgerEntry" where
  "adjustment_entry actor_id target_id amount note fresh now =
     \<lparr>ne_user_id = target_id, ne_amount = amount, ne_reason = ADMIN_ADJUSTMENT,
      ne_idempotency_key = adjustment_key fresh, ne_created_at = now, ne_source_id = None,
      ne_actor_id = Some actor_id, ne_note = Some note\<rparr>"

definition adjust_transaction ::
  "uuid \<Rightarrow> uuid \<Rightarrow> pystr \<Rightarrow> int \<Rightarrow> pystr \<Rightarrow> string option \<Rightarrow> uuid \<Rightarrow> instant
     \<Rightarrow> ('e, ('e, CoinAdjustmentResult) exit) dbtx" where
  "adjust_transaction actor_id target_id phone amount note ip fresh now =
     tx_bind (lock_wallet target_id now) (\<lambda>_.
     tx_bind (ledger_record (adjustment_entry actor_id target_id amount note fresh now)) (\<lambda>new_balance.
     tx_bind (audit_record \<lparr>na_actor_user_id = actor_id, na_action = AUDIT_CREATE, na_entity = ''coin_ledger_entry'',
         na_entity_id = Some (uuid_str target_id), na_created_at = now,
         na_changes = Some [(''amount'', AuditInt amount), (''note'', AuditText note), (''target_phone'', AuditText phone)],
         na_ip = ip\<rparr>) (\<lambda>_.
     commit \<lparr>ca_user_id = target_id, ca_new_balance = new_balance\<rparr>)))"

definition adjust ::
  "uuid \<Rightarrow> pystr \<Rightarrow> int \<Rightarrow> pystr \<Rightarrow> string option \<Rightarrow> uuid \<Rightarrow> instant \<Rightarrow> (CoinAdjustmentError, CoinAdjustmentResult) act" where
  "adjust actor_id target_identifier amount raw_note ip fresh now =
     (if amount = 0 then act_crash (ValueError ''amount must not be zero'')
      else let note = strip raw_note in
        if note = [] then act_crash (ValueError ''note must not be empty'')
        else case normalize_iranian_mobile target_identifier of
          Inl e \<Rightarrow> act_raise (AdjustPhone e)
        | Inr phone \<Rightarrow>
            act_bind (act_read (\<lambda>s. get_by_identifier s phone)) (\<lambda>target.
            case target of
              None \<Rightarrow> act_raise (AdjustUserNotFound phone)
            | Some user \<Rightarrow> unit_of_work (adjust_transaction actor_id (user_id user) phone amount note ip fresh now)))"

section \<open>One entry, one audit row\<close>

definition adjustment_audit :: "uuid \<Rightarrow> uuid \<Rightarrow> pystr \<Rightarrow> int \<Rightarrow> pystr \<Rightarrow> string option \<Rightarrow> instant \<Rightarrow> AuditLogModel" where
  "adjustment_audit actor_id target_id phone amount note ip now =
     \<lparr>al_actor_user_id = actor_id, al_action = AUDIT_CREATE, al_entity = ''coin_ledger_entry'',
      al_entity_id = Some (uuid_str target_id),
      al_changes = Some [(''amount'', AuditInt amount), (''note'', AuditText note), (''target_phone'', AuditText phone)],
      al_ip = ip, al_created_at = now\<rparr>"

text \<open>What must hold for an adjustment of \<open>amount\<close> coins of the user with this number to be applied.\<close>

definition adjustable :: "database \<Rightarrow> pystr \<Rightarrow> int \<Rightarrow> pystr \<Rightarrow> uuid \<Rightarrow> pystr \<Rightarrow> User \<Rightarrow> bool" where
  "adjustable s identifier amount note fresh phone user \<longleftrightarrow>
     amount \<noteq> 0 \<and> strip note \<noteq> [] \<and> normalize_iranian_mobile identifier = Inr phone
     \<and> get_by_identifier s phone = Some user \<and> recorded_amount s (adjustment_key fresh) = None
     \<and> 0 \<le> acct_balance (account_of s) (user_id user) + amount"

lemma adjust_transaction_result:
  assumes "ledger_ok s" "wallet_owner s u" "amount \<noteq> 0"
  shows "if recorded_amount s (adjustment_key fresh) = None \<and> 0 \<le> acct_balance (account_of s) u + amount
    then \<exists>t. unit_of_work (adjust_transaction actor u phone amount note ip fresh now) s
        = (Inr \<lparr>ca_user_id = u, ca_new_balance = acct_balance (account_of s) u + amount\<rparr> :: 'e raised + CoinAdjustmentResult, t)
      \<and> ledger_ok t \<and> account_of t = post_entry (adjustment_entry actor u amount note fresh now) (account_of s)
      \<and> audit_log t = audit_log s @ [adjustment_audit actor u phone amount note ip now]
      \<and> coins_only s (t\<lparr>audit_log := audit_log s\<rparr>)
    else \<exists>e. unit_of_work (adjust_transaction actor u phone amount note ip fresh now) s
        = (Inl (Crash e) :: 'e raised + CoinAdjustmentResult, s)"
proof -
  let ?e = "adjustment_entry actor u amount note fresh now"
  have e: "ne_user_id ?e = u" "ne_amount ?e = amount" "ne_idempotency_key ?e = adjustment_key fresh"
    by (simp_all add: adjustment_entry_def)
  obtain s1 w where s1: "lock_wallet u now s = (Inr (acct_balance (account_of s) u, s1) :: 'e raised + int \<times> database)"
    "coins_only s s1" "ledger_ok s1" "account_of s1 = account_of s" "wallet_of s1 u = Some w"
    using assms(1,2) by (rule lock_wallet_ok)
  have w: "w_balance w = acct_balance (account_of s) u"
    using sql_ledger.lock_law [OF s1(3) lock_wallet_again [OF s1(5), of now]] s1(4) by simp
  have paid: "recorded_amount s1 = recorded_amount s" using arg_cong [OF s1(4), of acct_paid] by (simp add: account_of_def)
  show ?thesis
  proof (cases "recorded_amount s (adjustment_key fresh) = None \<and> 0 \<le> acct_balance (account_of s) u + amount")
    case True
    let ?t = "posted ?e s1"
    have rec: "ledger_record ?e s1 = (Inr (acct_balance (account_of s) u + amount, ?t) :: 'e raised + int \<times> database)"
      using ledger_record_goes_through [OF s1(3), of ?e w] True s1(5) assms(3) e w paid by simp
    let ?t' = "?t\<lparr>audit_log := audit_log ?t @ [adjustment_audit actor u phone amount note ip now]\<rparr>"
    have "unit_of_work (adjust_transaction actor u phone amount note ip fresh now) s
        = (Inr \<lparr>ca_user_id = u, ca_new_balance = acct_balance (account_of s) u + amount\<rparr> :: 'e raised + CoinAdjustmentResult, ?t')"
      using s1(1) rec
      by (simp add: adjust_transaction_def unit_of_work_def audit_record_def adjustment_audit_def commit_def tx_return_def)
    moreover have "ledger_ok ?t" "account_of ?t = post_entry ?e (account_of s)"
      using sql_ledger.record_law [OF s1(3) rec] s1(4) by simp_all
    moreover from this have "ledger_ok ?t'" "account_of ?t' = post_entry ?e (account_of s)"
      using ledger_ok_frame [of ?t' ?t] account_of_frame [of ?t' ?t] by simp_all
    moreover have c: "coins_only s ?t" using s1(2) coins_only_posted by (rule coins_only_trans)
    have "?t'\<lparr>audit_log := audit_log s\<rparr> = ?t" unfolding coins_only_same(11) [OF c, symmetric] by simp
    with c have "coins_only s (?t'\<lparr>audit_log := audit_log s\<rparr>)" by (simp only:)
    moreover have "audit_log ?t' = audit_log s @ [adjustment_audit actor u phone amount note ip now]"
      using coins_only_same(11) [OF c] by simp
    ultimately show ?thesis unfolding if_P [OF True] by blast
  next
    case False
    have "\<exists>p. ledger_record ?e s1 = (Inl (Crash p) :: 'e raised + int \<times> database)"
      using False s1(5) w e paid
      by (auto simp: ledger_record_def tx_insert_def tx_bind_def tx_read_def tx_crash_def wallet_of_def
        recorded_amount_None_iff [symmetric])
    with s1(1) False show ?thesis
      by (auto simp: adjust_transaction_def unit_of_work_def)
  qed
qed

text \<open>
  A manual coin adjustment is exact and always audited. It is applied exactly when the amount is not
  zero, the note not blank, the number that of a player, the key new and the balance not overdrawn; then
  the player's balance moves by the amount, one ledger entry and one audit row with the same amount,
  note and number are written together and nothing else changes. In every other case nothing is written.
\<close>

theorem coin_adjustment_exact:
  assumes "ledger_ok s"
  shows "case adjust actor target amount remark ip fresh now s of
      (Inl e, t) \<Rightarrow> t = s \<and> (\<forall>phone user. \<not> adjustable s target amount remark fresh phone user)
    | (Inr r, t) \<Rightarrow> (\<exists>phone user. adjustable s target amount remark fresh phone user
        \<and> r = \<lparr>ca_user_id = user_id user, ca_new_balance = acct_balance (account_of s) (user_id user) + amount\<rparr>
        \<and> account_of t = post_entry (adjustment_entry actor (user_id user) amount (strip remark) fresh now) (account_of s)
        \<and> audit_log t = audit_log s @ [adjustment_audit actor (user_id user) phone amount (strip remark) ip now]
        \<and> ledger_ok t \<and> coins_only s (t\<lparr>audit_log := audit_log s\<rparr>))"
proof (cases "amount \<noteq> 0 \<and> strip remark \<noteq> [] \<and> (\<exists>phone user. normalize_iranian_mobile target = Inr phone
    \<and> get_by_identifier s phone = Some user)")
  case True
  then obtain phone user where found: "amount \<noteq> 0" "strip remark \<noteq> []" "normalize_iranian_mobile target = Inr phone"
    "get_by_identifier s phone = Some user" by blast
  have "wallet_owner s (user_id user)"
    using found(4) by (auto simp: get_by_identifier_def wallet_owner_def user_exists_def dest!: select_one_Some)
  note result = adjust_transaction_result [OF assms this found(1), where 'e = CoinAdjustmentError,
    of fresh actor phone "strip remark" ip now]
  have call: "adjust actor target amount remark ip fresh now s
      = unit_of_work (adjust_transaction actor (user_id user) phone amount (strip remark) ip fresh now) s"
    using found by (simp add: adjust_def Let_def)
  have iff: "adjustable s target amount remark fresh p v \<longleftrightarrow> p = phone \<and> v = user
      \<and> recorded_amount s (adjustment_key fresh) = None \<and> 0 \<le> acct_balance (account_of s) (user_id user) + amount" for p v
    using found by (auto simp: adjustable_def)
  show ?thesis
  proof (cases "recorded_amount s (adjustment_key fresh) = None \<and> 0 \<le> acct_balance (account_of s) (user_id user) + amount")
    case True
    from result [unfolded if_P [OF True]] show ?thesis unfolding call iff using True by auto
  next
    case False
    from result [unfolded if_not_P [OF False]] show ?thesis unfolding call iff using False by auto
  qed
next
  case False
  then show ?thesis
    by (auto simp: adjust_def adjustable_def Let_def act_defs act_bind_def split: sum.splits option.splits)
qed

theorem coin_adjustment_exact_witness:
  "\<exists>t. adjust 9 (cp ''09123456789'') 20 (cp '' gift '') None 77 0 one_user
      = (Inr \<lparr>ca_user_id = 1, ca_new_balance = 20\<rparr>, t) \<and> length (audit_log t) = 1"
proof -
  have ok: "ledger_ok one_user" by (simp add: one_user_def empty_database_def ledger_ok_def)
  have n: "normalize_iranian_mobile (cp ''09123456789'') = Inr (cp ''+989123456789'')"
    by (simp add: normalize_iranian_mobile_def clean_phone_def is_decimal_ascii strip_country_def
       COUNTRY_PREFIXES_def starts_with_def is_subscriber_def)
  have stripped: "strip (cp '' gift '') = cp ''gift''"
    by (simp add: strip_def strip_by_def lstrip_by_def rstrip_by_def is_space_ascii)
  have u: "get_by_identifier one_user (cp ''+989123456789'') = Some (user_from_model adult_user)"
    by (simp add: get_by_identifier_def one_user_def adult_user_def)
  have none: "recorded_amount one_user k = None" "acct_balance (account_of one_user) 1 = 0" "audit_log one_user = []" for k
    by (simp_all add: one_user_def empty_database_def recorded_amount_def account_of_def amounts_of_def)
  have id: "u_id adult_user = 1" by (simp add: adult_user_def)
  have iff: "adjustable one_user (cp ''09123456789'') 20 (cp '' gift '') 77 p v
      \<longleftrightarrow> p = cp ''+989123456789'' \<and> v = user_from_model adult_user" for p v
    unfolding adjustable_def n stripped none using u by (auto simp: none id)
  obtain r t where out: "adjust 9 (cp ''09123456789'') 20 (cp '' gift '') None 77 0 one_user = (r, t)" by fastforce
  note exact = coin_adjustment_exact [OF ok, where actor = 9 and target = "cp ''09123456789''" and amount = 20
    and remark = "cp '' gift ''" and ip = None and fresh = 77 and now = 0, unfolded out prod.case]
  show ?thesis
  proof (cases r)
    case (Inl e)
    with exact iff show ?thesis by (simp only: sum.case) blast
  next
    case (Inr x)
    from exact [unfolded Inr sum.case iff] obtain v where "v = user_from_model adult_user"
      "x = \<lparr>ca_user_id = user_id v, ca_new_balance = acct_balance (account_of one_user) (user_id v) + 20\<rparr>"
      "length (audit_log t) = Suc (length (audit_log one_user))" by (metis length_append_singleton)
    with out Inr show ?thesis by (simp add: none id)
  qed
qed

end
