(* ===== verification/Admin_Session.thy ===== *)
theory Admin_Session
  imports Second_Factor Coin_Adjustments
begin

text \<open>
  The back office (\<open>app/infrastructure/admin/__init__.py\<close>): the two-step sign-in whose state is a signed
  cookie held by the browser, the check made on every request, and the forms that adjust coins and enrol
  a second factor. Starlette signs the cookie and refuses one older than \<open>max_age\<close>; a browser can send
  any cookie it was given, not only the last one.
\<close>

definition ABSOLUTE_SESSION_SECONDS :: int where
  "ABSOLUTE_SESSION_SECONDS = 8 * 3600"

definition MAX_TOTP_ATTEMPTS_PER_SIGN_IN :: int where
  "MAX_TOTP_ATTEMPTS_PER_SIGN_IN = 5"

section \<open>The session cookie\<close>

text \<open>The keys of \<open>request.session\<close>; \<open>iat\<close> is a whole number of seconds.\<close>

record admin_session =
  as_pending_phone :: "pystr option"
  as_test_code :: "pystr option"
  as_totp_pending_uid :: "uuid option"
  as_totp_attempts :: "int option"
  as_uid :: "uuid option"
  as_iat :: "int option"

definition no_session :: admin_session where
  "no_session = \<lparr>as_pending_phone = None, as_test_code = None, as_totp_pending_uid = None, as_totp_attempts = None,
     as_uid = None, as_iat = None\<rparr>"

text \<open>Where \<open>_to_login\<close> redirects to, and the message it shows there.\<close>

datatype login_message =
    Bad_Phone | Wait int | Limit | Sms | Code_Sent | Code_Bad | Ask_Totp | Totp_Bad | Totp_Locked | Start_Over

datatype admin_response = To_Login login_message | Signed_In | Server_Error py_error

text \<open>What the backend was built with: the service's settings and primitives, and \<open>show_test_codes\<close>.\<close>

record admin_backend =
  ab_sha :: sha256_hex
  ab_settings :: authentication_settings
  ab_cipher :: cipher
  ab_mac :: mac
  ab_unicode :: unicode
  ab_show_test_codes :: bool

text \<open>The form of a sign-in request; \<open>sms_delivered\<close> and the draw are what the world adds to a \<open>_send\<close>.\<close>

datatype login_form = Send_Form pystr bool challenge_draw | Verify_Form pystr | Totp_Form pystr

type_synonym login_result = "admin_response \<times> admin_session \<times> database"

definition send_step :: "admin_backend \<Rightarrow> pystr \<Rightarrow> bool \<Rightarrow> challenge_draw \<Rightarrow> instant \<Rightarrow> admin_session \<Rightarrow> database \<Rightarrow> login_result" where
  "send_step b phone sms_delivered draw now session s =
     (case request_admin_challenge (ab_sha b) (ab_settings b) sms_delivered draw phone now s of
        (Inl (Crash e), t) \<Rightarrow> (Server_Error e, session, t)
      | (Inl (Raised e), t) \<Rightarrow>
          (To_Login (case e of PHONE_INVALID \<Rightarrow> Bad_Phone | RESEND_COOLDOWN n \<Rightarrow> Wait n | DAILY_LIMIT \<Rightarrow> Limit | _ \<Rightarrow> Sms),
           no_session, t)
      | (Inr result, t) \<Rightarrow>
          (To_Login Code_Sent,
           no_session\<lparr>as_pending_phone := Some phone,
             as_test_code := (if ab_show_test_codes b \<and> rq_test_code result \<noteq> Some [] then rq_test_code result else None)\<rparr>, t))"

definition signed_in_session :: "uuid \<Rightarrow> instant \<Rightarrow> admin_session" where
  "signed_in_session i now = no_session\<lparr>as_uid := Some i, as_iat := Some (now div 1000000)\<rparr>"

definition verify_step :: "admin_backend \<Rightarrow> pystr \<Rightarrow> instant \<Rightarrow> admin_session \<Rightarrow> database \<Rightarrow> login_result" where
  "verify_step b code now session s =
     (case as_pending_phone session of
        None \<Rightarrow> (To_Login Start_Over, session, s)
      | Some phone \<Rightarrow>
          if phone = [] then (To_Login Start_Over, session, s)
          else
            (case verify_admin_challenge (ab_sha b) phone code now s of
               (Inl (Raised e), t) \<Rightarrow> (To_Login Code_Bad, session, t)
             | (Inl (Crash e), t) \<Rightarrow> (Server_Error e, session, t)
             | (Inr user, t) \<Rightarrow>
                 (case has_confirmed_admin_totp (ab_cipher b) (user_id user) t of
                    (Inl (Crash e), u) \<Rightarrow> (Server_Error e, session, u)
                  | (Inl (Raised e), u) \<Rightarrow> (Server_Error AssertionError, session, u)
                  | (Inr confirmed, u) \<Rightarrow>
                      if confirmed
                      then (To_Login Ask_Totp, no_session\<lparr>as_totp_pending_uid := Some (user_id user), as_totp_attempts := Some 0\<rparr>, u)
                      else (Signed_In, signed_in_session (user_id user) now, u))))"

text \<open>The step for the second factor: a service error or a \<open>ValueError\<close> counts as an attempt.\<close>

definition totp_refused :: "AuthError raised \<Rightarrow> bool" where
  "totp_refused e \<longleftrightarrow> (case e of Raised _ \<Rightarrow> True | Crash (ValueError _) \<Rightarrow> True | Crash _ \<Rightarrow> False)"

definition totp_step :: "admin_backend \<Rightarrow> pystr \<Rightarrow> instant \<Rightarrow> admin_session \<Rightarrow> database \<Rightarrow> login_result" where
  "totp_step b code now session s =
     (case as_totp_pending_uid session of
        None \<Rightarrow> (To_Login Start_Over, session, s)
      | Some i \<Rightarrow>
          (case verify_admin_totp (ab_cipher b) (ab_mac b) (ab_unicode b) i code now s of
             (Inr _, t) \<Rightarrow> (Signed_In, signed_in_session i now, t)
           | (Inl e, t) \<Rightarrow>
               if totp_refused e then
                 (let attempts = (case as_totp_attempts session of None \<Rightarrow> 0 | Some n \<Rightarrow> n) + 1 in
                  if MAX_TOTP_ATTEMPTS_PER_SIGN_IN \<le> attempts then (To_Login Totp_Locked, no_session, t)
                  else (To_Login Totp_Bad, session\<lparr>as_totp_attempts := Some attempts\<rparr>, t))
               else (case e of Crash x \<Rightarrow> (Server_Error x, session, t) | Raised _ \<Rightarrow> (Server_Error AssertionError, session, t))))"

definition admin_login :: "admin_backend \<Rightarrow> login_form \<Rightarrow> instant \<Rightarrow> admin_session \<Rightarrow> database \<Rightarrow> login_result" where
  "admin_login b form now session s =
     (case form of
        Verify_Form code \<Rightarrow> verify_step b (strip code) now session s
      | Totp_Form code \<Rightarrow> totp_step b (strip code) now session s
      | Send_Form phone sms_delivered draw \<Rightarrow> send_step b (strip phone) sms_delivered draw now session s)"

text \<open>\<open>logout\<close> answers that the user is not signed in and clears the session.\<close>

definition admin_logout :: "admin_session \<Rightarrow> bool \<times> admin_session" where
  "admin_logout session = (False, no_session)"

definition authenticate :: "database \<Rightarrow> instant \<Rightarrow> admin_session \<Rightarrow> bool \<times> admin_session" where
  "authenticate s now session =
     (case (as_uid session, as_iat session) of
        (Some i, Some issued_at) \<Rightarrow>
          if ABSOLUTE_SESSION_SECONDS * 1000000 < now - issued_at * 1000000 then (False, no_session)
          else if get_active_admin s i = None then (False, no_session)
          else (True, session)
      | _ \<Rightarrow> (False, session))"

section \<open>The forms of the panel\<close>

text \<open>What the page flashes after a post; \<open>SQLAdmin\<close> lets only an authenticated request in.\<close>

datatype form_outcome =
    Session_Expired | Amount_Not_Whole | Amount_Zero | Note_Required | Note_Too_Long | Not_A_Mobile | No_Player pystr
  | Below_Zero | Refused_Value string | Adjusted CoinAdjustmentResult | Form_Crash py_error

text \<open>\<open>read_int\<close> is \<open>int\<close> on a text, \<open>None\<close> where it raises \<open>ValueError\<close>.\<close>

definition adjust_form ::
  "(pystr \<Rightarrow> int option) \<Rightarrow> admin_session \<Rightarrow> pystr \<Rightarrow> pystr \<Rightarrow> pystr \<Rightarrow> string option \<Rightarrow> uuid \<Rightarrow> instant \<Rightarrow> database
     \<Rightarrow> form_outcome \<times> database" where
  "adjust_form read_int session raw_identifier raw_note raw_amount ip fresh now s =
     (case as_uid session of
        None \<Rightarrow> (Session_Expired, s)
      | Some admin_id \<Rightarrow>
          (let note = strip raw_note in
           case read_int (strip raw_amount) of
             None \<Rightarrow> (Amount_Not_Whole, s)
           | Some amount \<Rightarrow>
               if amount = 0 then (Amount_Zero, s)
               else if note = [] then (Note_Required, s)
               else if 500 < length note then (Note_Too_Long, s)
               else
                 (case adjust admin_id (strip raw_identifier) amount note ip fresh now s of
                    (Inr result, t) \<Rightarrow> (Adjusted result, t)
                  | (Inl (Raised (AdjustPhone _)), t) \<Rightarrow> (Not_A_Mobile, t)
                  | (Inl (Raised (AdjustUserNotFound _)), t) \<Rightarrow> (No_Player (strip raw_identifier), t)
                  | (Inl (Crash (InsufficientCoinsError _)), t) \<Rightarrow> (Below_Zero, t)
                  | (Inl (Crash (ValueError m)), t) \<Rightarrow> (Refused_Value m, t)
                  | (Inl (Crash e), t) \<Rightarrow> (Form_Crash e, t))))"

datatype totp_page = Enrolled | Enrolling pystr

definition totp_setup_page :: "cipher \<Rightarrow> bytes \<Rightarrow> uuid \<Rightarrow> instant \<Rightarrow> (AuthError, totp_page) act" where
  "totp_setup_page ci random i now =
     act_bind (has_confirmed_admin_totp ci i) (\<lambda>confirmed.
     if confirmed then act_return Enrolled
     else act_bind (begin_admin_totp_enrollment ci random i now) (\<lambda>secret. act_return (Enrolling secret)))"

text \<open>\<open>True\<close> for the success message, \<open>False\<close> for the error message.\<close>

definition totp_setup_confirm :: "cipher \<Rightarrow> mac \<Rightarrow> unicode \<Rightarrow> uuid \<Rightarrow> pystr \<Rightarrow> instant \<Rightarrow> (AuthError, bool) act" where
  "totp_setup_confirm ci mac ud i code now s =
     (case confirm_admin_totp_enrollment ci mac ud i (strip code) now now s of
        (Inr _, t) \<Rightarrow> (Inr True, t)
      | (Inl (Raised _), t) \<Rightarrow> (Inr False, t)
      | (Inl (Crash e), t) \<Rightarrow> (Inl (Crash e), t))"

section \<open>Runs\<close>

text \<open>
  A request: the tables and the time it met, the cookie it carried and its form. The browsers together
  hold every cookie that was ever set; one is accepted until \<open>max_age\<close> after it was stamped. Between
  requests the tables may change in any way.
\<close>

record login_request =
  lr_tables :: database
  lr_time :: instant
  lr_session :: admin_session
  lr_form :: login_form

type_synonym cookie_jar = "(admin_session \<times> instant) list"

definition carried :: "int \<Rightarrow> cookie_jar \<Rightarrow> instant \<Rightarrow> admin_session \<Rightarrow> bool" where
  "carried max_age jar now session \<longleftrightarrow>
     session = no_session \<or> (\<exists>stamp. (session, stamp) \<in> set jar \<and> now \<le> stamp + max_age)"

text \<open>The cookie is set again with every answer, removed for an empty session, and left alone by a 500.\<close>

definition set_cookie :: "admin_response \<Rightarrow> admin_session \<Rightarrow> instant \<Rightarrow> cookie_jar \<Rightarrow> cookie_jar" where
  "set_cookie response session now jar =
     (case response of Server_Error _ \<Rightarrow> jar | _ \<Rightarrow> if session = no_session then jar else (session, now) # jar)"

inductive admin_run ::
  "admin_backend \<Rightarrow> int \<Rightarrow> login_request list \<Rightarrow> database \<Rightarrow> cookie_jar \<Rightarrow> instant \<Rightarrow> bool" for b max_age where
  run_start: "admin_run b max_age [] s [] now"
| run_login: "admin_run b max_age trace s jar now \<Longrightarrow> now \<le> later \<Longrightarrow> carried max_age jar later session
    \<Longrightarrow> admin_login b form later session s = (r, session', t)
    \<Longrightarrow> admin_run b max_age (\<lparr>lr_tables = s, lr_time = later, lr_session = session, lr_form = form\<rparr> # trace)
          t (set_cookie r session' later jar) later"
| run_visit: "admin_run b max_age trace s jar now \<Longrightarrow> now \<le> later \<Longrightarrow> carried max_age jar later session
    \<Longrightarrow> authenticate s later session = (ok, session')
    \<Longrightarrow> admin_run b max_age trace s (set_cookie Signed_In session' later jar) later"
| run_other: "admin_run b max_age trace s jar now \<Longrightarrow> now \<le> later \<Longrightarrow> admin_run b max_age trace t jar later"

section \<open>What a signed-in cookie proves\<close>

text \<open>A request with the right SMS code of \<open>i\<close>; \<open>factor\<close> tells whether a second factor was then due.\<close>

definition code_accepted :: "admin_backend \<Rightarrow> uuid \<Rightarrow> bool \<Rightarrow> login_request \<Rightarrow> bool" where
  "code_accepted b i factor q \<longleftrightarrow>
     (\<exists>code phone u t v. lr_form q = Verify_Form code \<and> as_pending_phone (lr_session q) = Some phone
        \<and> verify_admin_challenge (ab_sha b) phone (strip code) (lr_time q) (lr_tables q) = (Inr u, t) \<and> user_id u = i
        \<and> has_confirmed_admin_totp (ab_cipher b) i t = (Inr factor, v))"

definition totp_accepted :: "admin_backend \<Rightarrow> uuid \<Rightarrow> login_request \<Rightarrow> bool" where
  "totp_accepted b i q \<longleftrightarrow>
     (\<exists>code t. lr_form q = Totp_Form code
        \<and> verify_admin_totp (ab_cipher b) (ab_mac b) (ab_unicode b) i (strip code) (lr_time q) (lr_tables q) = (Inr (), t))"

text \<open>The proof that ended with request \<open>q\<close>, after the requests \<open>earlier\<close>.\<close>

definition proved_by :: "admin_backend \<Rightarrow> uuid \<Rightarrow> login_request \<Rightarrow> login_request list \<Rightarrow> bool" where
  "proved_by b i q earlier \<longleftrightarrow>
     code_accepted b i False q \<or> (totp_accepted b i q \<and> (\<exists>q' \<in> set earlier. code_accepted b i True q'))"

definition cookie_ok :: "admin_backend \<Rightarrow> login_request list \<Rightarrow> admin_session \<Rightarrow> bool" where
  "cookie_ok b trace c \<longleftrightarrow>
     (\<forall>i. as_uid c = Some i \<longrightarrow> (\<exists>newer q earlier. trace = newer @ q # earlier \<and> as_iat c = Some (lr_time q div 1000000)
        \<and> proved_by b i q earlier))
     \<and> (\<forall>i. as_totp_pending_uid c = Some i \<longrightarrow> (\<exists>q \<in> set trace. code_accepted b i True q))"

lemma cookie_ok_empty [simp]: "cookie_ok b trace no_session"
  by (simp add: cookie_ok_def no_session_def)

lemma cookie_ok_pending: "as_uid c = None \<Longrightarrow> as_totp_pending_uid c = None \<Longrightarrow> cookie_ok b trace c"
  by (simp add: cookie_ok_def)

lemma cookie_ok_signed_in: "proved_by b i q trace \<Longrightarrow> cookie_ok b (q # trace) (signed_in_session i (lr_time q))"
  unfolding cookie_ok_def
proof (intro conjI allI impI)
  fix j assume "proved_by b i q trace" "as_uid (signed_in_session i (lr_time q)) = Some j"
  then show "\<exists>newer q' earlier. q # trace = newer @ q' # earlier
      \<and> as_iat (signed_in_session i (lr_time q)) = Some (lr_time q' div 1000000) \<and> proved_by b j q' earlier"
    by (intro exI [of _ "[]"] exI [of _ q] exI [of _ trace]) (simp add: signed_in_session_def)
qed (simp add: signed_in_session_def no_session_def)

lemma cookie_ok_same:
  "cookie_ok b trace c \<Longrightarrow> as_uid d = as_uid c \<Longrightarrow> as_iat d = as_iat c \<Longrightarrow> as_totp_pending_uid d = as_totp_pending_uid c
     \<Longrightarrow> cookie_ok b trace d"
  by (simp add: cookie_ok_def)

lemma set_cookie_in: "(x, stamp) \<in> set (set_cookie r c now jar) \<Longrightarrow> x = c \<or> (x, stamp) \<in> set jar"
  by (auto simp: set_cookie_def split: admin_response.splits if_splits)

lemma cookie_ok_more: "cookie_ok b trace c \<Longrightarrow> cookie_ok b (q # trace) c"
  unfolding cookie_ok_def by (metis append_Cons list.set_intros(2))

lemma send_step_cookie: "send_step b phone sms draw now c s = (r, c', t) \<Longrightarrow> cookie_ok b trace c \<Longrightarrow> cookie_ok b trace c'"
  by (auto simp: send_step_def no_session_def intro: cookie_ok_pending split: prod.splits sum.splits raised.splits)

lemma verify_step_cookie:
  assumes "verify_step b (strip code) now c s = (r, c', t)" "cookie_ok b trace c"
  shows "cookie_ok b (\<lparr>lr_tables = s, lr_time = now, lr_session = c, lr_form = Verify_Form code\<rparr> # trace) c'"
proof -
  let ?q = "\<lparr>lr_tables = s, lr_time = now, lr_session = c, lr_form = Verify_Form code\<rparr>"
  have kept: "cookie_ok b (?q # trace) c" by (rule cookie_ok_more [OF assms(2)])
  consider "c' = c"
    | phone u t' v where "as_pending_phone c = Some phone"
        "verify_admin_challenge (ab_sha b) phone (strip code) now s = (Inr u, t')"
        "has_confirmed_admin_totp (ab_cipher b) (user_id u) t' = (Inr True, v)"
        "c' = no_session\<lparr>as_totp_pending_uid := Some (user_id u), as_totp_attempts := Some 0\<rparr>"
    | phone u t' v where "as_pending_phone c = Some phone"
        "verify_admin_challenge (ab_sha b) phone (strip code) now s = (Inr u, t')"
        "has_confirmed_admin_totp (ab_cipher b) (user_id u) t' = (Inr False, v)" "c' = signed_in_session (user_id u) now"
    using assms(1) unfolding verify_step_def
    by (auto split: option.splits if_splits prod.splits sum.splits raised.splits)
  then show ?thesis
  proof cases
    case 1
    with kept show ?thesis by simp
  next
    case 2
    then have "code_accepted b (user_id u) True ?q" by (auto simp: code_accepted_def)
    with 2(4) show ?thesis by (auto simp: cookie_ok_def no_session_def)
  next
    case 3
    then have "code_accepted b (user_id u) False ?q" by (auto simp: code_accepted_def)
    then have "proved_by b (user_id u) ?q trace" by (simp add: proved_by_def)
    from cookie_ok_signed_in [OF this] 3(4) show ?thesis by simp
  qed
qed

lemma totp_step_cookie:
  assumes "totp_step b (strip code) now c s = (r, c', t)" "cookie_ok b trace c"
  shows "cookie_ok b (\<lparr>lr_tables = s, lr_time = now, lr_session = c, lr_form = Totp_Form code\<rparr> # trace) c'"
proof -
  let ?q = "\<lparr>lr_tables = s, lr_time = now, lr_session = c, lr_form = Totp_Form code\<rparr>"
  have kept: "cookie_ok b (?q # trace) c" by (rule cookie_ok_more [OF assms(2)])
  consider "c' = c \<or> c' = no_session \<or> (\<exists>n. c' = c\<lparr>as_totp_attempts := Some n\<rparr>)"
    | i v where "as_totp_pending_uid c = Some i" "c' = signed_in_session i now"
        "verify_admin_totp (ab_cipher b) (ab_mac b) (ab_unicode b) i (strip code) now s = (Inr (), v)"
    using assms(1) unfolding totp_step_def Let_def
    by (auto split: option.splits if_splits prod.splits sum.splits raised.splits)
  then show ?thesis
  proof cases
    case 1
    then show ?thesis using kept cookie_ok_same [OF kept] by (elim disjE exE) simp_all
  next
    case 2
    then have "totp_accepted b i ?q" "\<exists>q \<in> set trace. code_accepted b i True q"
      using assms(2) by (auto simp: totp_accepted_def cookie_ok_def)
    then have "proved_by b i ?q trace" by (simp add: proved_by_def)
    from cookie_ok_signed_in [OF this] 2(2) show ?thesis by simp
  qed
qed

lemma admin_login_cookie:
  assumes "admin_login b form now c s = (r, c', t)" "cookie_ok b trace c"
  shows "cookie_ok b (\<lparr>lr_tables = s, lr_time = now, lr_session = c, lr_form = form\<rparr> # trace) c'"
  using assms verify_step_cookie totp_step_cookie cookie_ok_more [OF send_step_cookie]
  by (cases form) (auto simp: admin_login_def)

lemma admin_run_cookies:
  assumes "admin_run b max_age trace s jar now"
  shows "\<forall>(c, stamp) \<in> set jar. cookie_ok b trace c"
  using assms
proof (induction rule: admin_run.induct)
  case (run_login trace s jar now later c form r c' t)
  have "cookie_ok b trace c" using run_login(3,5) by (auto simp: carried_def)
  note new = admin_login_cookie [OF run_login(4) this]
  have "cookie_ok b (\<lparr>lr_tables = s, lr_time = later, lr_session = c, lr_form = form\<rparr> # trace) x"
    if "(x, stamp) \<in> set (set_cookie r c' later jar)" for x stamp
    using set_cookie_in [OF that]
  proof
    assume "(x, stamp) \<in> set jar"
    with run_login(5) have "cookie_ok b trace x" by blast
    then show ?thesis by (rule cookie_ok_more)
  qed (use new in simp)
  then show ?case by blast
next
  case (run_visit trace s jar now later c ok c')
  have "cookie_ok b trace c" using run_visit(3,5) by (auto simp: carried_def)
  then have "cookie_ok b trace c'"
    using run_visit(4) by (auto simp: authenticate_def split: option.splits if_splits)
  with run_visit(5) set_cookie_in show ?case by blast
qed simp_all

text \<open>
  C37: an admin request is proved. However the requests of any browsers are interleaved with other
  changes to the tables, a request is let in only with the cookie of an active admin who, at most eight
  hours earlier, gave the code sent to their phone and, where a second factor was then confirmed for
  them, after that a valid code of that factor.
\<close>

theorem admin_request_proved:
  assumes "admin_run b max_age trace s jar now" "now \<le> later" "carried max_age jar later c"
    and "authenticate s later c = (True, c')"
  shows "\<exists>i newer q earlier. as_uid c = Some i \<and> get_active_admin s i \<noteq> None
    \<and> trace = newer @ q # earlier \<and> later - lr_time q \<le> 8 * 3600 * 1000000 \<and> proved_by b i q earlier"
proof -
  from assms(4) obtain i issued where i: "as_uid c = Some i" "as_iat c = Some issued" "get_active_admin s i \<noteq> None"
    "later - issued * 1000000 \<le> ABSOLUTE_SESSION_SECONDS * 1000000"
    by (auto simp: authenticate_def split: option.splits if_splits)
  have "cookie_ok b trace c"
    using admin_run_cookies [OF assms(1)] assms(3) by (auto simp: carried_def)
  with i(1,2) obtain newer q earlier where q: "trace = newer @ q # earlier" "issued = lr_time q div 1000000" "proved_by b i q earlier"
    by (auto simp: cookie_ok_def)
  have "issued * 1000000 \<le> lr_time q" using q(2) by (simp add: div_times_less_eq_dividend)
  with i(4) have "later - lr_time q \<le> 8 * 3600 * 1000000" by (simp add: ABSOLUTE_SESSION_SECONDS_def)
  with i(1,3) q(1,3) show ?thesis by blast
qed

text \<open>
  The limit on second-factor guesses does not bind. The counter lives in the cookie, and the cookie
  that asks for the factor can be sent again: with it, any number of wrong codes within its age are
  all answered as wrong, never as locked, in a run of the server.
\<close>

theorem totp_guesses_unlimited:
  assumes "admin_run b max_age trace s jar now" "(c, stamp) \<in> set jar"
    and "as_totp_pending_uid c = Some i" "as_totp_attempts c = Some 0"
    and "sorted (map snd guesses)" "\<forall>(code, z) \<in> set guesses. now \<le> z \<and> z \<le> stamp + max_age"
    and "\<forall>(code, z) \<in> set guesses. \<exists>e. verify_admin_totp (ab_cipher b) (ab_mac b) (ab_unicode b) i (strip code) z s = (Inl (Raised e), s)"
  shows "(\<forall>(code, z) \<in> set guesses. fst (admin_login b (Totp_Form code) z c s) = To_Login Totp_Bad)
    \<and> (\<exists>jar'. admin_run b max_age
        (rev (map (\<lambda>(code, z). \<lparr>lr_tables = s, lr_time = z, lr_session = c, lr_form = Totp_Form code\<rparr>) guesses) @ trace)
        s jar' (last (now # map snd guesses)))"
proof -
  have step: "admin_login b (Totp_Form code) z c s = (To_Login Totp_Bad, c\<lparr>as_totp_attempts := Some 1\<rparr>, s)"
    if "(code, z) \<in> set guesses" for code z
    using assms(3,4,7) that
    by (auto simp: admin_login_def totp_step_def totp_refused_def MAX_TOTP_ATTEMPTS_PER_SIGN_IN_def Let_def)
  have "\<exists>jar'. (c, stamp) \<in> set jar' \<and> admin_run b max_age
        (rev (map (\<lambda>(code, z). \<lparr>lr_tables = s, lr_time = z, lr_session = c, lr_form = Totp_Form code\<rparr>) gs) @ trace)
        s jar' (last (now # map snd gs))"
    if "set gs \<subseteq> set guesses" "sorted (map snd gs)" for gs
    using that
  proof (induction gs rule: rev_induct)
    case Nil
    with assms(1,2) show ?case by auto
  next
    case (snoc g gs)
    obtain code z where g: "g = (code, z)" by fastforce
    from snoc obtain jar' where jar': "(c, stamp) \<in> set jar'" and run: "admin_run b max_age
        (rev (map (\<lambda>(code, z). \<lparr>lr_tables = s, lr_time = z, lr_session = c, lr_form = Totp_Form code\<rparr>) gs) @ trace)
        s jar' (last (now # map snd gs))"
      by (auto simp: sorted_append)
    have z: "(code, z) \<in> set guesses" using snoc(2) g by simp
    have "last (now # map snd gs) \<le> z"
      using snoc(3) z assms(6) g by (cases gs rule: rev_cases) (auto simp: sorted_append)
    moreover have "carried max_age jar' z c" using jar' z assms(6) by (auto simp: carried_def)
    ultimately show ?case
      using run_login [OF run _ _ step [OF z]] jar' g
      by (auto simp: set_cookie_def intro!: exI [of _ "set_cookie (To_Login Totp_Bad) (c\<lparr>as_totp_attempts := Some 1\<rparr>) z jar'"])
  qed
  from this [OF subset_refl assms(5)] step show ?thesis by auto
qed

section \<open>A concrete panel\<close>

text \<open>One admin, with or without a second factor, signing in with the code of the sample draw.\<close>

definition panel_cipher :: cipher where
  "panel_cipher = \<lparr>encrypt = (\<lambda>_. ''sealed''), decrypt = (\<lambda>_. Some (generate_secret (replicate 20 7)))\<rparr>"

definition panel :: admin_backend where
  "panel = \<lparr>ab_sha = toy_sha, ab_settings = otp_settings, ab_cipher = panel_cipher, ab_mac = sample_mac,
     ab_unicode = ascii_unicode, ab_show_test_codes = False\<rparr>"

definition panel_admin :: "string option \<Rightarrow> UserModel" where
  "panel_admin x = adult_user\<lparr>u_role := ADMIN, u_totp_secret_encrypted := x, u_totp_confirmed_at := map_option (\<lambda>_. 0) x\<rparr>"

definition panel_tables :: "string option \<Rightarrow> AuthenticationChallengeModel list \<Rightarrow> database" where
  "panel_tables x cs = empty_database\<lparr>users := [panel_admin x], authentication_challenges := cs\<rparr>"

lemma panel_settings [simp]: "ab_sha panel = toy_sha" "ab_settings panel = otp_settings" "ab_cipher panel = panel_cipher"
  "ab_mac panel = sample_mac" "ab_unicode panel = ascii_unicode" "ab_show_test_codes panel = False"
  by (simp_all add: panel_def)

lemma panel_phone: "normalize_iranian_mobile (cp ''09123456789'') = Inr (cp ''+989123456789'')"
  "normalize_iranian_mobile (cp ''+989123456789'') = Inr (cp ''+989123456789'')"
  by (simp_all add: normalize_iranian_mobile_def clean_phone_def is_decimal_ascii strip_country_def
     COUNTRY_PREFIXES_def starts_with_def is_subscriber_def)

lemma panel_user [simp]:
  "get_by_identifier (panel_tables x cs) (cp ''+989123456789'') = Some (user_from_model (panel_admin x))"
  "user_row (panel_tables x cs) 1 = Some (panel_admin x)"
  "u_id (panel_admin x) = 1" "u_role (panel_admin x) = ADMIN" "u_account_status (panel_admin x) = ACCOUNT_ACTIVE"
  "u_verification_status (panel_admin x) = VERIFIED"
  by (simp_all add: get_by_identifier_def user_row_def panel_tables_def panel_admin_def adult_user_def)

lemma panel_code_sent:
  "request_admin_challenge toy_sha otp_settings True asking (cp ''09123456789'') 0 (panel_tables x [])
    = (Inr (request_result otp_settings), panel_tables x [sent_code])"
proof -
  have cfg: "as_daily_limit otp_settings = 5" "ac_user_id sent_code = 1" "as_allowed_phones otp_settings = []"
    "as_test_numbers_enabled otp_settings = False" by (simp_all add: otp_settings_def sent_code_def)
  have known: "has_known_mobile_prefix (cp ''+989123456789'')"
    by (simp add: has_known_mobile_prefix_def remove_prefix_def starts_with_def is_decimal_ascii decimal_value_ascii
       undigs_def KNOWN_MOBILE_PREFIXES_def)
  have "issue_challenge toy_sha otp_settings True asking False 1 0 (panel_tables x [])
      = (Inr (request_result otp_settings), panel_tables x [sent_code])"
    by (simp add: issue_challenge_def create_challenge_def sent_code_issued act_return_def user_exists_def count_created_since_def
        get_most_recent_for_user_def cfg panel_tables_def empty_database_def order_desc_def)
  then have "request_challenge toy_sha otp_settings True asking (cp ''+989123456789'') 0 (panel_tables x [])
      = (Inr (request_result otp_settings), panel_tables x [sent_code])"
    by (simp add: request_challenge_def panel_phone known account_for_def cfg act_bind_def act_return_def act_read_def user_from_model_def del: cp_Cons)
  then show ?thesis
    by (simp add: request_admin_challenge_def panel_phone is_active_admin_def user_from_model_def del: cp_Cons)
qed

lemma panel_strip: "strip (cp ''09123456789'') = cp ''09123456789''" "strip (cp ''123456'') = cp ''123456''"
  by (simp_all add: strip_def strip_by_def lstrip_by_def rstrip_by_def is_space_def space_ranges_def)

definition panel_spent :: "string option \<Rightarrow> database" where
  "panel_spent x = panel_tables x [sent_code\<lparr>ac_consumed_at := Some 1\<rparr>]"

lemma panel_code_used:
  "verify_admin_challenge toy_sha (cp ''09123456789'') (cp ''123456'') 1 (panel_tables x [sent_code])
    = (Inr (user_from_model (panel_admin x)), panel_spent x)"
proof -
  have active: "get_active_for_user (panel_tables x [sent_code]) 1 1 = Some sent_code"
    by (simp add: get_active_for_user_def panel_tables_def sent_code_def order_desc_def)
  have tries: "\<not> ac_max_attempts sent_code \<le> ac_attempts sent_code" by (simp add: sent_code_def)
  have hash: "hash_code toy_sha (cp ''123456'') (ac_code_salt sent_code) = ac_code_hash sent_code" by (simp add: sent_code_def)
  have all: "consumable (ac_id sent_code) (ac_code_hash sent_code) 1 sent_code" by (simp add: consumable_def sent_code_def)
  have "consume_if_matching (ac_id sent_code) (ac_code_hash sent_code) 1 (panel_tables x [sent_code])
      = (Inr True :: AuthError raised + bool, panel_spent x)"
    by (simp add: consume_if_matching_def panel_spent_def panel_tables_def update_challenges_def all)
  then have "consume_code toy_sha (cp ''09123456789'') (cp ''123456'') 1 (panel_tables x [sent_code])
      = (Inr (user_from_model (panel_admin x)), panel_spent x)"
    using active tries hash
    by (simp add: consume_code_def panel_phone act_bind_Inr act_return_def user_from_model_def del: cp_Cons)
  then show ?thesis
    by (simp add: verify_admin_challenge_def act_bind_Inr is_active_admin_def verified_user_def act_return_def user_from_model_def)
qed

lemma panel_factor:
  "has_confirmed_admin_totp panel_cipher 1 (panel_spent x) = (Inr (x \<noteq> None), panel_spent x)"
  by (cases x) (simp_all add: has_confirmed_admin_totp_def totp_get_def panel_spent_def act_bind_def act_return_def panel_cipher_def
     panel_admin_def adult_user_def)

definition asked_session :: admin_session where
  "asked_session = no_session\<lparr>as_pending_phone := Some (cp ''09123456789'')\<rparr>"

definition factor_session :: admin_session where
  "factor_session = no_session\<lparr>as_totp_pending_uid := Some 1, as_totp_attempts := Some 0\<rparr>"

definition code_request :: "string option \<Rightarrow> login_request" where
  "code_request x = \<lparr>lr_tables = panel_tables x [sent_code], lr_time = 1, lr_session = asked_session,
     lr_form = Verify_Form (cp ''123456'')\<rparr>"

definition send_request :: "string option \<Rightarrow> login_request" where
  "send_request x = \<lparr>lr_tables = panel_tables x [], lr_time = 0, lr_session = no_session,
     lr_form = Send_Form (cp ''09123456789'') True asking\<rparr>"

definition panel_session :: "string option \<Rightarrow> admin_session" where
  "panel_session x = (if x = None then signed_in_session 1 1 else factor_session)"

lemma panel_run:
  "admin_run panel 900000000 [code_request x, send_request x] (panel_spent x) [(panel_session x, 1), (asked_session, 0)] 1"
proof -
  have "rq_test_code (request_result otp_settings) = None" by (simp add: request_result_def)
  then have send: "admin_login panel (Send_Form (cp ''09123456789'') True asking) 0 no_session (panel_tables x [])
      = (To_Login Code_Sent, asked_session, panel_tables x [sent_code])"
    by (simp add: admin_login_def send_step_def panel_strip panel_code_sent asked_session_def del: cp_Cons) (simp add: no_session_def)
  have nonempty: "cp ''09123456789'' \<noteq> []" by simp
  have verify: "admin_login panel (Verify_Form (cp ''123456'')) 1 asked_session (panel_tables x [sent_code])
      = (if x = None then Signed_In else To_Login Ask_Totp, panel_session x, panel_spent x)"
    using nonempty
    by (simp add: admin_login_def verify_step_def panel_strip panel_code_used panel_factor asked_session_def panel_session_def
        factor_session_def user_from_model_def del: cp_Cons)
  have kept: "asked_session \<noteq> no_session" "\<And>x. panel_session x \<noteq> no_session"
    by (simp_all add: asked_session_def panel_session_def signed_in_session_def factor_session_def no_session_def)
  have "carried 900000000 [] 0 no_session" by (simp add: carried_def)
  from run_login [OF run_start order_refl this send]
  have "admin_run panel 900000000 [send_request x] (panel_tables x [sent_code]) [(asked_session, 0)] 0"
    by (simp add: send_request_def set_cookie_def kept)
  from run_login [OF this _ _ verify] show ?thesis
    by (simp add: code_request_def set_cookie_def carried_def kept split: if_splits)
qed

theorem admin_request_proved_witness:
  "\<exists>newer q earlier. [code_request None, send_request None] = newer @ q # earlier
    \<and> 5 - lr_time q \<le> 8 * 3600 * 1000000 \<and> proved_by panel 1 q earlier"
proof -
  have ok: "authenticate (panel_spent None) 5 (signed_in_session 1 1) = (True, signed_in_session 1 1)"
    by (simp add: authenticate_def signed_in_session_def no_session_def ABSOLUTE_SESSION_SECONDS_def get_active_admin_def
        get_by_id_def panel_spent_def is_active_admin_def user_from_model_def Let_def)
  have "carried 900000000 [(panel_session None, 1), (asked_session, 0)] 5 (signed_in_session 1 1)"
    by (auto simp: carried_def panel_session_def)
  from admin_request_proved [OF panel_run _ this ok] show ?thesis
    by (auto simp: signed_in_session_def)
qed

lemma panel_guess_wrong:
  assumes "30000000 \<le> z" "z < 1000000000"
  shows "verify_admin_totp panel_cipher sample_mac ascii_unicode 1 (strip (cp ''1'')) z (panel_spent (Some x))
    = (Inl (Raised INVALID_CHALLENGE), panel_spent (Some x))"
proof -
  have range: "in_range z" using assms by (simp add: in_range_def TIME_STEP_def)
  have one: "strip (cp ''1'') = cp ''1''" "strip (cp ''1'') = [49]"
    by (simp_all add: strip_def strip_by_def lstrip_by_def rstrip_by_def is_space_def space_ranges_def)
  have "generate_code_at sample_mac ascii_unicode (generate_secret (replicate 20 7)) (z + step * TIME_STEP) \<noteq> Inr [49]"
    if "step \<in> {- 1, 0, 1}" for step
    using generated_ok [OF sample_secret, of "z + step * TIME_STEP" sample_mac] in_range_steps [OF range that] by auto
  then have "\<not> (\<exists>step \<in> {- 1, 0, 1}. generate_code_at sample_mac ascii_unicode (generate_secret (replicate 20 7))
      (z + step * TIME_STEP) = Inr (strip (cp ''1'')))" unfolding one(2) by blast
  moreover have "is_ascii (strip (cp ''1''))" unfolding one(2) by simp
  ultimately have "verify_code sample_mac ascii_unicode (generate_secret (replicate 20 7)) (cp ''1'') z 1 = Inr False"
    using verify_code_iff [OF sample_secret range, of "cp ''1''" sample_mac] by simp
  then show ?thesis
    by (simp add: verify_admin_totp_def totp_get_def panel_spent_def panel_admin_def adult_user_def panel_cipher_def act_bind_def
        check_totp_def act_raise_def one del: cp_Cons)
qed

theorem totp_guesses_unlimited_witness:
  "\<exists>trace s jar now. admin_run panel 900000000 trace s jar now \<and> length trace = 8
    \<and> (\<forall>q \<in> set (take 6 trace). fst (admin_login panel (lr_form q) (lr_time q) (lr_session q) (lr_tables q)) = To_Login Totp_Bad)"
proof -
  let ?guesses = "map (Pair (cp ''1'')) [60000000 :: int, 60000001, 60000002, 60000003, 60000004, 60000005]"
  have jar: "(factor_session, 1) \<in> set [(panel_session (Some ''sealed''), 1), (asked_session, 0)]" by (simp add: panel_session_def)
  have factor: "as_totp_pending_uid factor_session = Some 1" "as_totp_attempts factor_session = Some 0"
    by (simp_all add: factor_session_def)
  have wrong: "\<forall>(code, z) \<in> set ?guesses. \<exists>e. verify_admin_totp (ab_cipher panel) (ab_mac panel) (ab_unicode panel) 1 (strip code) z
      (panel_spent (Some ''sealed'')) = (Inl (Raised e), panel_spent (Some ''sealed''))"
    using panel_guess_wrong by (auto simp del: cp_Cons)
  have "sorted (map snd ?guesses)" by simp
  moreover have "\<forall>(code, z) \<in> set ?guesses. 1 \<le> z \<and> z \<le> 1 + 900000000" by auto
  ultimately obtain jar' where run: "admin_run panel 900000000
      (rev (map (\<lambda>(code, z). \<lparr>lr_tables = panel_spent (Some ''sealed''), lr_time = z, lr_session = factor_session, lr_form = Totp_Form code\<rparr>)
        ?guesses) @ [code_request (Some ''sealed''), send_request (Some ''sealed'')])
      (panel_spent (Some ''sealed'')) jar' (last (1 # map snd ?guesses))"
    and bad: "\<forall>(code, z) \<in> set ?guesses. fst (admin_login panel (Totp_Form code) z factor_session (panel_spent (Some ''sealed''))) = To_Login Totp_Bad"
    using totp_guesses_unlimited [OF panel_run jar factor _ _ wrong] by blast
  show ?thesis
    by (rule exI, rule exI, rule exI, rule exI, rule conjI [OF run]) (use bad in \<open>auto simp del: cp_Cons\<close>)
qed

end
