(* ===== verification/Bank.thy ===== *)
theory Bank
  imports Ledger
begin

text \<open>
  The ledger as an abstract bank. A service that moves coins takes the wallet's lock, records the entry
  and commits (\<open>SqlLedger.lock_wallet\<close>, \<open>SqlLedger.record\<close>, \<open>unit_of_work.py\<close>); over any sequence of such
  transactions the tables behave as a bank that keeps one number for each customer and the keys it has
  used. The locale \<open>simulation\<close> is the refinement argument, for any machine that answers requests.
\<close>

section \<open>Refinement of machines that answer requests\<close>

primrec answers :: "('x \<Rightarrow> 's \<Rightarrow> 'r \<times> 's) \<Rightarrow> 'x list \<Rightarrow> 's \<Rightarrow> 'r list \<times> 's" where
  "answers step [] s = ([], s)"
| "answers step (x # xs) s = (let (r, t) = step x s; (rs, u) = answers step xs t in (r # rs, u))"

locale simulation =
  fixes concrete :: "'x \<Rightarrow> 's \<Rightarrow> 'r \<times> 's"
    and abstract :: "'x \<Rightarrow> 'a \<Rightarrow> 'r \<times> 'a"
    and abs_of :: "'s \<Rightarrow> 'a"
    and ok :: "'s \<Rightarrow> bool"
  assumes simulates: "ok s \<Longrightarrow> concrete x s = (r, t) \<Longrightarrow> ok t \<and> abstract x (abs_of s) = (r, abs_of t)"
begin

lemma answers_ok: "ok s \<Longrightarrow> ok (snd (answers concrete xs s))"
proof (induction xs arbitrary: s)
  case (Cons x xs)
  obtain r t where step: "concrete x s = (r, t)" by fastforce
  with simulates [OF Cons.prems] Cons.IH [of t] show ?case by (simp add: split_beta)
qed simp

lemma answers_abstract:
  "ok s \<Longrightarrow> answers abstract xs (abs_of s) = map_prod id abs_of (answers concrete xs s)"
proof (induction xs arbitrary: s)
  case (Cons x xs)
  obtain r t where step: "concrete x s = (r, t)" by fastforce
  with simulates [OF Cons.prems] Cons.IH [of t] show ?case by (simp add: split_beta)
qed simp

end

section \<open>The bank\<close>

record bank =
  bk_customers :: "uuid set"
  bk_account :: account

definition bank_of :: "database \<Rightarrow> bank" where
  "bank_of s = \<lparr>bk_customers = {u. user_exists s u \<or> wallet_of s u \<noteq> None}, bk_account = account_of s\<rparr>"

definition bank_pay :: "NewLedgerEntry \<Rightarrow> bank \<Rightarrow> ('e raised + int) \<times> bank" where
  "bank_pay e k =
     (let balance = acct_balance (bk_account k) (ne_user_id e) in
      if ne_user_id e \<notin> bk_customers k then (Inl (Crash (IntegrityError ''wallets_user_id_fkey'')), k)
      else if acct_paid (bk_account k) (ne_idempotency_key e) \<noteq> None \<or> ne_amount e = 0
        then (Inl (Crash (IntegrityError ''coin_ledger_entries'')), k)
      else if balance + ne_amount e < 0 then (Inl (Crash (InsufficientCoinsError (ne_user_id e))), k)
      else (Inr (balance + ne_amount e), k\<lparr>bk_account := post_entry e (bk_account k)\<rparr>))"

text \<open>The transaction of the services: lock, record, commit.\<close>

definition payment :: "NewLedgerEntry \<Rightarrow> database \<Rightarrow> ('e raised + int) \<times> database" where
  "payment e = unit_of_work (tx_bind (lock_wallet (ne_user_id e) (ne_created_at e)) (\<lambda>_. tx_bind (ledger_record e) commit))"

lemma payment_nobody:
  assumes "ne_user_id e \<notin> bk_customers (bank_of s)"
  shows "payment e s = (Inl (Crash (IntegrityError ''wallets_user_id_fkey'')), s)"
  using assms by (simp add: payment_def bank_of_def unit_of_work_def tx_bind_def lock_wallet_nobody)

lemma payment_unfold:
  assumes "(lock_wallet (ne_user_id e) (ne_created_at e) s :: 'e raised + int \<times> database) = Inr (b, u)"
  shows "(payment e s :: ('e raised + int) \<times> database) =
    (case ledger_record e u of Inl err \<Rightarrow> (Inl err, s) | Inr (balance, t) \<Rightarrow> (Inr balance, t))"
  using assms by (auto simp: payment_def unit_of_work_def tx_bind_def exit_defs tx_return_def split: sum.split)

lemma bank_of_eqI:
  assumes "coins_only s t" "wallet_of t u \<noteq> None" "u \<in> bk_customers (bank_of s)"
    and "\<And>v. v \<noteq> u \<Longrightarrow> wallet_of t v \<noteq> None \<Longrightarrow> wallet_of s v \<noteq> None"
  shows "bk_customers (bank_of t) = bk_customers (bank_of s)"
proof -
  have "user_exists t v = user_exists s v" for v using coins_only_same(1) [OF assms(1)] by (simp add: user_exists_def)
  moreover have "wallet_of s v \<noteq> None \<Longrightarrow> wallet_of t v \<noteq> None" for v using coins_only_wallet [OF assms(1)] by blast
  ultimately show ?thesis using assms(2-4) unfolding bank_of_def by (simp, metis (mono_tags, lifting))
qed

lemma lock_wallet_others:
  "lock_wallet u now s = Inr (b, t) \<Longrightarrow> v \<noteq> u \<Longrightarrow> wallet_of t v = wallet_of s v"
  by (auto simp: lock_wallet_Inr_iff wallet_of_def select_one_append split: option.splits)

lemma posted_wallets: "wallet_of (posted e s) v \<noteq> None \<longleftrightarrow> wallet_of s v \<noteq> None"
  by (simp add: posted_def wallet_of_def select_one_update_same)

text \<open>One transaction is one step of the bank, with the same answer.\<close>

lemma payment_refines:
  assumes "ledger_ok s" "payment e s = (r :: 'e raised + int, t)"
  shows "ledger_ok t \<and> bank_pay e (bank_of s) = (r, bank_of t)"
proof (cases "ne_user_id e \<in> bk_customers (bank_of s)")
  case False
  with assms payment_nobody [OF False, where 'a = 'e] show ?thesis by (auto simp: bank_pay_def Let_def)
next
  case True
  then have "\<exists>b u. (lock_wallet (ne_user_id e) (ne_created_at e) s :: 'e raised + int \<times> database) = Inr (b, u)"
    by (intro lock_wallet_total) (simp add: bank_of_def)
  then obtain b u where lock: "(lock_wallet (ne_user_id e) (ne_created_at e) s :: 'e raised + int \<times> database) = Inr (b, u)"
    by blast
  note laws = sql_ledger.lock_law [OF assms(1) lock]
  obtain w where w: "wallet_of u (ne_user_id e) = Some w" "w_balance w = b" using lock_wallet_wallet [OF lock] by blast
  have paid: "recorded_amount u = recorded_amount s" using laws by (simp add: account_of_def)
  then have key: "acct_paid (account_of s) k \<noteq> None \<longleftrightarrow> key_recorded u k" for k
    using recorded_amount_None_iff [of u k] by (simp add: account_of_def)
  show ?thesis
  proof (cases "key_recorded u (ne_idempotency_key e) \<or> ne_amount e = 0 \<or> b + ne_amount e < 0")
    case True
    then have "ledger_record e u = (Inl (Crash (if key_recorded u (ne_idempotency_key e) \<or> ne_amount e = 0
        then IntegrityError ''coin_ledger_entries'' else InsufficientCoinsError (ne_user_id e))) :: 'e raised + int \<times> database)"
      using w by (auto simp: ledger_record_def wallet_of_def tx_crash_def tx_bind_def tx_insert_def tx_read_def)
    with True payment_unfold [OF lock] assms \<open>ne_user_id e \<in> _\<close> key laws show ?thesis
      by (auto simp: bank_pay_def Let_def bank_of_def)
  next
    case False
    have rec: "ledger_record e u = (Inr (b + ne_amount e, posted e u) :: 'e raised + int \<times> database)"
      using ledger_record_goes_through [of u e w] False w laws by (simp add: recorded_amount_None_iff)
    note post = sql_ledger.record_law [OF conjunct1 [OF laws] rec]
    have t: "t = posted e u" "r = Inr (b + ne_amount e)" using assms(2) payment_unfold [OF lock] rec by simp_all
    have "bk_customers (bank_of (posted e u)) = bk_customers (bank_of s)"
      using w(1) lock_wallet_others [OF lock] posted_wallets
      by (intro bank_of_eqI [OF coins_only_trans [OF lock_wallet_frame [OF lock] coins_only_posted] _ \<open>ne_user_id e \<in> _\<close>]) auto
    then have "bank_of (posted e u) = (bank_of s)\<lparr>bk_account := post_entry e (account_of s)\<rparr>"
      using post laws by (simp add: bank_of_def)
    moreover have "ne_user_id e \<in> bk_customers (bank_of s)" "bk_account (bank_of s) = account_of s"
      using \<open>ne_user_id e \<in> _\<close> by (simp_all add: bank_of_def)
    moreover have "b = acct_balance (account_of s) (ne_user_id e)" "acct_paid (account_of s) (ne_idempotency_key e) = None"
      using laws post by simp_all
    ultimately have "bank_pay e (bank_of s) = (Inr (b + ne_amount e), bank_of (posted e u))"
      using False unfolding bank_pay_def Let_def by simp
    with post show ?thesis by (simp add: t)
  qed
qed

interpretation coin_bank: simulation payment bank_pay bank_of ledger_ok
  by unfold_locales (rule payment_refines)

text \<open>
  C38: the tables refine a bank. Over any sequence of transactions that lock a wallet, record an entry and
  commit, every answer - the new balance, or the error for a stranger, a used key, an amount of zero or an
  overdraft - is the answer of the abstract bank that keeps one number for each customer and the set of used
  keys, and the tables abstract to the bank's final state; balances stay cached correctly and never negative.
\<close>

theorem ledger_refines_bank:
  assumes "ledger_ok s"
  shows "answers bank_pay es (bank_of s) = map_prod id bank_of (answers (payment :: NewLedgerEntry \<Rightarrow> database \<Rightarrow> ('e raised + int) \<times> database) es s)
    \<and> ledger_ok (snd (answers (payment :: NewLedgerEntry \<Rightarrow> database \<Rightarrow> ('e raised + int) \<times> database) es s))"
  using coin_bank.answers_abstract [OF assms] coin_bank.answers_ok [OF assms] by blast

theorem ledger_refines_bank_witness:
  "\<exists>t k. answers payment [bonus_entry, bonus_entry\<lparr>ne_amount := -20, ne_idempotency_key := ''x''\<rparr>, bonus_entry] funded
      = ([Inr 15, Inl (Crash (InsufficientCoinsError 1)), Inl (Crash (IntegrityError ''coin_ledger_entries''))] :: (unit raised + int) list, t)
    \<and> answers bank_pay [bonus_entry, bonus_entry\<lparr>ne_amount := -20, ne_idempotency_key := ''x''\<rparr>, bonus_entry] (bank_of funded)
      = ([Inr 15, Inl (Crash (InsufficientCoinsError 1)), Inl (Crash (IntegrityError ''coin_ledger_entries''))] :: (unit raised + int) list, k)
    \<and> bank_of t = k \<and> ledger_ok t"
proof -
  let ?es = "[bonus_entry, bonus_entry\<lparr>ne_amount := -20, ne_idempotency_key := ''x''\<rparr>, bonus_entry]"
  obtain rs t where c: "answers payment ?es funded = (rs :: (unit raised + int) list, t)" by fastforce
  have "bk_customers (bank_of funded) = {1}" "account_of funded = \<lparr>acct_balance = (\<lambda>_. 0), acct_paid = (\<lambda>_. None)\<rparr>"
    by (auto simp: bank_of_def account_of_def funded_def one_user_def empty_database_def user_exists_def adult_user_def wallet_of_def
      amounts_of_def recorded_amount_def fun_eq_iff)
  then have "fst (answers bank_pay ?es (bank_of funded)) = ([Inr 15, Inl (Crash (InsufficientCoinsError 1)),
      Inl (Crash (IntegrityError ''coin_ledger_entries''))] :: (unit raised + int) list)"
    by (simp add: bank_pay_def post_entry_def Let_def) (simp add: bank_of_def)
  with ledger_refines_bank [OF funded_simps(1), of ?es, where 'e = unit] c show ?thesis by (cases "answers bank_pay ?es (bank_of funded) :: (unit raised + int) list \<times> bank") auto
qed

end
