(* ===== verification/Leaderboards.thy ===== *)
theory Leaderboards
  imports Mini_Games Users Bank
begin

text \<open>
  Leaderboards: the boards (\<open>app/domain/leaderboards.py\<close>), \<open>PostgreSQLLeaderboardReader\<close>
  (\<open>repositories.py\<close>) and the service with its cache (\<open>app/application/leaderboards.py\<close>). The order in which
  the database comes across rows that the \<open>ORDER BY\<close> does not tell apart is an argument \<open>scan\<close> of each
  query; the scores are exact; \<open>time.monotonic\<close> is a count of microseconds.
\<close>

section \<open>The boards\<close>

datatype BestScore = LOWEST | HIGHEST

record MiniGameBoard =
  mb_mini_game_id :: MiniGameId
  mb_best :: BestScore

fun MINI_GAME_BOARDS :: "MiniGameId \<Rightarrow> MiniGameBoard option" where
  "MINI_GAME_BOARDS TAP_REFLEX = Some \<lparr>mb_mini_game_id = TAP_REFLEX, mb_best = LOWEST\<rparr>"

section \<open>The reader\<close>

text \<open>\<open>ASC\<close> puts \<open>NULL\<close> last, \<open>DESC\<close> first.\<close>

fun score_key :: "BestScore \<Rightarrow> rat option \<Rightarrow> int \<times> rat" where
  "score_key LOWEST None = (1, 0)"
| "score_key LOWEST (Some x) = (0, x)"
| "score_key HIGHEST None = (0, 0)"
| "score_key HIGHEST (Some x) = (1, - x)"

definition time_key :: "instant option \<Rightarrow> int \<times> int" where
  "time_key t = (case t of None \<Rightarrow> (1, 0) | Some t \<Rightarrow> (0, t))"

definition board_key :: "BestScore \<Rightarrow> MiniGameRunModel \<Rightarrow> (int \<times> rat) \<times> (int \<times> int)" where
  "board_key best r = (score_key best (mg_average_reaction_ms r), time_key (mg_finished_at r))"

definition qualifying :: "MiniGameBoard \<Rightarrow> instant option \<Rightarrow> database \<Rightarrow> MiniGameRunModel list" where
  "qualifying board since s = filter (\<lambda>r. mg_mini_game_id r = mb_mini_game_id board \<and> mg_status r = ACCEPTED
     \<and> (case since of None \<Rightarrow> True
        | Some t \<Rightarrow> (case mg_finished_at r of None \<Rightarrow> False | Some f \<Rightarrow> t \<le> f))) (mini_game_runs s)"

text \<open>The rows with \<open>rn = 1\<close>: the first of each user's.\<close>

definition per_user_best :: "BestScore \<Rightarrow> MiniGameRunModel list \<Rightarrow> MiniGameRunModel list" where
  "per_user_best best rows =
     filter (\<lambda>r. r = hd (sort_key (board_key best) (filter (\<lambda>x. mg_user_id x = mg_user_id r) rows))) rows"

type_synonym scan = "MiniGameRunModel list \<Rightarrow> MiniGameRunModel list"

definition ranked_best_runs :: "MiniGameBoard \<Rightarrow> instant option \<Rightarrow> scan \<Rightarrow> database \<Rightarrow> (int \<times> MiniGameRunModel) list" where
  "ranked_best_runs board since scan s =
     (let rows = sort_key (board_key (mb_best board)) (per_user_best (mb_best board) (scan (qualifying board since s))) in
      zip (map (\<lambda>i. int i + 1) [0..<length rows]) rows)"

record LeaderboardRow =
  lr_rank :: int
  lr_user_id :: uuid
  lr_nickname :: "pystr option"
  lr_avatar_id :: "string option"
  lr_score :: "rat option"

definition leaderboard_row :: "int \<Rightarrow> MiniGameRunModel \<Rightarrow> UserModel \<Rightarrow> LeaderboardRow" where
  "leaderboard_row rank r u = \<lparr>lr_rank = rank, lr_user_id = mg_user_id r, lr_nickname = u_nickname u,
     lr_avatar_id = u_avatar_id u, lr_score = mg_average_reaction_ms r\<rparr>"

text \<open>The join drops a run whose user is gone.\<close>

definition leaderboard_top :: "MiniGameBoard \<Rightarrow> instant option \<Rightarrow> nat \<Rightarrow> scan \<Rightarrow> database \<Rightarrow> LeaderboardRow list" where
  "leaderboard_top board since limit scan s =
     take limit (concat (map (\<lambda>(rank, r). case user_row s (mg_user_id r) of None \<Rightarrow> [] | Some u \<Rightarrow> [leaderboard_row rank r u])
       (ranked_best_runs board since scan s)))"

definition leaderboard_rank_of :: "MiniGameBoard \<Rightarrow> instant option \<Rightarrow> scan \<Rightarrow> uuid \<Rightarrow> database \<Rightarrow> (int \<times> rat option) option" where
  "leaderboard_rank_of board since scan who s =
     map_option (\<lambda>(rank, r). (rank, mg_average_reaction_ms r))
       (List.find (\<lambda>(_, r). mg_user_id r = who) (ranked_best_runs board since scan s))"

section \<open>The service\<close>

definition TOP_N :: nat where
  "TOP_N = 50"

definition CACHE_TTL :: int where
  "CACHE_TTL = 60000000"

datatype LeaderboardPeriod = TODAY | THIS_WEEK | ALL_TIME

definition window_start :: "LeaderboardPeriod \<Rightarrow> instant \<Rightarrow> zone \<Rightarrow> instant option" where
  "window_start period now z =
     (case period of TODAY \<Rightarrow> Some (tehran_day_start now z) | THIS_WEEK \<Rightarrow> Some (tehran_week_start now z) | ALL_TIME \<Rightarrow> None)"

definition resets_at :: "LeaderboardPeriod \<Rightarrow> instant \<Rightarrow> zone \<Rightarrow> instant option" where
  "resets_at period now z =
     (case period of
        TODAY \<Rightarrow> Some (tehran_day_start now z + days 1)
      | THIS_WEEK \<Rightarrow> Some (tehran_week_start now z + days 7)
      | ALL_TIME \<Rightarrow> None)"

record cached_top =
  ct_entries :: "LeaderboardRow list"
  ct_updated_at :: instant
  ct_expires_at :: int

type_synonym board_cache = "MiniGameId \<times> LeaderboardPeriod \<Rightarrow> cached_top option"

record LeaderboardSelf =
  ls_rank :: "int option"
  ls_score :: "rat option"

record Leaderboard =
  lb_mini_game_id :: MiniGameId
  lb_period :: LeaderboardPeriod
  lb_resets_at :: "instant option"
  lb_updated_at :: instant
  lb_entries :: "LeaderboardRow list"
  lb_me :: LeaderboardSelf

definition get_cached_top ::
  "nat \<Rightarrow> MiniGameBoard \<Rightarrow> LeaderboardPeriod \<Rightarrow> instant option \<Rightarrow> instant \<Rightarrow> int \<Rightarrow> scan \<Rightarrow> database \<Rightarrow> board_cache
     \<Rightarrow> cached_top \<times> board_cache" where
  "get_cached_top top_n board period since now monotonic_now scan s cache =
     (let key = (mb_mini_game_id board, period);
          fresh = \<lparr>ct_entries = leaderboard_top board since top_n scan s, ct_updated_at = now,
            ct_expires_at = monotonic_now + CACHE_TTL\<rparr> in
      case cache key of
        Some cached \<Rightarrow> if monotonic_now < ct_expires_at cached then (cached, cache) else (fresh, cache(key \<mapsto> fresh))
      | None \<Rightarrow> (fresh, cache(key \<mapsto> fresh)))"

definition leaderboard_me :: "MiniGameBoard \<Rightarrow> instant option \<Rightarrow> scan \<Rightarrow> uuid \<Rightarrow> database \<Rightarrow> LeaderboardSelf" where
  "leaderboard_me board since scan who s =
     (case leaderboard_rank_of board since scan who s of
        None \<Rightarrow> \<lparr>ls_rank = None, ls_score = None\<rparr>
      | Some (rank, score) \<Rightarrow> \<lparr>ls_rank = Some rank, ls_score = score\<rparr>)"

text \<open>A call: the clocks it reads, the tables it finds and the orders its two queries come across.\<close>

record board_call =
  bc_game :: MiniGameId
  bc_period :: LeaderboardPeriod
  bc_user :: uuid
  bc_now :: instant
  bc_monotonic :: int
  bc_tables :: database
  bc_top_scan :: scan
  bc_me_scan :: scan

definition get_leaderboard :: "nat \<Rightarrow> zone \<Rightarrow> board_call \<Rightarrow> board_cache \<Rightarrow> (MiniGameId + Leaderboard) \<times> board_cache" where
  "get_leaderboard top_n z c cache =
     (case MINI_GAME_BOARDS (bc_game c) of
        None \<Rightarrow> (Inl (bc_game c), cache)
      | Some board \<Rightarrow>
          (let since = window_start (bc_period c) (bc_now c) z;
               (cached, cache') = get_cached_top top_n board (bc_period c) since (bc_now c) (bc_monotonic c)
                 (bc_top_scan c) (bc_tables c) cache in
           (Inr \<lparr>lb_mini_game_id = bc_game c, lb_period = bc_period c, lb_resets_at = resets_at (bc_period c) (bc_now c) z,
              lb_updated_at = ct_updated_at cached, lb_entries = ct_entries cached,
              lb_me = leaderboard_me board since (bc_me_scan c) (bc_user c) (bc_tables c)\<rparr>, cache')))"

section \<open>The ranking\<close>

text \<open>What an order of coming across rows may be.\<close>

definition permutes_rows :: "scan \<Rightarrow> bool" where
  "permutes_rows scan \<longleftrightarrow> (\<forall>rows. mset (scan rows) = mset rows)"

lemma permutes_rowsD: "permutes_rows scan \<Longrightarrow> set (scan rows) = set rows" "permutes_rows scan \<Longrightarrow> distinct rows \<Longrightarrow> distinct (scan rows)"
  unfolding permutes_rows_def by (metis set_mset_mset) (metis mset_eq_imp_distinct_iff)

text \<open>The best run of a user among \<open>rows\<close>: hers, and none of hers comes before it.\<close>

definition best_run :: "BestScore \<Rightarrow> MiniGameRunModel list \<Rightarrow> MiniGameRunModel \<Rightarrow> bool" where
  "best_run best rows r \<longleftrightarrow> r \<in> set rows \<and> (\<forall>x \<in> set rows. mg_user_id x = mg_user_id r \<longrightarrow> board_key best r \<le> board_key best x)"

lemma hd_sort_key:
  assumes "xs \<noteq> []"
  shows "hd (sort_key k xs) \<in> set xs \<and> (\<forall>x \<in> set xs. k (hd (sort_key k xs)) \<le> k x)"
proof -
  have "sort_key k xs \<noteq> []" using assms by (metis length_0_conv length_sort)
  then obtain y ys where y: "sort_key k xs = y # ys" by (cases "sort_key k xs") auto
  moreover have "sorted (map k (sort_key k xs))" by simp
  moreover have "set (sort_key k xs) = set xs" by simp
  ultimately show ?thesis by auto
qed

lemma per_user_best_props:
  shows "r \<in> set (per_user_best best rows) \<Longrightarrow> best_run best rows r"
    and "x \<in> set rows \<Longrightarrow> \<exists>r \<in> set (per_user_best best rows). mg_user_id r = mg_user_id x"
    and "distinct rows \<Longrightarrow> distinct (map mg_user_id (per_user_best best rows))"
proof -
  let ?first = "\<lambda>u. hd (sort_key (board_key best) (filter (\<lambda>x. mg_user_id x = u) rows))"
  have first: "mg_user_id (?first u) = u \<and> ?first u \<in> set rows
      \<and> (\<forall>y \<in> set rows. mg_user_id y = u \<longrightarrow> board_key best (?first u) \<le> board_key best y)"
    if "x \<in> set rows" "mg_user_id x = u" for x u
  proof -
    have "filter (\<lambda>x. mg_user_id x = u) rows \<noteq> []" using that by (auto simp: filter_empty_conv)
    from hd_sort_key [OF this, of "board_key best"] show ?thesis by auto
  qed
  show "best_run best rows r" if "r \<in> set (per_user_best best rows)"
  proof -
    from that have r: "r \<in> set rows" "r = ?first (mg_user_id r)" by (auto simp: per_user_best_def)
    from first [OF r(1) refl] r show ?thesis by (simp add: best_run_def)
  qed
  show "\<exists>r \<in> set (per_user_best best rows). mg_user_id r = mg_user_id x" if "x \<in> set rows"
    using first [OF that refl] by (intro bexI [of _ "?first (mg_user_id x)"]) (auto simp: per_user_best_def)
  show "distinct (map mg_user_id (per_user_best best rows))" if "distinct rows"
  proof -
    have "inj_on mg_user_id (set (per_user_best best rows))" by (auto simp: inj_on_def per_user_best_def)
    with that show ?thesis by (simp add: distinct_map) (simp add: per_user_best_def)
  qed
qed

lemma position_bounds:
  fixes k :: "'r \<Rightarrow> 'k :: linorder"
  assumes "distinct (map g xs)" "i < length xs"
  defines "L \<equiv> sort_key k xs"
  shows "card (g ` {x \<in> set xs. k x < k (L ! i)}) \<le> i" "Suc i \<le> card (g ` {x \<in> set xs. k x \<le> k (L ! i)})"
proof -
  have L: "set L = set xs" "length L = length xs" "sorted (map k L)" by (simp_all add: L_def)
  have "mset (map g L) = mset (map g xs)" by (simp add: L_def)
  then have dist: "distinct (map g L)" using assms(1) mset_eq_imp_distinct_iff by blast
  have "{x \<in> set xs. k x < k (L ! i)} \<subseteq> set (take i L)"
  proof
    fix x
    assume "x \<in> {x \<in> set xs. k x < k (L ! i)}"
    then obtain j where j: "j < length L" "x = L ! j" "k (L ! j) < k (L ! i)" by (auto simp: L(1) [symmetric] in_set_conv_nth)
    have "j < i"
    proof (rule ccontr)
      assume "\<not> j < i"
      then have "k (L ! i) \<le> k (L ! j)" using sorted_nth_mono [OF L(3), of i j] j(1) by simp
      with j(3) show False by simp
    qed
    then show "x \<in> set (take i L)" using j assms(2) L(2) by (auto simp: in_set_conv_nth)
  qed
  then have "card (g ` {x \<in> set xs. k x < k (L ! i)}) \<le> card (set (take i L))"
    by (meson List.finite_set card_image_le card_mono finite_imageI finite_subset le_trans)
  also have "\<dots> \<le> i" using card_length [of "take i L"] by simp
  finally show "card (g ` {x \<in> set xs. k x < k (L ! i)}) \<le> i" .
  have "set (take (Suc i) L) \<subseteq> {x \<in> set xs. k x \<le> k (L ! i)}"
  proof
    fix x
    assume "x \<in> set (take (Suc i) L)"
    then obtain j where "j < Suc i" "j < length L" "x = L ! j" by (auto simp: in_set_conv_nth)
    then show "x \<in> {x \<in> set xs. k x \<le> k (L ! i)}"
      using sorted_nth_mono [OF L(3), of j i] assms(2) L(1,2) by (auto simp flip: L(1))
  qed
  then have "card (g ` set (take (Suc i) L)) \<le> card (g ` {x \<in> set xs. k x \<le> k (L ! i)})"
    by (intro card_mono image_mono) auto
  moreover have "distinct (map g (take (Suc i) L))" using dist by (simp add: take_map [symmetric])
  then have "card (g ` set (take (Suc i) L)) = Suc i"
    using distinct_card [of "map g (take (Suc i) L)"] assms(2) L(2) by simp
  ultimately show "Suc i \<le> card (g ` {x \<in> set xs. k x \<le> k (L ! i)})" by simp
qed

definition better :: "BestScore \<Rightarrow> MiniGameRunModel list \<Rightarrow> MiniGameRunModel \<Rightarrow> uuid set" where
  "better best rows r = {v. \<exists>x \<in> set rows. mg_user_id x = v \<and> board_key best x < board_key best r}"

definition as_good :: "BestScore \<Rightarrow> MiniGameRunModel list \<Rightarrow> MiniGameRunModel \<Rightarrow> uuid set" where
  "as_good best rows r = {v. \<exists>x \<in> set rows. mg_user_id x = v \<and> board_key best x \<le> board_key best r}"

lemma best_users:
  "mg_user_id ` {x \<in> set (per_user_best best rows). board_key best x < c} = {v. \<exists>x \<in> set rows. mg_user_id x = v \<and> board_key best x < c}"
  "mg_user_id ` {x \<in> set (per_user_best best rows). board_key best x \<le> c} = {v. \<exists>x \<in> set rows. mg_user_id x = v \<and> board_key best x \<le> c}"
proof -
  have sub: "set (per_user_best best rows) \<subseteq> set rows" by (auto simp: per_user_best_def)
  have better: "\<exists>b \<in> set (per_user_best best rows). mg_user_id b = mg_user_id x \<and> board_key best b \<le> board_key best x"
    if "x \<in> set rows" for x
    using per_user_best_props(1) [of _ best rows] per_user_best_props(2) [OF that, of best] that by (force simp: best_run_def)
  show "mg_user_id ` {x \<in> set (per_user_best best rows). board_key best x < c} = {v. \<exists>x \<in> set rows. mg_user_id x = v \<and> board_key best x < c}"
  proof (intro equalityI subsetI)
    fix v
    assume "v \<in> {v. \<exists>x \<in> set rows. mg_user_id x = v \<and> board_key best x < c}"
    then obtain x where x: "x \<in> set rows" "mg_user_id x = v" "board_key best x < c" by blast
    from better [OF x(1)] obtain b where b: "b \<in> set (per_user_best best rows)" "mg_user_id b = v" "board_key best b \<le> board_key best x"
      using x(2) by blast
    moreover have "board_key best b < c" using b(3) x(3) by (rule le_less_trans)
    ultimately show "v \<in> mg_user_id ` {x \<in> set (per_user_best best rows). board_key best x < c}" by blast
  qed (use sub in blast)
  show "mg_user_id ` {x \<in> set (per_user_best best rows). board_key best x \<le> c} = {v. \<exists>x \<in> set rows. mg_user_id x = v \<and> board_key best x \<le> c}"
  proof (intro equalityI subsetI)
    fix v
    assume "v \<in> {v. \<exists>x \<in> set rows. mg_user_id x = v \<and> board_key best x \<le> c}"
    then obtain x where x: "x \<in> set rows" "mg_user_id x = v" "board_key best x \<le> c" by blast
    from better [OF x(1)] obtain b where b: "b \<in> set (per_user_best best rows)" "mg_user_id b = v" "board_key best b \<le> board_key best x"
      using x(2) by blast
    moreover have "board_key best b \<le> c" using b(3) x(3) by (rule order_trans)
    ultimately show "v \<in> mg_user_id ` {x \<in> set (per_user_best best rows). board_key best x \<le> c}" by blast
  qed (use sub in blast)
qed

text \<open>An entry of the ranking, whatever order the rows came in.\<close>

lemma ranked_entry:
  assumes "distinct (mini_game_runs s)" "permutes_rows scan" "(rank, r) \<in> set (ranked_best_runs board since scan s)"
  defines "Q \<equiv> qualifying board since s" and "best \<equiv> mb_best board"
  shows "best_run best Q r \<and> int (card (better best Q r)) < rank \<and> rank \<le> int (card (as_good best Q r))"
proof -
  let ?rows = "scan Q" and ?xs = "per_user_best best (scan Q)"
  have set_rows: "set ?rows = set Q" using assms(2) by (rule permutes_rowsD)
  have "distinct Q" using assms(1) by (simp add: Q_def qualifying_def)
  then have dist: "distinct (map mg_user_id ?xs)" using assms(2) per_user_best_props(3) permutes_rowsD(2) by blast
  obtain i where i: "i < length ?xs" "rank = int i + 1" "r = sort_key (board_key best) ?xs ! i"
    using assms(3) by (auto simp: ranked_best_runs_def Let_def set_zip Q_def best_def)
  have "r \<in> set (sort_key (board_key best) ?xs)" using i by (metis length_sort nth_mem)
  then have "best_run best ?rows r" by (intro per_user_best_props(1)) simp
  then have "best_run best Q r" using set_rows by (simp add: best_run_def)
  moreover have "card (better best Q r) \<le> i" "Suc i \<le> card (as_good best Q r)"
    using position_bounds [OF dist i(1), of "board_key best"] i(3) best_users [where rows = ?rows] set_rows
    by (simp_all add: better_def as_good_def)
  ultimately show ?thesis using i(2) by simp
qed

lemma ranked_user:
  assumes "distinct (mini_game_runs s)" "permutes_rows scan" "x \<in> set (qualifying board since s)"
  shows "\<exists>rank r. (rank, r) \<in> set (ranked_best_runs board since scan s) \<and> mg_user_id r = mg_user_id x"
proof -
  let ?xs = "per_user_best (mb_best board) (scan (qualifying board since s))"
  have "x \<in> set (scan (qualifying board since s))" using assms(2,3) permutes_rowsD(1) by blast
  then obtain r where "r \<in> set (sort_key (board_key (mb_best board)) ?xs)" "mg_user_id r = mg_user_id x"
    using per_user_best_props(2) by force
  then obtain i where "i < length ?xs" "r = sort_key (board_key (mb_best board)) ?xs ! i"
    by (metis in_set_conv_nth length_sort)
  then have "(int i + 1, r) \<in> set (ranked_best_runs board since scan s)"
    by (auto simp: ranked_best_runs_def Let_def set_zip intro!: exI [of _ i])
  with \<open>mg_user_id r = mg_user_id x\<close> show ?thesis by blast
qed

section \<open>What the service promises\<close>

lemma find_user:
  assumes "List.find (\<lambda>(_, r). mg_user_id r = who) rows = Some p"
  shows "(fst p, snd p) \<in> set rows \<and> mg_user_id (snd p) = who"
  using assms by (induction rows) (auto split: if_splits)

text \<open>
  The rank of a player is exact. A player is off the board exactly when no run of hers qualifies; otherwise the
  score is that of a best run of hers, and the rank lies above the number of players with a better run and not
  above the number of players whose best run is as good, she included. In which order the database
  comes across the rows is left open.
\<close>

theorem leaderboard_rank_exact:
  assumes "distinct (mini_game_runs s)" "permutes_rows scan"
  shows "case leaderboard_rank_of board since scan who s of
      None \<Rightarrow> \<forall>x \<in> set (qualifying board since s). mg_user_id x \<noteq> who
    | Some (rank, score) \<Rightarrow> \<exists>r. best_run (mb_best board) (qualifying board since s) r \<and> mg_user_id r = who
        \<and> score = mg_average_reaction_ms r
        \<and> int (card (better (mb_best board) (qualifying board since s) r)) < rank
        \<and> rank \<le> int (card (as_good (mb_best board) (qualifying board since s) r))"
proof (cases "List.find (\<lambda>(_, r). mg_user_id r = who) (ranked_best_runs board since scan s)")
  case None
  then have "\<forall>x \<in> set (qualifying board since s). mg_user_id x \<noteq> who"
    using ranked_user [OF assms] by (force simp: find_None_iff)
  with None show ?thesis by (simp add: leaderboard_rank_of_def)
next
  case (Some p)
  obtain rank r where p: "p = (rank, r)" "(rank, r) \<in> set (ranked_best_runs board since scan s)" "mg_user_id r = who"
    using find_user [OF Some] by (cases p) simp
  from ranked_entry [OF assms p(2)] p(3)
  have "\<exists>r'. best_run (mb_best board) (qualifying board since s) r' \<and> mg_user_id r' = who
        \<and> mg_average_reaction_ms r = mg_average_reaction_ms r'
        \<and> int (card (better (mb_best board) (qualifying board since s) r')) < rank
        \<and> rank \<le> int (card (as_good (mb_best board) (qualifying board since s) r'))" by blast
  with Some p(1) show ?thesis by (simp add: leaderboard_rank_of_def)
qed

lemma best_key_score: "board_key best r = board_key best r' \<Longrightarrow> mg_average_reaction_ms r = mg_average_reaction_ms r'"
  by (cases best; cases "mg_average_reaction_ms r"; cases "mg_average_reaction_ms r'") (auto simp: board_key_def)

lemma best_run_key:
  "best_run best rows r \<Longrightarrow> best_run best rows r' \<Longrightarrow> mg_user_id r = mg_user_id r' \<Longrightarrow> board_key best r = board_key best r'"
  by (force simp: best_run_def intro: antisym)

text \<open>No two players have equally good best runs, to the microsecond.\<close>

definition no_ties :: "BestScore \<Rightarrow> MiniGameRunModel list \<Rightarrow> bool" where
  "no_ties best rows \<longleftrightarrow> (\<forall>r \<in> set rows. \<forall>r' \<in> set rows. best_run best rows r \<longrightarrow> best_run best rows r' \<longrightarrow>
     board_key best r = board_key best r' \<longrightarrow> mg_user_id r = mg_user_id r')"

lemma no_ties_rank:
  assumes "no_ties best rows" "best_run best rows r"
  shows "as_good best rows r \<subseteq> insert (mg_user_id r) (better best rows r)"
proof
  fix v
  assume "v \<in> as_good best rows r"
  then obtain x where x: "x \<in> set rows" "mg_user_id x = v" "board_key best x \<le> board_key best r" by (auto simp: as_good_def)
  from per_user_best_props(2) [OF x(1), of best] obtain b where b: "b \<in> set (per_user_best best rows)" "mg_user_id b = v"
    using x(2) by blast
  from per_user_best_props(1) [OF b(1)] have best: "best_run best rows b" .
  then have le: "board_key best b \<le> board_key best r" and "b \<in> set rows" using x b(2) by (auto simp: best_run_def)
  show "v \<in> insert (mg_user_id r) (better best rows r)"
  proof (cases "board_key best b = board_key best r")
    case True
    with assms best \<open>b \<in> set rows\<close> b(2) have "v = mg_user_id r" by (auto simp: no_ties_def best_run_def)
    then show ?thesis by simp
  next
    case False
    with le \<open>b \<in> set rows\<close> b(2) show ?thesis by (auto simp: better_def)
  qed
qed

lemma ranked_no_ties:
  assumes "distinct (mini_game_runs s)" "permutes_rows scan" "(rank, r) \<in> set (ranked_best_runs board since scan s)"
    "no_ties (mb_best board) (qualifying board since s)"
  shows "rank = int (card (better (mb_best board) (qualifying board since s) r)) + 1"
proof -
  let ?Q = "qualifying board since s" and ?k = "mb_best board"
  from ranked_entry [OF assms(1-3)] have r: "best_run ?k ?Q r" "int (card (better ?k ?Q r)) < rank" "rank \<le> int (card (as_good ?k ?Q r))"
    by blast+
  have fin: "finite (better ?k ?Q r)" by (rule finite_subset [of _ "mg_user_id ` set ?Q"]) (auto simp: better_def)
  have "card (as_good ?k ?Q r) \<le> card (insert (mg_user_id r) (better ?k ?Q r))"
    using no_ties_rank [OF assms(4) r(1)] fin by (intro card_mono) simp_all
  also have "\<dots> \<le> Suc (card (better ?k ?Q r))" using fin by (simp add: card_insert_if)
  finally show ?thesis using r(2,3) by simp
qed

text \<open>
  Without ties the two queries agree. Whatever orders the database comes across the rows in for the top
  list and for the rank, a player in the list is told the rank and the score the list shows.
\<close>

theorem top_agrees_without_ties:
  assumes "distinct (mini_game_runs s)" "permutes_rows scan" "permutes_rows scan'"
    "no_ties (mb_best board) (qualifying board since s)"
    "row \<in> set (leaderboard_top board since limit scan s)"
  shows "leaderboard_rank_of board since scan' (lr_user_id row) s = Some (lr_rank row, lr_score row)"
proof -
  let ?Q = "qualifying board since s" and ?k = "mb_best board"
  from assms(5) obtain rank r u where row: "(rank, r) \<in> set (ranked_best_runs board since scan s)" "row = leaderboard_row rank r u"
    by (auto simp: leaderboard_top_def dest!: in_set_takeD split: option.splits)
  note top_entry = ranked_entry [OF assms(1,2) row(1)]
  then have "r \<in> set ?Q" by (auto simp: best_run_def)
  from ranked_user [OF assms(1,3) this] obtain rank' r' where r': "(rank', r') \<in> set (ranked_best_runs board since scan' s)" "mg_user_id r' = mg_user_id r"
    by blast
  then obtain p where find: "List.find (\<lambda>(_, x). mg_user_id x = mg_user_id r) (ranked_best_runs board since scan' s) = Some p"
    by (cases "List.find (\<lambda>(_, x). mg_user_id x = mg_user_id r) (ranked_best_runs board since scan' s)") (auto simp: find_None_iff)
  from find_user [OF this] have entry: "(fst p, snd p) \<in> set (ranked_best_runs board since scan' s)"
    and user: "mg_user_id (snd p) = mg_user_id r" by auto
  from ranked_entry [OF assms(1,3) entry] top_entry user have key: "board_key ?k (snd p) = board_key ?k r"
    using best_run_key by blast
  then have "better ?k ?Q (snd p) = better ?k ?Q r" by (simp add: better_def)
  with ranked_no_ties [OF assms(1,3) entry assms(4)] ranked_no_ties [OF assms(1,2) row(1) assms(4)]
  have "fst p = rank" by simp
  with find best_key_score [OF key] show ?thesis
    by (cases p) (simp add: leaderboard_rank_of_def row(2) leaderboard_row_def)
qed

text \<open>Two players with one accepted run each, of the given averages, finished in the same microsecond.\<close>

definition board_run :: "uuid \<Rightarrow> rat \<Rightarrow> MiniGameRunModel" where
  "board_run who average = \<lparr>mg_id = who, mg_user_id = who, mg_mini_game_id = TAP_REFLEX, mg_round_delays_ms = [],
     mg_issued_at = 0, mg_expires_at = 10, mg_finished_at = Some 5, mg_status = ACCEPTED, mg_average_reaction_ms = Some average\<rparr>"

definition board_tables :: "rat \<Rightarrow> database" where
  "board_tables average = one_user\<lparr>users := [adult_user, adult_user\<lparr>u_id := 2\<rparr>],
     mini_game_runs := [board_run 1 300, board_run 2 average]\<rparr>"

definition reflex_board :: MiniGameBoard where
  "reflex_board = \<lparr>mb_mini_game_id = TAP_REFLEX, mb_best = LOWEST\<rparr>"

lemma board_tables_simps:
  "mini_game_runs (board_tables a) = [board_run 1 300, board_run 2 a]"
  "qualifying reflex_board None (board_tables a) = [board_run 1 300, board_run 2 a]"
  "user_row (board_tables a) 1 = Some adult_user" "user_row (board_tables a) 2 = Some (adult_user\<lparr>u_id := 2\<rparr>)"
  "mg_user_id (board_run u a) = u" "mg_average_reaction_ms (board_run u a) = Some a"
  "board_key LOWEST (board_run u a) = ((0, a), (0, 5))" "mb_best reflex_board = LOWEST"
  "board_run u a = board_run v b \<longleftrightarrow> u = v \<and> a = b"
  by (auto simp: board_tables_def qualifying_def board_run_def reflex_board_def user_row_def select_one_def
      adult_user_def board_key_def time_key_def)

lemma board_scans: "permutes_rows (\<lambda>rows. rows)" "permutes_rows rev"
  by (simp_all add: permutes_rows_def)

theorem leaderboard_rank_exact_witness:
  "\<exists>r. r \<in> set [board_run 1 300, board_run 2 310] \<and> mg_user_id r = 2"
proof -
  have "distinct (mini_game_runs (board_tables 310))" by (simp add: board_tables_simps)
  from leaderboard_rank_exact [OF this board_scans(1), of reflex_board None 2]
  show ?thesis by (auto simp: board_tables_simps best_run_def split: option.splits)
qed

theorem top_agrees_without_ties_witness:
  "leaderboard_rank_of reflex_board None rev 2 (board_tables 310) = Some (2, Some 310)"
proof -
  have "distinct (mini_game_runs (board_tables 310))" by (simp add: board_tables_simps)
  moreover have "no_ties (mb_best reflex_board) (qualifying reflex_board None (board_tables 310))"
    by (simp add: board_tables_simps no_ties_def)
  moreover have "leaderboard_row 2 (board_run 2 310) (adult_user\<lparr>u_id := 2\<rparr>)
      \<in> set (leaderboard_top reflex_board None 50 (\<lambda>rows. rows) (board_tables 310))"
    by (simp add: leaderboard_top_def ranked_best_runs_def per_user_best_def board_tables_simps)
  ultimately show ?thesis
    using top_agrees_without_ties [OF _ board_scans, of "board_tables 310" reflex_board None _ 50] 
    by (fastforce simp: leaderboard_row_def board_tables_simps)
qed

text \<open>
  With a tie they need not agree. Two players whose best runs have the same average and end in the same
  microsecond: the list puts the second player first, and the same tables tell her that she is second.
\<close>

theorem leaderboard_ties_disagree:
  "map lr_user_id (leaderboard_top reflex_board None TOP_N rev (board_tables 300)) = [2, 1]
   \<and> map lr_rank (leaderboard_top reflex_board None TOP_N rev (board_tables 300)) = [1, 2]
   \<and> leaderboard_rank_of reflex_board None (\<lambda>rows. rows) 2 (board_tables 300) = Some (2, Some 300)"
  by (simp add: leaderboard_top_def ranked_best_runs_def per_user_best_def board_tables_simps TOP_N_def
      leaderboard_rank_of_def leaderboard_row_def)

section \<open>How stale an answer may be\<close>

text \<open>The list an answer shows was read by the call \<open>d\<close>.\<close>

definition read_by :: "nat \<Rightarrow> zone \<Rightarrow> MiniGameBoard \<Rightarrow> board_call \<Rightarrow> cached_top" where
  "read_by top_n z board d = \<lparr>ct_entries = leaderboard_top board (window_start (bc_period d) (bc_now d) z) top_n (bc_top_scan d) (bc_tables d),
     ct_updated_at = bc_now d, ct_expires_at = bc_monotonic d + CACHE_TTL\<rparr>"

definition read_among :: "nat \<Rightarrow> zone \<Rightarrow> board_call list \<Rightarrow> MiniGameId \<times> LeaderboardPeriod \<Rightarrow> cached_top \<Rightarrow> bool" where
  "read_among top_n z past key cached \<longleftrightarrow> (\<exists>d \<in> set past. \<exists>board. MINI_GAME_BOARDS (fst key) = Some board
     \<and> (bc_game d, bc_period d) = key \<and> cached = read_by top_n z board d)"

definition cache_from :: "nat \<Rightarrow> zone \<Rightarrow> board_call list \<Rightarrow> board_cache \<Rightarrow> bool" where
  "cache_from top_n z past cache \<longleftrightarrow> (\<forall>key cached. cache key = Some cached \<longrightarrow> read_among top_n z past key cached)"

lemma read_among_more: "read_among top_n z past key cached \<Longrightarrow> read_among top_n z (past @ [c]) key cached"
  by (auto simp: read_among_def)

text \<open>
  An answer to \<open>c\<close>: its list was read by a call for the same board and period, by \<open>c\<close> itself or less than
  the lifetime before it; the player's own place is read by \<open>c\<close>.
\<close>

definition fresh_answer :: "nat \<Rightarrow> zone \<Rightarrow> board_call list \<Rightarrow> board_call \<Rightarrow> Leaderboard \<Rightarrow> bool" where
  "fresh_answer top_n z past c lb \<longleftrightarrow>
     (\<exists>board. MINI_GAME_BOARDS (bc_game c) = Some board
        \<and> lb_me lb = leaderboard_me board (window_start (bc_period c) (bc_now c) z) (bc_me_scan c) (bc_user c) (bc_tables c)
        \<and> (\<exists>d \<in> set (past @ [c]). bc_game d = bc_game c \<and> bc_period d = bc_period c
             \<and> (d = c \<or> bc_monotonic c - bc_monotonic d < CACHE_TTL)
             \<and> lb_updated_at lb = bc_now d
             \<and> lb_entries lb = leaderboard_top board (window_start (bc_period d) (bc_now d) z) top_n (bc_top_scan d) (bc_tables d)))"

lemma board_game: "MINI_GAME_BOARDS game = Some board \<Longrightarrow> mb_mini_game_id board = game"
  by (cases game) auto

lemma get_leaderboard_fresh:
  assumes "cache_from top_n z past cache" "get_leaderboard top_n z c cache = (r, cache')"
  shows "cache_from top_n z (past @ [c]) cache' \<and> (\<forall>lb. r = Inr lb \<longrightarrow> fresh_answer top_n z past c lb)"
proof (cases "MINI_GAME_BOARDS (bc_game c)")
  case None
  with assms show ?thesis by (auto simp: get_leaderboard_def cache_from_def read_among_more)
next
  case (Some board)
  let ?key = "(bc_game c, bc_period c)" and ?new = "read_by top_n z board c"
  let ?since = "window_start (bc_period c) (bc_now c) z"
  obtain cached where step: "get_cached_top top_n board (bc_period c) ?since (bc_now c) (bc_monotonic c)
      (bc_top_scan c) (bc_tables c) cache = (cached, cache')"
    and r: "r = Inr \<lparr>lb_mini_game_id = bc_game c, lb_period = bc_period c, lb_resets_at = resets_at (bc_period c) (bc_now c) z,
        lb_updated_at = ct_updated_at cached, lb_entries = ct_entries cached,
        lb_me = leaderboard_me board ?since (bc_me_scan c) (bc_user c) (bc_tables c)\<rparr>"
    using assms(2) Some by (auto simp: get_leaderboard_def Let_def split: prod.splits)
  have cases: "cached = ?new \<and> cache' = cache(?key \<mapsto> ?new)
      \<or> cache ?key = Some cached \<and> bc_monotonic c < ct_expires_at cached \<and> cache' = cache"
    using step board_game [OF Some] by (auto simp: get_cached_top_def read_by_def Let_def split: option.splits if_splits)
  have "read_among top_n z (past @ [c]) ?key ?new" using Some by (auto simp: read_among_def)
  then have "cache_from top_n z (past @ [c]) cache'"
    unfolding cache_from_def using cases assms(1) [unfolded cache_from_def, rule_format, THEN read_among_more]
    by (auto split: if_splits)
  moreover have "\<exists>d \<in> set (past @ [c]). bc_game d = bc_game c \<and> bc_period d = bc_period c
      \<and> (d = c \<or> bc_monotonic c - bc_monotonic d < CACHE_TTL) \<and> cached = read_by top_n z board d"
    using cases
  proof (elim disjE conjE)
    assume "cache ?key = Some cached" "bc_monotonic c < ct_expires_at cached"
    with assms(1) Some obtain d where "d \<in> set past" "bc_game d = bc_game c" "bc_period d = bc_period c" "cached = read_by top_n z board d"
      unfolding cache_from_def read_among_def by force
    with \<open>bc_monotonic c < ct_expires_at cached\<close> show ?thesis by (auto simp: read_by_def)
  qed simp
  ultimately show ?thesis using Some r by (auto simp: fresh_answer_def read_by_def)
qed

text \<open>
  An answer is never older than a minute. Over any sequence of calls, from the empty cache, every list that is
  answered was read from the database, for the same game and period, by the call itself or by an earlier call less
  than 60 seconds before (on the monotonic clock), and says when; the player's own rank is always read by the call itself.
\<close>

theorem leaderboard_stale_bounded:
  assumes "i < length cs" "fst (answers (get_leaderboard top_n z) cs (\<lambda>_. None)) ! i = Inr lb"
  shows "fresh_answer top_n z (take i cs) (cs ! i) lb"
proof -
  have "fresh_answer top_n z (past @ take i cs) (cs ! i) lb"
    if "cache_from top_n z past cache" "i < length cs" "fst (answers (get_leaderboard top_n z) cs cache) ! i = Inr lb"
    for past cache
    using that
  proof (induction cs arbitrary: past cache i)
    case (Cons c cs)
    obtain r cache' where step: "get_leaderboard top_n z c cache = (r, cache')" by fastforce
    from get_leaderboard_fresh [OF Cons.prems(1) step] Cons.prems(2,3) Cons.IH [of "past @ [c]" cache'] step
    show ?case by (cases i) (auto split: prod.splits)
  qed simp
  from this [of "[]" "\<lambda>_. None"] assms show ?thesis by (simp add: cache_from_def)
qed

definition board_call_at :: "int \<Rightarrow> board_call" where
  "board_call_at now = \<lparr>bc_game = TAP_REFLEX, bc_period = ALL_TIME, bc_user = 1, bc_now = now, bc_monotonic = now,
     bc_tables = board_tables 310, bc_top_scan = rev, bc_me_scan = rev\<rparr>"

theorem leaderboard_stale_bounded_witness:
  "\<exists>lb. fst (answers (get_leaderboard TOP_N tehran) [board_call_at 0, board_call_at 7] (\<lambda>_. None)) ! 1 = Inr lb
     \<and> lb_updated_at lb = 0 \<and> fresh_answer TOP_N tehran [board_call_at 0] (board_call_at 7) lb"
proof -
  obtain lb where lb: "fst (answers (get_leaderboard TOP_N tehran) [board_call_at 0, board_call_at 7] (\<lambda>_. None)) ! 1 = Inr lb"
    "lb_updated_at lb = 0"
    by (simp add: get_leaderboard_def get_cached_top_def board_call_at_def CACHE_TTL_def Let_def)
  from leaderboard_stale_bounded [OF _ this(1)] lb show ?thesis by auto
qed

end
