(* ===== verification/Gateway.thy ===== *)
theory Gateway
  imports Codes Users Bank
begin

text \<open>
  The edge of the service: the middleware of \<open>app/api/middleware.py\<close> (request log, rate limit, CSRF guard,
  last error envelope), the error bodies and handlers of \<open>app/api/errors.py\<close>, and the chain \<open>create_app\<close>
  builds of them. Starlette's CORS middleware is an argument; responses are sent whole; the clocks are counts of
  microseconds; the text of a JSON body is its record.
\<close>

section \<open>Requests and responses\<close>

text \<open>Header names are lower-case, as ASGI has them; \<open>rq_http\<close> is \<open>scope["type"] == "http"\<close>.\<close>

type_synonym headers = "(pystr \<times> pystr) list"

record 'b request =
  rq_http :: bool
  rq_method :: pystr
  rq_path :: pystr
  rq_client :: "pystr option"
  rq_headers :: headers
  rq_content :: 'b

definition header :: "headers \<Rightarrow> string \<Rightarrow> pystr option" where
  "header hs name = map_option snd (List.find (\<lambda>(n, _). n = cp name) hs)"

datatype detail_value = Detail_Int int | Detail_Instant "instant option"

record FieldError =
  fe_field :: pystr
  fe_message :: pystr
  fe_type :: pystr

text \<open>The body \<open>error_body\<close> builds.\<close>

record ErrorDetail =
  ed_code :: string
  ed_message :: pystr
  ed_request_id :: "pystr option"
  ed_fields :: "FieldError list option"
  ed_details :: "(string \<times> detail_value) list option"

definition error_bytes :: "string \<Rightarrow> pystr \<Rightarrow> pystr option \<Rightarrow> ErrorDetail" where
  "error_bytes code message request_id =
     \<lparr>ed_code = code, ed_message = message, ed_request_id = request_id, ed_fields = None, ed_details = None\<rparr>"

datatype 'a body = Error_Body ErrorDetail | Content 'a

record 'a response =
  rs_status :: int
  rs_headers :: headers
  rs_body :: "'a body"

text \<open>The part of \<open>scope["state"]\<close> the code reads and writes.\<close>

record scope_state =
  ss_request_id :: "pystr option"
  ss_error_code :: "string option"

definition note_error_code :: "string \<Rightarrow> scope_state \<Rightarrow> scope_state" where
  "note_error_code code st = st\<lparr>ss_error_code := Some code\<rparr>"

section \<open>Exceptions and their handlers\<close>

record ApiError =
  ae_status_code :: int
  ae_code :: string
  ae_message :: string
  ae_retry_after_seconds :: "int option"
  ae_details :: "(string \<times> detail_value) list option"

text \<open>What leaves an endpoint: an \<open>ApiError\<close>, an \<open>HTTPException\<close>, a \<open>RequestValidationError\<close>, or anything else.\<close>

datatype http_error =
    Api_Error ApiError
  | Http_Error int pystr headers
  | Validation_Error "FieldError list"
  | Unhandled py_error

type_synonym ('b, 'a, 's) layer = "'b request \<Rightarrow> scope_state \<Rightarrow> 's \<Rightarrow> (http_error + 'a response) \<times> scope_state \<times> 's"

definition HTTP_CODES :: "int \<Rightarrow> string option" where
  "HTTP_CODES = map_of [(400, ''BAD_REQUEST''), (401, ''AUTH_REQUIRED''), (403, ''FORBIDDEN''), (404, ''NOT_FOUND''),
     (405, ''METHOD_NOT_ALLOWED''), (413, ''PAYLOAD_TOO_LARGE''), (429, ''RATE_LIMITED''), (503, ''SERVICE_UNAVAILABLE'')]"

definition http_code :: "int \<Rightarrow> string" where
  "http_code n = (case HTTP_CODES n of Some code \<Rightarrow> code | None \<Rightarrow> ''HTTP_'' @ map char_of (show_int n))"

definition http_message :: "int \<Rightarrow> pystr \<Rightarrow> pystr" where
  "http_message n detail = (if n = 404 then cp ''no such route'' else if n = 405 then cp ''method not allowed for this route''
     else if n = 503 then cp ''service unavailable'' else detail)"

definition api_error_handler :: "ApiError \<Rightarrow> scope_state \<Rightarrow> 'a response \<times> scope_state" where
  "api_error_handler e st =
     (let st' = note_error_code (ae_code e) st in
      (\<lparr>rs_status = ae_status_code e,
         rs_headers = (case ae_retry_after_seconds e of None \<Rightarrow> [] | Some n \<Rightarrow> [(cp ''retry-after'', show_int n)]),
         rs_body = Error_Body (error_bytes (ae_code e) (cp (ae_message e)) (ss_request_id st')\<lparr>ed_details := ae_details e\<rparr>)\<rparr>, st'))"

definition http_error_handler :: "int \<Rightarrow> pystr \<Rightarrow> headers \<Rightarrow> scope_state \<Rightarrow> 'a response \<times> scope_state" where
  "http_error_handler status_code detail hs st =
     (let st' = note_error_code (http_code status_code) st in
      (\<lparr>rs_status = status_code, rs_headers = hs,
         rs_body = Error_Body (error_bytes (http_code status_code) (http_message status_code detail) (ss_request_id st'))\<rparr>, st'))"

definition validation_error_handler :: "FieldError list \<Rightarrow> scope_state \<Rightarrow> 'a response \<times> scope_state" where
  "validation_error_handler field_errors st =
     (let st' = note_error_code ''VALIDATION_FAILED'' st in
      (\<lparr>rs_status = 422, rs_headers = [],
         rs_body = Error_Body (error_bytes ''VALIDATION_FAILED'' (cp ''request validation failed'') (ss_request_id st')
           \<lparr>ed_fields := Some field_errors\<rparr>)\<rparr>, st'))"

definition unhandled_error_handler :: "scope_state \<Rightarrow> 'a response" where
  "unhandled_error_handler st =
     \<lparr>rs_status = 500, rs_headers = [], rs_body = Error_Body (error_bytes ''INTERNAL_ERROR'' (cp ''internal error'') (ss_request_id st))\<rparr>"

text \<open>The application with the three handlers; other exceptions go on.\<close>

definition handled :: "('b request \<Rightarrow> 's \<Rightarrow> (http_error + 'a response) \<times> 's) \<Rightarrow> ('b, 'a, 's) layer" where
  "handled endpoint rq st s =
     (case endpoint rq s of
        (Inr r, t) \<Rightarrow> (Inr r, st, t)
      | (Inl (Api_Error e), t) \<Rightarrow> (let (r, st') = api_error_handler e st in (Inr r, st', t))
      | (Inl (Http_Error n detail hs), t) \<Rightarrow> (let (r, st') = http_error_handler n detail hs st in (Inr r, st', t))
      | (Inl (Validation_Error field_errors), t) \<Rightarrow> (let (r, st') = validation_error_handler field_errors st in (Inr r, st', t))
      | (Inl (Unhandled e), t) \<Rightarrow> (Inl (Unhandled e), st, t))"

section \<open>The last envelope\<close>

definition json_type :: "pystr \<times> pystr" where
  "json_type = (cp ''content-type'', cp ''application/json'')"

definition error_envelope :: "('b, 'a, 's) layer \<Rightarrow> ('b, 'a, 's) layer" where
  "error_envelope inner rq st s =
     (if \<not> rq_http rq then inner rq st s
      else
        (case inner rq st s of
           (Inr r, st', t) \<Rightarrow> (Inr r, st', t)
         | (Inl _, st', t) \<Rightarrow>
             (Inr \<lparr>rs_status = 500, rs_headers = [json_type],
                rs_body = Error_Body (error_bytes ''INTERNAL_ERROR'' (cp ''internal error'') (ss_request_id st'))\<rparr>,
              note_error_code ''INTERNAL_ERROR'' st', t)))"

section \<open>The CSRF guard\<close>

definition ADMIN_PATH :: pystr where
  "ADMIN_PATH = cp ''/admin''"

definition UNSAFE_METHODS :: "pystr list" where
  "UNSAFE_METHODS = map cp [''POST'', ''PUT'', ''PATCH'', ''DELETE'']"

record gateway_settings =
  gs_requests :: int
  gs_window_seconds :: int
  gs_cookie_name :: pystr
  gs_allowed_origins :: "pystr list"

text \<open>
  The network location of \<open>urllib.parse.urlsplit\<close>, which raises \<open>ValueError\<close> when a bracket is not matched or the
  bracketed host is not an IP literal; \<open>ip_literal\<close> is the module's check of that host. (Its check of normal
  forms never fires on header text, which is Latin-1.)
\<close>

definition scheme_char :: "nat \<Rightarrow> bool" where
  "scheme_char c \<longleftrightarrow> ascii_alnum c \<or> c \<in> {43, 45, 46}"

definition without_scheme :: "pystr \<Rightarrow> pystr" where
  "without_scheme url =
     (let stem = takeWhile (\<lambda>c. c \<noteq> 58) url in
      if stem \<noteq> url \<and> stem \<noteq> [] \<and> ascii_alnum (hd stem) \<and> \<not> (48 \<le> hd stem \<and> hd stem \<le> 57) \<and> list_all scheme_char stem
      then drop (Suc (length stem)) url else url)"

definition bracketed_host :: "pystr \<Rightarrow> (bool \<times> pystr)" where
  "bracketed_host netloc =
     (let place = after_last 64 netloc;
          before = takeWhile (\<lambda>c. c \<noteq> 91) place in
      if before = place then (True, takeWhile (\<lambda>c. c \<noteq> 58) place)
      else
        (let bracketed = drop (Suc (length before)) place;
             host = takeWhile (\<lambda>c. c \<noteq> 93) bracketed;
             port = drop (Suc (length host)) bracketed in
         (before = [] \<and> (port = [] \<or> hd port = 58), host)))"

definition url_netloc :: "(pystr \<Rightarrow> bool) \<Rightarrow> pystr \<Rightarrow> py_error + pystr" where
  "url_netloc ip_literal url =
     (let cleaned = filter (\<lambda>c. c \<notin> {9, 13, 10}) (lstrip_by (\<lambda>c. c \<le> 32) url);
          rest = without_scheme cleaned in
      if take 2 rest \<noteq> [47, 47] then Inr []
      else
        (let netloc = takeWhile (\<lambda>c. c \<notin> {47, 63, 35}) (drop 2 rest) in
         if (91 \<in> set netloc) \<noteq> (93 \<in> set netloc) then Inl (ValueError ''Invalid IPv6 URL'')
         else if 91 \<in> set netloc then
           (let (shape, host) = bracketed_host netloc in
            if shape \<and> ip_literal host then Inr netloc else Inl (ValueError ''Invalid IPv6 URL''))
         else Inr netloc))"

definition csrf_reject :: "string \<Rightarrow> scope_state \<Rightarrow> 'a response \<times> scope_state" where
  "csrf_reject message st =
     (\<lparr>rs_status = 403, rs_headers = [json_type],
        rs_body = Error_Body (error_bytes ''CSRF_REJECTED'' (cp message) (ss_request_id st))\<rparr>, note_error_code ''CSRF_REJECTED'' st)"

definition admin_path :: "pystr \<Rightarrow> bool" where
  "admin_path path \<longleftrightarrow> path = ADMIN_PATH \<or> starts_with (ADMIN_PATH @ [47]) path"

definition has_session :: "gateway_settings \<Rightarrow> headers \<Rightarrow> bool" where
  "has_session cfg hs \<longleftrightarrow>
     list_ex (\<lambda>part. starts_with (gs_cookie_name cfg @ [61]) (strip part))
       (split_on 59 (case header hs ''cookie'' of None \<Rightarrow> [] | Some c \<Rightarrow> c))"

definition absent :: "pystr option \<Rightarrow> bool" where
  "absent v \<longleftrightarrow> (case v of None \<Rightarrow> True | Some t \<Rightarrow> t = [])"

definition csrf :: "(pystr \<Rightarrow> bool) \<Rightarrow> gateway_settings \<Rightarrow> ('b, 'a, 's) layer \<Rightarrow> ('b, 'a, 's) layer" where
  "csrf ip_literal cfg inner rq st s =
     (if \<not> rq_http rq \<or> rq_method rq \<notin> set UNSAFE_METHODS then inner rq st s
      else if admin_path (rq_path rq) then
        (let given = header (rq_headers rq) ''origin'';
             origin = (if given = Some (cp ''null'') then None else given) in
         if absent origin then inner rq st s
         else
           (case url_netloc ip_literal (the origin) of
              Inl e \<Rightarrow> (Inl (Unhandled e), st, s)
            | Inr netloc \<Rightarrow>
                if Some netloc \<noteq> header (rq_headers rq) ''host''
                then (let (r, st') = csrf_reject ''origin not allowed'' st in (Inr r, st', s))
                else inner rq st s))
      else if has_session cfg (rq_headers rq) then
        (let origin = header (rq_headers rq) ''origin'' in
         if absent (header (rq_headers rq) ''x-requested-with'')
         then (let (r, st') = csrf_reject ''missing X-Requested-With header'' st in (Inr r, st', s))
         else if \<not> absent origin \<and> gs_allowed_origins cfg \<noteq> [cp ''*''] \<and> the origin \<notin> set (gs_allowed_origins cfg)
         then (let (r, st') = csrf_reject ''origin not allowed'' st in (Inr r, st', s))
         else inner rq st s)
      else inner rq st s)"

section \<open>The rate limit\<close>

type_synonym request_times = "pystr \<Rightarrow> int list"

record 't server =
  sv_request_times :: request_times
  sv_tables :: 't

definition is_exempt_from_rate_limit :: "pystr \<Rightarrow> bool" where
  "is_exempt_from_rate_limit path \<longleftrightarrow>
     path \<in> {cp ''/health'', cp ''/ready''} \<or> starts_with (ADMIN_PATH @ cp ''/statics/'') path"

definition client_key :: "'b request \<Rightarrow> pystr" where
  "client_key rq = (case rq_client rq of None \<Rightarrow> cp ''unknown'' | Some c \<Rightarrow> c)"

text \<open>The block under the lock: whether this request is one too many, and the times kept.\<close>

definition count_request :: "gateway_settings \<Rightarrow> pystr \<Rightarrow> int \<Rightarrow> request_times \<Rightarrow> bool \<times> request_times" where
  "count_request cfg key now kept =
     (let recent = dropWhile (\<lambda>t. gs_window_seconds cfg * 1000000 \<le> now - t) (kept key) in
      if gs_requests cfg \<le> int (length recent) then (True, kept(key := recent))
      else (False, kept(key := recent @ [now])))"

definition send_limited :: "gateway_settings \<Rightarrow> scope_state \<Rightarrow> 'a response \<times> scope_state" where
  "send_limited cfg st =
     (\<lparr>rs_status = 429, rs_headers = [json_type, (cp ''retry-after'', show_int (gs_window_seconds cfg))],
        rs_body = Error_Body (error_bytes ''RATE_LIMITED'' (cp ''rate limit exceeded'') (ss_request_id st))\<rparr>,
      note_error_code ''RATE_LIMITED'' st)"

definition limit_request :: "gateway_settings \<Rightarrow> 'b request \<Rightarrow> int \<Rightarrow> request_times \<Rightarrow> bool \<times> request_times" where
  "limit_request cfg rq now kept =
     (if \<not> rq_http rq \<or> is_exempt_from_rate_limit (rq_path rq) then (False, kept)
      else count_request cfg (client_key rq) now kept)"

definition rate_limit :: "gateway_settings \<Rightarrow> int \<Rightarrow> ('b, 'a, 't) layer \<Rightarrow> ('b, 'a, 't server) layer" where
  "rate_limit cfg now inner rq st sv =
     (let (limited, kept) = limit_request cfg rq now (sv_request_times sv) in
      if limited then (let (r, st') = send_limited cfg st in (Inr r, st', sv\<lparr>sv_request_times := kept\<rparr>))
      else (let (r, st', t) = inner rq st (sv_tables sv) in (r, st', \<lparr>sv_request_times = kept, sv_tables = t\<rparr>)))"

section \<open>The request log\<close>

record log_line =
  ll_failed :: bool
  ll_request_id :: pystr
  ll_method :: pystr
  ll_path :: pystr
  ll_status_code :: int
  ll_client_ip :: pystr
  ll_forwarded_for :: "pystr option"
  ll_error_code :: "string option"

definition log_fields :: "bool \<Rightarrow> pystr \<Rightarrow> int \<Rightarrow> 'b request \<Rightarrow> scope_state \<Rightarrow> log_line" where
  "log_fields failed request_id status_code rq st =
     \<lparr>ll_failed = failed, ll_request_id = request_id, ll_method = rq_method rq, ll_path = rq_path rq,
        ll_status_code = status_code, ll_client_ip = client_key rq,
        ll_forwarded_for = (let f = header (rq_headers rq) ''x-forwarded-for'' in if absent f then None else map_option (take 200) f),
        ll_error_code = ss_error_code st\<rparr>"

definition request_logging ::
  "pystr \<Rightarrow> ('b, 'a, 's) layer \<Rightarrow> 'b request \<Rightarrow> scope_state \<Rightarrow> 's
     \<Rightarrow> (http_error + 'a response) \<times> scope_state \<times> log_line option \<times> 's" where
  "request_logging request_id inner rq st s =
     (if \<not> rq_http rq then (let (r, st', t) = inner rq st s in (r, st', None, t))
      else
        (case inner rq (st\<lparr>ss_request_id := Some request_id\<rparr>) s of
           (Inr r, st', t) \<Rightarrow>
             (Inr (r\<lparr>rs_headers := rs_headers r @ [(cp ''x-request-id'', request_id)]\<rparr>), st',
              Some (log_fields False request_id (rs_status r) rq st'), t)
         | (Inl e, st', t) \<Rightarrow> (Inl e, st', Some (log_fields True request_id 500 rq st'), t)))"

text \<open>
  The chain, outside in: log, CORS, rate limit, CSRF guard, envelope, application; Starlette's own outermost
  handler answers what escapes all of them.
\<close>

definition gateway ::
  "(pystr \<Rightarrow> bool) \<Rightarrow> gateway_settings \<Rightarrow> (('b, 'a, 't server) layer \<Rightarrow> ('b, 'a, 't server) layer)
     \<Rightarrow> ('b request \<Rightarrow> 't \<Rightarrow> (http_error + 'a response) \<times> 't) \<Rightarrow> pystr \<Rightarrow> int \<Rightarrow> 'b request \<Rightarrow> 't server
     \<Rightarrow> 'a response \<times> log_line option \<times> 't server" where
  "gateway ip_literal cfg cors endpoint request_id now rq sv =
     (let (outcome, st, line, sv') =
        request_logging request_id (cors (rate_limit cfg now (csrf ip_literal cfg (error_envelope (handled endpoint))))) rq
          \<lparr>ss_request_id = None, ss_error_code = None\<rparr> sv in
      case outcome of Inr r \<Rightarrow> (r, line, sv') | Inl _ \<Rightarrow> (unhandled_error_handler st, line, sv'))"

section \<open>The rate limit is a sliding window\<close>

text \<open>
  The reference: a log of every request that was let through and never forgets; a request is limited
  when the log holds the allowed number of its client's requests younger than the window.
\<close>

fun window_log :: "gateway_settings \<Rightarrow> (pystr \<times> int) list \<Rightarrow> ('b request \<times> int) list \<Rightarrow> bool list" where
  "window_log cfg past [] = []"
| "window_log cfg past ((rq, now) # rest) =
     (let counted = rq_http rq \<and> \<not> is_exempt_from_rate_limit (rq_path rq);
          limited = (counted \<and> gs_requests cfg
            \<le> count_where (\<lambda>(key, t). key = client_key rq \<and> now - t < gs_window_seconds cfg * 1000000) past) in
      limited # window_log cfg (if counted \<and> \<not> limited then (client_key rq, now) # past else past) rest)"

definition agrees_with :: "gateway_settings \<Rightarrow> (pystr \<times> int) list \<Rightarrow> request_times \<Rightarrow> int \<Rightarrow> bool" where
  "agrees_with cfg past kept now \<longleftrightarrow> (\<forall>key. sorted (kept key) \<and> (\<forall>t \<in> set (kept key). t \<le> now)
     \<and> (\<forall>later \<ge> now. count_where (\<lambda>(k, t). k = key \<and> later - t < gs_window_seconds cfg * 1000000) past
          = count_where (\<lambda>t. later - t < gs_window_seconds cfg * 1000000) (kept key)))"

lemma sorted_recent: "sorted ts \<Longrightarrow> dropWhile (\<lambda>t. w \<le> now - t) ts = filter (\<lambda>t. now - t < w) ts" for now :: int
proof (induction ts)
  case (Cons t ts)
  then show ?case by (cases "w \<le> now - t") (auto intro!: filter_True [symmetric])
qed simp

lemma count_where_filter: "count_where p (filter q xs) = count_where (\<lambda>x. p x \<and> q x) xs"
  by (simp add: count_where_def conj_commute)

lemma count_request_agrees:
  assumes "agrees_with cfg past kept before" "before \<le> now" "count_request cfg key now kept = (limited, kept')"
  defines "seen \<equiv> count_where (\<lambda>(k, t). k = key \<and> now - t < gs_window_seconds cfg * 1000000) past"
  shows "(limited \<longleftrightarrow> gs_requests cfg \<le> seen)
    \<and> agrees_with cfg (if limited then past else (key, now) # past) kept' now"
proof -
  let ?w = "gs_window_seconds cfg * 1000000"
  let ?recent = "filter (\<lambda>t. now - t < ?w) (kept key)"
  have sorted: "sorted (kept k)" and le: "t \<in> set (kept k) \<Longrightarrow> t \<le> now" for k t
    using assms(1,2) by (force simp: agrees_with_def)+
  have same: "count_where (\<lambda>(k', t). k' = k \<and> later - t < ?w) past = count_where (\<lambda>t. later - t < ?w) (kept k)"
    if "now \<le> later" for k later using assms(1,2) that by (auto simp: agrees_with_def)
  have recent: "dropWhile (\<lambda>t. ?w \<le> now - t) (kept key) = ?recent" using sorted by (rule sorted_recent)
  have younger: "count_where (\<lambda>t. later - t < ?w) ?recent = count_where (\<lambda>t. later - t < ?w) (kept key)" if "now \<le> later" for later
    unfolding count_where_filter by (rule arg_cong [where f = "\<lambda>p. count_where p (kept key)"]) (use that in auto)
  have seen: "int (length ?recent) = seen" using same [of now key] by (simp add: seen_def count_where_def)
  have step: "limited \<longleftrightarrow> gs_requests cfg \<le> seen" "kept' = kept(key := if limited then ?recent else ?recent @ [now])"
    using assms(3) recent seen by (auto simp: count_request_def Let_def split: if_splits)
  have "sorted (?recent @ [now])" using sorted [of key] le [of _ key] by (auto simp: sorted_append sorted_wrt_filter)
  then have "agrees_with cfg (if limited then past else (key, now) # past) kept' now"
    using step(2) sorted le same younger by (auto simp: agrees_with_def sorted_wrt_filter)
  with step(1) show ?thesis by blast
qed

lemma agrees_later: "agrees_with cfg past kept before \<Longrightarrow> before \<le> now \<Longrightarrow> agrees_with cfg past kept now"
  by (force simp: agrees_with_def)

lemma answers_step: "fst (answers step (x # xs) s) = fst (step x s) # fst (answers step xs (snd (step x s)))"
  by (simp add: Let_def split_beta)

lemma limit_request_log:
  assumes "agrees_with cfg past kept before" "sorted (before # map snd arrivals)"
  shows "fst (answers (\<lambda>(rq, now). limit_request cfg rq now) arrivals kept) = window_log cfg past arrivals"
  using assms
proof (induction arrivals arbitrary: past kept before)
  case (Cons a arrivals)
  obtain rq now where a: "a = (rq, now)" by fastforce
  obtain limited kept' where step: "limit_request cfg rq now kept = (limited, kept')" by fastforce
  have le: "before \<le> now" and sorted: "sorted (now # map snd arrivals)" using Cons.prems(2) a by auto
  show ?case
  proof (cases "rq_http rq \<and> \<not> is_exempt_from_rate_limit (rq_path rq)")
    case True
    with step have "count_request cfg (client_key rq) now kept = (limited, kept')" by (simp add: limit_request_def)
    from count_request_agrees [OF Cons.prems(1) le this] Cons.IH [OF _ sorted] True
    show ?thesis by (cases limited) (simp_all add: a step Let_def answers_step del: answers.simps)
  next
    case False
    with step have "\<not> limited" "kept' = kept" by (auto simp: limit_request_def)
    with Cons.IH [OF agrees_later [OF Cons.prems(1) le] sorted] False
    show ?thesis by (auto simp add: a step Let_def answers_step simp del: answers.simps)
  qed
qed simp

text \<open>
  C21: the rate limiter is a sliding window. Although it forgets a client's old requests as it goes, over any
  sequence of requests in the order of the clock it limits exactly those for which the full log holds
  the allowed number of requests of the same client within the window; exempt paths are neither
  limited nor counted, and a limited request is not counted.
\<close>

theorem rate_limit_sliding_window:
  assumes "sorted (map snd arrivals)"
  shows "fst (answers (\<lambda>(rq, now). limit_request cfg rq now) arrivals (\<lambda>_. [])) = window_log cfg [] arrivals"
proof (cases arrivals)
  case (Cons a rest)
  have "agrees_with cfg [] (\<lambda>_. []) (snd a)" by (simp add: agrees_with_def)
  moreover have "sorted (snd a # map snd arrivals)" using assms Cons by simp
  ultimately show ?thesis by (rule limit_request_log)
qed simp

definition sample_gateway :: gateway_settings where
  "sample_gateway = \<lparr>gs_requests = 2, gs_window_seconds = 1, gs_cookie_name = cp ''lp_session'', gs_allowed_origins = [cp ''https://torshx.com'']\<rparr>"

definition sample_request :: "string \<Rightarrow> string \<Rightarrow> (string \<times> string) list \<Rightarrow> unit request" where
  "sample_request method path hs = \<lparr>rq_http = True, rq_method = cp method, rq_path = cp path, rq_client = None,
     rq_headers = map (\<lambda>(n, v). (cp n, cp v)) hs, rq_content = ()\<rparr>"

theorem rate_limit_sliding_window_witness:
  "fst (answers (\<lambda>(rq, now). limit_request sample_gateway rq now)
      (map (Pair (sample_request ''GET'' ''/api/v1/me'' [])) [0, 400000, 900000, 1000000, 1200000]) (\<lambda>_. []))
     = [False, False, True, False, True]"
  by (subst rate_limit_sliding_window)
    (simp_all add: sample_gateway_def sample_request_def is_exempt_from_rate_limit_def ADMIN_PATH_def starts_with_def client_key_def)

section \<open>Answers through the whole chain\<close>

text \<open>
  Documented behaviour of Starlette's CORS middleware: a request that is not an \<open>OPTIONS\<close> preflight is passed
  on once, and headers are added to its response.
\<close>

definition cors_passes :: "(('b, 'a, 's) layer \<Rightarrow> ('b, 'a, 's) layer) \<Rightarrow> bool" where
  "cors_passes cors \<longleftrightarrow> (\<forall>inner rq st s. rq_method rq \<noteq> cp ''OPTIONS'' \<longrightarrow>
     (\<exists>hs. cors inner rq st s =
        (case inner rq st s of
           (Inr r, st', t) \<Rightarrow> (Inr (r\<lparr>rs_headers := rs_headers r @ hs\<rparr>), st', t)
         | (Inl e, st', t) \<Rightarrow> (Inl e, st', t))))"

lemma cors_passesD:
  assumes "cors_passes cors" "rq_method rq \<noteq> cp ''OPTIONS''"
  obtains hs where "cors inner rq st s = (case inner rq st s of
      (Inr r, st', t) \<Rightarrow> (Inr (r\<lparr>rs_headers := rs_headers r @ hs\<rparr>), st', t) | (Inl e, st', t) \<Rightarrow> (Inl e, st', t))"
  using assms unfolding cors_passes_def by blast

text \<open>
  A write a foreign page could send: it carries the session cookie but not the custom header, or an
  origin that is not on the list; or it is for the panel and its origin is not the panel's own host.
\<close>

definition forged :: "(pystr \<Rightarrow> bool) \<Rightarrow> gateway_settings \<Rightarrow> 'b request \<Rightarrow> bool" where
  "forged ip_literal cfg rq \<longleftrightarrow> rq_http rq \<and> rq_method rq \<in> set UNSAFE_METHODS \<and>
     (let origin = header (rq_headers rq) ''origin'' in
      if admin_path (rq_path rq)
      then \<not> absent origin \<and> origin \<noteq> Some (cp ''null'')
        \<and> (\<forall>netloc. url_netloc ip_literal (the origin) = Inr netloc \<longrightarrow> header (rq_headers rq) ''host'' \<noteq> Some netloc)
      else has_session cfg (rq_headers rq)
        \<and> (absent (header (rq_headers rq) ''x-requested-with'')
           \<or> \<not> absent origin \<and> gs_allowed_origins cfg \<noteq> [cp ''*''] \<and> the origin \<notin> set (gs_allowed_origins cfg)))"

lemma unsafe_not_options: "rq_method rq \<in> set UNSAFE_METHODS \<Longrightarrow> rq_method rq \<noteq> cp ''OPTIONS''"
  by (auto simp: UNSAFE_METHODS_def)

lemma csrf_stops:
  assumes "forged ip_literal cfg rq"
  shows "\<exists>r st'. csrf ip_literal cfg inner rq st s = (r, st', s) \<and> (\<forall>x. r = Inr x \<longrightarrow> rs_status x = 403)"
  using assms
  by (auto simp: forged_def csrf_def Let_def csrf_reject_def absent_def split: option.splits if_splits sum.splits)

text \<open>
  C20: a forged write changes nothing. A write that carries the session cookie without the custom header or from
  an origin that is not allowed, and a panel write from another host, never reaches the application: whatever
  the application would do with it, the tables stay as they are and the answer is a refusal (403, 429 when the client
  is over its limit, or 500 when the origin cannot be read).
\<close>

theorem forged_write_stopped:
  assumes "cors_passes cors" "forged ip_literal cfg rq"
    "gateway ip_literal cfg cors endpoint request_id now rq sv = (r, line, sv')"
  shows "sv_tables sv' = sv_tables sv \<and> rs_status r \<in> {403, 429, 500}"
proof -
  let ?inner = "csrf ip_literal cfg (error_envelope (handled endpoint))" and ?st = "\<lparr>ss_request_id = Some request_id, ss_error_code = None\<rparr>"
  have http: "rq_http rq" and mthd: "rq_method rq \<noteq> cp ''OPTIONS''"
    using assms(2) unsafe_not_options by (auto simp: forged_def)
  obtain hs where cors: "cors (rate_limit cfg now ?inner) rq ?st sv = (case rate_limit cfg now ?inner rq ?st sv of
      (Inr r, st', t) \<Rightarrow> (Inr (r\<lparr>rs_headers := rs_headers r @ hs\<rparr>), st', t) | (Inl e, st', t) \<Rightarrow> (Inl e, st', t))"
    by (rule cors_passesD [OF assms(1) mthd])
  obtain out st' where csrf: "?inner rq ?st (sv_tables sv) = (out, st', sv_tables sv)" "\<And>x. out = Inr x \<Longrightarrow> rs_status x = 403"
    using csrf_stops [OF assms(2), of "error_envelope (handled endpoint)" ?st "sv_tables sv"] by blast
  have limited: "\<exists>r st' kept. rate_limit cfg now ?inner rq ?st sv = (r, st', sv\<lparr>sv_request_times := kept\<rparr>)
      \<and> (\<forall>x. r = Inr x \<longrightarrow> rs_status x \<in> {403, 429})"
    using csrf by (cases sv) (auto simp: rate_limit_def Let_def send_limited_def split: prod.splits)
  then obtain out' st2 kept where "rate_limit cfg now ?inner rq ?st sv = (out', st2, sv\<lparr>sv_request_times := kept\<rparr>)"
    "\<And>x. out' = Inr x \<Longrightarrow> rs_status x \<in> {403, 429}" by blast
  with cors http assms(3) show ?thesis
    by (cases out') (auto simp: gateway_def request_logging_def unhandled_error_handler_def)
qed

lemma csrf_outcome:
  "csrf ip_literal cfg inner rq st s = inner rq st s
   \<or> (\<exists>r message. csrf ip_literal cfg inner rq st s = (Inr r, note_error_code ''CSRF_REJECTED'' st, s)
        \<and> rs_body r = Error_Body (error_bytes ''CSRF_REJECTED'' message (ss_request_id st)))
   \<or> (\<exists>e. csrf ip_literal cfg inner rq st s = (Inl (Unhandled e), st, s) \<and> admin_path (rq_path rq) \<and> rq_method rq \<in> set UNSAFE_METHODS
        \<and> (\<exists>origin. header (rq_headers rq) ''origin'' = Some origin \<and> url_netloc ip_literal origin = Inl e))"
proof -
  let ?csrf = "csrf ip_literal cfg inner rq st s"
  let ?refuse = "\<lambda>m. case csrf_reject m st of (r, st') \<Rightarrow> (Inr r, st', s)"
  let ?given = "header (rq_headers rq) ''origin''"
  let ?origin = "if ?given = Some (cp ''null'') then None else ?given"
  have refused: ?thesis if "?csrf = ?refuse m" for m
    unfolding that by (auto simp: csrf_reject_def)
  consider "\<not> rq_http rq \<or> rq_method rq \<notin> set UNSAFE_METHODS"
    | "rq_http rq" "rq_method rq \<in> set UNSAFE_METHODS" "admin_path (rq_path rq)"
    | "rq_http rq" "rq_method rq \<in> set UNSAFE_METHODS" "\<not> admin_path (rq_path rq)" by blast
  then show ?thesis
  proof cases
    case 1
    then show ?thesis by (simp add: csrf_def)
  next
    case 2
    show ?thesis
    proof (cases "absent ?origin")
      case True
      with 2 show ?thesis by (simp add: csrf_def Let_def)
    next
      case False
      then have given: "?origin = ?given" "?given = Some (the ?origin)" by (auto simp: absent_def split: option.splits if_splits)
      show ?thesis
      proof (cases "url_netloc ip_literal (the ?origin)")
        case (Inl e)
        with 2 False have "?csrf = (Inl (Unhandled e), st, s)" by (simp add: csrf_def Let_def)
        with 2 given(2) Inl show ?thesis by blast
      next
        case (Inr netloc)
        with 2 False have "?csrf = inner rq st s \<or> ?csrf = ?refuse ''origin not allowed''" by (simp add: csrf_def Let_def)
        with refused show ?thesis by blast
      qed
    qed
  next
    case 3
    then have "?csrf = inner rq st s \<or> ?csrf = ?refuse ''missing X-Requested-With header'' \<or> ?csrf = ?refuse ''origin not allowed''"
      by (simp add: csrf_def Let_def)
    with refused show ?thesis by blast
  qed
qed

text \<open>An error body tells the request's id, and the log line of the request its code.\<close>

definition enveloped :: "pystr \<Rightarrow> 'a response \<Rightarrow> scope_state \<Rightarrow> bool" where
  "enveloped request_id r st \<longleftrightarrow>
     (\<forall>d. rs_body r = Error_Body d \<longrightarrow> ed_request_id d = Some request_id \<and> ss_error_code st = Some (ed_code d))"

definition answers_content :: "('b request \<Rightarrow> 't \<Rightarrow> (http_error + 'a response) \<times> 't) \<Rightarrow> bool" where
  "answers_content endpoint \<longleftrightarrow> (\<forall>rq s r t. endpoint rq s = (Inr r, t) \<longrightarrow> (\<exists>a. rs_body r = Content a))"

lemma envelope_result:
  assumes "answers_content endpoint" "rq_http rq" "ss_request_id st = Some request_id"
  shows "\<exists>r st' t. error_envelope (handled endpoint) rq st s = (Inr r, st', t) \<and> enveloped request_id r st'"
proof (cases "endpoint rq s")
  case (Pair out t)
  show ?thesis
  proof (cases out)
    case (Inl e)
    with Pair assms(2,3) show ?thesis
      by (cases e) (auto simp: error_envelope_def handled_def Let_def enveloped_def error_bytes_def note_error_code_def
          api_error_handler_def http_error_handler_def validation_error_handler_def)
  next
    case (Inr r)
    with Pair assms(1) obtain a where "rs_body r = Content a" unfolding answers_content_def by metis
    with Pair Inr assms(2) show ?thesis by (auto simp: error_envelope_def handled_def enveloped_def)
  qed
qed

text \<open>The one way past the envelope: the origin of a panel write that \<open>urlsplit\<close> does not accept.\<close>

definition origin_unreadable :: "(pystr \<Rightarrow> bool) \<Rightarrow> 'b request \<Rightarrow> bool" where
  "origin_unreadable ip_literal rq \<longleftrightarrow> admin_path (rq_path rq) \<and> rq_method rq \<in> set UNSAFE_METHODS
     \<and> (\<exists>origin e. header (rq_headers rq) ''origin'' = Some origin \<and> url_netloc ip_literal origin = Inl e)"


definition counting_endpoint :: "unit request \<Rightarrow> int \<Rightarrow> (http_error + unit response) \<times> int" where
  "counting_endpoint rq n = (Inr \<lparr>rs_status = 200, rs_headers = [], rs_body = Content ()\<rparr>, n + 1)"

definition fresh_server :: "int server" where
  "fresh_server = \<lparr>sv_request_times = (\<lambda>_. []), sv_tables = 7\<rparr>"

lemma no_cors: "cors_passes (\<lambda>inner. inner)"
  unfolding cors_passes_def by (intro allI impI exI [of _ "[]"]) (simp split: prod.split sum.split)

lemmas sample_evaluation = sample_gateway_def sample_request_def header_def ADMIN_PATH_def starts_with_def admin_path_def
  UNSAFE_METHODS_def absent_def has_session_def strip_def strip_by_def lstrip_by_def rstrip_by_def is_space_def in_ranges_def
  space_ranges_def

definition forged_sample :: "unit request" where
  "forged_sample = sample_request ''POST'' ''/api/v1/redemptions'' [(''cookie'', ''a=b; lp_session=c'')]"

theorem forged_write_stopped_witness:
  "sv_tables (snd (snd (gateway (\<lambda>_. False) sample_gateway (\<lambda>inner. inner) counting_endpoint (cp ''id'') 0 forged_sample fresh_server))) = 7"
proof -
  have forged: "forged (\<lambda>_. False) sample_gateway forged_sample"
    by (simp add: forged_def forged_sample_def sample_evaluation)
  obtain r line sv' where "gateway (\<lambda>_. False) sample_gateway (\<lambda>inner. inner) counting_endpoint (cp ''id'') 0 forged_sample fresh_server = (r, line, sv')"
    by (cases "gateway (\<lambda>_. False) sample_gateway (\<lambda>inner. inner) counting_endpoint (cp ''id'') 0 forged_sample fresh_server") auto
  from forged_write_stopped [OF no_cors forged this] this show ?thesis by (simp add: fresh_server_def)
qed


text \<open>
  The exception is real. A panel write whose origin has an unmatched bracket is answered outside the
  envelope, whatever the application and the tables: status 500 without the \<open>X-Request-ID\<close> header (and without any that CORS
  would add), and a log line that says the request failed.
\<close>

theorem malformed_origin_escapes:
  "case gateway ip_literal sample_gateway (\<lambda>inner. inner) endpoint request_id now
      (sample_request ''POST'' ''/admin/login'' [(''origin'', ''http://['')]) \<lparr>sv_request_times = (\<lambda>_. []), sv_tables = t\<rparr> of
     (r, line, sv') \<Rightarrow> rs_status r = 500 \<and> rs_headers r = [] \<and> (\<exists>l. line = Some l \<and> ll_failed l) \<and> sv_tables sv' = t"
  by (simp add: gateway_def request_logging_def rate_limit_def limit_request_def count_request_def is_exempt_from_rate_limit_def csrf_def
      sample_evaluation url_netloc_def without_scheme_def scheme_char_def ascii_alnum_def unhandled_error_handler_def log_fields_def
      client_key_def)

end
