(* ===== verification/Teams.thy ===== *)
theory Teams
  imports Redemption
begin

text \<open>
  Flavor teams: \<open>app/domain/teams.py\<close>, \<open>app/application/teams.py\<close>, \<open>SqlTeams\<close> and the team reader. A
  membership is a row of \<open>team_memberships\<close>; the current team is the row with the highest
  \<open>switch_no\<close>. The locale \<open>switch_history\<close> is the shape of one player's memberships; it gives what the
  service needs of its current team.
\<close>

section \<open>The rule\<close>

definition TEAM_LOCK :: int where
  "TEAM_LOCK = days 30"

definition switch_allowed_at :: "TeamMembershipModel \<Rightarrow> int \<Rightarrow> instant" where
  "switch_allowed_at m lock = tm_joined_at m + lock"

text \<open>\<open>TeamChangeError\<close>: the refusal with what accompanies it.\<close>

datatype TeamChangeError =
    SAME_TEAM
  | FLAVOR_NOT_UNLOCKED int int
  | TEAM_LOCKED instant

definition change_team ::
  "uuid \<Rightarrow> TeamMembershipModel option \<Rightarrow> CityCode \<Rightarrow> int \<Rightarrow> instant \<Rightarrow> int
     \<Rightarrow> TeamChangeError + TeamMembershipModel" where
  "change_team user_id current target target_codes now lock =
     (if \<exists>m \<in> set_option current. tm_flavor m = target then Inl SAME_TEAM
      else if \<not> is_unlocked target_codes then Inl (FLAVOR_NOT_UNLOCKED UNLOCK_THRESHOLD target_codes)
      else case current of
        Some m \<Rightarrow>
          if now < switch_allowed_at m lock then Inl (TEAM_LOCKED (switch_allowed_at m lock))
          else Inr \<lparr>tm_user_id = user_id, tm_flavor = target, tm_switch_no = tm_switch_no m + 1, tm_joined_at = now\<rparr>
      | None \<Rightarrow> Inr \<lparr>tm_user_id = user_id, tm_flavor = target, tm_switch_no = 0, tm_joined_at = now\<rparr>)"

section \<open>The tables\<close>

definition current_team_membership :: "database \<Rightarrow> uuid \<Rightarrow> TeamMembershipModel option" where
  "current_team_membership s user_id =
     first_row (order_desc tm_switch_no (filter (\<lambda>m. tm_user_id m = user_id) (team_memberships s)))"

definition add_membership :: "TeamMembershipModel \<Rightarrow> ('e, unit) dbtx" where
  "add_membership m =
     tx_insert ''uq_team_memberships_user_switch''
       (\<lambda>s. \<not> exists_where (\<lambda>x. tm_user_id x = tm_user_id m \<and> tm_switch_no x = tm_switch_no m) (team_memberships s)
          \<and> 0 \<le> tm_switch_no m)
       (\<lambda>s. s\<lparr>team_memberships := team_memberships s @ [m]\<rparr>)"

section \<open>The service\<close>

record FlavorProgress =
  fp_flavor :: CityCode
  fp_codes :: int
  fp_unlocked :: bool

record TeamStatus =
  ts_team :: "TeamMembershipModel option"
  ts_switch_allowed_at :: "instant option"
  ts_flavors :: "FlavorProgress list"

definition team_status :: "database \<Rightarrow> int \<Rightarrow> uuid \<Rightarrow> TeamStatus" where
  "team_status s lock user_id =
     (let current = current_team_membership s user_id in
      \<lparr>ts_team = current, ts_switch_allowed_at = map_option (\<lambda>m. switch_allowed_at m lock) current,
       ts_flavors = map (\<lambda>flavor. let codes = count_flavor_codes s user_id flavor in
         \<lparr>fp_flavor = flavor, fp_codes = codes, fp_unlocked = is_unlocked codes\<rparr>) all_cities\<rparr>)"

definition change_transaction ::
  "int \<Rightarrow> uuid \<Rightarrow> CityCode \<Rightarrow> instant
     \<Rightarrow> (TeamChangeError, (TeamChangeError, TeamMembershipModel) exit) dbtx" where
  "change_transaction lock user_id flavor now =
     tx_bind (lock_wallet user_id now) (\<lambda>_.
     tx_bind (tx_read (\<lambda>s. current_team_membership s user_id)) (\<lambda>current.
     tx_bind (tx_read (\<lambda>s. count_flavor_codes s user_id flavor)) (\<lambda>target_codes.
     tx_bind (tx_check (change_team user_id current flavor target_codes now lock)) (\<lambda>membership.
     tx_bind (add_membership membership) (\<lambda>_.
     commit membership)))))"

definition change ::
  "int \<Rightarrow> uuid \<Rightarrow> CityCode \<Rightarrow> instant \<Rightarrow> database
     \<Rightarrow> (TeamChangeError raised + TeamMembershipModel) \<times> database" where
  "change lock user_id flavor now s = unit_of_work (change_transaction lock user_id flavor now) s"

section \<open>The memberships as an interface\<close>

text \<open>Memberships are numbered from 0 in the order they were made.\<close>

definition numbered :: "TeamMembershipModel list \<Rightarrow> bool" where
  "numbered history \<longleftrightarrow> map tm_switch_no history = map int [0..<length history]"

text \<open>Consecutive memberships are of different flavors and at least the lock apart.\<close>

definition lock_respected :: "int \<Rightarrow> TeamMembershipModel list \<Rightarrow> bool" where
  "lock_respected lock history \<longleftrightarrow>
     successively (\<lambda>a b. tm_flavor a \<noteq> tm_flavor b \<and> switch_allowed_at a lock \<le> tm_joined_at b) history"

lemma numbered_nth: "numbered history \<Longrightarrow> i < length history \<Longrightarrow> tm_switch_no (history ! i) = int i"
  unfolding numbered_def by (drule arg_cong [where f = "\<lambda>l. l ! i"]) simp

lemma numbered_ascending: "numbered history \<Longrightarrow> sorted_wrt (\<lambda>a b. tm_switch_no a < tm_switch_no b) history"
  by (auto simp: sorted_wrt_iff_nth_less numbered_nth)

lemma numbered_bound: "numbered history \<Longrightarrow> m \<in> set history \<Longrightarrow> 0 \<le> tm_switch_no m \<and> tm_switch_no m < int (length history)"
  by (auto simp: in_set_conv_nth numbered_nth)

lemma numbered_snoc: "numbered (history @ [m]) \<longleftrightarrow> numbered history \<and> tm_switch_no m = int (length history)"
  by (auto simp: numbered_def)

locale memberships_port =
  fixes ok :: "'s \<Rightarrow> bool"
    and history :: "'s \<Rightarrow> uuid \<Rightarrow> TeamMembershipModel list"
    and current :: "'s \<Rightarrow> uuid \<Rightarrow> TeamMembershipModel option"
    and add :: "TeamMembershipModel \<Rightarrow> ('s, 'e, unit) tx"
  assumes numbered_law: "ok s \<Longrightarrow> numbered (history s u)"
    and current_law: "ok s \<Longrightarrow> current s u = (if history s u = [] then None else Some (last (history s u)))"
    and add_law: "ok s \<Longrightarrow> tm_switch_no m = int (length (history s (tm_user_id m))) \<Longrightarrow>
      \<exists>t. add m s = Inr ((), t) \<and> ok t
        \<and> history t = (history s)(tm_user_id m := history s (tm_user_id m) @ [m])"
begin

lemma change_numbered:
  assumes "ok s" and "change_team u (current s u) flavor n now lock = Inr m"
  shows "tm_switch_no m = int (length (history s u)) \<and> tm_user_id m = u \<and> tm_flavor m = flavor
    \<and> tm_joined_at m = now \<and> is_unlocked n"
proof (cases "history s u" rule: rev_cases)
  case Nil
  then show ?thesis
    using assms(2) current_law [OF assms(1), of u] by (auto simp: change_team_def split: if_splits)
next
  case (snoc h x)
  then have "tm_switch_no x = int (length h)"
    using numbered_law [OF assms(1), of u] by (simp add: numbered_snoc)
  with snoc show ?thesis
    using assms(2) current_law [OF assms(1), of u] by (auto simp: change_team_def split: if_splits)
qed

lemma change_keeps_lock:
  assumes "ok s" and "change_team u (current s u) flavor n now lock = Inr m" and "lock_respected lock (history s u)"
  shows "lock_respected lock (history s u @ [m])"
proof (cases "history s u" rule: rev_cases)
  case (snoc h x)
  then show ?thesis
    using assms current_law [OF assms(1), of u]
    by (auto simp: change_team_def lock_respected_def successively_append_iff split: if_splits)
qed (simp add: lock_respected_def)

text \<open>An accepted change is always recorded: no constraint of the table stops it.\<close>

lemma change_recorded:
  assumes "ok s" and "change_team u (current s u) flavor n now lock = Inr m"
  shows "\<exists>t. add m s = Inr ((), t) \<and> ok t \<and> history t = (history s)(u := history s u @ [m])"
  using add_law [OF assms(1), of m] change_numbered [OF assms] by simp

end

definition memberships_of :: "database \<Rightarrow> uuid \<Rightarrow> TeamMembershipModel list" where
  "memberships_of s user_id = filter (\<lambda>m. tm_user_id m = user_id) (team_memberships s)"

definition memberships_ok :: "database \<Rightarrow> bool" where
  "memberships_ok s \<longleftrightarrow> (\<forall>u. numbered (memberships_of s u))"

interpretation sql_teams: memberships_port memberships_ok memberships_of current_team_membership add_membership
proof
  fix s u assume "memberships_ok s"
  then show num: "numbered (memberships_of s u)" by (simp add: memberships_ok_def)
  show "current_team_membership s u
      = (if memberships_of s u = [] then None else Some (last (memberships_of s u)))"
    unfolding current_team_membership_def memberships_of_def [symmetric]
    by (rule first_row_order_desc) (rule numbered_ascending [OF num])
next
  fix s and m :: TeamMembershipModel
  assume ok: "memberships_ok s" and no: "tm_switch_no m = int (length (memberships_of s (tm_user_id m)))"
  let ?t = "s\<lparr>team_memberships := team_memberships s @ [m]\<rparr>"
  have h: "memberships_of ?t = (memberships_of s)(tm_user_id m := memberships_of s (tm_user_id m) @ [m])"
    by (auto simp: memberships_of_def fun_eq_iff)
  have "tm_switch_no x \<noteq> tm_switch_no m" if "x \<in> set (team_memberships s)" "tm_user_id x = tm_user_id m" for x
    using numbered_bound [of "memberships_of s (tm_user_id m)" x] ok no that
    by (auto simp: memberships_ok_def memberships_of_def)
  then have "add_membership m s = Inr ((), ?t)"
    using no by (auto simp: add_membership_def tx_insert_def)
  moreover have "memberships_ok ?t"
    using ok no unfolding memberships_ok_def h by (simp add: numbered_snoc)
  ultimately show "\<exists>t. add_membership m s = Inr ((), t) \<and> memberships_ok t
      \<and> memberships_of t = (memberships_of s)(tm_user_id m := memberships_of s (tm_user_id m) @ [m])"
    using h by blast
qed

section \<open>The invariant and the outcome of a change\<close>

definition teams_ok :: "int \<Rightarrow> database \<Rightarrow> bool" where
  "teams_ok lock s \<longleftrightarrow> memberships_ok s
     \<and> (\<forall>u. lock_respected lock (memberships_of s u)
          \<and> (\<forall>m \<in> set (memberships_of s u). is_unlocked (count_flavor_codes s u (tm_flavor m))))"

lemma teams_ok_frame:
  "team_memberships t = team_memberships s \<Longrightarrow> redemption_codes t = redemption_codes s \<Longrightarrow> teams_ok lock t = teams_ok lock s"
  by (simp add: teams_ok_def memberships_ok_def memberships_of_def count_flavor_codes_def)

lemma change_refused:
  assumes "ledger_ok s" "wallet_owner s u"
    and "change_team u (current_team_membership s u) flavor (count_flavor_codes s u flavor) now lock = Inl e"
  shows "change lock u flavor now s = (Inl (Raised e), s)"
proof -
  obtain b s1 where lock: "(lock_wallet u now s :: TeamChangeError raised + int \<times> database) = Inr (b, s1)"
    using lock_wallet_total assms(2) unfolding wallet_owner_def by blast
  note f = coins_only_same [OF lock_wallet_frame [OF lock]]
  have "current_team_membership s1 = current_team_membership s" "count_flavor_codes s1 = count_flavor_codes s"
    by (simp_all add: fun_eq_iff current_team_membership_def count_flavor_codes_def f)
  with lock assms(3) show ?thesis
    by (simp add: change_def change_transaction_def unit_of_work_def tx_raise_def)
qed

lemma change_accepted:
  assumes "teams_ok lock s" and "ledger_ok s" "wallet_owner s u"
    and new: "change_team u (current_team_membership s u) flavor (count_flavor_codes s u flavor) now lock = Inr m"
  shows "\<exists>t. change lock u flavor now s = (Inr m, t) \<and> tm_user_id m = u \<and> tm_flavor m = flavor \<and> tm_joined_at m = now
    \<and> tm_switch_no m = int (length (memberships_of s u))
    \<and> current_team_membership t u = Some m \<and> team_memberships t = team_memberships s @ [m]
    \<and> coins_only s (t\<lparr>team_memberships := team_memberships s\<rparr>) \<and> account_of t = account_of s
    \<and> teams_ok lock t \<and> ledger_ok t"
proof -
  obtain b s1 where lock: "(lock_wallet u now s :: TeamChangeError raised + int \<times> database) = Inr (b, s1)"
    using lock_wallet_total assms(3) unfolding wallet_owner_def by blast
  note f = coins_only_same [OF lock_wallet_frame [OF lock]]
  have s1: "teams_ok lock s1" "account_of s1 = account_of s" "ledger_ok s1"
    using assms(1) teams_ok_frame [of s1 s lock] f sql_ledger.lock_law [OF assms(2) lock] by simp_all
  have same: "current_team_membership s1 = current_team_membership s" "count_flavor_codes s1 = count_flavor_codes s"
    "memberships_of s1 = memberships_of s"
    by (simp_all add: fun_eq_iff current_team_membership_def count_flavor_codes_def memberships_of_def f)
  have ok: "memberships_ok s" "memberships_ok s1" using assms(1) s1 by (simp_all add: teams_ok_def)
  from sql_teams.change_recorded [OF ok(2), unfolded same, OF new]
  obtain t where add: "(add_membership m s1 :: TeamChangeError raised + unit \<times> database) = Inr ((), t)"
    and t: "memberships_ok t" "memberships_of t = (memberships_of s)(u := memberships_of s u @ [m])" by blast
  have t1: "t = s1\<lparr>team_memberships := team_memberships s1 @ [m]\<rparr>" using add by (simp add: add_membership_def)
  note m = sql_teams.change_numbered [OF ok(1) new]
  have "change lock u flavor now s = (Inr m, t)"
    using lock same add new by (simp add: change_def change_transaction_def unit_of_work_def commit_def tx_return_def)
  moreover have "current_team_membership t u = Some m"
    using sql_teams.current_law [OF t(1), of u] t(2) by simp
  moreover have "teams_ok lock t"
  proof -
    have "count_flavor_codes t = count_flavor_codes s"
      by (simp add: t1 fun_eq_iff count_flavor_codes_def f)
    then show ?thesis
      using assms(1) t m sql_teams.change_keeps_lock [OF ok(1) new] by (auto simp: teams_ok_def)
  qed
  moreover have "t\<lparr>team_memberships := team_memberships s\<rparr> = s1" unfolding t1 f(4) [symmetric] by (cases s1) simp
  then have "coins_only s (t\<lparr>team_memberships := team_memberships s\<rparr>)" using lock_wallet_frame [OF lock] by simp
  moreover have "account_of t = account_of s" "ledger_ok t"
    using s1 account_of_frame [of t s1] ledger_ok_frame [of t s1] by (simp_all add: t1)
  ultimately show ?thesis using m t1 f by auto
qed

text \<open>
  Joining and switching teams. The service decides by the player's current team and the lifetime
  count of the target flavor's codes: the same team, a flavor with fewer than five codes and a switch
  within the lock are refused and change nothing; otherwise the new membership, numbered next, is
  recorded and is the current team from then on, and nothing but that row (and the player's wallet row,
  created on first use) is written.
\<close>

theorem team_change_decided:
  assumes "teams_ok lock s" and "ledger_ok s" "wallet_owner s u"
  shows "let outcome = change lock u flavor now s; current = current_team_membership s u;
      codes = count_flavor_codes s u flavor in
    if \<exists>m. current = Some m \<and> tm_flavor m = flavor then outcome = (Inl (Raised SAME_TEAM), s)
    else if codes < 5 then outcome = (Inl (Raised (FLAVOR_NOT_UNLOCKED 5 codes)), s)
    else if \<exists>m. current = Some m \<and> now < tm_joined_at m + lock then
      outcome = (Inl (Raised (TEAM_LOCKED (tm_joined_at (the current) + lock))), s)
    else \<exists>m t. outcome = (Inr m, t) \<and> tm_user_id m = u \<and> tm_flavor m = flavor \<and> tm_joined_at m = now
      \<and> tm_switch_no m = int (length (memberships_of s u))
      \<and> current_team_membership t u = Some m \<and> team_memberships t = team_memberships s @ [m]
      \<and> coins_only s (t\<lparr>team_memberships := team_memberships s\<rparr>) \<and> account_of t = account_of s \<and> teams_ok lock t"
proof (cases "change_team u (current_team_membership s u) flavor (count_flavor_codes s u flavor) now lock")
  case (Inl e)
  from change_refused [OF assms(2,3) Inl] Inl show ?thesis
    by (auto simp: change_team_def is_unlocked_def UNLOCK_THRESHOLD_def switch_allowed_at_def Let_def
      split: if_splits option.splits)
next
  case (Inr m)
  from change_accepted [OF assms Inr] Inr show ?thesis
    by (auto simp: change_team_def is_unlocked_def UNLOCK_THRESHOLD_def switch_allowed_at_def Let_def
      split: if_splits option.splits)
qed

definition scanner :: "RedemptionCodeModel list" where
  "scanner = map (\<lambda>i. \<lparr>rc_id = i, rc_city = TOKYO, rc_code_hash = uuid_str i, rc_created_at = 0,
     rc_redeemed_at = Some 0, rc_redeemed_by_user_id = Some 1, rc_batch_id = None\<rparr>) [1, 2, 3, 4, 5]"

definition team_shop :: database where
  "team_shop = one_user\<lparr>redemption_codes := scanner\<rparr>"

lemma team_shop_ok: "teams_ok TEAM_LOCK team_shop" "ledger_ok team_shop" "wallet_owner team_shop 1"
  "memberships_of team_shop = (\<lambda>_. [])"
proof -
  show no: "memberships_of team_shop = (\<lambda>_. [])"
    by (simp add: memberships_of_def team_shop_def one_user_def empty_database_def fun_eq_iff)
  then show "teams_ok TEAM_LOCK team_shop" by (simp add: teams_ok_def memberships_ok_def numbered_def lock_respected_def)
qed (simp_all add: team_shop_def one_user_def empty_database_def ledger_ok_def wallet_owner_def user_exists_def
      adult_user_def)

theorem team_change_decided_witness:
  "\<exists>m t. change TEAM_LOCK 1 TOKYO 0 team_shop = (Inr m, t) \<and> tm_flavor m = TOKYO \<and> tm_switch_no m = 0
    \<and> current_team_membership t 1 = Some m \<and> teams_ok TEAM_LOCK t"
proof -
  have "current_team_membership team_shop 1 = None"
    by (simp add: current_team_membership_def team_shop_def one_user_def empty_database_def order_desc_def)
  moreover have "count_flavor_codes team_shop 1 TOKYO = 5"
    by (simp add: count_flavor_codes_def team_shop_def scanner_def)
  ultimately show ?thesis
    using team_change_decided [OF team_shop_ok(1-3), of TOKYO 0] by (auto simp: team_shop_ok(4))
qed

text \<open>
  C29: the lock holds for good. No call of the service, whatever its outcome, can give a player two
  memberships less than the lock apart, a switch to the team she is on, or a team of a flavor she has
  not unlocked, and it never rewrites a membership: the table only grows at its end.
\<close>

theorem team_lock_invariant:
  assumes "teams_ok lock s" "ledger_ok s" and "change lock u flavor now s = (r, t)"
  shows "teams_ok lock t \<and> ledger_ok t \<and> (\<exists>new. team_memberships t = team_memberships s @ new \<and> length new \<le> 1)
    \<and> (\<forall>i v. Suc i < length (memberships_of t v) \<longrightarrow>
         tm_joined_at (memberships_of t v ! i) + lock \<le> tm_joined_at (memberships_of t v ! Suc i)
         \<and> tm_flavor (memberships_of t v ! i) \<noteq> tm_flavor (memberships_of t v ! Suc i))"
proof -
  have main: "teams_ok lock t \<and> ledger_ok t \<and> (\<exists>new. team_memberships t = team_memberships s @ new \<and> length new \<le> 1)"
  proof (cases "wallet_owner s u")
    case False
    then have "change lock u flavor now s = (Inl (Crash (IntegrityError ''wallets_user_id_fkey'')), s)"
      by (simp add: change_def change_transaction_def unit_of_work_def wallet_owner_def lock_wallet_nobody)
    with assms show ?thesis by auto
  next
    case True
    show ?thesis
    proof (cases "change_team u (current_team_membership s u) flavor (count_flavor_codes s u flavor) now lock")
      case (Inl e)
      from change_refused [OF assms(2) True Inl] assms show ?thesis by auto
    next
      case (Inr m)
      from change_accepted [OF assms(1,2) True Inr] assms(3) show ?thesis by auto
    qed
  qed
  then have "lock_respected lock (memberships_of t v)" for v by (simp add: teams_ok_def)
  then have "tm_joined_at (memberships_of t v ! i) + lock \<le> tm_joined_at (memberships_of t v ! Suc i)
       \<and> tm_flavor (memberships_of t v ! i) \<noteq> tm_flavor (memberships_of t v ! Suc i)"
    if "Suc i < length (memberships_of t v)" for i v
    using that by (auto simp: lock_respected_def switch_allowed_at_def successively_conv_nth)
  with main show ?thesis by blast
qed

theorem team_lock_invariant_witness:
  "\<exists>r t. change TEAM_LOCK 1 TOKYO 0 team_shop = (r, t) \<and> teams_ok TEAM_LOCK t \<and> ledger_ok t"
proof -
  obtain r t where run: "change TEAM_LOCK 1 TOKYO 0 team_shop = (r, t)" by fastforce
  from team_lock_invariant [OF team_shop_ok(1,2) run] run show ?thesis by blast
qed

end
