(* ===== verification/Challenges.thy ===== *)
theory Challenges
  imports Teams Mini_Games
begin

text \<open>
  Challenges and achievements: \<open>app/domain/challenges.py\<close>, \<open>app/application/challenges.py\<close>,
  \<open>app/application/achievements.py\<close>, \<open>SqlChallenges\<close>, \<open>SqlAchievements\<close> and their readers. The order of the
  database's collation on text identifiers is an argument \<open>rank\<close>.
\<close>

section \<open>The rules\<close>

definition TAP_REFLEX_FAST_THRESHOLD_MS :: rat where
  "TAP_REFLEX_FAST_THRESHOLD_MS = 250"

definition ONCE_PERIOD_KEY :: string where
  "ONCE_PERIOD_KEY = ''once''"

text \<open>\<open>ChallengeClaimError\<close>: the refusal with \<open>required\<close> and \<open>have\<close>.\<close>

datatype ChallengeClaimError = CHALLENGE_UNKNOWN | NOT_UNLOCKED int int | ALREADY_CLAIMED

definition period_key_and_start :: "ChallengePeriod \<Rightarrow> instant \<Rightarrow> zone \<Rightarrow> string \<times> instant option" where
  "period_key_and_start period now z =
     (case period of
        ONCE \<Rightarrow> (ONCE_PERIOD_KEY, None)
      | DAY \<Rightarrow> (tehran_day_key now z, Some (tehran_day_start now z))
      | WEEK \<Rightarrow> (tehran_week_key now z, Some (tehran_week_start now z))
      | MONTH \<Rightarrow> (tehran_month_key now z, Some (tehran_month_start now z)))"

section \<open>The queries\<close>

definition get_challenge_by_id :: "database \<Rightarrow> string \<Rightarrow> ChallengeModel option" where
  "get_challenge_by_id s challenge_id =
     (case select_one (\<lambda>c. ch_id c = challenge_id) (challenges s) of
        None \<Rightarrow> None
      | Some c \<Rightarrow> if ch_active c then Some c else None)"

definition get_challenge_by_kind :: "database \<Rightarrow> ChallengeKind \<Rightarrow> ChallengeModel option" where
  "get_challenge_by_kind s kind = select_one (\<lambda>c. ch_kind c = kind \<and> ch_active c) (challenges s)"

definition list_active_challenges :: "(string \<Rightarrow> int) \<Rightarrow> database \<Rightarrow> ChallengeModel list" where
  "list_active_challenges rank s = order_asc (\<lambda>c. rank (ch_id c)) (filter ch_active (challenges s))"

definition distinct_flavors_count_since :: "database \<Rightarrow> uuid \<Rightarrow> instant \<Rightarrow> int" where
  "distinct_flavors_count_since s user_id since =
     int (length (remdups (map rc_city (filter (redeemed_since user_id since) (redemption_codes s)))))"

definition accepted_mini_game_run_count :: "database \<Rightarrow> uuid \<Rightarrow> int" where
  "accepted_mini_game_run_count s user_id =
     count_where (\<lambda>r. mg_user_id r = user_id \<and> mg_status r = ACCEPTED) (mini_game_runs s)"

definition fast_tap_reflex_run_count_since :: "database \<Rightarrow> uuid \<Rightarrow> instant \<Rightarrow> rat \<Rightarrow> int" where
  "fast_tap_reflex_run_count_since s user_id since max_average_ms =
     count_where (\<lambda>r. mg_user_id r = user_id \<and> mg_mini_game_id r = TAP_REFLEX \<and> mg_status r = ACCEPTED
       \<and> (case mg_finished_at r of None \<Rightarrow> False | Some t \<Rightarrow> since \<le> t)
       \<and> (case mg_average_reaction_ms r of None \<Rightarrow> False | Some a \<Rightarrow> a < max_average_ms)) (mini_game_runs s)"

definition challenge_already_claimed :: "database \<Rightarrow> string \<Rightarrow> uuid \<Rightarrow> string \<Rightarrow> bool" where
  "challenge_already_claimed s challenge_id user_id period_key \<longleftrightarrow>
     exists_where (\<lambda>c. cc_challenge_id c = challenge_id \<and> cc_user_id c = user_id \<and> cc_period_key c = period_key)
       (challenge_claims s)"

text \<open>\<open>None\<close> is the \<open>ValueError\<close> of \<open>date.fromisoformat\<close>.\<close>

definition checkin_dates :: "database \<Rightarrow> string \<Rightarrow> uuid \<Rightarrow> date list option" where
  "checkin_dates s challenge_id user_id =
     those (map (\<lambda>c. date_fromisoformat (remove_prefix ''D:'' (cc_period_key c)))
       (filter (\<lambda>c. cc_challenge_id c = challenge_id \<and> cc_user_id c = user_id) (challenge_claims s)))"

definition insert_claim :: "string \<Rightarrow> uuid \<Rightarrow> string \<Rightarrow> instant \<Rightarrow> ('e, unit) dbtx" where
  "insert_claim challenge_id user_id period_key now =
     tx_insert ''challenge_claims'' (\<lambda>s. \<not> challenge_already_claimed s challenge_id user_id period_key)
       (\<lambda>s. s\<lparr>challenge_claims := challenge_claims s @ [\<lparr>cc_challenge_id = challenge_id, cc_user_id = user_id,
          cc_period_key = period_key, cc_claimed_at = now\<rparr>]\<rparr>)"

definition list_active_achievements_by_fact :: "database \<Rightarrow> AchievementFact \<Rightarrow> AchievementModel list" where
  "list_active_achievements_by_fact s which = filter (\<lambda>a. at_fact a = which \<and> at_active a) (achievements s)"

definition list_active_achievements :: "(string \<Rightarrow> int) \<Rightarrow> database \<Rightarrow> AchievementModel list" where
  "list_active_achievements rank s = order_asc (\<lambda>a. rank (at_id a)) (filter at_active (achievements s))"

definition achievement_already_unlocked :: "database \<Rightarrow> string \<Rightarrow> uuid \<Rightarrow> bool" where
  "achievement_already_unlocked s achievement_id user_id \<longleftrightarrow>
     exists_where (\<lambda>u. ua_achievement_id u = achievement_id \<and> ua_user_id u = user_id) (user_achievements s)"

definition unlock :: "string \<Rightarrow> uuid \<Rightarrow> instant \<Rightarrow> ('e, unit) dbtx" where
  "unlock achievement_id user_id now =
     tx_insert ''user_achievements'' (\<lambda>s. \<not> achievement_already_unlocked s achievement_id user_id)
       (\<lambda>s. s\<lparr>user_achievements := user_achievements s @ [\<lparr>ua_achievement_id = achievement_id,
          ua_user_id = user_id, ua_unlocked_at = now\<rparr>]\<rparr>)"

record UnlockedAchievement =
  ul_id :: string
  ul_threshold :: int
  ul_reward_coins :: int
  ul_unlocked_at :: instant

text \<open>An inner join with the achievements, newest first.\<close>

definition list_unlocked :: "database \<Rightarrow> uuid \<Rightarrow> UnlockedAchievement list" where
  "list_unlocked s user_id =
     order_desc ul_unlocked_at (concat (map (\<lambda>u. map (\<lambda>a. \<lparr>ul_id = ua_achievement_id u, ul_threshold = at_threshold a,
           ul_reward_coins = at_reward_coins a, ul_unlocked_at = ua_unlocked_at u\<rparr>)
         (filter (\<lambda>a. at_id a = ua_achievement_id u) (achievements s)))
       (filter (\<lambda>u. ua_user_id u = user_id) (user_achievements s))))"

section \<open>Claiming\<close>

record AchievementUnlock =
  un_id :: string
  un_reward_coins :: int

record ChallengeClaimResult =
  cr_id :: string
  cr_coins_awarded :: int
  cr_coin_balance :: int
  cr_streak :: "int option"
  cr_achievements_unlocked :: "AchievementUnlock list"

text \<open>\<open>None\<close> is the \<open>AssertionError\<close> of a kind that needs a period start.\<close>

definition challenge_have :: "database \<Rightarrow> ChallengeModel \<Rightarrow> uuid \<Rightarrow> instant option \<Rightarrow> int option" where
  "challenge_have s challenge user_id period_start =
     (case ch_kind challenge of
        TEAM_CHOICE \<Rightarrow> Some (if current_team_membership s user_id \<noteq> None then 1 else 0)
      | DAILY_CHECKIN \<Rightarrow> Some 1
      | FIRST_MINI_GAME \<Rightarrow> Some (accepted_mini_game_run_count s user_id)
      | TAP_REFLEX_FAST \<Rightarrow> map_option
          (\<lambda>since. fast_tap_reflex_run_count_since s user_id since TAP_REFLEX_FAST_THRESHOLD_MS) period_start
      | DISTINCT_FLAVORS \<Rightarrow> map_option (distinct_flavors_count_since s user_id) period_start)"

definition challenge_key :: "string \<Rightarrow> string \<Rightarrow> uuid \<Rightarrow> string" where
  "challenge_key challenge_id period_key user_id =
     ''challenge:'' @ challenge_id @ '':'' @ period_key @ '':'' @ uuid_str user_id"

definition achievement_key :: "string \<Rightarrow> uuid \<Rightarrow> string" where
  "achievement_key achievement_id user_id = ''achievement:'' @ achievement_id @ '':'' @ uuid_str user_id"

text \<open>The streak over the dates of the claims; the second \<open>None\<close> never occurs, the loop of
  \<open>current_streak\<close> always ends.\<close>

definition streak_on :: "database \<Rightarrow> string \<Rightarrow> uuid \<Rightarrow> date \<Rightarrow> int option" where
  "streak_on s challenge_id user_id today =
     (case checkin_dates s challenge_id user_id of
        None \<Rightarrow> None
      | Some dates \<Rightarrow> current_streak dates today)"

definition streak_in_transaction :: "string \<Rightarrow> uuid \<Rightarrow> instant \<Rightarrow> zone \<Rightarrow> ('e, int) dbtx" where
  "streak_in_transaction challenge_id user_id now z =
     tx_bind (tx_read (\<lambda>s. streak_on s challenge_id user_id (tehran_date now z))) (\<lambda>streak.
     case streak of
       None \<Rightarrow> tx_crash (ValueError ''Invalid isoformat string'')
     | Some n \<Rightarrow> tx_return n)"

fun unlock_loop ::
  "uuid \<Rightarrow> int \<Rightarrow> instant \<Rightarrow> AchievementModel list \<Rightarrow> int \<Rightarrow> AchievementUnlock list
     \<Rightarrow> ('e, int \<times> AchievementUnlock list) dbtx" where
  "unlock_loop user_id streak now [] balance unlocked = tx_return (balance, unlocked)"
| "unlock_loop user_id streak now (achievement # rest) balance unlocked =
     (if streak < at_threshold achievement then unlock_loop user_id streak now rest balance unlocked
      else
        tx_bind (tx_read (\<lambda>s. achievement_already_unlocked s (at_id achievement) user_id)) (\<lambda>already.
        if already then unlock_loop user_id streak now rest balance unlocked
        else
          tx_bind (unlock (at_id achievement) user_id now) (\<lambda>_.
          tx_bind (if 0 < at_reward_coins achievement
              then ledger_record \<lparr>ne_user_id = user_id, ne_amount = at_reward_coins achievement,
                ne_reason = ACHIEVEMENT_REWARD, ne_idempotency_key = achievement_key (at_id achievement) user_id,
                ne_created_at = now, ne_source_id = Some (at_id achievement), ne_actor_id = None, ne_note = None\<rparr>
              else tx_return balance) (\<lambda>balance.
          unlock_loop user_id streak now rest balance
            (unlocked @ [\<lparr>un_id = at_id achievement, un_reward_coins = at_reward_coins achievement\<rparr>])))))"

definition unlock_streak_achievements ::
  "uuid \<Rightarrow> int \<Rightarrow> instant \<Rightarrow> int \<Rightarrow> ('e, int \<times> AchievementUnlock list) dbtx" where
  "unlock_streak_achievements user_id streak now balance =
     tx_bind (tx_read (\<lambda>s. list_active_achievements_by_fact s CHECKIN_STREAK)) (\<lambda>found.
     unlock_loop user_id streak now found balance [])"

definition claim_transaction ::
  "zone \<Rightarrow> uuid \<Rightarrow> string \<Rightarrow> instant
     \<Rightarrow> (ChallengeClaimError, (ChallengeClaimError, ChallengeClaimResult) exit) dbtx" where
  "claim_transaction z user_id challenge_id now =
     tx_bind (lock_wallet user_id now) (\<lambda>balance.
     tx_bind (tx_read (\<lambda>s. get_challenge_by_id s challenge_id)) (\<lambda>found.
     case found of
       None \<Rightarrow> tx_raise CHALLENGE_UNKNOWN
     | Some challenge \<Rightarrow>
       (let (period_key, period_start) = period_key_and_start (ch_period challenge) now z in
        tx_bind (tx_read (\<lambda>s. challenge_already_claimed s (ch_id challenge) user_id period_key)) (\<lambda>claimed.
        if claimed then tx_raise ALREADY_CLAIMED
        else
          tx_bind (tx_read (\<lambda>s. challenge_have s challenge user_id period_start)) (\<lambda>have.
          case have of
            None \<Rightarrow> tx_crash AssertionError
          | Some n \<Rightarrow>
              if n < ch_target challenge then tx_raise (NOT_UNLOCKED (ch_target challenge) n)
              else
                tx_bind (insert_claim (ch_id challenge) user_id period_key now) (\<lambda>_.
                tx_bind (if 0 < ch_reward_coins challenge
                    then ledger_record \<lparr>ne_user_id = user_id, ne_amount = ch_reward_coins challenge,
                      ne_reason = CHALLENGE_REWARD, ne_idempotency_key = challenge_key (ch_id challenge) period_key user_id,
                      ne_created_at = now, ne_source_id = Some (ch_id challenge), ne_actor_id = None, ne_note = None\<rparr>
                    else tx_return balance) (\<lambda>balance.
                tx_bind (if ch_kind challenge = DAILY_CHECKIN
                    then tx_bind (streak_in_transaction (ch_id challenge) user_id now z) (\<lambda>streak.
                      tx_bind (unlock_streak_achievements user_id streak now balance) (\<lambda>(balance, unlocked).
                      tx_return (Some streak, balance, unlocked)))
                    else tx_return (None, balance, [])) (\<lambda>(streak, balance, unlocked).
                commit \<lparr>cr_id = ch_id challenge, cr_coins_awarded = ch_reward_coins challenge,
                  cr_coin_balance = balance, cr_streak = streak, cr_achievements_unlocked = unlocked\<rparr>))))))))"

definition claim_challenge ::
  "zone \<Rightarrow> uuid \<Rightarrow> string \<Rightarrow> instant \<Rightarrow> database \<Rightarrow> (ChallengeClaimError raised + ChallengeClaimResult) \<times> database" where
  "claim_challenge z user_id challenge_id now = unit_of_work (claim_transaction z user_id challenge_id now)"

section \<open>The lists\<close>

record ChallengeProgress =
  cp_id :: string
  cp_kind :: ChallengeKind
  cp_period :: ChallengePeriod
  cp_target :: int
  cp_have :: int
  cp_reward_coins :: int
  cp_completed :: bool
  cp_claimed :: bool
  cp_streak :: "int option"

definition challenge_progress :: "zone \<Rightarrow> database \<Rightarrow> uuid \<Rightarrow> instant \<Rightarrow> ChallengeModel \<Rightarrow> py_error + ChallengeProgress" where
  "challenge_progress z s user_id now challenge =
     (let (period_key, period_start) = period_key_and_start (ch_period challenge) now z in
      case challenge_have s challenge user_id period_start of
        None \<Rightarrow> Inl AssertionError
      | Some have \<Rightarrow>
          (let claimed = challenge_already_claimed s (ch_id challenge) user_id period_key;
               row = (\<lambda>streak. \<lparr>cp_id = ch_id challenge, cp_kind = ch_kind challenge, cp_period = ch_period challenge,
                 cp_target = ch_target challenge, cp_have = have, cp_reward_coins = ch_reward_coins challenge,
                 cp_completed = (ch_target challenge \<le> have), cp_claimed = claimed, cp_streak = streak\<rparr>) in
           if ch_kind challenge = DAILY_CHECKIN then
             (case streak_on s (ch_id challenge) user_id (tehran_date now z) of
                None \<Rightarrow> Inl (ValueError ''Invalid isoformat string'')
              | Some n \<Rightarrow> Inr (row (Some n)))
           else Inr (row None)))"

fun all_progress :: "(ChallengeModel \<Rightarrow> py_error + 'a) \<Rightarrow> ChallengeModel list \<Rightarrow> py_error + 'a list" where
  "all_progress f [] = Inr []"
| "all_progress f (c # cs) =
     (case f c of
        Inl e \<Rightarrow> Inl e
      | Inr p \<Rightarrow> (case all_progress f cs of Inl e \<Rightarrow> Inl e | Inr ps \<Rightarrow> Inr (p # ps)))"

definition list_challenges :: "(string \<Rightarrow> int) \<Rightarrow> zone \<Rightarrow> database \<Rightarrow> uuid \<Rightarrow> instant \<Rightarrow> py_error + ChallengeProgress list" where
  "list_challenges rank z s user_id now =
     all_progress (challenge_progress z s user_id now) (list_active_challenges rank s)"

record AchievementProgress =
  ap_id :: string
  ap_fact :: AchievementFact
  ap_threshold :: int
  ap_reward_coins :: int
  ap_have :: int
  ap_unlocked :: bool
  ap_unlocked_at :: "instant option"

definition checkin_streak_days :: "(string \<Rightarrow> int) \<Rightarrow> zone \<Rightarrow> database \<Rightarrow> uuid \<Rightarrow> instant \<Rightarrow> int option" where
  "checkin_streak_days rank z s user_id now =
     (case List.find (\<lambda>c. ch_kind c = DAILY_CHECKIN) (list_active_challenges rank s) of
        None \<Rightarrow> Some 0
      | Some c \<Rightarrow> streak_on s (ch_id c) user_id (tehran_date now z))"

text \<open>The only fact is the streak, so it is computed as soon as there is an achievement.\<close>

definition list_achievement_progress ::
  "(string \<Rightarrow> int) \<Rightarrow> zone \<Rightarrow> database \<Rightarrow> uuid \<Rightarrow> instant \<Rightarrow> py_error + AchievementProgress list" where
  "list_achievement_progress rank z s user_id now =
     (let active = list_active_achievements rank s;
          unlocked_at = map_of (rev (map (\<lambda>u. (ul_id u, ul_unlocked_at u)) (list_unlocked s user_id))) in
      if active = [] then Inr []
      else case checkin_streak_days rank z s user_id now of
        None \<Rightarrow> Inl (ValueError ''Invalid isoformat string'')
      | Some streak \<Rightarrow> Inr (map (\<lambda>a. \<lparr>ap_id = at_id a, ap_fact = at_fact a, ap_threshold = at_threshold a,
          ap_reward_coins = at_reward_coins a, ap_have = streak, ap_unlocked = (unlocked_at (at_id a) \<noteq> None),
          ap_unlocked_at = unlocked_at (at_id a)\<rparr>) active))"

section \<open>The keys of rewards\<close>

lemma achievement_key_inject [simp]: "achievement_key a u = achievement_key b v \<longleftrightarrow> a = b \<and> u = v"
  by (auto simp: achievement_key_def)

lemma achievement_key_not_challenge [simp]: "achievement_key a u \<noteq> challenge_key c p v" "challenge_key c p v \<noteq> achievement_key a u"
  by (simp_all add: achievement_key_def challenge_key_def)

definition valid_period_key :: "string \<Rightarrow> bool" where
  "valid_period_key p \<longleftrightarrow> p = ''once''
     \<or> (\<exists>c r. p = c # CHR '':'' # r \<and> c \<in> set ''DWM'' \<and> CHR '':'' \<notin> set r \<and> r \<noteq> [] \<and> hd r \<notin> set ''oDWM'')"

lemma pad_dec_set: "set (pad_dec w n) \<subseteq> set ''0123456789''"
proof -
  have "digit_char d \<in> set ''0123456789''" if "d < 10" for d
  proof -
    have "d \<in> set [0, 1, 2, 3, 4, 5, 6, 7, 8, 9]" using that by auto
    then show ?thesis by (auto simp: digit_char_def)
  qed
  moreover have "\<forall>d \<in> set (digs 10 w n). d < 10" using digs_lt [of 10 _ w n] by simp
  ultimately show ?thesis unfolding pad_dec_def by auto
qed

lemma numeral_key:
  assumes "c \<in> set ''DWM''" "0 < w" "set r \<subseteq> set ''0123456789-''"
  shows "valid_period_key (c # CHR '':'' # pad_dec w n @ r)"
proof -
  have p: "pad_dec w n \<noteq> []" using assms(2) length_pad_dec [of w n] by (metis length_0_conv less_irrefl)
  then have "hd (pad_dec w n) \<in> set ''0123456789''" using pad_dec_set hd_in_set by blast
  moreover have "set ''0123456789'' \<inter> set ''oDWM'' = {}" by simp
  ultimately have h: "hd (pad_dec w n @ r) \<notin> set ''oDWM''" unfolding hd_append2 [OF p] by blast
  have "CHR '':'' \<notin> set ''0123456789-''" by simp
  moreover have "set (pad_dec w n) \<subseteq> set ''0123456789-''" using pad_dec_set [of w n] by (rule order_trans) simp
  ultimately have "CHR '':'' \<notin> set (pad_dec w n @ r)" using assms(3) by (simp only: set_append) blast
  then show ?thesis using assms(1) p h unfolding valid_period_key_def by blast
qed

lemma date_tail:
  "set (''-'' @ pad_dec 2 m) \<subseteq> set ''0123456789-''"
  "set (''-'' @ pad_dec 2 m @ ''-'' @ pad_dec 2 d) \<subseteq> set ''0123456789-''"
proof -
  have p: "set (pad_dec 2 n) \<subseteq> set ''0123456789-''" for n using pad_dec_set [of 2 n] by (rule order_trans) simp
  have d: "set ''-'' \<subseteq> set ''0123456789-''" by simp
  show "set (''-'' @ pad_dec 2 m) \<subseteq> set ''0123456789-''"
    "set (''-'' @ pad_dec 2 m @ ''-'' @ pad_dec 2 d) \<subseteq> set ''0123456789-''"
    unfolding set_append using p [of m] p [of d] d by blast+
qed

lemma valid_period_keys: "valid_period_key (fst (period_key_and_start period now z))"
proof (cases period)
  case ONCE
  then show ?thesis by (simp add: period_key_and_start_def ONCE_PERIOD_KEY_def valid_period_key_def)
next
  case DAY
  have "valid_period_key (CHR ''D'' # CHR '':'' # isoformat d)" for d
    unfolding isoformat_def by (rule numeral_key [OF _ _ date_tail(2)]) simp_all
  with DAY show ?thesis by (simp add: period_key_and_start_def tehran_day_key_def)
next
  case WEEK
  have "valid_period_key (CHR ''W'' # CHR '':'' # isoformat d)" for d
    unfolding isoformat_def by (rule numeral_key [OF _ _ date_tail(2)]) simp_all
  with WEEK show ?thesis by (simp add: period_key_and_start_def tehran_week_key_def)
next
  case MONTH
  have "valid_period_key (CHR ''M'' # CHR '':'' # pad_dec 4 y @ ''-'' @ pad_dec 2 m)" for y m
    by (rule numeral_key [OF _ _ date_tail(1)]) simp_all
  with MONTH show ?thesis by (simp add: period_key_and_start_def tehran_month_key_def Let_def)
qed

lemma key_not_suffix:
  assumes "valid_period_key p" "valid_period_key q" shows "p \<noteq> us @ CHR '':'' # q"
proof
  assume p: "p = us @ CHR '':'' # q"
  then have "CHR '':'' \<in> set p" by simp
  moreover have "CHR '':'' \<notin> set ''once''" by simp
  ultimately obtain c r where r: "p = c # CHR '':'' # r" "CHR '':'' \<notin> set r" "r \<noteq> []" "hd r \<notin> set ''oDWM''"
    using assms(1) unfolding valid_period_key_def by blast
  have "us = [c]"
  proof (cases us)
    case (Cons a us')
    with p r show ?thesis by (cases us') auto
  qed (use p r assms(1) in \<open>auto simp: valid_period_key_def\<close>)
  with p r have "q = r" by simp
  with r assms(2) show False by (auto simp: valid_period_key_def)
qed

lemma challenge_key_inject:
  assumes "valid_period_key p" "valid_period_key q"
  shows "challenge_key a p u = challenge_key b q v \<longleftrightarrow> a = b \<and> p = q \<and> u = v"
proof
  assume eq: "challenge_key a p u = challenge_key b q v"
  have "u = v \<and> a @ CHR '':'' # p = b @ CHR '':'' # q"
  proof -
    have "(a @ CHR '':'' # p @ '':'') @ uuid_str u = (b @ CHR '':'' # q @ '':'') @ uuid_str v"
      using eq by (simp add: challenge_key_def)
    then show ?thesis unfolding append_uuid_inject by simp
  qed
  then have uv: "u = v" and ab: "a @ CHR '':'' # p = b @ CHR '':'' # q" by auto
  from ab consider us where "a = b @ us" "us @ CHR '':'' # p = CHR '':'' # q"
    | us where "a @ us = b" "CHR '':'' # p = us @ CHR '':'' # q"
    by (auto simp: append_eq_append_conv2)
  then show "a = b \<and> p = q \<and> u = v"
  proof cases
    case 1
    then show ?thesis using key_not_suffix [OF assms(2,1)] uv by (cases us) auto
  next
    case 2
    then show ?thesis using key_not_suffix [OF assms(1,2)] uv by (cases us) auto
  qed
qed auto

section \<open>Paying a reward\<close>

lemma pay_reward:
  assumes "ledger_ok s" "wallet_of s (ne_user_id e) = Some w" "b = acct_balance (account_of s) (ne_user_id e)"
    and "0 \<le> ne_amount e" "recorded_amount s (ne_idempotency_key e) = None"
  shows "\<exists>t w'. (if 0 < ne_amount e then ledger_record e else tx_return b) s
      = (Inr (b + ne_amount e, t) :: 'e raised + int \<times> database)
    \<and> paid_under (ne_user_id e) (ne_idempotency_key e) (ne_amount e) s t \<and> wallet_of t (ne_user_id e) = Some w'"
proof (cases "0 < ne_amount e")
  case True
  from pay_goes_through [OF assms(1,2) True assms(5), where 'e = 'e]
  obtain b' t w' where t: "(ledger_record e s :: 'e raised + int \<times> database) = Inr (b', t)"
    "wallet_of t (ne_user_id e) = Some w'" by blast
  from paid_under_record [OF assms(1) t(1)] True t assms(3) show ?thesis by simp
next
  case False
  with assms show ?thesis by (simp add: paid_under_none tx_return_def)
qed

lemma reward_tables [simp]:
  "account_of (s\<lparr>user_achievements := x\<rparr>) = account_of s" "ledger_ok (s\<lparr>user_achievements := x\<rparr>) = ledger_ok s"
  "wallet_of (s\<lparr>user_achievements := x\<rparr>) = wallet_of s" "recorded_amount (s\<lparr>user_achievements := x\<rparr>) = recorded_amount s"
  "account_of (s\<lparr>challenge_claims := y\<rparr>) = account_of s" "ledger_ok (s\<lparr>challenge_claims := y\<rparr>) = ledger_ok s"
  "wallet_of (s\<lparr>challenge_claims := y\<rparr>) = wallet_of s" "recorded_amount (s\<lparr>challenge_claims := y\<rparr>) = recorded_amount s"
  by (simp_all add: account_of_def ledger_ok_def wallet_of_def recorded_amount_def fun_eq_iff)

section \<open>Unlocking achievements\<close>

definition due :: "database \<Rightarrow> uuid \<Rightarrow> int \<Rightarrow> AchievementModel list \<Rightarrow> AchievementModel list" where
  "due s u n found = filter (\<lambda>a. at_threshold a \<le> n \<and> \<not> achievement_already_unlocked s (at_id a) u) found"

definition unlocked_row :: "uuid \<Rightarrow> instant \<Rightarrow> AchievementModel \<Rightarrow> UserAchievementModel" where
  "unlocked_row u now a = \<lparr>ua_achievement_id = at_id a, ua_user_id = u, ua_unlocked_at = now\<rparr>"

definition unlock_answer :: "AchievementModel \<Rightarrow> AchievementUnlock" where
  "unlock_answer a = \<lparr>un_id = at_id a, un_reward_coins = at_reward_coins a\<rparr>"

definition rewards_of :: "AchievementModel list \<Rightarrow> int" where
  "rewards_of found = sum_list (map at_reward_coins found)"

lemma already_unlocked_more:
  "achievement_already_unlocked (t\<lparr>user_achievements := user_achievements t @ [unlocked_row u now a]\<rparr>) i v \<longleftrightarrow>
     achievement_already_unlocked t i v \<or> i = at_id a \<and> v = u"
  by (auto simp: achievement_already_unlocked_def unlocked_row_def)

lemma due_simps [simp]:
  "due s u n [] = []"
  "due s u n (a # found) = (if at_threshold a \<le> n \<and> \<not> achievement_already_unlocked s (at_id a) u
     then a # due s u n found else due s u n found)"
  by (simp_all add: due_def)

lemma due_later:
  assumes "user_achievements t = user_achievements s @ [unlocked_row u now a]" "at_id a \<notin> at_id ` set found"
  shows "due t u n found = due s u n found"
  unfolding due_def using assms by (intro filter_cong refl) (auto simp: achievement_already_unlocked_def unlocked_row_def)

lemma unlock_loop_result:
  assumes "ledger_ok s" "wallet_of s u = Some w" "b = acct_balance (account_of s) u" "distinct (map at_id found)"
    and "\<forall>a \<in> set found. 0 \<le> at_reward_coins a"
    and "\<forall>a \<in> set found. \<not> achievement_already_unlocked s (at_id a) u \<longrightarrow> recorded_amount s (achievement_key (at_id a) u) = None"
  shows "\<exists>t. (unlock_loop u n now found b un s :: 'e raised + (int \<times> AchievementUnlock list) \<times> database)
      = Inr ((b + rewards_of (due s u n found), un @ map unlock_answer (due s u n found)), t)
    \<and> user_achievements t = user_achievements s @ map (unlocked_row u now) (due s u n found)
    \<and> ledger_ok t \<and> challenge_claims t = challenge_claims s \<and> challenges t = challenges s \<and> achievements t = achievements s
    \<and> (\<forall>v. acct_balance (account_of t) v = acct_balance (account_of s) v
         + (if v = u then rewards_of (due s u n found) else 0))
    \<and> (\<forall>k. recorded_amount t k \<noteq> None \<longrightarrow>
         recorded_amount s k \<noteq> None \<or> (\<exists>a \<in> set (due s u n found). k = achievement_key (at_id a) u))"
  using assms
proof (induction found arbitrary: s w b un)
  case Nil
  then show ?case by (simp add: rewards_of_def tx_return_def)
next
  case (Cons a rest)
  show ?case
  proof (cases "at_threshold a \<le> n \<and> \<not> achievement_already_unlocked s (at_id a) u")
    case False
    have "unlock_loop u n now (a # rest) b un s = (unlock_loop u n now rest b un s
        :: 'e raised + (int \<times> AchievementUnlock list) \<times> database)"
      using False by auto
    moreover have "due s u n (a # rest) = due s u n rest" using False by simp
    moreover have "distinct (map at_id rest)" "\<forall>a \<in> set rest. 0 \<le> at_reward_coins a"
      "\<forall>a \<in> set rest. \<not> achievement_already_unlocked s (at_id a) u
         \<longrightarrow> recorded_amount s (achievement_key (at_id a) u) = None"
      using Cons.prems(4-6) by simp_all
    note Cons.IH [OF Cons.prems(1-3) this, of un]
    ultimately show ?thesis by (simp only:)
  next
    case True
    let ?s1 = "s\<lparr>user_achievements := user_achievements s @ [unlocked_row u now a]\<rparr>"
    let ?e = "\<lparr>ne_user_id = u, ne_amount = at_reward_coins a,
                ne_reason = ACHIEVEMENT_REWARD, ne_idempotency_key = achievement_key (at_id a) u,
                ne_created_at = now, ne_source_id = Some (at_id a), ne_actor_id = None, ne_note = None\<rparr>"
    have "\<exists>t w'. (if 0 < ne_amount ?e then ledger_record ?e else tx_return b) ?s1
      = (Inr (b + ne_amount ?e, t) :: 'e raised + int \<times> database)
      \<and> paid_under (ne_user_id ?e) (ne_idempotency_key ?e) (ne_amount ?e) ?s1 t \<and> wallet_of t (ne_user_id ?e) = Some w'"
      using Cons.prems True by (intro pay_reward) simp_all
    then obtain s2 w2 where pay: "(if 0 < at_reward_coins a then ledger_record ?e else tx_return b) ?s1
        = (Inr (b + at_reward_coins a, s2) :: 'e raised + int \<times> database)"
      "paid_under u (achievement_key (at_id a) u) (at_reward_coins a) ?s1 s2" "wallet_of s2 u = Some w2" by auto
    note same = coins_only_same [OF conjunct1 [OF pay(2) [unfolded paid_under_def]], simplified]
    have s2: "ledger_ok s2" "b + at_reward_coins a = acct_balance (account_of s2) u"
      "\<And>k. recorded_amount s2 k \<noteq> None \<longrightarrow> recorded_amount s k \<noteq> None \<or> k = achievement_key (at_id a) u"
      using pay(2) Cons.prems(3) by (auto simp: paid_under_def split: if_splits)
    have later: "due s2 u n rest = due s u n rest"
      by (rule due_later [OF same(16)]) (use Cons.prems(4) in simp)
    have already: "achievement_already_unlocked s2 i v \<longleftrightarrow> achievement_already_unlocked s i v \<or> i = at_id a \<and> v = u" for i v
      using already_unlocked_more [of s u now a i v] same(16) by (simp add: achievement_already_unlocked_def)
    have "\<forall>x \<in> set rest. \<not> achievement_already_unlocked s2 (at_id x) u \<longrightarrow> recorded_amount s2 (achievement_key (at_id x) u) = None"
      using Cons.prems(6) pay(2) by (auto simp: already paid_under_def)
    from Cons.IH [OF s2(1) pay(3) s2(2) _ _ this, of "un @ [unlock_answer a]"] Cons.prems(4,5)
    obtain t where t: "(unlock_loop u n now rest (b + at_reward_coins a) (un @ [unlock_answer a]) s2
        :: 'e raised + (int \<times> AchievementUnlock list) \<times> database)
      = Inr ((b + at_reward_coins a + rewards_of (due s u n rest), un @ [unlock_answer a] @ map unlock_answer (due s u n rest)), t)"
      "user_achievements t = user_achievements s2 @ map (unlocked_row u now) (due s u n rest)"
      "ledger_ok t" "challenge_claims t = challenge_claims s2" "challenges t = challenges s2" "achievements t = achievements s2"
      "\<And>v. acct_balance (account_of t) v = acct_balance (account_of s2) v + (if v = u then rewards_of (due s u n rest) else 0)"
      "\<And>k. recorded_amount t k \<noteq> None \<longrightarrow>
         recorded_amount s2 k \<noteq> None \<or> (\<exists>x \<in> set (due s u n rest). k = achievement_key (at_id x) u)"
      by (auto simp: later)
    have run: "unlock_loop u n now (a # rest) b un s = (unlock_loop u n now rest (b + at_reward_coins a) (un @ [unlock_answer a]) s2
        :: 'e raised + (int \<times> AchievementUnlock list) \<times> database)"
      using True pay(1) by (simp add: unlock_def tx_bind_def tx_read_def tx_insert_def unlocked_row_def unlock_answer_def)
    have bal: "acct_balance (account_of s2) v = acct_balance (account_of s) v + (if v = u then at_reward_coins a else 0)" for v
      using pay(2) by (simp add: paid_under_def)
    have keys: "recorded_amount t k \<noteq> None \<longrightarrow>
        recorded_amount s k \<noteq> None \<or> (\<exists>x \<in> set (due s u n (a # rest)). k = achievement_key (at_id x) u)" for k
      using t(8) [of k] s2(3) [of k] True by auto
    have "due s u n (a # rest) = a # due s u n rest" using True by simp
    then show ?thesis
      unfolding run t(1) using t(2-6) t(7) bal same keys
      by (intro exI [of _ t]) (simp add: rewards_of_def unlock_answer_def)
  qed
qed

section \<open>Consistent rewards\<close>

definition claim_row :: "string \<Rightarrow> uuid \<Rightarrow> string \<Rightarrow> instant \<Rightarrow> ChallengeClaimModel" where
  "claim_row i u key now = \<lparr>cc_challenge_id = i, cc_user_id = u, cc_period_key = key, cc_claimed_at = now\<rparr>"

definition claim_id :: "ChallengeClaimModel \<Rightarrow> string \<times> uuid \<times> string" where
  "claim_id c = (cc_challenge_id c, cc_user_id c, cc_period_key c)"

definition unlock_id :: "UserAchievementModel \<Rightarrow> string \<times> uuid" where
  "unlock_id a = (ua_achievement_id a, ua_user_id a)"

text \<open>Whatever was paid for a challenge or an achievement has its claim or its unlock on record.\<close>

definition rewards_ok :: "database \<Rightarrow> bool" where
  "rewards_ok s \<longleftrightarrow> ledger_ok s
     \<and> distinct (map ch_id (challenges s)) \<and> (\<forall>c \<in> set (challenges s). 0 \<le> ch_reward_coins c)
     \<and> distinct (map at_id (achievements s)) \<and> (\<forall>a \<in> set (achievements s). 0 \<le> at_reward_coins a)
     \<and> distinct (map claim_id (challenge_claims s)) \<and> distinct (map unlock_id (user_achievements s))
     \<and> (\<forall>i p u. valid_period_key p \<longrightarrow> recorded_amount s (challenge_key i p u) \<noteq> None
          \<longrightarrow> challenge_already_claimed s i u p)
     \<and> (\<forall>i u. recorded_amount s (achievement_key i u) \<noteq> None \<longrightarrow> achievement_already_unlocked s i u)"

lemma claimed_iff: "challenge_already_claimed s i u p \<longleftrightarrow> (i, u, p) \<in> claim_id ` set (challenge_claims s)"
  by (auto simp: challenge_already_claimed_def claim_id_def image_iff)

lemma unlocked_iff: "achievement_already_unlocked s i u \<longleftrightarrow> (i, u) \<in> unlock_id ` set (user_achievements s)"
  by (auto simp: achievement_already_unlocked_def unlock_id_def image_iff)

definition rewarded :: "uuid \<Rightarrow> ChallengeClaimModel \<Rightarrow> AchievementModel list \<Rightarrow> int \<Rightarrow> database \<Rightarrow> database \<Rightarrow> bool" where
  "rewarded u row unlocked coins s t \<longleftrightarrow>
     challenge_claims t = challenge_claims s @ [row]
     \<and> user_achievements t = user_achievements s @ map (unlocked_row u (cc_claimed_at row)) unlocked
     \<and> (\<forall>v. acct_balance (account_of t) v = acct_balance (account_of s) v + (if v = u then coins else 0))
     \<and> rewards_ok t"

lemma rewards_ok_rewarded:
  assumes s: "rewards_ok s" and new: "\<not> challenge_already_claimed s i u key" "valid_period_key key"
    and ds: "\<forall>a \<in> set ds. \<not> achievement_already_unlocked s (at_id a) u" "distinct (map at_id ds)"
    and t: "challenges t = challenges s" "achievements t = achievements s" "ledger_ok t"
      "challenge_claims t = challenge_claims s @ [claim_row i u key now]"
      "user_achievements t = user_achievements s @ map (unlocked_row u now) ds"
    and keys: "\<And>k. recorded_amount t k \<noteq> None \<Longrightarrow>
      recorded_amount s k \<noteq> None \<or> k = challenge_key i key u \<or> (\<exists>a \<in> set ds. k = achievement_key (at_id a) u)"
  shows "rewards_ok t"
proof -
  have "claim_id (claim_row i u key now) = (i, u, key)" by (simp add: claim_id_def claim_row_def)
  then have "distinct (map claim_id (challenge_claims t))"
    using s new(1) by (simp add: t rewards_ok_def claimed_iff)
  moreover have "distinct (map unlock_id (user_achievements t))"
  proof -
    have "map unlock_id (map (unlocked_row u now) ds) = map (\<lambda>a. (at_id a, u)) ds"
      by (simp add: unlock_id_def unlocked_row_def)
    moreover have "distinct (map (\<lambda>a. (at_id a, u)) ds)"
      using ds(2) by (simp add: distinct_map inj_on_def)
    moreover have "\<forall>a \<in> set ds. (at_id a, u) \<notin> unlock_id ` set (user_achievements s)"
      using ds(1) by (simp add: unlocked_iff)
    ultimately show ?thesis
      using s by (auto simp: t rewards_ok_def simp del: map_map)
  qed
  moreover have "challenge_already_claimed t j v p"
    if "valid_period_key p" "recorded_amount t (challenge_key j p v) \<noteq> None" for j p v
    using keys [OF that(2)] s that(1) new(2)
    by (auto simp: rewards_ok_def challenge_already_claimed_def t claim_row_def challenge_key_inject)
  moreover have "achievement_already_unlocked t j v" if "recorded_amount t (achievement_key j v) \<noteq> None" for j v
  proof -
    have "unlock_id ` set (user_achievements t) = unlock_id ` set (user_achievements s) \<union> (\<lambda>a. (at_id a, u)) ` set ds"
      by (simp add: t image_Un image_image unlock_id_def unlocked_row_def)
    then have more: "achievement_already_unlocked t j v \<longleftrightarrow> achievement_already_unlocked s j v \<or> j \<in> at_id ` set ds \<and> v = u"
      by (auto simp: unlocked_iff)
    have "recorded_amount s (achievement_key j v) \<noteq> None \<or> j \<in> at_id ` set ds \<and> v = u"
      using keys [OF that] by auto
    with s more show ?thesis unfolding rewards_ok_def by blast
  qed
  ultimately show ?thesis using s t(1-3) unfolding rewards_ok_def by simp
qed

lemma lock_for_claim:
  assumes "rewards_ok s" "wallet_owner s u"
  obtains b s1 where "(lock_wallet u now s :: ChallengeClaimError raised + int \<times> database) = Inr (b, s1)"
    "b = acct_balance (account_of s) u" "coins_only s s1" "account_of s1 = account_of s" "ledger_ok s1"
    "recorded_amount s1 = recorded_amount s" "\<exists>w. wallet_of s1 u = Some w"
    "get_challenge_by_id s1 = get_challenge_by_id s" "challenge_already_claimed s1 = challenge_already_claimed s"
    "challenge_have s1 = challenge_have s"
proof -
  obtain b s1 where lock: "(lock_wallet u now s :: ChallengeClaimError raised + int \<times> database) = Inr (b, s1)"
    using lock_wallet_total assms(2) unfolding wallet_owner_def by blast
  note f = coins_only_same [OF lock_wallet_frame [OF lock]]
  have l: "ledger_ok s1" "account_of s1 = account_of s" "b = acct_balance (account_of s) u"
    using sql_ledger.lock_law [OF _ lock] assms(1) by (auto simp: rewards_ok_def)
  have same: "get_challenge_by_id s1 = get_challenge_by_id s" "challenge_already_claimed s1 = challenge_already_claimed s"
    by (simp_all add: fun_eq_iff get_challenge_by_id_def challenge_already_claimed_def f)
  have "current_team_membership s1 = current_team_membership s"
    "accepted_mini_game_run_count s1 = accepted_mini_game_run_count s"
    "fast_tap_reflex_run_count_since s1 = fast_tap_reflex_run_count_since s"
    "distinct_flavors_count_since s1 = distinct_flavors_count_since s"
    by (simp_all add: fun_eq_iff current_team_membership_def accepted_mini_game_run_count_def
      fast_tap_reflex_run_count_since_def distinct_flavors_count_since_def f)
  note reads = this
  have "challenge_have s1 = challenge_have s" by (intro ext) (unfold challenge_have_def reads, rule refl)
  moreover have "recorded_amount s1 = recorded_amount s" using l(2) by (simp add: account_of_def fun_eq_iff)
  moreover note same
  ultimately show thesis
    using that [OF lock l(3) lock_wallet_frame [OF lock] l(2,1)] lock_wallet_wallet [OF lock] by blast
qed

definition with_claim :: "database \<Rightarrow> string \<Rightarrow> uuid \<Rightarrow> string \<Rightarrow> instant \<Rightarrow> database" where
  "with_claim s i u key now = s\<lparr>challenge_claims := challenge_claims s @ [claim_row i u key now]\<rparr>"

definition streak_due :: "database \<Rightarrow> uuid \<Rightarrow> int \<Rightarrow> AchievementModel list" where
  "streak_due s u streak = due s u streak (list_active_achievements_by_fact s CHECKIN_STREAK)"

lemma get_challenge_Some: "get_challenge_by_id s i = Some c \<Longrightarrow> c \<in> set (challenges s) \<and> ch_id c = i \<and> ch_active c"
  by (auto simp: get_challenge_by_id_def dest!: select_one_Some split: option.splits if_splits)

lemma filter_distinct_map: "distinct (map f xs) \<Longrightarrow> distinct (map f (filter p xs))"
  by (induction xs) auto

text \<open>The claim and its reward, from the tables after the wallet lock.\<close>

lemma claim_paid:
  assumes s: "rewards_ok s" and new: "\<not> challenge_already_claimed s i u key" "valid_period_key key"
    and c: "c \<in> set (challenges s)" "ch_id c = i" and w: "wallet_of s u = Some w"
  obtains t w' where
    "(tx_bind (insert_claim i u key now) (\<lambda>_.
       (if 0 < ch_reward_coins c
        then ledger_record \<lparr>ne_user_id = u, ne_amount = ch_reward_coins c,
          ne_reason = CHALLENGE_REWARD, ne_idempotency_key = challenge_key i key u,
          ne_created_at = now, ne_source_id = Some i, ne_actor_id = None, ne_note = None\<rparr>
        else tx_return (acct_balance (account_of s) u))) s :: 'e raised + int \<times> database)
      = Inr (acct_balance (account_of s) u + ch_reward_coins c, t)"
    "wallet_of t u = Some w'" "paid_under u (challenge_key i key u) (ch_reward_coins c) (with_claim s i u key now) t"
proof -
  let ?e = "\<lparr>ne_user_id = u, ne_amount = ch_reward_coins c,
          ne_reason = CHALLENGE_REWARD, ne_idempotency_key = challenge_key i key u,
          ne_created_at = now, ne_source_id = Some i, ne_actor_id = None, ne_note = None\<rparr>"
  have none: "recorded_amount s (challenge_key i key u) = None"
    using s new unfolding rewards_ok_def by blast
  have "\<exists>t w'. (if 0 < ne_amount ?e then ledger_record ?e else tx_return (acct_balance (account_of s) u)) (with_claim s i u key now)
      = (Inr (acct_balance (account_of s) u + ne_amount ?e, t) :: 'e raised + int \<times> database)
    \<and> paid_under (ne_user_id ?e) (ne_idempotency_key ?e) (ne_amount ?e) (with_claim s i u key now) t
    \<and> wallet_of t (ne_user_id ?e) = Some w'"
    using s c w none by (intro pay_reward) (auto simp: with_claim_def rewards_ok_def)
  then obtain t w' where "(if 0 < ch_reward_coins c then ledger_record ?e else tx_return (acct_balance (account_of s) u))
      (with_claim s i u key now) = (Inr (acct_balance (account_of s) u + ch_reward_coins c, t) :: 'e raised + int \<times> database)"
    "paid_under u (challenge_key i key u) (ch_reward_coins c) (with_claim s i u key now) t" "wallet_of t u = Some w'"
    by auto
  with that new(1) show thesis
    by (simp add: insert_claim_def tx_bind_def tx_insert_def with_claim_def claim_row_def)
qed

lemma claim_effect:
  assumes s: "rewards_ok s" and new: "\<not> challenge_already_claimed s i u key" "valid_period_key key"
    and c: "c \<in> set (challenges s)" "ch_id c = i"
    and paid: "paid_under u (challenge_key i key u) (ch_reward_coins c) (with_claim s i u key now) t"
  shows "rewarded u (claim_row i u key now) [] (ch_reward_coins c) s t"
    and "streak_on t i u d = streak_on (with_claim s i u key now) i u d" and "streak_due t u n = streak_due s u n"
proof -
  note same = coins_only_same [OF conjunct1 [OF paid [unfolded paid_under_def]], unfolded with_claim_def, simplified]
  have keys: "recorded_amount s k \<noteq> None \<or> k = challenge_key i key u" if "recorded_amount t k \<noteq> None" for k
    using that paid by (auto simp: paid_under_def with_claim_def split: if_splits)
  have "rewards_ok t"
    by (rule rewards_ok_rewarded [OF s new, of "[]" t now]) (use same paid keys in \<open>auto simp: paid_under_def\<close>)
  then show "rewarded u (claim_row i u key now) [] (ch_reward_coins c) s t"
    using same paid by (simp add: rewarded_def paid_under_def with_claim_def)
  show "streak_on t i u d = streak_on (with_claim s i u key now) i u d"
    using same by (simp add: streak_on_def checkin_dates_def with_claim_def)
  show "streak_due t u n = streak_due s u n"
    using same by (simp add: streak_due_def due_def list_active_achievements_by_fact_def achievement_already_unlocked_def)
qed

lemma due_paid:
  assumes r: "rewarded u (claim_row i u key now) [] coins s t" and w: "wallet_of t u = Some w"
    and s: "rewards_ok s" and new: "\<not> challenge_already_claimed s i u key" "valid_period_key key"
    and tabs: "challenges t = challenges s" "achievements t = achievements s"
    and keys: "\<And>k. recorded_amount t k \<noteq> None \<Longrightarrow> recorded_amount s k \<noteq> None \<or> k = challenge_key i key u"
  obtains t' where
    "(unlock_streak_achievements u n now (acct_balance (account_of t) u) t
        :: 'e raised + (int \<times> AchievementUnlock list) \<times> database)
      = Inr ((acct_balance (account_of t) u + rewards_of (streak_due t u n), map unlock_answer (streak_due t u n)), t')"
    "rewarded u (claim_row i u key now) (streak_due t u n) (coins + rewards_of (streak_due t u n)) s t'"
proof -
  let ?found = "list_active_achievements_by_fact t CHECKIN_STREAK"
  have t: "rewards_ok t" using r by (simp add: rewarded_def)
  have d: "distinct (map at_id ?found)" "\<forall>a \<in> set ?found. 0 \<le> at_reward_coins a"
    using t by (auto simp: rewards_ok_def list_active_achievements_by_fact_def intro: filter_distinct_map)
  have unpaid: "\<forall>a \<in> set ?found. \<not> achievement_already_unlocked t (at_id a) u
      \<longrightarrow> recorded_amount t (achievement_key (at_id a) u) = None"
    using t unfolding rewards_ok_def by (metis option.exhaust option.simps(3))
  have "ledger_ok t" using t by (simp add: rewards_ok_def)
  note unlock_loop_result [where 'e = 'e and un = "[]" and now = now and n = n, OF this w refl d unpaid,
    folded streak_due_def]
  then obtain t' where t': "(unlock_loop u n now ?found (acct_balance (account_of t) u) [] t
        :: 'e raised + (int \<times> AchievementUnlock list) \<times> database)
      = Inr ((acct_balance (account_of t) u + rewards_of (streak_due t u n), map unlock_answer (streak_due t u n)), t')"
    "user_achievements t' = user_achievements t @ map (unlocked_row u now) (streak_due t u n)"
    "ledger_ok t'" "challenge_claims t' = challenge_claims t" "challenges t' = challenges t" "achievements t' = achievements t"
    "\<And>v. acct_balance (account_of t') v = acct_balance (account_of t) v + (if v = u then rewards_of (streak_due t u n) else 0)"
    "\<And>k. recorded_amount t' k \<noteq> None \<Longrightarrow>
       recorded_amount t k \<noteq> None \<or> (\<exists>a \<in> set (streak_due t u n). k = achievement_key (at_id a) u)"
    by auto
  have ua: "user_achievements t = user_achievements s" using r by (simp add: rewarded_def)
  have "rewards_ok t'"
  proof (rule rewards_ok_rewarded [OF s new, of "streak_due t u n" t' now])
    show "\<forall>a \<in> set (streak_due t u n). \<not> achievement_already_unlocked s (at_id a) u"
      by (auto simp: streak_due_def due_def achievement_already_unlocked_def ua)
    show "distinct (map at_id (streak_due t u n))"
      using t unfolding streak_due_def due_def list_active_achievements_by_fact_def rewards_ok_def
      by (intro filter_distinct_map) simp
    show "recorded_amount s k \<noteq> None \<or> k = challenge_key i key u
        \<or> (\<exists>a \<in> set (streak_due t u n). k = achievement_key (at_id a) u)" if "recorded_amount t' k \<noteq> None" for k
      using t'(8) [OF that] keys [of k] by blast
  qed (use t' r tabs ua in \<open>simp_all add: rewarded_def\<close>)
  then have "rewarded u (claim_row i u key now) (streak_due t u n) (coins + rewards_of (streak_due t u n)) s t'"
    using r t' by (simp add: rewarded_def claim_row_def)
  moreover have "(unlock_streak_achievements u n now (acct_balance (account_of t) u) t
        :: 'e raised + (int \<times> AchievementUnlock list) \<times> database)
      = Inr ((acct_balance (account_of t) u + rewards_of (streak_due t u n), map unlock_answer (streak_due t u n)), t')"
    using t'(1) by (simp add: unlock_streak_achievements_def)
  ultimately show thesis using that by blast
qed

section \<open>What a claim comes to\<close>

lemma claim_result:
  assumes s: "rewards_ok s" "wallet_owner s u" and found: "get_challenge_by_id s i = Some c"
    and key: "period_key_and_start (ch_period c) now z = (key, start)"
  shows "if challenge_already_claimed s i u key then claim_challenge z u i now s = (Inl (Raised ALREADY_CLAIMED), s)
    else case challenge_have s c u start of
      None \<Rightarrow> claim_challenge z u i now s = (Inl (Crash AssertionError), s)
    | Some n \<Rightarrow>
        if n < ch_target c then claim_challenge z u i now s = (Inl (Raised (NOT_UNLOCKED (ch_target c) n)), s)
        else if ch_kind c \<noteq> DAILY_CHECKIN then
          \<exists>t. claim_challenge z u i now s = (Inr \<lparr>cr_id = i, cr_coins_awarded = ch_reward_coins c,
                cr_coin_balance = acct_balance (account_of t) u, cr_streak = None, cr_achievements_unlocked = []\<rparr>, t)
            \<and> rewarded u (claim_row i u key now) [] (ch_reward_coins c) s t
        else case streak_on (with_claim s i u key now) i u (tehran_date now z) of
          None \<Rightarrow> claim_challenge z u i now s = (Inl (Crash (ValueError ''Invalid isoformat string'')), s)
        | Some k \<Rightarrow>
            \<exists>t. claim_challenge z u i now s = (Inr \<lparr>cr_id = i, cr_coins_awarded = ch_reward_coins c,
                cr_coin_balance = acct_balance (account_of t) u, cr_streak = Some k,
                cr_achievements_unlocked = map unlock_answer (streak_due s u k)\<rparr>, t)
            \<and> rewarded u (claim_row i u key now) (streak_due s u k)
                (ch_reward_coins c + rewards_of (streak_due s u k)) s t"
proof -
  have c: "c \<in> set (challenges s)" "ch_id c = i" using get_challenge_Some [OF found] by auto
  have valid: "valid_period_key key" using valid_period_keys [of "ch_period c" now z] key by simp
  obtain b s1 where l: "(lock_wallet u now s :: ChallengeClaimError raised + int \<times> database) = Inr (b, s1)"
    "b = acct_balance (account_of s) u" "coins_only s s1" "account_of s1 = account_of s" "ledger_ok s1"
    "recorded_amount s1 = recorded_amount s" "\<exists>w. wallet_of s1 u = Some w"
    "get_challenge_by_id s1 = get_challenge_by_id s" "challenge_already_claimed s1 = challenge_already_claimed s"
    "challenge_have s1 = challenge_have s"
    by (rule lock_for_claim [OF s])
  note f = coins_only_same [OF l(3)]
  have s1: "rewards_ok s1" using s(1) l by (simp add: rewards_ok_def f unlocked_iff)
  have tail: "claim_challenge z u i now s = unit_of_work (claim_transaction z u i now) s"
    by (simp add: claim_challenge_def)
  note go = tail unit_of_work_def claim_transaction_def
  show ?thesis
  proof (cases "challenge_already_claimed s i u key")
    case True
    then show ?thesis using l found key c by (simp add: go tx_raise_def)
  next
    case new: False
    show ?thesis
    proof (cases "challenge_have s c u start")
      case None
      then show ?thesis using new l found key c by (simp add: go tx_crash_def)
    next
      case (Some n)
      show ?thesis
      proof (cases "n < ch_target c")
        case True
        then show ?thesis using Some new l found key c by (simp add: go tx_raise_def)
      next
        case reached: False
        have new1: "\<not> challenge_already_claimed s1 i u key" using new l by simp
        have c1: "c \<in> set (challenges s1)" using c f by simp
        obtain w where w: "wallet_of s1 u = Some w" using l(7) by blast
        obtain t w' where paid: "(tx_bind (insert_claim i u key now) (\<lambda>_.
             (if 0 < ch_reward_coins c
              then ledger_record \<lparr>ne_user_id = u, ne_amount = ch_reward_coins c,
                ne_reason = CHALLENGE_REWARD, ne_idempotency_key = challenge_key i key u,
                ne_created_at = now, ne_source_id = Some i, ne_actor_id = None, ne_note = None\<rparr>
              else tx_return (acct_balance (account_of s1) u))) s1 :: ChallengeClaimError raised + int \<times> database)
            = Inr (acct_balance (account_of s1) u + ch_reward_coins c, t)"
          "wallet_of t u = Some w'" "paid_under u (challenge_key i key u) (ch_reward_coins c) (with_claim s1 i u key now) t"
          by (rule claim_paid [OF s1 new1 valid c1 c(2) w])
        note eff = claim_effect [OF s1 new1 valid c1 c(2) paid(3)]
        have bal: "acct_balance (account_of t) u = acct_balance (account_of s1) u + ch_reward_coins c"
          using eff(1) by (simp add: rewarded_def)
        have from_s1: "rewarded u row ds n s1 t' \<Longrightarrow> rewarded u row ds n s t'" for row ds n t'
          by (simp add: rewarded_def f l)
        have streak: "streak_on (with_claim s1 i u key now) = streak_on (with_claim s i u key now)"
          by (simp add: fun_eq_iff streak_on_def checkin_dates_def with_claim_def f)
        have run: "claim_transaction z u i now s = tx_bind (if ch_kind c = DAILY_CHECKIN
                    then tx_bind (streak_in_transaction i u now z) (\<lambda>streak.
                      tx_bind (unlock_streak_achievements u streak now (acct_balance (account_of t) u)) (\<lambda>(balance, unlocked).
                      tx_return (Some streak, balance, unlocked)))
                    else tx_return (None, acct_balance (account_of t) u, [])) (\<lambda>(streak, balance, unlocked).
                commit \<lparr>cr_id = i, cr_coins_awarded = ch_reward_coins c,
                  cr_coin_balance = balance, cr_streak = streak, cr_achievements_unlocked = unlocked\<rparr>) t"
        proof -
          obtain s2 where "(insert_claim i u key now s1 :: ChallengeClaimError raised + unit \<times> database) = Inr ((), s2)"
            "(if 0 < ch_reward_coins c
              then ledger_record \<lparr>ne_user_id = u, ne_amount = ch_reward_coins c,
                ne_reason = CHALLENGE_REWARD, ne_idempotency_key = challenge_key i key u,
                ne_created_at = now, ne_source_id = Some i, ne_actor_id = None, ne_note = None\<rparr>
              else tx_return (acct_balance (account_of s1) u)) s2
            = (Inr (acct_balance (account_of s1) u + ch_reward_coins c, t) :: ChallengeClaimError raised + int \<times> database)"
            using paid(1) unfolding tx_bind_Inr_iff by auto
          then show ?thesis
            using l found key c new Some reached bal
            by (cases "0 < ch_reward_coins c") (simp_all add: claim_transaction_def)
        qed
        show ?thesis
        proof (cases "ch_kind c = DAILY_CHECKIN")
          case False
          then have "claim_challenge z u i now s = (Inr \<lparr>cr_id = i, cr_coins_awarded = ch_reward_coins c,
                cr_coin_balance = acct_balance (account_of t) u, cr_streak = None, cr_achievements_unlocked = []\<rparr>, t)"
            by (simp add: claim_challenge_def unit_of_work_def run commit_def tx_return_def)
          with False new Some reached from_s1 [OF eff(1)] show ?thesis by auto
        next
          case daily: True
          show ?thesis
          proof (cases "streak_on (with_claim s i u key now) i u (tehran_date now z)")
            case None
            then have "claim_challenge z u i now s = (Inl (Crash (ValueError ''Invalid isoformat string'')), s)"
              using daily by (simp add: claim_challenge_def unit_of_work_def run streak_in_transaction_def eff(2) streak
                tx_bind_def tx_read_def tx_crash_def)
            with None daily new Some reached show ?thesis by simp
          next
            case k: (Some k)
            have dues: "streak_due t u k = streak_due s u k"
              using eff(3) f by (simp add: streak_due_def due_def list_active_achievements_by_fact_def
                achievement_already_unlocked_def)
            have keys: "recorded_amount s1 x \<noteq> None \<or> x = challenge_key i key u" if "recorded_amount t x \<noteq> None" for x
              using that paid(3) by (auto simp: paid_under_def with_claim_def split: if_splits)
            note same = coins_only_same [OF conjunct1 [OF paid(3) [unfolded paid_under_def]], unfolded with_claim_def, simplified]
            obtain t' where t': "(unlock_streak_achievements u k now (acct_balance (account_of t) u) t
                :: ChallengeClaimError raised + (int \<times> AchievementUnlock list) \<times> database)
              = Inr ((acct_balance (account_of t) u + rewards_of (streak_due t u k), map unlock_answer (streak_due t u k)), t')"
              "rewarded u (claim_row i u key now) (streak_due t u k) (ch_reward_coins c + rewards_of (streak_due t u k)) s1 t'"
              by (rule due_paid [OF eff(1) paid(2) s1 new1 valid same(12,14) keys])
            have "acct_balance (account_of t') u = acct_balance (account_of t) u + rewards_of (streak_due t u k)"
              using t'(2) bal by (simp add: rewarded_def)
            then have "claim_challenge z u i now s = (Inr \<lparr>cr_id = i, cr_coins_awarded = ch_reward_coins c,
                cr_coin_balance = acct_balance (account_of t') u, cr_streak = Some k,
                cr_achievements_unlocked = map unlock_answer (streak_due s u k)\<rparr>, t')"
              using daily k t'(1) dues by (simp add: claim_challenge_def unit_of_work_def run streak_in_transaction_def
                eff(2) streak tx_bind_def tx_read_def tx_return_def commit_def)
            moreover have "rewarded u (claim_row i u key now) (streak_due s u k)
                (ch_reward_coins c + rewards_of (streak_due s u k)) s t'"
              using from_s1 [OF t'(2)] dues by simp
            ultimately show ?thesis using daily k new Some reached by auto
          qed
        qed
      qed
    qed
  qed
qed

text \<open>
  What claiming a challenge comes to. An unknown or inactive challenge, one already claimed in its
  period and one whose progress is below its target are refused and change nothing. Otherwise the claim
  is recorded for the period, its reward is paid, and for the daily check-in the streak counted with
  today's claim unlocks, and pays, just the active achievements it reaches and the player does not have.
\<close>

theorem challenge_claim_decided:
  assumes "rewards_ok s" "wallet_owner s u"
  shows "case get_challenge_by_id s i of
      None \<Rightarrow> claim_challenge z u i now s = (Inl (Raised CHALLENGE_UNKNOWN), s)
    | Some c \<Rightarrow> (case period_key_and_start (ch_period c) now z of (key, start) \<Rightarrow>
    if challenge_already_claimed s i u key then claim_challenge z u i now s = (Inl (Raised ALREADY_CLAIMED), s)
    else case challenge_have s c u start of
      None \<Rightarrow> claim_challenge z u i now s = (Inl (Crash AssertionError), s)
    | Some n \<Rightarrow>
        if n < ch_target c then claim_challenge z u i now s = (Inl (Raised (NOT_UNLOCKED (ch_target c) n)), s)
        else if ch_kind c \<noteq> DAILY_CHECKIN then
          \<exists>t. claim_challenge z u i now s = (Inr \<lparr>cr_id = i, cr_coins_awarded = ch_reward_coins c,
                cr_coin_balance = acct_balance (account_of t) u, cr_streak = None, cr_achievements_unlocked = []\<rparr>, t)
            \<and> rewarded u (claim_row i u key now) [] (ch_reward_coins c) s t
        else case streak_on (with_claim s i u key now) i u (tehran_date now z) of
          None \<Rightarrow> claim_challenge z u i now s = (Inl (Crash (ValueError ''Invalid isoformat string'')), s)
        | Some k \<Rightarrow>
            \<exists>t. claim_challenge z u i now s = (Inr \<lparr>cr_id = i, cr_coins_awarded = ch_reward_coins c,
                cr_coin_balance = acct_balance (account_of t) u, cr_streak = Some k,
                cr_achievements_unlocked = map unlock_answer (streak_due s u k)\<rparr>, t)
            \<and> rewarded u (claim_row i u key now) (streak_due s u k)
                (ch_reward_coins c + rewards_of (streak_due s u k)) s t)"
proof (cases "get_challenge_by_id s i")
  case None
  obtain b s1 where "(lock_wallet u now s :: ChallengeClaimError raised + int \<times> database) = Inr (b, s1)"
    "get_challenge_by_id s1 = get_challenge_by_id s"
    by (rule lock_for_claim [OF assms])
  with None show ?thesis
    by (simp add: claim_challenge_def claim_transaction_def unit_of_work_def tx_raise_def)
next
  case (Some c)
  obtain key start where "period_key_and_start (ch_period c) now z = (key, start)" by fastforce
  from claim_result [OF assms Some this] this show ?thesis by (simp only: Some option.case prod.case)
qed

definition team_challenge :: ChallengeModel where
  "team_challenge = \<lparr>ch_id = ''team'', ch_kind = TEAM_CHOICE, ch_period = ONCE, ch_target = 1, ch_reward_coins = 30,
     ch_active = True, ch_created_at = 0\<rparr>"

definition reward_shop :: database where
  "reward_shop = one_user\<lparr>challenges := [team_challenge], team_memberships :=
     [\<lparr>tm_user_id = 1, tm_flavor = TOKYO, tm_switch_no = 0, tm_joined_at = 0\<rparr>]\<rparr>"

lemma reward_shop_ok: "rewards_ok reward_shop" "wallet_owner reward_shop 1"
  by (simp_all add: rewards_ok_def reward_shop_def one_user_def empty_database_def ledger_ok_def wallet_owner_def
    user_exists_def adult_user_def team_challenge_def recorded_amount_def)

theorem challenge_claim_decided_witness:
  "\<exists>t. claim_challenge tehran 1 ''team'' 0 reward_shop = (Inr \<lparr>cr_id = ''team'', cr_coins_awarded = 30,
      cr_coin_balance = acct_balance (account_of t) 1, cr_streak = None, cr_achievements_unlocked = []\<rparr>, t)
    \<and> rewarded 1 (claim_row ''team'' 1 ''once'' 0) [] 30 reward_shop t"
proof -
  have "get_challenge_by_id reward_shop ''team'' = Some team_challenge"
    by (simp add: get_challenge_by_id_def reward_shop_def team_challenge_def)
  moreover have "\<not> challenge_already_claimed reward_shop ''team'' 1 ''once''"
    by (simp add: challenge_already_claimed_def reward_shop_def one_user_def empty_database_def)
  moreover have "current_team_membership reward_shop 1 \<noteq> None"
    by (simp add: current_team_membership_def reward_shop_def order_desc_def)
  ultimately show ?thesis
    using challenge_claim_decided [OF reward_shop_ok, where i = "''team''" and z = tehran and now = 0]
    by (simp add: period_key_and_start_def ONCE_PERIOD_KEY_def team_challenge_def challenge_have_def)
qed

section \<open>Runs of claims\<close>

fun claims_all ::
  "zone \<Rightarrow> (uuid \<times> string \<times> instant) list \<Rightarrow> database
     \<Rightarrow> (uuid \<times> (ChallengeClaimError raised + ChallengeClaimResult)) list \<times> database" where
  "claims_all z [] s = ([], s)"
| "claims_all z ((u, i, now) # qs) s =
     (let (r, s') = claim_challenge z u i now s; (rs, t) = claims_all z qs s' in ((u, r) # rs, t))"

fun claim_coins :: "ChallengeClaimError raised + ChallengeClaimResult \<Rightarrow> int" where
  "claim_coins (Inl e) = 0"
| "claim_coins (Inr res) = cr_coins_awarded res + sum_list (map un_reward_coins (cr_achievements_unlocked res))"

lemma rewards_of_answers: "sum_list (map un_reward_coins (map unlock_answer ds)) = rewards_of ds"
  by (simp add: rewards_of_def unlock_answer_def comp_def)

lemma claim_step_exact:
  assumes "rewards_ok s" and "claim_challenge z u i now s = (r, t)"
  shows "rewards_ok t
    \<and> length (challenge_claims t) = length (challenge_claims s) + (if isl r then 0 else 1)
    \<and> (\<exists>new. challenge_claims t = challenge_claims s @ new) \<and> (\<exists>new. user_achievements t = user_achievements s @ new)
    \<and> (\<forall>v. acct_balance (account_of t) v = acct_balance (account_of s) v + (if v = u then claim_coins r else 0))"
proof (cases "wallet_owner s u")
  case False
  then have "claim_challenge z u i now s = (Inl (Crash (IntegrityError ''wallets_user_id_fkey'')), s)"
    by (simp add: claim_challenge_def claim_transaction_def unit_of_work_def wallet_owner_def lock_wallet_nobody)
  with assms show ?thesis by auto
next
  case owner: True
  show ?thesis
  proof (cases "get_challenge_by_id s i")
    case None
    obtain b s1 where "(lock_wallet u now s :: ChallengeClaimError raised + int \<times> database) = Inr (b, s1)"
      "get_challenge_by_id s1 = get_challenge_by_id s"
      by (rule lock_for_claim [OF assms(1) owner])
    with None have "claim_challenge z u i now s = (Inl (Raised CHALLENGE_UNKNOWN), s)"
      by (simp add: claim_challenge_def claim_transaction_def unit_of_work_def tx_raise_def)
    with assms show ?thesis by auto
  next
    case (Some c)
    obtain key start where ks: "period_key_and_start (ch_period c) now z = (key, start)" by fastforce
    have "(\<exists>e. r = Inl e \<and> t = s)
      \<or> (\<exists>res ds. r = Inr res \<and> rewarded u (claim_row i u key now) ds (claim_coins r) s t)"
      using claim_result [OF assms(1) owner Some ks] assms(2)
      by (auto simp: rewards_of_answers simp del: map_map split: if_splits option.splits)
    with assms(1) show ?thesis by (auto simp: rewarded_def)
  qed
qed



section \<open>Challenges the engine cannot serve\<close>

lemma those_None: "None \<in> set xs \<Longrightarrow> those xs = None"
  by (induction xs) (auto split: option.splits)

lemma other_keys_not_dates:
  assumes "period \<noteq> DAY"
  shows "date_fromisoformat (remove_prefix ''D:'' (fst (period_key_and_start period now z))) = None"
  using assms
  by (cases period) (simp_all add: period_key_and_start_def ONCE_PERIOD_KEY_def tehran_week_key_def tehran_month_key_def
    remove_prefix_def starts_with_def isoformat_def date_fromisoformat_def Let_def)

lemma all_progress_error: "c \<in> set cs \<Longrightarrow> isl (f c) \<Longrightarrow> isl (all_progress f cs)"
  by (induction cs) (auto split: sum.splits)

text \<open>
  Two kinds of rows the constraints of \<open>challenges\<close> allow break the engine. A daily check-in whose
  period is not a day can never be claimed: the claim that reaches its target ends in the
  \<open>ValueError\<close> of \<open>date.fromisoformat\<close> and is rolled back, for every player at every time. An
  active challenge of distinct flavors or fast taps with the period \<open>once\<close> makes the list of
  challenges fail for every player, not just its own row.
\<close>

theorem misconfigured_challenges_crash:
  assumes "rewards_ok s" "wallet_owner s u" and "get_challenge_by_id s i = Some c"
  shows "(ch_kind c = DAILY_CHECKIN \<and> ch_period c \<noteq> DAY \<and> ch_target c \<le> 1
        \<and> \<not> challenge_already_claimed s i u (fst (period_key_and_start (ch_period c) now z))
      \<longrightarrow> claim_challenge z u i now s = (Inl (Crash (ValueError ''Invalid isoformat string'')), s))
    \<and> (ch_kind c \<in> {DISTINCT_FLAVORS, TAP_REFLEX_FAST} \<and> ch_period c = ONCE
      \<longrightarrow> isl (list_challenges rank z s u now))"
proof (intro conjI impI)
  assume a: "ch_kind c = DAILY_CHECKIN \<and> ch_period c \<noteq> DAY \<and> ch_target c \<le> 1
        \<and> \<not> challenge_already_claimed s i u (fst (period_key_and_start (ch_period c) now z))"
  obtain key start where ks: "period_key_and_start (ch_period c) now z = (key, start)" by fastforce
  have "streak_on (with_claim s i u key now) i u (tehran_date now z) = None"
    using other_keys_not_dates [of "ch_period c" now z] a ks
    by (simp add: streak_on_def checkin_dates_def with_claim_def claim_row_def those_None)
  with claim_result [OF assms ks] a ks
  show "claim_challenge z u i now s = (Inl (Crash (ValueError ''Invalid isoformat string'')), s)"
    by (simp add: challenge_have_def)
next
  assume a: "ch_kind c \<in> {DISTINCT_FLAVORS, TAP_REFLEX_FAST} \<and> ch_period c = ONCE"
  have "c \<in> set (list_active_challenges rank s)"
    using get_challenge_Some [OF assms(3)] by (simp add: list_active_challenges_def)
  moreover have "isl (challenge_progress z s u now c)"
    using a by (auto simp: challenge_progress_def period_key_and_start_def challenge_have_def)
  ultimately show "isl (list_challenges rank z s u now)"
    unfolding list_challenges_def by (rule all_progress_error)
qed

theorem misconfigured_challenges_crash_witness:
  "claim_challenge tehran 1 ''weekly'' 0 (reward_shop\<lparr>challenges := [team_challenge\<lparr>ch_id := ''weekly'',
      ch_kind := DAILY_CHECKIN, ch_period := WEEK\<rparr>]\<rparr>)
    = (Inl (Crash (ValueError ''Invalid isoformat string'')), reward_shop\<lparr>challenges := [team_challenge\<lparr>ch_id := ''weekly'',
      ch_kind := DAILY_CHECKIN, ch_period := WEEK\<rparr>]\<rparr>)"
proof -
  let ?c = "team_challenge\<lparr>ch_id := ''weekly'', ch_kind := DAILY_CHECKIN, ch_period := WEEK\<rparr>"
  let ?s = "reward_shop\<lparr>challenges := [?c]\<rparr>"
  have "rewards_ok ?s" "wallet_owner ?s 1" "get_challenge_by_id ?s ''weekly'' = Some ?c"
    by (simp_all add: rewards_ok_def reward_shop_def one_user_def empty_database_def ledger_ok_def wallet_owner_def
      user_exists_def adult_user_def team_challenge_def recorded_amount_def get_challenge_by_id_def)
  moreover have "\<not> challenge_already_claimed ?s ''weekly'' 1 key" for key
    by (simp add: challenge_already_claimed_def reward_shop_def one_user_def empty_database_def)
  ultimately show ?thesis
    using misconfigured_challenges_crash [where s = ?s and u = 1 and i = "''weekly''" and c = ?c and now = 0 and z = tehran] by (simp add: team_challenge_def)
qed

end
