(* ===== verification/Referrals.thy ===== *)
theory Referrals
  imports Payments Teams Mini_Games
begin

text \<open>
  The referral program: \<open>app/domain/referrals.py\<close>, \<open>app/application/referrals.py\<close>, \<open>SqlReferrals\<close> and
  the referral codes of the user repository. The inviter is paid through the ledger as a
  \<open>paying_port\<close>; the random generator is an argument, as for the mini games.
\<close>

section \<open>The rules\<close>

definition REFERRAL_CODE_LENGTH :: nat where
  "REFERRAL_CODE_LENGTH = 8"

definition FIRST_CODE_BONUS_COINS :: int where
  "FIRST_CODE_BONUS_COINS = 15"

definition LATER_CODE_BONUS_COINS :: int where
  "LATER_CODE_BONUS_COINS = 5"

definition LATER_CODE_WINDOW :: int where
  "LATER_CODE_WINDOW = 180 * microsecond_day"

definition FIRST_CODE_REASON_KEY :: string where
  "FIRST_CODE_REASON_KEY = ''referral:first''"

definition LATER_CODE_REASON_KEY :: string where
  "LATER_CODE_REASON_KEY = ''referral:code''"

text \<open>\<open>choice i n\<close> is the position the \<open>i\<close>-th \<open>rng.choice\<close> picks in a sequence of length \<open>n\<close>.\<close>

definition generate_referral_code :: "(nat \<Rightarrow> nat \<Rightarrow> nat) \<Rightarrow> string" where
  "generate_referral_code choice =
     map (\<lambda>i. char_of (CROCKFORD_BASE32 ! choice i (length CROCKFORD_BASE32))) [0..<REFERRAL_CODE_LENGTH]"

definition first_code_bonus_key :: "uuid \<Rightarrow> string" where
  "first_code_bonus_key invitee_id = FIRST_CODE_REASON_KEY @ '':'' @ uuid_str invitee_id"

definition later_code_bonus_key :: "uuid \<Rightarrow> string" where
  "later_code_bonus_key redemption_code_id = LATER_CODE_REASON_KEY @ '':'' @ uuid_str redemption_code_id"

datatype ReferralBindRefusal = REFER_SELF | CODE_UNKNOWN | ALREADY_BOUND | TOO_LATE

definition check_can_bind :: "uuid \<Rightarrow> uuid option \<Rightarrow> bool \<Rightarrow> int \<Rightarrow> ReferralBindRefusal + unit" where
  "check_can_bind invitee_id inviter_id already_bound invitee_redeemed_codes =
     (if inviter_id = None then Inl CODE_UNKNOWN
      else if inviter_id = Some invitee_id then Inl REFER_SELF
      else if already_bound then Inl ALREADY_BOUND
      else if 0 < invitee_redeemed_codes then Inl TOO_LATE
      else Inr ())"

record ReferralPayout =
  po_amount :: int
  po_idempotency_key :: string

text \<open>The loop breaks at the first code outside the window.\<close>

definition settle_payouts :: "uuid \<Rightarrow> bool \<Rightarrow> (uuid \<times> instant) list \<Rightarrow> int \<Rightarrow> ReferralPayout list" where
  "settle_payouts invitee_id mission_complete redeemed_codes window =
     (case redeemed_codes of
        [] \<Rightarrow> []
      | (first_id, first_at) # rest \<Rightarrow>
          if \<not> mission_complete then []
          else \<lparr>po_amount = FIRST_CODE_BONUS_COINS, po_idempotency_key = first_code_bonus_key invitee_id\<rparr>
            # map (\<lambda>(code_id, _). \<lparr>po_amount = LATER_CODE_BONUS_COINS,
                  po_idempotency_key = later_code_bonus_key code_id\<rparr>)
                (takeWhile (\<lambda>(_, redeemed_at). redeemed_at \<le> first_at + window) rest))"

section \<open>\<open>SqlReferrals\<close>\<close>

definition get_by_invitee :: "database \<Rightarrow> uuid \<Rightarrow> ReferralModel option" where
  "get_by_invitee s invitee_id = select_one (\<lambda>r. rf_invitee_user_id r = invitee_id) (referrals s)"

definition resolve_code :: "database \<Rightarrow> string \<Rightarrow> uuid option" where
  "resolve_code s referral_code = map_option u_id (select_one (\<lambda>u. u_referral_code u = Some referral_code) (users s))"

definition insert_binding :: "uuid \<Rightarrow> uuid \<Rightarrow> instant \<Rightarrow> ('e, unit) dbtx" where
  "insert_binding invitee_id inviter_id now =
     tx_insert ''referrals'' (\<lambda>s. get_by_invitee s invitee_id = None \<and> invitee_id \<noteq> inviter_id)
       (\<lambda>s. s\<lparr>referrals := referrals s
          @ [\<lparr>rf_invitee_user_id = invitee_id, rf_inviter_user_id = inviter_id, rf_bound_at = now\<rparr>]\<rparr>)"

record ReferralInviteeStatus =
  is_nickname_set :: bool
  is_terms_accepted :: bool
  is_has_team :: bool
  is_has_accepted_mini_game_run :: bool

definition invitee_status :: "database \<Rightarrow> uuid \<Rightarrow> ReferralInviteeStatus" where
  "invitee_status s invitee_id =
     (let user = select_one (\<lambda>u. u_id u = invitee_id) (users s) in
      \<lparr>is_nickname_set = (case user of None \<Rightarrow> False | Some u \<Rightarrow> u_nickname u \<noteq> None),
       is_terms_accepted = (case user of None \<Rightarrow> False | Some u \<Rightarrow> u_terms_accepted_at u \<noteq> None),
       is_has_team = exists_where (\<lambda>m. tm_user_id m = invitee_id) (team_memberships s),
       is_has_accepted_mini_game_run =
         exists_where (\<lambda>r. mg_user_id r = invitee_id \<and> mg_status r = ACCEPTED) (mini_game_runs s)\<rparr>)"

record ReferralSummary =
  sm_invited_count :: int
  sm_qualified_count :: int
  sm_pending_count :: int
  sm_coins_earned :: int

text \<open>\<open>LIKE 'referral:%'\<close> is a prefix test.\<close>

definition summary :: "database \<Rightarrow> uuid \<Rightarrow> ReferralSummary" where
  "summary s inviter_user_id =
     (let invited_count = count_where (\<lambda>r. rf_inviter_user_id r = inviter_user_id) (referrals s);
          earned = sum_list (map le_amount (filter (\<lambda>e. le_user_id e = inviter_user_id
            \<and> starts_with ''referral:'' (le_idempotency_key e)) (coin_ledger_entries s)));
          qualified_count = count_where (\<lambda>e. le_user_id e = inviter_user_id
            \<and> starts_with (FIRST_CODE_REASON_KEY @ '':'') (le_idempotency_key e)) (coin_ledger_entries s) in
      \<lparr>sm_invited_count = invited_count, sm_qualified_count = qualified_count,
       sm_pending_count = max (invited_count - qualified_count) 0, sm_coins_earned = earned\<rparr>)"

section \<open>The referral code of a user\<close>

text \<open>
  \<open>candidate i\<close> is what the generator returns the \<open>i\<close>-th time. One attempt is an \<open>UPDATE\<close> of the user's
  row where it has no code yet, which the unique constraint refuses (\<open>None\<close>) when another user has it.
\<close>

definition store_referral_code :: "uuid \<Rightarrow> string \<Rightarrow> database \<Rightarrow> database option" where
  "store_referral_code user_id candidate s =
     (let missing = (\<lambda>u. u_id u = user_id \<and> u_referral_code u = None) in
      if exists_where missing (users s) \<and> exists_where (\<lambda>u. u_referral_code u = Some candidate) (users s) then None
      else Some (s\<lparr>users := update_where missing (\<lambda>u. u\<lparr>u_referral_code := Some candidate\<rparr>) (users s)\<rparr>))"

definition referral_code_of :: "database \<Rightarrow> uuid \<Rightarrow> string option" where
  "referral_code_of s user_id =
     (case select_one (\<lambda>u. u_id u = user_id) (users s) of None \<Rightarrow> None | Some u \<Rightarrow> u_referral_code u)"

fun allocate_referral_code :: "nat \<Rightarrow> uuid \<Rightarrow> (nat \<Rightarrow> string) \<Rightarrow> database \<Rightarrow> (py_error + string) \<times> database" where
  "allocate_referral_code 0 user_id candidate s = (Inl (RuntimeError ''could not allocate a referral code''), s)"
| "allocate_referral_code (Suc n) user_id candidate s =
     (case store_referral_code user_id (candidate 0) s of
        None \<Rightarrow> allocate_referral_code n user_id (\<lambda>i. candidate (Suc i)) s
      | Some t \<Rightarrow>
          (case referral_code_of t user_id of
             Some code \<Rightarrow> (Inr code, t)
           | None \<Rightarrow> allocate_referral_code n user_id (\<lambda>i. candidate (Suc i)) t))"

definition ensure_referral_code :: "uuid \<Rightarrow> (nat \<Rightarrow> string) \<Rightarrow> database \<Rightarrow> (py_error + string) \<times> database" where
  "ensure_referral_code user_id candidate s =
     (case referral_code_of s user_id of
        Some code \<Rightarrow> (Inr code, s)
      | None \<Rightarrow> allocate_referral_code 5 user_id candidate s)"

section \<open>\<open>ReferralService\<close>\<close>

record ReferralStatus =
  st_referral_code :: string
  st_invited_count :: int
  st_qualified_count :: int
  st_pending_count :: int
  st_coins_earned :: int

definition reason_for_key :: "string \<Rightarrow> LedgerReason" where
  "reason_for_key idempotency_key =
     (if starts_with ''referral:first:'' idempotency_key then REFERRAL_FIRST_CODE else REFERRAL_LATER_CODE)"

definition bind_transaction ::
  "uuid \<Rightarrow> string \<Rightarrow> instant \<Rightarrow> (ReferralBindRefusal, (ReferralBindRefusal, unit) exit) dbtx" where
  "bind_transaction invitee_id referral_code now =
     tx_bind (lock_wallet invitee_id now) (\<lambda>_.
     tx_bind (tx_read (\<lambda>s. resolve_code s referral_code)) (\<lambda>inviter_id.
     tx_bind (tx_read (\<lambda>s. get_by_invitee s invitee_id)) (\<lambda>existing.
     tx_bind (tx_read (\<lambda>s. int (length (list_redeemed s invitee_id)))) (\<lambda>redeemed_count.
     tx_bind (tx_check (check_can_bind invitee_id inviter_id (existing \<noteq> None) redeemed_count)) (\<lambda>_.
     case inviter_id of
       None \<Rightarrow> tx_crash AssertionError
     | Some inviter_id \<Rightarrow>
         tx_bind (insert_binding invitee_id inviter_id now) (\<lambda>_.
         commit ()))))))"

definition bind_referral ::
  "uuid \<Rightarrow> string \<Rightarrow> instant \<Rightarrow> database \<Rightarrow> (ReferralBindRefusal raised + unit) \<times> database" where
  "bind_referral invitee_id referral_code now = unit_of_work (bind_transaction invitee_id referral_code now)"

definition referral_entry :: "uuid \<Rightarrow> uuid \<Rightarrow> instant \<Rightarrow> ReferralPayout \<Rightarrow> NewLedgerEntry" where
  "referral_entry inviter_id invitee_id now payout =
     \<lparr>ne_user_id = inviter_id, ne_amount = po_amount payout,
      ne_reason = reason_for_key (po_idempotency_key payout), ne_idempotency_key = po_idempotency_key payout,
      ne_created_at = now, ne_source_id = Some (uuid_str invitee_id), ne_actor_id = None, ne_note = None\<rparr>"

definition mission_complete :: "bool \<Rightarrow> ReferralInviteeStatus \<Rightarrow> bool" where
  "mission_complete terms_required status \<longleftrightarrow>
     is_nickname_set status \<and> (is_terms_accepted status \<or> \<not> terms_required)
     \<and> is_has_team status \<and> is_has_accepted_mini_game_run status"

definition settle_transaction :: "bool \<Rightarrow> uuid \<Rightarrow> instant \<Rightarrow> ('e, ('e, unit) exit) dbtx" where
  "settle_transaction terms_required invitee_id now =
     tx_bind (tx_read (\<lambda>s. get_by_invitee s invitee_id)) (\<lambda>binding.
     case binding of
       None \<Rightarrow> leave ()
     | Some binding \<Rightarrow>
         tx_bind (tx_read (\<lambda>s. invitee_status s invitee_id)) (\<lambda>status.
         tx_bind (tx_read (\<lambda>s. list_redeemed s invitee_id)) (\<lambda>redeemed_codes.
         let payouts = settle_payouts invitee_id (mission_complete terms_required status) redeemed_codes LATER_CODE_WINDOW in
         if payouts = [] then leave ()
         else
           tx_bind (lock_wallet (rf_inviter_user_id binding) now) (\<lambda>_.
           tx_bind (tx_each (pay_once amount_for_key ledger_record)
               (map (referral_entry (rf_inviter_user_id binding) invitee_id now) payouts)) (\<lambda>_.
           commit ())))))"

definition settle :: "bool \<Rightarrow> uuid \<Rightarrow> instant \<Rightarrow> database \<Rightarrow> ('e raised + unit) \<times> database" where
  "settle terms_required invitee_id now = unit_of_work (settle_transaction terms_required invitee_id now)"

definition referral_status ::
  "uuid \<Rightarrow> (nat \<Rightarrow> string) \<Rightarrow> database \<Rightarrow> (py_error + ReferralStatus) \<times> database" where
  "referral_status user_id candidate s =
     (case ensure_referral_code user_id candidate s of
        (Inl e, t) \<Rightarrow> (Inl e, t)
      | (Inr code, t) \<Rightarrow>
          (let sm = summary t user_id in
           (Inr \<lparr>st_referral_code = code, st_invited_count = sm_invited_count sm,
              st_qualified_count = sm_qualified_count sm, st_pending_count = sm_pending_count sm,
              st_coins_earned = sm_coins_earned sm\<rparr>, t)))"

section \<open>Keys and payouts\<close>

lemma bonus_keys [simp]:
  "first_code_bonus_key a = first_code_bonus_key b \<longleftrightarrow> a = b"
  "later_code_bonus_key c = later_code_bonus_key d \<longleftrightarrow> c = d"
  "first_code_bonus_key a \<noteq> later_code_bonus_key c" "later_code_bonus_key c \<noteq> first_code_bonus_key a"
  by (auto simp: first_code_bonus_key_def later_code_bonus_key_def FIRST_CODE_REASON_KEY_def LATER_CODE_REASON_KEY_def)

lemma bonus_key_prefix [simp]:
  "starts_with ''referral:'' (first_code_bonus_key a)" "starts_with ''referral:'' (later_code_bonus_key c)"
  "starts_with (FIRST_CODE_REASON_KEY @ '':'') (first_code_bonus_key a)"
  "\<not> starts_with (FIRST_CODE_REASON_KEY @ '':'') (later_code_bonus_key c)"
  by (simp_all add: first_code_bonus_key_def later_code_bonus_key_def FIRST_CODE_REASON_KEY_def LATER_CODE_REASON_KEY_def
    starts_with_def)

text \<open>On codes in the order of their times nothing behind the break is in the window.\<close>

lemma takeWhile_sorted:
  "sorted_wrt (\<lambda>a b. f a \<le> f b) xs \<Longrightarrow> takeWhile (\<lambda>x. f x \<le> (n :: int)) xs = filter (\<lambda>x. f x \<le> n) xs"
proof (induction xs)
  case (Cons x xs)
  show ?case
  proof (cases "f x \<le> n")
    case False
    with Cons.prems have "\<forall>y \<in> set xs. \<not> f y \<le> n" by force
    with False show ?thesis by (simp add: filter_False)
  qed (use Cons in simp)
qed simp

lemma order_asc_Nil: "order_asc k rows = [] \<longleftrightarrow> rows = []"
  by (metis set_empty set_order_asc)

lemma list_redeemed_sorted: "sorted_wrt (\<lambda>a b. snd a \<le> snd b) (list_redeemed s u)"
proof -
  let ?f = "\<lambda>c. the (rc_redeemed_at c)"
  have "sorted (map ?f (order_asc ?f rows))" for rows by (simp add: order_asc_def)
  then show ?thesis unfolding list_redeemed_def by (simp add: sorted_wrt_map sorted_map)
qed

lemma list_redeemed_ids:
  assumes "distinct (map rc_id (redemption_codes s))"
  shows "distinct (map fst (list_redeemed s u))"
proof -
  have "distinct (map rc_id (order_asc k (filter P (redemption_codes s))))" for k P
    using assms by (auto simp: order_asc_def distinct_map distinct_filter inj_on_def)
  then show ?thesis by (simp add: list_redeemed_def comp_def)
qed

lemma list_redeemed_mem:
  "(c, t) \<in> set (list_redeemed s u) \<Longrightarrow>
     \<exists>row \<in> set (redemption_codes s). rc_id row = c \<and> rc_redeemed_by_user_id row = Some u \<and> rc_redeemed_at row = Some t"
  by (auto simp: list_redeemed_def)

text \<open>What the inviter is owed: the bonus for the first code, and one for each later code in the window.\<close>

definition later_codes :: "(uuid \<times> instant) list \<Rightarrow> uuid list" where
  "later_codes codes =
     (case codes of [] \<Rightarrow> []
      | (_, first_at) # rest \<Rightarrow> map fst (filter (\<lambda>c. snd c \<le> first_at + 180 * microsecond_day) rest))"

lemma settle_payouts_owed:
  assumes "sorted_wrt (\<lambda>a b. snd a \<le> snd b) codes"
  shows "settle_payouts i done codes LATER_CODE_WINDOW =
    (if codes = [] \<or> \<not> done then []
     else \<lparr>po_amount = 15, po_idempotency_key = first_code_bonus_key i\<rparr>
       # map (\<lambda>c. \<lparr>po_amount = 5, po_idempotency_key = later_code_bonus_key c\<rparr>) (later_codes codes))"
proof (cases codes)
  case (Cons c rest)
  obtain first_id first_at where c: "c = (first_id, first_at)" by (cases c)
  have "sorted_wrt (\<lambda>a b. snd a \<le> snd b) rest" using assms Cons by simp
  from takeWhile_sorted [OF this, of "first_at + LATER_CODE_WINDOW"]
  have "takeWhile (\<lambda>(_, t). t \<le> first_at + LATER_CODE_WINDOW) rest
      = filter (\<lambda>c. snd c \<le> first_at + 180 * microsecond_day) rest"
    by (simp add: case_prod_beta' LATER_CODE_WINDOW_def)
  then show ?thesis
    by (simp add: Cons c settle_payouts_def later_codes_def FIRST_CODE_BONUS_COINS_def LATER_CODE_BONUS_COINS_def
      case_prod_beta')
qed (simp add: settle_payouts_def)

section \<open>Settling\<close>

lemma acct_paid_of [simp]: "acct_paid (account_of s) = recorded_amount s"
  by (simp add: account_of_def)

definition owed :: "uuid \<Rightarrow> uuid \<Rightarrow> instant \<Rightarrow> (uuid \<times> instant) list \<Rightarrow> NewLedgerEntry list" where
  "owed inviter i now codes =
     map (referral_entry inviter i now)
       (\<lparr>po_amount = 15, po_idempotency_key = first_code_bonus_key i\<rparr>
        # map (\<lambda>c. \<lparr>po_amount = 5, po_idempotency_key = later_code_bonus_key c\<rparr>) (later_codes codes))"

lemma referral_entry_simps [simp]:
  "ne_user_id (referral_entry u i now p) = u" "ne_amount (referral_entry u i now p) = po_amount p"
  "ne_idempotency_key (referral_entry u i now p) = po_idempotency_key p"
  by (simp_all add: referral_entry_def)

lemma later_codes_distinct: "distinct (map fst codes) \<Longrightarrow> distinct (later_codes codes)"
  by (auto simp: later_codes_def distinct_map inj_on_def split: list.splits)

lemma owed_keys: "map ne_idempotency_key (owed u i now codes)
    = first_code_bonus_key i # map later_code_bonus_key (later_codes codes)"
  by (simp add: owed_def comp_def)

lemma owed_distinct: "distinct (map fst codes) \<Longrightarrow> distinct (map ne_idempotency_key (owed u i now codes))"
  unfolding owed_keys by (auto simp: distinct_map inj_on_def later_codes_distinct)

lemma owed_mem: "e \<in> set (owed u i now codes) \<Longrightarrow> ne_user_id e = u \<and> 0 < ne_amount e"
  by (auto simp: owed_def)

lemma owed_coins:
  "sum_list (map ne_amount (unpaid a (owed u i now codes)))
     = (if acct_paid a (first_code_bonus_key i) = None then 15 else 0)
       + 5 * count_where (\<lambda>c. acct_paid a (later_code_bonus_key c) = None) (later_codes codes)"
proof -
  have "sum_list (map ne_amount (unpaid a (map (referral_entry u i now)
      (map (\<lambda>c. \<lparr>po_amount = 5, po_idempotency_key = later_code_bonus_key c\<rparr>) cs))))
    = 5 * count_where (\<lambda>c. acct_paid a (later_code_bonus_key c) = None) cs" for cs
    by (induction cs) (auto simp: unpaid_def)
  from this [of "later_codes codes"] show ?thesis by (simp add: owed_def) (simp add: unpaid_def)
qed

lemma payouts_owed:
  assumes "list_redeemed s i \<noteq> []"
  shows "map (referral_entry u i now) (settle_payouts i True (list_redeemed s i) LATER_CODE_WINDOW)
      = owed u i now (list_redeemed s i)"
    "settle_payouts i True (list_redeemed s i) LATER_CODE_WINDOW \<noteq> []"
  using assms by (simp_all add: settle_payouts_owed [OF list_redeemed_sorted] owed_def)

lemma all_paid_stays:
  assumes "\<And>e. e \<in> set es \<Longrightarrow> recorded_amount s (ne_idempotency_key e) \<noteq> None"
  shows "tx_each (pay_once amount_for_key ledger_record) es s = (Inr ((), s) :: 'e raised + unit \<times> database)"
  using assms
proof (induction es)
  case (Cons e es)
  then have "pay_once amount_for_key ledger_record e s = (Inr ((), s) :: 'e raised + unit \<times> database)"
    by (intro sql_paying.pay_once_paid) simp
  with Cons show ?case by simp
qed (simp add: tx_return_def)

lemma lock_wallet_entries: "lock_wallet u now s = Inr (b, t) \<Longrightarrow> coin_ledger_entries t = coin_ledger_entries s"
  by (auto simp: lock_wallet_Inr_iff split: option.splits)

lemma pay_each_rows:
  "tx_each (pay_once amount_for_key ledger_record) es s = (Inr ((), t) :: 'e raised + unit \<times> database) \<Longrightarrow>
     e \<in> set (coin_ledger_entries t) \<Longrightarrow> e \<in> set (coin_ledger_entries s) \<or> (\<exists>n \<in> set es. \<exists>j. e = ledger_entry j n)"
proof (induction es arbitrary: s)
  case (Cons n es)
  then obtain s1 where s1: "pay_once amount_for_key ledger_record n s = (Inr ((), s1) :: 'e raised + unit \<times> database)"
    and rest: "tx_each (pay_once amount_for_key ledger_record) es s1 = (Inr ((), t) :: 'e raised + unit \<times> database)"
    by (auto simp: tx_bind_Inr_iff)
  from s1 have "x \<in> set (coin_ledger_entries s1) \<Longrightarrow> x \<in> set (coin_ledger_entries s) \<or> (\<exists>j. x = ledger_entry j n)" for x
    by (auto simp: pay_once_def amount_for_key_def tx_bind_Inr_iff ledger_record_Inr_iff posted_def split: option.splits)
  with Cons.IH [OF rest Cons.prems(2)] show ?case by auto
qed simp

definition settled :: "uuid \<Rightarrow> uuid \<Rightarrow> database \<Rightarrow> database \<Rightarrow> bool" where
  "settled inviter i s t \<longleftrightarrow>
     (let later = later_codes (list_redeemed s i) in
      coins_only s t \<and> ledger_ok t
      \<and> (\<forall>e \<in> set (coin_ledger_entries t). e \<in> set (coin_ledger_entries s) \<or> le_user_id e = inviter
           \<and> (le_idempotency_key e = first_code_bonus_key i \<and> le_amount e = 15
             \<or> le_idempotency_key e \<in> later_code_bonus_key ` set later \<and> le_amount e = 5))
      \<and> acct_balance (account_of t) = (acct_balance (account_of s))(inviter := acct_balance (account_of s) inviter
           + (if recorded_amount s (first_code_bonus_key i) = None then 15 else 0)
           + 5 * count_where (\<lambda>c. recorded_amount s (later_code_bonus_key c) = None) later)
      \<and> (\<forall>k. recorded_amount t k =
           (if recorded_amount s k \<noteq> None then recorded_amount s k
            else if k = first_code_bonus_key i then Some 15
            else if k \<in> later_code_bonus_key ` set later then Some 5 else None)))"

lemma find_owed:
  assumes "distinct (map fst codes)"
  shows "List.find (\<lambda>e. ne_idempotency_key e = k) (unpaid a (owed u i now codes)) =
    (if acct_paid a k \<noteq> None then None
     else if k = first_code_bonus_key i then Some (referral_entry u i now \<lparr>po_amount = 15, po_idempotency_key = k\<rparr>)
     else if k \<in> later_code_bonus_key ` set (later_codes codes)
       then Some (referral_entry u i now \<lparr>po_amount = 5, po_idempotency_key = k\<rparr>) else None)"
proof -
  have later: "List.find (\<lambda>e. ne_idempotency_key e = k) (unpaid a (map (referral_entry u i now)
      (map (\<lambda>c. \<lparr>po_amount = 5, po_idempotency_key = later_code_bonus_key c\<rparr>) cs)))
    = (if acct_paid a k = None \<and> k \<in> later_code_bonus_key ` set cs
       then Some (referral_entry u i now \<lparr>po_amount = 5, po_idempotency_key = k\<rparr>) else None)" for cs
    by (induction cs) (auto simp: unpaid_def)
  show ?thesis
    using later [of "later_codes codes"] by (auto simp: owed_def unpaid_def)
qed

lemma settle_pays:
  assumes "ledger_ok s" "distinct (map rc_id (redemption_codes s))" "wallet_owner s (rf_inviter_user_id r)"
    and r: "get_by_invitee s i = Some r" "list_redeemed s i \<noteq> []" "mission_complete terms (invitee_status s i)"
  shows "\<exists>t w. settle terms i now s = (Inr () :: 'e raised + unit, t) \<and> settled (rf_inviter_user_id r) i s t
    \<and> wallet_of t (rf_inviter_user_id r) = Some w"
proof -
  let ?u = "rf_inviter_user_id r"
  let ?codes = "list_redeemed s i"
  let ?es = "owed ?u i now ?codes"
  obtain s1 w where s1: "lock_wallet ?u now s = (Inr (acct_balance (account_of s) ?u, s1) :: 'e raised + int \<times> database)"
    "coins_only s s1" "ledger_ok s1" "account_of s1 = account_of s" "wallet_of s1 ?u = Some w"
    using assms(1,3) by (rule lock_wallet_ok)
  have ids: "distinct (map fst ?codes)" by (rule list_redeemed_ids [OF assms(2)])
  have "\<exists>t. tx_each (pay_once amount_for_key ledger_record) ?es s1 = (Inr ((), t) :: 'e raised + unit \<times> database) \<and> ledger_ok t
      \<and> wallet_of t ?u \<noteq> None \<and> coins_only s1 t \<and> account_of t = post_all (unpaid (account_of s1) ?es) (account_of s1)"
    using s1 ids by (intro sql_paying.pay_all) (auto dest: owed_mem intro: owed_distinct)
  then obtain t where t: "tx_each (pay_once amount_for_key ledger_record) ?es s1 = (Inr ((), t) :: 'e raised + unit \<times> database)"
    "ledger_ok t" "wallet_of t ?u \<noteq> None" "coins_only s1 t" "account_of t = post_all (unpaid (account_of s) ?es) (account_of s)"
    unfolding s1(4) by blast
  have "settle terms i now s = (Inr () :: 'e raised + unit, t)"
    using r s1(1) t(1)
    by (simp add: settle_def settle_transaction_def unit_of_work_def payouts_owed commit_def tx_return_def)
  moreover have "settled ?u i s t"
  proof -
    have "distinct (map ne_idempotency_key (unpaid (account_of s) ?es))"
      using owed_distinct [OF ids, of ?u i now] by (simp add: unpaid_def distinct_map_filter)
    then have "recorded_amount t k = (case List.find (\<lambda>e. ne_idempotency_key e = k) (unpaid (account_of s) ?es) of
        Some e \<Rightarrow> Some (ne_amount e) | None \<Rightarrow> recorded_amount s k)" for k
      using arg_cong [OF t(5), of acct_paid] post_all_paid [of _ "account_of s" k] by (simp split: option.splits)
    then have paid: "\<forall>k. recorded_amount t k =
           (if recorded_amount s k \<noteq> None then recorded_amount s k
            else if k = first_code_bonus_key i then Some 15
            else if k \<in> later_code_bonus_key ` set (later_codes ?codes) then Some 5 else None)"
      unfolding find_owed [OF ids] by auto
    have "filter (\<lambda>e. ne_user_id e = v) (unpaid (account_of s) ?es) = (if v = ?u then unpaid (account_of s) ?es else [])" for v
      by (auto simp: unpaid_def filter_empty_conv dest: owed_mem intro!: filter_cong)
    then have "acct_balance (account_of t) v = ((acct_balance (account_of s))(?u := acct_balance (account_of s) ?u
           + (if recorded_amount s (first_code_bonus_key i) = None then 15 else 0)
           + 5 * count_where (\<lambda>c. recorded_amount s (later_code_bonus_key c) = None) (later_codes ?codes))) v" for v
      unfolding t(5) post_all_balance by (simp add: owed_coins)
    moreover have "e \<in> set (coin_ledger_entries s) \<or> le_user_id e = ?u
           \<and> (le_idempotency_key e = first_code_bonus_key i \<and> le_amount e = 15
             \<or> le_idempotency_key e \<in> later_code_bonus_key ` set (later_codes ?codes) \<and> le_amount e = 5)"
      if "e \<in> set (coin_ledger_entries t)" for e
      using pay_each_rows [OF t(1) that] lock_wallet_entries [OF s1(1)] by (auto simp: owed_def)
    ultimately show ?thesis using paid t(2,4) s1(2) by (auto simp: settled_def Let_def fun_eq_iff intro: coins_only_trans)
  qed
  ultimately show ?thesis using t(3) by blast
qed

lemma settle_nothing:
  assumes "get_by_invitee s i = None \<or> list_redeemed s i = [] \<or> \<not> mission_complete terms (invitee_status s i)"
  shows "settle terms i now s = (Inr (), s)"
proof (cases "get_by_invitee s i")
  case (Some r)
  with assms have "settle_payouts i (mission_complete terms (invitee_status s i)) (list_redeemed s i) LATER_CODE_WINDOW = []"
    by (auto simp: settle_payouts_owed [OF list_redeemed_sorted])
  with Some show ?thesis
    by (simp add: settle_def settle_transaction_def unit_of_work_def leave_def tx_return_def)
qed (simp add: settle_def settle_transaction_def unit_of_work_def leave_def tx_return_def)

lemma settled_frame:
  assumes "coins_only s t"
  shows "get_by_invitee t = get_by_invitee s" "list_redeemed t = list_redeemed s" "invitee_status t = invitee_status s"
  by (simp_all add: fun_eq_iff get_by_invitee_def list_redeemed_def invitee_status_def coins_only_same [OF assms])

lemma settle_again:
  assumes "settled (rf_inviter_user_id r) i s t" "wallet_of t (rf_inviter_user_id r) = Some w"
    and r: "get_by_invitee s i = Some r" "list_redeemed s i \<noteq> []" "mission_complete terms (invitee_status s i)"
  shows "settle terms i now t = (Inr () :: 'e raised + unit, t)"
proof -
  let ?u = "rf_inviter_user_id r"
  have c: "coins_only s t" using assms(1) by (simp add: settled_def Let_def)
  have "recorded_amount t (ne_idempotency_key e) \<noteq> None" if "e \<in> set (owed ?u i now (list_redeemed s i))" for e
    using that assms(1) by (auto simp: settled_def Let_def owed_def)
  from all_paid_stays [where 'e = 'e, OF this] show ?thesis
    using r assms(2)
    by (simp add: settle_def settle_transaction_def unit_of_work_def settled_frame [OF c] payouts_owed lock_wallet_again
      commit_def tx_return_def)
qed

section \<open>The referral books\<close>

text \<open>Every referral payment in the ledger is backed by a binding and, past the first, a redeemed code.\<close>

definition backed :: "ReferralModel list \<Rightarrow> RedemptionCodeModel list \<Rightarrow> CoinLedgerEntryModel \<Rightarrow> bool" where
  "backed rs cs e \<longleftrightarrow> (\<exists>r \<in> set rs. le_user_id e = rf_inviter_user_id r
     \<and> (le_idempotency_key e = first_code_bonus_key (rf_invitee_user_id r) \<and> le_amount e = 15
       \<or> (\<exists>c \<in> set cs. le_idempotency_key e = later_code_bonus_key (rc_id c) \<and> le_amount e = 5
            \<and> rc_redeemed_by_user_id c = Some (rf_invitee_user_id r))))"

definition referrals_ok :: "database \<Rightarrow> bool" where
  "referrals_ok s \<longleftrightarrow>
     distinct (map rf_invitee_user_id (referrals s)) \<and> distinct (map rc_id (redemption_codes s))
     \<and> (\<forall>r \<in> set (referrals s). rf_invitee_user_id r \<noteq> rf_inviter_user_id r \<and> wallet_owner s (rf_inviter_user_id r))
     \<and> (\<forall>e \<in> set (coin_ledger_entries s). starts_with ''referral:'' (le_idempotency_key e)
          \<longrightarrow> backed (referrals s) (redemption_codes s) e)"

lemma get_by_invitee_Some: "get_by_invitee s i = Some r \<Longrightarrow> r \<in> set (referrals s) \<and> rf_invitee_user_id r = i"
  unfolding get_by_invitee_def by (rule select_one_Some)

lemma later_codes_sub: "c \<in> set (later_codes codes) \<Longrightarrow> \<exists>t. (c, t) \<in> set codes"
  by (auto simp: later_codes_def split: list.splits)

lemma settled_books:
  assumes "referrals_ok s" "get_by_invitee s i = Some r" "settled (rf_inviter_user_id r) i s t"
  shows "referrals_ok t"
proof -
  have c: "coins_only s t" using assms(3) by (simp add: settled_def Let_def)
  note f = coins_only_same [OF c]
  have "backed (referrals s) (redemption_codes s) e"
    if "e \<in> set (coin_ledger_entries t)" "starts_with ''referral:'' (le_idempotency_key e)" for e
  proof (cases "e \<in> set (coin_ledger_entries s)")
    case False
    with assms(3) that(1) have e: "le_user_id e = rf_inviter_user_id r"
      "le_idempotency_key e = first_code_bonus_key i \<and> le_amount e = 15
        \<or> le_idempotency_key e \<in> later_code_bonus_key ` set (later_codes (list_redeemed s i)) \<and> le_amount e = 5"
      by (auto simp: settled_def Let_def)
    with get_by_invitee_Some [OF assms(2)] show ?thesis
      unfolding backed_def by (auto dest!: later_codes_sub list_redeemed_mem intro!: bexI [of _ r])
  qed (use assms(1) that(2) in \<open>simp add: referrals_ok_def\<close>)
  with assms(1) show ?thesis by (auto simp: referrals_ok_def f intro: wallet_owner_frame [OF c])
qed

lemma settle_cases:
  fixes r :: "'e raised + unit"
  assumes "ledger_ok s" "referrals_ok s" "settle terms i now s = (r, t)"
  shows "r = Inr () \<and> (t = s \<or> (\<exists>b. get_by_invitee s i = Some b \<and> settled (rf_inviter_user_id b) i s t))"
proof (cases "get_by_invitee s i = None \<or> list_redeemed s i = [] \<or> \<not> mission_complete terms (invitee_status s i)")
  case True
  then show ?thesis using settle_nothing [OF True, of now, where 'a = 'e] assms(3) by simp
next
  case False
  then obtain b where b: "get_by_invitee s i = Some b" by auto
  have "wallet_owner s (rf_inviter_user_id b)" "distinct (map rc_id (redemption_codes s))"
    using assms(2) get_by_invitee_Some [OF b] by (auto simp: referrals_ok_def)
  with settle_pays [OF assms(1) _ _ b, of terms now, where 'e = 'e] False assms(3) b show ?thesis by auto
qed

text \<open>What the page of an inviter shows.\<close>

lemma count_le_inj:
  assumes "distinct (map f xs)" "f ` {x \<in> set xs. P x} \<subseteq> g ` {y \<in> set ys. Q y}"
  shows "count_where P xs \<le> count_where Q ys"
proof -
  have "length (filter P xs) = card (f ` {x \<in> set xs. P x})"
  proof -
    have "distinct (map f (filter P xs))" using assms(1) by (simp add: distinct_map_filter)
    from distinct_card [OF this] show ?thesis by simp
  qed
  also have "\<dots> \<le> card (g ` {y \<in> set ys. Q y})" by (rule card_mono [OF _ assms(2)]) simp
  also have "\<dots> \<le> card (set (filter Q ys))" by (simp add: card_image_le)
  also have "\<dots> \<le> length (filter Q ys)" by (rule card_length)
  finally show ?thesis by (simp add: count_where_def)
qed

definition later_bonuses :: "database \<Rightarrow> uuid \<Rightarrow> int" where
  "later_bonuses s u =
     count_where (\<lambda>e. le_user_id e = u \<and> starts_with ''referral:code:'' (le_idempotency_key e)) (coin_ledger_entries s)"

lemma referral_summary_exact:
  assumes "ledger_ok s" "referrals_ok s"
  shows "sm_coins_earned (summary s u) = 15 * sm_qualified_count (summary s u) + 5 * later_bonuses s u
    \<and> sm_qualified_count (summary s u) \<le> sm_invited_count (summary s u)
    \<and> later_bonuses s u \<le> count_where (\<lambda>c. \<exists>r \<in> set (referrals s). rf_inviter_user_id r = u
         \<and> rc_redeemed_by_user_id c = Some (rf_invitee_user_id r)) (redemption_codes s)"
proof -
  let ?first = "\<lambda>e. le_user_id e = u \<and> starts_with (FIRST_CODE_REASON_KEY @ '':'') (le_idempotency_key e)"
  let ?later = "\<lambda>e. le_user_id e = u \<and> starts_with ''referral:code:'' (le_idempotency_key e)"
  have b: "backed (referrals s) (redemption_codes s) e"
    if "e \<in> set (coin_ledger_entries s)" "starts_with ''referral:'' (le_idempotency_key e)" for e
    using assms(2) that by (simp add: referrals_ok_def)
  have kind: "starts_with ''referral:'' k \<and> \<not> starts_with (FIRST_CODE_REASON_KEY @ '':'') k"
    if "starts_with ''referral:code:'' k" for k
    using that by (auto simp: starts_with_iff FIRST_CODE_REASON_KEY_def)
  have kind': "starts_with ''referral:'' k" if "starts_with (FIRST_CODE_REASON_KEY @ '':'') k" for k
    using that by (auto simp: starts_with_iff FIRST_CODE_REASON_KEY_def)
  have later_key: "starts_with ''referral:code:'' (later_code_bonus_key c)" "\<not> starts_with ''referral:code:'' (first_code_bonus_key c)" for c
    by (auto simp: later_code_bonus_key_def first_code_bonus_key_def LATER_CODE_REASON_KEY_def FIRST_CODE_REASON_KEY_def starts_with_def)
  have sums: "sum_list (map le_amount (filter (\<lambda>e. le_user_id e = u \<and> starts_with ''referral:'' (le_idempotency_key e)) es))
      = 15 * count_where ?first es + 5 * count_where ?later es" if "set es \<subseteq> set (coin_ledger_entries s)" for es
    using that
  proof (induction es)
    case (Cons e es)
    have "starts_with ''referral:'' (le_idempotency_key e) \<Longrightarrow>
        le_amount e = 15 \<and> starts_with (FIRST_CODE_REASON_KEY @ '':'') (le_idempotency_key e)
          \<and> \<not> starts_with ''referral:code:'' (le_idempotency_key e)
        \<or> le_amount e = 5 \<and> starts_with ''referral:code:'' (le_idempotency_key e)"
      using b [of e] Cons.prems by (auto simp: backed_def later_key)
    with Cons kind kind' show ?case by auto
  qed simp
  have dist: "distinct (map le_idempotency_key (coin_ledger_entries s))" using assms(1) by (simp add: ledger_ok_def)
  have "count_where ?first (coin_ledger_entries s) \<le> count_where (\<lambda>r. rf_inviter_user_id r = u) (referrals s)"
    by (rule count_le_inj [OF dist, where g = "\<lambda>r. first_code_bonus_key (rf_invitee_user_id r)"])
      (use b kind' in \<open>fastforce simp: backed_def\<close>)
  moreover have "later_bonuses s u \<le> count_where (\<lambda>c. \<exists>r \<in> set (referrals s). rf_inviter_user_id r = u
         \<and> rc_redeemed_by_user_id c = Some (rf_invitee_user_id r)) (redemption_codes s)"
    unfolding later_bonuses_def
    by (rule count_le_inj [OF dist, where g = "\<lambda>c. later_code_bonus_key (rc_id c)"])
      (use b kind later_key in \<open>fastforce simp: backed_def\<close>)
  ultimately show ?thesis using sums [of "coin_ledger_entries s"] by (simp add: summary_def Let_def later_bonuses_def)
qed

section \<open>Binding\<close>

lemma bind_result:
  assumes "ledger_ok s" "wallet_owner s i"
  shows "case check_can_bind i (resolve_code s code) (get_by_invitee s i \<noteq> None) (int (length (list_redeemed s i))) of
      Inl e \<Rightarrow> bind_referral i code now s = (Inl (Raised e), s)
    | Inr _ \<Rightarrow> \<exists>inviter t. resolve_code s code = Some inviter \<and> bind_referral i code now s = (Inr (), t)
        \<and> coins_only s (t\<lparr>referrals := referrals s\<rparr>) \<and> account_of t = account_of s \<and> ledger_ok t
        \<and> coin_ledger_entries t = coin_ledger_entries s
        \<and> referrals t = referrals s @ [\<lparr>rf_invitee_user_id = i, rf_inviter_user_id = inviter, rf_bound_at = now\<rparr>]"
proof -
  obtain s1 w where s1: "lock_wallet i now s = (Inr (acct_balance (account_of s) i, s1) :: ReferralBindRefusal raised + int \<times> database)"
    "coins_only s s1" "ledger_ok s1" "account_of s1 = account_of s" "wallet_of s1 i = Some w"
    using assms by (rule lock_wallet_ok)
  note f = coins_only_same [OF s1(2)]
  have same: "resolve_code s1 = resolve_code s" "get_by_invitee s1 = get_by_invitee s" "list_redeemed s1 = list_redeemed s"
    by (simp_all add: fun_eq_iff resolve_code_def get_by_invitee_def list_redeemed_def f)
  show ?thesis
  proof (cases "check_can_bind i (resolve_code s code) (get_by_invitee s i \<noteq> None) (int (length (list_redeemed s i)))")
    case (Inl e)
    with s1(1) same show ?thesis
      by (simp add: bind_referral_def bind_transaction_def unit_of_work_def tx_raise_def)
  next
    case (Inr u)
    then obtain inviter where inviter: "resolve_code s code = Some inviter" "inviter \<noteq> i" "get_by_invitee s i = None"
      by (auto simp: check_can_bind_def split: if_splits)
    let ?row = "\<lparr>rf_invitee_user_id = i, rf_inviter_user_id = inviter, rf_bound_at = now\<rparr>"
    let ?t = "s1\<lparr>referrals := referrals s1 @ [?row]\<rparr>"
    have "bind_referral i code now s = (Inr (), ?t)"
      using s1(1) same Inr inviter
      by (simp add: bind_referral_def bind_transaction_def unit_of_work_def insert_binding_def commit_def tx_return_def)
    moreover have "?t\<lparr>referrals := referrals s\<rparr> = s1" unfolding f(5) [symmetric] by simp
    then have "coins_only s (?t\<lparr>referrals := referrals s\<rparr>)" using s1(2) by (simp only:)
    moreover have "account_of ?t = account_of s" "ledger_ok ?t"
      using s1(3,4) account_of_frame [of ?t s1] ledger_ok_frame [of ?t s1] by simp_all
    moreover have "coin_ledger_entries ?t = coin_ledger_entries s" using lock_wallet_entries [OF s1(1)] by simp
    ultimately show ?thesis using inviter(1) s1(2) Inr f(5) by auto
  qed
qed

lemma bound_books:
  assumes "referrals_ok s" "coins_only s (t\<lparr>referrals := referrals s\<rparr>)" "coin_ledger_entries t = coin_ledger_entries s"
    and "referrals t = referrals s @ [\<lparr>rf_invitee_user_id = i, rf_inviter_user_id = inviter, rf_bound_at = now\<rparr>]"
    and "inviter \<noteq> i" "get_by_invitee s i = None" "wallet_owner s inviter"
  shows "referrals_ok t"
proof -
  have "redemption_codes t = redemption_codes s" "wallet_owner t v" if "wallet_owner s v" for v
    using coins_only_same(8) [OF assms(2)] wallet_owner_frame [OF assms(2) that]
    by (simp_all add: wallet_owner_def user_exists_def wallet_of_def)
  note f = this
  have "i \<notin> rf_invitee_user_id ` set (referrals s)"
    using assms(6) by (auto simp: get_by_invitee_def select_one_None_iff)
  then show ?thesis
    using assms(1,3-5) f [OF assms(7)] f(2) unfolding referrals_ok_def
    by (auto simp: backed_def)
qed

lemma resolve_owner: "resolve_code s code = Some u \<Longrightarrow> wallet_owner s u"
  by (auto simp: resolve_code_def wallet_owner_def user_exists_def dest!: select_one_Some)

inductive referral_step :: "bool \<Rightarrow> database \<Rightarrow> database \<Rightarrow> bool" for terms where
  bind_step: "bind_referral invitee code now s = (r, t) \<Longrightarrow> referral_step terms s t"
| settle_step: "settle terms invitee now s = (r :: unit raised + unit, t) \<Longrightarrow> referral_step terms s t"

lemma bind_cases:
  assumes "ledger_ok s" "referrals_ok s" "bind_referral i code now s = (r, t)"
  shows "ledger_ok t \<and> referrals_ok t \<and> (\<exists>new. referrals t = referrals s @ new) \<and> (isl r \<longrightarrow> t = s)"
proof (cases "wallet_owner s i")
  case False
  then have "bind_referral i code now s = (Inl (Crash (IntegrityError ''wallets_user_id_fkey'')), s)"
    by (simp add: bind_referral_def bind_transaction_def unit_of_work_def wallet_owner_def lock_wallet_nobody)
  with assms show ?thesis by auto
next
  case True
  show ?thesis
  proof (cases "check_can_bind i (resolve_code s code) (get_by_invitee s i \<noteq> None) (int (length (list_redeemed s i)))")
    case (Inl e)
    with bind_result [OF assms(1) True, of code now] assms show ?thesis by auto
  next
    case (Inr u)
    with bind_result [OF assms(1) True, of code now] assms(3) obtain inviter where
      t: "resolve_code s code = Some inviter" "coins_only s (t\<lparr>referrals := referrals s\<rparr>)" "ledger_ok t"
        "coin_ledger_entries t = coin_ledger_entries s" "r = Inr ()"
        "referrals t = referrals s @ [\<lparr>rf_invitee_user_id = i, rf_inviter_user_id = inviter, rf_bound_at = now\<rparr>]" by auto
    moreover have "inviter \<noteq> i" "get_by_invitee s i = None"
      using Inr t(1) by (auto simp: check_can_bind_def split: if_splits)
    ultimately show ?thesis
      using bound_books [OF assms(2) t(2,4,6)] resolve_owner [OF t(1)] by simp
  qed
qed

lemma settle_keeps:
  fixes r :: "'e raised + unit"
  assumes "ledger_ok s" "referrals_ok s" "settle terms i now s = (r, t)"
  shows "ledger_ok t \<and> referrals_ok t \<and> referrals t = referrals s"
  using settle_cases [OF assms] assms(1,2) settled_books [OF assms(2)]
  by (auto simp: settled_def Let_def coins_only_same)

lemma referral_step_keeps:
  assumes "ledger_ok s" "referrals_ok s" "referral_step terms s t"
  shows "ledger_ok t \<and> referrals_ok t \<and> (\<exists>new. referrals t = referrals s @ new)"
  using assms(3)
proof cases
  case bind_step
  with bind_cases [OF assms(1,2)] show ?thesis by blast
next
  case settle_step
  with settle_keeps [OF assms(1,2)] show ?thesis by fastforce
qed

section \<open>The code of a user\<close>

definition referral_codes_ok :: "database \<Rightarrow> bool" where
  "referral_codes_ok s \<longleftrightarrow> distinct (map u_id (users s))
     \<and> (\<forall>u \<in> set (users s). \<forall>v \<in> set (users s). u_referral_code u \<noteq> None \<longrightarrow> u_referral_code u = u_referral_code v \<longrightarrow> u_id u = u_id v)"

definition code_taken :: "database \<Rightarrow> string \<Rightarrow> bool" where
  "code_taken s code \<longleftrightarrow> exists_where (\<lambda>u. u_referral_code u = Some code) (users s)"

text \<open>The user's row with the code it was given, everything else as before.\<close>

definition with_code :: "database \<Rightarrow> uuid \<Rightarrow> string \<Rightarrow> database" where
  "with_code s user_id code =
     s\<lparr>users := update_where (\<lambda>u. u_id u = user_id) (\<lambda>u. u\<lparr>u_referral_code := Some code\<rparr>) (users s)\<rparr>"

lemma missing_code_row:
  assumes "referral_codes_ok s" "user_exists s i" "referral_code_of s i = None"
  shows "\<forall>u \<in> set (users s). (u_id u = i \<and> u_referral_code u = None) = (u_id u = i)"
    and "\<exists>u \<in> set (users s). u_id u = i \<and> u_referral_code u = None"
proof -
  from assms(2) obtain u where u: "u \<in> set (users s)" "u_id u = i" by (auto simp: user_exists_def)
  from select_one_unique [of u_id "users s" u] assms(1) u
  have "select_one (\<lambda>u. u_id u = i) (users s) = Some u" by (simp add: referral_codes_ok_def)
  with assms(3) have "u_referral_code u = None" by (simp add: referral_code_of_def)
  with u assms(1) show "\<forall>u \<in> set (users s). (u_id u = i \<and> u_referral_code u = None) = (u_id u = i)"
      "\<exists>u \<in> set (users s). u_id u = i \<and> u_referral_code u = None"
    by (auto simp: referral_codes_ok_def dest: distinct_key_eq)
qed

lemma store_code_result:
  assumes "referral_codes_ok s" "user_exists s i" "referral_code_of s i = None"
  shows "store_referral_code i code s = (if code_taken s code then None else Some (with_code s i code))"
proof -
  have same: "update_where (\<lambda>u. u_id u = i \<and> u_referral_code u = None) f (users s)
      = update_where (\<lambda>u. u_id u = i) f (users s)" for f
    by (rule update_where_cong) (use missing_code_row(1) [OF assms] in blast)
  show ?thesis
    using missing_code_row(2) [OF assms] by (auto simp: store_referral_code_def same code_taken_def with_code_def)
qed

lemma with_code_simps:
  assumes "user_exists s i" "referral_codes_ok s" "\<not> code_taken s code" "referral_code_of s i = None"
  shows "referral_code_of (with_code s i code) i = Some code" "resolve_code (with_code s i code) code = Some i"
    "referral_codes_ok (with_code s i code)"
proof -
  from assms(1) obtain u where u: "u \<in> set (users s)" "u_id u = i" by (auto simp: user_exists_def)
  from select_one_unique [of u_id "users s" u] assms(2) u
  have "select_one (\<lambda>u. u_id u = i) (users s) = Some u" by (simp add: referral_codes_ok_def)
  then show "referral_code_of (with_code s i code) i = Some code"
    using u by (simp add: referral_code_of_def with_code_def select_one_update_same)
  let ?rows = "update_where (\<lambda>u. u_id u = i) (\<lambda>u. u\<lparr>u_referral_code := Some code\<rparr>) (users s)"
  have "select_one (\<lambda>u. u_referral_code u = Some code) ?rows \<noteq> None"
  proof -
    have "u\<lparr>u_referral_code := Some code\<rparr> \<in> set ?rows" unfolding set_update_where using u by (intro UnI1 image_eqI) auto
    moreover have "u_referral_code (u\<lparr>u_referral_code := Some code\<rparr>) = Some code" by simp
    ultimately show ?thesis unfolding select_one_None_iff by blast
  qed
  then obtain v where v: "select_one (\<lambda>u. u_referral_code u = Some code) ?rows = Some v" by auto
  with select_one_Some [OF v] assms(3) have "u_id v = i" by (auto simp: set_update_where code_taken_def)
  with v show "resolve_code (with_code s i code) code = Some i" by (simp add: resolve_code_def with_code_def)
  have *: "map u_id ?rows = map u_id (users s)" by (rule map_update_where_same) simp
  have users: "users (with_code s i code) = ?rows" by (simp add: with_code_def)
  from * have ids: "distinct (map u_id ?rows)" using assms(2) by (simp add: referral_codes_ok_def)
  have row: "\<exists>x \<in> set (users s). u_id v = u_id x \<and> u_referral_code v = (if u_id x = i then Some code else u_referral_code x)"
    if "v \<in> set ?rows" for v using that by (auto simp: set_update_where)
  have fresh: "u_referral_code x \<noteq> Some code" if "x \<in> set (users s)" for x
    using assms(3) that by (auto simp: code_taken_def)
  have "u_id v = u_id w"
    if vw: "v \<in> set ?rows" "w \<in> set ?rows" "u_referral_code v \<noteq> None" "u_referral_code v = u_referral_code w" for v w
  proof -
    obtain x y where xy: "x \<in> set (users s)" "y \<in> set (users s)" "u_id v = u_id x" "u_id w = u_id y"
      "u_referral_code v = (if u_id x = i then Some code else u_referral_code x)"
      "u_referral_code w = (if u_id y = i then Some code else u_referral_code y)"
      using row [OF vw(1)] row [OF vw(2)] by blast
    have "u_referral_code x \<noteq> None \<Longrightarrow> u_referral_code x = u_referral_code y \<Longrightarrow> u_id x = u_id y"
      using assms(2) xy(1,2) unfolding referral_codes_ok_def by blast
    with xy vw(3,4) fresh [OF xy(1)] fresh [OF xy(2)] show ?thesis by (metis (full_types))
  qed
  then show "referral_codes_ok (with_code s i code)"
    unfolding referral_codes_ok_def users using ids by blast
qed

lemma allocate_result:
  assumes "referral_codes_ok s" "user_exists s i" "referral_code_of s i = None"
  shows "allocate_referral_code n i candidate s =
    (case List.find (\<lambda>j. \<not> code_taken s (candidate j)) [0..<n] of
       None \<Rightarrow> (Inl (RuntimeError ''could not allocate a referral code''), s)
     | Some j \<Rightarrow> (Inr (candidate j), with_code s i (candidate j)))"
proof (induction n arbitrary: candidate)
  case (Suc n)
  have up: "[0..<Suc n] = 0 # map Suc [0..<n]" by (simp add: upt_conv_Cons map_Suc_upt del: upt_Suc)
  have shift: "List.find (\<lambda>j. P j) (map Suc xs) = map_option Suc (List.find (\<lambda>j. P (Suc j)) xs)" for P xs
    by (induction xs) auto
  show ?case
    using Suc with_code_simps(1) [OF assms(2,1) _ assms(3)]
    by (auto simp: up shift store_code_result [OF assms] simp del: upt_Suc split: option.splits)
qed simp

section \<open>Properties\<close>

definition inviter_user :: UserModel where
  "inviter_user = adult_user\<lparr>u_id := 2, u_identifier := cp ''+989120000000'', u_nickname_key := Some (cp ''sara''),
     u_referral_code := Some ''ABCD1234''\<rparr>"

definition inviting :: database where
  "inviting = one_user\<lparr>users := [adult_user, inviter_user]\<rparr>"

text \<open>The same two once the friend has joined, finished her mission and redeemed a code.\<close>

definition friend_qualified :: database where
  "friend_qualified = inviting\<lparr>referrals := [\<lparr>rf_invitee_user_id = 1, rf_inviter_user_id = 2, rf_bound_at = 0\<rparr>],
     redemption_codes := [\<lparr>rc_id = 3, rc_city = TOKYO, rc_code_hash = ''h'', rc_created_at = 0, rc_redeemed_at = Some 0,
       rc_redeemed_by_user_id = Some 1, rc_batch_id = Some 7\<rparr>],
     team_memberships := [\<lparr>tm_user_id = 1, tm_flavor = TOKYO, tm_switch_no = 0, tm_joined_at = 0\<rparr>],
     mini_game_runs := [\<lparr>mg_id = 5, mg_user_id = 1, mg_mini_game_id = TAP_REFLEX, mg_round_delays_ms = [],
       mg_issued_at = 0, mg_expires_at = 1, mg_finished_at = Some 1, mg_status = ACCEPTED, mg_average_reaction_ms = None\<rparr>]\<rparr>"

lemma inviting_ok: "ledger_ok inviting" "referrals_ok inviting" "wallet_owner inviting 1"
  "resolve_code inviting ''ABCD1234'' = Some 2"
  by (simp_all add: ledger_ok_def referrals_ok_def inviting_def inviter_user_def one_user_def adult_user_def
    empty_database_def wallet_owner_def user_exists_def resolve_code_def)

lemma friend_ok: "ledger_ok friend_qualified" "referrals_ok friend_qualified"
  "get_by_invitee friend_qualified 1 = Some \<lparr>rf_invitee_user_id = 1, rf_inviter_user_id = 2, rf_bound_at = 0\<rparr>"
  "list_redeemed friend_qualified 1 = [(3, 0)]" "mission_complete True (invitee_status friend_qualified 1)"
  by (simp_all add: ledger_ok_def referrals_ok_def friend_qualified_def inviting_def inviter_user_def one_user_def adult_user_def
    empty_database_def wallet_owner_def user_exists_def get_by_invitee_def list_redeemed_def order_asc_def
    mission_complete_def invitee_status_def)

text \<open>
  Binding a referral. An unknown code, the player's own code, a second binding and a player who has
  already redeemed a code are refused, in this order, and change nothing. Otherwise the binding is
  recorded, no coin moves and the referral books stay consistent.
\<close>

theorem referral_bind_decided:
  assumes "ledger_ok s" "referrals_ok s" "wallet_owner s i"
  shows "let outcome = bind_referral i code now s; inviter = resolve_code s code in
    if inviter = None then outcome = (Inl (Raised CODE_UNKNOWN), s)
    else if inviter = Some i then outcome = (Inl (Raised REFER_SELF), s)
    else if exists_where (\<lambda>r. rf_invitee_user_id r = i) (referrals s) then outcome = (Inl (Raised ALREADY_BOUND), s)
    else if exists_where (\<lambda>c. rc_redeemed_by_user_id c = Some i \<and> rc_redeemed_at c \<noteq> None) (redemption_codes s)
      then outcome = (Inl (Raised TOO_LATE), s)
    else \<exists>t. outcome = (Inr (), t) \<and> account_of t = account_of s \<and> coins_only s (t\<lparr>referrals := referrals s\<rparr>)
      \<and> referrals t = referrals s @ [\<lparr>rf_invitee_user_id = i, rf_inviter_user_id = the inviter, rf_bound_at = now\<rparr>]
      \<and> ledger_ok t \<and> referrals_ok t"
proof -
  have bound: "get_by_invitee s i = None \<longleftrightarrow> \<not> exists_where (\<lambda>r. rf_invitee_user_id r = i) (referrals s)"
    by (simp add: get_by_invitee_def select_one_None_iff)
  have codes: "list_redeemed s i = []
      \<longleftrightarrow> \<not> exists_where (\<lambda>c. rc_redeemed_by_user_id c = Some i \<and> rc_redeemed_at c \<noteq> None) (redemption_codes s)"
    by (simp add: list_redeemed_def order_asc_Nil filter_empty_conv)
  note result = bind_result [OF assms(1,3), of code now]
  show ?thesis
  proof (cases "check_can_bind i (resolve_code s code) (get_by_invitee s i \<noteq> None) (int (length (list_redeemed s i)))")
    case (Inl e)
    with result show ?thesis unfolding check_can_bind_def by (auto simp: Let_def bound codes split: if_splits)
  next
    case (Inr u)
    with result obtain inviter t where t: "resolve_code s code = Some inviter" "bind_referral i code now s = (Inr (), t)"
      "coins_only s (t\<lparr>referrals := referrals s\<rparr>)" "account_of t = account_of s" "ledger_ok t"
      "coin_ledger_entries t = coin_ledger_entries s"
      "referrals t = referrals s @ [\<lparr>rf_invitee_user_id = i, rf_inviter_user_id = inviter, rf_bound_at = now\<rparr>]" by auto
    have "inviter \<noteq> i" "get_by_invitee s i = None" "list_redeemed s i = []"
      using Inr t(1) by (auto simp: check_can_bind_def split: if_splits)
    with bound_books [OF assms(2) t(3,6,7)] resolve_owner [OF t(1)] t show ?thesis
      by (simp add: Let_def bound codes)
  qed
qed

theorem referral_bind_decided_witness:
  "\<exists>t. bind_referral 1 ''ABCD1234'' 0 inviting = (Inr (), t) \<and> referrals_ok t
    \<and> referrals t = [\<lparr>rf_invitee_user_id = 1, rf_inviter_user_id = 2, rf_bound_at = 0\<rparr>]"
proof -
  have "referrals inviting = []" "redemption_codes inviting = []"
    by (simp_all add: inviting_def one_user_def empty_database_def)
  with referral_bind_decided [OF inviting_ok(1-3), of "''ABCD1234''" 0] show ?thesis
    by (auto simp: inviting_ok(4) Let_def)
qed

text \<open>
  C13: settling pays the inviter what is owed, and no more. Without a binding, a redeemed code or a
  complete mission nothing happens. Otherwise the call succeeds: the inviter's balance grows by 15 for
  the first code and 5 for each later code within 180 days of it, each only if it has not been paid
  before; every such payment is in the ledger afterwards, no other key and no other balance changes;
  and settling again, at whatever time, changes nothing at all.
\<close>

theorem referral_settled:
  assumes "ledger_ok s" "referrals_ok s"
  shows "let codes = list_redeemed s i; inviter = rf_inviter_user_id (the (get_by_invitee s i)) in
    if get_by_invitee s i = None \<or> codes = [] \<or> \<not> mission_complete terms (invitee_status s i)
    then settle terms i now s = (Inr () :: 'e raised + unit, s)
    else \<exists>t. settle terms i now s = (Inr () :: 'e raised + unit, t) \<and> settled inviter i s t \<and> referrals_ok t
      \<and> (\<forall>next. settle terms i next t = (Inr () :: 'e raised + unit, t))"
proof (cases "get_by_invitee s i = None \<or> list_redeemed s i = [] \<or> \<not> mission_complete terms (invitee_status s i)")
  case True
  then show ?thesis using settle_nothing [OF True, of now, where 'a = 'e] by (auto simp: Let_def)
next
  case False
  then obtain r where r: "get_by_invitee s i = Some r" "list_redeemed s i \<noteq> []" "mission_complete terms (invitee_status s i)"
    by auto
  have "wallet_owner s (rf_inviter_user_id r)" "distinct (map rc_id (redemption_codes s))"
    using assms(2) get_by_invitee_Some [OF r(1)] by (auto simp: referrals_ok_def)
  from settle_pays [OF assms(1) this(2,1) r, of now, where 'e = 'e] obtain t w where
    t: "settle terms i now s = (Inr () :: 'e raised + unit, t)" "settled (rf_inviter_user_id r) i s t"
      "wallet_of t (rf_inviter_user_id r) = Some w" by blast
  from t settle_again [OF t(2,3) r, where 'e = 'e] settled_books [OF assms(2) r(1) t(2)] r show ?thesis
    by (auto simp: Let_def)
qed

theorem referral_settled_witness:
  "\<exists>t. settle True 1 0 friend_qualified = (Inr () :: unit raised + unit, t) \<and> acct_balance (account_of t) 2 = 15
    \<and> settle True 1 1 t = (Inr () :: unit raised + unit, t)"
proof -
  obtain t where t: "settle True 1 0 friend_qualified = (Inr () :: unit raised + unit, t)" "settled 2 1 friend_qualified t"
    "\<forall>next. settle True 1 next t = (Inr () :: unit raised + unit, t)"
    using referral_settled [OF friend_ok(1,2), of 1 True 0, where 'e = unit] friend_ok(3-5) by (auto simp: Let_def)
  have "coin_ledger_entries friend_qualified = []" by (simp add: friend_qualified_def inviting_def one_user_def empty_database_def)
  then have "acct_balance (account_of friend_qualified) 2 = 0" "recorded_amount friend_qualified k = None" for k
    by (simp_all add: account_of_def recorded_amount_def amounts_of_def)
  with t(2) have "acct_balance (account_of t) 2 = 15"
    by (simp add: settled_def Let_def friend_ok(4) later_codes_def)
  with t show ?thesis by blast
qed

text \<open>
  The referral program pays within its bounds. After any sequence of bindings and settlements what
  an inviter's page shows is exact: the coins earned are 15 for each qualified friend and 5 for each
  later code, no more friends qualify than were invited, the pending ones are the rest, and the later
  bonuses are at most one for each code her friends have redeemed. No binding is ever lost.
\<close>

theorem referral_payouts_bounded:
  assumes "ledger_ok s" "referrals_ok s" and "(referral_step terms)\<^sup>*\<^sup>* s t"
  shows "ledger_ok t \<and> referrals_ok t \<and> set (referrals s) \<subseteq> set (referrals t)
    \<and> (let sm = summary t u in
        sm_coins_earned sm = 15 * sm_qualified_count sm + 5 * later_bonuses t u
        \<and> sm_qualified_count sm + sm_pending_count sm = sm_invited_count sm
        \<and> later_bonuses t u \<le> count_where (\<lambda>c. \<exists>r \<in> set (referrals t). rf_inviter_user_id r = u
            \<and> rc_redeemed_by_user_id c = Some (rf_invitee_user_id r)) (redemption_codes t))"
proof -
  from assms(3) have t: "ledger_ok t \<and> referrals_ok t \<and> set (referrals s) \<subseteq> set (referrals t)"
  proof (induction rule: rtranclp_induct)
    case (step t t')
    with referral_step_keeps [of t terms t'] show ?case by auto
  qed (use assms in simp)
  moreover have "sm_pending_count (summary t u) = max (sm_invited_count (summary t u) - sm_qualified_count (summary t u)) 0"
    by (simp add: summary_def Let_def)
  ultimately show ?thesis using referral_summary_exact [of t u] by (simp add: Let_def max_def)
qed

theorem referral_payouts_bounded_witness:
  "\<exists>t. settle True 1 0 friend_qualified = (Inr () :: unit raised + unit, t)
    \<and> sm_coins_earned (summary t 2) = 15 * sm_qualified_count (summary t 2) + 5 * later_bonuses t 2"
proof -
  obtain r t where run: "settle True 1 0 friend_qualified = (r :: unit raised + unit, t)" by fastforce
  then have "(referral_step True)\<^sup>*\<^sup>* friend_qualified t" by (intro r_into_rtranclp settle_step)
  from referral_payouts_bounded [OF friend_ok(1,2) this, of 2]
    settle_cases [OF friend_ok(1,2) run] run show ?thesis by (auto simp: Let_def)
qed

text \<open>
  C14: a player's referral code. With at most five tries the player ends with a code of her own, or the
  call raises: it raises exactly when she has none yet and all five candidates belong to other players.
  A code once given is stored in her row, found from it, never shared, and returned by every later call
  whatever the generator offers.
\<close>

theorem referral_code_allocated:
  assumes "referral_codes_ok s" "user_exists s i"
  shows "case ensure_referral_code i candidate s of
      (Inl e, t) \<Rightarrow> t = s \<and> referral_code_of s i = None \<and> (\<forall>j < 5. code_taken s (candidate j))
    | (Inr code, t) \<Rightarrow> referral_code_of t i = Some code \<and> referral_codes_ok t
        \<and> (if referral_code_of s i = None then t = with_code s i code \<and> resolve_code t code = Some i else t = s)
        \<and> (\<forall>other. ensure_referral_code i other t = (Inr code, t))"
proof (cases "referral_code_of s i")
  case None
  show ?thesis
  proof (cases "List.find (\<lambda>j. \<not> code_taken s (candidate j)) [0..<5]")
    case None': None
    then have "\<forall>j < 5. code_taken s (candidate j)" by (auto simp: find_None_iff simp del: upt_rec_numeral)
    then show ?thesis
      using allocate_result [OF assms None, of 5 candidate] None None'
      by (simp add: ensure_referral_code_def del: allocate_referral_code.simps upt_rec_numeral)
  next
    case (Some j)
    then have free: "\<not> code_taken s (candidate j)" by (auto simp: find_Some_iff simp del: upt_rec_numeral)
    note new = with_code_simps [OF assms(2,1) free None]
    have "ensure_referral_code i candidate s = (Inr (candidate j), with_code s i (candidate j))"
      using allocate_result [OF assms None, of 5 candidate] Some None
      by (simp add: ensure_referral_code_def del: allocate_referral_code.simps upt_rec_numeral)
    then show ?thesis using new None by (simp add: ensure_referral_code_def)
  qed
qed (use assms in \<open>simp add: ensure_referral_code_def\<close>)

theorem referral_code_allocated_witness:
  "ensure_referral_code 1 (\<lambda>j. if j = 0 then ''ABCD1234'' else ''ZZZZ0000'') inviting
    = (Inr ''ZZZZ0000'', with_code inviting 1 ''ZZZZ0000'')"
proof -
  let ?candidate = "\<lambda>j :: nat. if j = 0 then ''ABCD1234'' else ''ZZZZ0000''"
  have ok: "referral_codes_ok inviting" "user_exists inviting 1"
    by (simp_all add: referral_codes_ok_def inviting_def inviter_user_def adult_user_def user_exists_def)
  have none: "referral_code_of inviting 1 = None" by (simp add: referral_code_of_def inviting_def adult_user_def)
  have taken: "code_taken inviting ''ABCD1234''" "\<not> code_taken inviting ''ZZZZ0000''"
    by (simp_all add: code_taken_def inviting_def inviter_user_def adult_user_def)
  then have "List.find (\<lambda>j. \<not> code_taken inviting (?candidate j)) [0..<5] = Some 1" by (simp add: upt_rec)
  with allocate_result [OF ok none, of 5 ?candidate] none
  have "fst (ensure_referral_code 1 ?candidate inviting) = Inr ''ZZZZ0000''"
    by (simp add: ensure_referral_code_def del: allocate_referral_code.simps)
  with referral_code_allocated [OF ok, of ?candidate] none show ?thesis
    by (cases "ensure_referral_code 1 ?candidate inviting") auto
qed

end
