(* ===== verification/Views.thy ===== *)
theory Views
  imports Gateway Challenges Referrals Leaderboards
begin

text \<open>
  The read side and the shapes of the API: the services \<open>me.py\<close>, \<open>wallets.py\<close>, \<open>passports.py\<close> and
  \<open>app_config.py\<close> under \<open>app/application/\<close> with their queries in \<open>repositories.py\<close>, and the request and response
  models of \<open>app/api/v1/schemas.py\<close> with their \<open>from_...\<close> constructors. Enumerations stay datatypes where
  the code sends their values; a \<open>float\<close> is exact.
\<close>

section \<open>The readers\<close>

record MeExtras =
  mx_team :: "CityCode option"
  mx_last_scanned_flavor :: "CityCode option"

record RawStats =
  raw_scans_total :: int
  raw_flavors_discovered :: int
  raw_challenges_completed :: int
  raw_achievements_unlocked :: int
  raw_mini_game_runs_accepted :: int
  raw_mini_game_best_reaction_ms :: "rat option"

record UserStats =
  us_scans_total :: int
  us_flavors_discovered :: int
  us_challenges_completed :: int
  us_achievements_unlocked :: int
  us_checkin_streak_days :: int
  us_mini_game_runs_accepted :: int
  us_mini_game_best_reaction_ms :: "rat option"

definition last_scanned_flavor :: "database \<Rightarrow> uuid \<Rightarrow> CityCode option" where
  "last_scanned_flavor s who =
     map_option rc_city (first_row (order_desc (\<lambda>c. the (rc_redeemed_at c))
       (filter (\<lambda>c. rc_redeemed_by_user_id c = Some who \<and> rc_redeemed_at c \<noteq> None) (redemption_codes s))))"

text \<open>\<open>min\<close> over a column: \<open>NULL\<close> values do not count, and there may be none.\<close>

definition least_value :: "rat option list \<Rightarrow> rat option" where
  "least_value xs = (case List.map_filter (\<lambda>x. x) xs of [] \<Rightarrow> None | y # ys \<Rightarrow> Some (fold min ys y))"

definition get_user_stats :: "database \<Rightarrow> uuid \<Rightarrow> RawStats" where
  "get_user_stats s who =
     (let mine = filter (\<lambda>c. rc_redeemed_by_user_id c = Some who) (redemption_codes s);
          accepted = filter (\<lambda>r. mg_user_id r = who \<and> mg_status r = ACCEPTED) (mini_game_runs s) in
      \<lparr>raw_scans_total = int (length mine),
         raw_flavors_discovered = int (length (remdups (map rc_city mine))),
         raw_challenges_completed = count_where (\<lambda>c. cc_user_id c = who) (challenge_claims s),
         raw_achievements_unlocked = count_where (\<lambda>a. ua_user_id a = who) (user_achievements s),
         raw_mini_game_runs_accepted = int (length accepted),
         raw_mini_game_best_reaction_ms = least_value (map mg_average_reaction_ms accepted)\<rparr>)"

definition me_extras :: "database \<Rightarrow> uuid \<Rightarrow> MeExtras" where
  "me_extras s who = \<lparr>mx_team = map_option tm_flavor (current_team_membership s who),
     mx_last_scanned_flavor = last_scanned_flavor s who\<rparr>"

definition me_streak_days :: "(string \<Rightarrow> int) \<Rightarrow> zone \<Rightarrow> database \<Rightarrow> uuid \<Rightarrow> instant \<Rightarrow> int option" where
  "me_streak_days rank z s who now =
     (case List.find (\<lambda>c. ch_kind c = DAILY_CHECKIN) (list_active_challenges rank s) of
        None \<Rightarrow> Some 0
      | Some c \<Rightarrow> streak_on s (ch_id c) who (tehran_date now z))"

definition me_stats :: "(string \<Rightarrow> int) \<Rightarrow> zone \<Rightarrow> database \<Rightarrow> uuid \<Rightarrow> instant \<Rightarrow> py_error + UserStats" where
  "me_stats rank z s who now =
     (let raw = get_user_stats s who in
      case me_streak_days rank z s who now of
        None \<Rightarrow> Inl (ValueError ''Invalid isoformat string'')
      | Some streak \<Rightarrow> Inr \<lparr>us_scans_total = raw_scans_total raw, us_flavors_discovered = raw_flavors_discovered raw,
          us_challenges_completed = raw_challenges_completed raw, us_achievements_unlocked = raw_achievements_unlocked raw,
          us_checkin_streak_days = streak, us_mini_game_runs_accepted = raw_mini_game_runs_accepted raw,
          us_mini_game_best_reaction_ms = raw_mini_game_best_reaction_ms raw\<rparr>)"

record WalletView =
  wv_balance :: int
  wv_lifetime_earned :: int
  wv_recent :: "CoinLedgerEntryModel list"

definition wallet_view :: "database \<Rightarrow> uuid \<Rightarrow> WalletView" where
  "wallet_view s who =
     (let recent = recent_entries s who 20 in
      case wallet_of s who of
        None \<Rightarrow> \<lparr>wv_balance = 0, wv_lifetime_earned = 0, wv_recent = recent\<rparr>
      | Some w \<Rightarrow> \<lparr>wv_balance = w_balance w, wv_lifetime_earned = w_lifetime_earned w, wv_recent = recent\<rparr>)"

text \<open>\<open>ORDER BY campaign\<close>; \<open>rank\<close> is the collation of the column.\<close>

definition list_passports :: "(string \<Rightarrow> int) \<Rightarrow> database \<Rightarrow> uuid \<Rightarrow> PassportProgressModel list" where
  "list_passports rank s who =
     sort_key (\<lambda>p. rank (campaign_value (pp_campaign p))) (filter (\<lambda>p. pp_user_id p = who) (passport_progress s))"

record FeatureFlags =
  ff_mini_games :: bool
  ff_leaderboard :: bool
  ff_venue_checkin :: bool
  ff_diamonds :: bool

record Flavor =
  fl_id :: string
  fl_code :: string

definition campaign_slug :: "CityCode \<Rightarrow> string" where
  "campaign_slug city = campaign_value (CAMPAIGN_BY_CITY city)"

definition FLAVORS :: "Flavor list" where
  "FLAVORS = map (\<lambda>city. \<lparr>fl_id = campaign_slug city, fl_code = city_value city\<rparr>) all_cities"

record app_config_settings =
  ac_zone :: zone
  ac_zone_key :: string
  ac_terms_version :: string
  ac_terms_required :: bool
  ac_terms_url :: "string option"
  ac_privacy_url :: "string option"
  ac_scans_per_day :: int
  ac_features :: FeatureFlags
  ac_city_names :: "string \<Rightarrow> pystr"

record AppConfig =
  cf_server_time :: instant
  cf_timezone :: string
  cf_period :: CampaignPeriod
  cf_terms_version :: string
  cf_terms_required :: bool
  cf_terms_url :: "string option"
  cf_privacy_url :: "string option"
  cf_scans_per_day :: int
  cf_nickname_min_length :: nat
  cf_nickname_max_length :: nat
  cf_location_cities :: "(string \<times> pystr) list"
  cf_venues :: "VenueModel list"
  cf_flavors :: "Flavor list"
  cf_features :: FeatureFlags

text \<open>The Persian names of the cities are an argument.\<close>

definition current_config :: "app_config_settings \<Rightarrow> (pystr \<Rightarrow> int) \<Rightarrow> (string \<Rightarrow> int) \<Rightarrow> instant \<Rightarrow> database \<Rightarrow> AppConfig" where
  "current_config cfg name_rank rank now s =
     \<lparr>cf_server_time = now, cf_timezone = ac_zone_key cfg, cf_period = campaign_period now (ac_zone cfg),
        cf_terms_version = ac_terms_version cfg, cf_terms_required = ac_terms_required cfg, cf_terms_url = ac_terms_url cfg,
        cf_privacy_url = ac_privacy_url cfg, cf_scans_per_day = ac_scans_per_day cfg,
        cf_nickname_min_length = NICKNAME_MIN_LENGTH, cf_nickname_max_length = NICKNAME_MAX_LENGTH,
        cf_location_cities = map (\<lambda>c. (c, ac_city_names cfg c)) SUPPORTED_CITY_IDS,
        cf_venues = list_active_venues name_rank rank s, cf_flavors = FLAVORS, cf_features = ac_features cfg\<rparr>"

section \<open>Requests\<close>

text \<open>The bounds pydantic checks on what a body holds, in characters.\<close>

definition within_length :: "nat \<Rightarrow> nat \<Rightarrow> 'a list \<Rightarrow> bool" where
  "within_length low high xs \<longleftrightarrow> low \<le> length xs \<and> length xs \<le> high"

definition optional_within :: "nat \<Rightarrow> 'a list option \<Rightarrow> bool" where
  "optional_within high v \<longleftrightarrow> (case v of None \<Rightarrow> True | Some xs \<Rightarrow> length xs \<le> high)"

definition valid_identifier :: "pystr \<Rightarrow> bool" where
  "valid_identifier t \<longleftrightarrow> within_length 3 32 t"

definition valid_verification :: "pystr \<Rightarrow> pystr \<Rightarrow> bool" where
  "valid_verification given code \<longleftrightarrow> valid_identifier given \<and> within_length 6 6 code \<and> list_all is_decimal code"

text \<open>A field of \<open>PATCH /me\<close>: not sent, sent as null, or sent with a value.\<close>

datatype 'a sent = Not_Sent | Sent "'a option"

fun sent_value :: "'a sent \<Rightarrow> 'a option" where
  "sent_value Not_Sent = None"
| "sent_value (Sent v) = v"

record UserUpdate =
  up_display_name :: "pystr sent"
  up_nickname :: "pystr sent"
  up_accept_terms_version :: "string sent"
  up_home_venue_id :: "string sent"
  up_location_city :: "string sent"
  up_avatar_id :: "string sent"
  up_referrer_code :: "string sent"

definition valid_update :: "UserUpdate \<Rightarrow> bool" where
  "valid_update p \<longleftrightarrow> optional_within 100 (sent_value (up_display_name p)) \<and> optional_within 64 (sent_value (up_nickname p))
     \<and> optional_within 20 (sent_value (up_accept_terms_version p)) \<and> optional_within 40 (sent_value (up_home_venue_id p))
     \<and> optional_within 40 (sent_value (up_location_city p)) \<and> optional_within 40 (sent_value (up_avatar_id p))
     \<and> optional_within 8 (sent_value (up_referrer_code p))"

definition valid_code :: "pystr \<Rightarrow> bool" where
  "valid_code code \<longleftrightarrow> within_length 1 64 code"

definition valid_reactions :: "int list \<Rightarrow> bool" where
  "valid_reactions reactions_ms \<longleftrightarrow> reactions_ms \<noteq> []"

end
