(* ===== verification/Schemas.thy ===== *)
theory Schemas
  imports Views Authentication
begin

text \<open>
  The responses of \<open>app/api/v1/schemas.py\<close>: one record per model, one constructor per \<open>from_domain\<close>,
  \<open>from_result\<close>, \<open>from_view\<close> and \<open>from_status\<close>.
\<close>

record AuthenticationRequested =
  ar_resend_after_seconds :: int
  ar_expires_in_seconds :: int
  ar_code_length :: nat
  ar_test_code :: "pystr option"

definition authentication_requested :: "RequestChallengeResult \<Rightarrow> AuthenticationRequested" where
  "authentication_requested r = \<lparr>ar_resend_after_seconds = rq_resend_after_seconds r,
     ar_expires_in_seconds = rq_expires_in_seconds r, ar_code_length = rq_code_length r, ar_test_code = rq_test_code r\<rparr>"

record UserResponse =
  ur_id :: uuid
  ur_identifier :: pystr
  ur_display_name :: "pystr option"
  ur_nickname :: "pystr option"
  ur_home_venue_id :: "string option"
  ur_location_city :: "string option"
  ur_avatar_id :: "string option"
  ur_referral_code :: "string option"
  ur_team :: "string option"
  ur_last_scanned_flavor :: "string option"
  ur_terms_accepted :: bool
  ur_profile_complete :: bool
  ur_account_status :: AccountStatus
  ur_verification_status :: VerificationStatus
  ur_role :: UserRole
  ur_created_at :: instant
  ur_updated_at :: instant

definition user_response :: "User \<Rightarrow> bool \<Rightarrow> string option \<Rightarrow> string option \<Rightarrow> string option \<Rightarrow> UserResponse" where
  "user_response u terms_required team last_scanned referral_code =
     \<lparr>ur_id = user_id u, ur_identifier = user_identifier u, ur_display_name = user_display_name u, ur_nickname = user_nickname u,
        ur_home_venue_id = user_home_venue_id u, ur_location_city = user_location_city u, ur_avatar_id = user_avatar_id u,
        ur_referral_code = referral_code, ur_team = team, ur_last_scanned_flavor = last_scanned,
        ur_terms_accepted = (user_terms_accepted_at u \<noteq> None), ur_profile_complete = is_profile_complete u terms_required,
        ur_account_status = user_account_status u, ur_verification_status = user_verification_status u, ur_role = user_role u,
        ur_created_at = user_created_at u, ur_updated_at = user_updated_at u\<rparr>"

record PassportProgressResponse =
  ppr_campaign :: string
  ppr_points :: int
  ppr_updated_at :: instant

definition passport_response :: "PassportProgressModel \<Rightarrow> PassportProgressResponse" where
  "passport_response p = \<lparr>ppr_campaign = campaign_value (pp_campaign p), ppr_points = pp_points p, ppr_updated_at = pp_updated_at p\<rparr>"

record RedemptionResponse =
  rr_city :: string
  rr_entries_added :: int
  rr_city_entries :: int
  rr_coins_awarded :: int
  rr_coin_balance :: int
  rr_replayed :: bool
  rr_bonus_awarded :: int
  rr_flavor_unlocked :: "string option"

definition redemption_response :: "RedemptionResult \<Rightarrow> RedemptionResponse" where
  "redemption_response r = \<lparr>rr_city = campaign_slug (res_city r), rr_entries_added = res_entries_added r,
     rr_city_entries = res_city_entries r, rr_coins_awarded = res_coins_awarded r, rr_coin_balance = res_coin_balance r,
     rr_replayed = res_replayed r, rr_bonus_awarded = res_bonus_awarded r,
     rr_flavor_unlocked = map_option campaign_slug (res_flavor_unlocked r)\<rparr>"

record LedgerEntryResponse =
  ler_id :: int
  ler_amount :: int
  ler_reason :: LedgerReason
  ler_created_at :: instant

record WalletResponse =
  wr_balance :: int
  wr_lifetime_earned :: int
  wr_recent :: "LedgerEntryResponse list"

definition wallet_response :: "WalletView \<Rightarrow> WalletResponse" where
  "wallet_response v = \<lparr>wr_balance = wv_balance v, wr_lifetime_earned = wv_lifetime_earned v,
     wr_recent = map (\<lambda>e. \<lparr>ler_id = le_id e, ler_amount = le_amount e, ler_reason = le_reason e, ler_created_at = le_created_at e\<rparr>) (wv_recent v)\<rparr>"

record FlavorProgressResponse =
  fpr_flavor :: string
  fpr_codes :: int
  fpr_unlocked :: bool

definition flavor_progress_response :: "FlavorProgress \<Rightarrow> FlavorProgressResponse" where
  "flavor_progress_response p = \<lparr>fpr_flavor = campaign_slug (fp_flavor p), fpr_codes = fp_codes p, fpr_unlocked = fp_unlocked p\<rparr>"

record TeamStatusResponse =
  tr_team :: "string option"
  tr_joined_at :: "instant option"
  tr_switch_allowed_at :: "instant option"
  tr_flavors :: "FlavorProgressResponse list"

definition team_status_response :: "TeamStatus \<Rightarrow> TeamStatusResponse" where
  "team_status_response st = \<lparr>tr_team = map_option (\<lambda>m. campaign_slug (tm_flavor m)) (ts_team st),
     tr_joined_at = map_option tm_joined_at (ts_team st), tr_switch_allowed_at = ts_switch_allowed_at st,
     tr_flavors = map flavor_progress_response (ts_flavors st)\<rparr>"

record ChallengeResponse =
  chr_id :: string
  chr_kind :: ChallengeKind
  chr_period :: ChallengePeriod
  chr_target :: int
  chr_have :: int
  chr_reward_coins :: int
  chr_completed :: bool
  chr_claimed :: bool
  chr_streak :: "int option"

definition challenge_response :: "ChallengeProgress \<Rightarrow> ChallengeResponse" where
  "challenge_response p = \<lparr>chr_id = cp_id p, chr_kind = cp_kind p, chr_period = cp_period p, chr_target = cp_target p,
     chr_have = cp_have p, chr_reward_coins = cp_reward_coins p, chr_completed = cp_completed p, chr_claimed = cp_claimed p,
     chr_streak = cp_streak p\<rparr>"

record ChallengeClaimResponse =
  ccr_id :: string
  ccr_coins_awarded :: int
  ccr_coin_balance :: int
  ccr_streak :: "int option"
  ccr_achievements_unlocked :: "AchievementUnlock list"

definition challenge_claim_response :: "ChallengeClaimResult \<Rightarrow> ChallengeClaimResponse" where
  "challenge_claim_response r = \<lparr>ccr_id = cr_id r, ccr_coins_awarded = cr_coins_awarded r, ccr_coin_balance = cr_coin_balance r,
     ccr_streak = cr_streak r, ccr_achievements_unlocked = cr_achievements_unlocked r\<rparr>"

record MiniGameRunStartResponse =
  msr_run_id :: uuid
  msr_mini_game_id :: MiniGameId
  msr_round_delays_ms :: "int list"
  msr_expires_at :: instant

definition run_start_response :: "RunStarted \<Rightarrow> MiniGameRunStartResponse" where
  "run_start_response r = \<lparr>msr_run_id = rs_run_id r, msr_mini_game_id = rs_mini_game_id r,
     msr_round_delays_ms = rs_round_delays_ms r, msr_expires_at = rs_expires_at r\<rparr>"

record MiniGameRunFinishResponse =
  mfr_run_id :: uuid
  mfr_accepted :: bool
  mfr_average_reaction_ms :: rat
  mfr_reason :: "MiniGameRunRejection option"

definition run_finish_response :: "MiniGameFinishResult \<Rightarrow> MiniGameRunFinishResponse" where
  "run_finish_response r = \<lparr>mfr_run_id = mf_run_id r, mfr_accepted = mf_accepted r,
     mfr_average_reaction_ms = mf_average_reaction_ms r, mfr_reason = mf_reason r\<rparr>"

record ReferralStatusResponse =
  rsr_referral_code :: string
  rsr_invited_count :: int
  rsr_qualified_count :: int
  rsr_pending_count :: int
  rsr_coins_earned :: int

definition referral_status_response :: "ReferralStatus \<Rightarrow> ReferralStatusResponse" where
  "referral_status_response st = \<lparr>rsr_referral_code = st_referral_code st, rsr_invited_count = st_invited_count st,
     rsr_qualified_count = st_qualified_count st, rsr_pending_count = st_pending_count st, rsr_coins_earned = st_coins_earned st\<rparr>"

text \<open>\<open>round(None)\<close> raises \<open>TypeError\<close>.\<close>

record LeaderboardEntryResponse =
  ber_rank :: int
  ber_nickname :: "pystr option"
  ber_avatar_id :: "string option"
  ber_score :: int
  ber_is_me :: bool

definition leaderboard_entry_response :: "uuid \<Rightarrow> LeaderboardRow \<Rightarrow> py_error + LeaderboardEntryResponse" where
  "leaderboard_entry_response current_user_id e =
     (case lr_score e of
        None \<Rightarrow> Inl TypeError
      | Some score \<Rightarrow> Inr \<lparr>ber_rank = lr_rank e, ber_nickname = lr_nickname e, ber_avatar_id = lr_avatar_id e,
          ber_score = round_half_even score, ber_is_me = (lr_user_id e = current_user_id)\<rparr>)"

record LeaderboardResponse =
  br_mini_game_id :: MiniGameId
  br_period :: LeaderboardPeriod
  br_resets_at :: "instant option"
  br_updated_at :: instant
  br_entries :: "LeaderboardEntryResponse list"
  br_me_rank :: "int option"
  br_me_score :: "int option"

fun all_results :: "('e + 'a) list \<Rightarrow> 'e + 'a list" where
  "all_results [] = Inr []"
| "all_results (Inl e # rs) = Inl e"
| "all_results (Inr a # rs) = (case all_results rs of Inl e \<Rightarrow> Inl e | Inr xs \<Rightarrow> Inr (a # xs))"

definition leaderboard_response :: "uuid \<Rightarrow> Leaderboard \<Rightarrow> py_error + LeaderboardResponse" where
  "leaderboard_response current_user_id b =
     (case all_results (map (leaderboard_entry_response current_user_id) (lb_entries b)) of
        Inl e \<Rightarrow> Inl e
      | Inr entries \<Rightarrow> Inr \<lparr>br_mini_game_id = lb_mini_game_id b, br_period = lb_period b, br_resets_at = lb_resets_at b,
          br_updated_at = lb_updated_at b, br_entries = entries, br_me_rank = ls_rank (lb_me b),
          br_me_score = map_option round_half_even (ls_score (lb_me b))\<rparr>)"

record VenueResponse =
  vn_id :: string
  vn_name :: pystr
  vn_location_city :: string
  vn_address :: "pystr option"

record ConfigResponse =
  cfr_server_time :: instant
  cfr_timezone :: string
  cfr_day_key :: string
  cfr_week_key :: string
  cfr_day_ends_at :: instant
  cfr_week_ends_at :: instant
  cfr_terms_version :: string
  cfr_terms_required :: bool
  cfr_terms_url :: "string option"
  cfr_privacy_url :: "string option"
  cfr_scans_per_day :: int
  cfr_nickname_min_length :: nat
  cfr_nickname_max_length :: nat
  cfr_location_cities :: "(string \<times> pystr) list"
  cfr_venues :: "VenueResponse list"
  cfr_flavors :: "Flavor list"
  cfr_features :: FeatureFlags

definition config_response :: "AppConfig \<Rightarrow> ConfigResponse" where
  "config_response c = \<lparr>cfr_server_time = cf_server_time c, cfr_timezone = cf_timezone c, cfr_day_key = day_key (cf_period c),
     cfr_week_key = week_key (cf_period c), cfr_day_ends_at = day_ends_at (cf_period c), cfr_week_ends_at = week_ends_at (cf_period c),
     cfr_terms_version = cf_terms_version c, cfr_terms_required = cf_terms_required c, cfr_terms_url = cf_terms_url c,
     cfr_privacy_url = cf_privacy_url c, cfr_scans_per_day = cf_scans_per_day c, cfr_nickname_min_length = cf_nickname_min_length c,
     cfr_nickname_max_length = cf_nickname_max_length c, cfr_location_cities = cf_location_cities c,
     cfr_venues = map (\<lambda>v. \<lparr>vn_id = v_id v, vn_name = v_name v, vn_location_city = v_city v, vn_address = v_address v\<rparr>) (cf_venues c),
     cfr_flavors = cf_flavors c, cfr_features = cf_features c\<rparr>"

record UserPageResponse =
  upr_items :: "UserResponse list"
  upr_next_cursor :: "UserCursor option"

definition user_page_response :: "bool \<Rightarrow> UserPage \<Rightarrow> UserPageResponse" where
  "user_page_response terms_required p = \<lparr>upr_items = map (\<lambda>u. user_response u terms_required None None None) (page_items p),
     upr_next_cursor = page_next_cursor p\<rparr>"

end
