(* ===== verification/Legal.thy ===== *)
theory Legal
  imports Gateway
begin

text \<open>
  The terms of use page: \<open>app/api/legal.py\<close> (a small renderer of the text an administrator typed),
  \<open>app/domain/legal.py\<close>, \<open>app/application/legal.py\<close>, the repository, and the check of the admin form
  (\<open>LegalDocumentAdmin.on_model_change\<close>). Text is code points; the regular expressions are written out.
\<close>

section \<open>Lines\<close>

text \<open>\<open>str.splitlines\<close>.\<close>

definition line_break :: "nat \<Rightarrow> bool" where
  "line_break c \<longleftrightarrow> c \<in> {10, 11, 12, 13, 28, 29, 30, 133, 8232, 8233}"

fun split_lines :: "pystr \<Rightarrow> pystr \<Rightarrow> pystr list" where
  "split_lines cur [] = (if cur = [] then [] else [cur])"
| "split_lines cur [c] = (if line_break c then [cur] else [cur @ [c]])"
| "split_lines cur (c # d # s) =
     (if c = 13 \<and> d = 10 then cur # split_lines [] s
      else if line_break c then cur # split_lines [] (d # s) else split_lines (cur @ [c]) (d # s))"

definition splitlines :: "pystr \<Rightarrow> pystr list" where
  "splitlines body = split_lines [] body"

text \<open>\<open>html.escape\<close>.\<close>

definition escape_char :: "nat \<Rightarrow> pystr" where
  "escape_char c = (if c = 38 then cp ''&amp;'' else if c = 60 then cp ''&lt;'' else if c = 62 then cp ''&gt;''
     else if c = 34 then cp ''&quot;'' else if c = 39 then cp ''&#x27;'' else [c])"

definition html_escape :: "pystr \<Rightarrow> pystr" where
  "html_escape t = concat (map escape_char t)"

section \<open>The three patterns\<close>

text \<open>\<open>_HEADING\<close> on a stripped line: its level and its text.\<close>

definition heading :: "pystr \<Rightarrow> (nat \<times> pystr) option" where
  "heading line =
     (let level = length (takeWhile (\<lambda>c. c = 35) line); rest = drop level line in
      if 1 \<le> level \<and> level \<le> 3 \<and> rest \<noteq> [] \<and> is_space (hd rest) then Some (level, dropWhile is_space rest) else None)"

definition anchor_name :: "pystr \<Rightarrow> bool" where
  "anchor_name t \<longleftrightarrow> (case t of [] \<Rightarrow> False
     | c # r \<Rightarrow> (ascii_alnum c \<and> \<not> (48 \<le> c \<and> c \<le> 57)) \<and> length r \<le> 40 \<and> list_all (\<lambda>c. ascii_alnum c \<or> c = 95 \<or> c = 45) r)"

text \<open>\<open>_ANCHOR.search\<close>: the text before the anchor, and its name.\<close>

definition anchor :: "pystr \<Rightarrow> (pystr \<times> pystr) option" where
  "anchor text =
     (let t = rstrip_by is_space text; inner = butlast t; tail_part = after_last 123 inner;
          stem = take (length inner - length tail_part - 1) inner in
      if t \<noteq> [] \<and> last t = 125 \<and> 123 \<in> set inner \<and> tail_part \<noteq> [] \<and> hd tail_part = 35 \<and> anchor_name (drop 1 tail_part)
      then Some (rstrip_by is_space stem, drop 1 tail_part) else None)"

text \<open>\<open>_LIST_ITEM\<close> on the line as it is.\<close>

definition list_item :: "pystr \<Rightarrow> pystr option" where
  "list_item raw =
     (case dropWhile is_space raw of
        [] \<Rightarrow> None
      | c # rest \<Rightarrow> if c = 45 \<and> rest \<noteq> [] \<and> is_space (hd rest) then Some (dropWhile is_space rest) else None)"

section \<open>Blocks\<close>

record legal_page_state =
  lp_blocks :: "pystr list"
  lp_paragraph :: "pystr list"
  lp_items :: "pystr list"
  lp_title :: "pystr option"

definition paragraph_block :: "pystr list \<Rightarrow> pystr" where
  "paragraph_block lines = cp ''<p>'' @ html_escape (join_with [32] lines) @ cp ''</p>''"

definition list_block :: "pystr list \<Rightarrow> pystr" where
  "list_block items = cp ''<ul>'' @ concat (map (\<lambda>i. cp ''<li>'' @ html_escape i @ cp ''</li>'') items) @ cp ''</ul>''"

definition flush_paragraph :: "legal_page_state \<Rightarrow> legal_page_state" where
  "flush_paragraph p = (if lp_paragraph p = [] then p
     else p\<lparr>lp_blocks := lp_blocks p @ [paragraph_block (lp_paragraph p)], lp_paragraph := []\<rparr>)"

definition flush_items :: "legal_page_state \<Rightarrow> legal_page_state" where
  "flush_items p = (if lp_items p = [] then p
     else p\<lparr>lp_blocks := lp_blocks p @ [list_block (lp_items p)], lp_items := []\<rparr>)"

definition flush :: "legal_page_state \<Rightarrow> legal_page_state" where
  "flush p = flush_items (flush_paragraph p)"

definition heading_block :: "nat \<Rightarrow> pystr option \<Rightarrow> pystr \<Rightarrow> pystr" where
  "heading_block level name text =
     cp ''<h'' @ show_nat level @ (case name of None \<Rightarrow> [] | Some n \<Rightarrow> cp '' id='' @ [34] @ n @ [34]) @ cp ''>''
     @ html_escape text @ cp ''</h'' @ show_nat level @ cp ''>''"

definition add_heading :: "nat \<Rightarrow> pystr \<Rightarrow> legal_page_state \<Rightarrow> legal_page_state" where
  "add_heading level text p =
     (let (shown, name) = (case anchor text of None \<Rightarrow> (text, None) | Some (before, n) \<Rightarrow> (before, Some n)) in
      p\<lparr>lp_title := (if level = 1 \<and> lp_title p = None then Some shown else lp_title p),
         lp_blocks := lp_blocks p @ [heading_block level name shown]\<rparr>)"

definition render_line :: "legal_page_state \<Rightarrow> pystr \<Rightarrow> legal_page_state" where
  "render_line p raw =
     (let line = strip raw in
      if line = [] then flush p
      else
        (case heading line of
           Some (level, text) \<Rightarrow> add_heading level text (flush p)
         | None \<Rightarrow>
             if line = cp ''---'' then (let q = flush p in q\<lparr>lp_blocks := lp_blocks q @ [cp ''<hr>'']\<rparr>)
             else
               (case list_item raw of
                  Some item \<Rightarrow> (let q = flush_paragraph p in q\<lparr>lp_items := lp_items q @ [strip item]\<rparr>)
                | None \<Rightarrow>
                    if lp_items p \<noteq> [] \<and> raw \<noteq> [] \<and> is_space (hd raw)
                    then p\<lparr>lp_items := butlast (lp_items p) @ [last (lp_items p) @ [32] @ line]\<rparr>
                    else (let q = (if lp_items p \<noteq> [] then flush p else p) in
                          q\<lparr>lp_paragraph := lp_paragraph q @ [line]\<rparr>))))"

definition render_blocks :: "pystr \<Rightarrow> pystr list \<times> pystr option" where
  "render_blocks body =
     (let p = flush (fold (\<lambda>raw p. render_line p raw) (splitlines body)
        \<lparr>lp_blocks = [], lp_paragraph = [], lp_items = [], lp_title = None\<rparr>) in
      (lp_blocks p, lp_title p))"

definition STYLE :: pystr where
  "STYLE = cp ''body{max-width:46rem;margin:0 auto;padding:1.25rem;font-family:Vazirmatn,Tahoma,'' @ [34] @ cp ''Noto Sans Arabic'' @ [34]
     @ cp '',sans-serif;line-height:1.9;color:#1a1a1a;background:#fff}h1{font-size:1.35rem}h2{font-size:1.15rem;margin-top:2rem}''
     @ cp ''ul{padding-inline-start:1.25rem}hr{border:0;border-top:1px solid #ddd;margin:2rem 0}''"

text \<open>The quotes of an attribute.\<close>

definition quoted :: "string \<Rightarrow> string \<Rightarrow> pystr" where
  "quoted name v = cp name @ cp ''='' @ [34] @ cp v @ [34]"

definition HTML_TAG :: pystr where
  "HTML_TAG = cp ''<html '' @ quoted ''lang'' ''fa'' @ cp '' '' @ quoted ''dir'' ''rtl'' @ cp ''>''"

definition CHARSET_TAG :: pystr where
  "CHARSET_TAG = cp ''<meta '' @ quoted ''charset'' ''utf-8'' @ cp ''>''"

definition VIEWPORT_TAG :: pystr where
  "VIEWPORT_TAG = cp ''<meta '' @ quoted ''name'' ''viewport'' @ cp '' '' @ quoted ''content'' ''width=device-width, initial-scale=1'' @ cp ''>''"

definition render_legal_page :: "pystr \<Rightarrow> pystr" where
  "render_legal_page body =
     (let (blocks, title) = render_blocks body;
          shown = (case title of None \<Rightarrow> cp ''TorshX'' | Some t \<Rightarrow> if t = [] then cp ''TorshX'' else t) in
      cp ''<!doctype html>'' @ HTML_TAG @ cp ''<head>'' @ CHARSET_TAG @ VIEWPORT_TAG
      @ cp ''<title>'' @ html_escape shown @ cp ''</title>''
      @ cp ''<style>'' @ STYLE @ cp ''</style>'' @ cp ''</head>'' @ cp ''<body>'' @ concat blocks @ cp ''</body>'' @ cp ''</html>'')"

section \<open>The route and the admin form\<close>

definition version_char :: "char \<Rightarrow> bool" where
  "version_char c \<longleftrightarrow> ascii_alnum (of_char c) \<or> c = CHR ''_'' \<or> c = CHR ''-''"

text \<open>The path pattern; what does not match never reaches the route (422).\<close>

definition legal_path_ok :: "string \<Rightarrow> bool" where
  "legal_path_ok version \<longleftrightarrow> 1 \<le> length version \<and> length version \<le> 20 \<and> list_all version_char version"

definition legal_page :: "string \<Rightarrow> database \<Rightarrow> ApiError + pystr" where
  "legal_page version s =
     (case get_legal_document s version of
        None \<Rightarrow> Inl \<lparr>ae_status_code = 404, ae_code = ''NOT_FOUND'', ae_message = ''unknown legal document version'',
          ae_retry_after_seconds = None, ae_details = None\<rparr>
      | Some d \<Rightarrow> Inr (render_legal_page (ld_body d)))"

text \<open>\<open>LEGAL_VERSION_PATTERN.match\<close>; its \<open>$\<close> lets a final newline pass.\<close>

definition legal_version_ok :: "string \<Rightarrow> bool" where
  "legal_version_ok version =
     legal_path_ok (if version \<noteq> [] \<and> last version = CHR 0x0A then butlast version else version)"

text \<open>\<open>stored\<close> is the version of the row being edited.\<close>

definition legal_on_model_change :: "string \<Rightarrow> string \<Rightarrow> bool \<Rightarrow> database \<Rightarrow> py_error + unit" where
  "legal_on_model_change version stored is_created s =
     (if \<not> legal_version_ok version then Inl (ValueError ''Version'')
      else if is_created then Inr ()
      else if 0 < count_where (\<lambda>u. u_terms_version u = Some stored) (users s) then Inl (ValueError ''accepted'')
      else Inr ())"

text \<open>
  SQLAdmin's form: the check, then the write of the two columns. The trigger of the table refuses
  exactly what the check refuses for an edit.
\<close>

definition save_legal_document :: "string option \<Rightarrow> string \<Rightarrow> pystr \<Rightarrow> instant \<Rightarrow> database \<Rightarrow> (py_error + unit) \<times> database" where
  "save_legal_document stored version body now s =
     (case legal_on_model_change version (case stored of None \<Rightarrow> version | Some v \<Rightarrow> v) (stored = None) s of
        Inl e \<Rightarrow> (Inl e, s)
      | Inr _ \<Rightarrow>
          (case stored of
             None \<Rightarrow>
               if get_legal_document s version \<noteq> None then (Inl (IntegrityError ''legal_documents''), s)
               else (Inr (), s\<lparr>legal_documents := legal_documents s @
                 [\<lparr>ld_version = version, ld_body = body, ld_created_at = now, ld_updated_at = now\<rparr>]\<rparr>)
           | Some v \<Rightarrow>
               if version \<noteq> v \<and> get_legal_document s version \<noteq> None then (Inl (IntegrityError ''legal_documents''), s)
               else (Inr (), s\<lparr>legal_documents := update_where (\<lambda>d. ld_version d = v)
                 (\<lambda>d. d\<lparr>ld_version := version, ld_body := body, ld_updated_at := now\<rparr>) (legal_documents s)\<rparr>)))"

section \<open>Nothing an administrator types becomes markup\<close>

definition tag_names :: "string list" where
  "tag_names = [''<!doctype html>'', ''<head>'', ''</head>'', ''<title>'', ''</title>'',
     ''<style>'', ''</style>'', ''<body>'', ''</body>'', ''</html>'', ''<p>'', ''</p>'', ''<ul>'', ''</ul>'', ''<li>'', ''</li>'', ''<hr>'',
     ''<h1>'', ''<h2>'', ''<h3>'', ''</h1>'', ''</h2>'', ''</h3>'']"

definition fixed_tags :: "pystr list" where
  "fixed_tags = [HTML_TAG, CHARSET_TAG, VIEWPORT_TAG] @ map cp tag_names"

lemma named_tags: "t \<in> set tag_names \<Longrightarrow> cp t \<in> set fixed_tags"
  by (simp add: fixed_tags_def)

definition allowed_tag :: "pystr \<Rightarrow> bool" where
  "allowed_tag t \<longleftrightarrow> t \<in> set fixed_tags
     \<or> (\<exists>level \<in> {1, 2, 3}. \<exists>name. anchor_name name \<and> t = cp ''<h'' @ show_nat level @ cp '' id='' @ [34] @ name @ [34] @ cp ''>'')"

text \<open>Every \<open><\<close> of the text begins one of these tags.\<close>

definition only_allowed_tags :: "pystr \<Rightarrow> bool" where
  "only_allowed_tags s \<longleftrightarrow> (\<forall>a b. s = a @ 60 # b \<longrightarrow> (\<exists>t. allowed_tag t \<and> starts_with t (60 # b)))"

named_theorems tag_intros \<open>texts whose tags are all allowed\<close>

lemma tags_append [tag_intros]:
  assumes "only_allowed_tags s" "only_allowed_tags t"
  shows "only_allowed_tags (s @ t)"
  unfolding only_allowed_tags_def
proof (intro allI impI)
  fix a b
  assume "s @ t = a @ 60 # b"
  then consider us where "s = a @ us" "us @ t = 60 # b" | us where "a = s @ us" "t = us @ 60 # b"
    by (auto simp: append_eq_append_conv2)
  then show "\<exists>u. allowed_tag u \<and> starts_with u (60 # b)"
  proof cases
    case 1
    show ?thesis
    proof (cases us)
      case Nil
      with 1 assms(2) show ?thesis unfolding only_allowed_tags_def by (metis append_Nil)
    next
      case (Cons c r)
      with 1 have "s = a @ 60 # r" "b = r @ t" by auto
      with assms(1) obtain u where "allowed_tag u" "starts_with u (60 # r)" unfolding only_allowed_tags_def by blast
      with \<open>b = r @ t\<close> have "starts_with u (60 # b)" unfolding starts_with_iff by (metis append_Cons append_assoc)
      with \<open>allowed_tag u\<close> show ?thesis by blast
    qed
  next
    case 2
    with assms(2) show ?thesis unfolding only_allowed_tags_def by blast
  qed
qed

lemma tags_none [tag_intros]: "60 \<notin> set s \<Longrightarrow> only_allowed_tags s"
  by (auto simp: only_allowed_tags_def)

lemma tags_one:
  assumes "allowed_tag (60 # r)" "60 \<notin> set r"
  shows "only_allowed_tags (60 # r)"
  unfolding only_allowed_tags_def
proof (intro allI impI)
  fix a b
  assume "60 # r = a @ 60 # b"
  with assms(2) have "a = []" by (cases a) auto
  with \<open>60 # r = a @ 60 # b\<close> assms(1) show "\<exists>t. allowed_tag t \<and> starts_with t (60 # b)"
    by (intro exI [of _ "60 # r"]) (simp add: starts_with_def)
qed

lemma fixed_tags_all: "list_all (\<lambda>t. t \<noteq> [] \<and> hd t = 60 \<and> 60 \<notin> set (tl t)) fixed_tags"
  by (simp add: fixed_tags_def tag_names_def HTML_TAG_def CHARSET_TAG_def VIEWPORT_TAG_def quoted_def)

lemma fixed_tags_shape:
  assumes "t \<in> set fixed_tags"
  shows "\<exists>r. t = 60 # r \<and> 60 \<notin> set r"
proof -
  have "t \<noteq> []" "hd t = 60" "60 \<notin> set (tl t)" using fixed_tags_all assms unfolding list_all_iff by blast+
  then show ?thesis by (cases t) auto
qed

lemma tags_fixed [tag_intros]: "t \<in> set fixed_tags \<Longrightarrow> only_allowed_tags t"
  using fixed_tags_shape [of t] tags_one unfolding allowed_tag_def by blast

lemma tags_concat [tag_intros]: "(\<And>x. x \<in> set xs \<Longrightarrow> only_allowed_tags (f x)) \<Longrightarrow> only_allowed_tags (concat (map f xs))"
  by (induction xs) (auto intro: tag_intros)

lemma escaped [simp]: "60 \<notin> set (html_escape t)"
  by (auto simp: html_escape_def escape_char_def)

lemma tags_blocks [tag_intros]: "only_allowed_tags (paragraph_block lines)" "only_allowed_tags (list_block items)"
proof -
  have tag: "only_allowed_tags (cp t)" if "t \<in> {''<p>'', ''</p>'', ''<ul>'', ''</ul>'', ''<li>'', ''</li>''}" for t
    using that by (intro tags_fixed named_tags) (auto simp: tag_names_def)
  have item: "only_allowed_tags (cp ''<li>'' @ html_escape i @ cp ''</li>'')" for i
    by (intro tags_append tag tags_none escaped) simp_all
  show "only_allowed_tags (paragraph_block lines)"
    unfolding paragraph_block_def by (intro tags_append tag tags_none escaped) simp_all
  show "only_allowed_tags (list_block items)"
    unfolding list_block_def by (intro tags_append tags_concat item tag) simp_all
qed

lemma anchor_name_plain: "anchor_name name \<Longrightarrow> 60 \<notin> set name"
  by (cases name) (auto simp: anchor_name_def ascii_alnum_def list_all_iff)

lemma heading_tags:
  assumes "level \<in> {1, 2, 3}"
  shows "cp ''<h'' @ show_nat level @ cp ''>'' \<in> set fixed_tags" "cp ''</h'' @ show_nat level @ cp ''>'' \<in> set fixed_tags"
    "60 \<notin> set (show_nat level)"
proof -
  have digits: "show_nat 1 = [49]" "show_nat 2 = [50]" "show_nat 3 = [51]" by (simp_all add: show_nat.simps)
  have eqs: "cp ''<h'' @ [49] @ cp ''>'' = cp ''<h1>''" "cp ''<h'' @ [50] @ cp ''>'' = cp ''<h2>''" "cp ''<h'' @ [51] @ cp ''>'' = cp ''<h3>''"
    "cp ''</h'' @ [49] @ cp ''>'' = cp ''</h1>''" "cp ''</h'' @ [50] @ cp ''>'' = cp ''</h2>''" "cp ''</h'' @ [51] @ cp ''>'' = cp ''</h3>''"
    by simp_all
  have tags: "cp t \<in> set fixed_tags" if "t \<in> {''<h1>'', ''<h2>'', ''<h3>'', ''</h1>'', ''</h2>'', ''</h3>''}" for t
    using that by (intro named_tags) (auto simp: tag_names_def)
  consider "level = 1" | "level = 2" | "level = 3" using assms by blast
  then have "cp ''<h'' @ show_nat level @ cp ''>'' \<in> set fixed_tags \<and> cp ''</h'' @ show_nat level @ cp ''>'' \<in> set fixed_tags
      \<and> 60 \<notin> set (show_nat level)"
  proof cases
    case 1
    show ?thesis unfolding 1 digits eqs by (intro conjI tags) simp_all
  next
    case 2
    show ?thesis unfolding 2 digits eqs by (intro conjI tags) simp_all
  next
    case 3
    show ?thesis unfolding 3 digits eqs by (intro conjI tags) simp_all
  qed
  then show "cp ''<h'' @ show_nat level @ cp ''>'' \<in> set fixed_tags" "cp ''</h'' @ show_nat level @ cp ''>'' \<in> set fixed_tags"
    "60 \<notin> set (show_nat level)" by blast+
qed

lemma tags_heading [tag_intros]:
  assumes "1 \<le> level" "level \<le> 3" "\<And>n. name = Some n \<Longrightarrow> anchor_name n"
  shows "only_allowed_tags (heading_block level name text)"
proof -
  have level: "level \<in> {1, 2, 3}" using assms(1,2) by auto
  have open_tag: "only_allowed_tags (cp ''<h'' @ show_nat level @ (case name of None \<Rightarrow> [] | Some n \<Rightarrow> cp '' id='' @ [34] @ n @ [34]) @ cp ''>'')"
  proof (cases name)
    case None
    show ?thesis using tags_fixed [OF heading_tags(1) [OF level]] unfolding None option.case append_Nil .
  next
    case (Some n)
    let ?t = "104 # show_nat level @ cp '' id='' @ [34] @ n @ [34] @ cp ''>''"
    have eq: "cp ''<h'' @ show_nat level @ cp '' id='' @ [34] @ n @ [34] @ cp ''>'' = 60 # ?t" by simp
    have "allowed_tag (cp ''<h'' @ show_nat level @ cp '' id='' @ [34] @ n @ [34] @ cp ''>'')"
      unfolding allowed_tag_def using level assms(3) [OF Some] by blast
    then have "allowed_tag (60 # ?t)" unfolding eq .
    moreover have "60 \<notin> set ?t"
      using anchor_name_plain [OF assms(3) [OF Some]] heading_tags(3) [OF level] by simp
    ultimately have "only_allowed_tags (60 # ?t)" by (rule tags_one)
    then show ?thesis unfolding eq [symmetric] Some by simp
  qed
  from tags_append [OF open_tag tags_append [OF tags_none [OF escaped] tags_fixed [OF heading_tags(2) [OF level]]]]
  show ?thesis by (simp add: heading_block_def)
qed

section \<open>The renderer keeps to it\<close>

definition blocks_ok :: "legal_page_state \<Rightarrow> bool" where
  "blocks_ok p \<longleftrightarrow> (\<forall>b \<in> set (lp_blocks p). only_allowed_tags b)"

lemma flush_ok: "blocks_ok p \<Longrightarrow> blocks_ok (flush_paragraph p)" "blocks_ok p \<Longrightarrow> blocks_ok (flush p)"
  by (auto simp: blocks_ok_def flush_def flush_paragraph_def flush_items_def intro: tag_intros)

lemma heading_level: "heading line = Some (level, text) \<Longrightarrow> 1 \<le> level \<and> level \<le> 3"
  by (auto simp: heading_def Let_def split: if_splits)

lemma anchor_ok: "anchor text = Some (before, n) \<Longrightarrow> anchor_name n"
  by (auto simp: anchor_def Let_def split: if_splits)

lemma add_heading_ok: "blocks_ok p \<Longrightarrow> 1 \<le> level \<Longrightarrow> level \<le> 3 \<Longrightarrow> blocks_ok (add_heading level text p)"
  by (auto simp: blocks_ok_def add_heading_def Let_def intro!: tags_heading dest: anchor_ok split: option.splits)

lemma rule_ok: "only_allowed_tags (cp ''<hr>'')"
  by (intro tags_fixed named_tags) (simp add: tag_names_def)

lemma render_line_ok:
  assumes "blocks_ok p"
  shows "blocks_ok (render_line p raw)"
proof (cases "heading (strip raw)")
  case None
  then show ?thesis using assms flush_ok [OF assms] rule_ok
    by (auto simp: render_line_def Let_def blocks_ok_def simp del: cp_Cons split: option.splits)
next
  case (Some h)
  obtain level shown where h: "h = (level, shown)" by fastforce
  with Some add_heading_ok [OF flush_ok(2) [OF assms]] heading_level [of "strip raw" level shown] flush_ok(2) [OF assms]
  show ?thesis by (auto simp: render_line_def Let_def)
qed

lemma render_blocks_ok: "\<forall>b \<in> set (fst (render_blocks body)). only_allowed_tags b"
proof -
  have "blocks_ok (fold (\<lambda>raw p. render_line p raw) raws p)" if "blocks_ok p" for raws p
    using that by (induction raws arbitrary: p) (auto intro: render_line_ok)
  from flush_ok(2) [OF this, of "\<lparr>lp_blocks = [], lp_paragraph = [], lp_items = [], lp_title = None\<rparr>" "splitlines body"]
  show ?thesis by (simp add: render_blocks_def Let_def blocks_ok_def)
qed

text \<open>
  C39: text an administrator types never becomes markup. Whatever the document holds, every \<open><\<close> of the public page begins
  one of the page's own tags, and the only variable part of a tag is a heading's anchor of letters, digits, \<open>_\<close> and \<open>-\<close>.
\<close>

theorem legal_page_no_injection: "only_allowed_tags (render_legal_page body)"
proof -
  obtain blocks title where blocks: "render_blocks body = (blocks, title)" by fastforce
  have body: "only_allowed_tags (concat blocks)"
    using render_blocks_ok [of body] tags_concat [of blocks "\<lambda>b. b"] by (simp add: blocks)
  have style: "only_allowed_tags STYLE" by (rule tags_none) (simp add: STYLE_def)
  have own: "only_allowed_tags HTML_TAG" "only_allowed_tags CHARSET_TAG" "only_allowed_tags VIEWPORT_TAG"
    by (rule tags_fixed, simp add: fixed_tags_def)+
  have plain: "t \<in> set tag_names \<Longrightarrow> only_allowed_tags (cp t)" for t by (intro tags_fixed named_tags)
  have escapes: "only_allowed_tags (html_escape t)" for t by (rule tags_none) simp
  show ?thesis
    unfolding render_legal_page_def blocks Let_def prod.case
    by (intro tags_append body style own escapes plain) (simp_all add: tag_names_def)
qed

section \<open>Editing accepted terms\<close>

lemma select_one_update_other:
  "(\<And>r. r \<in> set rows \<Longrightarrow> q r \<Longrightarrow> \<not> p r \<and> \<not> p (f r)) \<Longrightarrow> select_one p (update_where q f rows) = select_one p rows"
  by (induction rows) auto

text \<open>While a player stands by a version, no edit touches it.\<close>

lemma accepted_terms_frozen:
  assumes "u \<in> set (users s)" "u_terms_version u = Some v"
    and "save_legal_document stored version body now s = (r, t)"
  shows "get_legal_document s v \<noteq> None \<Longrightarrow> get_legal_document t v = get_legal_document s v"
proof -
  assume found: "get_legal_document s v \<noteq> None"
  have pos: "0 < count_where (\<lambda>u. u_terms_version u = Some v) (users s)"
    using assms(1,2) by (auto simp: count_where_pos_iff)
  show "get_legal_document t v = get_legal_document s v"
  proof (cases "stored = Some v")
    case True
    with pos assms(3) show ?thesis by (auto simp: save_legal_document_def legal_on_model_change_def split: if_splits)
  next
    case False
    have other: "select_one (\<lambda>d. ld_version d = v) (update_where (\<lambda>d. ld_version d = w)
        (\<lambda>d. d\<lparr>ld_version := version, ld_body := body, ld_updated_at := now\<rparr>) (legal_documents s))
        = select_one (\<lambda>d. ld_version d = v) (legal_documents s)" if "w \<noteq> v" "version \<noteq> v" for w
      by (rule select_one_update_other) (use that in auto)
    show ?thesis
    proof (cases "version = v")
      case True
      with False assms(3) found show ?thesis
        by (auto simp: save_legal_document_def get_legal_document_def split: sum.splits option.splits if_splits)
    next
      case differs: False
      from assms(3) False found differs other show ?thesis
        by (cases stored) (auto simp: save_legal_document_def get_legal_document_def select_one_append split: sum.splits option.splits if_splits)
    qed
  qed
qed

definition terms_tables :: database where
  "terms_tables = one_user\<lparr>legal_documents :=
     [\<lparr>ld_version = ''v1'', ld_body = cp ''old'', ld_created_at = 0, ld_updated_at = 0\<rparr>,
      \<lparr>ld_version = ''v2'', ld_body = cp ''new'', ld_created_at = 0, ld_updated_at = 0\<rparr>]\<rparr>"

definition moved_on :: database where
  "moved_on = snd (profile_update ascii_unicode ''v2'' True 1 None (Some ''v2'') None None None 5 terms_tables)"

text \<open>
  Superseded terms can be rewritten. The only player accepted \<open>v1\<close>, and the form refuses to change it; once she has
  accepted \<open>v2\<close> the same edit of \<open>v1\<close> goes through, and the page of the version she had agreed to shows another
  text, because a row of \<open>users\<close> remembers only the last version accepted.
\<close>

theorem superseded_terms_editable:
  "map u_terms_version (users terms_tables) = [Some ''v1'']
   \<and> fst (save_legal_document (Some ''v1'') ''v1'' (cp ''other'') 6 terms_tables) = Inl (ValueError ''accepted'')
   \<and> map u_terms_version (users moved_on) = [Some ''v2'']
   \<and> map_option ld_body (get_legal_document moved_on ''v1'') = Some (cp ''old'')
   \<and> fst (save_legal_document (Some ''v1'') ''v1'' (cp ''other'') 6 moved_on) = Inr ()
   \<and> map_option ld_body (get_legal_document (snd (save_legal_document (Some ''v1'') ''v1'' (cp ''other'') 6 moved_on)) ''v1'') = Some (cp ''other'')"
proof -
  have row: "user_row terms_tables 1 = Some adult_user"
    by (simp add: user_row_def terms_tables_def one_user_def adult_user_def)
  have after: "users moved_on = [adult_user\<lparr>u_terms_version := Some ''v2'', u_terms_accepted_at := Some 5, u_updated_at := 5\<rparr>]"
    "legal_documents moved_on = legal_documents terms_tables"
    by (simp_all add: moved_on_def profile_update_def act_bind_def act_defs update_profile_def change_allowed_def update_user_def
        apply_change_def row terms_tables_def one_user_def adult_user_def keep_def get_by_id_def user_row_def)
  show ?thesis
    by (simp add: after) (simp add: terms_tables_def one_user_def adult_user_def save_legal_document_def legal_on_model_change_def
        legal_version_ok_def legal_path_ok_def version_char_def ascii_alnum_def get_legal_document_def after)
qed

end
