(* ===== verification/Media.thy ===== *)
theory Media
  imports Gateway
begin

text \<open>
  Images an administrator uploads: \<open>app/domain/media.py\<close>, \<open>app/application/media.py\<close>, the repository
  \<open>PostgreSQLMediaAssets\<close>, the route of \<open>app/api/media.py\<close> and the form \<open>MediaUploadView._submit\<close>. The hexadecimal SHA-256 of
  the content is an argument.
\<close>

section \<open>What is accepted\<close>

type_synonym content = "8 word list"

definition MAX_BYTES :: nat where
  "MAX_BYTES = 512 * 1024"

datatype MediaRefusal = MEDIA_EMPTY | MEDIA_TOO_LARGE | UNSUPPORTED_TYPE

fun extension_for :: "MediaContentType \<Rightarrow> string" where
  "extension_for PNG = ''png''"
| "extension_for JPEG = ''jpg''"
| "extension_for WEBP = ''webp''"

definition sniff_content_type :: "content \<Rightarrow> MediaRefusal + MediaContentType" where
  "sniff_content_type content =
     (if starts_with [0x89, 0x50, 0x4E, 0x47, 0x0D, 0x0A, 0x1A, 0x0A] content then Inr PNG
      else if starts_with [0xFF, 0xD8, 0xFF] content then Inr JPEG
      else if 12 \<le> length content \<and> take 4 content = [0x52, 0x49, 0x46, 0x46] \<and> take 4 (drop 8 content) = [0x57, 0x45, 0x42, 0x50] then Inr WEBP
      else Inl UNSUPPORTED_TYPE)"

definition validate_upload :: "content \<Rightarrow> MediaRefusal + MediaContentType" where
  "validate_upload content =
     (if content = [] then Inl MEDIA_EMPTY
      else if MAX_BYTES < length content then Inl MEDIA_TOO_LARGE
      else sniff_content_type content)"

section \<open>The table\<close>

record NewMediaAsset =
  nm_sha256 :: string
  nm_content_type :: MediaContentType
  nm_bytes :: content
  nm_created_by_user_id :: "uuid option"

definition asset_model :: "NewMediaAsset \<Rightarrow> instant \<Rightarrow> MediaAssetModel" where
  "asset_model a now = \<lparr>ma_sha256 = nm_sha256 a, ma_content_type = nm_content_type a, ma_bytes = nm_bytes a,
     ma_byte_size = int (length (nm_bytes a)), ma_created_at = now, ma_created_by_user_id = nm_created_by_user_id a\<rparr>"

definition media_row :: "database \<Rightarrow> string \<Rightarrow> MediaAssetModel option" where
  "media_row s sha256 = select_one (\<lambda>m. ma_sha256 m = sha256) (media_assets s)"

text \<open>
  The insert fails on a known digest, and on an uploader without a row; then the stored row answers,
  or the error goes on.
\<close>

definition put_if_absent :: "NewMediaAsset \<Rightarrow> instant \<Rightarrow> ('e, MediaAssetModel) act" where
  "put_if_absent a now s =
     (if media_row s (nm_sha256 a) = None
         \<and> (case nm_created_by_user_id a of None \<Rightarrow> True | Some u \<Rightarrow> user_exists s u)
      then (Inr (asset_model a now), s\<lparr>media_assets := media_assets s @ [asset_model a now]\<rparr>)
      else
        (case media_row s (nm_sha256 a) of
           None \<Rightarrow> (Inl (Crash (IntegrityError ''media_assets'')), s)
         | Some existing \<Rightarrow> (Inr existing, s)))"

definition media_get :: "database \<Rightarrow> string \<Rightarrow> (MediaContentType \<times> content) option" where
  "media_get s sha256 = map_option (\<lambda>m. (ma_content_type m, ma_bytes m)) (media_row s sha256)"

section \<open>The service, the form and the route\<close>

definition media_upload :: "(content \<Rightarrow> string) \<Rightarrow> content \<Rightarrow> uuid option \<Rightarrow> instant \<Rightarrow> (MediaRefusal, MediaAssetModel) act" where
  "media_upload sha content created_by_user_id now =
     (case validate_upload content of
        Inl e \<Rightarrow> act_raise e
      | Inr content_type \<Rightarrow> put_if_absent \<lparr>nm_sha256 = sha content, nm_content_type = content_type, nm_bytes = content,
          nm_created_by_user_id = created_by_user_id\<rparr> now)"

definition media_url :: "MediaAssetModel \<Rightarrow> string" where
  "media_url m = ''/media/'' @ ma_sha256 m @ ''.'' @ extension_for (ma_content_type m)"

datatype upload_outcome = Upload_Error string | Upload_Url string

fun MEDIA_ERROR_MESSAGES :: "MediaRefusal \<Rightarrow> string" where
  "MEDIA_ERROR_MESSAGES MEDIA_EMPTY = ''Choose a file to upload.''"
| "MEDIA_ERROR_MESSAGES MEDIA_TOO_LARGE = ''That file is larger than 512 KB.''"
| "MEDIA_ERROR_MESSAGES UNSUPPORTED_TYPE = ''Only PNG, JPEG or WebP images are accepted (not SVG, not any other file).''"

text \<open>\<open>upload\<close> is the file field: its name and content, when it is a file.\<close>

definition submit_media ::
  "(content \<Rightarrow> string) \<Rightarrow> uuid option \<Rightarrow> (pystr \<times> content) option \<Rightarrow> instant \<Rightarrow> database \<Rightarrow> (py_error + upload_outcome) \<times> database" where
  "submit_media sha admin_id upload now s =
     (case upload of
        None \<Rightarrow> (Inr (Upload_Error ''Choose a file to upload.''), s)
      | Some (filename, content) \<Rightarrow>
          if filename = [] then (Inr (Upload_Error ''Choose a file to upload.''), s)
          else
            (case media_upload sha content admin_id now s of
               (Inl (Raised e), t) \<Rightarrow> (Inr (Upload_Error (MEDIA_ERROR_MESSAGES e)), t)
             | (Inl (Crash e), t) \<Rightarrow> (Inl e, t)
             | (Inr m, t) \<Rightarrow> (Inr (Upload_Url (media_url m)), t)))"

text \<open>The path patterns; what does not match never reaches the route.\<close>

definition media_path_ok :: "string \<Rightarrow> string \<Rightarrow> bool" where
  "media_path_ok sha256 extension \<longleftrightarrow> length sha256 = 64
     \<and> list_all (\<lambda>c. let n = (of_char c :: nat) in 48 \<le> n \<and> n \<le> 57 \<or> 97 \<le> n \<and> n \<le> 102) sha256
     \<and> extension \<in> {''png'', ''jpg'', ''webp''}"

fun media_type_value :: "MediaContentType \<Rightarrow> string" where
  "media_type_value PNG = ''image/png''"
| "media_type_value JPEG = ''image/jpeg''"
| "media_type_value WEBP = ''image/webp''"

text \<open>\<open>None\<close> is the bare 404.\<close>

definition get_media :: "string \<Rightarrow> string \<Rightarrow> database \<Rightarrow> content option response" where
  "get_media sha256 extension s =
     (case media_get s sha256 of
        None \<Rightarrow> \<lparr>rs_status = 404, rs_headers = [], rs_body = Content None\<rparr>
      | Some (content_type, content) \<Rightarrow>
          if extension_for content_type \<noteq> extension then \<lparr>rs_status = 404, rs_headers = [], rs_body = Content None\<rparr>
          else \<lparr>rs_status = 200,
            rs_headers = [(cp ''content-type'', cp (media_type_value content_type)),
              (cp ''cache-control'', cp ''public, max-age=31536000, immutable''),
              (cp ''etag'', [34] @ cp sha256 @ [34]), (cp ''x-content-type-options'', cp ''nosniff'')],
            rs_body = Content (Some content)\<rparr>)"

section \<open>What is served is what was uploaded\<close>

text \<open>Every stored row was accepted, under its own digest and with its own type.\<close>

definition media_ok :: "(content \<Rightarrow> string) \<Rightarrow> database \<Rightarrow> bool" where
  "media_ok sha s \<longleftrightarrow> distinct (map ma_sha256 (media_assets s))
     \<and> (\<forall>m \<in> set (media_assets s). ma_sha256 m = sha (ma_bytes m) \<and> validate_upload (ma_bytes m) = Inr (ma_content_type m)
          \<and> ma_byte_size m = int (length (ma_bytes m)))"

lemma media_row_Some: "media_row s i = Some m \<Longrightarrow> m \<in> set (media_assets s) \<and> ma_sha256 m = i"
  unfolding media_row_def by (rule select_one_Some)

lemma media_row_insert:
  "media_row (s\<lparr>media_assets := media_assets s @ [m]\<rparr>) i
     = (case media_row s i of None \<Rightarrow> if ma_sha256 m = i then Some m else None | Some x \<Rightarrow> Some x)"
  by (simp add: media_row_def select_one_append split: option.split)

lemma media_upload_cases:
  assumes "media_upload sha content who now s = (r, t)"
  obtains (refused) e where "r = Inl (Raised e)" "t = s" "validate_upload content = Inl e"
  | (stored) m where "validate_upload content = Inr (ma_content_type m)" "r = Inr m" "media_row s (sha content) = None"
      "t = s\<lparr>media_assets := media_assets s @ [m]\<rparr>" "ma_sha256 m = sha content" "ma_bytes m = content"
      "ma_byte_size m = int (length content)"
  | (known) m where "r = Inr m" "t = s" "media_row s (sha content) = Some m"
  | (crashed) e where "r = Inl (Crash e)" "t = s" "media_row s (sha content) = None"
proof (cases "validate_upload content")
  case (Inl e)
  with assms refused [of e] show ?thesis by (simp add: media_upload_def act_defs)
next
  case (Inr content_type)
  let ?a = "\<lparr>nm_sha256 = sha content, nm_content_type = content_type, nm_bytes = content, nm_created_by_user_id = who\<rparr>"
  from assms Inr have put: "put_if_absent ?a now s = (r, t)" by (simp add: media_upload_def)
  show ?thesis
  proof (cases "media_row s (sha content)")
    case (Some m)
    with put known [of m] show ?thesis by (simp add: put_if_absent_def)
  next
    case None
    with put Inr stored [of "asset_model ?a now"] crashed [of "IntegrityError ''media_assets''"] show ?thesis
      by (simp add: put_if_absent_def asset_model_def split: if_splits)
  qed
qed

lemma media_upload_ok:
  assumes "media_ok sha s" "media_upload sha content who now s = (r, t)"
  shows "media_ok sha t"
  using assms(2)
proof (cases rule: media_upload_cases)
  case (stored m)
  have "sha content \<notin> ma_sha256 ` set (media_assets s)"
    using stored(3) by (auto simp: media_row_def select_one_None_iff)
  with stored assms(1) show ?thesis by (auto simp: media_ok_def)
qed (use assms(1) in auto)

text \<open>One upload after another, by anybody, of anything.\<close>

inductive uploads :: "(content \<Rightarrow> string) \<Rightarrow> database \<Rightarrow> database \<Rightarrow> bool" for sha where
  none: "uploads sha s s"
| more: "uploads sha s t \<Longrightarrow> media_upload sha content who now t = (r, u) \<Longrightarrow> uploads sha s u"

lemma uploads_keep:
  assumes "uploads sha s t"
  shows "(media_ok sha s \<longrightarrow> media_ok sha t) \<and> (\<forall>m. media_row s i = Some m \<longrightarrow> media_row t i = Some m)"
  using assms
proof induction
  case (more s t content who now r u)
  from more(2) have "media_row u i = Some m" if "media_row t i = Some m" for m
    by (cases rule: media_upload_cases) (use that in \<open>auto simp: media_row_insert\<close>)
  with more.IH media_upload_ok [OF _ more(2)] show ?case by blast
qed simp


definition tiny_jpeg :: content where
  "tiny_jpeg = [0xFF, 0xD8, 0xFF, 0]"

definition length_digest :: "content \<Rightarrow> string" where
  "length_digest content = map (\<lambda>b. char_of (unat b)) content"


end
