(* ===== verification/Api.thy ===== *)
theory Api
  imports Schemas Legal Media Batches Sign_In
begin

text \<open>
  The HTTP API: the routes of \<open>app/api/v1/\<close>, \<open>app/api/routes.py\<close>, \<open>legal.py\<close> and \<open>media.py\<close> over the services, with the gates
  of \<open>app/api/deps.py\<close>. FastAPI's part, which turns a request into a call of a route and resolves the gate before the
  body is checked, is the datatype of calls and the order in \<open>serve\<close>; the texts of pydantic's field errors and the text
  form of a page cursor are arguments. Each clock a request reads is an input of its own.
\<close>

section \<open>Settings, inputs and state\<close>

record outside =
  ex_unicode :: unicode
  ex_sha :: sha256_hex
  ex_hmac :: hmac_hex
  ex_rank :: "string \<Rightarrow> int"
  ex_name_rank :: "pystr \<Rightarrow> int"

record api_settings =
  as_authentication :: authentication_settings
  as_redemption :: redemption_settings
  as_registry :: registry
  as_mini_games :: mini_game_settings
  as_config :: app_config_settings
  as_team_lock :: int
  as_session_cookie_name :: string
  as_session_ttl_seconds :: int
  as_secure_cookies :: bool
  as_cookie_samesite :: string
  as_pepper_fingerprint :: "string option"

text \<open>What a request brings and draws: the session cookie, the clocks, fresh ids and random choices.\<close>

record visit =
  vs_token :: "pystr option"
  vs_gate_time :: instant
  vs_time :: instant
  vs_name_time :: instant
  vs_bind_time :: instant
  vs_settle_time :: instant
  vs_monotonic :: int
  vs_new_id :: uuid
  vs_session_id :: uuid
  vs_session_token :: pystr
  vs_draw :: challenge_draw
  vs_sms_delivered :: bool
  vs_random :: random
  vs_candidate :: "nat \<Rightarrow> string"
  vs_top_scan :: scan
  vs_me_scan :: scan
  vs_database_up :: bool
  vs_field_errors :: "FieldError list"

record api_state =
  st_tables :: database
  st_boards :: board_cache

record cookie =
  ck_name :: string
  ck_value :: pystr
  ck_max_age :: int
  ck_httponly :: bool
  ck_secure :: bool
  ck_samesite :: string

datatype api_call =
    Auth_Request pystr
  | Auth_Verify pystr pystr
  | Auth_Logout
  | Get_Me
  | Patch_Me UserUpdate
  | Get_Referrals
  | Get_Passports
  | Get_Stats
  | Get_Config
  | Redeem_Code pystr
  | Get_Wallet
  | Get_Avatars
  | Get_Team
  | Change_Team string
  | Get_Challenges
  | Claim_Challenge string
  | Start_Run MiniGameId
  | Finish_Run uuid "int list"
  | Get_Achievements
  | Get_My_Achievements
  | Get_Leaderboard MiniGameId LeaderboardPeriod
  | Admin_Users int "(unit + UserCursor) option"
  | Get_Ready
  | Get_Legal string
  | Get_Media string string

datatype payload =
    P_Requested AuthenticationRequested
  | P_Verified UserResponse cookie
  | P_Logged_Out cookie
  | P_User UserResponse
  | P_Referrals ReferralStatusResponse
  | P_Passports "PassportProgressResponse list"
  | P_Stats UserStats
  | P_Config ConfigResponse
  | P_Redemption RedemptionResponse
  | P_Wallet WalletResponse
  | P_Avatars "Avatar list"
  | P_Team TeamStatusResponse
  | P_Challenges "ChallengeResponse list"
  | P_Claim ChallengeClaimResponse
  | P_Run_Started MiniGameRunStartResponse
  | P_Run_Finished MiniGameRunFinishResponse
  | P_Achievements "AchievementProgress list"
  | P_My_Achievements "UnlockedAchievement list"
  | P_Leaderboard LeaderboardResponse
  | P_Users UserPageResponse
  | P_Ready
  | P_Page pystr
  | P_Media "content option response"

section \<open>Errors of the services as errors of the API\<close>

definition api_error :: "int \<Rightarrow> string \<Rightarrow> string \<Rightarrow> http_error" where
  "api_error status_code code message = Api_Error \<lparr>ae_status_code = status_code, ae_code = code, ae_message = message,
     ae_retry_after_seconds = None, ae_details = None\<rparr>"

definition retry_error :: "int \<Rightarrow> string \<Rightarrow> string \<Rightarrow> int option \<Rightarrow> http_error" where
  "retry_error status_code code message retry_after = Api_Error \<lparr>ae_status_code = status_code, ae_code = code,
     ae_message = message, ae_retry_after_seconds = retry_after, ae_details = None\<rparr>"

definition detail_error :: "int \<Rightarrow> string \<Rightarrow> string \<Rightarrow> (string \<times> detail_value) list \<Rightarrow> http_error" where
  "detail_error status_code code message details = Api_Error \<lparr>ae_status_code = status_code, ae_code = code,
     ae_message = message, ae_retry_after_seconds = None, ae_details = Some details\<rparr>"

text \<open>\<open>POST /auth/request\<close>, in the order of the \<open>except\<close> clauses.\<close>

fun request_api_error :: "AuthError \<Rightarrow> http_error" where
  "request_api_error PHONE_INVALID = api_error 422 ''PHONE_INVALID'' ''not an Iranian mobile number''"
| "request_api_error (RESEND_COOLDOWN n) = retry_error 429 ''OTP_COOLDOWN'' ''a code was already sent recently'' (Some n)"
| "request_api_error DAILY_LIMIT = api_error 429 ''OTP_DAILY_LIMIT'' ''too many codes requested for this number today''"
| "request_api_error PHONE_NOT_ALLOWED =
     api_error 403 ''PHONE_NOT_ALLOWED'' ''this test server sends codes only to team numbers; use a test number''"
| "request_api_error PHONE_UNUSUAL = api_error 422 ''PHONE_UNUSUAL''
     ''this number's prefix is not a known Iranian mobile range; double-check it before trying again''"
| "request_api_error _ = api_error 503 ''SERVICE_UNAVAILABLE'' ''could not send the verification code''"

fun redemption_api_error :: "RedemptionError \<Rightarrow> http_error" where
  "redemption_api_error REDEMPTION_NOT_CONFIGURED =
     retry_error 503 ''REDEMPTION_NOT_CONFIGURED'' ''Code redemption is temporarily unavailable.'' None"
| "redemption_api_error CODE_MALFORMED = retry_error 400 ''CODE_MALFORMED'' ''This is not a product code.'' None"
| "redemption_api_error CODE_MISTYPED =
     retry_error 400 ''CODE_MISTYPED'' ''One character looks mistyped; check the code on the package.'' None"
| "redemption_api_error CODE_INVALID = retry_error 404 ''CODE_INVALID'' ''This code is not valid.'' None"
| "redemption_api_error CODE_ALREADY_REDEEMED =
     retry_error 409 ''CODE_ALREADY_REDEEMED'' ''This code has already been used by another account.'' None"
| "redemption_api_error (REDEMPTION_DAILY_LIMIT n) =
     retry_error 429 ''REDEMPTION_DAILY_LIMIT'' ''Daily redemption limit reached; try again tomorrow.'' (Some n)"
| "redemption_api_error (CODE_ATTEMPTS_LIMITED n) =
     retry_error 429 ''CODE_ATTEMPTS_LIMITED'' ''Too many failed attempts; try again later.'' (Some n)"

fun nickname_reason :: "NicknameError \<Rightarrow> string" where
  "nickname_reason BadNicknameLength = ''must be '' @ map char_of (show_nat NICKNAME_MIN_LENGTH) @ ''-''
     @ map char_of (show_nat NICKNAME_MAX_LENGTH) @ '' characters''"
| "nickname_reason BadNicknameChars = ''may only contain letters, digits, '' @ [CHR 0x27] @ ''_'' @ [CHR 0x27] @ '', ''
     @ [CHR 0x27] @ ''.'' @ [CHR 0x27] @ '', '' @ [CHR 0x27] @ ''-'' @ [CHR 0x27] @ '' and Persian letters''"
| "nickname_reason MisplacedZWNJ = ''misplaced zero-width non-joiner''"
| "nickname_reason ReservedNickname = ''this name is reserved''"

text \<open>An account that has gone meanwhile is an exception the route does not name.\<close>

fun profile_api_error :: "ProfileError \<Rightarrow> http_error" where
  "profile_api_error (ProfileNickname e) = api_error 422 ''NICKNAME_INVALID'' (''nickname '' @ nickname_reason e)"
| "profile_api_error (NicknameTaken n) = api_error 409 ''NICKNAME_TAKEN'' ''nickname is already taken''"
| "profile_api_error (TermsVersionMismatch v) = api_error 422 ''TERMS_VERSION_INVALID'' ''terms version is not current''"
| "profile_api_error (VenueUnknown v) = api_error 422 ''CATALOGUE_UNKNOWN'' ''unknown catalogue item''"
| "profile_api_error (LocationCityUnknown c) = api_error 422 ''CATALOGUE_UNKNOWN'' ''unknown catalogue item''"
| "profile_api_error (AvatarUnknown a) = api_error 422 ''CATALOGUE_UNKNOWN'' ''unknown catalogue item''"
| "profile_api_error (AvatarLocked a) = api_error 422 ''AVATAR_LOCKED'' ''this avatar is locked''"
| "profile_api_error ProfileAuthenticationRequired = Unhandled (RuntimeError ''AuthenticationError'')"

definition display_name_api_error :: "AuthError \<Rightarrow> http_error" where
  "display_name_api_error e =
     (if e = DISPLAY_NAME_RESERVED then api_error 422 ''DISPLAY_NAME_RESERVED'' ''this name is reserved''
      else Unhandled (RuntimeError ''AuthenticationError''))"

fun referral_bind_api_error :: "ReferralBindRefusal \<Rightarrow> http_error" where
  "referral_bind_api_error CODE_UNKNOWN = api_error 422 ''REFERRAL_CODE_UNKNOWN'' ''unknown referral code''"
| "referral_bind_api_error REFER_SELF = api_error 422 ''REFERRAL_SELF'' ''cannot refer yourself''"
| "referral_bind_api_error TOO_LATE =
     api_error 422 ''REFERRAL_CODE_TOO_LATE'' ''can only bind a referrer before redeeming any code''"
| "referral_bind_api_error ALREADY_BOUND = api_error 409 ''REFERRAL_ALREADY_BOUND'' ''a referrer is already bound''"

fun team_api_error :: "TeamChangeError \<Rightarrow> http_error" where
  "team_api_error SAME_TEAM = api_error 422 ''TEAM_SAME'' ''already on this team''"
| "team_api_error (FLAVOR_NOT_UNLOCKED required have) = detail_error 409 ''FLAVOR_NOT_UNLOCKED'' ''this flavor is not unlocked yet''
     [(''required'', Detail_Int required), (''have'', Detail_Int have)]"
| "team_api_error (TEAM_LOCKED allowed_at) = detail_error 409 ''TEAM_LOCKED'' ''team switching is locked for now''
     [(''switch_allowed_at'', Detail_Instant (Some allowed_at))]"

fun claim_api_error :: "ChallengeClaimError \<Rightarrow> http_error" where
  "claim_api_error CHALLENGE_UNKNOWN = api_error 404 ''NOT_FOUND'' ''unknown or inactive challenge''"
| "claim_api_error ALREADY_CLAIMED = api_error 409 ''CHALLENGE_ALREADY_CLAIMED'' ''already claimed this period''"
| "claim_api_error (NOT_UNLOCKED required have) = detail_error 409 ''CHALLENGE_NOT_UNLOCKED'' ''this challenge is not complete yet''
     [(''required'', Detail_Int required), (''have'', Detail_Int have)]"

text \<open>A run of somebody else reads as an unknown one.\<close>

fun finish_api_error :: "MiniGameRunRefusal \<Rightarrow> http_error" where
  "finish_api_error NOT_FOUND = api_error 404 ''NOT_FOUND'' ''unknown run''"
| "finish_api_error NOT_OWNER = api_error 404 ''NOT_FOUND'' ''unknown run''"
| "finish_api_error ALREADY_FINISHED = api_error 409 ''MINI_GAME_RUN_ALREADY_FINISHED'' ''run already finished''"
| "finish_api_error RUN_EXPIRED = api_error 409 ''MINI_GAME_RUN_EXPIRED'' ''run expired before finishing''"
| "finish_api_error ROUND_COUNT_MISMATCH =
     api_error 422 ''MINI_GAME_ROUND_COUNT_MISMATCH'' ''reactions_ms must have one entry per issued round''"

section \<open>Handlers\<close>

text \<open>
  A handler answers, or raises, and leaves the tables as far as its services committed them: each service call is a
  transaction of its own.
\<close>

type_synonym 'a handler = "database \<Rightarrow> (http_error + 'a) \<times> database"

definition answer :: "'a \<Rightarrow> 'a handler" where
  "answer a s = (Inr a, s)"

definition reject :: "http_error \<Rightarrow> 'a handler" where
  "reject e s = (Inl e, s)"

definition and_then :: "'a handler \<Rightarrow> ('a \<Rightarrow> 'b handler) \<Rightarrow> 'b handler" where
  "and_then h f s = (case h s of (Inl e, t) \<Rightarrow> (Inl e, t) | (Inr a, t) \<Rightarrow> f a t)"

definition catching :: "('e \<Rightarrow> http_error) \<Rightarrow> ('e, 'a) act \<Rightarrow> 'a handler" where
  "catching as_http m s =
     (case m s of
        (Inl (Raised e), t) \<Rightarrow> (Inl (as_http e), t)
      | (Inl (Crash c), t) \<Rightarrow> (Inl (Unhandled c), t)
      | (Inr a, t) \<Rightarrow> (Inr a, t))"

definition uncaught :: "(database \<Rightarrow> (py_error + 'a) \<times> database) \<Rightarrow> 'a handler" where
  "uncaught m s = (case m s of (Inl c, t) \<Rightarrow> (Inl (Unhandled c), t) | (Inr a, t) \<Rightarrow> (Inr a, t))"

definition asking :: "(database \<Rightarrow> 'a) \<Rightarrow> 'a handler" where
  "asking q s = (Inr (q s), s)"

definition asking_or_crash :: "(database \<Rightarrow> py_error + 'a) \<Rightarrow> 'a handler" where
  "asking_or_crash q = uncaught (\<lambda>s. (q s, s))"

text \<open>What pydantic refuses is a validation error; its texts are an argument.\<close>

definition validated :: "visit \<Rightarrow> bool \<Rightarrow> 'a handler \<Rightarrow> 'a handler" where
  "validated v ok h = (if ok then h else reject (Validation_Error (vs_field_errors v)))"

section \<open>Gates\<close>

definition AUTH_REQUIRED_ERROR :: http_error where
  "AUTH_REQUIRED_ERROR = api_error 401 ''AUTH_REQUIRED'' ''authentication required''"

definition current_user_gate :: "outside \<Rightarrow> visit \<Rightarrow> User handler" where
  "current_user_gate x v = catching (\<lambda>_. AUTH_REQUIRED_ERROR) (get_current_user (ex_sha x) (vs_token v) (vs_gate_time v))"

definition require_complete_profile :: "bool \<Rightarrow> User \<Rightarrow> User handler" where
  "require_complete_profile terms_required u =
     (if terms_required \<and> user_terms_accepted_at u = None then
        reject (api_error 403 ''TERMS_NOT_ACCEPTED'' ''accept the current terms first (PATCH /me accept_terms_version)'')
      else if user_nickname u = None then
        reject (api_error 403 ''PROFILE_INCOMPLETE'' ''set a nickname first (PATCH /me nickname)'')
      else answer u)"

definition require_admin :: "User \<Rightarrow> User handler" where
  "require_admin u = (if user_role u \<noteq> ADMIN then reject (api_error 403 ''ADMIN_REQUIRED'' ''admin role required'') else answer u)"

section \<open>\<open>auth.py\<close>\<close>

definition request_authentication :: "outside \<Rightarrow> api_settings \<Rightarrow> visit \<Rightarrow> pystr \<Rightarrow> payload handler" where
  "request_authentication x cfg v given =
     and_then (catching request_api_error
         (request_challenge (ex_sha x) (as_authentication cfg) (vs_sms_delivered v) (vs_draw v) given (vs_time v))) (\<lambda>r.
     answer (P_Requested (authentication_requested r)))"

definition session_cookie_of :: "api_settings \<Rightarrow> pystr \<Rightarrow> int \<Rightarrow> cookie" where
  "session_cookie_of cfg token max_age = \<lparr>ck_name = as_session_cookie_name cfg, ck_value = token, ck_max_age = max_age,
     ck_httponly = True, ck_secure = as_secure_cookies cfg, ck_samesite = as_cookie_samesite cfg\<rparr>"

definition verify_authentication :: "outside \<Rightarrow> api_settings \<Rightarrow> visit \<Rightarrow> pystr \<Rightarrow> pystr \<Rightarrow> payload handler" where
  "verify_authentication x cfg v given code =
     and_then (catching (\<lambda>_. api_error 401 ''OTP_INVALID'' ''wrong, expired or already-used code, or too many attempts'')
         (verify_challenge (ex_sha x) (as_authentication cfg) (vs_session_id v) (vs_session_token v) given code (vs_time v))) (\<lambda>r.
     answer (P_Verified (user_response (vr_user r) (ac_terms_required (as_config cfg)) None None None)
       (session_cookie_of cfg (vr_session_token r) (as_session_ttl_seconds cfg))))"

text \<open>\<open>delete_cookie\<close> sends an empty value that expires at once.\<close>

definition logout_route :: "outside \<Rightarrow> api_settings \<Rightarrow> visit \<Rightarrow> payload handler" where
  "logout_route x cfg v =
     and_then (catching (\<lambda>_. Unhandled (RuntimeError ''AuthenticationError'')) (logout (ex_sha x) (vs_token v) (vs_time v))) (\<lambda>_.
     answer (P_Logged_Out (session_cookie_of cfg [] 0)))"

section \<open>\<open>users.py\<close>\<close>

definition me_response :: "api_settings \<Rightarrow> visit \<Rightarrow> User \<Rightarrow> payload handler" where
  "me_response cfg v u =
     and_then (catching (\<lambda>_ :: unit. Unhandled AssertionError)
         (settle (ac_terms_required (as_config cfg)) (user_id u) (vs_settle_time v))) (\<lambda>_.
     and_then (asking (\<lambda>s. me_extras s (user_id u))) (\<lambda>extras.
     and_then (uncaught (ensure_referral_code (user_id u) (vs_candidate v))) (\<lambda>code.
     answer (P_User (user_response u (ac_terms_required (as_config cfg)) (map_option campaign_slug (mx_team extras))
       (map_option campaign_slug (mx_last_scanned_flavor extras)) (Some code))))))"

fun was_sent :: "'a sent \<Rightarrow> bool" where
  "was_sent Not_Sent = False"
| "was_sent (Sent v) = True"

definition profile_sent :: "UserUpdate \<Rightarrow> bool" where
  "profile_sent p \<longleftrightarrow> was_sent (up_nickname p) \<or> was_sent (up_accept_terms_version p) \<or> was_sent (up_home_venue_id p)
     \<or> was_sent (up_location_city p) \<or> was_sent (up_avatar_id p)"

definition update_me :: "outside \<Rightarrow> api_settings \<Rightarrow> visit \<Rightarrow> UserUpdate \<Rightarrow> User \<Rightarrow> payload handler" where
  "update_me x cfg v p current =
     and_then (if profile_sent p then catching profile_api_error
           (profile_update (ex_unicode x) (ac_terms_version (as_config cfg)) True (user_id current) (sent_value (up_nickname p))
             (sent_value (up_accept_terms_version p)) (sent_value (up_home_venue_id p)) (sent_value (up_location_city p))
             (sent_value (up_avatar_id p)) (vs_time v))
         else answer current) (\<lambda>u.
     and_then (if was_sent (up_display_name p) then catching display_name_api_error
           (update_display_name (ex_unicode x) (user_id current) (sent_value (up_display_name p)) (vs_name_time v))
         else answer u) (\<lambda>u.
     and_then (case sent_value (up_referrer_code p) of
           Some code \<Rightarrow> catching referral_bind_api_error (bind_referral (user_id current) code (vs_bind_time v))
         | None \<Rightarrow> answer ()) (\<lambda>_.
     me_response cfg v u)))"

definition get_my_referrals :: "visit \<Rightarrow> User \<Rightarrow> payload handler" where
  "get_my_referrals v u =
     and_then (uncaught (referral_status (user_id u) (vs_candidate v))) (\<lambda>r. answer (P_Referrals (referral_status_response r)))"

definition get_my_passports :: "outside \<Rightarrow> User \<Rightarrow> payload handler" where
  "get_my_passports x u =
     and_then (asking (\<lambda>s. list_passports (ex_rank x) s (user_id u))) (\<lambda>ps. answer (P_Passports (map passport_response ps)))"

definition get_my_stats :: "outside \<Rightarrow> api_settings \<Rightarrow> visit \<Rightarrow> User \<Rightarrow> payload handler" where
  "get_my_stats x cfg v u =
     and_then (asking_or_crash (\<lambda>s. me_stats (ex_rank x) (ac_zone (as_config cfg)) s (user_id u) (vs_time v))) (\<lambda>r. answer (P_Stats r))"

section \<open>The other routes\<close>

definition redeem_code :: "outside \<Rightarrow> api_settings \<Rightarrow> visit \<Rightarrow> pystr \<Rightarrow> User \<Rightarrow> payload handler" where
  "redeem_code x cfg v code u =
     and_then (catching redemption_api_error
         (redeem (ex_unicode x) (ex_hmac x) (as_registry cfg) (as_redemption cfg) (vs_new_id v) (user_id u) code (vs_time v))) (\<lambda>r.
     answer (P_Redemption (redemption_response r)))"

definition get_my_wallet :: "User \<Rightarrow> payload handler" where
  "get_my_wallet u = and_then (asking (\<lambda>s. wallet_view s (user_id u))) (\<lambda>w. answer (P_Wallet (wallet_response w)))"

definition get_my_team :: "api_settings \<Rightarrow> User \<Rightarrow> payload handler" where
  "get_my_team cfg u =
     and_then (asking (\<lambda>s. team_status s (as_team_lock cfg) (user_id u))) (\<lambda>st. answer (P_Team (team_status_response st)))"

definition FLAVOR_BY_SLUG :: "string \<Rightarrow> CityCode option" where
  "FLAVOR_BY_SLUG = map_of (map (\<lambda>city. (campaign_slug city, city)) all_cities)"

definition change_my_team :: "api_settings \<Rightarrow> visit \<Rightarrow> string \<Rightarrow> User \<Rightarrow> payload handler" where
  "change_my_team cfg v slug u =
     (case FLAVOR_BY_SLUG slug of
        None \<Rightarrow> reject (api_error 422 ''CATALOGUE_UNKNOWN'' ''unknown flavor'')
      | Some flavor \<Rightarrow>
          and_then (catching team_api_error (change (as_team_lock cfg) (user_id u) flavor (vs_time v))) (\<lambda>_. get_my_team cfg u))"

definition challenges_route :: "outside \<Rightarrow> api_settings \<Rightarrow> visit \<Rightarrow> User \<Rightarrow> payload handler" where
  "challenges_route x cfg v u =
     and_then (asking_or_crash (\<lambda>s. list_challenges (ex_rank x) (ac_zone (as_config cfg)) s (user_id u) (vs_time v))) (\<lambda>ps.
     answer (P_Challenges (map challenge_response ps)))"

definition claim_route :: "api_settings \<Rightarrow> visit \<Rightarrow> string \<Rightarrow> User \<Rightarrow> payload handler" where
  "claim_route cfg v challenge_id u =
     and_then (catching claim_api_error (claim_challenge (ac_zone (as_config cfg)) (user_id u) challenge_id (vs_time v))) (\<lambda>r.
     answer (P_Claim (challenge_claim_response r)))"

definition list_achievements :: "outside \<Rightarrow> api_settings \<Rightarrow> visit \<Rightarrow> User \<Rightarrow> payload handler" where
  "list_achievements x cfg v u =
     and_then (asking_or_crash (\<lambda>s. list_achievement_progress (ex_rank x) (ac_zone (as_config cfg)) s (user_id u) (vs_time v))) (\<lambda>ps.
     answer (P_Achievements ps))"

definition list_my_achievements :: "User \<Rightarrow> payload handler" where
  "list_my_achievements u = and_then (asking (\<lambda>s. list_unlocked s (user_id u))) (\<lambda>xs. answer (P_My_Achievements xs))"

text \<open>\<open>start_run\<close> raises no error of its own.\<close>

definition start_mini_game_run :: "visit \<Rightarrow> MiniGameId \<Rightarrow> User \<Rightarrow> payload handler" where
  "start_mini_game_run v game u =
     and_then (catching (\<lambda>_. Unhandled AssertionError) (start_run (vs_new_id v) (vs_random v) (user_id u) game (vs_time v))) (\<lambda>r.
     answer (P_Run_Started (run_start_response r)))"

definition finish_mini_game_run :: "api_settings \<Rightarrow> visit \<Rightarrow> uuid \<Rightarrow> int list \<Rightarrow> User \<Rightarrow> payload handler" where
  "finish_mini_game_run cfg v run_id reactions_ms u =
     and_then (catching finish_api_error (finish_run (as_mini_games cfg) (user_id u) run_id reactions_ms (vs_time v))) (\<lambda>r.
     answer (P_Run_Finished (run_finish_response r)))"

text \<open>\<open>limit\<close> is already within its bounds; \<open>Some (Inl ())\<close> is a cursor that does not decode.\<close>

definition users_route :: "api_settings \<Rightarrow> int \<Rightarrow> (unit + UserCursor) option \<Rightarrow> payload handler" where
  "users_route cfg limit cursor =
     (case cursor of
        Some (Inl _) \<Rightarrow> reject (api_error 400 ''CURSOR_INVALID'' ''cursor is not valid'')
      | _ \<Rightarrow>
          and_then (asking_or_crash (\<lambda>s. list_users s (nat limit) (case cursor of Some (Inr c) \<Rightarrow> Some c | _ \<Rightarrow> None))) (\<lambda>p.
          answer (P_Users (user_page_response (ac_terms_required (as_config cfg)) p))))"

definition get_config :: "outside \<Rightarrow> api_settings \<Rightarrow> visit \<Rightarrow> payload handler" where
  "get_config x cfg v =
     and_then (asking (current_config (as_config cfg) (ex_name_rank x) (ex_rank x) (vs_time v))) (\<lambda>c. answer (P_Config (config_response c)))"

definition avatars_route :: "outside \<Rightarrow> payload handler" where
  "avatars_route x = and_then (asking (list_active_avatars (ex_rank x))) (\<lambda>xs. answer (P_Avatars xs))"

definition ready :: "api_settings \<Rightarrow> visit \<Rightarrow> payload handler" where
  "ready cfg v =
     (if \<not> vs_database_up v then reject (api_error 503 ''SERVICE_UNAVAILABLE'' ''database unreachable'')
      else and_then (asking (pepper_guard_check (as_pepper_fingerprint cfg))) (\<lambda>ok.
        if \<not> ok then reject (api_error 503 ''SERVICE_UNAVAILABLE''
          (''an active code batch'' @ [CHR 0x27] @ ''s pepper does not match the configured pepper''))
        else answer P_Ready))"

definition legal_route :: "string \<Rightarrow> payload handler" where
  "legal_route version =
     and_then (asking (legal_page version)) (\<lambda>r. case r of Inl e \<Rightarrow> reject (Api_Error e) | Inr page \<Rightarrow> answer (P_Page page))"

definition media_route :: "string \<Rightarrow> string \<Rightarrow> payload handler" where
  "media_route sha256 extension = and_then (asking (get_media sha256 extension)) (\<lambda>r. answer (P_Media r))"

section \<open>Serving a call\<close>

definition get_mini_game_leaderboard ::
  "api_settings \<Rightarrow> visit \<Rightarrow> MiniGameId \<Rightarrow> LeaderboardPeriod \<Rightarrow> User \<Rightarrow> database \<Rightarrow> board_cache \<Rightarrow> (http_error + payload) \<times> board_cache" where
  "get_mini_game_leaderboard cfg v game period u s boards =
     (case get_leaderboard TOP_N (ac_zone (as_config cfg)) \<lparr>bc_game = game, bc_period = period, bc_user = user_id u,
         bc_now = vs_time v, bc_monotonic = vs_monotonic v, bc_tables = s, bc_top_scan = vs_top_scan v, bc_me_scan = vs_me_scan v\<rparr> boards of
        (Inl _, cache) \<Rightarrow> (Inl (api_error 404 ''NOT_FOUND'' ''unknown mini_game_id''), cache)
      | (Inr board, cache) \<Rightarrow>
          (case leaderboard_response (user_id u) board of
             Inl e \<Rightarrow> (Inl (Unhandled e), cache)
           | Inr r \<Rightarrow> (Inr (P_Leaderboard r), cache)))"

text \<open>The routes that ask for a session, for the player it names; the gate comes before the checks of the body.\<close>

fun member_route :: "outside \<Rightarrow> api_settings \<Rightarrow> visit \<Rightarrow> api_call \<Rightarrow> User \<Rightarrow> payload handler" where
  "member_route x cfg v Get_Me u = me_response cfg v u"
| "member_route x cfg v (Patch_Me p) u = validated v (valid_update p) (update_me x cfg v p u)"
| "member_route x cfg v Get_Referrals u = get_my_referrals v u"
| "member_route x cfg v Get_Passports u = get_my_passports x u"
| "member_route x cfg v Get_Stats u = get_my_stats x cfg v u"
| "member_route x cfg v (Redeem_Code code) u =
     and_then (require_complete_profile (ac_terms_required (as_config cfg)) u) (\<lambda>u.
     validated v (valid_code code) (redeem_code x cfg v code u))"
| "member_route x cfg v Get_Wallet u = get_my_wallet u"
| "member_route x cfg v Get_Team u = get_my_team cfg u"
| "member_route x cfg v (Change_Team slug) u = change_my_team cfg v slug u"
| "member_route x cfg v Get_Challenges u = challenges_route x cfg v u"
| "member_route x cfg v (Claim_Challenge i) u = claim_route cfg v i u"
| "member_route x cfg v (Start_Run game) u = start_mini_game_run v game u"
| "member_route x cfg v (Finish_Run i reactions) u = validated v (valid_reactions reactions) (finish_mini_game_run cfg v i reactions u)"
| "member_route x cfg v Get_Achievements u = list_achievements x cfg v u"
| "member_route x cfg v Get_My_Achievements u = list_my_achievements u"
| "member_route x cfg v (Admin_Users limit cursor) u =
     and_then (require_admin u) (\<lambda>_. validated v (1 \<le> limit \<and> limit \<le> 100) (users_route cfg limit cursor))"
| "member_route x cfg v _ u = reject (Http_Error 404 (cp ''Not Found'') [])"

fun public_route :: "outside \<Rightarrow> api_settings \<Rightarrow> visit \<Rightarrow> api_call \<Rightarrow> payload handler option" where
  "public_route x cfg v (Auth_Request given) = Some (validated v (valid_identifier given) (request_authentication x cfg v given))"
| "public_route x cfg v (Auth_Verify given code) =
     Some (validated v (valid_verification given code) (verify_authentication x cfg v given code))"
| "public_route x cfg v Auth_Logout = Some (logout_route x cfg v)"
| "public_route x cfg v Get_Config = Some (get_config x cfg v)"
| "public_route x cfg v Get_Avatars = Some (avatars_route x)"
| "public_route x cfg v Get_Ready = Some (ready cfg v)"
| "public_route x cfg v (Get_Legal version) = Some (validated v (legal_path_ok version) (legal_route version))"
| "public_route x cfg v (Get_Media sha256 extension) = Some (validated v (media_path_ok sha256 extension) (media_route sha256 extension))"
| "public_route x cfg v _ = None"

definition serve :: "outside \<Rightarrow> api_settings \<Rightarrow> visit \<Rightarrow> api_call \<Rightarrow> api_state \<Rightarrow> (http_error + payload) \<times> api_state" where
  "serve x cfg v c st =
     (case public_route x cfg v c of
        Some h \<Rightarrow> (case h (st_tables st) of (r, t) \<Rightarrow> (r, st\<lparr>st_tables := t\<rparr>))
      | None \<Rightarrow>
          (case current_user_gate x v (st_tables st) of
             (Inl e, t) \<Rightarrow> (Inl e, st\<lparr>st_tables := t\<rparr>)
           | (Inr u, t) \<Rightarrow>
               (case c of
                  Get_Leaderboard game period \<Rightarrow>
                    (case get_mini_game_leaderboard cfg v game period u t (st_boards st) of
                       (r, boards) \<Rightarrow> (r, st\<lparr>st_tables := t, st_boards := boards\<rparr>))
                | _ \<Rightarrow> (case member_route x cfg v c u t of (r, t') \<Rightarrow> (r, st\<lparr>st_tables := t'\<rparr>)))))"

end
