(* ===== verification/Api_Books.thy ===== *)
theory Api_Books
  imports Api
begin

text \<open>
  Coins over the whole API: whatever calls are served, in whatever order, the wallets stay the sums of their
  ledger entries, the ledger is only added to, and only with credits. The rules here are those of any
  invariant of the tables, for the actions and handlers services are made of.
\<close>

section \<open>Invariants of actions and handlers\<close>

definition runs_keep :: "(database \<Rightarrow> bool) \<Rightarrow> (database \<Rightarrow> 'r \<times> database) \<Rightarrow> bool" where
  "runs_keep P m \<longleftrightarrow> (\<forall>s. P s \<longrightarrow> P (snd (m s)))"

lemma runs_keepI: "(\<And>s r t. P s \<Longrightarrow> m s = (r, t) \<Longrightarrow> P t) \<Longrightarrow> runs_keep P m"
  by (metis runs_keep_def prod.collapse)

lemma runs_keepD: "runs_keep P m \<Longrightarrow> P s \<Longrightarrow> m s = (r, t) \<Longrightarrow> P t"
  by (force simp: runs_keep_def)

named_theorems run_intros \<open>rules that show an action or a handler keeps an invariant\<close>

lemma runs_keep_acts [run_intros]:
  "runs_keep P (act_return a)" "runs_keep P (act_raise e)" "runs_keep P (act_crash c)" "runs_keep P (act_read q)"
  by (simp_all add: runs_keep_def act_defs)

lemma runs_keep_act_write: "(\<And>s. P s \<Longrightarrow> P (w s)) \<Longrightarrow> runs_keep P (act_write w)"
  by (simp add: runs_keep_def act_defs)

lemma runs_keep_act_insert: "(\<And>s. P s \<Longrightarrow> P (w s)) \<Longrightarrow> runs_keep P (act_insert c free w)"
  by (simp add: runs_keep_def act_insert_def)

lemma runs_keep_act_bind [run_intros]:
  assumes "runs_keep P m" "\<And>a. runs_keep P (f a)"
  shows "runs_keep P (act_bind m f)"
  using assms by (intro runs_keepI) (auto simp: act_bind_def dest: runs_keepD split: prod.splits sum.splits)

lemma runs_keep_handlers [run_intros]:
  "runs_keep P (answer a)" "runs_keep P (reject err)" "runs_keep P (asking q)" "runs_keep P (asking_or_crash k)"
  by (auto simp: runs_keep_def answer_def reject_def asking_def asking_or_crash_def uncaught_def split: sum.splits)

lemma runs_keep_and_then [run_intros]:
  assumes "runs_keep P h" "\<And>a. runs_keep P (f a)"
  shows "runs_keep P (and_then h f)"
  using assms by (intro runs_keepI) (auto simp: and_then_def dest: runs_keepD split: prod.splits sum.splits)

lemma runs_keep_catching [run_intros]: "runs_keep P m \<Longrightarrow> runs_keep P (catching f m)"
  by (rule runs_keepI) (auto simp: catching_def dest: runs_keepD split: prod.splits sum.splits raised.splits)

lemma runs_keep_uncaught [run_intros]: "runs_keep P m \<Longrightarrow> runs_keep P (uncaught m)"
  by (rule runs_keepI) (auto simp: uncaught_def dest: runs_keepD split: prod.splits sum.splits)

lemma runs_keep_validated [run_intros]: "runs_keep P h \<Longrightarrow> runs_keep P (validated v ok h)"
  by (simp add: validated_def runs_keep_handlers)

lemma runs_keep_unit_of_work [run_intros]: "tx_keeps P body \<Longrightarrow> runs_keep P (unit_of_work body)"
  by (rule runs_keepI) (rule unit_of_work_keeps)

lemma runs_keep_if [run_intros]:
  "(b \<Longrightarrow> runs_keep P h) \<Longrightarrow> (\<not> b \<Longrightarrow> runs_keep P k) \<Longrightarrow> runs_keep P (if b then h else k)"
  by simp

lemma runs_keep_option [run_intros]:
  "(w = None \<Longrightarrow> runs_keep P h) \<Longrightarrow> (\<And>a. w = Some a \<Longrightarrow> runs_keep P (f a)) \<Longrightarrow> runs_keep P (case w of None \<Rightarrow> h | Some a \<Rightarrow> f a)"
  by (cases w) simp_all

lemma runs_keep_sum [run_intros]:
  "(\<And>a. w = Inl a \<Longrightarrow> runs_keep P (g a)) \<Longrightarrow> (\<And>a. w = Inr a \<Longrightarrow> runs_keep P (f a))
     \<Longrightarrow> runs_keep P (case w of Inl a \<Rightarrow> g a | Inr a \<Rightarrow> f a)"
  by (cases w) simp_all

lemma runs_keep_let [run_intros]: "(\<And>y. y = x \<Longrightarrow> runs_keep P (f y)) \<Longrightarrow> runs_keep P (let y = x in f y)"
  by simp

section \<open>The books\<close>

text \<open>Consistent wallets, and a ledger that is \<open>es\<close> followed by credits.\<close>

definition books_from :: "CoinLedgerEntryModel list \<Rightarrow> database \<Rightarrow> bool" where
  "books_from es s \<longleftrightarrow> ledger_ok s
     \<and> (\<exists>credits. coin_ledger_entries s = es @ credits \<and> (\<forall>e \<in> set credits. 0 < le_amount e))"

lemma books_lock [keeps_intros]: "tx_keeps (books_from es) (lock_wallet u now :: ('e, int) dbtx)"
proof (rule tx_keepsI)
  fix s t :: database and b :: int
  assume s: "books_from es s" and out: "(lock_wallet u now :: ('e, int) dbtx) s = Inr (b, t)"
  from out have "coin_ledger_entries t = coin_ledger_entries s" by (auto simp: lock_wallet_Inr_iff split: option.splits)
  with s ledger_ok_lock [OF _ out] show "books_from es t" by (simp add: books_from_def)
qed

lemma books_record:
  assumes "0 < ne_amount e"
  shows "tx_keeps (books_from es) (ledger_record e :: ('e, int) dbtx)"
proof (rule tx_keepsI)
  fix s t :: database and b :: int
  assume s: "books_from es s" and out: "(ledger_record e :: ('e, int) dbtx) s = Inr (b, t)"
  from out have "t = posted e s" by (auto simp: ledger_record_Inr_iff)
  moreover have "ledger_ok t" using s ledger_record_ok [OF _ out] by (simp add: books_from_def)
  ultimately show "books_from es t" using s assms by (auto simp: books_from_def posted_def)
qed

text \<open>Every other write of a service leaves both tables alone.\<close>

lemma books_frames [simp]:
  "books_from es (s\<lparr>users := a\<rparr>) = books_from es s" "books_from es (s\<lparr>team_memberships := b\<rparr>) = books_from es s"
  "books_from es (s\<lparr>referrals := c\<rparr>) = books_from es s" "books_from es (s\<lparr>authentication_challenges := d\<rparr>) = books_from es s"
  "books_from es (s\<lparr>auth_sessions := f\<rparr>) = books_from es s" "books_from es (s\<lparr>passport_progress := g\<rparr>) = books_from es s"
  "books_from es (s\<lparr>redemption_codes := h\<rparr>) = books_from es s" "books_from es (s\<lparr>redemption_failures := i\<rparr>) = books_from es s"
  "books_from es (s\<lparr>audit_log := j\<rparr>) = books_from es s" "books_from es (s\<lparr>challenge_claims := k\<rparr>) = books_from es s"
  "books_from es (s\<lparr>mini_game_runs := l\<rparr>) = books_from es s" "books_from es (s\<lparr>user_achievements := m\<rparr>) = books_from es s"
  by (simp_all add: books_from_def ledger_ok_def)

lemma books_writes [keeps_intros]:
  "tx_keeps (books_from es) (claim code_hash u now)" "tx_keeps (books_from es) (lookup code_hash)"
  "tx_keeps (books_from es) (count_redeemed_since u now)" "tx_keeps (books_from es) (add_entries new_id u campaign n now)"
  "tx_keeps (books_from es) (get_rule key)" "tx_keeps (books_from es) (audit_record entry)"
  "tx_keeps (books_from es) (add_membership membership)" "tx_keeps (books_from es) (insert_claim challenge u key now)"
  "tx_keeps (books_from es) (unlock achievement u now)" "tx_keeps (books_from es) (insert_run run)"
  "tx_keeps (books_from es) (finish_row run_id status now average)" "tx_keeps (books_from es) (insert_binding u inviter now)"
  "tx_keeps (books_from es) (amount_for_key key)"
proof -
  show "tx_keeps (books_from es) (claim code_hash u now)"
    unfolding claim_def by (auto intro!: keeps_intros keeps_write split: option.splits)
  show "tx_keeps (books_from es) (add_entries new_id u campaign n now)"
    unfolding add_entries_def by (auto intro!: keeps_intros keeps_write)
qed (auto simp: lookup_def count_redeemed_since_def get_rule_def audit_record_def add_membership_def insert_claim_def
    unlock_def insert_run_def finish_row_def insert_binding_def amount_for_key_def intro!: keeps_intros keeps_write keeps_insert)

section \<open>The services\<close>

lemma books_bonus: "tx_keeps (books_from es) (award_first_code_bonus cfg u balance now)"
  unfolding award_first_code_bonus_def Let_def by (auto intro!: keeps_intros books_record)

lemma books_redeem: "runs_keep (books_from es) (redeem ud hmac reg cfg new_id u raw now)"
proof -
  have claim: "tx_keeps (books_from es) (apply_claim cfg new_id c u balance now)" for c balance
    unfolding apply_claim_def by (intro keeps_intros books_record books_bonus) simp
  have unclaimed: "tx_keeps (books_from es) (resolve_unclaimed code_hash u balance)" for code_hash balance
    unfolding resolve_unclaimed_def by (intro keeps_intros)
  have body: "tx_keeps (books_from es) (redeem_transaction cfg new_id code_hash u now)" for code_hash
    unfolding redeem_transaction_def by (intro keeps_intros claim unclaimed)
  have failure: "books_from es (throttle_record th u now s) = books_from es s" for th s
    by (cases th) (simp_all add: record_failure_def null_record_def)
  have parsed: "runs_keep (books_from es) (redeem_parsed cfg new_id code_hash u now)" for code_hash
  proof (rule runs_keepI)
    fix s r t assume s: "books_from es s" and out: "redeem_parsed cfg new_id code_hash u now s = (r, t)"
    obtain r' s' where work: "unit_of_work (redeem_transaction cfg new_id code_hash u now) s = (r', s')" by fastforce
    from unit_of_work_keeps [OF body s work] have "books_from es s'" .
    moreover have "t = s' \<or> (\<exists>th. t = throttle_record th u now s')"
      using out work by (auto simp: redeem_parsed_def split: sum.splits raised.splits RedemptionError.splits option.splits)
    ultimately show "books_from es t" using failure by auto
  qed
  show ?thesis
  proof (rule runs_keepI)
    fix s r t assume "books_from es s" "redeem ud hmac reg cfg new_id u raw now s = (r, t)"
    then show "books_from es t"
      using runs_keepD [OF parsed] by (auto simp: redeem_def split: option.splits sum.splits raised.splits if_splits CodeProblem.splits)
  qed
qed

lemma books_games:
  "runs_keep (books_from es) (start_run new_id rng u game now)" "runs_keep (books_from es) (finish_run cfg u i reactions now)"
proof -
  show "runs_keep (books_from es) (start_run new_id rng u game now)"
    unfolding start_run_def Let_def by (intro run_intros keeps_intros)
  have flag: "tx_keeps (books_from es) (flag_if_abusive cfg u game now)" for game
    unfolding flag_if_abusive_def by (intro keeps_intros)
  show "runs_keep (books_from es) (finish_run cfg u i reactions now)"
    unfolding finish_run_def finish_transaction_def by (intro run_intros keeps_intros flag)
qed

lemma books_team: "runs_keep (books_from es) (change lock u flavor now)"
  unfolding change_def [abs_def] change_transaction_def by (intro run_intros keeps_intros)

lemma books_unlock_loop: "tx_keeps (books_from es) (unlock_loop u streak now found balance unlocked)"
  by (induction u streak now found balance unlocked rule: unlock_loop.induct)
     (auto intro!: keeps_intros books_record)

lemma books_claim: "runs_keep (books_from es) (claim_challenge z u i now)"
proof -
  have streak: "tx_keeps (books_from es) (streak_in_transaction c u now z)" for c
    unfolding streak_in_transaction_def by (intro keeps_intros)
  have unlocks: "tx_keeps (books_from es) (unlock_streak_achievements u n now balance)" for n balance
    unfolding unlock_streak_achievements_def by (intro keeps_intros books_unlock_loop)
  show ?thesis
    unfolding claim_challenge_def claim_transaction_def by (intro run_intros keeps_intros streak unlocks books_record) simp
qed

lemma payouts_positive: "p \<in> set (settle_payouts u finished codes window) \<Longrightarrow> 0 < po_amount p"
  by (auto simp: settle_payouts_def FIRST_CODE_BONUS_COINS_def LATER_CODE_BONUS_COINS_def split: list.splits if_splits)

lemma books_referrals:
  "runs_keep (books_from es) (bind_referral u code now)" "runs_keep (books_from es) (settle terms_required u now)"
proof -
  show "runs_keep (books_from es) (bind_referral u code now)"
    unfolding bind_referral_def bind_transaction_def by (intro run_intros keeps_intros)
  have paid: "tx_keeps (books_from es) (pay_once amount_for_key ledger_record e)" if "0 < ne_amount e" for e
    unfolding pay_once_def by (intro keeps_intros books_record that)
  show "runs_keep (books_from es) (settle terms_required u now)"
    unfolding settle_def settle_transaction_def Let_def
    by (intro run_intros keeps_intros) (auto intro!: paid dest: payouts_positive simp: referral_entry_def)
qed

lemma books_referral_code: "runs_keep (books_from es) (ensure_referral_code u candidate)"
proof -
  have "runs_keep (books_from es) (allocate_referral_code n u candidate)" for n candidate
  proof (rule runs_keepI)
    fix s r t assume "books_from es s" "allocate_referral_code n u candidate s = (r, t)"
    then show "books_from es t"
      by (induction n u candidate s rule: allocate_referral_code.induct)
         (auto simp: store_referral_code_def Let_def split: if_splits option.splits)
  qed
  then show ?thesis
    by (intro runs_keepI) (auto simp: ensure_referral_code_def dest: runs_keepD split: option.splits)
qed

lemma books_referral_status: "runs_keep (books_from es) (referral_status u candidate)"
  by (intro runs_keepI) (auto simp: referral_status_def Let_def dest: runs_keepD [OF books_referral_code] split: prod.splits sum.splits)

lemma books_accounts:
  "runs_keep (books_from es) (get_current_user sha given now)" "runs_keep (books_from es) (logout sha given now)"
  "runs_keep (books_from es) (update_display_name ud u name now)"
  "runs_keep (books_from es) (profile_update ud terms avatars_given u nickname version venue city avatar now)"
  "runs_keep (books_from es) (request_challenge sha cfg sent draw phone now)"
  "runs_keep (books_from es) (verify_challenge sha cfg session_id token phone code now)"
proof -
  note writes = runs_keep_act_write runs_keep_act_insert
  have user [simp]: "books_from es (update_user i f s) = books_from es s" for i f s by (simp add: update_user_def)
  have challenge [simp]: "books_from es (update_challenges p f s) = books_from es s" for p f s by (simp add: update_challenges_def)
  show "runs_keep (books_from es) (get_current_user sha given now)"
    unfolding get_current_user_def touch_session_def by (intro run_intros writes) simp
  show "runs_keep (books_from es) (logout sha given now)"
    unfolding logout_def revoke_by_token_hash_def by (intro run_intros writes) simp
  show "runs_keep (books_from es) (update_display_name ud u name now)"
    unfolding update_display_name_def repo_update_display_name_def by (intro run_intros writes) simp
  have profile: "runs_keep (books_from es) (update_profile u now change)" for change
    by (rule runs_keepI) (auto simp: update_profile_def Let_def split: if_splits)
  show "runs_keep (books_from es) (profile_update ud terms avatars_given u nickname version venue city avatar now)"
    unfolding profile_update_def check_avatar_def by (intro run_intros profile)
  have create: "runs_keep (books_from es) (create_user i phone now)" for i phone
    by (rule runs_keepI) (auto simp: create_user_def split: if_splits option.splits)
  show "runs_keep (books_from es) (request_challenge sha cfg sent draw phone now)"
    unfolding request_challenge_def issue_challenge_def account_for_def create_challenge_def Let_def
    by (intro run_intros writes create) simp_all
  have consume: "runs_keep (books_from es) (consume_if_matching i code_hash now)" for i code_hash
    by (rule runs_keepI) (auto simp: consume_if_matching_def)
  show "runs_keep (books_from es) (verify_challenge sha cfg session_id token phone code now)"
    unfolding verify_challenge_def consume_code_def verified_user_def mark_verified_def create_session_def increment_attempts_def
    by (intro run_intros writes consume) simp_all
qed

section \<open>The routes\<close>

lemmas books_services = books_redeem books_games books_team books_claim books_referrals books_referral_code
  books_referral_status books_accounts

lemma books_me: "runs_keep (books_from es) (me_response cfg v u)"
  unfolding me_response_def by (intro run_intros books_services)

lemma books_members: "runs_keep (books_from es) (member_route x cfg v c u)"
proof -
  have team: "runs_keep (books_from es) (get_my_team cfg u)" unfolding get_my_team_def by (intro run_intros)
  have gates: "runs_keep (books_from es) (require_complete_profile b u)" "runs_keep (books_from es) (require_admin u)" for b u
    unfolding require_complete_profile_def require_admin_def by (intro run_intros)+
  have redeem: "runs_keep (books_from es) (redeem_code x cfg v code u)" for code u
    unfolding redeem_code_def by (intro run_intros books_services)
  have page: "runs_keep (books_from es) (users_route cfg limit cursor)" for limit cursor
    unfolding users_route_def by (intro run_intros)
  show ?thesis
    by (cases c)
       (simp_all add: update_me_def get_my_referrals_def get_my_passports_def get_my_stats_def get_my_wallet_def change_my_team_def
          challenges_route_def claim_route_def list_achievements_def list_my_achievements_def start_mini_game_run_def
          finish_mini_game_run_def run_intros books_services books_me team gates redeem page)
qed

lemma books_public: "public_route x cfg v c = Some h \<Longrightarrow> runs_keep (books_from es) h"
proof (cases c)
  case (Auth_Request given)
  moreover assume "public_route x cfg v c = Some h"
  ultimately show ?thesis by (auto simp: request_authentication_def intro!: run_intros books_services)
next
  case (Auth_Verify given code)
  moreover assume "public_route x cfg v c = Some h"
  ultimately show ?thesis by (auto simp: verify_authentication_def intro!: run_intros books_services)
qed (auto simp: logout_route_def get_config_def avatars_route_def ready_def legal_route_def media_route_def
    intro!: run_intros books_services)

lemma books_serve:
  assumes "books_from es (st_tables st)" "serve x cfg v c st = (r, st')"
  shows "books_from es (st_tables st')"
proof (cases "public_route x cfg v c")
  case (Some h)
  with assms show ?thesis by (auto simp: serve_def dest: runs_keepD [OF books_public] split: prod.splits)
next
  case None
  obtain g t where gate: "current_user_gate x v (st_tables st) = (g, t)" by fastforce
  have "runs_keep (books_from es) (current_user_gate x v)"
    unfolding current_user_gate_def by (intro run_intros books_services)
  from runs_keepD [OF this assms(1) gate] have t: "books_from es t" .
  show ?thesis
  proof (cases g)
    case (Inl e)
    with None gate t assms(2) show ?thesis by (auto simp: serve_def)
  next
    case (Inr u)
    show ?thesis
    proof (cases "\<exists>game period. c = Get_Leaderboard game period")
      case True
      with None gate t Inr assms(2) show ?thesis by (auto simp: serve_def split: prod.splits)
    next
      case False
      then have "serve x cfg v c st = (case member_route x cfg v c u t of (r, t') \<Rightarrow> (r, st\<lparr>st_tables := t'\<rparr>))"
        using None gate Inr by (cases c) (simp_all add: serve_def)
      with assms(2) t runs_keepD [OF books_members] show ?thesis by (auto split: prod.splits)
    qed
  qed
qed

section \<open>Any run of calls\<close>

text \<open>A call is served after another, each with inputs of its own.\<close>

inductive api_run :: "outside \<Rightarrow> api_settings \<Rightarrow> api_state \<Rightarrow> (visit \<times> api_call) list \<Rightarrow> api_state \<Rightarrow> bool"
  for x :: outside and cfg :: api_settings where
  api_done: "api_run x cfg st [] st"
| api_more: "api_run x cfg st calls st' \<Longrightarrow> serve x cfg v c st' = (r, st'') \<Longrightarrow> api_run x cfg st (calls @ [(v, c)]) st''"

definition coins_of :: "database \<Rightarrow> uuid \<Rightarrow> int" where
  "coins_of s u = (case wallet_of s u of None \<Rightarrow> 0 | Some w \<Rightarrow> w_balance w)"

lemma coins_of_ledger: "ledger_ok s \<Longrightarrow> coins_of s u = amounts_of u (coin_ledger_entries s)"
proof (cases "wallet_of s u")
  case None
  moreover assume "ledger_ok s"
  ultimately have "\<forall>e \<in> set (coin_ledger_entries s). le_user_id e \<noteq> u" by (auto simp: wallet_of_None ledger_ok_def)
  from amounts_of_none [OF this] None show ?thesis by (simp add: coins_of_def)
next
  case (Some w)
  moreover assume "ledger_ok s"
  ultimately show ?thesis using wallet_of_Some [OF Some] by (auto simp: coins_of_def ledger_ok_def)
qed

lemma credits_raise: "\<forall>e \<in> set credits. 0 < le_amount e \<Longrightarrow> 0 \<le> amounts_of u credits"
  by (induction credits) (auto simp: amounts_of_def)

text \<open>
  C6: no call takes coins. Over any run of calls of the API, by whomever and with whatever inputs, consistent
  wallets stay consistent (every balance is the sum of its ledger entries and not negative, every key is
  recorded once), no ledger entry is changed or removed, every entry added is a credit, and so nobody's balance
  ever falls.
\<close>

theorem api_never_takes_coins:
  assumes "api_run x cfg st calls st'" "ledger_ok (st_tables st)"
  shows "ledger_ok (st_tables st')
    \<and> (\<exists>credits. coin_ledger_entries (st_tables st') = coin_ledger_entries (st_tables st) @ credits
        \<and> (\<forall>e \<in> set credits. 0 < le_amount e))
    \<and> (\<forall>u. coins_of (st_tables st) u \<le> coins_of (st_tables st') u)"
proof -
  let ?es = "coin_ledger_entries (st_tables st)"
  from assms have books: "books_from ?es (st_tables st')"
  proof induction
    case (api_done st)
    then show ?case by (simp add: books_from_def)
  next
    case (api_more st calls st' v c r st'')
    then show ?case using books_serve by blast
  qed
  then have ok: "ledger_ok (st_tables st')" by (simp add: books_from_def)
  from books obtain credits where new: "coin_ledger_entries (st_tables st') = ?es @ credits" "\<forall>e \<in> set credits. 0 < le_amount e"
    by (auto simp: books_from_def)
  have "coins_of (st_tables st) u \<le> coins_of (st_tables st') u" for u
    using credits_raise [OF new(2), of u] by (simp add: coins_of_ledger ok assms(2) new(1))
  with ok new show ?thesis by blast
qed

text \<open>Whatever is asked first of a service with one paid player.\<close>

definition paid_tables :: database where
  "paid_tables = posted bonus_entry funded"

lemma paid_tables_simps [simp]: "ledger_ok paid_tables" "coins_of paid_tables 1 = 15"
proof -
  show ok: "ledger_ok paid_tables"
    unfolding paid_tables_def
    by (rule ledger_ok_posted [where w = "the (wallet_of funded 1)"])
       (simp_all, simp add: key_recorded_def funded_def one_user_def empty_database_def)
  show "coins_of paid_tables 1 = 15"
    unfolding coins_of_ledger [OF ok]
    by (simp add: paid_tables_def posted_def funded_def one_user_def empty_database_def)
qed

theorem api_never_takes_coins_witness:
  "\<forall>x cfg v c. ledger_ok (st_tables (snd (serve x cfg v c \<lparr>st_tables = paid_tables, st_boards = \<lambda>_. None\<rparr>)))
     \<and> 15 \<le> coins_of (st_tables (snd (serve x cfg v c \<lparr>st_tables = paid_tables, st_boards = \<lambda>_. None\<rparr>))) 1"
proof (intro allI)
  fix x cfg v c
  let ?st = "\<lparr>st_tables = paid_tables, st_boards = \<lambda>_. None\<rparr>"
  have "api_run x cfg ?st ([] @ [(v, c)]) (snd (serve x cfg v c ?st))"
    by (rule api_more [OF api_done, where r = "fst (serve x cfg v c ?st)"]) simp
  from api_never_takes_coins [OF this] show "ledger_ok (st_tables (snd (serve x cfg v c ?st)))
     \<and> 15 \<le> coins_of (st_tables (snd (serve x cfg v c ?st))) 1"
    by (metis api_state.select_convs(1) paid_tables_simps)
qed

end
