(* ===== verification/Operator.thy ===== *)
theory Operator
  imports Batches Authentication
begin

text \<open>
  The scripts an operator runs against the database: roles and lost second factors (\<open>scripts/admins.py\<close>),
  lounges (\<open>scripts/venues.py\<close>), the check of a printed code (\<open>scripts/check_code.py\<close>) and the reset before launch
  (\<open>scripts/reset_test_users.py\<close>). What they print is left out, their exit codes are not. Each opens one
  session: \<open>in_transaction\<close> commits what ends normally.
\<close>

definition in_transaction :: "(database, 'e, 'a) tx \<Rightarrow> ('e, 'a) act" where
  "in_transaction body s = (case body s of Inl e \<Rightarrow> (Inl e, s) | Inr (a, t) \<Rightarrow> (Inr a, t))"

text \<open>\<open>UPDATE ... RETURNING\<close> read by \<open>scalar_one_or_none\<close>: whether there was one row; several rows raise.\<close>

definition one_or_none :: "int \<Rightarrow> ('s, 'e, bool) tx" where
  "one_or_none n = (if n = 0 then tx_return False else if n = 1 then tx_return True else tx_crash (RuntimeError ''MultipleResultsFound''))"

section \<open>Administrators\<close>

definition resolve_identifier :: "pystr \<Rightarrow> pystr" where
  "resolve_identifier raw = (case normalize_iranian_mobile raw of Inr phone \<Rightarrow> phone | Inl _ \<Rightarrow> strip raw)"

definition update_account :: "pystr \<Rightarrow> (UserModel \<Rightarrow> UserModel) \<Rightarrow> ('e, bool) act" where
  "update_account identifier f =
     in_transaction (tx_bind (tx_read (\<lambda>s. count_where (\<lambda>u. u_identifier u = identifier) (users s))) (\<lambda>n.
       tx_bind (tx_write (\<lambda>s. s\<lparr>users := update_where (\<lambda>u. u_identifier u = identifier) f (users s)\<rparr>)) (\<lambda>_.
       one_or_none n)))"

definition set_role :: "pystr \<Rightarrow> UserRole \<Rightarrow> ('e, bool) act" where
  "set_role identifier role = update_account identifier (\<lambda>u. u\<lparr>u_role := role\<rparr>)"

definition reset_totp :: "pystr \<Rightarrow> ('e, bool) act" where
  "reset_totp identifier = update_account identifier (\<lambda>u. u\<lparr>u_totp_secret_encrypted := None, u_totp_confirmed_at := None\<rparr>)"

datatype admin_command = Promote pystr | Demote pystr | Reset_Totp pystr

text \<open>The exit code of \<open>main_async\<close>.\<close>

fun admins_main :: "admin_command \<Rightarrow> ('e, int) act" where
  "admins_main (Reset_Totp raw) = act_bind (reset_totp (resolve_identifier raw)) (\<lambda>cleared. act_return (if cleared then 0 else 1))"
| "admins_main (Promote raw) = act_bind (set_role (resolve_identifier raw) ADMIN) (\<lambda>changed. act_return (if changed then 0 else 1))"
| "admins_main (Demote raw) = act_bind (set_role (resolve_identifier raw) PLAYER) (\<lambda>changed. act_return (if changed then 0 else 1))"

section \<open>Lounges\<close>

definition venue_char :: "char \<Rightarrow> bool" where
  "venue_char c \<longleftrightarrow> (let n = (of_char c :: nat) in 97 \<le> n \<and> n \<le> 122 \<or> 48 \<le> n \<and> n \<le> 57)"

text \<open>\<open>VENUE_ID.match\<close>; its \<open>$\<close> lets a final newline pass.\<close>

definition venue_id_ok :: "string \<Rightarrow> bool" where
  "venue_id_ok value =
     (let v = (if value \<noteq> [] \<and> last value = CHR 0x0A then butlast value else value) in
      2 \<le> length v \<and> length v \<le> 40 \<and> venue_char (hd v) \<and> list_all (\<lambda>c. venue_char c \<or> c = CHR ''-'') (tl v))"

definition add_venue :: "string \<Rightarrow> pystr \<Rightarrow> string \<Rightarrow> string option \<Rightarrow> pystr option \<Rightarrow> instant \<Rightarrow> ('e, bool) act" where
  "add_venue venue_id name city public_ip address now s =
     (if exists_where (\<lambda>v. v_id v = venue_id) (venues s) then (Inr False, s)
      else (Inr True, s\<lparr>venues := venues s @ [\<lparr>v_id = venue_id, v_name = name, v_city = city, v_public_ip = public_ip,
        v_address = address, v_active = True, v_created_at = now\<rparr>]\<rparr>))"

definition write_venue :: "string \<Rightarrow> (VenueModel \<Rightarrow> VenueModel) \<Rightarrow> ('e, bool) act" where
  "write_venue venue_id f =
     in_transaction (tx_bind (tx_read (\<lambda>s. count_where (\<lambda>v. v_id v = venue_id) (venues s))) (\<lambda>n.
       tx_bind (tx_write (\<lambda>s. s\<lparr>venues := update_where (\<lambda>v. v_id v = venue_id) f (venues s)\<rparr>)) (\<lambda>_.
       one_or_none n)))"

record venue_change =
  vc_name :: "pystr option"
  vc_city :: "string option"
  vc_address :: "pystr option"
  vc_ip :: "string option"

definition changed_venue :: "venue_change \<Rightarrow> VenueModel \<Rightarrow> VenueModel" where
  "changed_venue c v = v\<lparr>v_name := (case vc_name c of None \<Rightarrow> v_name v | Some x \<Rightarrow> x),
     v_city := (case vc_city c of None \<Rightarrow> v_city v | Some x \<Rightarrow> x),
     v_address := (case vc_address c of None \<Rightarrow> v_address v | Some x \<Rightarrow> Some x),
     v_public_ip := (case vc_ip c of None \<Rightarrow> v_public_ip v | Some x \<Rightarrow> Some x)\<rparr>"

definition update_venue :: "string \<Rightarrow> venue_change \<Rightarrow> ('e, bool) act" where
  "update_venue venue_id c = write_venue venue_id (changed_venue c)"

definition deactivate_venue :: "string \<Rightarrow> ('e, bool) act" where
  "deactivate_venue venue_id = write_venue venue_id (\<lambda>v. v\<lparr>v_active := False\<rparr>)"

datatype venue_command =
    Add_Venue string pystr string "string option" "pystr option"
  | Set_Venue string venue_change
  | Deactivate_Venue string

definition known_city :: "string \<Rightarrow> bool" where
  "known_city city \<longleftrightarrow> city \<in> set SUPPORTED_CITY_IDS"

text \<open>The checks of the arguments, then the command; 2 is the exit code of \<open>argparse\<close>. An address is checked by \<open>ipaddress\<close>.\<close>

fun venues_main :: "(string \<Rightarrow> bool) \<Rightarrow> venue_command \<Rightarrow> instant \<Rightarrow> ('e, int) act" where
  "venues_main ip_ok (Add_Venue i name city ip address) now =
     (if \<not> venue_id_ok i \<or> \<not> known_city city \<or> (\<exists>x \<in> set_option ip. \<not> ip_ok x) then act_return 2
      else act_bind (add_venue i name city ip address now) (\<lambda>added. act_return (if added then 0 else 1)))"
| "venues_main ip_ok (Set_Venue i c) now =
     (if (\<exists>x \<in> set_option (vc_city c). \<not> known_city x) \<or> (\<exists>x \<in> set_option (vc_ip c). \<not> ip_ok x) then act_return 2
      else if vc_name c = None \<and> vc_city c = None \<and> vc_address c = None \<and> vc_ip c = None then act_return 1
      else act_bind (update_venue i c) (\<lambda>found. act_return (if found then 0 else 1)))"
| "venues_main ip_ok (Deactivate_Venue i) now =
     act_bind (deactivate_venue i) (\<lambda>found. act_return (if found then 0 else 1))"

section \<open>Checking a printed code\<close>

record CheckedCode =
  ck_city :: CityCode
  ck_batch_id :: uuid
  ck_batch_label :: pystr
  ck_batch_status :: BatchStatus
  ck_redeemed_at :: "instant option"
  ck_pepper_matches :: "bool option"

text \<open>An inner join: a code without a batch is not found.\<close>

definition lookup_code :: "hmac_hex \<Rightarrow> database \<Rightarrow> string \<Rightarrow> pystr \<Rightarrow> CheckedCode option" where
  "lookup_code hmac s code_hash pepper =
     (case select_one (\<lambda>c. rc_code_hash c = code_hash) (redemption_codes s) of
        None \<Rightarrow> None
      | Some c \<Rightarrow>
          (case batch_of s c of
             None \<Rightarrow> None
           | Some b \<Rightarrow> Some \<lparr>ck_city = rc_city c, ck_batch_id = cb_id b, ck_batch_label = cb_label b, ck_batch_status = cb_status b,
               ck_redeemed_at = rc_redeemed_at c,
               ck_pepper_matches = map_option (\<lambda>f. f = pepper_fingerprint hmac pepper) (cb_pepper_fingerprint b)\<rparr>))"

datatype code_report =
    Not_A_Code bool
  | No_Pepper
  | Unknown_Code pystr
  | Known_Code pystr CheckedCode

definition check_code :: "unicode \<Rightarrow> hmac_hex \<Rightarrow> registry \<Rightarrow> pystr option \<Rightarrow> pystr \<Rightarrow> database \<Rightarrow> py_error + code_report" where
  "check_code ud hmac reg configured raw s =
     (case parse_code ud reg raw of
        Inl (Crash e) \<Rightarrow> Inl e
      | Inl (Raised problem) \<Rightarrow> Inr (Not_A_Code (problem = MISTYPED))
      | Inr parsed \<Rightarrow>
          (case configured of
             None \<Rightarrow> Inr No_Pepper
           | Some pepper \<Rightarrow>
               (let found = lookup_code hmac s (hash_redemption_code hmac (pc_canonical parsed) pepper) pepper in
                case printed reg parsed of
                  Inl _ \<Rightarrow> Inl (ValueError ''format'')
                | Inr shown \<Rightarrow> Inr (case found of None \<Rightarrow> Unknown_Code shown | Some c \<Rightarrow> Known_Code shown c))))"

fun check_exit :: "code_report \<Rightarrow> int" where
  "check_exit (Known_Code shown c) = (if ck_pepper_matches c = Some False then 1 else 0)"
| "check_exit _ = 1"

section \<open>The reset before launch\<close>

datatype ResetRefused = CODES_REDEEMED int | TABLE_NOT_EMPTY string int | SUFFIX_MATCHES pystr int | USERS_LEFT int int

text \<open>SQL's \<open>LIKE\<close>: \<open>%\<close> for any text, \<open>_\<close> for one character, a backslash before a character taken as it is.\<close>

fun like :: "pystr \<Rightarrow> pystr \<Rightarrow> bool" where
  "like [] t = (t = [])"
| "like (c # p) [] = (c = 37 \<and> like p [])"
| "like (c # p) (x # t) =
     (if c = 37 then like p (x # t) \<or> like (c # p) t
      else if c = 95 then like p t
      else if c = 92 then (case p of [] \<Rightarrow> False | d # q \<Rightarrow> d = x \<and> like q t)
      else c = x \<and> like p t)"

definition check_safe_to_reset :: "database \<Rightarrow> ResetRefused + unit" where
  "check_safe_to_reset s =
     (let redeemed = count_where (\<lambda>c. rc_redeemed_at c \<noteq> None) (redemption_codes s) in
      if redeemed \<noteq> 0 then Inl (CODES_REDEEMED redeemed)
      else if coin_ledger_entries s \<noteq> [] then Inl (TABLE_NOT_EMPTY ''coin_ledger_entries'' (int (length (coin_ledger_entries s))))
      else if wallets s \<noteq> [] then Inl (TABLE_NOT_EMPTY ''wallets'' (int (length (wallets s))))
      else if audit_log s \<noteq> [] then Inl (TABLE_NOT_EMPTY ''audit_log'' (int (length (audit_log s))))
      else Inr ())"

definition matching_suffix :: "database \<Rightarrow> pystr \<Rightarrow> pystr list" where
  "matching_suffix s suffix = map u_identifier (filter (\<lambda>u. like (37 # suffix) (u_identifier u)) (users s))"

text \<open>The dictionary, as the list of its items in the order of insertion.\<close>

fun resolve_keepers :: "database \<Rightarrow> pystr list \<Rightarrow> (pystr \<times> pystr) list \<Rightarrow> ResetRefused + (pystr \<times> pystr) list" where
  "resolve_keepers s [] resolved = Inr resolved"
| "resolve_keepers s (suffix # rest) resolved =
     (case matching_suffix s suffix of
        [one] \<Rightarrow> resolve_keepers s rest (AList.update suffix one resolved)
      | rows \<Rightarrow> Inl (SUFFIX_MATCHES suffix (int (length rows))))"

text \<open>
  \<open>DELETE FROM users\<close> with the actions of the foreign keys: rows of the player go with her, a code or an image keeps its row and
  loses her, and a wallet, a ledger entry or an audit row of her refuses the statement.
\<close>

definition restricts :: "uuid set \<Rightarrow> database \<Rightarrow> bool" where
  "restricts gone s \<longleftrightarrow> (\<exists>w \<in> set (wallets s). w_user_id w \<in> gone) \<or> (\<exists>e \<in> set (coin_ledger_entries s). le_user_id e \<in> gone)
     \<or> (\<exists>a \<in> set (audit_log s). al_actor_user_id a \<in> gone)"

definition unlink :: "uuid set \<Rightarrow> uuid option \<Rightarrow> uuid option" where
  "unlink gone i = (case i of Some u \<Rightarrow> if u \<in> gone then None else Some u | None \<Rightarrow> None)"

definition without_users :: "uuid set \<Rightarrow> database \<Rightarrow> database" where
  "without_users gone s = s\<lparr>
     users := filter (\<lambda>u. u_id u \<notin> gone) (users s),
     team_memberships := filter (\<lambda>m. tm_user_id m \<notin> gone) (team_memberships s),
     referrals := filter (\<lambda>r. rf_invitee_user_id r \<notin> gone \<and> rf_inviter_user_id r \<notin> gone) (referrals s),
     authentication_challenges := filter (\<lambda>c. ac_user_id c \<notin> gone) (authentication_challenges s),
     auth_sessions := filter (\<lambda>x. se_user_id x \<notin> gone) (auth_sessions s),
     passport_progress := filter (\<lambda>p. pp_user_id p \<notin> gone) (passport_progress s),
     redemption_codes := map (\<lambda>c. c\<lparr>rc_redeemed_by_user_id := unlink gone (rc_redeemed_by_user_id c)\<rparr>) (redemption_codes s),
     redemption_failures := filter (\<lambda>f. fa_user_id f \<notin> gone) (redemption_failures s),
     challenge_claims := filter (\<lambda>c. cc_user_id c \<notin> gone) (challenge_claims s),
     mini_game_runs := filter (\<lambda>r. mg_user_id r \<notin> gone) (mini_game_runs s),
     user_achievements := filter (\<lambda>a. ua_user_id a \<notin> gone) (user_achievements s),
     media_assets := map (\<lambda>m. m\<lparr>ma_created_by_user_id := unlink gone (ma_created_by_user_id m)\<rparr>) (media_assets s)\<rparr>"

definition delete_users_except :: "pystr list \<Rightarrow> (database, 'e, int) tx" where
  "delete_users_except kept s =
     (let gone = u_id ` set (filter (\<lambda>u. u_identifier u \<notin> set kept) (users s)) in
      if restricts gone s then Inl (Crash (IntegrityError ''users''))
      else Inr (count_where (\<lambda>u. u_identifier u \<notin> set kept) (users s), without_users gone s))"

definition reset_body :: "pystr list \<Rightarrow> (database, ResetRefused, (pystr \<times> pystr) list \<times> int) tx" where
  "reset_body suffixes =
     tx_bind (\<lambda>s. tx_check (check_safe_to_reset s) s) (\<lambda>_.
     tx_bind (\<lambda>s. tx_check (resolve_keepers s suffixes []) s) (\<lambda>keepers.
     tx_bind (delete_users_except (map snd keepers)) (\<lambda>deleted.
     tx_bind (tx_read (\<lambda>s. int (length (users s)))) (\<lambda>left_over.
     if left_over \<noteq> int (length keepers) then tx_raise (USERS_LEFT (int (length keepers)) left_over)
     else tx_return (keepers, deleted)))))"

definition reset :: "pystr list \<Rightarrow> (ResetRefused, (pystr \<times> pystr) list \<times> int) act" where
  "reset suffixes = in_transaction (reset_body suffixes)"

text \<open>
  \<open>run\<close>: the checks in a session of their own, then the deletion when \<open>--yes\<close> is given. The exit code.
\<close>

definition reset_main :: "pystr list \<Rightarrow> bool \<Rightarrow> database \<Rightarrow> (py_error + int) \<times> database" where
  "reset_main suffixes yes s =
     (if suffixes = [] then (Inr 1, s)
      else
        (case (check_safe_to_reset s, resolve_keepers s suffixes []) of
           (Inr _, Inr _) \<Rightarrow>
             if \<not> yes then (Inr 0, s)
             else
               (case reset suffixes s of
                  (Inl (Raised _), t) \<Rightarrow> (Inr 1, t)
                | (Inl (Crash e), t) \<Rightarrow> (Inl e, t)
                | (Inr _, t) \<Rightarrow> (Inr 0, t))
         | _ \<Rightarrow> (Inr 1, s)))"

end
