(* ===== verification/Api_Checks.thy ===== *)
theory Api_Checks
  imports Api
begin

text \<open>
  What the API promises as a whole: who is let in, which errors a client can see, that no call takes coins and
  that the ledger stays in balance over any run of calls, and what a refused \<open>PATCH /me\<close> leaves behind.
\<close>

section \<open>Gates\<close>

text \<open>The token stands for an open session of an active account.\<close>

definition signed_in_as :: "sha256_hex \<Rightarrow> pystr option \<Rightarrow> instant \<Rightarrow> database \<Rightarrow> User \<Rightarrow> bool" where
  "signed_in_as sha given now s u \<longleftrightarrow>
     (\<exists>token x. given = Some token \<and> token \<noteq> [] \<and> x \<in> set (auth_sessions s) \<and> se_token_hash x = hash_secret sha token
        \<and> se_revoked_at x = None \<and> now < se_expires_at x \<and> get_by_id s (se_user_id x) = Some u
        \<and> user_account_status u = ACCOUNT_ACTIVE)"

lemma signed_in_unique:
  assumes "auth_ok s" "signed_in_as sha given now s u" "signed_in_as sha given now s u'"
  shows "u = u'"
proof -
  have "x = y" if "x \<in> set (auth_sessions s)" "y \<in> set (auth_sessions s)" "se_token_hash x = se_token_hash y" for x y
    using assms(1) that by (auto simp: auth_ok_def distinct_map inj_on_def)
  with assms(2,3) show ?thesis by (force simp: signed_in_as_def)
qed

definition session_used :: "instant \<Rightarrow> database \<Rightarrow> database \<Rightarrow> bool" where
  "session_used now s t \<longleftrightarrow>
     (\<exists>i. t = s\<lparr>auth_sessions := update_where (\<lambda>y. se_id y = i) (\<lambda>y. y\<lparr>se_last_used_at := Some now\<rparr>) (auth_sessions s)\<rparr>)"

lemma gate_outcome:
  assumes "auth_ok s"
  shows "case current_user_gate x v s of
      (Inl e, t) \<Rightarrow> e = AUTH_REQUIRED_ERROR \<and> t = s \<and> (\<forall>u. \<not> signed_in_as (ex_sha x) (vs_token v) (vs_gate_time v) s u)
    | (Inr u, t) \<Rightarrow> signed_in_as (ex_sha x) (vs_token v) (vs_gate_time v) s u \<and> (t = s \<or> session_used (vs_gate_time v) s t)"
proof (cases "vs_token v = None \<or> vs_token v = Some []")
  case True
  then show ?thesis
    by (auto simp: current_user_gate_def catching_def get_current_user_def act_raise_def signed_in_as_def)
next
  case False
  then obtain token where token: "vs_token v = Some token" "token \<noteq> []" by auto
  obtain r t where out: "get_current_user (ex_sha x) (Some token) (vs_gate_time v) s = (r, t)" by fastforce
  show ?thesis
  proof (cases r)
    case (Inl e)
    with current_user_exact [OF assms token(2), of "ex_sha x" "vs_gate_time v"] out
    have "e = Raised AUTHENTICATION_REQUIRED \<and> t = s \<and> (\<forall>u. \<not> signed_in_as (ex_sha x) (vs_token v) (vs_gate_time v) s u)"
      by (auto simp: signed_in_as_def token(1))
    with Inl out show ?thesis by (simp add: current_user_gate_def catching_def token(1))
  next
    case (Inr u)
    with current_user_exact [OF assms token(2), of "ex_sha x" "vs_gate_time v"] out token
    have "signed_in_as (ex_sha x) (vs_token v) (vs_gate_time v) s u" by (auto simp: signed_in_as_def)
    with Inr out current_user_state [OF out] show ?thesis
      by (auto simp: current_user_gate_def catching_def token(1) session_used_def)
  qed
qed

definition needs_session :: "api_call \<Rightarrow> bool" where
  "needs_session c \<longleftrightarrow> (case c of
     Auth_Request _ \<Rightarrow> False | Auth_Verify _ _ \<Rightarrow> False | Auth_Logout \<Rightarrow> False | Get_Config \<Rightarrow> False | Get_Avatars \<Rightarrow> False
   | Get_Ready \<Rightarrow> False | Get_Legal _ \<Rightarrow> False | Get_Media _ _ \<Rightarrow> False | _ \<Rightarrow> True)"

lemma public_route_None: "public_route x cfg v c = None \<longleftrightarrow> needs_session c"
  by (cases c) (simp_all add: needs_session_def)

definition refused :: "int \<Rightarrow> string \<Rightarrow> http_error + 'a \<Rightarrow> bool" where
  "refused status code r \<longleftrightarrow> (\<exists>e. r = Inl (Api_Error e) \<and> ae_status_code e = status \<and> ae_code e = code)"

lemma refused_api_error [simp]: "refused status code (Inl (api_error n given message)) \<longleftrightarrow> n = status \<and> given = code"
  by (simp add: refused_def api_error_def)

definition only_session_used :: "instant \<Rightarrow> api_state \<Rightarrow> api_state \<Rightarrow> bool" where
  "only_session_used now st st' \<longleftrightarrow> st' = st \<or> (\<exists>t. session_used now (st_tables st) t \<and> st' = st\<lparr>st_tables := t\<rparr>)"

lemma serve_member:
  assumes "needs_session c" "current_user_gate x v (st_tables st) = (Inr u, t)" "\<And>game period. c \<noteq> Get_Leaderboard game period"
  shows "serve x cfg v c st = (case member_route x cfg v c u t of (r, t') \<Rightarrow> (r, st\<lparr>st_tables := t'\<rparr>))"
proof -
  have "public_route x cfg v c = None" using assms(1) by (simp add: public_route_None)
  with assms(2,3) show ?thesis by (cases c) (auto simp: serve_def)
qed

text \<open>
  C7: who is let in. A call of any route but the eight public ones, without the token of an open session of
  an active account, is answered 401 and changes nothing, whatever its content. With one, the token stands for
  exactly one account; the user list is refused (403) to everybody but administrators, and a code is refused
  (403, naming what is missing) to a player whose profile is not complete, and neither refusal changes more
  than the time the session was last used.
\<close>

theorem api_gates:
  assumes "auth_ok (st_tables st)" "needs_session c" "serve x cfg v c st = (r, st')"
  shows "if \<forall>u. \<not> signed_in_as (ex_sha x) (vs_token v) (vs_gate_time v) (st_tables st) u
    then refused 401 ''AUTH_REQUIRED'' r \<and> st' = st
    else \<exists>u. (\<forall>u'. signed_in_as (ex_sha x) (vs_token v) (vs_gate_time v) (st_tables st) u' \<longleftrightarrow> u' = u)
      \<and> (\<forall>limit cursor. c = Admin_Users limit cursor \<longrightarrow> user_role u \<noteq> ADMIN \<longrightarrow>
          refused 403 ''ADMIN_REQUIRED'' r \<and> only_session_used (vs_gate_time v) st st')
      \<and> (\<forall>code. c = Redeem_Code code \<longrightarrow> \<not> is_profile_complete u (ac_terms_required (as_config cfg)) \<longrightarrow>
          refused 403 (if ac_terms_required (as_config cfg) \<and> user_terms_accepted_at u = None
            then ''TERMS_NOT_ACCEPTED'' else ''PROFILE_INCOMPLETE'') r \<and> only_session_used (vs_gate_time v) st st')"
proof (cases "\<forall>u. \<not> signed_in_as (ex_sha x) (vs_token v) (vs_gate_time v) (st_tables st) u")
  case True
  with gate_outcome [OF assms(1), of x v]
  have "current_user_gate x v (st_tables st) = (Inl AUTH_REQUIRED_ERROR, st_tables st)" by (auto split: prod.splits sum.splits)
  moreover have "public_route x cfg v c = None" using assms(2) by (simp add: public_route_None)
  ultimately show ?thesis using True assms(3) by (auto simp: serve_def AUTH_REQUIRED_ERROR_def)
next
  case False
  with gate_outcome [OF assms(1), of x v] obtain u t where u: "current_user_gate x v (st_tables st) = (Inr u, t)"
    "signed_in_as (ex_sha x) (vs_token v) (vs_gate_time v) (st_tables st) u"
    "t = st_tables st \<or> session_used (vs_gate_time v) (st_tables st) t"
    by (auto split: prod.splits sum.splits)
  have only: "only_session_used (vs_gate_time v) st (st\<lparr>st_tables := t\<rparr>)" using u(3) by (auto simp: only_session_used_def)
  have "refused 403 ''ADMIN_REQUIRED'' r \<and> st' = st\<lparr>st_tables := t\<rparr>"
    if "c = Admin_Users limit cursor" "user_role u \<noteq> ADMIN" for limit cursor
  proof -
    have "serve x cfg v c st = (case member_route x cfg v c u t of (r, t') \<Rightarrow> (r, st\<lparr>st_tables := t'\<rparr>))"
      by (rule serve_member [OF assms(2) u(1)]) (simp add: that(1))
    with that assms(3) show ?thesis by (simp add: and_then_def require_admin_def reject_def)
  qed
  moreover have "refused 403 (if ac_terms_required (as_config cfg) \<and> user_terms_accepted_at u = None
      then ''TERMS_NOT_ACCEPTED'' else ''PROFILE_INCOMPLETE'') r \<and> st' = st\<lparr>st_tables := t\<rparr>"
    if "c = Redeem_Code code" "\<not> is_profile_complete u (ac_terms_required (as_config cfg))" for code
  proof -
    have "serve x cfg v c st = (case member_route x cfg v c u t of (r, t') \<Rightarrow> (r, st\<lparr>st_tables := t'\<rparr>))"
      by (rule serve_member [OF assms(2) u(1)]) (simp add: that(1))
    with that assms(3) show ?thesis
      by (auto simp: and_then_def require_complete_profile_def reject_def is_profile_complete_def split: if_splits)
  qed
  moreover have "signed_in_as (ex_sha x) (vs_token v) (vs_gate_time v) (st_tables st) u' \<longleftrightarrow> u' = u" for u'
    using signed_in_unique [OF assms(1) u(2)] u(2) by blast
  ultimately show ?thesis using False only by auto
qed

definition member_session :: SessionModel where
  "member_session = \<lparr>se_id = 8, se_user_id = 1, se_token_hash = hash_secret toy_sha (cp ''token''), se_expires_at = 100,
     se_created_at = 0, se_last_used_at = None, se_revoked_at = None\<rparr>"

definition member_tables :: database where
  "member_tables = one_user\<lparr>auth_sessions := [member_session]\<rparr>"

lemma member_tables_ok: "auth_ok member_tables"
  by (simp add: member_tables_def member_session_def auth_ok_def users_ok_def one_user_def empty_database_def)

lemma member_signed_in: "signed_in_as toy_sha (Some (cp ''token'')) 1 member_tables (user_from_model adult_user)"
  by (simp add: signed_in_as_def member_tables_def member_session_def get_by_id_def user_row_def one_user_def adult_user_def)

text \<open>Any setting and any request of that player: the user list stays closed.\<close>

theorem api_gates_witness:
  "\<forall>(x :: outside) cfg (v :: visit). refused 403 ''ADMIN_REQUIRED''
     (fst (serve (x\<lparr>ex_sha := toy_sha\<rparr>) cfg (v\<lparr>vs_token := Some (cp ''token''), vs_gate_time := 1\<rparr>) (Admin_Users 50 None)
       \<lparr>st_tables = member_tables, st_boards = \<lambda>_. None\<rparr>))"
proof (intro allI)
  fix x :: outside and cfg :: api_settings and v :: visit
  let ?x = "x\<lparr>ex_sha := toy_sha\<rparr>" and ?v = "v\<lparr>vs_token := Some (cp ''token''), vs_gate_time := 1\<rparr>"
    and ?st = "\<lparr>st_tables = member_tables, st_boards = \<lambda>_. None\<rparr>"
  obtain r st' where out: "serve ?x cfg ?v (Admin_Users 50 None) ?st = (r, st')" by fastforce
  have "auth_ok (st_tables ?st)" "needs_session (Admin_Users 50 None)" by (simp_all add: member_tables_ok needs_session_def)
  from api_gates [OF this out] member_signed_in obtain u where
    u: "\<And>u'. signed_in_as toy_sha (Some (cp ''token'')) 1 member_tables u' \<longleftrightarrow> u' = u"
      "user_role u \<noteq> ADMIN \<longrightarrow> refused 403 ''ADMIN_REQUIRED'' r"
    by (auto split: if_splits)
  have "u = user_from_model adult_user" using u(1) [of "user_from_model adult_user"] member_signed_in by simp
  with u(2) out show "refused 403 ''ADMIN_REQUIRED'' (fst (serve ?x cfg ?v (Admin_Users 50 None) ?st))"
    by (simp add: adult_user_def)
qed

section \<open>The errors of the contract\<close>

text \<open>The table of \<open>docs/API_CONTRACT.md\<close>, as far as the routes here can raise its codes.\<close>

definition CONTRACT :: "string \<Rightarrow> int option" where
  "CONTRACT = map_of [(''AUTH_REQUIRED'', 401), (''ADMIN_REQUIRED'', 403), (''CURSOR_INVALID'', 400), (''TERMS_VERSION_INVALID'', 422),
     (''PHONE_INVALID'', 422), (''PHONE_UNUSUAL'', 422), (''OTP_COOLDOWN'', 429), (''OTP_DAILY_LIMIT'', 429),
     (''PHONE_NOT_ALLOWED'', 403), (''OTP_INVALID'', 401), (''TERMS_NOT_ACCEPTED'', 403), (''PROFILE_INCOMPLETE'', 403),
     (''NICKNAME_INVALID'', 422), (''NICKNAME_TAKEN'', 409), (''DISPLAY_NAME_RESERVED'', 422), (''CATALOGUE_UNKNOWN'', 422),
     (''AVATAR_LOCKED'', 422), (''FLAVOR_NOT_UNLOCKED'', 409), (''TEAM_LOCKED'', 409), (''TEAM_SAME'', 422),
     (''CHALLENGE_NOT_UNLOCKED'', 409), (''CHALLENGE_ALREADY_CLAIMED'', 409), (''CODE_MALFORMED'', 400), (''CODE_MISTYPED'', 400),
     (''CODE_INVALID'', 404), (''CODE_ALREADY_REDEEMED'', 409), (''REDEMPTION_DAILY_LIMIT'', 429), (''CODE_ATTEMPTS_LIMITED'', 429),
     (''MINI_GAME_RUN_ALREADY_FINISHED'', 409), (''MINI_GAME_RUN_EXPIRED'', 409), (''MINI_GAME_ROUND_COUNT_MISMATCH'', 422),
     (''REFERRAL_CODE_UNKNOWN'', 422), (''REFERRAL_SELF'', 422), (''REFERRAL_CODE_TOO_LATE'', 422), (''REFERRAL_ALREADY_BOUND'', 409),
     (''NOT_FOUND'', 404), (''SERVICE_UNAVAILABLE'', 503)]"

lemma contract_codes [simp]:
  "CONTRACT ''AUTH_REQUIRED'' = Some 401" "CONTRACT ''ADMIN_REQUIRED'' = Some 403" "CONTRACT ''CURSOR_INVALID'' = Some 400"
  "CONTRACT ''TERMS_VERSION_INVALID'' = Some 422" "CONTRACT ''PHONE_INVALID'' = Some 422" "CONTRACT ''PHONE_UNUSUAL'' = Some 422"
  "CONTRACT ''OTP_COOLDOWN'' = Some 429" "CONTRACT ''OTP_DAILY_LIMIT'' = Some 429" "CONTRACT ''PHONE_NOT_ALLOWED'' = Some 403"
  "CONTRACT ''OTP_INVALID'' = Some 401" "CONTRACT ''TERMS_NOT_ACCEPTED'' = Some 403" "CONTRACT ''PROFILE_INCOMPLETE'' = Some 403"
  "CONTRACT ''NICKNAME_INVALID'' = Some 422" "CONTRACT ''NICKNAME_TAKEN'' = Some 409" "CONTRACT ''DISPLAY_NAME_RESERVED'' = Some 422"
  "CONTRACT ''CATALOGUE_UNKNOWN'' = Some 422" "CONTRACT ''AVATAR_LOCKED'' = Some 422" "CONTRACT ''FLAVOR_NOT_UNLOCKED'' = Some 409"
  "CONTRACT ''TEAM_LOCKED'' = Some 409" "CONTRACT ''TEAM_SAME'' = Some 422" "CONTRACT ''CHALLENGE_NOT_UNLOCKED'' = Some 409"
  "CONTRACT ''CHALLENGE_ALREADY_CLAIMED'' = Some 409" "CONTRACT ''CODE_MALFORMED'' = Some 400" "CONTRACT ''CODE_MISTYPED'' = Some 400"
  "CONTRACT ''CODE_INVALID'' = Some 404" "CONTRACT ''CODE_ALREADY_REDEEMED'' = Some 409" "CONTRACT ''REDEMPTION_DAILY_LIMIT'' = Some 429"
  "CONTRACT ''CODE_ATTEMPTS_LIMITED'' = Some 429" "CONTRACT ''MINI_GAME_RUN_ALREADY_FINISHED'' = Some 409"
  "CONTRACT ''MINI_GAME_RUN_EXPIRED'' = Some 409" "CONTRACT ''MINI_GAME_ROUND_COUNT_MISMATCH'' = Some 422"
  "CONTRACT ''REFERRAL_CODE_UNKNOWN'' = Some 422" "CONTRACT ''REFERRAL_SELF'' = Some 422" "CONTRACT ''REFERRAL_CODE_TOO_LATE'' = Some 422"
  "CONTRACT ''REFERRAL_ALREADY_BOUND'' = Some 409" "CONTRACT ''NOT_FOUND'' = Some 404" "CONTRACT ''SERVICE_UNAVAILABLE'' = Some 503"
  "CONTRACT ''REDEMPTION_NOT_CONFIGURED'' = None"
  by (simp_all add: CONTRACT_def)


definition listed :: "(string \<Rightarrow> int option) \<Rightarrow> http_error \<Rightarrow> bool" where
  "listed L err \<longleftrightarrow> (\<forall>e. err = Api_Error e \<longrightarrow> L (ae_code e) = Some (ae_status_code e))"

lemma listed_simps [simp]:
  "listed L (api_error status code message) \<longleftrightarrow> L code = Some status"
  "listed L (retry_error status code message retry) \<longleftrightarrow> L code = Some status"
  "listed L (detail_error status code message details) \<longleftrightarrow> L code = Some status"
  "listed L (Unhandled c)" "listed L (Validation_Error fs)" "listed L (Http_Error n m hs)"
  by (auto simp: listed_def api_error_def retry_error_def detail_error_def)

lemma service_errors_listed:
  "listed CONTRACT (request_api_error e1)"
  "e2 \<noteq> REDEMPTION_NOT_CONFIGURED \<Longrightarrow> listed CONTRACT (redemption_api_error e2)"
  "listed CONTRACT (profile_api_error e3)"
  "listed CONTRACT (display_name_api_error e4)"
  "listed CONTRACT (referral_bind_api_error e5)"
  "listed CONTRACT (team_api_error e6)"
  "listed CONTRACT (claim_api_error e7)"
  "listed CONTRACT (finish_api_error e8)"
proof -
  show "listed CONTRACT (request_api_error e1)" by (cases e1) simp_all
  show "e2 \<noteq> REDEMPTION_NOT_CONFIGURED \<Longrightarrow> listed CONTRACT (redemption_api_error e2)" by (cases e2) simp_all
  show "listed CONTRACT (profile_api_error e3)" by (cases e3) simp_all
  show "listed CONTRACT (display_name_api_error e4)" by (simp add: display_name_api_error_def)
  show "listed CONTRACT (referral_bind_api_error e5)" by (cases e5) simp_all
  show "listed CONTRACT (team_api_error e6)" by (cases e6) simp_all
  show "listed CONTRACT (claim_api_error e7)" by (cases e7) simp_all
  show "listed CONTRACT (finish_api_error e8)" by (cases e8) simp_all
qed

text \<open>\<open>raises_only L h\<close>: the errors with a code that \<open>h\<close> ends in are in the table \<open>L\<close>.\<close>

definition raises_only :: "(string \<Rightarrow> int option) \<Rightarrow> 'a handler \<Rightarrow> bool" where
  "raises_only L h \<longleftrightarrow> (\<forall>s err t. h s = (Inl err, t) \<longrightarrow> listed L err)"

named_theorems raises_intros \<open>rules for the errors of a handler\<close>

lemma raises_only_basic [raises_intros]:
  "raises_only L (answer a)" "raises_only L (asking q)" "raises_only L (uncaught m)" "raises_only L (asking_or_crash k)"
  "listed L err \<Longrightarrow> raises_only L (reject err)"
  by (auto simp: raises_only_def answer_def asking_def uncaught_def asking_or_crash_def reject_def split: prod.splits sum.splits)

lemma raises_only_and_then [raises_intros]:
  "raises_only L h \<Longrightarrow> (\<And>a. raises_only L (f a)) \<Longrightarrow> raises_only L (and_then h f)"
  by (fastforce simp: raises_only_def and_then_def split: prod.splits sum.splits)

lemma raises_only_catching [raises_intros]: "(\<And>e. listed L (f e)) \<Longrightarrow> raises_only L (catching f m)"
  by (auto simp: raises_only_def catching_def split: prod.splits sum.splits raised.splits)

lemma raises_only_validated [raises_intros]: "raises_only L h \<Longrightarrow> raises_only L (validated v ok h)"
  by (simp add: validated_def raises_only_basic)

lemma raises_only_if [raises_intros]:
  "(b \<Longrightarrow> raises_only L h) \<Longrightarrow> (\<not> b \<Longrightarrow> raises_only L k) \<Longrightarrow> raises_only L (if b then h else k)"
  by simp

lemma raises_only_option [raises_intros]:
  "(w = None \<Longrightarrow> raises_only L h) \<Longrightarrow> (\<And>a. w = Some a \<Longrightarrow> raises_only L (f a)) \<Longrightarrow> raises_only L (case w of None \<Rightarrow> h | Some a \<Rightarrow> f a)"
  by (cases w) simp_all

lemma raises_only_sum [raises_intros]:
  "(\<And>a. w = Inl a \<Longrightarrow> raises_only L (g a)) \<Longrightarrow> (\<And>a. w = Inr a \<Longrightarrow> raises_only L (f a))
     \<Longrightarrow> raises_only L (case w of Inl a \<Rightarrow> g a | Inr a \<Rightarrow> f a)"
  by (cases w) simp_all

lemma requests_listed:
  "raises_only CONTRACT (me_response cfg v u)"
  "raises_only CONTRACT (update_me x cfg v p u)"
  "raises_only CONTRACT (change_my_team cfg v slug u)"
  "raises_only CONTRACT (claim_route cfg v i u)"
  "raises_only CONTRACT (finish_mini_game_run cfg v run_id reactions u)"
  "raises_only CONTRACT (start_mini_game_run v game u)"
  "raises_only CONTRACT (users_route cfg limit cursor)"
  "raises_only CONTRACT (require_admin u)"
  "raises_only CONTRACT (require_complete_profile b u)"
proof -
  show me: "raises_only CONTRACT (me_response cfg v u)" for u
    unfolding me_response_def by (intro raises_intros) simp
  show "raises_only CONTRACT (update_me x cfg v p u)"
    unfolding update_me_def by (intro raises_intros me service_errors_listed)
  have team: "raises_only CONTRACT (get_my_team cfg u)" unfolding get_my_team_def by (intro raises_intros)
  show "raises_only CONTRACT (change_my_team cfg v slug u)"
    unfolding change_my_team_def by (intro raises_intros team service_errors_listed) simp
  show "raises_only CONTRACT (claim_route cfg v i u)"
    unfolding claim_route_def by (intro raises_intros service_errors_listed)
  show "raises_only CONTRACT (finish_mini_game_run cfg v run_id reactions u)"
    unfolding finish_mini_game_run_def by (intro raises_intros service_errors_listed)
  show "raises_only CONTRACT (start_mini_game_run v game u)"
    unfolding start_mini_game_run_def by (intro raises_intros) simp
  show "raises_only CONTRACT (users_route cfg limit cursor)"
    unfolding users_route_def by (intro raises_intros) simp_all
  show "raises_only CONTRACT (require_admin u)" "raises_only CONTRACT (require_complete_profile b u)"
    unfolding require_admin_def require_complete_profile_def by (intro raises_intros; simp)+
qed

text \<open>The one code outside the table, of the service without a pepper.\<close>

definition WITH_UNCONFIGURED :: "string \<Rightarrow> int option" where
  "WITH_UNCONFIGURED = CONTRACT(''REDEMPTION_NOT_CONFIGURED'' \<mapsto> 503)"

lemma raises_only_more: "raises_only CONTRACT h \<Longrightarrow> raises_only WITH_UNCONFIGURED h"
proof -
  have "CONTRACT ''REDEMPTION_NOT_CONFIGURED'' = None" by simp
  then show "raises_only CONTRACT h \<Longrightarrow> raises_only WITH_UNCONFIGURED h"
    by (fastforce simp: raises_only_def listed_def WITH_UNCONFIGURED_def)
qed

lemma member_route_listed:
  assumes "\<not> (\<exists>code. c = Redeem_Code code)"
  shows "raises_only CONTRACT (member_route x cfg v c u)"
  using assms
  by (cases c)
     (simp_all add: get_my_referrals_def get_my_passports_def get_my_stats_def get_my_wallet_def get_my_team_def
        challenges_route_def list_achievements_def list_my_achievements_def raises_intros requests_listed)

lemma redeem_listed: "raises_only WITH_UNCONFIGURED (member_route x cfg v (Redeem_Code code) u)"
proof -
  have "listed WITH_UNCONFIGURED (redemption_api_error e)" for e
    by (cases e) (simp_all add: WITH_UNCONFIGURED_def)
  then have "raises_only WITH_UNCONFIGURED (redeem_code x cfg v code u)" for u
    unfolding redeem_code_def by (intro raises_intros)
  then show ?thesis by (simp add: raises_intros raises_only_more requests_listed)
qed

lemma public_route_listed: "public_route x cfg v c = Some h \<Longrightarrow> raises_only CONTRACT h"
proof -
  assume h: "public_route x cfg v c = Some h"
  have request: "raises_only CONTRACT (request_authentication x cfg v given)" for given
    unfolding request_authentication_def by (intro raises_intros service_errors_listed)
  have verify: "raises_only CONTRACT (verify_authentication x cfg v given code)" for given code
    unfolding verify_authentication_def by (intro raises_intros) simp
  have logout: "raises_only CONTRACT (logout_route x cfg v)" unfolding logout_route_def by (intro raises_intros) simp
  have ready: "raises_only CONTRACT (ready cfg v)" unfolding ready_def by (intro raises_intros) simp_all
  have legal: "raises_only CONTRACT (legal_route version)" for version
    by (auto simp: raises_only_def legal_route_def and_then_def asking_def legal_page_def reject_def answer_def listed_def
        split: option.splits)
  from h show ?thesis
    by (cases c)
       (auto simp: get_config_def avatars_route_def media_route_def raises_intros request verify logout ready legal)
qed

text \<open>
  C8: the errors a client can see. Whatever is called, an error with a code is one of the table of the API
  contract, with the status given there, but for one: redeeming with a service that has no pepper answers
  503 \<open>REDEMPTION_NOT_CONFIGURED\<close>, which the table does not have.
\<close>

theorem api_errors_in_contract:
  assumes "serve x cfg v c st = (Inl (Api_Error e), st')"
  shows "CONTRACT (ae_code e) = Some (ae_status_code e)
    \<or> (\<exists>code. c = Redeem_Code code) \<and> ae_code e = ''REDEMPTION_NOT_CONFIGURED'' \<and> ae_status_code e = 503"
proof -
  have unauthenticated: "listed CONTRACT AUTH_REQUIRED_ERROR" by (simp add: AUTH_REQUIRED_ERROR_def)
  have gate: "raises_only CONTRACT (current_user_gate x v)"
    unfolding current_user_gate_def by (intro raises_intros unauthenticated)
  have board: "listed CONTRACT err" if "get_mini_game_leaderboard cfg v game period u s boards = (Inl err, b)" for game period u s boards err b
    using that by (auto simp: get_mini_game_leaderboard_def split: prod.splits sum.splits)
  show ?thesis
  proof (cases "public_route x cfg v c")
    case (Some h)
    with assms public_route_listed [OF Some] show ?thesis
      by (auto simp: serve_def raises_only_def listed_def split: prod.splits)
  next
    case None
    obtain g t where g: "current_user_gate x v (st_tables st) = (g, t)" by fastforce
    show ?thesis
    proof (cases g)
      case (Inl err)
      with None g assms gate show ?thesis by (auto simp: serve_def raises_only_def listed_def)
    next
      case (Inr u)
      show ?thesis
      proof (cases "\<exists>game period. c = Get_Leaderboard game period")
        case True
        with None g Inr assms board show ?thesis by (auto simp: serve_def listed_def split: prod.splits)
      next
        case False
        then have "serve x cfg v c st = (case member_route x cfg v c u t of (r, t') \<Rightarrow> (r, st\<lparr>st_tables := t'\<rparr>))"
          using None g Inr by (cases c) (simp_all add: serve_def)
        with assms obtain t' where out: "member_route x cfg v c u t = (Inl (Api_Error e), t')" by (auto split: prod.splits)
        show ?thesis
        proof (cases "\<exists>code. c = Redeem_Code code")
          case True
          with out redeem_listed show ?thesis
            by (fastforce simp: raises_only_def listed_def WITH_UNCONFIGURED_def split: if_splits)
        next
          case False
          from member_route_listed [OF False] out have "listed CONTRACT (Api_Error e)" unfolding raises_only_def by blast
          then show ?thesis by (simp add: listed_def)
        qed
      qed
    qed
  qed
qed

text \<open>No session at all.\<close>

theorem api_errors_in_contract_witness:
  "\<forall>(x :: outside) cfg (v :: visit). \<exists>e. fst (serve x cfg (v\<lparr>vs_token := None\<rparr>) Get_Wallet \<lparr>st_tables = member_tables, st_boards = \<lambda>_. None\<rparr>)
     = Inl (Api_Error e) \<and> CONTRACT (ae_code e) = Some (ae_status_code e)"
proof (intro allI)
  fix x :: outside and cfg :: api_settings and v :: visit
  let ?st = "\<lparr>st_tables = member_tables, st_boards = \<lambda>_. None\<rparr>"
  obtain e where e: "AUTH_REQUIRED_ERROR = Api_Error e" by (simp add: AUTH_REQUIRED_ERROR_def api_error_def)
  have "serve x cfg (v\<lparr>vs_token := None\<rparr>) Get_Wallet ?st = (Inl (Api_Error e), ?st)"
    by (simp add: serve_def current_user_gate_def catching_def get_current_user_def act_raise_def e)
  with api_errors_in_contract [OF this] show "\<exists>e. fst (serve x cfg (v\<lparr>vs_token := None\<rparr>) Get_Wallet ?st)
     = Inl (Api_Error e) \<and> CONTRACT (ae_code e) = Some (ae_status_code e)" by auto
qed

section \<open>A half of a \<open>PATCH /me\<close>\<close>

text \<open>
  A refused \<open>PATCH /me\<close> can have changed the player. The route writes the profile, then binds the inviter,
  each in a transaction of its own: when the profile is accepted and the code of the inviter is refused, the
  answer is the refusal of the code alone, and the new profile stays.
\<close>

theorem refused_patch_keeps_profile:
  assumes "profile_sent p" "\<not> was_sent (up_display_name p)" "sent_value (up_referrer_code p) = Some code"
    and "profile_update (ex_unicode x) (ac_terms_version (as_config cfg)) True (user_id u) (sent_value (up_nickname p))
      (sent_value (up_accept_terms_version p)) (sent_value (up_home_venue_id p)) (sent_value (up_location_city p))
      (sent_value (up_avatar_id p)) (vs_time v) s = (Inr w, t)"
    and "bind_referral (user_id u) code (vs_bind_time v) t = (Inl (Raised e), t')"
  shows "update_me x cfg v p u s = (Inl (referral_bind_api_error e), t)"
proof -
  have "\<exists>a. b = Inr a" if "bind_transaction i code now s = Inr (Committed b, s')" for b i now s s'
    using that by (auto simp: bind_transaction_def tx_bind_Inr_iff commit_def split: option.splits)
  then have "t' = t" by (rule unit_of_work_rollback [OF _ assms(5) [unfolded bind_referral_def]])
  with assms show ?thesis by (simp add: update_me_def and_then_def catching_def answer_def)
qed

definition no_update :: UserUpdate where
  "no_update = \<lparr>up_display_name = Not_Sent, up_nickname = Not_Sent, up_accept_terms_version = Not_Sent, up_home_venue_id = Not_Sent,
     up_location_city = Not_Sent, up_avatar_id = Not_Sent, up_referrer_code = Not_Sent\<rparr>"

theorem refused_patch_keeps_profile_witness:
  "\<forall>(x :: outside) cfg (v :: visit). \<exists>t. update_me x cfg v
       (no_update\<lparr>up_location_city := Sent (Some ''tehran''), up_referrer_code := Sent (Some ''NOBODY22'')\<rparr>) (user_from_model adult_user) one_user
       = (Inl (api_error 422 ''REFERRAL_CODE_UNKNOWN'' ''unknown referral code''), t)
     \<and> map u_location_city (users t) = [Some ''tehran'']"
proof (intro allI)
  fix x :: outside and cfg :: api_settings and v :: visit
  let ?p = "no_update\<lparr>up_location_city := Sent (Some ''tehran''), up_referrer_code := Sent (Some ''NOBODY22'')\<rparr>"
  let ?change = "\<lparr>pc_nickname = None, pc_terms_version = None, pc_home_venue_id = None, pc_location_city = Some ''tehran'', pc_avatar_id = None\<rparr>"
  define t where "t = update_user 1 (apply_change ?change (vs_time v)) one_user"
  obtain w where update: "profile_update (ex_unicode x) (ac_terms_version (as_config cfg)) True (user_id (user_from_model adult_user))
      (sent_value (up_nickname ?p)) (sent_value (up_accept_terms_version ?p)) (sent_value (up_home_venue_id ?p))
      (sent_value (up_location_city ?p)) (sent_value (up_avatar_id ?p)) (vs_time v) one_user = (Inr w, t)"
    by (simp add: profile_update_def no_update_def update_profile_def SUPPORTED_CITY_IDS_def act_bind_def change_allowed_def
        t_def get_by_id_def user_row_def update_user_def one_user_def adult_user_def act_return_def)
  moreover have "bind_referral (user_id (user_from_model adult_user)) ''NOBODY22'' (vs_bind_time v) t = (Inl (Raised CODE_UNKNOWN), t)"
  proof -
    let ?s = "t\<lparr>wallets := wallets t @ [\<lparr>w_user_id = 1, w_balance = 0, w_lifetime_earned = 0, w_updated_at = vs_bind_time v\<rparr>]\<rparr>"
    have "(lock_wallet 1 (vs_bind_time v) :: (ReferralBindRefusal, int) dbtx) t = Inr (0, ?s)"
      by (simp add: lock_wallet_Inr_iff t_def update_user_def one_user_def empty_database_def wallet_of_def user_exists_def adult_user_def)
    moreover have "resolve_code ?s ''NOBODY22'' = None"
      by (simp add: resolve_code_def t_def update_user_def one_user_def update_where_def apply_change_def adult_user_def)
    ultimately show ?thesis
      by (simp add: bind_referral_def bind_transaction_def unit_of_work_def check_can_bind_def adult_user_def)
  qed
  ultimately show "\<exists>t. update_me x cfg v ?p (user_from_model adult_user) one_user
       = (Inl (api_error 422 ''REFERRAL_CODE_UNKNOWN'' ''unknown referral code''), t) \<and> map u_location_city (users t) = [Some ''tehran'']"
    using refused_patch_keeps_profile [of ?p "''NOBODY22''" x cfg "user_from_model adult_user" v one_user w t CODE_UNKNOWN t]
    by (simp add: no_update_def profile_sent_def t_def update_user_def one_user_def update_where_def apply_change_def adult_user_def)
qed

end
