(* ===== verification/Operator_Checks.thy ===== *)
theory Operator_Checks
  imports Operator Api_Checks Admin_Session
begin

text \<open>
  What the operator's scripts promise: the check of a printed code agrees with what redeeming it would do,
  an administrator who is demoted is locked out of the API and of the panel at once, and the reset before
  launch keeps the players named and touches no printed code.
\<close>

section \<open>One row changed by a script\<close>

lemma count_where_0: "count_where p rows = 0 \<longleftrightarrow> (\<forall>r \<in> set rows. \<not> p r)"
  by (simp add: count_where_def filter_empty_conv)

lemma count_where_key:
  "distinct (map k rows) \<Longrightarrow> count_where (\<lambda>r. k r = key) rows = (if key \<in> k ` set rows then 1 else 0)"
  by (induction rows) (auto simp: count_where_def)

lemma one_or_none_simps [simp]: "one_or_none 0 s = Inr (False, s)" "one_or_none 1 s = Inr (True, s)"
  by (simp_all add: one_or_none_def)

lemma update_account_exact:
  assumes "users_ok s"
  shows "update_account given f s =
    (if given \<in> u_identifier ` set (users s)
     then (Inr True, s\<lparr>users := update_where (\<lambda>u. u_identifier u = given) f (users s)\<rparr>) else (Inr False, s))"
proof -
  have "update_where (\<lambda>u. u_identifier u = given) f (users s) = users s" if "given \<notin> u_identifier ` set (users s)"
    using that by (intro update_where_none) auto
  then show ?thesis
    using assms by (auto simp: update_account_def in_transaction_def users_ok_def count_where_key tx_bind_def tx_read_def tx_write_def)
qed

text \<open>An update of one account, by its phone: its row is the only one that changes.\<close>

lemma user_row_updated:
  assumes "users_ok s" "u \<in> set (users s)" "\<And>x. u_id (f x) = u_id x"
  shows "user_row (s\<lparr>users := update_where (\<lambda>x. u_identifier x = u_identifier u) f (users s)\<rparr>) i =
    (if i = u_id u then Some (f u) else user_row s i)"
proof -
  have uniq: "x = u" if "x \<in> set (users s)" "u_identifier x = u_identifier u \<or> u_id x = u_id u" for x
    using assms(1,2) that by (auto simp: users_ok_def dest: distinct_key_eq)
  have "select_one (\<lambda>x. u_id x = i) (update_where (\<lambda>x. u_identifier x = u_identifier u) f (users s)) =
    map_option (\<lambda>x. if u_identifier x = u_identifier u then f x else x) (select_one (\<lambda>x. u_id x = i) (users s))"
    by (rule select_one_update_same) (simp add: assms(3))
  moreover have "select_one (\<lambda>x. u_id x = u_id u) (users s) = Some u"
    using user_row_in [OF assms(1,2)] by (simp add: user_row_def)
  moreover have "u_identifier x \<noteq> u_identifier u" if "select_one (\<lambda>x. u_id x = i) (users s) = Some x" "i \<noteq> u_id u" for x
    using select_one_Some [OF that(1)] that(2) uniq by auto
  ultimately show ?thesis by (cases "select_one (\<lambda>x. u_id x = i) (users s)") (auto simp: user_row_def)
qed

section \<open>Roles\<close>

lemma demote_exact:
  assumes "users_ok s" "u \<in> set (users s)" "u_identifier u = resolve_identifier raw"
  shows "(admins_main (Demote raw) :: ('e, int) act) s =
    (Inr 0, s\<lparr>users := update_where (\<lambda>x. u_identifier x = u_identifier u) (\<lambda>x. x\<lparr>u_role := PLAYER\<rparr>) (users s)\<rparr>)"
proof -
  have "resolve_identifier raw \<in> u_identifier ` set (users s)" using assms(2,3) by (metis imageI)
  then show ?thesis using assms(3) by (simp add: set_role_def update_account_exact [OF assms(1)] act_bind_def act_return_def)
qed

lemma users_ok_mapped:
  assumes "users_ok s" "users t = map g (users s)"
    and "\<And>u. u_id (g u) = u_id u \<and> u_identifier (g u) = u_identifier u \<and> u_nickname_key (g u) = u_nickname_key u"
  shows "users_ok t"
proof -
  have "map u_id (users t) = map u_id (users s)" "map u_identifier (users t) = map u_identifier (users s)"
    using assms(2,3) by simp_all
  moreover have "u_id x = u_id y"
    if "x \<in> set (users t)" "y \<in> set (users t)" "u_nickname_key x \<noteq> None" "u_nickname_key x = u_nickname_key y" for x y
  proof -
    from that(1,2) assms(2) obtain u v where "u \<in> set (users s)" "v \<in> set (users s)" "x = g u" "y = g v" by auto
    with that(3,4) assms(1,3) show ?thesis unfolding users_ok_def by metis
  qed
  ultimately show ?thesis using assms(1) unfolding users_ok_def by metis
qed

lemma demoted_users_ok:
  assumes "auth_ok s"
  shows "auth_ok (s\<lparr>users := update_where p (\<lambda>x. x\<lparr>u_role := PLAYER\<rparr>) (users s)\<rparr>)"
proof -
  have "users_ok s" using assms by (simp add: auth_ok_def)
  then have "users_ok (s\<lparr>users := update_where p (\<lambda>x. x\<lparr>u_role := PLAYER\<rparr>) (users s)\<rparr>)"
    by (rule users_ok_mapped [where g = "\<lambda>x. if p x then x\<lparr>u_role := PLAYER\<rparr> else x"]) (auto simp: update_where_def)
  with assms show ?thesis by (simp add: auth_ok_def)
qed

text \<open>A gate that let somebody in read the account of its session from the tables.\<close>

lemma player_refused:
  assumes "auth_ok (st_tables st)" "signed_in_as (ex_sha x) (vs_token v) (vs_gate_time v) (st_tables st) me" "user_role me \<noteq> ADMIN"
  shows "refused 403 ''ADMIN_REQUIRED'' (fst (serve x cfg v (Admin_Users limit cursor) st))"
proof -
  have inside: "needs_session (Admin_Users limit cursor)" by (simp add: needs_session_def)
  from gate_outcome [OF assms(1), of x v] assms(2) obtain u t where u: "current_user_gate x v (st_tables st) = (Inr u, t)"
    "signed_in_as (ex_sha x) (vs_token v) (vs_gate_time v) (st_tables st) u"
    by (auto split: prod.splits sum.splits)
  have "u = me" by (rule signed_in_unique [OF assms(1) u(2) assms(2)])
  moreover have "serve x cfg v (Admin_Users limit cursor) st
      = (case member_route x cfg v (Admin_Users limit cursor) u t of (r, t') \<Rightarrow> (r, st\<lparr>st_tables := t'\<rparr>))"
    by (rule serve_member [OF inside u(1)]) simp
  ultimately show ?thesis using assms(3) by (simp add: and_then_def require_admin_def reject_def)
qed

text \<open>
  C18: demoting an administrator works at once. When \<open>scripts/admins.py demote\<close> is given the phone of an account, in any
  form the normaliser reads, it exits with 0 and changes no account but hers; from then on every request to the user list
  with one of her open sessions is refused (403), the panel's check of any cookie that names her fails, whatever its age,
  and nobody else's account or role is touched.
\<close>

theorem demoted_admin_locked_out:
  assumes "auth_ok s" "u \<in> set (users s)" "u_identifier u = resolve_identifier raw"
    and "(admins_main (Demote raw) :: ('e, int) act) s = (out, t)"
  shows "out = Inr 0 \<and> get_active_admin t (u_id u) = None
    \<and> (\<forall>now session. as_uid session = Some (u_id u) \<longrightarrow> \<not> fst (authenticate t now session))
    \<and> (\<forall>(x :: outside) cfg (v :: visit) st me limit cursor. st_tables st = t \<longrightarrow>
        signed_in_as (ex_sha x) (vs_token v) (vs_gate_time v) t me \<longrightarrow> user_id me = u_id u \<longrightarrow>
        refused 403 ''ADMIN_REQUIRED'' (fst (serve x cfg v (Admin_Users limit cursor) st)))
    \<and> (\<forall>i. i \<noteq> u_id u \<longrightarrow> get_by_id t i = get_by_id s i)"
proof (intro conjI allI impI)
  let ?f = "\<lambda>x. x\<lparr>u_role := PLAYER\<rparr>"
  have ok: "users_ok s" using assms(1) by (simp add: auth_ok_def)
  have t: "t = s\<lparr>users := update_where (\<lambda>x. u_identifier x = u_identifier u) ?f (users s)\<rparr>" and out: "out = Inr 0"
    using assms(4) unfolding demote_exact [OF ok assms(2,3)] by simp_all
  have rows: "user_row t i = (if i = u_id u then Some (?f u) else user_row s i)" for i
    unfolding t by (rule user_row_updated [OF ok assms(2)]) simp
  show "out = Inr 0" by (rule out)
  show closed: "get_active_admin t (u_id u) = None"
    by (simp add: get_active_admin_def get_by_id_def rows is_active_admin_def user_from_model_def)
  show "\<not> fst (authenticate t now session)" if "as_uid session = Some (u_id u)" for now session
    using that closed by (simp add: authenticate_def split: option.splits)
  show "get_by_id t i = get_by_id s i" if "i \<noteq> u_id u" for i
    using that by (simp add: get_by_id_def rows)
  show "refused 403 ''ADMIN_REQUIRED'' (fst (serve x cfg v (Admin_Users limit cursor) st))"
    if "st_tables st = t" "signed_in_as (ex_sha x) (vs_token v) (vs_gate_time v) t me" "user_id me = u_id u"
    for x :: outside and cfg and v :: visit and st me limit cursor
  proof (rule player_refused)
    show "auth_ok (st_tables st)" using demoted_users_ok [OF assms(1)] by (simp add: that(1) t)
    show "signed_in_as (ex_sha x) (vs_token v) (vs_gate_time v) (st_tables st) me" using that by simp
    from that(2,3) have "get_by_id t (u_id u) = Some me"
      by (auto simp: signed_in_as_def get_by_id_def user_from_model_def rows split: if_splits dest!: user_row_Some)
    then show "user_role me \<noteq> ADMIN" by (auto simp: get_by_id_def rows user_from_model_def)
  qed
qed

section \<open>Checking a printed code\<close>

lemma lookup_code_Some:
  assumes "select_one (\<lambda>c. rc_code_hash c = h) (redemption_codes s) = Some c" "batch_of s c = Some b"
  shows "\<exists>found. lookup_code hmac s h pepper = Some found \<and> ck_city found = rc_city c \<and> ck_batch_id found = cb_id b
    \<and> ck_batch_status found = cb_status b \<and> ck_redeemed_at found = rc_redeemed_at c"
  using assms by (simp add: lookup_code_def)

lemma lookup_code_None:
  "lookup_code hmac s h pepper = None \<longleftrightarrow>
     (case select_one (\<lambda>c. rc_code_hash c = h) (redemption_codes s) of None \<Rightarrow> True | Some c \<Rightarrow> batch_of s c = None)"
  by (auto simp: lookup_code_def split: option.splits)

text \<open>What redeeming would do, read off the check.\<close>

lemma claim_agrees:
  assumes "codes_ok s"
  shows "case (claim h u now :: ('e, ClaimedCode option) dbtx) s of
      Inl _ \<Rightarrow> False
    | Inr (None, t) \<Rightarrow> t = s \<and> (\<forall>found. lookup_code hmac s h pepper = Some found \<longrightarrow>
        ck_batch_status found \<noteq> ACTIVE \<or> ck_redeemed_at found \<noteq> None)
    | Inr (Some cl, t) \<Rightarrow> \<exists>found. lookup_code hmac s h pepper = Some found \<and> ck_batch_status found = ACTIVE
        \<and> ck_redeemed_at found = None \<and> ck_city found = claimed_city cl \<and> ck_batch_id found = claimed_batch_id cl"
proof (cases "select_one (\<lambda>c. rc_code_hash c = h) (redemption_codes s)")
  case None
  then have "select_one (claimable s h) (redemption_codes s) = None" by (auto simp: select_one_None_iff claimable_def)
  with None show ?thesis by (simp add: claim_def tx_bind_def tx_read_def tx_return_def lookup_code_def)
next
  case (Some c)
  note only = claimable_only [OF assms Some]
  show ?thesis
  proof (cases "batch_of s c")
    case None
    with Some only show ?thesis
      by (simp add: claim_def tx_bind_def tx_read_def tx_return_def lookup_code_def in_active_batch_def)
  next
    case (Some b)
    note found = \<open>select_one (\<lambda>c. rc_code_hash c = h) (redemption_codes s) = Some c\<close>
    show ?thesis
    proof (cases "rc_redeemed_at c = None \<and> cb_status b = ACTIVE")
      case True
      with Some only found show ?thesis
        by (simp add: claim_def tx_bind_def tx_read_def tx_return_def tx_write_def lookup_code_def in_active_batch_def)
    next
      case False
      with Some only found show ?thesis
        by (simp add: claim_def tx_bind_def tx_read_def tx_return_def lookup_code_def in_active_batch_def) auto
    qed
  qed
qed

text \<open>
  C17: the quality check never misleads. For every well-formed text, \<open>scripts/check_code.py\<close> reports a code that
  exists, in an active batch and not redeemed, exactly when the repository's claim of the same code would succeed for any
  player at any time, and then it names the same city and the same batch; and it reports no such code, with exit code 1, only when a
  claim finds nothing. It is a check only: what it answers is computed from the tables, which it leaves as they are.
\<close>

theorem check_code_agrees:
  assumes "codes_ok s" "parse_code ud reg raw = Inr parsed"
    and "check_code ud hmac reg (Some pepper) raw s = Inr report"
    and "(claim (hash_redemption_code hmac (pc_canonical parsed) pepper) u now :: ('e, ClaimedCode option) dbtx) s = Inr (claimed, t)"
  shows "(\<exists>shown. printed reg parsed = Inr shown \<and>
      (case claimed of
         Some cl \<Rightarrow> \<exists>found. report = Known_Code shown found \<and> ck_batch_status found = ACTIVE \<and> ck_redeemed_at found = None
           \<and> ck_city found = claimed_city cl \<and> ck_batch_id found = claimed_batch_id cl
       | None \<Rightarrow> t = s \<and> (report = Unknown_Code shown \<and> check_exit report = 1
           \<or> (\<exists>found. report = Known_Code shown found \<and> (ck_batch_status found \<noteq> ACTIVE \<or> ck_redeemed_at found \<noteq> None)))))"
proof -
  let ?h = "hash_redemption_code hmac (pc_canonical parsed) pepper"
  obtain shown where shown: "printed reg parsed = Inr shown"
      "report = (case lookup_code hmac s ?h pepper of None \<Rightarrow> Unknown_Code shown | Some c \<Rightarrow> Known_Code shown c)"
    using assms(2,3) by (auto simp: check_code_def Let_def split: sum.splits)
  with claim_agrees [OF assms(1), where 'e = 'e and h = ?h and u = u and now = now and hmac = hmac and pepper = pepper] show ?thesis
    by (cases claimed; cases "lookup_code hmac s ?h pepper") (auto simp: assms(4))
qed

lemma sample_printed: "\<exists>shown. printed FORMATS sample_code = Inr shown"
  by (simp add: printed_def sample_code_def parsed_as_def get_format_def registered_def FORMATS_eq CITY2_B9_def V2_B10_def)

theorem check_code_agrees_witness:
  "\<exists>shown found. check_code ascii_unicode sample_hmac FORMATS (Some (cp ''pepper'')) (cp ''TO07ENW3AHY'') sample_shop
      = Inr (Known_Code shown found) \<and> ck_batch_status found = ACTIVE \<and> ck_redeemed_at found = None"
proof -
  let ?h = "hash_redemption_code sample_hmac (pc_canonical sample_code) (cp ''pepper'')"
  obtain shown where shown: "printed FORMATS sample_code = Inr shown" using sample_printed by blast
  obtain report where out: "check_code ascii_unicode sample_hmac FORMATS (Some (cp ''pepper'')) (cp ''TO07ENW3AHY'') sample_shop = Inr report"
    using sample_parses [OF ascii_unicode_laws] shown by (simp add: check_code_def)
  have "select_one (claimable sample_shop ?h) (redemption_codes sample_shop) = Some fresh_code"
    using claimable_only [of sample_shop ?h fresh_code] sample_found [unfolded found_code_def] sample_shop_ok sample_active
    by (simp add: shop_ok_def hash_redemption_code_def sample_hmac_def fresh_code_def in_active_batch_def)
  then obtain cl t where "(claim ?h 1 0 :: (unit, ClaimedCode option) dbtx) sample_shop = Inr (Some cl, t)"
    using sample_active by (auto simp: claim_def tx_bind_def tx_read_def tx_write_def tx_return_def)
  from check_code_agrees [OF _ sample_parses [OF ascii_unicode_laws] out this] sample_shop_ok out show ?thesis
    by (auto simp: shop_ok_def)
qed

section \<open>The reset before launch\<close>

text \<open>For a suffix without wildcards \<open>LIKE\<close> is what the operator means: the number ends with it.\<close>

definition plain :: "pystr \<Rightarrow> bool" where
  "plain p \<longleftrightarrow> 37 \<notin> set p \<and> 95 \<notin> set p \<and> 92 \<notin> set p"

lemma like_plain: "plain p \<Longrightarrow> like p t \<longleftrightarrow> t = p"
proof (induction p arbitrary: t)
  case (Cons c p)
  then show ?case by (cases t) (auto simp: plain_def)
qed simp

lemma like_ends: "plain p \<Longrightarrow> like (37 # p) t \<longleftrightarrow> (\<exists>q. t = q @ p)"
  by (induction t) (auto simp: like_plain Cons_eq_append_conv)

lemma resolve_keepers_Inr:
  "resolve_keepers s suffixes resolved = Inr keepers \<longleftrightarrow>
     (\<forall>f \<in> set suffixes. length (matching_suffix s f) = 1)
     \<and> keepers = foldl (\<lambda>d f. AList.update f (hd (matching_suffix s f)) d) resolved suffixes"
proof (induction suffixes arbitrary: resolved)
  case (Cons f rest)
  then show ?case by (auto split: list.splits)
qed auto

lemma keepers_values:
  assumes "\<forall>p \<in> set d. snd p = name (fst p)"
  shows "(\<forall>p \<in> set (foldl (\<lambda>d f. AList.update f (name f) d) d fs). snd p = name (fst p))
    \<and> fst ` set (foldl (\<lambda>d f. AList.update f (name f) d) d fs) = fst ` set d \<union> set fs"
  using assms
proof (induction fs arbitrary: d)
  case (Cons f fs)
  have "\<forall>p \<in> set (AList.update f (name f) d). snd p = name (fst p)"
    using Cons.prems by (induction d) auto
  from Cons.IH [OF this] show ?case by (simp add: dom_update Un_commute)
qed simp

lemma resolved_keepers:
  assumes "resolve_keepers s suffixes [] = Inr keepers"
  shows "set (map snd keepers) = (\<lambda>f. hd (matching_suffix s f)) ` set suffixes"
    and "u \<in> set (users s) \<Longrightarrow>
      u_identifier u \<in> set (map snd keepers) \<longleftrightarrow> (\<exists>f \<in> set suffixes. like (37 # f) (u_identifier u))"
proof -
  have r: "\<forall>f \<in> set suffixes. length (matching_suffix s f) = 1"
    "keepers = foldl (\<lambda>d f. AList.update f (hd (matching_suffix s f)) d) [] suffixes"
    using assms by (auto simp: resolve_keepers_Inr)
  have v: "(\<forall>p \<in> set keepers. snd p = hd (matching_suffix s (fst p))) \<and> fst ` set keepers = set suffixes"
    using keepers_values [of "[]" "\<lambda>f. hd (matching_suffix s f)" suffixes] r(2) by simp
  have "snd ` set keepers = (\<lambda>f. hd (matching_suffix s f)) ` (fst ` set keepers)"
    unfolding image_image using v by (intro image_cong) auto
  with v show kept: "set (map snd keepers) = (\<lambda>f. hd (matching_suffix s f)) ` set suffixes" by simp
  show "u_identifier u \<in> set (map snd keepers) \<longleftrightarrow> (\<exists>f \<in> set suffixes. like (37 # f) (u_identifier u))"
    if "u \<in> set (users s)"
  proof
    assume "u_identifier u \<in> set (map snd keepers)"
    then obtain f where f: "f \<in> set suffixes" "u_identifier u = hd (matching_suffix s f)" unfolding kept by blast
    then have "u_identifier u \<in> set (matching_suffix s f)" using r(1) by (cases "matching_suffix s f") auto
    with f(1) show "\<exists>f \<in> set suffixes. like (37 # f) (u_identifier u)" by (auto simp: matching_suffix_def)
  next
    assume "\<exists>f \<in> set suffixes. like (37 # f) (u_identifier u)"
    then obtain f where f: "f \<in> set suffixes" "like (37 # f) (u_identifier u)" by blast
    then have "u_identifier u \<in> set (matching_suffix s f)" using that by (auto simp: matching_suffix_def)
    then have "u_identifier u = hd (matching_suffix s f)" using r(1) f(1) by (cases "matching_suffix s f") auto
    with f(1) show "u_identifier u \<in> set (map snd keepers)" unfolding kept by blast
  qed
qed

lemma safe_to_reset:
  "check_safe_to_reset s = Inr x \<longleftrightarrow> (\<forall>c \<in> set (redemption_codes s). rc_redeemed_at c = None)
     \<and> coin_ledger_entries s = [] \<and> wallets s = [] \<and> audit_log s = []"
  by (auto simp: check_safe_to_reset_def Let_def count_where_0)

lemma without_users_codes:
  assumes "codes_ok s" "\<forall>c \<in> set (redemption_codes s). rc_redeemed_at c = None"
  shows "redemption_codes (without_users gone s) = redemption_codes s"
proof -
  have "c\<lparr>rc_redeemed_by_user_id := unlink gone (rc_redeemed_by_user_id c)\<rparr> = c" if "c \<in> set (redemption_codes s)" for c
    using assms that by (simp add: codes_ok_def unlink_def)
  then show ?thesis by (simp add: without_users_def map_idI)
qed

text \<open>The deletion, once the checks have passed: it is done whole or not at all.\<close>

lemma reset_safe:
  assumes "check_safe_to_reset s = Inr ()" "resolve_keepers s suffixes [] = Inr keepers"
  defines "gone \<equiv> u_id ` set (filter (\<lambda>u. u_identifier u \<notin> set (map snd keepers)) (users s))"
  shows "(\<exists>e. reset suffixes s = (Inl (Raised e), s))
    \<or> (\<exists>n. reset suffixes s = (Inr (keepers, n), without_users gone s) \<and> length (users (without_users gone s)) = length keepers)"
proof -
  have "\<not> restricts gone s" using assms(1) by (simp add: safe_to_reset restricts_def)
  then have d: "delete_users_except (map snd keepers) s =
      Inr (count_where (\<lambda>u. u_identifier u \<notin> set (map snd keepers)) (users s), without_users gone s)"
    by (simp add: delete_users_except_def gone_def Let_def)
  show ?thesis
    by (simp add: reset_def in_transaction_def reset_body_def tx_bind_def assms(1,2) d tx_return_def tx_read_def tx_raise_def)
qed

lemma kept_users:
  assumes "users_ok s"
  shows "users (without_users (u_id ` set (filter (\<lambda>u. u_identifier u \<notin> K) (users s))) s) = filter (\<lambda>u. u_identifier u \<in> K) (users s)"
proof -
  have "u_id u \<in> u_id ` set (filter (\<lambda>u. u_identifier u \<notin> K) (users s)) \<longleftrightarrow> u_identifier u \<notin> K" if "u \<in> set (users s)" for u
  proof
    assume "u_id u \<in> u_id ` set (filter (\<lambda>u. u_identifier u \<notin> K) (users s))"
    then obtain v where v: "v \<in> set (users s)" "u_identifier v \<notin> K" "u_id v = u_id u" by auto
    have "v = u" using assms that v(1,3) unfolding users_ok_def by (blast dest: distinct_key_eq)
    with v(2) show "u_identifier u \<notin> K" by simp
  qed (use that in auto)
  then show ?thesis by (auto simp: without_users_def intro!: filter_cong)
qed

lemma one_user_left:
  assumes "users_ok s" "resolve_keepers s suffixes [] = Inr keepers" "f \<in> set suffixes" "plain f"
    and "users t = filter (\<lambda>u. \<exists>f \<in> set suffixes. \<exists>p. u_identifier u = p @ f) (users s)"
  shows "\<exists>!u. u \<in> set (users t) \<and> (\<exists>p. u_identifier u = p @ f)"
proof -
  have "length (matching_suffix s f) = 1" using assms(2,3) by (simp add: resolve_keepers_Inr)
  then obtain u where u: "filter (\<lambda>u. like (37 # f) (u_identifier u)) (users s) = [u]"
    by (auto simp: matching_suffix_def length_Suc_conv)
  have iff: "v \<in> set (users t) \<and> (\<exists>p. u_identifier v = p @ f) \<longleftrightarrow> v = u" for v
  proof -
    have "v \<in> set (users t) \<and> (\<exists>p. u_identifier v = p @ f)
        \<longleftrightarrow> v \<in> set (filter (\<lambda>u. like (37 # f) (u_identifier u)) (users s))"
      using assms(3) by (auto simp: assms(5) like_ends [OF assms(4)])
    then show ?thesis by (simp only: u) simp
  qed
  show ?thesis unfolding iff by simp
qed

text \<open>
  C19: the reset before launch. \<open>scripts/reset_test_users.py\<close> never fails with a database error: it either changes nothing, or it was
  given \<open>--yes\<close> and at least one suffix, exits with 0, and then the players left are exactly those whose
  phone number ends with one of the suffixes given, each of the suffixes names exactly one of them, no printed code and
  no batch changed, no code had been redeemed, and there were no coins, wallets or audit rows to lose. Rows that belong to
  a player (sessions, passports, memberships, referrals) are left only where she is.
\<close>

theorem reset_keeps_exactly:
  assumes "users_ok s" "codes_ok s" "\<forall>f \<in> set suffixes. plain f"
    and "reset_main suffixes yes s = (r, t)"
  shows "\<exists>code. r = Inr code \<and> (t = s \<or>
     code = 0 \<and> yes \<and> suffixes \<noteq> []
     \<and> users t = filter (\<lambda>u. \<exists>f \<in> set suffixes. \<exists>p. u_identifier u = p @ f) (users s)
     \<and> (\<forall>f \<in> set suffixes. \<exists>!u. u \<in> set (users t) \<and> (\<exists>p. u_identifier u = p @ f))
     \<and> redemption_codes t = redemption_codes s \<and> code_batches t = code_batches s
     \<and> (\<forall>c \<in> set (redemption_codes s). rc_redeemed_at c = None)
     \<and> wallets t = [] \<and> coin_ledger_entries t = [] \<and> audit_log t = []
     \<and> (\<forall>x \<in> set (auth_sessions t). x \<in> set (auth_sessions s)
         \<and> (se_user_id x \<in> u_id ` set (users s) \<longrightarrow> se_user_id x \<in> u_id ` set (users t))))"
proof (cases "suffixes = [] \<or> (\<exists>e. check_safe_to_reset s = Inl e) \<or> (\<exists>e. resolve_keepers s suffixes [] = Inl e) \<or> \<not> yes")
  case True
  then show ?thesis using assms(4) by (auto simp: reset_main_def split: sum.splits if_splits)
next
  case False
  then obtain keepers where k: "check_safe_to_reset s = Inr ()" "resolve_keepers s suffixes [] = Inr keepers" "suffixes \<noteq> []" "yes"
    by (auto split: sum.splits) (metis (full_types) old.unit.exhaust sum.exhaust_sel)
  let ?K = "set (map snd keepers)"
  let ?gone = "u_id ` set (filter (\<lambda>u. u_identifier u \<notin> ?K) (users s))"
  from reset_safe [OF k(1,2)] show ?thesis
  proof (elim disjE exE conjE)
    fix e assume "reset suffixes s = (Inl (Raised e), s)"
    with k assms(4) show ?thesis by (auto simp: reset_main_def)
  next
    fix n assume deleted: "reset suffixes s = (Inr (keepers, n), without_users ?gone s)"
    have t: "r = Inr 0" "t = without_users ?gone s" using k assms(4) deleted by (simp_all add: reset_main_def)
    have ends: "(\<exists>f \<in> set suffixes. \<exists>p. u_identifier u = p @ f) \<longleftrightarrow> u_identifier u \<in> ?K" if "u \<in> set (users s)" for u
      using resolved_keepers(2) [OF k(2) that] assms(3) by (simp add: like_ends)
    have left: "users t = filter (\<lambda>u. \<exists>f \<in> set suffixes. \<exists>p. u_identifier u = p @ f) (users s)"
      unfolding t(2) kept_users [OF assms(1)] using ends by (intro filter_cong) auto
    have safe: "(\<forall>c \<in> set (redemption_codes s). rc_redeemed_at c = None) \<and> coin_ledger_entries s = [] \<and> wallets s = [] \<and> audit_log s = []"
      using k(1) by (simp add: safe_to_reset)
    have one: "\<exists>!u. u \<in> set (users t) \<and> (\<exists>p. u_identifier u = p @ f)" if f: "f \<in> set suffixes" for f
      by (rule one_user_left [OF assms(1) k(2) f _ left]) (use assms(3) f in blast)
    have sessions: "x \<in> set (auth_sessions s) \<and> (se_user_id x \<in> u_id ` set (users s) \<longrightarrow> se_user_id x \<in> u_id ` set (users t))"
      if "x \<in> set (auth_sessions t)" for x
      using that by (auto simp: t(2) without_users_def)
    have same: "redemption_codes t = redemption_codes s" "code_batches t = code_batches s" "wallets t = []"
      "coin_ledger_entries t = []" "audit_log t = []"
      using safe without_users_codes [OF assms(2), of ?gone] by (simp_all add: t(2), simp_all add: without_users_def)
    show ?thesis
      by (rule exI [of _ 0], rule conjI [OF t(1)], rule disjI2, intro conjI ballI; (rule refl k(3,4) left same conjunct1 [OF safe])?)
         (use one sessions safe in blast)+
  qed
qed

definition tester :: UserModel where
  "tester = adult_user\<lparr>u_id := 2, u_identifier := cp ''+989350000000'', u_nickname := None, u_nickname_key := None\<rparr>"

definition before_launch :: database where
  "before_launch = one_user\<lparr>users := [adult_user, tester], code_batches := [sample_batch], redemption_codes := [fresh_code],
     auth_sessions := [member_session, member_session\<lparr>se_id := 2, se_user_id := 2\<rparr>]\<rparr>"

lemma before_launch_ok: "users_ok before_launch" "codes_ok before_launch"
proof -
  have "users before_launch = [adult_user, tester]" by (simp add: before_launch_def)
  moreover have "u_id adult_user \<noteq> u_id tester" "u_nickname_key tester = None" by (simp_all add: adult_user_def tester_def)
  moreover have "drop 4 (u_identifier adult_user) \<noteq> drop 4 (u_identifier tester)" by (simp add: adult_user_def tester_def)
  ultimately show "users_ok before_launch" by (auto simp: users_ok_def)
  show "codes_ok before_launch"
    by (simp add: before_launch_def codes_ok_def one_user_def empty_database_def sample_batch_def fresh_code_def)
qed

lemma before_launch_keepers: "resolve_keepers before_launch [cp ''6789''] [] = Inr [(cp ''6789'', u_identifier adult_user)]"
  by (simp add: matching_suffix_def before_launch_def adult_user_def tester_def)

lemma before_launch_reset: "\<exists>t. reset_main [cp ''6789''] True before_launch = (Inr 0, t) \<and> t \<noteq> before_launch"
proof -
  have safe: "check_safe_to_reset before_launch = Inr ()"
    by (simp add: safe_to_reset before_launch_def one_user_def empty_database_def fresh_code_def)
  have gone: "u_id ` set (filter (\<lambda>u. u_identifier u \<notin> set (map snd [(cp ''6789'', u_identifier adult_user)])) (users before_launch)) = {2}"
    by (simp add: before_launch_def adult_user_def tester_def)
  have left: "users (without_users {2} before_launch) = [adult_user]" "users before_launch = [adult_user, tester]"
    by (simp_all add: without_users_def before_launch_def adult_user_def tester_def)
  have "reset [cp ''6789''] before_launch = (Inr ([(cp ''6789'', u_identifier adult_user)],
      count_where (\<lambda>u. u_identifier u \<notin> {u_identifier adult_user}) (users before_launch)), without_users {2} before_launch)"
    using safe before_launch_keepers gone left
    by (simp add: reset_def in_transaction_def reset_body_def tx_bind_def tx_return_def tx_read_def delete_users_except_def
      restricts_def Let_def before_launch_def one_user_def empty_database_def)
  then show ?thesis using safe before_launch_keepers left by (auto simp: reset_main_def)
qed

theorem reset_keeps_exactly_witness:
  "\<exists>t. reset_main [cp ''6789''] True before_launch = (Inr 0, t) \<and> users t = [adult_user]
     \<and> redemption_codes t = [fresh_code] \<and> (\<forall>x \<in> set (auth_sessions t). se_user_id x = 1)"
proof -
  obtain t where t: "reset_main [cp ''6789''] True before_launch = (Inr 0, t)" "t \<noteq> before_launch"
    using before_launch_reset by blast
  have plain: "\<forall>f \<in> set [cp ''6789'']. plain f" by (simp add: plain_def)
  have r: "users t = filter (\<lambda>u. \<exists>f \<in> set [cp ''6789'']. \<exists>p. u_identifier u = p @ f) (users before_launch)"
    "redemption_codes t = redemption_codes before_launch"
    "\<forall>x \<in> set (auth_sessions t). x \<in> set (auth_sessions before_launch)
      \<and> (se_user_id x \<in> u_id ` set (users before_launch) \<longrightarrow> se_user_id x \<in> u_id ` set (users t))"
    using reset_keeps_exactly [OF before_launch_ok plain t(1)] t(2) by blast+
  have ends: "(\<exists>p. w = p @ cp ''6789'') \<longleftrightarrow> drop (length w - 4) w = cp ''6789''" for w
    by (auto simp: append_eq_conv_conj) (metis append_take_drop_id)
  have u: "users t = [adult_user]"
    unfolding r(1) by (simp add: ends before_launch_def del: cp_Cons) (simp add: adult_user_def tester_def)
  moreover have "\<forall>x \<in> set (auth_sessions t). se_user_id x = 1"
    using r(3) by (auto simp: u before_launch_def adult_user_def tester_def member_session_def)
  ultimately show ?thesis using t(1) r(2) by (simp add: before_launch_def)
qed

definition admin_tables :: database where
  "admin_tables = one_user\<lparr>users := [adult_user\<lparr>u_role := ADMIN\<rparr>]\<rparr>"

theorem demoted_admin_locked_out_witness:
  "\<exists>t. (admins_main (Demote (cp ''0912 345 6789'')) :: (unit, int) act) admin_tables = (Inr 0, t)
     \<and> get_active_admin admin_tables 1 \<noteq> None \<and> get_active_admin t 1 = None"
proof -
  let ?u = "adult_user\<lparr>u_role := ADMIN\<rparr>"
  have ok: "auth_ok admin_tables" "?u \<in> set (users admin_tables)"
    by (simp_all add: admin_tables_def auth_ok_def users_ok_def one_user_def empty_database_def)
  have phone: "u_identifier ?u = resolve_identifier (cp ''0912 345 6789'')"
    by (simp add: resolve_identifier_def normalize_iranian_mobile_def clean_phone_def translate_digit_def is_decimal_ascii
      strip_country_def COUNTRY_PREFIXES_def starts_with_def is_subscriber_def adult_user_def)
  obtain out t where run: "(admins_main (Demote (cp ''0912 345 6789'')) :: (unit, int) act) admin_tables = (out, t)"
    by fastforce
  have "get_active_admin admin_tables 1 \<noteq> None"
    by (simp add: get_active_admin_def get_by_id_def user_row_def admin_tables_def is_active_admin_def user_from_model_def adult_user_def)
  moreover have "u_id ?u = 1" by (simp add: adult_user_def)
  ultimately show ?thesis using demoted_admin_locked_out [OF ok phone run] run by metis
qed

end
