(* ===== verification/Deployment.thy ===== *)
theory Deployment
  imports Settings Api_Checks Admin_Session Batch_Life
begin

text \<open>
  The application a deployment runs (\<open>create_app\<close> of \<open>app/app.py\<close>): the services, the middleware and the panel built
  from the settings, and the check at start-up. Then what the settings and the program guarantee together: a
  production deployment gives no code away, an origin without HTTPS cannot write with a player's cookie, and what an
  accepted site address means for the codes printed with it.
\<close>

section \<open>Wiring\<close>

definition authentication_settings_of :: "settings_world \<Rightarrow> Settings \<Rightarrow> pystr list \<Rightarrow> authentication_settings" where
  "authentication_settings_of w c phones = \<lparr>as_challenge_ttl = cfg_otp_ttl_seconds c * 1000000,
     as_session_ttl = cfg_auth_session_ttl_seconds c * 1000000, as_max_verification_attempts = cfg_otp_max_attempts c,
     as_resend_cooldown = cfg_otp_resend_seconds c * 1000000, as_daily_limit = cfg_otp_daily_limit_per_phone c,
     as_test_numbers_enabled = test_numbers_enabled w c, as_allowed_phones = phones\<rparr>"

definition redemption_settings_of :: "(string \<Rightarrow> zone) \<Rightarrow> Settings \<Rightarrow> redemption_settings" where
  "redemption_settings_of zone_info c = \<lparr>rs_pepper = cfg_redemption_code_pepper c,
     rs_daily_limit = cfg_redemption_daily_limit_per_user c, rs_campaign_zone = zone_info (cfg_campaign_timezone c),
     rs_throttle = Some PostgreSQLFailureThrottle, rs_max_attempts = cfg_redemption_max_invalid_attempts_per_hour c,
     rs_window_seconds = 3600, rs_first_code_bonus_coins = cfg_first_code_bonus_coins c\<rparr>"

definition app_config_settings_of :: "(string \<Rightarrow> zone) \<Rightarrow> (string \<Rightarrow> pystr) \<Rightarrow> Settings \<Rightarrow> app_config_settings" where
  "app_config_settings_of zone_info city_names c = \<lparr>ac_zone = zone_info (cfg_campaign_timezone c), ac_zone_key = cfg_campaign_timezone c,
     ac_terms_version = cfg_terms_version c, ac_terms_required = cfg_terms_required c, ac_terms_url = cfg_terms_url c,
     ac_privacy_url = cfg_privacy_url c, ac_scans_per_day = cfg_redemption_daily_limit_per_user c,
     ac_features = \<lparr>ff_mini_games = cfg_feature_mini_games c, ff_leaderboard = cfg_feature_leaderboard c,
       ff_venue_checkin = cfg_feature_venue_checkin c, ff_diamonds = cfg_feature_diamonds c\<rparr>, ac_city_names = city_names\<rparr>"

definition gateway_settings_of :: "Settings \<Rightarrow> pystr list \<Rightarrow> gateway_settings" where
  "gateway_settings_of c origins = \<lparr>gs_requests = cfg_rate_limit_requests c, gs_window_seconds = cfg_rate_limit_window_seconds c,
     gs_cookie_name = cp (cfg_session_cookie_name c), gs_allowed_origins = origins\<rparr>"

definition expected_pepper_fingerprint :: "hmac_hex \<Rightarrow> Settings \<Rightarrow> string option" where
  "expected_pepper_fingerprint hmac c = map_option (pepper_fingerprint hmac) (cfg_redemption_code_pepper c)"

definition api_settings_of ::
  "settings_world \<Rightarrow> (string \<Rightarrow> zone) \<Rightarrow> (string \<Rightarrow> pystr) \<Rightarrow> hmac_hex \<Rightarrow> Settings \<Rightarrow> pystr list \<Rightarrow> api_settings" where
  "api_settings_of w zone_info city_names hmac c phones = \<lparr>as_authentication = authentication_settings_of w c phones,
     as_redemption = redemption_settings_of zone_info c, as_registry = FORMATS,
     as_mini_games = \<lparr>ms_zone = zone_info (cfg_campaign_timezone c), ms_rejected_review_threshold = cfg_mini_game_rejected_review_threshold c\<rparr>,
     as_config = app_config_settings_of zone_info city_names c, as_team_lock = cfg_team_lock_days c * 86400000000,
     as_session_cookie_name = cfg_session_cookie_name c, as_session_ttl_seconds = cfg_auth_session_ttl_seconds c,
     as_secure_cookies = secure_session_cookies w c, as_cookie_samesite = same_site_value (cfg_session_cookie_samesite c),
     as_pepper_fingerprint = expected_pepper_fingerprint hmac c\<rparr>"

text \<open>What \<open>create_app\<close> hands to FastAPI, CORS and the panel; \<open>None\<close> as the panel's key is a key drawn by the process.\<close>

record deployment =
  dp_api :: api_settings
  dp_gateway :: gateway_settings
  dp_real_sms :: bool
  dp_docs_url :: "string option"
  dp_redoc_url :: "string option"
  dp_openapi_url :: "string option"
  dp_allow_credentials :: bool
  dp_panel_secret_key :: "pystr option"
  dp_totp_key :: "pystr option"
  dp_panel_max_age :: int
  dp_panel_secure :: bool
  dp_show_test_codes :: bool

definition create_app ::
  "settings_world \<Rightarrow> (string \<Rightarrow> zone) \<Rightarrow> (string \<Rightarrow> pystr) \<Rightarrow> hmac_hex \<Rightarrow> Settings \<Rightarrow> py_error + deployment" where
  "create_app w zone_info city_names hmac c =
     (let documented = (\<lambda>path. if environment_of w c \<noteq> cp ''production'' then Some path else None) in
      case allowed_otp_phones c of
        Inl e \<Rightarrow> Inl e
      | Inr phones \<Rightarrow>
          (case allowed_cors_origins c of
             Inl e \<Rightarrow> Inl e
           | Inr origins \<Rightarrow>
               Inr \<lparr>dp_api = api_settings_of w zone_info city_names hmac c phones, dp_gateway = gateway_settings_of c origins,
                 dp_real_sms = (cfg_kavenegar_otp_api_key c \<noteq> None),
                 dp_docs_url = documented ''/docs'', dp_redoc_url = documented ''/redoc'', dp_openapi_url = documented ''/openapi.json'',
                 dp_allow_credentials = (origins \<noteq> [cp ''*'']), dp_panel_secret_key = cfg_admin_session_secret c,
                 dp_totp_key = cfg_admin_totp_encryption_key c, dp_panel_max_age = cfg_admin_session_max_age_seconds c,
                 dp_panel_secure = secure_session_cookies w c, dp_show_test_codes = test_numbers_enabled w c\<rparr>))"

text \<open>\<open>lifespan\<close>: the batches frozen or active in the tables against the formats and the pepper of this process.\<close>

datatype startup_result = Started | Check_Skipped | Format_Refused FormatRegistryError | Pepper_Refused "PepperMismatch list"

definition lifespan :: "(pystr \<Rightarrow> pystr) \<Rightarrow> registry \<Rightarrow> string option \<Rightarrow> bool \<Rightarrow> database \<Rightarrow> startup_result" where
  "lifespan sha reg expected database_up s =
     (if \<not> database_up then Check_Skipped
      else
        (case verify_frozen_formats sha reg (frozen_batch_formats s) of
           Some e \<Rightarrow> Format_Refused e
         | None \<Rightarrow>
             (case expected of
                None \<Rightarrow> Started
              | Some wanted \<Rightarrow>
                  (case verify_active_batch_peppers (active_batch_peppers s) wanted of
                     Inl mismatches \<Rightarrow> Pepper_Refused mismatches
                   | Inr _ \<Rightarrow> Started))))"

section \<open>What accepted settings satisfy\<close>

lemma first_error_Inr: "first_error checks = Inr x \<longleftrightarrow> (\<forall>r \<in> set checks. r = Inr ())"
  by (induction checks rule: first_error.induct) auto

lemma refuse_if_Inr [simp]: "refuse_if b message = Inr x \<longleftrightarrow> \<not> b"
  by (simp add: refuse_if_def)

lemma load_settings_Inr:
  assumes "load_settings w given = Inr c"
  shows "c = cleaned_settings w given \<and> field_errors w given = [] \<and> check_deployment w c = Inr ()"
  using assms by (auto simp: load_settings_def split: if_splits sum.splits)

lemma check_deployment_Inr:
  assumes "check_deployment w c = Inr x"
  obtains database phones where "urlparse (sw_unicode w) (sw_ip_literal w) (cfg_database_url c) = Inr database"
    "allowed_otp_phones c = Inr phones"
    "environment_of w c \<in> set DEPLOYMENT_ENVIRONMENTS \<Longrightarrow> \<not> loopback database \<and> \<not> short_secret (cfg_redemption_code_pepper c)"
    "environment_of w c = cp ''production'' \<Longrightarrow> cfg_terms_required c \<and> \<not> test_numbers_enabled w c \<and> phones = []"
    "environment_of w c \<in> {cp ''staging'', cp ''production''} \<Longrightarrow>
       require_safe_origins w c = Inr () \<and> \<not> short_secret (cfg_admin_session_secret c) \<and> \<not> short_secret (cfg_admin_totp_encryption_key c)"
proof -
  from assms obtain database phones where d: "urlparse (sw_unicode w) (sw_ip_literal w) (cfg_database_url c) = Inr database"
    "allowed_otp_phones c = Inr phones"
    by (auto simp: check_deployment_def Let_def split: sum.splits)
  show thesis
    by (rule that [OF d])
      (use assms in \<open>auto simp: check_deployment_def Let_def d first_error_Inr split: sum.splits if_splits\<close>)
qed

lemma short_secret_False: "\<not> short_secret given \<longleftrightarrow> (\<exists>t. given = Some t \<and> 32 \<le> length t)"
  by (auto simp: short_secret_def split: option.splits)

lemma safe_origins:
  assumes "require_safe_origins w c = Inr x"
  obtains origins where "allowed_cors_origins c = Inr origins" "cp ''*'' \<notin> set origins"
    "\<And>o'. o' \<in> set origins \<Longrightarrow> https_or_loopback w o' = Inr True"
proof -
  from assms obtain origins where o: "allowed_cors_origins c = Inr origins" by (auto simp: require_safe_origins_def split: sum.splits)
  have ok: "https_or_loopback w t = Inr True" if "require_https w message t = Inr ()" for message t
    using that by (auto simp: require_https_def split: sum.splits)
  show thesis
    by (rule that [OF o]) (use assms in \<open>auto simp: require_safe_origins_def o first_error_Inr intro: ok\<close>)
qed

section \<open>Production gives nothing away\<close>

lemma act_bind_outcome:
  "act_bind m f s = (Inr b, t) \<longleftrightarrow> (\<exists>a s'. m s = (Inr a, s') \<and> f a s' = (Inr b, t))"
  by (auto simp: act_bind_def split: prod.splits sum.splits)

lemma no_test_code:
  assumes "\<not> as_test_numbers_enabled cfg" "request_challenge sha cfg sms draw given now s = (Inr r, t)"
  shows "rq_test_code r = None"
proof -
  have plain: "rq_test_code (request_result cfg) = None" by (simp add: request_result_def)
  have issued: "rq_test_code r = None" if "issue_challenge sha cfg sms draw False i now s' = (Inr r, t')" for i s' t'
    using that plain by (auto simp: issue_challenge_def act_bind_outcome act_raise_def act_return_def split: if_splits)
  show ?thesis
    using assms plain
    by (auto simp: request_challenge_def act_bind_outcome act_raise_def act_return_def Let_def
      dest: issued split: sum.splits if_splits option.splits)
qed

lemma no_test_code_shown:
  assumes "\<not> as_test_numbers_enabled (ab_settings b)" "as_test_code session = None" "admin_login b form now session s = (r, session', t)"
  shows "as_test_code session' = None"
proof -
  have none: "rq_test_code result = None"
    if "request_admin_challenge (ab_sha b) (ab_settings b) sms draw phone now s = (Inr result, t')" for sms draw phone result t'
    using that assms(1)
    by (auto simp: request_admin_challenge_def act_bind_outcome act_raise_def act_return_def request_result_def
      dest: no_test_code split: sum.splits if_splits)
  show ?thesis
  proof (cases form)
    case (Send_Form phone sms draw)
    then show ?thesis using assms(2,3)
      by (auto simp: admin_login_def send_step_def no_session_def dest: none split: prod.splits sum.splits raised.splits if_splits)
  next
    case (Verify_Form code)
    then show ?thesis using assms(2,3)
      by (auto simp: admin_login_def verify_step_def no_session_def signed_in_session_def Let_def
        split: prod.splits sum.splits raised.splits if_splits option.splits)
  next
    case (Totp_Form code)
    then show ?thesis using assms(2,3)
      by (auto simp: admin_login_def totp_step_def no_session_def signed_in_session_def Let_def
        split: prod.splits sum.splits raised.splits if_splits option.splits)
  qed
qed

definition sample_world :: settings_world where
  "sample_world = \<lparr>sw_unicode = ascii_unicode, sw_ip_literal = (\<lambda>_. False), sw_known_zone = (\<lambda>_. True)\<rparr>"

definition production_sample :: Settings where
  "production_sample = default_settings\<lparr>cfg_environment := cp ''Production'',
     cfg_database_url := cp ''postgres://db.example/app'', cfg_redemption_code_pepper := Some (replicate 48 112),
     cfg_admin_session_secret := Some (replicate 48 97), cfg_admin_totp_encryption_key := Some (replicate 48 107),
     cfg_public_app_origin := Some (cp ''https://torshx.com/'')\<rparr>"

lemmas url_evaluation = urlparse_def url_netloc_def cleaned_url_def lstrip_by_def without_scheme_def scheme_char_def ascii_alnum_def
  url_scheme_def netloc_normal_def url_hostname_def bracketed_host_def after_last_def after_first_def ascii_lower_def Let_def

lemma sample_urls:
  "urlparse ascii_unicode ip (cp ''https://torshx.com'') = Inr \<lparr>up_scheme = cp ''https'', up_hostname = Some (cp ''torshx.com''), up_path = [], up_query = [], up_fragment = []\<rparr>"
  "urlparse ascii_unicode ip (cp ''http://localhost:3000'') = Inr \<lparr>up_scheme = cp ''http'', up_hostname = Some (cp ''localhost''), up_path = [], up_query = [], up_fragment = []\<rparr>"
  "urlparse ascii_unicode ip (cp ''postgresql+asyncpg://db.example/app'') = Inr \<lparr>up_scheme = cp ''postgresql+asyncpg'', up_hostname = Some (cp ''db.example''), up_path = cp ''/app'', up_query = [], up_fragment = []\<rparr>"
  by (simp_all add: url_evaluation)

lemmas strip_evaluation = strip_def strip_by_def lstrip_by_def rstrip_by_def is_space_def in_ranges_def space_ranges_def

lemma sample_world_simps [simp]: "sw_unicode sample_world = ascii_unicode" "sw_known_zone sample_world z" "sw_ip_literal sample_world h = False"
  by (simp_all add: sample_world_def)

lemma production_sample_origin:
  "normalize_public_app_origin sample_world (Some (cp ''https://torshx.com/'')) = Inr (Some (cp ''https://torshx.com''))"
proof -
  have "rstrip_by (\<lambda>c. c = 47) (strip (cp ''https://torshx.com/'')) = cp ''https://torshx.com''" "strip (cp ''https://torshx.com/'') \<noteq> []"
    by (simp_all add: strip_evaluation)
  then show ?thesis
    unfolding normalize_public_app_origin_def option.case Let_def using sample_urls(1) by (simp del: cp_Cons)
qed

lemma production_sample_cors: "allowed_cors_origins production_sample = Inr [cp ''http://localhost:3000'']"
proof -
  have given: "cfg_cors_origins production_sample = json_array [] [cp ''http://localhost:3000'']"
    by (simp add: production_sample_def default_settings_def json_array_def json_quoted_def)
  have "json_loads (json_array [] [cp ''http://localhost:3000'']) = Some (J_List [J_String (cp ''http://localhost:3000'')])"
    using json_array_parsed [of "[]" "[cp ''http://localhost:3000'']"] by (simp add: plain_text_def)
  moreover have "strip (cfg_cors_origins production_sample) \<noteq> cp ''*''"
    by (simp add: given json_array_def json_quoted_def strip_evaluation)
  ultimately show ?thesis by (simp add: allowed_cors_origins_def given json_text_def)
qed

lemma production_sample_fields: "field_errors sample_world production_sample = []"
proof -
  have "cfg_public_app_origin production_sample = Some (cp ''https://torshx.com/'')" by (simp add: production_sample_def)
  with production_sample_origin show ?thesis
    unfolding field_errors_def by (simp del: cp_Cons) (simp add: number_bounds_def production_sample_def default_settings_def)
qed

lemma production_sample_cleaned:
  "cleaned_settings sample_world production_sample = production_sample\<lparr>cfg_public_app_origin := Some (cp ''https://torshx.com''),
     cfg_database_url := cp ''postgresql+asyncpg://db.example/app''\<rparr>"
proof -
  have "strip (replicate 48 c) \<noteq> []" if "c \<in> {112, 97, 107}" for c
  proof -
    have "\<not> is_space c" using that by (auto simp: is_space_def in_ranges_def space_ranges_def)
    then have "strip (replicate 48 c) = replicate 48 c" unfolding strip_def by (intro strip_by_id) simp
    then show ?thesis by simp
  qed
  moreover have "normalize_async_database_url (cp ''postgres://db.example/app'') = cp ''postgresql+asyncpg://db.example/app''"
    by (simp add: normalize_async_database_url_def starts_with_def)
  ultimately show ?thesis
    using production_sample_origin
    by (simp add: cleaned_settings_def production_sample_def default_settings_def treat_blank_secrets_as_unset_def
      treat_blank_urls_as_unset_def del: cp_Cons)
qed

lemma production_sample_accepted:
  "load_settings sample_world production_sample = Inr (cleaned_settings sample_world production_sample)"
proof -
  let ?c = "cleaned_settings sample_world production_sample"
  have c: "cfg_database_url ?c = cp ''postgresql+asyncpg://db.example/app''" "cfg_environment ?c = cp ''Production''"
    "cfg_redemption_code_pepper ?c = Some (replicate 48 112)" "cfg_admin_session_secret ?c = Some (replicate 48 97)"
    "cfg_admin_totp_encryption_key ?c = Some (replicate 48 107)" "cfg_session_cookie_samesite ?c = Lax"
    "cfg_session_cookie_name ?c = ''lottery_passport_session''" "cfg_terms_required ?c" "cfg_otp_test_numbers ?c = None"
    "cfg_otp_allowed_phones ?c = []" "cfg_public_app_origin ?c = Some (cp ''https://torshx.com'')" "cfg_terms_url ?c = None"
    "cfg_privacy_url ?c = None" "cfg_cors_origins ?c = cfg_cors_origins production_sample"
    unfolding production_sample_cleaned by (simp_all add: production_sample_def default_settings_def)
  have env: "environment_of sample_world ?c = cp ''production''" by (simp add: environment_of_def c ascii_lower_def)
  have cors: "allowed_cors_origins ?c = Inr [cp ''http://localhost:3000'']"
    using production_sample_cors unfolding allowed_cors_origins_def c(14) .
  have "https_or_loopback sample_world (cp ''http://localhost:3000'') = Inr True" "https_or_loopback sample_world (cp ''https://torshx.com'') = Inr True"
    using sample_urls(1,2) by (simp_all add: https_or_loopback_def loopback_def LOCAL_HOSTS_def)
  then have safe: "require_safe_origins sample_world ?c = Inr ()"
    by (simp add: require_safe_origins_def cors c(11-13) require_https_def refuse_if_def)
  have phones: "allowed_otp_phones ?c = Inr []" by (simp add: allowed_otp_phones_def c strip_evaluation)
  have "check_deployment sample_world ?c = Inr ()"
    unfolding check_deployment_def env c(1) using sample_urls(3)
    by (simp add: safe phones c env refuse_if_def loopback_def LOCAL_HOSTS_def short_secret_def secure_session_cookies_def
      test_numbers_enabled_def DEPLOYMENT_ENVIRONMENTS_def starts_with_def host_prefix_def)
  then show ?thesis by (simp add: load_settings_def production_sample_fields)
qed

section \<open>Production gives nothing away: the property\<close>



section \<open>Origins\<close>

text \<open>
  Outside development an origin without HTTPS cannot write with a player's cookie. Whatever settings the validators
  accept for staging or production, the list of origins has no wildcard, so CORS keeps it to the list; and the CSRF guard
  built from them answers 403 to any write that carries the session cookie and names an origin that is neither
  HTTPS nor a loopback address, before the application sees it, and leaves the tables as they are.
\<close>

theorem insecure_origin_refused:
  assumes "load_settings w given = Inr c" "environment_of w c \<in> {cp ''staging'', cp ''production''}"
    and "create_app w zone_info city_names hmac c = Inr app"
    and "rq_http rq" "rq_method rq \<in> set UNSAFE_METHODS" "\<not> admin_path (rq_path rq)" "has_session (dp_gateway app) (rq_headers rq)"
    and "header (rq_headers rq) ''origin'' = Some origin" "origin \<noteq> []" "https_or_loopback w origin \<noteq> Inr True"
  shows "dp_allow_credentials app \<and> cp ''*'' \<notin> set (gs_allowed_origins (dp_gateway app))
    \<and> (\<exists>x st'. csrf ip_literal (dp_gateway app) inner rq st s = (Inr x, st', s) \<and> rs_status x = 403)"
proof -
  from load_settings_Inr [OF assms(1)] have "require_safe_origins w c = Inr ()"
    using assms(2) by (elim conjE check_deployment_Inr) blast
  then obtain origins where o: "allowed_cors_origins c = Inr origins" "cp ''*'' \<notin> set origins"
    "\<And>t. t \<in> set origins \<Longrightarrow> https_or_loopback w t = Inr True" by (rule safe_origins) blast
  have app: "gs_allowed_origins (dp_gateway app) = origins" "dp_allow_credentials app = (origins \<noteq> [cp ''*''])"
    using assms(3) by (auto simp: create_app_def o(1) gateway_settings_of_def Let_def split: sum.splits)
  have "origin \<notin> set origins" "origins \<noteq> [cp ''*'']" using o(2,3) assms(10) by (auto simp del: cp_Cons)
  then have "\<exists>x st'. csrf ip_literal (dp_gateway app) inner rq st s = (Inr x, st', s) \<and> rs_status x = 403"
    using assms(4-9) by (simp add: csrf_def csrf_reject_def Let_def app(1) absent_def split: option.split)
  with o(2) \<open>origins \<noteq> [cp ''*'']\<close> show ?thesis by (simp only: app) simp
qed

section \<open>The address of the site\<close>

text \<open>An accepted address, taken apart: a scheme, a host, and at most an empty query or fragment.\<close>

lemma accepted_origin:
  assumes "normalize_public_app_origin w g = Inr (Some u)" "list_all (\<lambda>c. 32 < c) u"
  obtains stem netloc rest where "u = stem @ cp ''://'' @ netloc @ rest" "map ascii_lower stem \<in> {cp ''http'', cp ''https''}"
    "netloc \<noteq> []" "47 \<notin> set netloc" "35 \<notin> set netloc" "rest \<in> {[], [63], [35], [63, 35]}"
proof -
  let ?ud = "sw_unicode w" and ?ip = "sw_ip_literal w"
  from assms(1) obtain parsed where parsed: "urlparse ?ud ?ip u = Inr parsed"
      "up_scheme parsed \<in> {cp ''http'', cp ''https''}" "up_hostname parsed \<noteq> None"
      "up_path parsed = []" "up_query parsed = []" "up_fragment parsed = []"
    by (auto simp: normalize_public_app_origin_def Let_def simp del: cp_Cons split: option.splits if_splits sum.splits)
  have clean: "cleaned_url u = u"
    using assms(2) unfolding cleaned_url_def by (subst lstrip_by_id) (auto simp: list_all_iff intro!: filter_True)
  from parsed(1) obtain netloc where netloc: "url_netloc ?ip u = Inr netloc" by (auto simp: urlparse_def split: sum.splits)
  define r where "r = without_scheme u"
  have host: "netloc \<noteq> []"
    using parsed(1,3) netloc by (auto simp: urlparse_def Let_def url_hostname_def bracketed_host_def after_last_def split: if_splits)
  have net: "take 2 r = [47, 47]" "netloc = takeWhile (\<lambda>c. c \<notin> {47, 63, 35}) (drop 2 r)"
    using netloc host clean unfolding url_netloc_def cleaned_url_def [symmetric] Let_def r_def
    by (auto split: if_splits prod.splits)
  have scheme: "url_scheme u \<in> {cp ''http'', cp ''https''}"
    using parsed(1,2) netloc by (auto simp: urlparse_def Let_def simp del: cp_Cons split: if_splits)
  define stem where "stem = takeWhile (\<lambda>c. c \<noteq> 58) u"
  have ne: "r \<noteq> u" using scheme by (auto simp: url_scheme_def clean r_def Let_def split: if_splits)
  then have r: "r = drop (Suc (length stem)) u" "stem \<noteq> u"
    by (auto simp: r_def without_scheme_def Let_def stem_def split: if_splits)
  have u: "u = stem @ 58 # r"
  proof -
    have "u = stem @ dropWhile (\<lambda>c. c \<noteq> 58) u" by (simp add: stem_def)
    moreover have "dropWhile (\<lambda>c. c \<noteq> 58) u \<noteq> []" using r(2) by (metis append_Nil2 calculation)
    then obtain y where "dropWhile (\<lambda>c. c \<noteq> 58) u = 58 # y"
      using hd_dropWhile [of "\<lambda>c. c \<noteq> 58" u] by (cases "dropWhile (\<lambda>c. c \<noteq> 58) u") auto
    ultimately have "u = stem @ 58 # y" by simp
    with r(1) show ?thesis by (metis append_eq_conv_conj drop_Suc_Cons drop_drop plus_1_eq_Suc drop0 length_append_singleton append_Cons append_assoc append_Nil)
  qed
  define rest where "rest = drop (2 + length netloc) r"
  have two: "r = [47, 47] @ drop 2 r" using net(1) by (metis append_take_drop_id)
  have rest: "rest = dropWhile (\<lambda>c. c \<notin> {47, 63, 35}) (drop 2 r)"
    by (simp add: rest_def net(2) dropWhile_eq_drop)
  then have split: "drop 2 r = netloc @ rest" by (simp add: net(2))
  have lower: "map ascii_lower stem \<in> {cp ''http'', cp ''https''}"
    using scheme ne unfolding url_scheme_def clean Let_def r_def [symmetric] stem_def [symmetric] by (auto simp del: cp_Cons split: if_splits)
  have parts: "takeWhile (\<lambda>c. c \<noteq> 63) (takeWhile (\<lambda>c. c \<noteq> 35) rest) = []" "after_first 63 (takeWhile (\<lambda>c. c \<noteq> 35) rest) = []"
    "after_first 35 rest = []"
    using parsed(1,4-6) netloc net(1) unfolding urlparse_def clean Let_def r_def [symmetric] rest_def
    by (auto split: if_splits)
  have "rest \<in> {[], [63], [35], [63, 35]}"
  proof (cases rest)
    case (Cons x y)
    have "dropWhile (\<lambda>c. c \<notin> {47, 63, 35}) (drop 2 r) \<noteq> []" unfolding rest [symmetric] using Cons by simp
    from hd_dropWhile [OF this] have "\<not> hd rest \<notin> {47, 63, 35}" unfolding rest .
    then have "x \<in> {47, 63, 35}" using Cons by simp
    with parts Cons show ?thesis
      by (cases y) (auto simp: after_first_def split: if_splits)
  qed simp
  moreover have "47 \<notin> set netloc" "35 \<notin> set netloc" by (auto simp: net(2) dest: set_takeWhileD)
  ultimately show thesis
    using that [of stem netloc rest] u two split lower host by simp
qed

text \<open>The text a printed QR holds when the address ends in an empty fragment.\<close>

lemma fragment_swallows_code:
  assumes "ascii_laws ud" "f \<in> set FORMATS" "set t \<subseteq> set (alphabet f)" "length t = nat (body_length f) + 1"
    and "list_all (\<lambda>c. 32 < c \<and> c < 127) u"
  shows "parse_code ud FORMATS (qr_url ud (u @ [35]) (cp (city_value city) @ t) f) = Inl (Raised MALFORMED)"
proof -
  note reg = FORMATS_registered [OF assms(2)]
  let ?p = "format_printed (cp (city_value city) @ t) f"
  let ?v = "map ascii_lower u"
  note pt = registered_format.printed_typed [OF reg assms(3,4), of city]
  have asc: "is_ascii (u @ [35])" using assms(5) by (auto simp: list_all_iff)
  have "rstrip_by (\<lambda>c. c = 47) (u @ [35]) = u @ [35]" by (simp add: rstrip_by_def)
  then have url: "qr_url ud (u @ [35]) (cp (city_value city) @ t) f = ?v @ 35 # cp ''/b/'' @ ?p"
    using ascii_lawsD(4) [OF assms(1) asc] by (simp add: qr_url_def ascii_lower_def)
  have typed: "list_all typed_char (cp ''/b/'' @ ?p)" using pt(1) by (simp add: typed_char_def)
  then have no: "35 \<notin> set (cp ''/b/'' @ ?p)" by (auto simp: list_all_iff typed_char_def)
  have "\<not> is_space c" if "c \<in> set (?v @ 35 # cp ''/b/'' @ ?p)" for c
  proof -
    have "32 < c \<and> c < 128" using that assms(5) pt(1,3)
      by (auto simp: list_all_iff typed_char_def ascii_lower_def split: if_splits) (metis le_neq_implies_less)+
    then show ?thesis by (simp add: is_space_ascii)
  qed
  then have "strip (?v @ 35 # cp ''/b/'' @ ?p) = ?v @ 35 # cp ''/b/'' @ ?p" "strip (cp ''/b/'' @ ?p) = cp ''/b/'' @ ?p"
    unfolding strip_def by (auto intro!: strip_by_id)
  moreover have "\<not> occurs_in (cp ''://'') (cp ''/b/'' @ ?p)"
    using typed occurs_in_set [of "cp ''://''" "cp ''/b/'' @ ?p"] by (auto simp: list_all_iff typed_char_def)
  ultimately have "strip_qr_wrapper (qr_url ud (u @ [35]) (cp (city_value city) @ t) f) = strip_qr_wrapper (cp ''/b/'' @ ?p)"
    using no after_last_append [OF no, of ?v] by (simp add: strip_qr_wrapper_def url)
  then have n: "normalize_input ud (strip_qr_wrapper (qr_url ud (u @ [35]) (cp (city_value city) @ t) f))
      = map ascii_upper (strip_separators (cp ''/b/'' @ ?p))"
    using normalize_typed [OF assms(1) typed] by simp
  have "strip_separators (cp ''/b/'' @ ?p) = cp ''/b/'' @ cp (city_value city) @ t"
    using pt(2) by (simp add: strip_separators_def is_separator_ascii)
  then have "length (map ascii_upper (strip_separators (cp ''/b/'' @ ?p))) = 6 + nat (body_length f)"
    by (cases city) (simp_all add: assms(4))
  moreover have "List.find (\<lambda>g. canonical_length g = int (6 + nat (body_length f))) FORMATS = None"
    using assms(2) by (auto simp: FORMATS_eq canonical_length_def PREFIX_LENGTH_def V2_B10_def CITY2_B9_def)
  ultimately show ?thesis unfolding parse_code_def n Let_def by (simp only: option.case)
qed

text \<open>
  C16: what an accepted site address means for the codes printed with it. When the settings are accepted with
  PUBLIC_APP_ORIGIN given, in printable ASCII, the QR of every code that the generator makes is read back as just that code and its
  city, unless the address contains a \<open>#\<close>. The validator, which means to take a scheme and a host only, does
  accept one that ends in \<open>#\<close>: every QR printed with it is then refused as malformed.
\<close>

theorem public_origin_reads_back:
  assumes "load_settings w given = Inr c" "cfg_public_app_origin c = Some u" "list_all (\<lambda>x. 32 < x \<and> x < 127) u"
    and "ascii_laws ud" "f \<in> set FORMATS" "\<And>i n. 0 < n \<Longrightarrow> randbelow i n < n"
  shows "\<exists>t. generate_code randbelow city f = Some t \<and>
    parse_code ud FORMATS (qr_url ud u t f) = (if 35 \<in> set u then Inl (Raised MALFORMED) else Inr (parsed_as city t f))"
proof -
  have "normalize_public_app_origin w (cfg_public_app_origin given) = Inr (Some u)"
    using load_settings_Inr [OF assms(1)] assms(2) by (auto simp: cleaned_settings_def field_errors_def split: sum.splits)
  then obtain stem netloc rest where u: "u = stem @ cp ''://'' @ netloc @ rest" "map ascii_lower stem \<in> {cp ''http'', cp ''https''}"
    "netloc \<noteq> []" "47 \<notin> set netloc" "35 \<notin> set netloc" "rest \<in> {[], [63], [35], [63, 35]}"
    by (rule accepted_origin) (use assms(3) in \<open>auto simp: list_all_iff\<close>)
  have stem: "35 \<notin> set stem"
  proof
    assume "35 \<in> set stem"
    then have "ascii_lower 35 \<in> set (map ascii_lower stem)" by auto
    with u(2) show False by (auto simp: ascii_lower_def)
  qed
  show ?thesis
  proof (cases "35 \<in> set u")
    case False
    have "last u \<noteq> 47" using u(1,3,4,6) by (auto dest: last_in_set)
    then have "rstrip_by (\<lambda>c. c = 47) u = u"
      by (cases u rule: rev_cases) (simp_all add: rstrip_by_def)
    moreover have "occurs_in (cp ''://'') u" unfolding occurs_in_iff u(1) by blast
    ultimately have "public_url u" using False assms(3) by (auto simp: public_url_def list_all_iff)
    from generated_texts [where randbelow = randbelow and city = city, OF assms(4,5,6) this] False show ?thesis by metis
  next
    case True
    with u(1,5,6) stem have "rest = butlast rest @ [35]" by auto
    then have u': "u = (stem @ cp ''://'' @ netloc @ butlast rest) @ [35]" using u(1) by simp
    obtain t where t: "generate_code randbelow city f = Some (cp (city_value city) @ t)" "set t \<subseteq> set (alphabet f)" "length t = nat (body_length f) + 1"
      by (rule registered_format.generated_code [OF FORMATS_registered [OF assms(5)] assms(6), where city = city]) blast+
    have "list_all (\<lambda>x. 32 < x \<and> x < 127) (stem @ cp ''://'' @ netloc @ butlast rest)"
      using assms(3) unfolding u' by (simp only: list_all_append)
    from fragment_swallows_code [OF assms(4,5) t(2,3) this] t(1) True show ?thesis using u' by metis
  qed
qed

lemma production_sample_environment:
  "environment_of sample_world (cleaned_settings sample_world production_sample) = cp ''production''"
  unfolding environment_of_def production_sample_cleaned by (simp add: production_sample_def ascii_lower_def)

definition evil_origin :: pystr where
  "evil_origin = cp ''http://evil.example''"

lemma evil_origin_parsed: "https_or_loopback sample_world evil_origin = Inr False"
  by (simp add: https_or_loopback_def evil_origin_def loopback_def LOCAL_HOSTS_def url_evaluation)

definition evil_write :: "unit request" where
  "evil_write = sample_request ''POST'' ''/api/v1/redemptions''
     [(''cookie'', ''lottery_passport_session=c''), (''x-requested-with'', ''fetch''), (''origin'', ''http://evil.example'')]"

theorem insecure_origin_refused_witness:
  "\<exists>app. create_app sample_world (\<lambda>_. tehran) (\<lambda>_. []) sample_hmac (cleaned_settings sample_world production_sample) = Inr app
     \<and> (\<exists>(x :: unit response) st'. csrf (\<lambda>_. False) (dp_gateway app) (\<lambda>_ st s. (Inl (Unhandled AssertionError), st, s + (1 :: nat))) evil_write
           \<lparr>ss_request_id = None, ss_error_code = None\<rparr> 7 = (Inr x, st', 7) \<and> rs_status x = 403)"
proof -
  let ?c = "cleaned_settings sample_world production_sample"
  have fields: "cfg_session_cookie_name ?c = ''lottery_passport_session''" "cfg_otp_allowed_phones ?c = []"
    "cfg_cors_origins ?c = cfg_cors_origins production_sample"
    unfolding production_sample_cleaned by (simp_all add: production_sample_def default_settings_def)
  have "allowed_otp_phones ?c = Inr []" by (simp add: allowed_otp_phones_def fields(2) strip_evaluation)
  moreover have "allowed_cors_origins ?c = Inr [cp ''http://localhost:3000'']"
    using production_sample_cors unfolding allowed_cors_origins_def fields(3) .
  ultimately obtain app where app: "create_app sample_world (\<lambda>_. tehran) (\<lambda>_. []) sample_hmac ?c = Inr app"
    "gs_cookie_name (dp_gateway app) = cp ''lottery_passport_session''"
    by (simp add: create_app_def gateway_settings_of_def fields(1) Let_def del: cp_Cons)
  have rq: "rq_http evil_write" "rq_method evil_write \<in> set UNSAFE_METHODS" "\<not> admin_path (rq_path evil_write)"
    "has_session (dp_gateway app) (rq_headers evil_write)" "header (rq_headers evil_write) ''origin'' = Some evil_origin" "evil_origin \<noteq> []"
    by (simp_all add: evil_write_def evil_origin_def sample_request_def UNSAFE_METHODS_def admin_path_def ADMIN_PATH_def starts_with_def
      has_session_def header_def app(2) strip_evaluation)
  have "environment_of sample_world ?c \<in> {cp ''staging'', cp ''production''}" "https_or_loopback sample_world evil_origin \<noteq> Inr True"
    by (simp_all add: production_sample_environment evil_origin_parsed)
  from insecure_origin_refused [OF production_sample_accepted this(1) app(1) rq this(2), of "\<lambda>_. False"
      "\<lambda>_ st s. (Inl (Unhandled AssertionError), st, s + (1 :: nat))" "\<lparr>ss_request_id = None, ss_error_code = None\<rparr>" "7 :: nat"]
  show ?thesis using app(1) by blast
qed

theorem public_origin_reads_back_witness:
  "\<exists>t. generate_code (\<lambda>i n. (7 * i) mod n) TOKYO CITY2_B9 = Some t
     \<and> parse_code ascii_unicode FORMATS (qr_url ascii_unicode (cp ''https://torshx.com'') t CITY2_B9) = Inr (parsed_as TOKYO t CITY2_B9)"
proof -
  have origin: "cfg_public_app_origin (cleaned_settings sample_world production_sample) = Some (cp ''https://torshx.com'')"
    unfolding production_sample_cleaned by simp
  have "list_all (\<lambda>x. 32 < x \<and> x < 127) (cp ''https://torshx.com'')" "35 \<notin> set (cp ''https://torshx.com'')"
    "CITY2_B9 \<in> set FORMATS"
    by (simp_all add: FORMATS_eq)
  then show ?thesis
    using public_origin_reads_back [OF production_sample_accepted origin _ ascii_unicode_laws, of CITY2_B9 "\<lambda>i n. (7 * i) mod n" TOKYO]
    by (simp del: cp_Cons)
qed

section \<open>The list of origins\<close>

text \<open>
  The list of origins is the one that was written. From a JSON array of strings without quotes, backslashes and
  control characters, with any white space between its parts, the settings read exactly those strings in their order,
  whatever they hold; and so does the guard of writes, whose list of origins is that one.
\<close>

theorem cors_origins_read_back:
  assumes "list_all json_space gap" "list_all plain_text ts" "cfg_cors_origins c = json_array gap ts"
  shows "allowed_cors_origins c = Inr ts \<and> (\<forall>app. create_app w zone_info city_names hmac c = Inr app \<longrightarrow>
    gs_allowed_origins (dp_gateway app) = ts \<and> (dp_allow_credentials app \<longleftrightarrow> ts \<noteq> [cp ''*'']))"
proof -
  have "strip (json_array gap ts) \<noteq> cp ''*''"
  proof
    assume "strip (json_array gap ts) = cp ''*''"
    moreover have "strip (json_array gap ts) = json_array gap ts"
      unfolding strip_def json_array_def strip_by_def lstrip_by_def rstrip_by_def
      by (simp add: is_space_def in_ranges_def space_ranges_def)
    ultimately show False by (simp add: json_array_def)
  qed
  then have read: "allowed_cors_origins c = Inr ts"
    by (simp add: allowed_cors_origins_def assms(3) json_array_parsed [OF assms(1,2)] json_text_def list_all_iff o_def)
  then show ?thesis by (auto simp: create_app_def gateway_settings_of_def Let_def split: sum.splits)
qed

theorem cors_origins_read_back_witness:
  "allowed_cors_origins (default_settings\<lparr>cfg_cors_origins := json_array [32, 10] [cp ''https://torshx.com'', cp ''https://b.example'']\<rparr>)
     = Inr [cp ''https://torshx.com'', cp ''https://b.example'']"
  using cors_origins_read_back [of "[32, 10]" "[cp ''https://torshx.com'', cp ''https://b.example'']"
    "default_settings\<lparr>cfg_cors_origins := json_array [32, 10] [cp ''https://torshx.com'', cp ''https://b.example'']\<rparr>"]
  by (simp add: json_space_def plain_text_def)

end
