(* ===== verification/Spec2Isabelle.thy ===== *)
theory Spec2Isabelle
  imports Print_Runs Draw Calendar Print_Run_Script Admin_Session Bank Leaderboards Gateway Api_Books Operator_Checks Deployment
begin

text \<open>
  \<^bold>\<open>The loyalty service, modelled from its source.\<close>

  Players sign in with a phone number, redeem codes printed in product packages, collect coins and entries in a
  weighted draw, join a flavor team, play a mini game, claim challenges and invite friends. Administrators work
  in a panel behind a second factor; operators print batches of codes with scripts. Everything is state in
  one PostgreSQL database, changed by services that run units of work.

  \<^bold>\<open>How the model is made.\<close> A table is a list of records (\<open>Models\<close>, from \<open>src/app/infrastructure/postgres/models.py\<close>), the
  database the record \<open>database\<close> of them. A service call is a function from its inputs and the database to an outcome and a
  database. An exception is a value: \<open>Raised e\<close> for the errors a service declares, \<open>Crash c\<close> for every other Python
  exception (\<open>Prelude\<close>). A transaction is \<open>tx\<close>, whose exceptions carry no tables; \<open>unit_of_work\<close> commits or rolls
  back (\<open>Models\<close>, from \<open>unit_of_work.py\<close>). Repositories that commit statement by statement are \<open>act\<close> (\<open>Users\<close>). The routes
  of the API compose services to a \<open>handler\<close> (\<open>Api\<close>), the middleware wraps it (\<open>Gateway\<close>).

  \<^bold>\<open>Theories and sources\<close> (under \<open>src/\<close>):
  \<^item> \<open>Prelude\<close>, \<open>Texts\<close>, \<open>Unicode\<close>: outcomes, transactions and the invariants they keep (\<open>tx_keeps\<close>, collection
    \<open>keeps_intros\<close>), SQL statements over lists, Python strings as code points, character categories.
  \<^item> \<open>Passports\<close>, \<open>Codes\<close>, \<open>Code_Checks\<close>: \<open>app/domain/passports.py\<close>, \<open>app/domain/codes.py\<close>. The Luhn mod N argument is made once
    in the locale \<open>sound_format\<close> and interpreted on both registered formats.
  \<^item> \<open>Print_Runs\<close>, \<open>Batches\<close>, \<open>Batch_Checks\<close>, \<open>Batch_Life\<close>, \<open>Print_Run_Script\<close>: \<open>app/domain/print_runs.py\<close>, \<open>scripts/generate_codes.py\<close>,
    \<open>scripts/code_batches.py\<close>, \<open>scripts/print_run.py\<close>, the pepper guard: allocation, generation, a batch as a state machine.
  \<^item> \<open>Draw\<close>: \<open>app/domain/draw.py\<close>, rejection sampling over a keyed hash.
  \<^item> \<open>Phone\<close>, \<open>Calendar\<close>: \<open>app/domain/phone.py\<close>, \<open>nickname.py\<close>, \<open>periods.py\<close>, \<open>calendar.py\<close>.
  \<^item> \<open>Ledger\<close>, \<open>Payments\<close>, \<open>Bank\<close>: \<open>SqlLedger\<close> and \<open>app/domain/ledger.py\<close>. The locales \<open>ledger_port\<close> and \<open>paying_port\<close> are what the
    services rely on; \<open>simulation\<close> carries the refinement of an abstract bank.
  \<^item> \<open>Redemption\<close>, \<open>Redemption_Checks\<close>: \<open>app/application/redemption_codes.py\<close> with its repositories and the failure throttle
    (locales \<open>failure_throttle\<close>, \<open>counting_throttle\<close>).
  \<^item> \<open>Teams\<close>, \<open>Mini_Games\<close>, \<open>Challenges\<close>, \<open>Referrals\<close>, \<open>Leaderboards\<close>: the services of the same names in \<open>app/domain\<close> and
    \<open>app/application\<close>, with achievements in \<open>Challenges\<close>.
  \<^item> \<open>Users\<close>, \<open>Coin_Adjustments\<close>, \<open>Totp\<close>, \<open>Authentication\<close>, \<open>Sign_In\<close>, \<open>Second_Factor\<close>, \<open>Admin_Session\<close>: accounts, profiles, sign-in, the
    second factor and the panel's session and forms (\<open>app/infrastructure/admin/__init__.py\<close>).
  \<^item> \<open>Gateway\<close>, \<open>Legal\<close>, \<open>Media\<close>: \<open>app/api/middleware.py\<close>, \<open>errors.py\<close>, \<open>legal.py\<close>, \<open>media.py\<close>.
  \<^item> \<open>Views\<close>, \<open>Schemas\<close>, \<open>Api\<close>, \<open>Api_Books\<close>, \<open>Api_Checks\<close>: the readers (\<open>me.py\<close>, \<open>wallets.py\<close>, \<open>passports.py\<close>, \<open>app_config.py\<close>), the request and
    response models, every route of \<open>app/api/v1\<close> with its gate, and what holds of all of them.

  \<^item> \<open>Operator\<close>, \<open>Operator_Checks\<close>: \<open>scripts/admins.py\<close>, \<open>venues.py\<close>, \<open>check_code.py\<close>, \<open>reset_test_users.py\<close>.
  \<^item> \<open>Settings\<close>, \<open>Deployment\<close>: \<open>app/core/config.py\<close> with what it uses of \<open>urlparse\<close> and \<open>json.loads\<close>, and \<open>create_app\<close> of \<open>app/app.py\<close>.

  \<^bold>\<open>What is shown.\<close>
  \<^item> Coins: over any run of API calls the wallets are the sums of an append-only ledger and nobody loses coins
    (\<open>Api_Books\<close>); the ledger refines an abstract bank (\<open>Bank\<close>); redemptions, challenges and referrals pay each reward once
    (\<open>Redemption_Checks\<close>, \<open>Challenges\<close>, \<open>Referrals\<close>).
  \<^item> Codes: a generated code parses back in every printed form, one wrong character is always seen, a printed code redeems, guessing is bounded
    (\<open>Code_Checks\<close>, \<open>Batch_Checks\<close>, \<open>Redemption_Checks\<close>).
  \<^item> Access: who the API lets in (\<open>Api_Checks\<close>), what a one-time code gives and how often it can be guessed, sessions that end for good,
    second factors that are not swapped, requests the panel lets pass (\<open>Sign_In\<close>, \<open>Second_Factor\<close>, \<open>Admin_Session\<close>), forged writes
    and the rate limit (\<open>Gateway\<close>).
  \<^item> Production: allocations are exact and fair, generation ends with the ordered codes, a batch only moves forward, a print run is all or
    nothing, quotas hold over any sequence of runs.
  \<^item> Play: the draw ends, with chances proportional to entries; team locks; mini game runs; period keys; the leaderboard.
  \<^item> Answers: every error with a code is one of the contract but one (\<open>Api_Checks\<close>); every response has its request id (\<open>Gateway\<close>); text typed by an
    administrator never becomes markup (\<open>Legal\<close>); what is served is what was uploaded (\<open>Media\<close>).
  \<^item> Deployment: what accepted production settings guarantee of the program built from them, which origins can write, and what the address of the site
    means for the printed codes (\<open>Deployment\<close>); the scripts of the operator (\<open>Operator_Checks\<close>).
  \<^item> Behaviour the code has and its comments do not promise is stated too, e.g. \<open>totp_guesses_unlimited\<close>,
    \<open>superseded_terms_editable\<close>, \<open>refused_patch_keeps_profile\<close>, \<open>malformed_origin_escapes\<close>, \<open>leaderboard_ties_disagree\<close>.

  \<^bold>\<open>Conventions.\<close> A \<open>datetime\<close> is its number of microseconds since 1970 in UTC, a date its number of days, a zone a record of
  its offsets, a UUID a 128 bit word, user text a list of code points, identifiers the program itself makes a \<open>string\<close>.
  Averages and floats are exact rationals.

  \<^bold>\<open>Arguments of the model\<close>, where the code calls what is not in the repository: SHA-256, HMAC, the cipher, Unicode normal forms and
  case mappings, the collation of text columns (\<open>rank\<close>), the clocks, \<open>uuid4\<close>, random choices, delivery of text messages, the time zone data and the check of IP literals,
  outages of the database and of the file system, the order in which PostgreSQL returns rows no \<open>ORDER BY\<close> decides, Starlette's CORS
  middleware, the text of pydantic's errors. Theorems that need one of them to behave as documented say so in a hypothesis.

  \<^bold>\<open>Loops.\<close> Most are structural. The rejection loop of the draw is a \<open>partial_function\<close>: \<open>None\<close> is a loop that does not return, and it is shown
  to return whenever the keyed hash of each label is accepted at some counter. The loops that generate a batch take \<open>rounds\<close> and \<open>tries\<close>,
  \<open>None\<close> meaning not ended; as many rounds as codes are ordered and as many tries as one insert holds (\<open>INSERT_CHUNK\<close>, or the quantity when it is
  smaller) are shown to be enough when draws do not collide. The loop of run ids has the number of batches plus one as fuel, the
  streak loop the number of claimed days plus one, and both are shown to be enough. The JSON scanner takes twice the length of the text and
  two more, which gives the answer of any larger fuel (\<open>json_enough\<close>).

  \<^bold>\<open>Not modelled.\<close> Concurrency: a transaction is one step, which the row locks the code takes make right for one user's calls.
  Foreign keys are checked only where a definition lists them, lengths of columns not at all. Reading the
  environment into settings (pydantic), logging, the SMS provider's HTTP API, AES-GCM, the tables and edit forms SQLAdmin draws, the Alembic
  migrations, and the scripts that only print or talk to a running server.
\<close>

end
